(* ===== verification/Prelude.thy ===== *)
theory Prelude
  imports Main "HOL-Library.Word"
begin

text \<open>
  Shared vocabulary of the development: the machine integer types of the kernel, the outcome of a
  Rust function (a value, an error of its \<open>Result\<close>, or a panic), state-passing actions over such
  outcomes, byte slices with the range checks of the Rust slice operations, little-endian byte
  encodings, and the searches of \<open>core::iter\<close> the kernel uses on its vectors.
  The kernel is built in release mode, so machine arithmetic wraps; \<open>usize\<close> values that are bounded
  by the length of a container in memory are modelled as \<^typ>\<open>nat\<close>.
\<close>

unbundle bit_operations_syntax

named_theorems slice_simps \<open>length and lookup facts about slices\<close>
named_theorems act_simps \<open>evaluation of state-passing actions\<close>


section \<open>Machine integers\<close>

type_synonym u8 = "8 word"
type_synonym u16 = "16 word"
type_synonym u32 = "32 word"
type_synonym u64 = "64 word"
type_synonym bytes = "8 word list"


section \<open>Outcomes\<close>

text \<open>
  A call of a Rust function returns a value, returns the error of its \<open>Result\<close> type, or panics
  (an index out of range, \<open>unwrap\<close> of \<open>None\<close>, a division by zero, a failed \<open>assert!\<close>).
\<close>

datatype ('a, 'e) outcome = Ok 'a | Err 'e | Panic

primrec map_err :: "('e \<Rightarrow> 'f) \<Rightarrow> ('a, 'e) outcome \<Rightarrow> ('a, 'f) outcome" where
  "map_err f (Ok x) = Ok x"
| "map_err f (Err e) = Err (f e)"
| "map_err f Panic = Panic"

primrec map_ok :: "('a \<Rightarrow> 'b) \<Rightarrow> ('a, 'e) outcome \<Rightarrow> ('b, 'e) outcome" where
  "map_ok f (Ok x) = Ok (f x)"
| "map_ok f (Err e) = Err e"
| "map_ok f Panic = Panic"

primrec and_then :: "('a, 'e) outcome \<Rightarrow> ('a \<Rightarrow> ('b, 'e) outcome) \<Rightarrow> ('b, 'e) outcome" where
  "and_then (Ok x) f = f x"
| "and_then (Err e) f = Err e"
| "and_then Panic f = Panic"

primrec ok_or :: "'e \<Rightarrow> 'a option \<Rightarrow> ('a, 'e) outcome" where
  "ok_or e None = Err e"
| "ok_or e (Some x) = Ok x"

lemma and_then_Ok_iff [simp]: "and_then m f = Ok y \<longleftrightarrow> (\<exists>x. m = Ok x \<and> f x = Ok y)"
  by (cases m) auto

lemma map_err_Ok_iff [simp]: "map_err f m = Ok y \<longleftrightarrow> m = Ok y"
  by (cases m) auto

lemma map_ok_Ok_iff [simp]: "map_ok f m = Ok y \<longleftrightarrow> (\<exists>x. m = Ok x \<and> y = f x)"
  by (cases m) auto

lemma ok_or_Ok_iff [simp]: "ok_or e m = Ok y \<longleftrightarrow> m = Some y"
  by (cases m) auto


section \<open>State-passing actions\<close>

text \<open>
  A method that mutates its receiver: the receiver before the call to the outcome and the receiver
  after it. The state is returned on the error paths too, because a method that fails half way
  leaves its earlier writes behind.
\<close>

type_synonym ('s, 'a, 'e) act = "'s \<Rightarrow> ('a, 'e) outcome \<times> 's"

definition act_return :: "'a \<Rightarrow> ('s, 'a, 'e) act" where
  "act_return x s = (Ok x, s)"

definition act_fail :: "'e \<Rightarrow> ('s, 'a, 'e) act" where
  "act_fail e s = (Err e, s)"

definition act_panic :: "('s, 'a, 'e) act" where
  "act_panic s = (Panic, s)"

definition act_bind :: "('s, 'a, 'e) act \<Rightarrow> ('a \<Rightarrow> ('s, 'b, 'e) act) \<Rightarrow> ('s, 'b, 'e) act" where
  "act_bind m f s =
     (case m s of
        (Ok x, s') \<Rightarrow> f x s'
      | (Err e, s') \<Rightarrow> (Err e, s')
      | (Panic, s') \<Rightarrow> (Panic, s'))"

definition act_map_err :: "('e \<Rightarrow> 'f) \<Rightarrow> ('s, 'a, 'e) act \<Rightarrow> ('s, 'a, 'f) act" where
  "act_map_err g m s = (case m s of (r, s') \<Rightarrow> (map_err g r, s'))"

definition act_lift :: "('s \<Rightarrow> ('a, 'e) outcome) \<Rightarrow> ('s, 'a, 'e) act" where
  "act_lift f s = (f s, s)"

definition act_modify :: "('s \<Rightarrow> 's) \<Rightarrow> ('s, unit, 'e) act" where
  "act_modify f s = (Ok (), f s)"

text \<open>\<open>for x in xs { body(x)? }\<close>\<close>

fun act_for :: "'b list \<Rightarrow> ('b \<Rightarrow> ('s, unit, 'e) act) \<Rightarrow> ('s, unit, 'e) act" where
  "act_for [] body = act_return ()"
| "act_for (x # xs) body = act_bind (body x) (\<lambda>_. act_for xs body)"

text \<open>\<open>let _ = m;\<close>: an error of \<open>m\<close> is dropped, a panic is not.\<close>

definition act_ignore :: "('s, 'a, 'f) act \<Rightarrow> ('s, unit, 'e) act" where
  "act_ignore m s =
     (case m s of
        (Ok x, s') \<Rightarrow> (Ok (), s')
      | (Err e, s') \<Rightarrow> (Ok (), s')
      | (Panic, s') \<Rightarrow> (Panic, s'))"

lemma act_return_run [act_simps, simp]: "act_return x s = (Ok x, s)"
  by (simp add: act_return_def)

lemma act_fail_run [act_simps, simp]: "act_fail e s = (Err e, s)"
  by (simp add: act_fail_def)

lemma act_panic_run [act_simps, simp]: "act_panic s = (Panic, s)"
  by (simp add: act_panic_def)

lemma act_lift_run [act_simps, simp]: "act_lift f s = (f s, s)"
  by (simp add: act_lift_def)

lemma act_modify_run [act_simps, simp]: "act_modify f s = (Ok (), f s)"
  by (simp add: act_modify_def)

lemma act_bind_Ok [act_simps]: "m s = (Ok x, s') \<Longrightarrow> act_bind m f s = f x s'"
  by (simp add: act_bind_def)

lemma act_bind_Err [act_simps]: "m s = (Err e, s') \<Longrightarrow> act_bind m f s = (Err e, s')"
  by (simp add: act_bind_def)

lemma act_bind_Ok_iff:
  "act_bind m f s = (Ok y, t) \<longleftrightarrow> (\<exists>x s'. m s = (Ok x, s') \<and> f x s' = (Ok y, t))"
  by (cases "m s") (auto simp: act_bind_def split: outcome.splits)

lemma act_bind_assoc: "act_bind (act_bind m f) g = act_bind m (\<lambda>x. act_bind (f x) g)"
  by (rule ext) (auto simp: act_bind_def split: prod.splits outcome.splits)

lemma act_for_append: "act_for (xs @ ys) body = act_bind (act_for xs body) (\<lambda>_. act_for ys body)"
proof (induction xs)
  case Nil
  show ?case by (rule ext) (simp add: act_bind_def)
next
  case (Cons x xs)
  then show ?case by (simp add: act_bind_assoc)
qed

lemma act_bind_return [simp]: "act_bind m (\<lambda>_. act_return ()) = m" for m :: "('s, unit, 'e) act"
  by (rule ext) (auto simp: act_bind_def split: prod.splits outcome.splits)

lemma act_map_err_Ok [act_simps]: "m s = (Ok x, s') \<Longrightarrow> act_map_err g m s = (Ok x, s')"
  by (simp add: act_map_err_def)

lemma act_map_err_Ok_iff [simp]: "act_map_err g m s = (Ok x, s') \<longleftrightarrow> m s = (Ok x, s')"
  by (cases "m s") (auto simp: act_map_err_def)


section \<open>Slices\<close>

text \<open>
  \<open>&xs[off..off + n]\<close> and \<open>xs[off..off + ys.len()].copy_from_slice(ys)\<close>: both panic when the range
  leaves the slice.
\<close>

definition slice_get :: "'a list \<Rightarrow> nat \<Rightarrow> nat \<Rightarrow> ('a list, 'e) outcome" where
  "slice_get xs off n = (if off + n \<le> length xs then Ok (take n (drop off xs)) else Panic)"

definition overwrite :: "'a list \<Rightarrow> nat \<Rightarrow> 'a list \<Rightarrow> 'a list" where
  "overwrite xs off ys = take off xs @ ys @ drop (off + length ys) xs"

definition slice_put :: "'a list \<Rightarrow> nat \<Rightarrow> 'a list \<Rightarrow> ('a list, 'e) outcome" where
  "slice_put xs off ys = (if off + length ys \<le> length xs then Ok (overwrite xs off ys) else Panic)"

text \<open>\<open>Vec::resize(n, x)\<close>\<close>

definition vec_resize :: "'a list \<Rightarrow> nat \<Rightarrow> 'a \<Rightarrow> 'a list" where
  "vec_resize xs n x = take n xs @ replicate (n - length xs) x"

lemma length_overwrite [slice_simps, simp]:
  "off + length ys \<le> length xs \<Longrightarrow> length (overwrite xs off ys) = length xs"
  by (simp add: overwrite_def)

lemma nth_overwrite [slice_simps]:
  assumes "off + length ys \<le> length xs" and "i < length xs"
  shows "overwrite xs off ys ! i = (if off \<le> i \<and> i < off + length ys then ys ! (i - off) else xs ! i)"
  using assms by (auto simp: overwrite_def nth_append min_def)

lemma overwrite_same [simp]:
  "off + length ys \<le> length xs \<Longrightarrow> take (length ys) (drop off (overwrite xs off ys)) = ys"
  by (simp add: overwrite_def)

lemma take_drop_overwrite_disjoint [slice_simps]:
  assumes "off + length ys \<le> length xs" and "a + n \<le> off \<or> off + length ys \<le> a"
  shows "take n (drop a (overwrite xs off ys)) = take n (drop a xs)"
proof (rule nth_equalityI)
  show "length (take n (drop a (overwrite xs off ys))) = length (take n (drop a xs))"
    using assms(1) by simp
  fix i assume "i < length (take n (drop a (overwrite xs off ys)))"
  then have i: "i < n" "a + i < length xs" using assms(1) by auto
  then have "take n (drop a (overwrite xs off ys)) ! i = overwrite xs off ys ! (a + i)"
    using assms(1) by simp
  also have "\<dots> = xs ! (a + i)"
    using assms i by (auto simp: nth_overwrite)
  finally show "take n (drop a (overwrite xs off ys)) ! i = take n (drop a xs) ! i"
    using i by simp
qed

lemma overwrite_overwrite_same [simp]:
  "off + length ys \<le> length xs \<Longrightarrow> length zs = length ys \<Longrightarrow>
   overwrite (overwrite xs off ys) off zs = overwrite xs off zs"
  by (simp add: overwrite_def)

lemma overwrite_id:
  "off + n \<le> length xs \<Longrightarrow> overwrite xs off (take n (drop off xs)) = xs"
  by (rule nth_equalityI) (auto simp: nth_overwrite min_def)

lemma overwrite_nil [simp]: "overwrite xs off [] = xs"
  by (simp add: overwrite_def)

lemma overwrite_append:
  "off \<le> length xs \<Longrightarrow> overwrite (xs @ ys) off zs =
     overwrite xs off (take (length xs - off) zs) @ overwrite ys 0 (drop (length xs - off) zs)"
  by (cases "length xs - off \<le> length zs") (auto simp: overwrite_def add.commute)

lemma overwrite_append2:
  "overwrite (xs @ ys) (length xs + off) zs = xs @ overwrite ys off zs"
  by (simp add: overwrite_def)

lemma take_overwrite: "m \<le> off \<Longrightarrow> off \<le> length xs \<Longrightarrow> take m (overwrite xs off ys) = take m xs"
  by (simp add: overwrite_def min_def)

lemma drop_overwrite: "off + length ys \<le> n \<Longrightarrow> off \<le> length xs \<Longrightarrow> drop n (overwrite xs off ys) = drop n xs"
  by (simp add: overwrite_def)

lemma overwrite_slice:
  "off + length ys \<le> length xs \<Longrightarrow> off + length ys \<le> n \<Longrightarrow>
   take (length ys) (drop off (take n (overwrite xs off ys))) = ys"
  by (simp add: overwrite_def drop_take)

lemma length_vec_resize [slice_simps, simp]: "length (vec_resize xs n x) = n"
  by (simp add: vec_resize_def)

lemma nth_vec_resize [slice_simps]:
  "i < n \<Longrightarrow> vec_resize xs n x ! i = (if i < length xs then xs ! i else x)"
  by (auto simp: vec_resize_def nth_append)

text \<open>A buffer is the concatenation of its blocks.\<close>

lemma concat_chunks:
  "length xs = k * n \<Longrightarrow> concat (map (\<lambda>i. take n (drop (i * n) xs)) [0..<k]) = xs"
proof (induction k arbitrary: xs)
  case (Suc k)
  have "take n (drop (i * n) (take (k * n) xs)) = take n (drop (i * n) xs)" if "i < k" for i
  proof -
    have "i * n + n \<le> k * n" using mult_le_mono1 [of "Suc i" k n] that by simp
    then show ?thesis by (simp add: take_drop min_def add.commute)
  qed
  then have chunks: "map (\<lambda>i. take n (drop (i * n) xs)) [0..<k] =
      map (\<lambda>i. take n (drop (i * n) (take (k * n) xs))) [0..<k]"
    by simp
  have "concat (map (\<lambda>i. take n (drop (i * n) xs)) [0..<k]) = take (k * n) xs"
    unfolding chunks using Suc.IH [of "take (k * n) xs"] Suc.prems by simp
  then show ?case using Suc.prems by simp
qed simp

text \<open>\<open>slice::chunks(n)\<close>: pieces of \<open>n\<close> elements, the last one may be shorter.\<close>

function chunks :: "nat \<Rightarrow> 'a list \<Rightarrow> 'a list list" where
  "chunks n xs = (if xs = [] \<or> n = 0 then [] else take n xs # chunks n (drop n xs))"
  by pat_completeness auto

termination
  by (relation "measure (\<lambda>(n, xs). length xs)") auto

declare chunks.simps [simp del]

lemma chunks_map:
  "0 < n \<Longrightarrow> length xs = k * n \<Longrightarrow> chunks n xs = map (\<lambda>i. take n (drop (i * n) xs)) [0..<k]"
proof (induction k arbitrary: xs)
  case (Suc k)
  have "chunks n xs = take n xs # chunks n (drop n xs)" using Suc.prems by (subst chunks.simps) auto
  also have "chunks n (drop n xs) = map (\<lambda>i. take n (drop (i * n) (drop n xs))) [0..<k]"
    using Suc.prems by (intro Suc.IH) auto
  also have "take n xs # \<dots> = map (\<lambda>i. take n (drop (i * n) xs)) (0 # map Suc [0..<k])"
    by (simp add: o_def add.commute)
  also have "0 # map Suc [0..<k] = [0..<Suc k]" by (simp add: map_Suc_upt upt_conv_Cons)
  finally show ?case .
qed (simp add: chunks.simps)

lemma length_chunks: "0 < n \<Longrightarrow> length xs = k * n \<Longrightarrow> length (chunks n xs) = k"
  by (simp add: chunks_map)

lemma chunk_lengths: "0 < n \<Longrightarrow> length xs = k * n \<Longrightarrow> s \<in> set (chunks n xs) \<Longrightarrow> length s = n"
proof -
  assume a: "0 < n" "length xs = k * n" "s \<in> set (chunks n xs)"
  then obtain i where i: "i < k" "s = take n (drop (i * n) xs)" by (auto simp: chunks_map)
  have "Suc i * n \<le> k * n" using i(1) by (intro mult_le_mono1) simp
  then show "length s = n" using i(2) a(2) by simp
qed

lemma chunks_overwrite:
  assumes n: "0 < n" and len: "length xs = k * n" and i: "i < k" and ys: "length ys = n"
  shows "chunks n (overwrite xs (i * n) ys) = (chunks n xs)[i := ys]"
proof -
  have "Suc i * n \<le> k * n" using i by (intro mult_le_mono1) simp
  then have fits: "i * n + length ys \<le> length xs" using len ys by simp
  have "chunks n (overwrite xs (i * n) ys) ! j = (chunks n xs)[i := ys] ! j" if "j < k" for j
  proof (cases "j = i")
    case True
    then show ?thesis using that fits overwrite_same [OF fits] ys len n by (simp add: chunks_map [of n _ k])
  next
    case False
    then have "Suc j \<le> i \<or> Suc i \<le> j" by linarith
    then have "Suc j * n \<le> i * n \<or> Suc i * n \<le> j * n" using mult_le_mono1 by blast
    then have "j * n + n \<le> i * n \<or> i * n + length ys \<le> j * n" using ys by (simp add: add.commute)
    from take_drop_overwrite_disjoint [OF fits this] show ?thesis
      using that False fits len n by (simp add: chunks_map [of n _ k])
  qed
  then show ?thesis using fits len n by (intro nth_equalityI) (simp_all add: length_chunks [of n _ k])
qed

lemma slice_get_Ok_iff: "slice_get xs off n = Ok ys \<longleftrightarrow> off + n \<le> length xs \<and> ys = take n (drop off xs)"
  by (auto simp: slice_get_def)

lemma slice_put_Ok_iff: "slice_put xs off ys = Ok zs \<longleftrightarrow> off + length ys \<le> length xs \<and> zs = overwrite xs off ys"
  by (auto simp: slice_put_def)


section \<open>Searches\<close>

text \<open>\<open>xs.iter().position(p)\<close>\<close>

primrec position :: "('a \<Rightarrow> bool) \<Rightarrow> 'a list \<Rightarrow> nat option" where
  "position p [] = None"
| "position p (x # xs) = (if p x then Some 0 else map_option Suc (position p xs))"

text \<open>\<open>Vec::remove(i)\<close> for an index in range\<close>

definition vec_remove :: "nat \<Rightarrow> 'a list \<Rightarrow> 'a list" where
  "vec_remove i xs = take i xs @ drop (Suc i) xs"

text \<open>A search in an association list by key.\<close>

lemma find_map_of: "map_option snd (find (\<lambda>(k, _). k = x) kvs) = map_of kvs x"
  by (induction kvs) auto

lemma position_None_iff: "position p xs = None \<longleftrightarrow> (\<forall>x \<in> set xs. \<not> p x)"
  by (induction xs) auto

lemma position_SomeD:
  "position p xs = Some i \<Longrightarrow> i < length xs \<and> p (xs ! i) \<and> (\<forall>j < i. \<not> p (xs ! j))"
proof (induction xs arbitrary: i)
  case Nil
  then show ?case by simp
next
  case (Cons x xs)
  then show ?case
    by (cases i) (auto simp: less_Suc_eq_0_disj split: if_splits)
qed

lemma position_ex: "\<exists>x \<in> set xs. p x \<Longrightarrow> \<exists>i. position p xs = Some i"
  by (metis not_Some_eq position_None_iff)

lemma length_vec_remove [simp]: "i < length xs \<Longrightarrow> length (vec_remove i xs) = length xs - 1"
  by (simp add: vec_remove_def)

lemma set_vec_remove_subset: "set (vec_remove i xs) \<subseteq> set xs"
  by (auto simp: vec_remove_def dest: in_set_takeD in_set_dropD)

lemma vec_remove_append: "xs = as @ x # bs \<Longrightarrow> length as = i \<Longrightarrow> vec_remove i xs = as @ bs"
  by (simp add: vec_remove_def)

lemma sorted_wrt_vec_remove:
  assumes "sorted_wrt P xs"
  shows "sorted_wrt P (vec_remove i xs)"
proof -
  have "sorted_wrt P (take i xs @ drop i xs)" using assms by simp
  then have *: "sorted_wrt P (take i xs)" "sorted_wrt P (drop i xs)"
    "\<forall>x \<in> set (take i xs). \<forall>y \<in> set (drop i xs). P x y"
    unfolding sorted_wrt_append by blast+
  have "set (drop (Suc i) xs) \<subseteq> set (drop i xs)" by (rule set_drop_subset_set_drop) simp
  then show ?thesis
    using * sorted_wrt_drop [OF assms, of "Suc i"] unfolding vec_remove_def sorted_wrt_append by blast
qed

lemma distinct_vec_remove: "distinct xs \<Longrightarrow> distinct (vec_remove i xs)"
  by (simp add: vec_remove_def set_take_disj_set_drop_if_distinct)

lemma map_vec_remove: "map f (vec_remove i xs) = vec_remove i (map f xs)"
  by (simp add: vec_remove_def take_map drop_map)


section \<open>Little-endian encodings\<close>

text \<open>\<open>to_le_bytes\<close> and \<open>from_le_bytes\<close> of the unsigned integer types.\<close>

definition u16_to_le_bytes :: "u16 \<Rightarrow> bytes" where
  "u16_to_le_bytes w = [ucast w, ucast (drop_bit 8 w)]"

definition u16_from_le_bytes :: "u8 \<Rightarrow> u8 \<Rightarrow> u16" where
  "u16_from_le_bytes a b = ucast a OR push_bit 8 (ucast b)"

definition u32_to_le_bytes :: "u32 \<Rightarrow> bytes" where
  "u32_to_le_bytes w = [ucast w, ucast (drop_bit 8 w), ucast (drop_bit 16 w), ucast (drop_bit 24 w)]"

definition u32_from_le_bytes :: "u8 \<Rightarrow> u8 \<Rightarrow> u8 \<Rightarrow> u8 \<Rightarrow> u32" where
  "u32_from_le_bytes a b c d =
     ucast a OR push_bit 8 (ucast b) OR push_bit 16 (ucast c) OR push_bit 24 (ucast d)"

definition u64_to_le_bytes :: "u64 \<Rightarrow> bytes" where
  "u64_to_le_bytes w = map (\<lambda>i. ucast (drop_bit (8 * i) w)) [0..<8]"

lemma length_u64_to_le_bytes [simp]: "length (u64_to_le_bytes w) = 8"
  by (simp add: u64_to_le_bytes_def)

lemma length_u16_to_le_bytes [simp]: "length (u16_to_le_bytes w) = 2"
  by (simp add: u16_to_le_bytes_def)

lemma length_u32_to_le_bytes [simp]: "length (u32_to_le_bytes w) = 4"
  by (simp add: u32_to_le_bytes_def)

lemma u8_high_bit [simp]: "8 \<le> n \<Longrightarrow> \<not> bit (b :: u8) n"
  by (auto dest: bit_imp_le_length)

lemma u16_from_to_le [simp]: "u16_from_le_bytes (ucast w) (ucast (drop_bit 8 w)) = w"
  by (rule bit_word_eqI) (auto simp: u16_from_le_bytes_def bit_simps)

lemma u32_from_to_le [simp]:
  "u32_from_le_bytes (ucast w) (ucast (drop_bit 8 w)) (ucast (drop_bit 16 w)) (ucast (drop_bit 24 w)) = w"
proof (rule bit_word_eqI)
  fix n assume "n < LENGTH(32)"
  then consider "n < 8" | "8 \<le> n" "n < 16" | "16 \<le> n" "n < 24" | "24 \<le> n" "n < 32"
    by fastforce
  then show "bit (u32_from_le_bytes (ucast w) (ucast (drop_bit 8 w)) (ucast (drop_bit 16 w))
      (ucast (drop_bit 24 w))) n = bit w n"
    by cases (auto simp: u32_from_le_bytes_def bit_simps)
qed

lemma u16_to_from_le [simp]: "u16_to_le_bytes (u16_from_le_bytes a b) = [a, b]"
  by (auto simp: u16_to_le_bytes_def u16_from_le_bytes_def bit_simps
      intro!: bit_word_eqI)

lemma u32_to_from_le [simp]: "u32_to_le_bytes (u32_from_le_bytes a b c d) = [a, b, c, d]"
  by (auto simp: u32_to_le_bytes_def u32_from_le_bytes_def bit_simps
      intro!: bit_word_eqI)


section \<open>Word arithmetic that does not wrap\<close>

lemma unat_less_exp: "unat w < 2 ^ LENGTH('a)" for w :: "'a::len word"
  by (fact unsigned_less)

lemma unat_add_of_nat:
  "unat w + n < 2 ^ LENGTH('a) \<Longrightarrow> unat (w + of_nat n) = unat w + n" for w :: "'a::len word"
  by (simp add: unat_word_ariths unat_of_nat mod_add_right_eq)

lemma unat_mult_of_nat:
  "unat w * n < 2 ^ LENGTH('a) \<Longrightarrow> unat (w * of_nat n) = unat w * n" for w :: "'a::len word"
  by (simp add: unat_word_ariths unat_of_nat mod_mult_right_eq)

lemma unat_add_small:
  "unat a + unat b < 2 ^ LENGTH('a) \<Longrightarrow> unat (a + b) = unat a + unat b" for a b :: "'a::len word"
  by (simp add: unat_word_ariths)

lemma unat_mult_small:
  "unat a * unat b < 2 ^ LENGTH('a) \<Longrightarrow> unat (a * b) = unat a * unat b" for a b :: "'a::len word"
  by (simp add: unat_word_ariths)

lemma unat_of_nat_small: "n < 2 ^ LENGTH('a) \<Longrightarrow> unat (of_nat n :: 'a::len word) = n"
  by (simp add: unat_of_nat)


lemma unat_ucast_up:
  "LENGTH('a) \<le> LENGTH('b) \<Longrightarrow> unat (ucast w :: 'b::len word) = unat w" for w :: "'a::len word"
proof -
  assume "LENGTH('a) \<le> LENGTH('b)"
  then have "unat w < 2 ^ LENGTH('b)"
    using unat_less_exp [of w] by (meson le_less_trans less_imp_le_nat order_less_le_trans power_increasing one_le_numeral)
  then show ?thesis by (simp add: unsigned_ucast_eq take_bit_nat_eq_self)
qed

text \<open>The widening casts of the kernel.\<close>

lemma unat_widen [simp]:
  "unat (ucast (a :: u8) :: u16) = unat a" "unat (ucast (a :: u8) :: u32) = unat a"
  "unat (ucast (b :: u16) :: u32) = unat b" "unat (ucast (b :: u16) :: u64) = unat b"
  "unat (ucast (c :: u32) :: u64) = unat c" "unat (ucast (a :: u8) :: u64) = unat a"
  by (simp_all add: unat_ucast_up)


section \<open>Single bits of a word\<close>

text \<open>The simplifier writes \<open>1 << n\<close> as a power of two.\<close>

lemma bit_or_exp [simp]:
  "n < LENGTH('a) \<Longrightarrow> bit (w OR 2 ^ n) m \<longleftrightarrow> bit w m \<or> m = n" for w :: "'a::len word"
  by (auto simp: bit_simps)

lemma bit_and_not_exp [simp]:
  "n < LENGTH('a) \<Longrightarrow> bit (w AND NOT (2 ^ n)) m \<longleftrightarrow> bit w m \<and> m \<noteq> n" for w :: "'a::len word"
  by (auto simp: bit_simps dest: bit_imp_le_length)

lemma and_exp_eq_0_iff [simp]:
  "w AND 2 ^ n = 0 \<longleftrightarrow> \<not> bit w n" for w :: "'a::len word"
  by (metis and_exp_eq_0_iff_not_bit)

end
