(* ===== verification/Frame_Alloc.thy ===== *)
theory Frame_Alloc
  imports Prelude
begin

text \<open>
  The bitmap page frame allocator of \<open>src/mm/page.rs\<close>. The state of \<open>FrameAllocator\<close> is a record with
  the bitmap as the list of its 64-bit words; page \<open>p\<close> is bit \<open>p mod 64\<close> of word \<open>p div 64\<close>, and a
  set bit means the page is in use. The bitmap is stored in the managed region itself; the model
  keeps it apart, which is sound because its pages are marked as in use before the first allocation
  and are never handed out. Addresses, sizes and page numbers are natural numbers: the managed region lies in the address
  space, so the \<open>usize\<close> arithmetic on its pages does not wrap around. The locale \<open>frame_pool\<close> is the contract the users of \<open>alloc_frame\<close> and
  \<open>free_frame\<close> rely on; it is interpreted on the model of the code.
\<close>

section \<open>State and operations\<close>

definition PAGE_SIZE :: nat where
  "PAGE_SIZE = 4096"

record FrameAllocator =
  fa_base :: nat
  fa_total_pages :: nat
  fa_bitmap :: "u64 list"
  fa_bitmap_len :: nat
  fa_next_search :: nat
  fa_allocated_count :: nat

definition FrameAllocator_new :: FrameAllocator where
  "FrameAllocator_new =
     \<lparr>fa_base = 0, fa_total_pages = 0, fa_bitmap = [], fa_bitmap_len = 0,
      fa_next_search = 0, fa_allocated_count = 0\<rparr>"

definition is_page_free :: "FrameAllocator \<Rightarrow> nat \<Rightarrow> bool" where
  "is_page_free fa page_idx =
     (if page_idx \<ge> fa_total_pages fa then False
      else
        let word_idx = page_idx div 64;
            bit_idx = page_idx mod 64;
            word = fa_bitmap fa ! word_idx
        in word AND push_bit bit_idx 1 = 0)"

definition bitmap_set :: "u64 list \<Rightarrow> nat \<Rightarrow> u64 list" where
  "bitmap_set bm page_idx =
     bm[page_idx div 64 := bm ! (page_idx div 64) OR push_bit (page_idx mod 64) 1]"

definition bitmap_clear :: "u64 list \<Rightarrow> nat \<Rightarrow> u64 list" where
  "bitmap_clear bm page_idx =
     bm[page_idx div 64 := bm ! (page_idx div 64) AND NOT (push_bit (page_idx mod 64) 1)]"

definition mark_allocated :: "nat \<Rightarrow> FrameAllocator \<Rightarrow> FrameAllocator" where
  "mark_allocated page_idx fa = fa\<lparr>fa_bitmap := bitmap_set (fa_bitmap fa) page_idx\<rparr>"

definition mark_free :: "nat \<Rightarrow> FrameAllocator \<Rightarrow> FrameAllocator" where
  "mark_free page_idx fa = fa\<lparr>fa_bitmap := bitmap_clear (fa_bitmap fa) page_idx\<rparr>"

text \<open>\<open>FrameAllocator::init\<close>: the \<open>assert!\<close> on the alignment of the base is the panic.\<close>

definition FrameAllocator_init ::
    "FrameAllocator \<Rightarrow> nat \<Rightarrow> nat \<Rightarrow> (FrameAllocator, string) outcome" where
  "FrameAllocator_init fa base sz =
     (if base mod PAGE_SIZE \<noteq> 0 then Panic
      else
        let total_pages = sz div PAGE_SIZE;
            bitmap_u64s = (total_pages + 63) div 64;
            bitmap_bytes = bitmap_u64s * 8;
            bitmap_pages = (bitmap_bytes + PAGE_SIZE - 1) div PAGE_SIZE;
            zeroed = replicate bitmap_u64s 0;
            bm = fold (\<lambda>page_idx b. bitmap_set b page_idx) [0..<bitmap_pages] zeroed
        in Ok (fa\<lparr>fa_base := base, fa_total_pages := total_pages, fa_bitmap := bm,
                  fa_bitmap_len := bitmap_u64s, fa_next_search := bitmap_pages,
                  fa_allocated_count := bitmap_pages\<rparr>))"

text \<open>
  The search loop of \<open>alloc_pages\<close>: \<open>fuel\<close> is the number of iterations the \<open>for\<close> loop has left
  (the code starts it at \<open>total_pages\<close>); the result is the first page of the run that was found.
\<close>

fun alloc_scan :: "FrameAllocator \<Rightarrow> nat \<Rightarrow> nat \<Rightarrow> nat \<Rightarrow> nat \<Rightarrow> nat \<Rightarrow> nat option" where
  "alloc_scan fa count 0 start_page consecutive first_page = None"
| "alloc_scan fa count (Suc fuel) start_page consecutive first_page =
     (let (start_page, consecutive) =
            (if start_page \<ge> fa_total_pages fa then (0, 0) else (start_page, consecutive))
      in if is_page_free fa start_page then
           let first_page = (if consecutive = 0 then start_page else first_page)
           in if consecutive + 1 = count then Some first_page
              else alloc_scan fa count fuel (start_page + 1) (consecutive + 1) first_page
         else alloc_scan fa count fuel (start_page + 1) 0 first_page)"

definition alloc_pages :: "FrameAllocator \<Rightarrow> nat \<Rightarrow> nat option \<times> FrameAllocator" where
  "alloc_pages fa count =
     (if count = 0 then (None, fa)
      else case alloc_scan fa count (fa_total_pages fa) (fa_next_search fa) 0 0 of
             None \<Rightarrow> (None, fa)
           | Some first_page \<Rightarrow>
               (let fa1 = fold (\<lambda>i a. mark_allocated (first_page + i) a) [0..<count] fa
                in (Some (fa_base fa + first_page * PAGE_SIZE),
                    fa1\<lparr>fa_allocated_count := fa_allocated_count fa1 + count,
                        fa_next_search := first_page + count\<rparr>)))"

definition alloc_page :: "FrameAllocator \<Rightarrow> nat option \<times> FrameAllocator" where
  "alloc_page fa = alloc_pages fa 1"

text \<open>One iteration of the loop of \<open>free_pages\<close>; the subtraction on \<^typ>\<open>nat\<close> is the saturating one.\<close>

definition free_step :: "nat \<Rightarrow> nat \<Rightarrow> FrameAllocator \<Rightarrow> FrameAllocator" where
  "free_step page_idx i fa =
     (if page_idx + i < fa_total_pages fa then
        let fa1 = mark_free (page_idx + i) fa
        in fa1\<lparr>fa_allocated_count := fa_allocated_count fa1 - 1\<rparr>
      else fa)"

definition free_pages :: "FrameAllocator \<Rightarrow> nat \<Rightarrow> nat \<Rightarrow> FrameAllocator" where
  "free_pages fa addr count =
     (if addr < fa_base fa then fa
      else
        let page_idx = (addr - fa_base fa) div PAGE_SIZE;
            fa1 = fold (free_step page_idx) [0..<count] fa
        in if page_idx < fa_next_search fa1 then fa1\<lparr>fa_next_search := page_idx\<rparr> else fa1)"

definition free_page :: "FrameAllocator \<Rightarrow> nat \<Rightarrow> FrameAllocator" where
  "free_page fa addr = free_pages fa addr 1"

record FrameAllocatorStats =
  st_total_pages :: nat
  st_allocated_pages :: nat
  st_free_pages :: nat

definition FrameAllocator_stats :: "FrameAllocator \<Rightarrow> FrameAllocatorStats" where
  "FrameAllocator_stats fa =
     \<lparr>st_total_pages = fa_total_pages fa, st_allocated_pages = fa_allocated_count fa,
      st_free_pages = fa_total_pages fa - fa_allocated_count fa\<rparr>"

text \<open>
  The module-level functions act on the static \<open>FRAME_ALLOCATOR\<close> under its lock; here the static is
  the argument.
\<close>

definition page_init :: "FrameAllocator \<Rightarrow> nat \<Rightarrow> nat \<Rightarrow> (FrameAllocator, string) outcome" where
  "page_init fa base sz =
     (if sz < PAGE_SIZE * 2 then Err ''Not enough memory for frame allocator''
      else FrameAllocator_init fa base sz)"

definition alloc_frame :: "FrameAllocator \<Rightarrow> nat option \<times> FrameAllocator" where
  "alloc_frame fa = alloc_page fa"

definition alloc_frames :: "FrameAllocator \<Rightarrow> nat \<Rightarrow> nat option \<times> FrameAllocator" where
  "alloc_frames fa count = alloc_pages fa count"

definition free_frame :: "FrameAllocator \<Rightarrow> nat \<Rightarrow> FrameAllocator" where
  "free_frame fa addr = free_page fa addr"

definition free_frames :: "FrameAllocator \<Rightarrow> nat \<Rightarrow> nat \<Rightarrow> FrameAllocator" where
  "free_frames fa addr count = free_pages fa addr count"


section \<open>Bitmaps as sets of pages\<close>

definition bm_bit :: "u64 list \<Rightarrow> nat \<Rightarrow> bool" where
  "bm_bit bm p \<longleftrightarrow> bit (bm ! (p div 64)) (p mod 64)"

definition in_use :: "FrameAllocator \<Rightarrow> nat set" where
  "in_use fa = {p. p < fa_total_pages fa \<and> bm_bit (fa_bitmap fa) p}"

text \<open>The bitmap has a word for every page.\<close>

definition bitmap_sized :: "FrameAllocator \<Rightarrow> bool" where
  "bitmap_sized fa \<longleftrightarrow>
     fa_bitmap_len fa = (fa_total_pages fa + 63) div 64 \<and> length (fa_bitmap fa) = fa_bitmap_len fa"

definition fa_wf :: "FrameAllocator \<Rightarrow> bool" where
  "fa_wf fa \<longleftrightarrow>
     bitmap_sized fa \<and>
     fa_base fa mod PAGE_SIZE = 0 \<and>
     fa_next_search fa \<le> fa_total_pages fa \<and>
     fa_allocated_count fa = card (in_use fa)"

lemma is_page_free_iff: "is_page_free fa p \<longleftrightarrow> p < fa_total_pages fa \<and> p \<notin> in_use fa"
  by (auto simp: is_page_free_def in_use_def bm_bit_def Let_def)

lemma page_word_in_range:
  "bitmap_sized fa \<Longrightarrow> p < fa_total_pages fa \<Longrightarrow> p div 64 < length (fa_bitmap fa)"
  by (simp add: bitmap_sized_def)

lemma length_bitmap_set [simp]: "length (bitmap_set bm p) = length bm"
  by (simp add: bitmap_set_def)

lemma length_bitmap_clear [simp]: "length (bitmap_clear bm p) = length bm"
  by (simp add: bitmap_clear_def)

lemma bm_bit_set:
  "p div 64 < length bm \<Longrightarrow> bm_bit (bitmap_set bm p) q \<longleftrightarrow> bm_bit bm q \<or> q = p"
proof (cases "q div 64 = p div 64")
  case True
  assume "p div 64 < length bm"
  moreover have "q mod 64 = p mod 64 \<longleftrightarrow> q = p" using True by (metis div_mult_mod_eq)
  ultimately show ?thesis using True by (auto simp: bm_bit_def bitmap_set_def)
qed (auto simp: bm_bit_def bitmap_set_def)

lemma bm_bit_clear:
  "p div 64 < length bm \<Longrightarrow> bm_bit (bitmap_clear bm p) q \<longleftrightarrow> bm_bit bm q \<and> q \<noteq> p"
proof (cases "q div 64 = p div 64")
  case True
  assume "p div 64 < length bm"
  moreover have "q mod 64 = p mod 64 \<longleftrightarrow> q = p" using True by (metis div_mult_mod_eq)
  ultimately show ?thesis using True by (auto simp: bm_bit_def bitmap_clear_def)
qed (auto simp: bm_bit_def bitmap_clear_def)

lemma finite_in_use [simp]: "finite (in_use fa)"
  by (simp add: in_use_def)

lemma card_in_use_le: "card (in_use fa) \<le> fa_total_pages fa"
proof -
  have "in_use fa \<subseteq> {..<fa_total_pages fa}" by (auto simp: in_use_def)
  then show ?thesis using card_mono [of "{..<fa_total_pages fa}"] by simp
qed

text \<open>A block of \<open>n\<close> consecutive free pages.\<close>

definition free_run :: "FrameAllocator \<Rightarrow> nat \<Rightarrow> nat \<Rightarrow> bool" where
  "free_run fa p n \<longleftrightarrow> (\<forall>q. p \<le> q \<and> q < p + n \<longrightarrow> is_page_free fa q)"

lemma free_run_0 [simp]: "free_run fa p 0"
  by (auto simp: free_run_def)

lemma free_run_Suc: "free_run fa p (Suc n) \<longleftrightarrow> free_run fa p n \<and> is_page_free fa (p + n)"
  by (auto simp: free_run_def less_Suc_eq)

lemma free_run_in_range: "free_run fa p n \<Longrightarrow> 0 < n \<Longrightarrow> p + n \<le> fa_total_pages fa"
  by (cases n) (auto simp: free_run_Suc is_page_free_iff)

lemma free_run_disjoint: "free_run fa p n \<Longrightarrow> {p..<p + n} \<inter> in_use fa = {}"
  by (auto simp: free_run_def is_page_free_iff)


section \<open>The search loop\<close>

text \<open>What the loop knows at the head of an iteration: the last \<open>consecutive\<close> pages were free.\<close>

definition scan_inv :: "FrameAllocator \<Rightarrow> nat \<Rightarrow> nat \<Rightarrow> nat \<Rightarrow> nat \<Rightarrow> bool" where
  "scan_inv fa count sp c f \<longleftrightarrow> c < count \<and> (c > 0 \<longrightarrow> f + c = sp \<and> free_run fa f c)"

lemma scan_inv_0 [simp]: "0 < count \<Longrightarrow> scan_inv fa count sp 0 f"
  by (simp add: scan_inv_def)

lemma scan_inv_extend:
  assumes "scan_inv fa count sp c f" and "is_page_free fa sp"
  shows "free_run fa (if c = 0 then sp else f) (Suc c)"
    and "Suc c \<noteq> count \<Longrightarrow> scan_inv fa count (sp + 1) (c + 1) (if c = 0 then sp else f)"
  using assms by (auto simp: scan_inv_def free_run_Suc)

text \<open>Soundness: a run that is returned is free, and it lies on one side of the starting point.\<close>

lemma alloc_scan_sound:
  "alloc_scan fa count k sp c f = Some p \<Longrightarrow> scan_inv fa count sp c f \<Longrightarrow> free_run fa p count"
proof (induction k arbitrary: sp c f)
  case (Suc k)
  define sp' where "sp' = (if sp \<ge> fa_total_pages fa then 0 else sp)"
  define c' where "c' = (if sp \<ge> fa_total_pages fa then 0 else c)"
  have inv: "scan_inv fa count sp' c' f"
    using Suc.prems(2) by (auto simp: sp'_def c'_def scan_inv_def)
  note step = Suc.prems(1) [unfolded alloc_scan.simps Let_def]
  show ?case
  proof (cases "is_page_free fa sp'")
    case True
    show ?thesis
    proof (cases "Suc c' = count")
      case last: True
      then show ?thesis
        using step True scan_inv_extend(1) [OF inv True]
        by (auto simp: sp'_def c'_def split: if_splits)
    next
      case False
      then have "alloc_scan fa count k (sp' + 1) (c' + 1) (if c' = 0 then sp' else f) = Some p"
        using step True by (auto simp: sp'_def c'_def split: if_splits)
      then show ?thesis
        using Suc.IH scan_inv_extend(2) [OF inv True False] by blast
    qed
  next
    case False
    then have "alloc_scan fa count k (sp' + 1) 0 f = Some p"
      using step by (auto simp: sp'_def c'_def split: if_splits)
    moreover have "0 < count" using inv by (simp add: scan_inv_def)
    ultimately show ?thesis using Suc.IH by simp
  qed
qed simp

text \<open>Completeness on a stretch the loop crosses without wrapping.\<close>

lemma alloc_scan_None_linear:
  "alloc_scan fa count k sp c f = None \<Longrightarrow> scan_inv fa count sp c f \<Longrightarrow> sp + k \<le> fa_total_pages fa \<Longrightarrow>
   sp - c \<le> p \<Longrightarrow> p + count \<le> sp + k \<Longrightarrow> \<not> free_run fa p count"
proof (induction k arbitrary: sp c f)
  case 0
  then show ?case by (auto simp: scan_inv_def)
next
  case (Suc k)
  have sp: "sp < fa_total_pages fa" using Suc.prems(3) by simp
  note step = Suc.prems(1) [unfolded alloc_scan.simps Let_def]
  show ?case
  proof (cases "is_page_free fa sp")
    case True
    then have "Suc c \<noteq> count"
      and "alloc_scan fa count k (sp + 1) (c + 1) (if c = 0 then sp else f) = None"
      using step sp by (auto split: if_splits)
    then show ?thesis
      using Suc.IH [OF _ scan_inv_extend(2) [OF Suc.prems(2) True]] Suc.prems(3-5) by simp
  next
    case False
    then have "alloc_scan fa count k (sp + 1) 0 f = None"
      using step sp by (auto split: if_splits)
    moreover have c: "c < count" using Suc.prems(2) by (simp add: scan_inv_def)
    ultimately have "sp + 1 \<le> p \<Longrightarrow> ?thesis"
      using Suc.IH [of "sp + 1" 0 f] Suc.prems(3-5) by simp
    moreover have "p \<le> sp \<Longrightarrow> ?thesis"
    proof
      assume "p \<le> sp" and run: "free_run fa p count"
      have "sp < p + count" using Suc.prems(4) c by simp
      with run \<open>p \<le> sp\<close> have "is_page_free fa sp" by (simp add: free_run_def)
      with False show False by simp
    qed
    ultimately show ?thesis by linarith
  qed
qed

text \<open>Completeness of the whole loop, which crosses the end of the region once.\<close>

lemma alloc_scan_None_wrap:
  "alloc_scan fa count ((fa_total_pages fa - sp) + n) sp c f = None \<Longrightarrow> scan_inv fa count sp c f \<Longrightarrow>
   sp \<le> fa_total_pages fa \<Longrightarrow> n \<le> fa_total_pages fa \<Longrightarrow>
   sp - c \<le> p \<or> p + count \<le> n \<Longrightarrow> \<not> free_run fa p count"
proof (induction "fa_total_pages fa - sp" arbitrary: sp c f)
  case 0
  have c: "c < count" using "0.prems"(2) by (simp add: scan_inv_def)
  have sp: "sp = fa_total_pages fa" using "0.hyps" "0.prems"(3) by simp
  show ?case
  proof
    assume run: "free_run fa p count"
    then have "p + count \<le> fa_total_pages fa" using c free_run_in_range by simp
    then have "\<not> sp - c \<le> p" using c sp by linarith
    then have pn: "p + count \<le> n" using "0.prems"(5) by simp
    then obtain m where m: "n = Suc m" using c by (cases n) auto
    have "alloc_scan fa count n 0 0 f = None"
      using "0.prems"(1) c by (simp add: sp m)
    then show False
      using alloc_scan_None_linear [of fa count n 0 0 f p] run pn c "0.prems"(4) by simp
  qed
next
  case (Suc d)
  have sp: "sp < fa_total_pages fa" using Suc.hyps(2) by simp
  have d: "d = fa_total_pages fa - (sp + 1)" using Suc.hyps(2) by simp
  have c: "c < count" using Suc.prems(2) by (simp add: scan_inv_def)
  have fuel: "fa_total_pages fa - sp + n = Suc (fa_total_pages fa - (sp + 1) + n)" using sp by simp
  note step = Suc.prems(1) [unfolded fuel alloc_scan.simps Let_def]
  show ?case
  proof (cases "is_page_free fa sp")
    case True
    then have ne: "Suc c \<noteq> count"
      and "alloc_scan fa count (fa_total_pages fa - (sp + 1) + n) (sp + 1) (c + 1)
             (if c = 0 then sp else f) = None"
      using step sp by (auto split: if_splits)
    then show ?thesis
      using Suc.hyps(1) [OF d _ scan_inv_extend(2) [OF Suc.prems(2) True ne]] Suc.prems(4,5) sp
      by simp
  next
    case False
    then have rest: "alloc_scan fa count (fa_total_pages fa - (sp + 1) + n) (sp + 1) 0 f = None"
      using step sp by (auto split: if_splits)
    show ?thesis
    proof
      assume run: "free_run fa p count"
      have "\<not> (p \<le> sp \<and> sp < p + count)" using run False by (auto simp: free_run_def)
      then have "sp + 1 - 0 \<le> p \<or> p + count \<le> n" using Suc.prems(5) c by linarith
      then show False using Suc.hyps(1) [OF d rest] run sp c Suc.prems(4) by simp
    qed
  qed
qed

text \<open>Position of the run that is found: one iteration, then a stretch without wrapping, then the loop.\<close>

lemma alloc_scan_Some_step:
  assumes scan: "alloc_scan fa count (Suc k) sp c f = Some p" and inv: "scan_inv fa count sp c f"
    and sp: "sp < fa_total_pages fa"
  obtains "p + count = sp + 1" and "sp - c \<le> p"
  | c' f' where "alloc_scan fa count k (sp + 1) c' f' = Some p" and "scan_inv fa count (sp + 1) c' f'"
      and "sp - c \<le> sp + 1 - c'"
proof -
  note step = scan [unfolded alloc_scan.simps Let_def]
  have c: "c < count" "0 < c \<Longrightarrow> f + c = sp" using inv by (auto simp: scan_inv_def)
  show ?thesis
  proof (cases "is_page_free fa sp \<and> Suc c = count")
    case True
    then have "p = (if c = 0 then sp else f)" using step sp by (auto split: if_splits)
    then show ?thesis using c(2) True that(1) by (cases "c = 0") auto
  next
    case False
    define c' where "c' = (if is_page_free fa sp then c + 1 else 0)"
    define f' where "f' = (if is_page_free fa sp \<and> c = 0 then sp else f)"
    have "alloc_scan fa count k (sp + 1) c' f' = Some p"
      using False step sp by (auto simp: c'_def f'_def split: if_splits)
    moreover have "scan_inv fa count (sp + 1) c' f'"
      using False c scan_inv_extend(2) [OF inv] by (auto simp: c'_def f'_def)
    moreover have "sp - c \<le> sp + 1 - c'" unfolding c'_def by (split if_split) arith
    ultimately show ?thesis by (rule that(2))
  qed
qed

lemma alloc_scan_Some_linear:
  "alloc_scan fa count k sp c f = Some p \<Longrightarrow> scan_inv fa count sp c f \<Longrightarrow> sp + k \<le> fa_total_pages fa \<Longrightarrow>
   p + count \<le> sp + k \<and> sp - c \<le> p"
proof (induction k arbitrary: sp c f)
  case (Suc k)
  have sp: "sp < fa_total_pages fa" using Suc.prems(3) by simp
  from Suc.prems(1,2) sp show ?case
  proof (cases rule: alloc_scan_Some_step)
    case (2 c' f')
    then show ?thesis using Suc.IH [of "sp + 1" c' f'] Suc.prems(3) by simp
  qed simp
qed simp

lemma alloc_scan_Some_wrap:
  "alloc_scan fa count ((fa_total_pages fa - sp) + n) sp c f = Some p \<Longrightarrow> scan_inv fa count sp c f \<Longrightarrow>
   sp \<le> fa_total_pages fa \<Longrightarrow> n \<le> fa_total_pages fa \<Longrightarrow> sp - c \<le> p \<or> p + count \<le> n"
proof (induction "fa_total_pages fa - sp" arbitrary: sp c f)
  case 0
  have c: "c < count" using "0.prems"(2) by (simp add: scan_inv_def)
  have sp: "sp = fa_total_pages fa" using "0.hyps" "0.prems"(3) by simp
  then obtain m where m: "n = Suc m" using "0.prems"(1) by (cases n) auto
  have "alloc_scan fa count n 0 0 f = Some p" using "0.prems"(1) c by (simp add: sp m)
  then show ?case using alloc_scan_Some_linear [of fa count n 0 0 f p] c "0.prems"(4) by simp
next
  case (Suc d)
  have sp: "sp < fa_total_pages fa" and d: "d = fa_total_pages fa - (sp + 1)"
    using Suc.hyps(2) by simp_all
  then have fuel: "(fa_total_pages fa - sp) + n = Suc ((fa_total_pages fa - (sp + 1)) + n)" by simp
  from Suc.prems(1) [unfolded fuel] Suc.prems(2) sp show ?case
  proof (cases rule: alloc_scan_Some_step)
    case (2 c' f')
    then show ?thesis using Suc.hyps(1) [OF d, of c' f'] sp Suc.prems(4) by auto
  qed simp
qed


section \<open>The effect of the operations on the set of used pages\<close>

lemma mark_allocated_fields [simp]:
  "fa_base (mark_allocated p fa) = fa_base fa" "fa_total_pages (mark_allocated p fa) = fa_total_pages fa"
  "fa_bitmap_len (mark_allocated p fa) = fa_bitmap_len fa"
  "fa_next_search (mark_allocated p fa) = fa_next_search fa"
  "fa_allocated_count (mark_allocated p fa) = fa_allocated_count fa"
  "bitmap_sized (mark_allocated p fa) = bitmap_sized fa"
  by (simp_all add: mark_allocated_def bitmap_sized_def)

lemma in_use_mark_allocated:
  "bitmap_sized fa \<Longrightarrow> p < fa_total_pages fa \<Longrightarrow>
   in_use (mark_allocated p fa) = insert p (in_use fa)"
  by (auto simp: in_use_def mark_allocated_def bm_bit_set page_word_in_range)

lemma mark_fold_fields [simp]:
  "fa_base (fold (\<lambda>i a. mark_allocated (f + i) a) is fa) = fa_base fa"
  "fa_total_pages (fold (\<lambda>i a. mark_allocated (f + i) a) is fa) = fa_total_pages fa"
  "fa_bitmap_len (fold (\<lambda>i a. mark_allocated (f + i) a) is fa) = fa_bitmap_len fa"
  "fa_allocated_count (fold (\<lambda>i a. mark_allocated (f + i) a) is fa) = fa_allocated_count fa"
  "bitmap_sized (fold (\<lambda>i a. mark_allocated (f + i) a) is fa) = bitmap_sized fa"
  by (induction "is" arbitrary: fa) simp_all

lemma in_use_mark_fold:
  "bitmap_sized fa \<Longrightarrow> f + n \<le> fa_total_pages fa \<Longrightarrow>
   in_use (fold (\<lambda>i a. mark_allocated (f + i) a) [0..<n] fa) = in_use fa \<union> {f..<f + n}"
proof (induction n)
  case (Suc n)
  let ?fb = "fold (\<lambda>i a. mark_allocated (f + i) a) [0..<n] fa"
  have "in_use (mark_allocated (f + n) ?fb) = insert (f + n) (in_use ?fb)"
    using Suc.prems by (intro in_use_mark_allocated) simp_all
  also have "in_use ?fb = in_use fa \<union> {f..<f + n}"
    using Suc.prems by (intro Suc.IH) simp_all
  also have "insert (f + n) (in_use fa \<union> {f..<f + n}) = in_use fa \<union> {f..<f + Suc n}"
    by auto
  finally show ?case by (simp only: upt_Suc_append fold_append fold_simps comp_apply le0)
qed simp

lemma in_use_update [simp]:
  "in_use (fa\<lparr>fa_allocated_count := n\<rparr>) = in_use fa"
  "in_use (fa\<lparr>fa_next_search := n\<rparr>) = in_use fa"
  "bitmap_sized (fa\<lparr>fa_allocated_count := n\<rparr>) = bitmap_sized fa"
  "bitmap_sized (fa\<lparr>fa_next_search := n\<rparr>) = bitmap_sized fa"
  by (simp_all add: in_use_def bitmap_sized_def)

lemma alloc_pages_Some:
  assumes wf: "fa_wf fa" and alloc: "alloc_pages fa count = (Some addr, fa')"
  obtains p where "addr = fa_base fa + p * PAGE_SIZE" and "free_run fa p count" and "0 < count"
    and "in_use fa' = in_use fa \<union> {p..<p + count}"
    and "fa_base fa' = fa_base fa" and "fa_total_pages fa' = fa_total_pages fa"
    and "fa_next_search fa' = p + count" and "fa_wf fa'"
proof -
  from alloc have count: "0 < count" by (auto simp: alloc_pages_def split: if_splits)
  with alloc obtain p where
    scan: "alloc_scan fa count (fa_total_pages fa) (fa_next_search fa) 0 0 = Some p"
    and addr: "addr = fa_base fa + p * PAGE_SIZE"
    and fa': "fa' = (fold (\<lambda>i a. mark_allocated (p + i) a) [0..<count] fa)
       \<lparr>fa_allocated_count := fa_allocated_count
           (fold (\<lambda>i a. mark_allocated (p + i) a) [0..<count] fa) + count,
        fa_next_search := p + count\<rparr>"
    by (cases "alloc_scan fa count (fa_total_pages fa) (fa_next_search fa) 0 0")
      (simp_all add: alloc_pages_def Let_def)
  have run: "free_run fa p count" using alloc_scan_sound [OF scan] count by simp
  have range: "p + count \<le> fa_total_pages fa" using free_run_in_range [OF run count] .
  have len: "bitmap_sized fa" using wf by (simp add: fa_wf_def)
  have used: "in_use fa' = in_use fa \<union> {p..<p + count}"
    using in_use_mark_fold [OF len range] by (simp add: fa')
  have "card (in_use fa') = card (in_use fa) + count"
    using free_run_disjoint [OF run] by (simp add: used card_Un_disjoint Int_commute)
  then have "fa_wf fa'"
    using wf range by (simp add: fa_wf_def fa')
  then show thesis using that [OF addr run count used] by (simp add: fa')
qed

lemma alloc_pages_None:
  assumes "fa_wf fa" and "alloc_pages fa count = (None, fa')" and "0 < count"
  shows "fa' = fa"
    and "free_run fa p count \<Longrightarrow> p < fa_next_search fa \<and> fa_next_search fa < p + count"
proof -
  have scan: "alloc_scan fa count (fa_total_pages fa) (fa_next_search fa) 0 0 = None"
    using assms(2,3)
    by (cases "alloc_scan fa count (fa_total_pages fa) (fa_next_search fa) 0 0")
      (simp_all add: alloc_pages_def Let_def)
  then show "fa' = fa" using assms(2,3) by (simp add: alloc_pages_def)
  assume run: "free_run fa p count"
  have next_le: "fa_next_search fa \<le> fa_total_pages fa" using assms(1) by (simp add: fa_wf_def)
  then have "alloc_scan fa count ((fa_total_pages fa - fa_next_search fa) + fa_next_search fa)
      (fa_next_search fa) 0 0 = None"
    using scan by simp
  then have "\<not> (fa_next_search fa - 0 \<le> p \<or> p + count \<le> fa_next_search fa)"
    using alloc_scan_None_wrap run next_le assms(3) scan_inv_0 by blast
  then show "p < fa_next_search fa \<and> fa_next_search fa < p + count" by auto
qed

lemma free_step_fields [simp]:
  "fa_base (free_step p i fa) = fa_base fa" "fa_total_pages (free_step p i fa) = fa_total_pages fa"
  "fa_bitmap_len (free_step p i fa) = fa_bitmap_len fa"
  "fa_next_search (free_step p i fa) = fa_next_search fa"
  "bitmap_sized (free_step p i fa) = bitmap_sized fa"
  by (simp_all add: free_step_def mark_free_def Let_def bitmap_sized_def)

lemma free_fold_fields [simp]:
  "fa_base (fold (free_step p) is fa) = fa_base fa"
  "fa_total_pages (fold (free_step p) is fa) = fa_total_pages fa"
  "fa_bitmap_len (fold (free_step p) is fa) = fa_bitmap_len fa"
  "fa_next_search (fold (free_step p) is fa) = fa_next_search fa"
  "bitmap_sized (fold (free_step p) is fa) = bitmap_sized fa"
  by (induction "is" arbitrary: fa) simp_all

lemma in_use_free_step:
  "bitmap_sized fa \<Longrightarrow>
   in_use (free_step p i fa) = in_use fa - {p + i}"
  by (auto simp: in_use_def free_step_def mark_free_def bm_bit_clear Let_def page_word_in_range)

lemma in_use_free_fold:
  "bitmap_sized fa \<Longrightarrow> in_use (fold (free_step p) [0..<n] fa) = in_use fa - {p..<p + n}"
proof (induction n)
  case (Suc n)
  have "in_use (free_step p n (fold (free_step p) [0..<n] fa)) = in_use (fold (free_step p) [0..<n] fa) - {p + n}"
    using Suc.prems by (intro in_use_free_step) simp
  also have "\<dots> = in_use fa - {p..<p + n} - {p + n}"
    using Suc.IH [OF Suc.prems] by (simp only:)
  also have "in_use fa - {p..<p + n} - {p + n} = in_use fa - {p..<p + Suc n}"
    by auto
  finally show ?case by (simp only: upt_Suc_append fold_append fold_simps comp_apply le0)
qed simp

lemma allocated_count_free_fold:
  "p + n \<le> fa_total_pages fa \<Longrightarrow>
   fa_allocated_count (fold (free_step p) [0..<n] fa) = fa_allocated_count fa - n"
  by (induction n) (simp_all add: free_step_def mark_free_def Let_def)

text \<open>Freeing a block that is in use takes exactly its pages out of the used set.\<close>

lemma free_pages_used:
  assumes wf: "fa_wf fa" and used: "{p..<p + count} \<subseteq> in_use fa" and pos: "0 < count"
  defines "fa' \<equiv> free_pages fa (fa_base fa + p * PAGE_SIZE) count"
  shows "in_use fa' = in_use fa - {p..<p + count}" and "fa_wf fa'"
    and "fa_base fa' = fa_base fa" and "fa_total_pages fa' = fa_total_pages fa"
proof -
  have idx: "(fa_base fa + p * PAGE_SIZE - fa_base fa) div PAGE_SIZE = p" by (simp add: PAGE_SIZE_def)
  have "p + count - 1 \<in> in_use fa" using used pos by auto
  then have range: "p + count \<le> fa_total_pages fa" by (auto simp: in_use_def)
  have len: "bitmap_sized fa" using wf by (simp add: fa_wf_def)
  define fb where "fb = fold (free_step p) [0..<count] fa"
  have fa': "fa' = (if p < fa_next_search fb then fb\<lparr>fa_next_search := p\<rparr> else fb)"
    using pos unfolding fa'_def free_pages_def fb_def idx Let_def by simp
  show used': "in_use fa' = in_use fa - {p..<p + count}"
    using in_use_free_fold [OF len, of p count] by (simp add: fa' fb_def)
  show "fa_base fa' = fa_base fa" "fa_total_pages fa' = fa_total_pages fa"
    by (simp_all add: fa' fb_def)
  have "card (in_use fa') = card (in_use fa) - count"
    using used by (simp add: used' card_Diff_subset)
  moreover have "fa_allocated_count fa' = fa_allocated_count fa - count"
    using allocated_count_free_fold [OF range] by (simp add: fa' fb_def)
  ultimately show "fa_wf fa'"
    using wf range by (simp add: fa_wf_def fa' fb_def)
qed


section \<open>Initialisation\<close>

definition bitmap_pages_for :: "nat \<Rightarrow> nat" where
  "bitmap_pages_for n_pages = ((n_pages + 63) div 64 * 8 + PAGE_SIZE - 1) div PAGE_SIZE"

lemma bitmap_pages_for_le: "bitmap_pages_for n_pages \<le> n_pages"
proof -
  define u where "u = (n_pages + 63) div 64"
  have "u \<le> n_pages" by (simp add: u_def)
  moreover have "(u * 8 + 4096 - 1) div 4096 \<le> u" by arith
  ultimately show ?thesis by (simp add: bitmap_pages_for_def PAGE_SIZE_def u_def)
qed

lemma bitmap_pages_for_covers: "8 * ((n_pages + 63) div 64) \<le> bitmap_pages_for n_pages * PAGE_SIZE"
  by (simp add: bitmap_pages_for_def PAGE_SIZE_def)

lemma bm_bit_init_fold:
  "n \<le> 64 * u \<Longrightarrow> q < 64 * u \<Longrightarrow>
   bm_bit (fold (\<lambda>p b. bitmap_set b p) [0..<n] (replicate u 0)) q \<longleftrightarrow> q < n"
proof (induction n)
  case 0
  then have "q div 64 < u" by simp
  then show ?case by (simp add: bm_bit_def)
next
  case (Suc n)
  define bm where "bm = fold (\<lambda>p b. bitmap_set b p) [0..<n] (replicate u (0 :: u64))"
  have len: "length (fold (\<lambda>p b. bitmap_set b p) xs b) = length b" for xs b
    by (induction xs arbitrary: b) simp_all
  have "n div 64 < length bm" using Suc.prems by (simp add: bm_def len)
  then have "bm_bit (bitmap_set bm n) q \<longleftrightarrow> q < n \<or> q = n"
    using Suc by (simp add: bm_bit_set bm_def)
  then show ?case by (simp add: bm_def less_Suc_eq)
qed

lemma FrameAllocator_init_Ok:
  assumes "FrameAllocator_init fa base sz = Ok fa'"
  shows "fa_base fa' = base" and "fa_total_pages fa' = sz div PAGE_SIZE"
    and "in_use fa' = {0..<bitmap_pages_for (sz div PAGE_SIZE)}" and "fa_wf fa'"
proof -
  define n_pages where "n_pages = sz div PAGE_SIZE"
  define u where "u = (n_pages + 63) div 64"
  define bp where "bp = bitmap_pages_for n_pages"
  have fa': "fa' = fa\<lparr>fa_base := base, fa_total_pages := n_pages,
      fa_bitmap := fold (\<lambda>p b. bitmap_set b p) [0..<bp] (replicate u 0),
      fa_bitmap_len := u, fa_next_search := bp, fa_allocated_count := bp\<rparr>"
    and base: "base mod PAGE_SIZE = 0"
    using assms
    by (auto simp: FrameAllocator_init_def Let_def n_pages_def u_def bp_def bitmap_pages_for_def
        split: if_splits)
  show "fa_base fa' = base" "fa_total_pages fa' = sz div PAGE_SIZE"
    by (simp_all add: fa' n_pages_def)
  have bp: "bp \<le> n_pages" by (simp add: bp_def bitmap_pages_for_le)
  have tu: "n_pages \<le> 64 * u" by (simp add: u_def)
  have used: "in_use fa' = {0..<bp}"
  proof -
    have "bm_bit (fa_bitmap fa') p \<longleftrightarrow> p < bp" if "p < n_pages" for p
      using that bm_bit_init_fold [of bp u p] bp tu by (simp add: fa')
    moreover have "fa_total_pages fa' = n_pages" by (simp add: fa')
    ultimately show ?thesis using bp by (auto simp: in_use_def)
  qed
  then show "in_use fa' = {0..<bitmap_pages_for (sz div PAGE_SIZE)}" by (simp add: bp_def n_pages_def)
  have len: "length (fold (\<lambda>p b. bitmap_set b p) xs b) = length b" for xs b
    by (induction xs arbitrary: b) simp_all
  have "bitmap_sized fa'" by (simp add: fa' bitmap_sized_def len u_def)
  then show "fa_wf fa'" using used base bp by (simp add: fa_wf_def) (simp add: fa')
qed


section \<open>The contract of the frame pool\<close>

text \<open>
  What the page-table code and the module loader rely on: a successful allocation hands out a frame
  of the pool that nobody holds, allocation fails only when every frame is held, and giving a held
  frame back releases exactly it.
\<close>

locale frame_pool =
  fixes alloc :: "'s \<Rightarrow> nat option \<times> 's"
    and free :: "'s \<Rightarrow> nat \<Rightarrow> 's"
    and held :: "'s \<Rightarrow> nat set"
    and pool :: "'s \<Rightarrow> nat set"
    and invar :: "'s \<Rightarrow> bool"
  assumes alloc_Some: "invar s \<Longrightarrow> alloc s = (Some a, s') \<Longrightarrow>
      a \<in> pool s \<and> a \<notin> held s \<and> held s' = insert a (held s) \<and> pool s' = pool s \<and> invar s'"
    and alloc_None: "invar s \<Longrightarrow> alloc s = (None, s') \<Longrightarrow> held s = pool s \<and> s' = s"
    and free_held: "invar s \<Longrightarrow> a \<in> held s \<Longrightarrow>
      held (free s a) = held s - {a} \<and> pool (free s a) = pool s \<and> invar (free s a)"
    and held_pool: "invar s \<Longrightarrow> held s \<subseteq> pool s"
    and finite_pool: "invar s \<Longrightarrow> finite (pool s)"

text \<open>A caller that allocates \<open>n\<close> frames one after another.\<close>

primrec alloc_many :: "('s \<Rightarrow> nat option \<times> 's) \<Rightarrow> nat \<Rightarrow> 's \<Rightarrow> nat option list \<times> 's" where
  "alloc_many alloc 0 s = ([], s)"
| "alloc_many alloc (Suc n) s =
     (case alloc s of (r, s') \<Rightarrow>
       (case alloc_many alloc n s' of (rs, s'') \<Rightarrow> (r # rs, s'')))"

context frame_pool
begin

lemma alloc_many_enough:
  "invar s \<Longrightarrow> n \<le> card (pool s - held s) \<Longrightarrow>
   \<exists>as s'. alloc_many alloc n s = (map Some as, s') \<and> invar s' \<and> length as = n \<and> distinct as \<and>
     set as \<subseteq> pool s - held s \<and> held s' = held s \<union> set as \<and> pool s' = pool s"
proof (induction n arbitrary: s)
  case (Suc n)
  have "card (pool s - held s) \<noteq> 0" using Suc.prems(2) by linarith
  then have "pool s - held s \<noteq> {}" by (metis card.empty)
  then obtain a t where step: "alloc s = (Some a, t)"
    using alloc_None [OF Suc.prems(1)] by (cases "alloc s"; cases "fst (alloc s)") auto
  note a = alloc_Some [OF Suc.prems(1) step]
  have "pool t - held t = pool s - held s - {a}" using a by auto
  then have "n \<le> card (pool t - held t)"
    using Suc.prems a finite_pool [OF Suc.prems(1)] by (simp add: card_Diff_singleton)
  then obtain as t' where "alloc_many alloc n t = (map Some as, t')" "invar t'" "length as = n"
    "distinct as" "set as \<subseteq> pool t - held t" "held t' = held t \<union> set as" "pool t' = pool t"
    using Suc.IH a by blast
  then show ?case using a by (intro exI [of _ "a # as"] exI [of _ t']) (auto simp: step)
qed simp

end

definition page_addr :: "FrameAllocator \<Rightarrow> nat \<Rightarrow> nat" where
  "page_addr fa p = fa_base fa + p * PAGE_SIZE"

definition held_frames :: "FrameAllocator \<Rightarrow> nat set" where
  "held_frames fa = page_addr fa ` in_use fa"

definition pool_frames :: "FrameAllocator \<Rightarrow> nat set" where
  "pool_frames fa = page_addr fa ` {..<fa_total_pages fa}"

lemma page_addr_eq_iff [simp]: "page_addr fa p = page_addr fa q \<longleftrightarrow> p = q"
  by (simp add: page_addr_def PAGE_SIZE_def)

lemma page_addr_cong: "fa_base fa' = fa_base fa \<Longrightarrow> page_addr fa' = page_addr fa"
  by (simp add: page_addr_def fun_eq_iff)

lemma page_addr_image_iff [simp]: "page_addr fa p \<in> page_addr fa ` A \<longleftrightarrow> p \<in> A"
  by auto

lemma free_run_1: "free_run fa p (Suc 0) \<longleftrightarrow> is_page_free fa p"
  by (simp add: free_run_Suc)

lemma alloc_frame_Some:
  assumes "fa_wf fa" and "alloc_frame fa = (Some a, fa')"
  shows "a \<in> pool_frames fa \<and> a \<notin> held_frames fa \<and> held_frames fa' = insert a (held_frames fa) \<and>
    pool_frames fa' = pool_frames fa \<and> fa_wf fa'"
proof -
  obtain p where p: "a = fa_base fa + p * PAGE_SIZE" "free_run fa p 1"
    and used: "in_use fa' = in_use fa \<union> {p..<p + 1}" and same: "fa_base fa' = fa_base fa"
    "fa_total_pages fa' = fa_total_pages fa" "fa_wf fa'"
    using alloc_pages_Some [OF assms(1) assms(2) [unfolded alloc_frame_def alloc_page_def]] by blast
  have "a = page_addr fa p" "p < fa_total_pages fa" "p \<notin> in_use fa"
    using p by (simp_all add: free_run_1 is_page_free_iff page_addr_def)
  then show ?thesis
    using same(2,3) by (simp add: held_frames_def pool_frames_def page_addr_cong [OF same(1)] used)
qed

lemma alloc_frame_None:
  assumes "fa_wf fa" and "alloc_frame fa = (None, fa')"
  shows "held_frames fa = pool_frames fa \<and> fa' = fa"
proof -
  note none = alloc_pages_None [OF assms(1) assms(2) [unfolded alloc_frame_def alloc_page_def]]
  have "\<not> is_page_free fa p" for p
    using none(2) [of p] by (simp add: free_run_1) linarith
  then have "in_use fa = {..<fa_total_pages fa}"
    by (auto simp: is_page_free_iff in_use_def)
  then show ?thesis using none(1) by (simp add: held_frames_def pool_frames_def)
qed

lemma free_frame_held:
  assumes "fa_wf fa" and "a \<in> held_frames fa"
  shows "held_frames (free_frame fa a) = held_frames fa - {a} \<and>
    pool_frames (free_frame fa a) = pool_frames fa \<and> fa_wf (free_frame fa a)"
proof -
  from assms(2) obtain p where p: "p \<in> in_use fa" "a = page_addr fa p"
    by (auto simp: held_frames_def)
  have eq: "free_frame fa a = free_pages fa (fa_base fa + p * PAGE_SIZE) 1"
    by (simp add: free_frame_def free_page_def p page_addr_def)
  have "{p..<p + 1} \<subseteq> in_use fa" using p by simp
  note freed = free_pages_used [OF assms(1) this zero_less_one, folded eq]
  show ?thesis
    unfolding held_frames_def pool_frames_def page_addr_cong [OF freed(3)] freed(1,4)
    using freed(2) p(2) by auto
qed

interpretation frames: frame_pool alloc_frame free_frame held_frames pool_frames fa_wf
proof unfold_locales
  show "fa_wf s \<Longrightarrow> held_frames s \<subseteq> pool_frames s" for s
    by (auto simp: held_frames_def pool_frames_def in_use_def)
  show "fa_wf s \<Longrightarrow> finite (pool_frames s)" for s
    by (simp add: pool_frames_def)
qed (fact alloc_frame_Some alloc_frame_None free_frame_held)+


section \<open>Live blocks\<close>

text \<open>
  The allocator in use: from an initialised region, callers allocate blocks with \<open>alloc_frames\<close> and
  give back blocks they hold with \<open>free_frames\<close>. The second component is the set of live blocks
  (address and number of pages).
\<close>

inductive fa_run :: "nat \<Rightarrow> nat \<Rightarrow> FrameAllocator \<Rightarrow> (nat \<times> nat) set \<Rightarrow> bool" for base sz where
  init: "page_init FrameAllocator_new base sz = Ok fa \<Longrightarrow> fa_run base sz fa {}"
| alloc: "fa_run base sz fa live \<Longrightarrow> alloc_frames fa n = (Some a, fa') \<Longrightarrow>
    fa_run base sz fa' (insert (a, n) live)"
| alloc_fail: "fa_run base sz fa live \<Longrightarrow> alloc_frames fa n = (None, fa') \<Longrightarrow> fa_run base sz fa' live"
| free: "fa_run base sz fa live \<Longrightarrow> (a, n) \<in> live \<Longrightarrow>
    fa_run base sz (free_frames fa a n) (live - {(a, n)})"

text \<open>A block is a page-aligned, non-empty range of pages past the bitmap.\<close>

definition block_pages :: "nat \<Rightarrow> nat \<times> nat \<Rightarrow> nat set" where
  "block_pages base = (\<lambda>(a, n). {(a - base) div PAGE_SIZE..<(a - base) div PAGE_SIZE + n})"

definition live_inv :: "nat \<Rightarrow> nat \<Rightarrow> FrameAllocator \<Rightarrow> (nat \<times> nat) set \<Rightarrow> bool" where
  "live_inv base sz fa live \<longleftrightarrow>
     fa_wf fa \<and> fa_base fa = base \<and> fa_total_pages fa = sz div PAGE_SIZE \<and> finite live \<and>
     (\<forall>(a, n) \<in> live. 0 < n \<and> (\<exists>p. a = base + p * PAGE_SIZE)) \<and>
     (\<forall>b \<in> live. \<forall>c \<in> live. b \<noteq> c \<longrightarrow> block_pages base b \<inter> block_pages base c = {}) \<and>
     (\<forall>b \<in> live. block_pages base b \<inter> {0..<bitmap_pages_for (sz div PAGE_SIZE)} = {}) \<and>
     in_use fa = {0..<bitmap_pages_for (sz div PAGE_SIZE)} \<union> \<Union> (block_pages base ` live)"

lemma block_pages_at [simp]: "block_pages base (base + p * PAGE_SIZE, n) = {p..<p + n}"
  by (simp add: block_pages_def PAGE_SIZE_def)

lemma live_invD:
  assumes "live_inv base sz fa live"
  shows live_wf: "fa_wf fa" "fa_base fa = base" "fa_total_pages fa = sz div PAGE_SIZE" "finite live"
    and live_block: "b \<in> live \<Longrightarrow> 0 < snd b \<and> (\<exists>p. fst b = base + p * PAGE_SIZE)"
    and live_disjoint: "b \<in> live \<Longrightarrow> c \<in> live \<Longrightarrow> b \<noteq> c \<Longrightarrow> block_pages base b \<inter> block_pages base c = {}"
    and live_bitmap: "b \<in> live \<Longrightarrow> block_pages base b \<inter> {0..<bitmap_pages_for (sz div PAGE_SIZE)} = {}"
    and live_in_use: "in_use fa = {0..<bitmap_pages_for (sz div PAGE_SIZE)} \<union> \<Union> (block_pages base ` live)"
  using assms unfolding live_inv_def by (simp_all add: case_prod_beta)

lemma live_inv_alloc:
  assumes inv: "live_inv base sz fa live" and alloc: "alloc_frames fa n = (Some a, fa')"
  shows "live_inv base sz fa' (insert (a, n) live)"
proof -
  note wf = live_wf [OF inv] and used = live_in_use [OF inv]
  obtain p where p: "a = fa_base fa + p * PAGE_SIZE" "free_run fa p n" "0 < n"
    and used': "in_use fa' = in_use fa \<union> {p..<p + n}" and same: "fa_base fa' = fa_base fa"
    "fa_total_pages fa' = fa_total_pages fa" "fa_wf fa'"
    using alloc_pages_Some [OF wf(1) alloc [unfolded alloc_frames_def]] by blast
  have pages: "block_pages base (a, n) = {p..<p + n}" using p(1) wf(2) by simp
  have fresh: "{p..<p + n} \<inter> in_use fa = {}" using free_run_disjoint [OF p(2)] .
  then have apart: "block_pages base b \<inter> {p..<p + n} = {}" if "b \<in> live" for b
    using that unfolding used by blast
  have bitmap: "{p..<p + n} \<inter> {0..<bitmap_pages_for (sz div PAGE_SIZE)} = {}"
    using fresh unfolding used by blast
  show ?thesis
    unfolding live_inv_def
  proof (intro conjI ballI impI)
    show "case b of (a, n) \<Rightarrow> 0 < n \<and> (\<exists>p. a = base + p * PAGE_SIZE)" if "b \<in> insert (a, n) live" for b
      using live_block [OF inv, of b] p(1,3) wf(2) that by (auto split: prod.splits)
    show "block_pages base b \<inter> block_pages base c = {}"
      if "b \<in> insert (a, n) live" "c \<in> insert (a, n) live" "b \<noteq> c" for b c
      using that live_disjoint [OF inv, of b c] apart [of b] apart [of c] pages by blast
    show "block_pages base b \<inter> {0..<bitmap_pages_for (sz div PAGE_SIZE)} = {}"
      if "b \<in> insert (a, n) live" for b
      using that live_bitmap [OF inv, of b] bitmap pages by blast
    show "in_use fa' = {0..<bitmap_pages_for (sz div PAGE_SIZE)} \<union>
        \<Union> (block_pages base ` insert (a, n) live)"
      unfolding used' used image_insert pages by blast
  qed (use wf same in simp_all)
qed

lemma live_inv_free:
  assumes inv: "live_inv base sz fa live" and live: "(a, n) \<in> live"
  shows "live_inv base sz (free_frames fa a n) (live - {(a, n)})"
proof -
  note wf = live_wf [OF inv] and used = live_in_use [OF inv]
  obtain p where a: "a = fa_base fa + p * PAGE_SIZE" and n: "0 < n"
    using live_block [OF inv live] wf(2) by auto
  have pages: "block_pages base (a, n) = {p..<p + n}" using a wf(2) by simp
  have sub: "{p..<p + n} \<subseteq> in_use fa" using live pages unfolding used by blast
  note freed = free_pages_used [OF wf(1) sub n, folded a, folded free_frames_def]
  have apart: "block_pages base b \<inter> {p..<p + n} = {}" if "b \<in> live - {(a, n)}" for b
    using live_disjoint [OF inv _ live, of b] that pages by blast
  have bitmap: "{p..<p + n} \<inter> {0..<bitmap_pages_for (sz div PAGE_SIZE)} = {}"
    using live_bitmap [OF inv live] pages by simp
  have "\<Union> (block_pages base ` live) - {p..<p + n} = \<Union> (block_pages base ` (live - {(a, n)}))"
    (is "?L = ?R")
  proof
    show "?L \<subseteq> ?R" using pages by blast
    show "?R \<subseteq> ?L" using apart by blast
  qed
  then have used': "in_use (free_frames fa a n) = {0..<bitmap_pages_for (sz div PAGE_SIZE)} \<union>
      \<Union> (block_pages base ` (live - {(a, n)}))"
    using bitmap unfolding freed(1) used by blast
  show ?thesis
    unfolding live_inv_def using used' inv freed(2-4) by (simp add: live_inv_def)
qed

lemma fa_run_live_inv: "fa_run base sz fa live \<Longrightarrow> live_inv base sz fa live"
proof (induction rule: fa_run.induct)
  case (init fa)
  then have "FrameAllocator_init FrameAllocator_new base sz = Ok fa"
    by (auto simp: page_init_def split: if_splits)
  from FrameAllocator_init_Ok [OF this] show ?case by (simp add: live_inv_def)
next
  case (alloc_fail fa live n fa')
  have "fa' = fa"
    using alloc_fail.hyps(2)
    by (auto simp: alloc_frames_def alloc_pages_def Let_def split: if_splits option.splits)
  then show ?case using alloc_fail.IH by simp
qed (auto intro: live_inv_alloc live_inv_free)

text \<open>The bytes of a block.\<close>

definition block_bytes :: "nat \<times> nat \<Rightarrow> nat set" where
  "block_bytes = (\<lambda>(a, n). {a..<a + n * PAGE_SIZE})"

lemma block_bytes_disjoint:
  assumes inv: "live_inv base sz fa live" and b: "b \<in> live" and c: "c \<in> live" and "b \<noteq> c"
  shows "block_bytes b \<inter> block_bytes c = {}"
proof -
  obtain p n where p: "b = (base + p * PAGE_SIZE, n)" "0 < n"
    using live_block [OF inv b] by (cases b) auto
  obtain q m where q: "c = (base + q * PAGE_SIZE, m)" "0 < m"
    using live_block [OF inv c] by (cases c) auto
  have "{p..<p + n} \<inter> {q..<q + m} = {}"
    using live_disjoint [OF inv b c \<open>b \<noteq> c\<close>] p q by simp
  then have "p + n \<le> q \<or> q + m \<le> p" using p(2) q(2) by (auto simp: disjoint_iff)
  then have "(p + n) * PAGE_SIZE \<le> q * PAGE_SIZE \<or> (q + m) * PAGE_SIZE \<le> p * PAGE_SIZE"
    using mult_le_mono1 by blast
  then show ?thesis by (auto simp: p q block_bytes_def algebra_simps)
qed

lemma block_bytes_in_region:
  assumes inv: "live_inv base sz fa live" and b: "b \<in> live"
  shows "block_bytes b \<subseteq> {base + bitmap_pages_for (sz div PAGE_SIZE) * PAGE_SIZE..<base + sz}"
proof -
  obtain p n where p: "b = (base + p * PAGE_SIZE, n)" "0 < n"
    using live_block [OF inv b] by (cases b) auto
  define k where "k = bitmap_pages_for (sz div PAGE_SIZE)"
  have "p \<in> {p..<p + n}" using p(2) by simp
  moreover have "{p..<p + n} \<inter> {0..<k} = {}" using live_bitmap [OF inv b] p by (simp add: k_def)
  ultimately have lo: "k \<le> p" by (auto simp: disjoint_iff)
  have "p + n - 1 \<in> in_use fa"
    using b p(2) unfolding live_in_use [OF inv] by (auto simp: p(1) intro!: bexI [of _ b])
  then have "p + n \<le> sz div PAGE_SIZE" using live_wf(3) [OF inv] p(2) by (auto simp: in_use_def)
  then have "(p + n) * PAGE_SIZE \<le> sz" using div_times_less_eq_dividend le_trans mult_le_mono1 by blast
  moreover have "k * PAGE_SIZE \<le> p * PAGE_SIZE" using lo mult_le_mono1 by blast
  ultimately show ?thesis by (auto simp: p(1) k_def block_bytes_def algebra_simps)
qed

lemma live_pages_count:
  assumes inv: "live_inv base sz fa live"
  shows "fa_allocated_count fa = bitmap_pages_for (sz div PAGE_SIZE) + sum snd live"
proof -
  have card: "card (block_pages base b) = snd b" for b by (simp add: block_pages_def case_prod_beta)
  have fin: "finite (\<Union> (block_pages base ` live))"
    using live_wf(4) [OF inv] by (simp add: block_pages_def case_prod_beta)
  have "card (\<Union> (block_pages base ` live)) = (\<Sum>b\<in>live. card (block_pages base b))"
    using live_wf(4) [OF inv] live_disjoint [OF inv]
    by (intro card_UN_disjoint) (auto simp: block_pages_def case_prod_beta)
  moreover have "{0..<bitmap_pages_for (sz div PAGE_SIZE)} \<inter> \<Union> (block_pages base ` live) = {}"
    using live_bitmap [OF inv] by blast
  ultimately have "card (in_use fa) = bitmap_pages_for (sz div PAGE_SIZE) + sum snd live"
    unfolding live_in_use [OF inv] using fin by (simp add: card_Un_disjoint card)
  then show ?thesis using live_wf(1) [OF inv] by (simp add: fa_wf_def)
qed


section \<open>Properties\<close>

text \<open>
  C2. Whatever blocks callers allocate and give back after \<open>page::init\<close>, no two live blocks share a
  byte, every live block lies inside the managed region and past the bitmap, and the statistics
  count exactly the bitmap pages and the pages of the live blocks.
\<close>

theorem live_blocks_separate:
  assumes "fa_run base sz fa live"
  shows "(\<forall>b \<in> live. \<forall>c \<in> live. b \<noteq> c \<longrightarrow> block_bytes b \<inter> block_bytes c = {}) \<and>
    (\<forall>b \<in> live. block_bytes b \<subseteq> {base + bitmap_pages_for (sz div PAGE_SIZE) * PAGE_SIZE..<base + sz}) \<and>
    st_allocated_pages (FrameAllocator_stats fa) = bitmap_pages_for (sz div PAGE_SIZE) + sum snd live"
proof -
  note inv = fa_run_live_inv [OF assms]
  show ?thesis
    using block_bytes_disjoint [OF inv] block_bytes_in_region [OF inv] live_pages_count [OF inv]
    by (simp add: FrameAllocator_stats_def)
qed

text \<open>A region of six pages, for concrete runs.\<close>

definition six_pages :: "u64 \<Rightarrow> nat \<Rightarrow> nat \<Rightarrow> FrameAllocator" where
  "six_pages bits next_search count =
     \<lparr>fa_base = 0, fa_total_pages = 6, fa_bitmap = [bits], fa_bitmap_len = 1,
      fa_next_search = next_search, fa_allocated_count = count\<rparr>"

lemma six_pages_init: "page_init FrameAllocator_new 0 24576 = Ok (six_pages 1 1 1)"
proof -
  have "[0..<((24576 div 4096 + 63) div 64 * 8 + 4096 - 1) div 4096] = [0::nat]" by simp
  then show ?thesis
    by (simp add: page_init_def FrameAllocator_init_def PAGE_SIZE_def six_pages_def FrameAllocator_new_def
        bitmap_set_def)
qed

lemmas alloc_scan_numeral [simp] = alloc_scan.simps(2) [of _ _ "pred_numeral k" for k, folded numeral_eq_Suc]

lemmas six_eval = alloc_frames_def alloc_pages_def free_frames_def free_pages_def free_step_def
  six_pages_def is_page_free_def mark_allocated_def mark_free_def bitmap_set_def bitmap_clear_def
  Let_def PAGE_SIZE_def upt_rec [of 0] upt_rec [of "Suc 0"] 

lemma six_pages_alloc: "alloc_frames (six_pages 1 1 1) 2 = (Some 4096, six_pages 7 3 3)"
  by (simp add: six_eval)

lemma six_pages_run: "fa_run 0 24576 (six_pages 7 3 3) {(4096, 2)}"
  using fa_run.alloc [OF fa_run.init [OF six_pages_init] six_pages_alloc] by simp

theorem live_blocks_separate_witness:
  "block_bytes (4096, 2) \<subseteq> {4096..<24576} \<and>
   st_allocated_pages (FrameAllocator_stats (six_pages 7 3 3)) = 3"
  using live_blocks_separate [OF six_pages_run]
  by (simp add: bitmap_pages_for_def PAGE_SIZE_def)

text \<open>
  C19. \<open>alloc_frames\<close> succeeds exactly when a run of \<open>count\<close> free pages lies wholly on one side of the
  position where the search starts: it fails only when the count is zero or every free run of that
  length straddles that position, and a failed call changes nothing.
\<close>

theorem alloc_frames_None_iff:
  assumes "fa_wf fa"
  shows "(fst (alloc_frames fa count) = None \<longleftrightarrow>
      count = 0 \<or> (\<forall>p. free_run fa p count \<longrightarrow> p < fa_next_search fa \<and> fa_next_search fa < p + count)) \<and>
    (fst (alloc_frames fa count) = None \<longrightarrow> snd (alloc_frames fa count) = fa)"
proof (cases "count = 0")
  case False
  have next_le: "fa_next_search fa \<le> fa_total_pages fa" using assms by (simp add: fa_wf_def)
  show ?thesis
  proof (cases "alloc_scan fa count (fa_total_pages fa) (fa_next_search fa) 0 0")
    case None
    then have "alloc_pages fa count = (None, fa)" by (simp add: alloc_pages_def)
    then show ?thesis using alloc_pages_None(2) [OF assms] False by (simp add: alloc_frames_def)
  next
    case (Some p)
    have "free_run fa p count" using alloc_scan_sound [OF Some] False by simp
    moreover have "fa_next_search fa \<le> p \<or> p + count \<le> fa_next_search fa"
      using alloc_scan_Some_wrap [of fa count "fa_next_search fa" "fa_next_search fa" 0 0 p] Some
        next_le False by simp
    ultimately show ?thesis
      using Some False by (auto simp: alloc_frames_def alloc_pages_def Let_def)
  qed
qed (simp add: alloc_frames_def alloc_pages_def)

text \<open>Five of six pages in use: there is no run of two free pages.\<close>

lemma six_pages_in_use:
  "in_use (six_pages bits next_search count) = {p. p < 6 \<and> bit bits p}"
  by (auto simp: in_use_def bm_bit_def six_pages_def)

lemma six_pages_full_wf: "fa_wf (six_pages 59 6 5)" "\<not> free_run (six_pages 59 6 5) p 2"
proof -
  have used: "in_use (six_pages 59 6 5) = {0, 1, 3, 4, 5}"
    unfolding six_pages_in_use by (auto simp: less_Suc_eq numeral_eq_Suc)
  show "fa_wf (six_pages 59 6 5)"
    unfolding fa_wf_def used by (simp add: bitmap_sized_def six_pages_def)
  have "fa_total_pages (six_pages 59 6 5) = 6" by (simp add: six_pages_def)
  then show "\<not> free_run (six_pages 59 6 5) p 2"
    by (auto simp: numeral_2_eq_2 free_run_Suc is_page_free_iff used)
qed

theorem alloc_frames_None_iff_witness:
  "fa_wf (six_pages 59 6 5) \<and> alloc_frames (six_pages 59 6 5) 2 = (None, six_pages 59 6 5)"
  using alloc_frames_None_iff [OF six_pages_full_wf(1), of 2] six_pages_full_wf by (simp add: prod_eq_iff)

lemma straddle_run: "\<exists>live. fa_run 0 24576 (six_pages 51 3 4) live"
proof -
  have steps: "alloc_frames (six_pages 1 1 1) 1 = (Some 4096, six_pages 3 2 2)"
    "alloc_frames (six_pages 3 2 2) 1 = (Some 8192, six_pages 7 3 3)"
    "alloc_frames (six_pages 7 3 3) 1 = (Some 12288, six_pages 15 4 4)"
    "free_frames (six_pages 15 4 4) 8192 1 = six_pages 11 2 3"
    "alloc_frames (six_pages 11 2 3) 2 = (Some 16384, six_pages 59 6 5)"
    "free_frames (six_pages 59 6 5) 12288 1 = six_pages 51 3 4"
    by (simp_all add: six_eval)
  have "fa_run 0 24576 (six_pages 15 4 4) {(4096, 1), (8192, 1), (12288, 1)}" 
    using fa_run.alloc [OF fa_run.alloc [OF fa_run.alloc [OF fa_run.init [OF six_pages_init] steps(1)] steps(2)] steps(3)]
    by (simp add: insert_commute)
  from fa_run.free [OF this, of 8192 1] steps(4)
  have "fa_run 0 24576 (six_pages 11 2 3) {(4096, 1), (12288, 1)}" by (simp add: insert_Diff_if)
  from fa_run.alloc [OF this steps(5)]
  have "fa_run 0 24576 (six_pages 59 6 5) {(16384, 2), (4096, 1), (12288, 1)}" by (simp add: insert_Diff_if)
  from fa_run.free [OF this, of 12288 1] steps(6) show ?thesis by (auto simp: insert_Diff_if)
qed
text \<open>
  Searching only on either side of the starting point loses memory: after six calls on a region
  of six pages, pages 2 and 3 are free and adjacent, and a request for two pages is refused.
\<close>

theorem alloc_frames_misses_straddling_run:
  "\<exists>fa live. fa_run 0 24576 fa live \<and> free_run fa 2 2 \<and> alloc_frames fa 2 = (None, fa)"
proof -
  obtain live where "fa_run 0 24576 (six_pages 51 3 4) live" using straddle_run by blast
  moreover have "free_run (six_pages 51 3 4) 2 2"
    unfolding numeral_2_eq_2 free_run_Suc by (simp add: is_page_free_def six_pages_def)
  moreover have "alloc_frames (six_pages 51 3 4) 2 = (None, six_pages 51 3 4)"
    by (simp add: six_eval)
  ultimately show ?thesis by blast
qed

text \<open>
  Giving back a block right after it was allocated restores the set of used pages, the statistics
  and the invariant of the allocator.
\<close>

theorem alloc_free_frames_round_trip:
  assumes "fa_wf fa" and "alloc_frames fa count = (Some addr, fa')"
  shows "in_use (free_frames fa' addr count) = in_use fa \<and>
    FrameAllocator_stats (free_frames fa' addr count) = FrameAllocator_stats fa \<and>
    fa_wf (free_frames fa' addr count)"
proof -
  obtain p where p: "addr = fa_base fa + p * PAGE_SIZE" "free_run fa p count" "0 < count"
    and used: "in_use fa' = in_use fa \<union> {p..<p + count}" and same: "fa_base fa' = fa_base fa"
    "fa_total_pages fa' = fa_total_pages fa" "fa_wf fa'"
    using alloc_pages_Some [OF assms(1) assms(2) [unfolded alloc_frames_def]] by blast
  have sub: "{p..<p + count} \<subseteq> in_use fa'" using used by blast
  note freed = free_pages_used [OF same(3) sub p(3), unfolded same(1), folded p(1) free_frames_def]
  have used': "in_use (free_frames fa' addr count) = in_use fa"
    using free_run_disjoint [OF p(2)] unfolding freed(1) used by blast
  then show ?thesis
    using freed(2-4) same assms(1) by (simp add: FrameAllocator_stats_def fa_wf_def)
qed

theorem alloc_free_frames_round_trip_witness:
  "in_use (free_frames (six_pages 7 3 3) 4096 2) = in_use (six_pages 1 1 1)"
  using alloc_free_frames_round_trip [OF _ six_pages_alloc] live_wf(1) [OF fa_run_live_inv [OF fa_run.init [OF six_pages_init]]]
  by simp

text \<open>
  C21. Single frames are never lost: as long as \<open>n\<close> pages are free, \<open>n\<close> calls of \<open>alloc_frame\<close> in a
  row all succeed, on distinct frames that were free, and use up exactly those.
\<close>

theorem alloc_frame_serves_all_free:
  assumes "fa_wf fa" and "n \<le> card (pool_frames fa - held_frames fa)"
  shows "\<exists>addrs fa'. alloc_many alloc_frame n fa = (map Some addrs, fa') \<and> length addrs = n \<and>
    distinct addrs \<and> set addrs \<subseteq> pool_frames fa - held_frames fa \<and>
    held_frames fa' = held_frames fa \<union> set addrs \<and> fa_wf fa'"
  using frames.alloc_many_enough [OF assms] by blast

theorem alloc_frame_serves_all_free_witness:
  "\<exists>addrs fa'. alloc_many alloc_frame 1 (six_pages 59 6 5) = (map Some addrs, fa') \<and> length addrs = 1 \<and> fa_wf fa'"
proof -
  have "page_addr (six_pages 59 6 5) 2 \<in> pool_frames (six_pages 59 6 5) - held_frames (six_pages 59 6 5)"
    unfolding pool_frames_def held_frames_def six_pages_in_use by (auto simp: six_pages_def)
  then have "1 \<le> card (pool_frames (six_pages 59 6 5) - held_frames (six_pages 59 6 5))"
    by (metis One_nat_def Suc_leI card_gt_0_iff empty_iff finite_Diff finite_imageI finite_lessThan pool_frames_def)
  from alloc_frame_serves_all_free [OF six_pages_full_wf(1) this] show ?thesis by blast
qed

end
