(* ===== verification/Fat_Boot.thy ===== *)
theory Fat_Boot
  imports Prelude
begin

text \<open>
  The FAT32 boot sector of \<open>src/fs/fat32/boot.rs\<close>: parsing from the bytes of sector 0, the validity
  check, and the sector arithmetic of the volume, all at the width of the code.
\<close>

section \<open>Parsing\<close>

text \<open>\<open>u16::from_le_bytes\<close> and \<open>u32::from_le_bytes\<close> of the bytes at an offset of a buffer.\<close>

definition read_u16 :: "bytes \<Rightarrow> nat \<Rightarrow> u16" where
  "read_u16 buf offset = u16_from_le_bytes (buf ! offset) (buf ! (offset + 1))"

definition read_u32 :: "bytes \<Rightarrow> nat \<Rightarrow> u32" where
  "read_u32 buf offset =
     u32_from_le_bytes (buf ! offset) (buf ! (offset + 1)) (buf ! (offset + 2)) (buf ! (offset + 3))"

record Fat32BootSector =
  jmp_boot :: bytes
  oem_name :: bytes
  bytes_per_sector :: u16
  sectors_per_cluster :: u8
  reserved_sectors :: u16
  num_fats :: u8
  root_entry_count :: u16
  total_sectors_16 :: u16
  media_type :: u8
  fat_size_16 :: u16
  sectors_per_track :: u16
  num_heads :: u16
  hidden_sectors :: u32
  total_sectors_32 :: u32
  fat_size_32 :: u32
  ext_flags :: u16
  fs_version :: u16
  root_cluster :: u32
  fs_info :: u16
  backup_boot_sector :: u16
  drive_number :: u8
  boot_sig :: u8
  volume_id :: u32
  volume_label :: bytes
  fs_type :: bytes

definition BootSector_from_bytes :: "bytes \<Rightarrow> Fat32BootSector option" where
  "BootSector_from_bytes buf =
     (if length buf < 90 then None
      else Some
        \<lparr>jmp_boot = take 3 buf,
         oem_name = take 8 (drop 3 buf),
         bytes_per_sector = read_u16 buf 11,
         sectors_per_cluster = buf ! 13,
         reserved_sectors = read_u16 buf 14,
         num_fats = buf ! 16,
         root_entry_count = read_u16 buf 17,
         total_sectors_16 = read_u16 buf 19,
         media_type = buf ! 21,
         fat_size_16 = read_u16 buf 22,
         sectors_per_track = read_u16 buf 24,
         num_heads = read_u16 buf 26,
         hidden_sectors = read_u32 buf 28,
         total_sectors_32 = read_u32 buf 32,
         fat_size_32 = read_u32 buf 36,
         ext_flags = read_u16 buf 40,
         fs_version = read_u16 buf 42,
         root_cluster = read_u32 buf 44,
         fs_info = read_u16 buf 48,
         backup_boot_sector = read_u16 buf 50,
         drive_number = buf ! 64,
         boot_sig = buf ! 66,
         volume_id = read_u32 buf 67,
         volume_label = take 11 (drop 71 buf),
         fs_type = take 8 (drop 82 buf)\<rparr>)"

definition is_valid :: "Fat32BootSector \<Rightarrow> bool" where
  "is_valid boot =
     (if jmp_boot boot ! 0 \<noteq> 0xEB \<and> jmp_boot boot ! 0 \<noteq> 0xE9 then False
      else let bps = bytes_per_sector boot
      in if bps \<noteq> 512 \<and> bps \<noteq> 1024 \<and> bps \<noteq> 2048 \<and> bps \<noteq> 4096 then False
      else let spc = sectors_per_cluster boot
      in if spc = 0 \<or> spc AND (spc - 1) \<noteq> 0 then False
      else if root_entry_count boot \<noteq> 0 \<or> total_sectors_16 boot \<noteq> 0 then False
      else if fat_size_32 boot = 0 then False
      else True)"


section \<open>Layout of the volume\<close>

definition fat_start_sector :: "Fat32BootSector \<Rightarrow> u32" where
  "fat_start_sector boot = ucast (reserved_sectors boot)"

definition data_start_sector :: "Fat32BootSector \<Rightarrow> u32" where
  "data_start_sector boot = ucast (reserved_sectors boot) + ucast (num_fats boot) * fat_size_32 boot"

definition cluster_to_sector :: "Fat32BootSector \<Rightarrow> u32 \<Rightarrow> u32" where
  "cluster_to_sector boot cluster =
     data_start_sector boot + (cluster - 2) * ucast (sectors_per_cluster boot)"

text \<open>The division panics when a cluster has no sectors, which a valid boot sector excludes.\<close>

definition total_clusters :: "Fat32BootSector \<Rightarrow> (u32, 'e) outcome" where
  "total_clusters boot =
     (let data_sectors = total_sectors_32 boot - data_start_sector boot
      in if sectors_per_cluster boot = 0 then Panic
         else Ok (data_sectors div ucast (sectors_per_cluster boot)))"


section \<open>Facts\<close>

text \<open>The only sector sizes are powers of two; the only cluster sizes are powers of two below 256.\<close>

lemma is_valid_bps:
  "is_valid boot \<Longrightarrow> bytes_per_sector boot \<in> {512, 1024, 2048, 4096}"
  by (auto simp: is_valid_def Let_def split: if_splits)

lemma is_valid_spc_nonzero: "is_valid boot \<Longrightarrow> sectors_per_cluster boot \<noteq> 0"
  by (auto simp: is_valid_def Let_def split: if_splits)

lemma is_valid_bps_nat:
  assumes "is_valid boot"
  shows "32 dvd unat (bytes_per_sector boot)" and "0 < unat (bytes_per_sector boot)"
  using is_valid_bps [OF assms] by auto

lemma is_valid_total_clusters:
  "is_valid boot \<Longrightarrow> total_clusters boot =
     Ok ((total_sectors_32 boot - data_start_sector boot) div ucast (sectors_per_cluster boot))"
  by (simp add: total_clusters_def is_valid_spc_nonzero)

text \<open>
  A volume whose reserved sectors and FATs fit in its sectors; then none of the 32-bit sums wraps.
\<close>

definition volume_fits :: "Fat32BootSector \<Rightarrow> bool" where
  "volume_fits boot \<longleftrightarrow>
     unat (reserved_sectors boot) + unat (num_fats boot) * unat (fat_size_32 boot) \<le> unat (total_sectors_32 boot)"

definition cluster_count :: "Fat32BootSector \<Rightarrow> u32" where
  "cluster_count boot = (total_sectors_32 boot - data_start_sector boot) div ucast (sectors_per_cluster boot)"

lemma data_start_sector_nat:
  assumes "volume_fits boot"
  shows "unat (data_start_sector boot) =
    unat (reserved_sectors boot) + unat (num_fats boot) * unat (fat_size_32 boot)"
proof -
  have le: "unat (reserved_sectors boot) + unat (num_fats boot) * unat (fat_size_32 boot) < 2 ^ 32"
    using assms unat_less_exp [of "total_sectors_32 boot"] by (simp add: volume_fits_def)
  then have "unat (ucast (num_fats boot) * fat_size_32 boot :: u32) = unat (num_fats boot) * unat (fat_size_32 boot)"
    by (simp add: unat_word_ariths)
  then show ?thesis
    using le by (simp add: data_start_sector_def unat_word_ariths)
qed

lemma cluster_count_nat:
  assumes "volume_fits boot"
  shows "unat (cluster_count boot) =
    (unat (total_sectors_32 boot) - unat (data_start_sector boot)) div unat (sectors_per_cluster boot)"
proof -
  have "data_start_sector boot \<le> total_sectors_32 boot"
    using assms data_start_sector_nat [OF assms] by (simp add: volume_fits_def word_le_nat_alt)
  then show ?thesis
    by (simp add: cluster_count_def unat_div_distrib unat_sub)
qed

text \<open>The sectors of a cluster of the data area.\<close>

lemma cluster_to_sector_nat:
  assumes fits: "volume_fits boot" and c: "2 \<le> unat c" "unat c < unat (cluster_count boot) + 2"
  shows "unat (cluster_to_sector boot c) =
      unat (data_start_sector boot) + (unat c - 2) * unat (sectors_per_cluster boot)"
    and "unat (cluster_to_sector boot c) + unat (sectors_per_cluster boot) \<le> unat (total_sectors_32 boot)"
proof -
  define ds ts spc where "ds = unat (data_start_sector boot)" and "ts = unat (total_sectors_32 boot)"
    and "spc = unat (sectors_per_cluster boot)"
  have ds: "ds \<le> ts" using fits data_start_sector_nat [OF fits] by (simp add: ds_def ts_def volume_fits_def)
  have "Suc (unat c - 2) \<le> (ts - ds) div spc"
    using c cluster_count_nat [OF fits] by (simp add: ds_def ts_def spc_def)
  then have "Suc (unat c - 2) * spc \<le> (ts - ds) div spc * spc" by (rule mult_le_mono1)
  then have "Suc (unat c - 2) * spc \<le> ts - ds" by (rule le_trans) simp
  then have bound: "ds + (unat c - 2) * spc + spc \<le> ts" using ds by simp
  have ts: "ts < 2 ^ 32" using unat_less_exp [of "total_sectors_32 boot"] by (simp add: ts_def)
  have sub: "unat (c - 2) = unat c - 2" using c(1) by (simp add: unat_sub word_le_nat_alt)
  have "unat ((c - 2) * ucast (sectors_per_cluster boot) :: u32) = (unat c - 2) * spc"
    using bound ts by (simp add: unat_word_ariths sub spc_def)
  then show eq: "unat (cluster_to_sector boot c) = ds + (unat c - 2) * spc"
    using bound ts by (simp add: cluster_to_sector_def unat_word_ariths ds_def)
  show "unat (cluster_to_sector boot c) + spc \<le> ts" using bound unfolding eq .
qed


section \<open>Properties\<close>

text \<open>
  C29. On a volume whose reserved area and FATs fit its sectors, the 32-bit arithmetic of
  \<open>cluster_to_sector\<close> never wraps: the sectors of every data cluster lie between the end of the FATs
  and the end of the volume, and different clusters have disjoint sectors.
\<close>

theorem cluster_sectors_disjoint:
  assumes fits: "volume_fits boot" and count: "total_clusters boot = (Ok n :: (u32, unit) outcome)"
    and c: "2 \<le> unat c" "unat c < unat n + 2" and d: "2 \<le> unat d" "unat d < unat n + 2"
  shows "{unat (cluster_to_sector boot c)..<unat (cluster_to_sector boot c) + unat (sectors_per_cluster boot)}
      \<subseteq> {unat (reserved_sectors boot) + unat (num_fats boot) * unat (fat_size_32 boot)..<unat (total_sectors_32 boot)} \<and>
    (c \<noteq> d \<longrightarrow>
      {unat (cluster_to_sector boot c)..<unat (cluster_to_sector boot c) + unat (sectors_per_cluster boot)} \<inter>
      {unat (cluster_to_sector boot d)..<unat (cluster_to_sector boot d) + unat (sectors_per_cluster boot)} = {})"
proof -
  have "n = cluster_count boot" using count by (auto simp: total_clusters_def cluster_count_def split: if_splits)
  note c_sec = cluster_to_sector_nat [OF fits c [unfolded this]]
    and d_sec = cluster_to_sector_nat [OF fits d [unfolded this]]
  define spc where "spc = unat (sectors_per_cluster boot)"
  have "(unat c - 2) * spc + spc \<le> (unat d - 2) * spc \<or> (unat d - 2) * spc + spc \<le> (unat c - 2) * spc"
    if "c \<noteq> d"
  proof -
    have "unat c \<noteq> unat d" using that by (simp add: word_unat_eq_iff)
    then have "Suc (unat c - 2) \<le> unat d - 2 \<or> Suc (unat d - 2) \<le> unat c - 2" using c(1) d(1) by linarith
    then have "Suc (unat c - 2) * spc \<le> (unat d - 2) * spc \<or> Suc (unat d - 2) * spc \<le> (unat c - 2) * spc"
      using mult_le_mono1 by blast
    then show ?thesis by (simp add: add.commute)
  qed
  then show ?thesis
    using c_sec d_sec data_start_sector_nat [OF fits] unfolding spc_def by auto
qed

text \<open>A volume of 20 sectors: one reserved, two FATs of two sectors, clusters of two sectors.\<close>

definition boot_small :: Fat32BootSector where
  "boot_small =
     \<lparr>jmp_boot = [0xEB, 0x58, 0x90], oem_name = replicate 8 32, bytes_per_sector = 512,
      sectors_per_cluster = 2, reserved_sectors = 1, num_fats = 2, root_entry_count = 0,
      total_sectors_16 = 0, media_type = 0xF8, fat_size_16 = 0, sectors_per_track = 0, num_heads = 0,
      hidden_sectors = 0, total_sectors_32 = 20, fat_size_32 = 2, ext_flags = 0, fs_version = 0,
      root_cluster = 2, fs_info = 1, backup_boot_sector = 0, drive_number = 0x80, boot_sig = 0x29,
      volume_id = 0, volume_label = replicate 11 32, fs_type = replicate 8 32\<rparr>"

theorem cluster_sectors_disjoint_witness:
  "is_valid boot_small \<and> cluster_to_sector boot_small 3 = 7 \<and> cluster_to_sector boot_small 8 = 17 \<and>
   {unat (cluster_to_sector boot_small 3)..<unat (cluster_to_sector boot_small 3) + 2} \<inter>
   {unat (cluster_to_sector boot_small 8)..<unat (cluster_to_sector boot_small 8) + 2} = {}"
proof -
  have eval: "volume_fits boot_small" "is_valid boot_small" "cluster_to_sector boot_small 3 = 7"
    "cluster_to_sector boot_small 8 = 17" "unat (sectors_per_cluster boot_small) = 2"
    by (simp_all add: volume_fits_def is_valid_def boot_small_def cluster_to_sector_def data_start_sector_def)
  have "total_clusters boot_small = (Ok 7 :: (u32, unit) outcome)"
    by (simp add: boot_small_def total_clusters_def data_start_sector_def)
  from cluster_sectors_disjoint [OF eval(1) this, of 3 8] show ?thesis
    using eval by simp
qed

end
