(* ===== verification/Block_Dev.thy ===== *)
theory Block_Dev
  imports Prelude
begin

text \<open>
  Block devices: the trait \<open>BlockDevice\<close> and the registry of \<open>src/block/mod.rs\<close>, and the RAM disk of
  \<open>src/block/ramdisk.rs\<close>. A trait object is a record of its methods (\<open>blkdev\<close>) next to the state of
  the device; the clients of a device take both as arguments. A method that fills a caller's buffer
  takes the length of that buffer and returns its new contents. Block numbers are 64-bit words,
  and so is the arithmetic on them; sizes are bounded by the memory that holds them.
  The locale \<open>block_device\<close> states what a device promises to the file system; it is interpreted on the
  RAM disk.
\<close>

section \<open>The device trait\<close>

datatype BlockError =
    BE_InvalidBlock | BE_IoError | BE_DeviceNotFound | BE_BufferSizeMismatch | BE_ReadOnly | BE_NotReady

definition BlockError_fmt :: "BlockError \<Rightarrow> string" where
  "BlockError_fmt e = (case e of
     BE_InvalidBlock \<Rightarrow> ''invalid block number''
   | BE_IoError \<Rightarrow> ''I/O error''
   | BE_DeviceNotFound \<Rightarrow> ''device not found''
   | BE_BufferSizeMismatch \<Rightarrow> ''buffer size mismatch''
   | BE_ReadOnly \<Rightarrow> ''read-only device''
   | BE_NotReady \<Rightarrow> ''device not ready'')"

record 'd blkdev =
  bd_name :: "'d \<Rightarrow> string"
  bd_block_size :: "'d \<Rightarrow> nat"
  bd_block_count :: "'d \<Rightarrow> u64"
  bd_read_block :: "'d \<Rightarrow> u64 \<Rightarrow> nat \<Rightarrow> (bytes, BlockError) outcome"
  bd_write_block :: "u64 \<Rightarrow> bytes \<Rightarrow> ('d, unit, BlockError) act"
  bd_is_read_only :: "'d \<Rightarrow> bool"

text \<open>The default methods of the trait. The loops run over the remaining block indices.\<close>

fun read_blocks_loop ::
    "'d blkdev \<Rightarrow> 'd \<Rightarrow> nat \<Rightarrow> u64 \<Rightarrow> nat list \<Rightarrow> bytes \<Rightarrow> (bytes, BlockError) outcome" where
  "read_blocks_loop dev d block_size start_block [] buf = Ok buf"
| "read_blocks_loop dev d block_size start_block (i # is) buf =
     (let offset = i * block_size
      in and_then (bd_read_block dev d (start_block + of_nat i) block_size) (\<lambda>block.
           and_then (slice_put buf offset block) (\<lambda>buf.
             read_blocks_loop dev d block_size start_block is buf)))"

definition read_blocks :: "'d blkdev \<Rightarrow> 'd \<Rightarrow> u64 \<Rightarrow> bytes \<Rightarrow> (bytes, BlockError) outcome" where
  "read_blocks dev d start_block buf =
     (let block_size = bd_block_size dev d
      in if block_size = 0 then Panic
         else if length buf mod block_size \<noteq> 0 then Err BE_BufferSizeMismatch
         else read_blocks_loop dev d block_size start_block [0..<length buf div block_size] buf)"

definition write_blocks :: "'d blkdev \<Rightarrow> u64 \<Rightarrow> bytes \<Rightarrow> ('d, unit, BlockError) act" where
  "write_blocks dev start_block buf d =
     (let block_size = bd_block_size dev d
      in if block_size = 0 then (Panic, d)
         else if length buf mod block_size \<noteq> 0 then (Err BE_BufferSizeMismatch, d)
         else act_for [0..<length buf div block_size] (\<lambda>i.
           (let offset = i * block_size
            in act_bind (act_lift (\<lambda>_. slice_get buf offset block_size)) (\<lambda>block.
                 bd_write_block dev (start_block + of_nat i) block))) d)"

definition blk_sync :: "('d, unit, BlockError) act" where
  "blk_sync d = (Ok (), d)"

definition blk_capacity :: "'d blkdev \<Rightarrow> 'd \<Rightarrow> u64" where
  "blk_capacity dev d = bd_block_count dev d * of_nat (bd_block_size dev d)"


section \<open>The registry\<close>

text \<open>The registry holds shared references (\<open>Arc\<close>), here handles of a type \<open>'h\<close>.\<close>

record 'h RegisteredDevice =
  reg_name :: string
  reg_device :: 'h

record BlockDeviceInfo =
  info_name :: string
  info_block_size :: nat
  info_block_count :: u64
  info_capacity :: u64
  info_read_only :: bool

definition register_device :: "string \<Rightarrow> 'h \<Rightarrow> 'h RegisteredDevice list \<Rightarrow> 'h RegisteredDevice list" where
  "register_device name h devices = devices @ [\<lparr>reg_name = name, reg_device = h\<rparr>]"

definition unregister_device ::
    "string \<Rightarrow> 'h RegisteredDevice list \<Rightarrow> bool \<times> 'h RegisteredDevice list" where
  "unregister_device name devices =
     (case position (\<lambda>d. reg_name d = name) devices of
        Some pos \<Rightarrow> (True, vec_remove pos devices)
      | None \<Rightarrow> (False, devices))"

definition get_device :: "string \<Rightarrow> 'h RegisteredDevice list \<Rightarrow> 'h option" where
  "get_device name devices = map_option reg_device (find (\<lambda>d. reg_name d = name) devices)"

definition list_devices :: "'h RegisteredDevice list \<Rightarrow> string list" where
  "list_devices devices = map reg_name devices"

definition device_info ::
    "('h \<Rightarrow> 'd blkdev \<times> 'd) \<Rightarrow> string \<Rightarrow> 'h RegisteredDevice list \<Rightarrow> BlockDeviceInfo option" where
  "device_info deref name devices =
     map_option (\<lambda>r. (case deref (reg_device r) of (dev, d) \<Rightarrow>
         \<lparr>info_name = reg_name r, info_block_size = bd_block_size dev d,
          info_block_count = bd_block_count dev d, info_capacity = blk_capacity dev d,
          info_read_only = bd_is_read_only dev d\<rparr>))
       (find (\<lambda>r. reg_name r = name) devices)"


section \<open>The RAM disk\<close>

definition DEFAULT_BLOCK_SIZE :: nat where
  "DEFAULT_BLOCK_SIZE = 512"

record RamDisk =
  rd_name :: string
  rd_block_size :: nat
  rd_data :: bytes
  rd_read_only :: bool

text \<open>Both constructors divide by the block size, and panic when it is zero.\<close>

definition RamDisk_new :: "string \<Rightarrow> nat \<Rightarrow> nat \<Rightarrow> (RamDisk, 'e) outcome" where
  "RamDisk_new name sz block_size =
     (if block_size = 0 then Panic
      else let aligned_size = (sz + block_size - 1) div block_size * block_size
           in Ok \<lparr>rd_name = name, rd_block_size = block_size, rd_data = replicate aligned_size 0,
                  rd_read_only = False\<rparr>)"

definition RamDisk_new_default :: "string \<Rightarrow> nat \<Rightarrow> (RamDisk, 'e) outcome" where
  "RamDisk_new_default name sz = RamDisk_new name sz DEFAULT_BLOCK_SIZE"

definition RamDisk_from_data :: "string \<Rightarrow> bytes \<Rightarrow> nat \<Rightarrow> (RamDisk, 'e) outcome" where
  "RamDisk_from_data name bs block_size =
     (if block_size = 0 then Panic
      else let aligned_size = (length bs + block_size - 1) div block_size * block_size
           in Ok \<lparr>rd_name = name, rd_block_size = block_size, rd_data = vec_resize bs aligned_size 0,
                  rd_read_only = True\<rparr>)"

definition RamDisk_set_read_only :: "bool \<Rightarrow> RamDisk \<Rightarrow> RamDisk" where
  "RamDisk_set_read_only ro rd = rd\<lparr>rd_read_only := ro\<rparr>"

definition RamDisk_read_all :: "RamDisk \<Rightarrow> bytes" where
  "RamDisk_read_all rd = rd_data rd"

definition RamDisk_write_all :: "bytes \<Rightarrow> (RamDisk, unit, BlockError) act" where
  "RamDisk_write_all bs rd =
     (if rd_read_only rd then (Err BE_ReadOnly, rd)
      else let len = min (length bs) (length (rd_data rd))
           in (Ok (), rd\<lparr>rd_data := overwrite (rd_data rd) 0 (take len bs)\<rparr>))"

definition RamDisk_block_count :: "RamDisk \<Rightarrow> u64" where
  "RamDisk_block_count rd = of_nat (length (rd_data rd) div rd_block_size rd)"

text \<open>
  The byte range of a block, computed in 64-bit arithmetic. An end below the offset is an invalid
  slice range and panics.
\<close>

definition RamDisk_read_block :: "RamDisk \<Rightarrow> u64 \<Rightarrow> nat \<Rightarrow> (bytes, BlockError) outcome" where
  "RamDisk_read_block rd block_num buf_len =
     (if buf_len \<noteq> rd_block_size rd then Err BE_BufferSizeMismatch
      else let offset = block_num * of_nat (rd_block_size rd);
               e = offset + of_nat (rd_block_size rd)
           in if unat e > length (rd_data rd) then Err BE_InvalidBlock
              else if unat offset > unat e then Panic
              else slice_get (rd_data rd) (unat offset) (unat e - unat offset))"

definition RamDisk_write_block :: "u64 \<Rightarrow> bytes \<Rightarrow> (RamDisk, unit, BlockError) act" where
  "RamDisk_write_block block_num buf rd =
     (if rd_read_only rd then (Err BE_ReadOnly, rd)
      else if length buf \<noteq> rd_block_size rd then (Err BE_BufferSizeMismatch, rd)
      else let offset = block_num * of_nat (rd_block_size rd);
               e = offset + of_nat (rd_block_size rd)
           in if unat e > length (rd_data rd) then (Err BE_InvalidBlock, rd)
              else if unat offset > unat e then (Panic, rd)
              else (Ok (), rd\<lparr>rd_data := overwrite (rd_data rd) (unat offset) buf\<rparr>))"

definition ramdisk_ops :: "RamDisk blkdev" where
  "ramdisk_ops =
     \<lparr>bd_name = rd_name, bd_block_size = rd_block_size, bd_block_count = RamDisk_block_count,
      bd_read_block = RamDisk_read_block, bd_write_block = RamDisk_write_block,
      bd_is_read_only = rd_read_only\<rparr>"

text \<open>Creation with registration; \<open>fresh\<close> is the handle of the new \<open>Arc\<close>.\<close>

definition create_ramdisk ::
    "'h \<Rightarrow> string \<Rightarrow> nat \<Rightarrow> 'h RegisteredDevice list \<Rightarrow>
     (RamDisk, 'e) outcome \<times> 'h RegisteredDevice list" where
  "create_ramdisk fresh name sz devices =
     (case RamDisk_new_default name sz of
        Ok disk \<Rightarrow> (Ok disk, register_device name fresh devices)
      | Err e \<Rightarrow> (Err e, devices)
      | Panic \<Rightarrow> (Panic, devices))"

definition create_ramdisk_mb ::
    "'h \<Rightarrow> string \<Rightarrow> nat \<Rightarrow> 'h RegisteredDevice list \<Rightarrow>
     (RamDisk, 'e) outcome \<times> 'h RegisteredDevice list" where
  "create_ramdisk_mb fresh name size_mb devices = create_ramdisk fresh name (size_mb * 1024 * 1024) devices"


section \<open>What a block device promises\<close>

text \<open>
  \<open>dinv\<close> holds of a working device, and \<open>blk d i\<close> is the contents of its block \<open>i\<close>.
\<close>

locale block_device =
  fixes dev :: "'d blkdev" and dinv :: "'d \<Rightarrow> bool" and blk :: "'d \<Rightarrow> nat \<Rightarrow> bytes"
  assumes size_pos: "dinv d \<Longrightarrow> 0 < bd_block_size dev d"
    and blk_length: "dinv d \<Longrightarrow> i < unat (bd_block_count dev d) \<Longrightarrow> length (blk d i) = bd_block_size dev d"
    and read_ok: "dinv d \<Longrightarrow> unat n < unat (bd_block_count dev d) \<Longrightarrow>
      bd_read_block dev d n (bd_block_size dev d) = Ok (blk d (unat n))"
    and write_ok: "dinv d \<Longrightarrow> unat n < unat (bd_block_count dev d) \<Longrightarrow> length buf = bd_block_size dev d \<Longrightarrow>
      \<not> bd_is_read_only dev d \<Longrightarrow>
      \<exists>d'. bd_write_block dev n buf d = (Ok (), d') \<and> dinv d' \<and>
        (\<forall>i < unat (bd_block_count dev d). blk d' i = (if i = unat n then buf else blk d i)) \<and>
        bd_block_size dev d' = bd_block_size dev d \<and> bd_block_count dev d' = bd_block_count dev d \<and>
        bd_is_read_only dev d' = bd_is_read_only dev d"
    and write_ro: "dinv d \<Longrightarrow> bd_is_read_only dev d \<Longrightarrow> bd_write_block dev n buf d = (Err BE_ReadOnly, d)"

context block_device
begin

lemma read_blocks_loop_ok:
  assumes "dinv d" and "unat start + k \<le> unat (bd_block_count dev d)"
    and "length buf = k * bd_block_size dev d" and "j \<le> k"
  shows "read_blocks_loop dev d (bd_block_size dev d) start [j..<k] buf =
    Ok (take (j * bd_block_size dev d) buf @ concat (map (blk d) [unat start + j..<unat start + k]))"
  using assms(3,4)
proof (induction "k - j" arbitrary: j buf)
  case 0
  then show ?case by simp
next
  case (Suc m)
  define bs where "bs = bd_block_size dev d"
  have j: "j < k" using Suc.hyps(2) by simp
  have pos: "unat (start + of_nat j) = unat start + j"
    using assms(2) j unat_less_exp [of "bd_block_count dev d"] by (intro unat_add_of_nat) simp
  then have range: "unat (start + of_nat j) < unat (bd_block_count dev d)" using assms(2) j by simp
  have len: "length (blk d (unat start + j)) = bs"
    using blk_length [OF assms(1)] range pos by (simp add: bs_def)
  have fit: "j * bs + bs \<le> length buf"
    using Suc.prems(1) mult_le_mono1 [of "Suc j" k bs] j by (simp add: bs_def)
  define buf' where "buf' = overwrite buf (j * bs) (blk d (unat start + j))"
  have "take (Suc j * bs) buf' = take (j * bs) buf @ blk d (unat start + j)"
    using fit len by (simp add: buf'_def overwrite_def)
  moreover have "length buf' = k * bs" using fit len Suc.prems(1) by (simp add: buf'_def bs_def)
  moreover have "[unat start + j..<unat start + k] = (unat start + j) # [unat start + Suc j..<unat start + k]"
    using j by (simp add: upt_conv_Cons)
  ultimately show ?case
    using Suc.hyps(1) [of "Suc j" buf'] Suc.hyps(2) j read_ok [OF assms(1) range] pos len fit
    by (simp add: upt_conv_Cons slice_put_def flip: bs_def buf'_def)
qed

lemma read_blocks_ok:
  assumes "dinv d" and "unat start + k \<le> unat (bd_block_count dev d)"
    and "length buf = k * bd_block_size dev d"
  shows "read_blocks dev d start buf = Ok (concat (map (blk d) [unat start..<unat start + k]))"
  using read_blocks_loop_ok [OF assms(1,2,3), of 0] assms(3) size_pos [OF assms(1)]
  by (simp add: read_blocks_def Let_def)

text \<open>A device after writes: same geometry, still working.\<close>

definition dev_same :: "'d \<Rightarrow> 'd \<Rightarrow> bool" where
  "dev_same d d' \<longleftrightarrow> dinv d' \<and> bd_block_size dev d' = bd_block_size dev d \<and>
     bd_block_count dev d' = bd_block_count dev d \<and> bd_is_read_only dev d' = bd_is_read_only dev d"

lemma write_blocks_loop_ok:
  assumes "dinv d" and "\<not> bd_is_read_only dev d" and "bd_block_size dev d = bs"
    and "unat start + k \<le> unat (bd_block_count dev d)"
    and "length buf = k * bs" and "j \<le> k"
  shows "\<exists>d'. act_for [j..<k] (\<lambda>i. act_bind (act_lift (\<lambda>_. slice_get buf (i * bs) bs))
      (\<lambda>block. bd_write_block dev (start + of_nat i) block)) d = (Ok (), d') \<and> dev_same d d' \<and>
    (\<forall>i < unat (bd_block_count dev d). blk d' i =
       (if unat start + j \<le> i \<and> i < unat start + k then take bs (drop ((i - unat start) * bs) buf)
        else blk d i))"
  using assms
proof (induction "k - j" arbitrary: j d)
  case 0
  then show ?case by (auto simp: dev_same_def)
next
  case (Suc m)
  have j: "j < k" and m: "m = k - Suc j" using Suc.hyps(2) by simp_all
  have pos: "unat (start + of_nat j) = unat start + j"
    using Suc.prems(4) j unat_less_exp [of "bd_block_count dev d"] by (intro unat_add_of_nat) simp
  then have range: "unat (start + of_nat j) < unat (bd_block_count dev d)" using Suc.prems(4) j by simp
  have fit: "j * bs + bs \<le> length buf"
    using Suc.prems(5) mult_le_mono1 [of "Suc j" k bs] j by simp
  obtain d1 where d1: "bd_write_block dev (start + of_nat j) (take bs (drop (j * bs) buf)) d = (Ok (), d1)"
    "dinv d1" "bd_block_size dev d1 = bs" "bd_block_count dev d1 = bd_block_count dev d"
    "\<not> bd_is_read_only dev d1"
    and blk1: "\<And>i. i < unat (bd_block_count dev d) \<Longrightarrow> blk d1 i =
      (if i = unat start + j then take bs (drop (j * bs) buf) else blk d i)"
    using write_ok [OF Suc.prems(1) range, of "take bs (drop (j * bs) buf)"] Suc.prems(2,3) fit pos by auto
  obtain d2 where d2: "act_for [Suc j..<k] (\<lambda>i. act_bind (act_lift (\<lambda>_. slice_get buf (i * bs) bs))
      (\<lambda>block. bd_write_block dev (start + of_nat i) block)) d1 = (Ok (), d2)" "dev_same d1 d2"
    and blk2: "\<And>i. i < unat (bd_block_count dev d) \<Longrightarrow> blk d2 i =
       (if unat start + Suc j \<le> i \<and> i < unat start + k then take bs (drop ((i - unat start) * bs) buf)
        else blk d1 i)"
    using Suc.hyps(1) [OF m d1(2,5,3), unfolded d1(4), OF Suc.prems(4,5) Suc_leI [OF j]] by blast
  have "blk d2 i = (if unat start + j \<le> i \<and> i < unat start + k then take bs (drop ((i - unat start) * bs) buf)
        else blk d i)" if "i < unat (bd_block_count dev d)" for i
    using blk2 [OF that] blk1 [OF that] j by (cases "i = unat start + j") auto
  moreover have "dev_same d d2" using d2(2) d1 Suc.prems(2,3) by (simp add: dev_same_def)
  moreover have "act_for [j..<k] (\<lambda>i. act_bind (act_lift (\<lambda>_. slice_get buf (i * bs) bs))
      (\<lambda>block. bd_write_block dev (start + of_nat i) block)) d = (Ok (), d2)"
    using d2(1) d1(1) j fit by (simp add: upt_conv_Cons act_bind_def slice_get_def)
  ultimately show ?case by blast
qed

lemma write_blocks_ok:
  assumes "dinv d" and "\<not> bd_is_read_only dev d"
    and "unat start + k \<le> unat (bd_block_count dev d)" and "length buf = k * bd_block_size dev d"
  shows "\<exists>d'. write_blocks dev start buf d = (Ok (), d') \<and> dev_same d d' \<and>
    (\<forall>i < unat (bd_block_count dev d). i < unat start \<or> unat start + k \<le> i \<longrightarrow> blk d' i = blk d i) \<and>
    read_blocks dev d' start (replicate (length buf) 0) = Ok buf"
proof -
  define bs where "bs = bd_block_size dev d"
  have bs: "0 < bs" "length buf = k * bs" using size_pos [OF assms(1)] assms(4) by (simp_all add: bs_def)
  obtain d' where d': "act_for [0..<k] (\<lambda>i. act_bind (act_lift (\<lambda>_. slice_get buf (i * bs) bs))
      (\<lambda>block. bd_write_block dev (start + of_nat i) block)) d = (Ok (), d')" "dev_same d d'"
    and blk': "\<And>i. i < unat (bd_block_count dev d) \<Longrightarrow> blk d' i =
       (if unat start \<le> i \<and> i < unat start + k then take bs (drop ((i - unat start) * bs) buf) else blk d i)"
    using write_blocks_loop_ok [OF assms(1,2) bs_def [symmetric] assms(3) bs(2), of 0] by auto
  have run: "write_blocks dev start buf d = (Ok (), d')"
    using d'(1) bs by (simp add: write_blocks_def Let_def flip: bs_def)
  have "read_blocks dev d' start (replicate (length buf) 0) =
      Ok (concat (map (blk d') [unat start..<unat start + k]))"
    using d'(2) assms(3) bs(2) by (intro read_blocks_ok) (simp_all add: dev_same_def bs_def)
  also have "map (blk d') [unat start..<unat start + k] = map (\<lambda>i. take bs (drop (i * bs) buf)) [0..<k]"
    using blk' assms(3) by (intro nth_equalityI) auto
  finally show ?thesis using run d'(2) blk' concat_chunks [OF bs(2)] by auto
qed

end


section \<open>Lookup in the registry\<close>

lemma find_vec_remove_other:
  "position p xs = Some i \<Longrightarrow> (\<And>x. p x \<Longrightarrow> \<not> q x) \<Longrightarrow> find q (vec_remove i xs) = find q xs"
proof (induction xs arbitrary: i)
  case (Cons x xs)
  then show ?case by (cases i) (auto simp: vec_remove_def split: if_splits)
qed simp

lemma get_device_unregister_other:
  "other \<noteq> name \<Longrightarrow> get_device other (snd (unregister_device name devices)) = get_device other devices"
  by (auto simp: get_device_def unregister_device_def split: option.splits
      dest: find_vec_remove_other [where q = "\<lambda>d. reg_name d = other"])

lemma unregister_device_found:
  "fst (unregister_device name devices) \<longleftrightarrow> get_device name devices \<noteq> None"
proof (cases "position (\<lambda>d. reg_name d = name) devices")
  case None
  then have "find (\<lambda>d. reg_name d = name) devices = None" by (simp add: find_None_iff position_None_iff)
  with None show ?thesis by (simp add: unregister_device_def get_device_def)
next
  case (Some i)
  then have "find (\<lambda>d. reg_name d = name) devices \<noteq> None"
    using position_SomeD [OF Some] by (auto simp: find_None_iff in_set_conv_nth)
  then show ?thesis using Some by (auto simp: unregister_device_def get_device_def)
qed


section \<open>The RAM disk is a block device\<close>

definition rd_wf :: "RamDisk \<Rightarrow> bool" where
  "rd_wf rd \<longleftrightarrow> 0 < rd_block_size rd \<and> rd_block_size rd dvd length (rd_data rd) \<and>
     length (rd_data rd) < 2 ^ 64"

definition rd_blk :: "RamDisk \<Rightarrow> nat \<Rightarrow> bytes" where
  "rd_blk rd i = take (rd_block_size rd) (drop (i * rd_block_size rd) (rd_data rd))"

lemma RamDisk_new_wf:
  assumes "RamDisk_new name sz bs = Ok rd" and "sz + bs \<le> 2 ^ 64"
  shows "rd_wf rd" and "sz \<le> length (rd_data rd)" and "length (rd_data rd) < sz + bs"
proof -
  have bs: "0 < bs" and rd: "rd_data rd = replicate ((sz + bs - 1) div bs * bs) 0" "rd_block_size rd = bs"
    using assms(1) by (auto simp: RamDisk_new_def Let_def split: if_splits)
  have "(sz + bs - 1) div bs * bs \<le> sz + bs - 1" by simp
  then show le: "length (rd_data rd) < sz + bs"
    unfolding rd(1) length_replicate using bs by linarith
  show "rd_wf rd" unfolding rd_wf_def using bs rd le assms(2) by simp
  have "sz + bs - 1 < Suc ((sz + bs - 1) div bs) * bs"
    using bs by (metis dividend_less_times_div mult.commute mult_Suc_right)
  then show "sz \<le> length (rd_data rd)" using rd by simp
qed

lemma RamDisk_block_count_nat:
  "rd_wf rd \<Longrightarrow> unat (RamDisk_block_count rd) = length (rd_data rd) div rd_block_size rd"
  unfolding RamDisk_block_count_def rd_wf_def
  by (intro unat_of_nat_small) (simp add: div_le_dividend [THEN le_less_trans])

text \<open>The byte range of a block below the block count is inside the data, so nothing wraps.\<close>

lemma rd_block_range:
  assumes wf: "rd_wf rd" and n: "unat (n :: u64) < unat (RamDisk_block_count rd)"
  shows "unat (n * of_nat (rd_block_size rd)) = unat n * rd_block_size rd"
    and "unat (n * of_nat (rd_block_size rd) + of_nat (rd_block_size rd)) =
      unat n * rd_block_size rd + rd_block_size rd"
    and "unat n * rd_block_size rd + rd_block_size rd \<le> length (rd_data rd)"
proof -
  let ?bs = "rd_block_size rd" and ?len = "length (rd_data rd)"
  have "Suc (unat n) * ?bs \<le> ?len div ?bs * ?bs"
    using n RamDisk_block_count_nat [OF wf] by (intro mult_le_mono1) simp
  then have "Suc (unat n) * ?bs \<le> ?len" by (rule le_trans) simp
  then show fit: "unat n * ?bs + ?bs \<le> ?len" by (simp add: add.commute)
  have len: "?len < 2 ^ LENGTH(64)" using wf by (simp add: rd_wf_def)
  show mult: "unat (n * of_nat ?bs) = unat n * ?bs"
    by (rule unat_mult_of_nat) (use fit len in linarith)
  show "unat (n * of_nat ?bs + of_nat ?bs) = unat n * ?bs + ?bs"
    unfolding mult [symmetric] by (rule unat_add_of_nat) (unfold mult, use fit len in linarith)
qed

lemma rd_blk_overwrite:
  assumes "rd_wf rd" and "k * rd_block_size rd + rd_block_size rd \<le> length (rd_data rd)"
    and "length buf = rd_block_size rd"
  shows "rd_blk (rd\<lparr>rd_data := overwrite (rd_data rd) (k * rd_block_size rd) buf\<rparr>) i =
    (if i = k then buf else rd_blk rd i)"
proof (cases "i = k")
  case True
  then show ?thesis using assms overwrite_same [of "k * rd_block_size rd" buf "rd_data rd"]
    by (simp add: rd_blk_def)
next
  case False
  then have "Suc i \<le> k \<or> Suc k \<le> i" by linarith
  then have "Suc i * rd_block_size rd \<le> k * rd_block_size rd \<or> Suc k * rd_block_size rd \<le> i * rd_block_size rd"
    using mult_le_mono1 by blast
  then show ?thesis
    using assms False
      take_drop_overwrite_disjoint [of "k * rd_block_size rd" buf "rd_data rd" "i * rd_block_size rd" "rd_block_size rd"]
    by (simp add: rd_blk_def add.commute)
qed

lemma RamDisk_write_block_ok:
  assumes wf: "rd_wf rd" and n: "unat (n :: u64) < unat (RamDisk_block_count rd)"
    and len: "length buf = rd_block_size rd" and rw: "\<not> rd_read_only rd"
  shows "RamDisk_write_block n buf rd =
      (Ok (), rd\<lparr>rd_data := overwrite (rd_data rd) (unat n * rd_block_size rd) buf\<rparr>)"
    and "rd_wf (rd\<lparr>rd_data := overwrite (rd_data rd) (unat n * rd_block_size rd) buf\<rparr>)"
    and "RamDisk_block_count (rd\<lparr>rd_data := overwrite (rd_data rd) (unat n * rd_block_size rd) buf\<rparr>) =
      RamDisk_block_count rd"
  using rd_block_range [OF wf n] assms
  by (simp_all add: RamDisk_write_block_def rd_wf_def RamDisk_block_count_def)

interpretation ramdisk: block_device ramdisk_ops rd_wf rd_blk
proof unfold_locales
  fix d i assume wf: "rd_wf d" and "i < unat (bd_block_count ramdisk_ops d)"
  then have "Suc i * rd_block_size d \<le> length (rd_data d) div rd_block_size d * rd_block_size d"
    by (intro mult_le_mono1) (simp add: ramdisk_ops_def RamDisk_block_count_nat)
  then have "Suc i * rd_block_size d \<le> length (rd_data d)" by (rule le_trans) simp
  then show "length (rd_blk d i) = bd_block_size ramdisk_ops d"
    by (simp add: rd_blk_def ramdisk_ops_def)
next
  fix d and n :: u64 assume "rd_wf d" "unat n < unat (bd_block_count ramdisk_ops d)"
  then show "bd_read_block ramdisk_ops d n (bd_block_size ramdisk_ops d) = Ok (rd_blk d (unat n))"
    using rd_block_range [of d n]
    by (simp add: ramdisk_ops_def RamDisk_read_block_def slice_get_def rd_blk_def)
next
  fix d and n :: u64 and buf :: bytes
  assume *: "rd_wf d" "unat n < unat (bd_block_count ramdisk_ops d)" "length buf = bd_block_size ramdisk_ops d"
    "\<not> bd_is_read_only ramdisk_ops d"
  then show "\<exists>d'. bd_write_block ramdisk_ops n buf d = (Ok (), d') \<and> rd_wf d' \<and>
      (\<forall>i < unat (bd_block_count ramdisk_ops d). rd_blk d' i = (if i = unat n then buf else rd_blk d i)) \<and>
      bd_block_size ramdisk_ops d' = bd_block_size ramdisk_ops d \<and>
      bd_block_count ramdisk_ops d' = bd_block_count ramdisk_ops d \<and>
      bd_is_read_only ramdisk_ops d' = bd_is_read_only ramdisk_ops d"
    using RamDisk_write_block_ok [of d n buf] rd_blk_overwrite [of d "unat n" buf] rd_block_range(3) [of d n]
    by (simp add: ramdisk_ops_def)
qed (simp_all add: ramdisk_ops_def rd_wf_def RamDisk_write_block_def)


section \<open>Properties\<close>

text \<open>
  C27. On a writable RAM disk, \<open>write_blocks\<close> of a buffer of whole blocks that fit succeeds, a later
  \<open>read_blocks\<close> of the same range returns the buffer, and every block outside the range keeps its
  contents.
\<close>

theorem ramdisk_write_read_blocks:
  assumes "rd_wf rd" and "\<not> rd_read_only rd"
    and "unat start + k \<le> unat (RamDisk_block_count rd)" and "length buf = k * rd_block_size rd"
  shows "\<exists>rd'. write_blocks ramdisk_ops start buf rd = (Ok (), rd') \<and> rd_wf rd' \<and>
    read_blocks ramdisk_ops rd' start (replicate (length buf) 0) = Ok buf \<and>
    (\<forall>i < unat (RamDisk_block_count rd). i < unat start \<or> unat start + k \<le> i \<longrightarrow> rd_blk rd' i = rd_blk rd i)"
proof -
  have ops: "bd_block_size ramdisk_ops = rd_block_size" "bd_block_count ramdisk_ops = RamDisk_block_count"
    "bd_is_read_only ramdisk_ops = rd_read_only"
    by (simp_all add: ramdisk_ops_def)
  show ?thesis
    using ramdisk.write_blocks_ok [OF assms(1), unfolded ops, OF assms(2-4)]
    by (auto simp: ramdisk.dev_same_def)
qed

theorem ramdisk_write_read_blocks_witness:
  "\<exists>rd'. write_blocks ramdisk_ops 1 [1, 2, 3, 4]
      \<lparr>rd_name = ''ram0'', rd_block_size = 2, rd_data = [9, 8, 7, 6, 5, 4], rd_read_only = False\<rparr> = (Ok (), rd') \<and>
    read_blocks ramdisk_ops rd' 1 (replicate 4 0) = Ok [1, 2, 3, 4]"
proof -
  let ?rd = "\<lparr>rd_name = ''ram0'', rd_block_size = 2, rd_data = [9, 8, 7, 6, 5, 4], rd_read_only = False\<rparr>"
  have "rd_wf ?rd" "\<not> rd_read_only ?rd" "unat (1 :: u64) + 2 \<le> unat (RamDisk_block_count ?rd)"
    "length [1, 2, 3, 4 :: u8] = 2 * rd_block_size ?rd"
    by (simp_all add: rd_wf_def RamDisk_block_count_def)
  from ramdisk_write_read_blocks [OF this] show ?thesis by (auto simp: numeral_eq_Suc)
qed

text \<open>
  C29. The range check of the RAM disk is computed in wrapping 64-bit arithmetic: block number
  \<open>2 ^ 55\<close> of a disk of 512-byte blocks is accepted and reads (and overwrites) block 0, although it
  is far past the end of the device.
\<close>

theorem ramdisk_block_number_wraps:
  assumes "rd_wf rd" and "rd_block_size rd = 512" and "0 < unat (RamDisk_block_count rd)"
  shows "RamDisk_read_block rd (2 ^ 55) 512 = Ok (rd_blk rd 0)"
proof -
  have "512 \<le> length (rd_data rd)"
    using rd_block_range(3) [OF assms(1), of 0] assms(2,3) by simp
  then show ?thesis
    using assms(2) by (simp add: RamDisk_read_block_def slice_get_def rd_blk_def)
qed

theorem ramdisk_block_number_wraps_witness:
  "RamDisk_read_block \<lparr>rd_name = ''ram0'', rd_block_size = 512, rd_data = replicate 512 3, rd_read_only = True\<rparr>
     (2 ^ 55) 512 = Ok (replicate 512 3)"
  using ramdisk_block_number_wraps
    [of "\<lparr>rd_name = ''ram0'', rd_block_size = 512, rd_data = replicate 512 3, rd_read_only = True\<rparr>"]
  by (simp add: rd_wf_def RamDisk_block_count_def rd_blk_def)

text \<open>
  C19. The registry finds a device by the first registration of its name: after \<open>register_device\<close> a
  new name is found and every other name as before; \<open>unregister_device\<close> removes exactly one
  registration and reports whether there was one.
\<close>

theorem registry_lookup:
  "get_device name (register_device name h devices) =
     (case get_device name devices of Some h' \<Rightarrow> Some h' | None \<Rightarrow> Some h) \<and>
   (other \<noteq> name \<longrightarrow> get_device other (register_device name h devices) = get_device other devices \<and>
      get_device other (snd (unregister_device name devices)) = get_device other devices) \<and>
   (fst (unregister_device name devices) \<longleftrightarrow> get_device name devices \<noteq> None)"
proof -
  have "find p (devices @ [d]) = (case find p devices of Some x \<Rightarrow> Some x | None \<Rightarrow> if p d then Some d else None)"
    for p and d :: "'a RegisteredDevice"
    by (induction devices) auto
  then have reg: "get_device n (register_device name h devices) =
      (case get_device n devices of Some h' \<Rightarrow> Some h' | None \<Rightarrow> if name = n then Some h else None)" for n
    by (simp add: get_device_def register_device_def split: option.splits)
  show ?thesis
    using reg [of name] reg [of other] get_device_unregister_other [of other name devices]
      unregister_device_found [of name devices]
    by (auto split: option.splits)
qed

theorem registry_lookup_witness:
  "get_device ''vda'' (register_device ''ram0'' (1::nat) [\<lparr>reg_name = ''vda'', reg_device = 0\<rparr>]) = Some 0"
  using registry_lookup [of "''ram0''" "1::nat" "[\<lparr>reg_name = ''vda'', reg_device = 0\<rparr>]" "''vda''"]
  by (simp add: get_device_def)

end
