(* ===== verification/Fat_Table.thy ===== *)
theory Fat_Table
  imports Fat_Boot Block_Dev
begin

text \<open>
  The file allocation table of \<open>src/fs/fat32/fat.rs\<close>. A \<open>FatTable\<close> holds the state of the device it
  works on, the geometry it took from the boot sector, and the two caches behind mutexes (the count
  of free clusters and the search hint). Cluster numbers and table entries are 32-bit words. A range
  of cluster numbers that a loop runs over is the list of its elements.
\<close>

section \<open>State and operations\<close>

datatype FatError = FE_InvalidCluster | FE_IoError | FE_NoSpace | FE_CorruptedChain

definition FAT_FREE :: u32 where "FAT_FREE = 0x00000000"
definition FAT_RESERVED_MIN :: u32 where "FAT_RESERVED_MIN = 0x0FFFFFF0"
definition FAT_BAD_CLUSTER :: u32 where "FAT_BAD_CLUSTER = 0x0FFFFFF7"
definition FAT_EOC_MIN :: u32 where "FAT_EOC_MIN = 0x0FFFFFF8"
definition FAT_EOC :: u32 where "FAT_EOC = 0x0FFFFFFF"

record 'd FatTable =
  ft_device :: 'd
  ft_fat_start :: u32
  ft_fat_size :: u32
  ft_num_fats :: u8
  ft_bytes_per_sector :: u16
  ft_total_clusters :: u32
  ft_free_count :: "u32 option"
  ft_next_free_hint :: u32

definition FatTable_new :: "'d \<Rightarrow> Fat32BootSector \<Rightarrow> ('d FatTable, 'e) outcome" where
  "FatTable_new d boot =
     map_ok (\<lambda>total.
       \<lparr>ft_device = d, ft_fat_start = fat_start_sector boot, ft_fat_size = fat_size_32 boot,
        ft_num_fats = num_fats boot, ft_bytes_per_sector = bytes_per_sector boot,
        ft_total_clusters = total, ft_free_count = None, ft_next_free_hint = 2\<rparr>)
     (total_clusters boot)"

text \<open>The bytes of an entry in a sector buffer; an index past the buffer panics.\<close>

definition entry_at :: "bytes \<Rightarrow> nat \<Rightarrow> (u32, 'e) outcome" where
  "entry_at buf entry_offset =
     (if entry_offset + 3 < length buf then Ok (read_u32 buf entry_offset) else Panic)"

definition cluster_in_range :: "'d FatTable \<Rightarrow> u32 \<Rightarrow> bool" where
  "cluster_in_range ft cluster \<longleftrightarrow> \<not> (cluster < 2 \<or> cluster \<ge> ft_total_clusters ft + 2)"

definition fat_sector_of :: "'d FatTable \<Rightarrow> u32 \<Rightarrow> u32" where
  "fat_sector_of ft cluster =
     (let fat_offset = cluster * 4 in ft_fat_start ft + fat_offset div ucast (ft_bytes_per_sector ft))"

definition entry_offset_of :: "'d FatTable \<Rightarrow> u32 \<Rightarrow> nat" where
  "entry_offset_of ft cluster =
     (let fat_offset = cluster * 4 in unat (fat_offset mod ucast (ft_bytes_per_sector ft)))"

definition read_entry :: "'d blkdev \<Rightarrow> 'd FatTable \<Rightarrow> u32 \<Rightarrow> (u32, FatError) outcome" where
  "read_entry dev ft cluster =
     (if \<not> cluster_in_range ft cluster then Err FE_InvalidCluster
      else if ft_bytes_per_sector ft = 0 then Panic
      else and_then (map_err (\<lambda>_. FE_IoError)
               (bd_read_block dev (ft_device ft) (ucast (fat_sector_of ft cluster)) (unat (ft_bytes_per_sector ft))))
             (\<lambda>buf. and_then (entry_at buf (entry_offset_of ft cluster))
               (\<lambda>entry. Ok (entry AND 0x0FFFFFFF))))"

text \<open>A write through the device of the table.\<close>

definition ft_write_block :: "'d blkdev \<Rightarrow> u64 \<Rightarrow> bytes \<Rightarrow> ('d FatTable, unit, FatError) act" where
  "ft_write_block dev n buf ft =
     (case bd_write_block dev n buf (ft_device ft) of
        (r, d') \<Rightarrow> (map_err (\<lambda>_. FE_IoError) r, ft\<lparr>ft_device := d'\<rparr>))"

text \<open>One iteration of the loop of \<open>write_entry\<close>: the copy of the entry in FAT number \<open>fat_num\<close>.\<close>

definition write_entry_copy :: "'d blkdev \<Rightarrow> u32 \<Rightarrow> u32 \<Rightarrow> nat \<Rightarrow> ('d FatTable, unit, FatError) act" where
  "write_entry_copy dev cluster val fat_num ft =
     (let sector = fat_sector_of ft cluster + of_nat fat_num * ft_fat_size ft;
          entry_offset = entry_offset_of ft cluster
      in act_bind (act_lift (\<lambda>ft. map_err (\<lambda>_. FE_IoError)
             (bd_read_block dev (ft_device ft) (ucast sector) (unat (ft_bytes_per_sector ft)))))
           (\<lambda>buf. act_bind (act_lift (\<lambda>_. entry_at buf entry_offset))
             (\<lambda>old_entry.
               let new_entry = (old_entry AND 0xF0000000) OR (val AND 0x0FFFFFFF)
               in act_bind (act_lift (\<lambda>_. slice_put buf entry_offset (u32_to_le_bytes new_entry)))
                    (\<lambda>buf. ft_write_block dev (ucast sector) buf))) ft)"

definition write_entry :: "'d blkdev \<Rightarrow> u32 \<Rightarrow> u32 \<Rightarrow> ('d FatTable, unit, FatError) act" where
  "write_entry dev cluster val ft =
     (if \<not> cluster_in_range ft cluster then (Err FE_InvalidCluster, ft)
      else if ft_bytes_per_sector ft = 0 then (Panic, ft)
      else act_for [0..<unat (ft_num_fats ft)] (write_entry_copy dev cluster val) ft)"

text \<open>
  \<open>read_chain\<close>: the check against the number of clusters is what ends the loop on a cyclic chain.
\<close>

function read_chain_loop ::
    "'d blkdev \<Rightarrow> 'd FatTable \<Rightarrow> u32 \<Rightarrow> u32 list \<Rightarrow> (u32 list, FatError) outcome" where
  "read_chain_loop dev ft current chain =
     (if current \<ge> 2 \<and> current < FAT_RESERVED_MIN then
        (case read_entry dev ft current of
           Ok next \<Rightarrow>
             if length (chain @ [current]) > unat (ft_total_clusters ft) then Err FE_CorruptedChain
             else read_chain_loop dev ft next (chain @ [current])
         | Err e \<Rightarrow> Err e
         | Panic \<Rightarrow> Panic)
      else Ok chain)"
  by pat_completeness auto

termination
  by (relation "measure (\<lambda>(dev, ft, current, chain). unat (ft_total_clusters ft) - length chain)") auto

declare read_chain_loop.simps [simp del]

definition read_chain :: "'d blkdev \<Rightarrow> 'd FatTable \<Rightarrow> u32 \<Rightarrow> (u32 list, FatError) outcome" where
  "read_chain dev ft start_cluster = read_chain_loop dev ft start_cluster []"

text \<open>The range \<open>lo..hi\<close> of cluster numbers.\<close>

definition cluster_range :: "u32 \<Rightarrow> u32 \<Rightarrow> u32 list" where
  "cluster_range lo hi = map of_nat [unat lo..<unat hi]"

definition free_count_dec :: "'d FatTable \<Rightarrow> 'd FatTable" where
  "free_count_dec ft =
     ft\<lparr>ft_free_count := map_option (\<lambda>count. if count > 0 then count - 1 else count) (ft_free_count ft)\<rparr>"

text \<open>One of the two search loops of \<open>alloc_cluster\<close>.\<close>

fun alloc_search :: "'d blkdev \<Rightarrow> u32 list \<Rightarrow> ('d FatTable, u32 option, FatError) act" where
  "alloc_search dev [] = act_return None"
| "alloc_search dev (cluster # cs) =
     act_bind (act_lift (\<lambda>ft. read_entry dev ft cluster))
       (\<lambda>entry. if entry = FAT_FREE then
           act_bind (write_entry dev cluster FAT_EOC)
             (\<lambda>_. act_bind (act_modify (\<lambda>ft. free_count_dec (ft\<lparr>ft_next_free_hint := cluster + 1\<rparr>)))
               (\<lambda>_. act_return (Some cluster)))
         else alloc_search dev cs)"

definition alloc_cluster :: "'d blkdev \<Rightarrow> ('d FatTable, u32, FatError) act" where
  "alloc_cluster dev ft =
     (let start = ft_next_free_hint ft
      in act_bind (alloc_search dev (cluster_range start (ft_total_clusters ft + 2)))
           (\<lambda>found. case found of
               Some cluster \<Rightarrow> act_return cluster
             | None \<Rightarrow> act_bind (alloc_search dev (cluster_range 2 start))
                 (\<lambda>found. case found of
                     Some cluster \<Rightarrow> act_return cluster
                   | None \<Rightarrow> act_fail FE_NoSpace)) ft)"

definition free_cluster :: "'d blkdev \<Rightarrow> u32 \<Rightarrow> ('d FatTable, unit, FatError) act" where
  "free_cluster dev cluster =
     act_bind (write_entry dev cluster FAT_FREE)
       (\<lambda>_. act_modify (\<lambda>ft.
          let ft1 = ft\<lparr>ft_free_count := map_option (\<lambda>count. count + 1) (ft_free_count ft)\<rparr>
          in if cluster < ft_next_free_hint ft1 then ft1\<lparr>ft_next_free_hint := cluster\<rparr> else ft1))"

text \<open>
  The loop of \<open>alloc_clusters\<close> for the clusters after the first: \<open>n\<close> are left, \<open>clusters\<close> are held.
  When an allocation fails, all of them are given back.
\<close>

fun alloc_rest :: "'d blkdev \<Rightarrow> nat \<Rightarrow> u32 list \<Rightarrow> ('d FatTable, u32 list, FatError) act" where
  "alloc_rest dev 0 clusters ft = (Ok clusters, ft)"
| "alloc_rest dev (Suc n) clusters ft =
     (case alloc_cluster dev ft of
        (Ok cluster, ft1) \<Rightarrow>
          act_bind (write_entry dev (last clusters) cluster)
            (\<lambda>_. alloc_rest dev n (clusters @ [cluster])) ft1
      | (Err e, ft1) \<Rightarrow>
          act_bind (act_for clusters (\<lambda>c. act_ignore (free_cluster dev c))) (\<lambda>_. act_fail e) ft1
      | (Panic, ft1) \<Rightarrow> (Panic, ft1))"

text \<open>The panic of \<open>Vec::with_capacity\<close> for a count beyond the address space is not modelled.\<close>

definition alloc_clusters :: "'d blkdev \<Rightarrow> nat \<Rightarrow> ('d FatTable, u32 list, FatError) act" where
  "alloc_clusters dev count =
     (if count = 0 then act_return []
      else act_bind (alloc_cluster dev) (\<lambda>first. alloc_rest dev (count - 1) [first]))"

definition free_chain :: "'d blkdev \<Rightarrow> u32 \<Rightarrow> ('d FatTable, unit, FatError) act" where
  "free_chain dev start_cluster =
     act_bind (act_lift (\<lambda>ft. read_chain dev ft start_cluster))
       (\<lambda>chain. act_for chain (free_cluster dev))"

definition extend_chain :: "'d blkdev \<Rightarrow> u32 \<Rightarrow> nat \<Rightarrow> ('d FatTable, u32 list, FatError) act" where
  "extend_chain dev last_cluster count =
     act_bind (alloc_clusters dev count)
       (\<lambda>new_clusters.
          if new_clusters \<noteq> [] then
            act_bind (write_entry dev last_cluster (hd new_clusters)) (\<lambda>_. act_return new_clusters)
          else act_return new_clusters)"

definition truncate_chain :: "'d blkdev \<Rightarrow> u32 \<Rightarrow> nat \<Rightarrow> ('d FatTable, unit, FatError) act" where
  "truncate_chain dev start_cluster keep_count =
     act_bind (act_lift (\<lambda>ft. read_chain dev ft start_cluster))
       (\<lambda>chain.
          if keep_count \<ge> length chain then act_return ()
          else if keep_count = 0 then free_chain dev start_cluster
          else act_bind (write_entry dev (chain ! (keep_count - 1)) FAT_EOC)
                 (\<lambda>_. act_for (drop keep_count chain) (free_cluster dev)))"

definition is_eoc :: "u32 \<Rightarrow> bool" where
  "is_eoc v = (v \<ge> FAT_EOC_MIN)"

fun count_free_loop :: "'d blkdev \<Rightarrow> 'd FatTable \<Rightarrow> u32 list \<Rightarrow> u32 \<Rightarrow> (u32, FatError) outcome" where
  "count_free_loop dev ft [] count = Ok count"
| "count_free_loop dev ft (cluster # cs) count =
     and_then (read_entry dev ft cluster)
       (\<lambda>entry. count_free_loop dev ft cs (if entry = FAT_FREE then count + 1 else count))"

definition count_free_clusters :: "'d blkdev \<Rightarrow> ('d FatTable, u32, FatError) act" where
  "count_free_clusters dev =
     act_bind (act_lift (\<lambda>ft. count_free_loop dev ft (cluster_range 2 (ft_total_clusters ft + 2)) 0))
       (\<lambda>count. act_bind (act_modify (\<lambda>ft. ft\<lparr>ft_free_count := Some count\<rparr>)) (\<lambda>_. act_return count))"


section \<open>The table as an array of entries\<close>

text \<open>
  The value of a cluster's entry in copy \<open>k\<close> of the FAT, read off the blocks of the device, and the
  entry as the file system sees it (the low 28 bits of the first copy).
\<close>

definition fat_slot :: "'d FatTable \<Rightarrow> nat \<Rightarrow> u32 \<Rightarrow> nat" where
  "fat_slot ft k c = unat (ft_fat_start ft) + k * unat (ft_fat_size ft) +
     unat c * 4 div unat (ft_bytes_per_sector ft)"

definition fat_raw :: "('d \<Rightarrow> nat \<Rightarrow> bytes) \<Rightarrow> 'd FatTable \<Rightarrow> nat \<Rightarrow> u32 \<Rightarrow> u32" where
  "fat_raw blk ft k c =
     read_u32 (blk (ft_device ft) (fat_slot ft k c)) (unat c * 4 mod unat (ft_bytes_per_sector ft))"

definition fat_next :: "('d \<Rightarrow> nat \<Rightarrow> bytes) \<Rightarrow> 'd FatTable \<Rightarrow> u32 \<Rightarrow> u32" where
  "fat_next blk ft c = fat_raw blk ft 0 c AND 0x0FFFFFFF"

definition fat_clusters :: "'d FatTable \<Rightarrow> u32 set" where
  "fat_clusters ft = {c. 2 \<le> unat c \<and> unat c < unat (ft_total_clusters ft) + 2}"

text \<open>
  The geometry of a mounted volume: a working, writable device whose blocks are the sectors, FATs
  that hold an entry for every cluster and lie on the device, and cluster numbers below the reserved
  values.
\<close>

definition fat_geom :: "'d blkdev \<Rightarrow> ('d \<Rightarrow> bool) \<Rightarrow> 'd FatTable \<Rightarrow> bool" where
  "fat_geom dev dinv ft \<longleftrightarrow>
     dinv (ft_device ft) \<and> \<not> bd_is_read_only dev (ft_device ft) \<and>
     bd_block_size dev (ft_device ft) = unat (ft_bytes_per_sector ft) \<and>
     4 dvd unat (ft_bytes_per_sector ft) \<and> 0 < unat (ft_bytes_per_sector ft) \<and> 0 < unat (ft_num_fats ft) \<and>
     (unat (ft_total_clusters ft) + 2) * 4 \<le> unat (ft_fat_size ft) * unat (ft_bytes_per_sector ft) \<and>
     unat (ft_fat_start ft) + unat (ft_num_fats ft) * unat (ft_fat_size ft)
       \<le> unat (bd_block_count dev (ft_device ft)) \<and>
     unat (ft_fat_start ft) + unat (ft_num_fats ft) * unat (ft_fat_size ft) < 2 ^ 32 \<and>
     unat (ft_total_clusters ft) + 2 \<le> 0x0FFFFFF0"

text \<open>The sectors of the FATs.\<close>

definition fat_area :: "'d FatTable \<Rightarrow> nat set" where
  "fat_area ft = {unat (ft_fat_start ft)..<
     unat (ft_fat_start ft) + unat (ft_num_fats ft) * unat (ft_fat_size ft)}"

lemma fat_geomD:
  assumes "fat_geom dev dinv ft"
  shows "dinv (ft_device ft)" "\<not> bd_is_read_only dev (ft_device ft)"
    "bd_block_size dev (ft_device ft) = unat (ft_bytes_per_sector ft)"
    "4 dvd unat (ft_bytes_per_sector ft)" "0 < unat (ft_bytes_per_sector ft)" "0 < unat (ft_num_fats ft)"
    "(unat (ft_total_clusters ft) + 2) * 4 \<le> unat (ft_fat_size ft) * unat (ft_bytes_per_sector ft)"
    "unat (ft_fat_start ft) + unat (ft_num_fats ft) * unat (ft_fat_size ft)
       \<le> unat (bd_block_count dev (ft_device ft))"
    "unat (ft_fat_start ft) + unat (ft_num_fats ft) * unat (ft_fat_size ft) < 2 ^ 32"
    "unat (ft_total_clusters ft) + 2 \<le> 0x0FFFFFF0"
  using assms unfolding fat_geom_def by simp_all

lemma cluster_in_range_iff:
  assumes "fat_geom dev dinv ft"
  shows "cluster_in_range ft c \<longleftrightarrow> c \<in> fat_clusters ft"
proof -
  have "unat (ft_total_clusters ft + 2) = unat (ft_total_clusters ft) + 2"
    using fat_geomD(10) [OF assms] unat_add_of_nat [of "ft_total_clusters ft" 2] by simp
  then show ?thesis
    by (auto simp: cluster_in_range_def fat_clusters_def word_less_nat_alt word_le_nat_alt not_less)
qed

lemma fat_location:
  assumes geom: "fat_geom dev dinv ft" and c: "c \<in> fat_clusters ft"
  shows fat_sector_of_nat: "unat (fat_sector_of ft c) = fat_slot ft 0 c"
    and entry_offset_of_nat: "entry_offset_of ft c = unat c * 4 mod unat (ft_bytes_per_sector ft)"
    and fat_index_less: "unat c * 4 div unat (ft_bytes_per_sector ft) < unat (ft_fat_size ft)"
    and entry_offset_fits: "unat c * 4 mod unat (ft_bytes_per_sector ft) + 4 \<le> unat (ft_bytes_per_sector ft)"
proof -
  define bps where "bps = unat (ft_bytes_per_sector ft)"
  note g = fat_geomD [OF geom, folded bps_def]
  have c_less: "unat c < unat (ft_total_clusters ft) + 2" using c by (simp add: fat_clusters_def)
  then have "unat c * 4 < (unat (ft_total_clusters ft) + 2) * 4" by simp
  then have "unat c * 4 < unat (ft_fat_size ft) * bps" using g(7) by (rule less_le_trans)
  then show idx: "unat c * 4 div bps < unat (ft_fat_size ft)" by (simp add: less_mult_imp_div_less)
  have c4: "unat (c * 4) = unat c * 4"
    using c_less g(10) unat_mult_of_nat [of c 4] by simp
  then show "entry_offset_of ft c = unat c * 4 mod bps"
    by (simp add: entry_offset_of_def unat_mod_distrib bps_def)
  have "unat (ft_fat_size ft) \<le> unat (ft_num_fats ft) * unat (ft_fat_size ft)" using g(6) by simp
  then have "unat (ft_fat_start ft) + unat c * 4 div bps < 2 ^ 32" using idx g(9) by linarith
  then show "unat (fat_sector_of ft c) = fat_slot ft 0 c"
    using c4 by (simp add: fat_sector_of_def fat_slot_def unat_word_ariths unat_div_distrib bps_def)
  have "4 dvd unat c * 4 mod bps" using g(4) by (simp add: dvd_mod)
  moreover have "unat c * 4 mod bps < bps" using g(5) by simp
  ultimately show "unat c * 4 mod bps + 4 \<le> bps" using g(4) by (auto elim!: dvdE)
qed

text \<open>The slot of a copy of an entry: inside the FATs, and different for different copies or clusters.\<close>

lemma fat_slot_in_area:
  assumes geom: "fat_geom dev dinv ft" and c: "c \<in> fat_clusters ft" and k: "k < unat (ft_num_fats ft)"
  shows "fat_slot ft k c \<in> fat_area ft" and "fat_slot ft k c < unat (bd_block_count dev (ft_device ft))"
    and "unat (fat_sector_of ft c + of_nat k * ft_fat_size ft) = fat_slot ft k c"
proof -
  have "Suc k * unat (ft_fat_size ft) \<le> unat (ft_num_fats ft) * unat (ft_fat_size ft)"
    using k by (intro mult_le_mono1) simp
  then have less: "fat_slot ft k c <
      unat (ft_fat_start ft) + unat (ft_num_fats ft) * unat (ft_fat_size ft)"
    using fat_index_less [OF geom c] by (simp add: fat_slot_def)
  then show "fat_slot ft k c \<in> fat_area ft" by (simp add: fat_area_def fat_slot_def)
  show "fat_slot ft k c < unat (bd_block_count dev (ft_device ft))"
    using less fat_geomD(8) [OF geom] by simp
  have slot: "fat_slot ft k c = unat (ft_fat_size ft) * k + fat_slot ft 0 c" by (simp add: fat_slot_def)
  then have small: "unat (ft_fat_size ft) * k < 2 ^ 32" "unat (ft_fat_size ft) * k + fat_slot ft 0 c < 2 ^ 32"
    using less fat_geomD(9) [OF geom] by linarith+
  then have mult: "unat (of_nat k * ft_fat_size ft) = unat (ft_fat_size ft) * k"
    unfolding mult.commute [of "of_nat k"] by (intro unat_mult_of_nat) simp
  have "unat (fat_sector_of ft c) + unat (of_nat k * ft_fat_size ft) < 2 ^ LENGTH(32)"
    unfolding mult fat_sector_of_nat [OF geom c] using small(2) by simp
  from unat_add_small [OF this]
  show "unat (fat_sector_of ft c + of_nat k * ft_fat_size ft) = fat_slot ft k c"
    unfolding mult fat_sector_of_nat [OF geom c] slot by simp
qed

lemma fat_slot_inj:
  assumes geom: "fat_geom dev dinv ft" and c: "c \<in> fat_clusters ft" and c': "c' \<in> fat_clusters ft"
    and eq: "fat_slot ft k c = fat_slot ft k' c'"
    and off: "unat c * 4 mod unat (ft_bytes_per_sector ft) = unat c' * 4 mod unat (ft_bytes_per_sector ft)"
  shows "k = k' \<and> c = c'"
proof -
  define q q' fs where "q = unat c * 4 div unat (ft_bytes_per_sector ft)"
    and "q' = unat c' * 4 div unat (ft_bytes_per_sector ft)" and "fs = unat (ft_fat_size ft)"
  have q: "q < fs" "q' < fs"
    using fat_index_less [OF geom c] fat_index_less [OF geom c'] by (simp_all add: q_def q'_def fs_def)
  have "k * fs + q = k' * fs + q'" using eq by (simp add: fat_slot_def q_def q'_def fs_def)
  then have "(k * fs + q) div fs = (k' * fs + q') div fs" "(k * fs + q) mod fs = (k' * fs + q') mod fs" by simp_all
  then have "k = k'" "q = q'" using q by simp_all
  then have "unat c * 4 = unat c' * 4"
    using off by (metis div_mult_mod_eq q'_def q_def)
  then show ?thesis using \<open>k = k'\<close> by (simp add: word_unat_eq_iff)
qed


section \<open>Entries on the device\<close>

lemma read_u32_overwrite_same:
  "off + 4 \<le> length buf \<Longrightarrow> read_u32 (overwrite buf off (u32_to_le_bytes w)) off = w"
  by (simp add: read_u32_def nth_overwrite) (simp add: u32_to_le_bytes_def)

lemma read_u32_overwrite_other:
  assumes "off + 4 \<le> length buf" and "o' + 4 \<le> length buf" and "o' + 4 \<le> off \<or> off + 4 \<le> o'"
  shows "read_u32 (overwrite buf off (u32_to_le_bytes w)) o' = read_u32 buf o'"
  using assms by (auto simp: read_u32_def nth_overwrite)

definition merge_entry :: "u32 \<Rightarrow> u32 \<Rightarrow> u32" where
  "merge_entry old v = (old AND 0xF0000000) OR (v AND 0x0FFFFFFF)"

lemma merge_entry_low [simp]: "merge_entry old v AND 0x0FFFFFFF = v AND 0x0FFFFFFF"
  by (simp add: merge_entry_def bit.conj_disj_distrib2 and.assoc)

text \<open>The volume after an update of its FATs: nothing but the FATs and the caches has changed.\<close>

definition fat_ext ::
    "'d blkdev \<Rightarrow> ('d \<Rightarrow> bool) \<Rightarrow> ('d \<Rightarrow> nat \<Rightarrow> bytes) \<Rightarrow> 'd FatTable \<Rightarrow> 'd FatTable \<Rightarrow> bool" where
  "fat_ext dev dinv blk ft ft' \<longleftrightarrow>
     fat_geom dev dinv ft' \<and>
     ft_fat_start ft' = ft_fat_start ft \<and> ft_fat_size ft' = ft_fat_size ft \<and>
     ft_num_fats ft' = ft_num_fats ft \<and> ft_bytes_per_sector ft' = ft_bytes_per_sector ft \<and>
     ft_total_clusters ft' = ft_total_clusters ft \<and>
     bd_block_count dev (ft_device ft') = bd_block_count dev (ft_device ft) \<and>
     (\<forall>i < unat (bd_block_count dev (ft_device ft)).
        i \<notin> fat_area ft \<longrightarrow> blk (ft_device ft') i = blk (ft_device ft) i)"

lemma fat_ext_refl: "fat_geom dev dinv ft \<Longrightarrow> fat_ext dev dinv blk ft ft"
  by (simp add: fat_ext_def)

lemma fat_ext_trans:
  "fat_ext dev dinv blk ft ft' \<Longrightarrow> fat_ext dev dinv blk ft' ft'' \<Longrightarrow> fat_ext dev dinv blk ft ft''"
  by (simp add: fat_ext_def fat_area_def)

lemma fat_ext_geom: "fat_ext dev dinv blk ft ft' \<Longrightarrow> fat_geom dev dinv ft'"
  by (simp add: fat_ext_def)

lemma fat_ext_clusters: "fat_ext dev dinv blk ft ft' \<Longrightarrow> fat_clusters ft' = fat_clusters ft"
  by (simp add: fat_ext_def fat_clusters_def)

context block_device
begin

lemma entry_fits:
  assumes geom: "fat_geom dev dinv ft" and c: "c \<in> fat_clusters ft" and k: "k < unat (ft_num_fats ft)"
  shows "length (blk (ft_device ft) (fat_slot ft k c)) = unat (ft_bytes_per_sector ft)"
    and "entry_offset_of ft c + 4 \<le> length (blk (ft_device ft) (fat_slot ft k c))"
proof -
  show len: "length (blk (ft_device ft) (fat_slot ft k c)) = unat (ft_bytes_per_sector ft)"
    using blk_length fat_geomD(1,3) [OF geom] fat_slot_in_area(2) [OF geom c k] by simp
  show "entry_offset_of ft c + 4 \<le> length (blk (ft_device ft) (fat_slot ft k c))"
    unfolding len entry_offset_of_nat [OF geom c] by (rule entry_offset_fits [OF geom c])
qed

lemma read_slot_ok:
  assumes geom: "fat_geom dev dinv ft" and c: "c \<in> fat_clusters ft" and k: "k < unat (ft_num_fats ft)"
  shows "bd_read_block dev (ft_device ft) (ucast (fat_sector_of ft c + of_nat k * ft_fat_size ft))
      (unat (ft_bytes_per_sector ft)) = Ok (blk (ft_device ft) (fat_slot ft k c))"
    and "entry_at (blk (ft_device ft) (fat_slot ft k c)) (entry_offset_of ft c) = Ok (fat_raw blk ft k c)"
proof -
  show "bd_read_block dev (ft_device ft) (ucast (fat_sector_of ft c + of_nat k * ft_fat_size ft))
      (unat (ft_bytes_per_sector ft)) = Ok (blk (ft_device ft) (fat_slot ft k c))"
    using read_ok [OF fat_geomD(1) [OF geom], of "ucast (fat_sector_of ft c + of_nat k * ft_fat_size ft)"]
      fat_slot_in_area(2,3) [OF geom c k] fat_geomD(3) [OF geom] by simp
  have "entry_offset_of ft c + 3 < length (blk (ft_device ft) (fat_slot ft k c))"
    using entry_fits(2) [OF geom c k] by linarith
  then show "entry_at (blk (ft_device ft) (fat_slot ft k c)) (entry_offset_of ft c) = Ok (fat_raw blk ft k c)"
    unfolding entry_at_def fat_raw_def entry_offset_of_nat [OF geom c] by simp
qed

lemma read_entry_ok:
  assumes geom: "fat_geom dev dinv ft" and c: "c \<in> fat_clusters ft"
  shows "read_entry dev ft c = Ok (fat_next blk ft c)"
proof -
  have "ft_bytes_per_sector ft \<noteq> 0" using fat_geomD(5) [OF geom] by auto
  then show ?thesis
    using read_slot_ok(1) [OF geom c fat_geomD(6) [OF geom]] c
    by (simp add: read_entry_def cluster_in_range_iff [OF geom] fat_next_def
        read_slot_ok(2) [OF geom c fat_geomD(6) [OF geom]])
qed

lemma read_entry_invalid:
  "fat_geom dev dinv ft \<Longrightarrow> c \<notin> fat_clusters ft \<Longrightarrow> read_entry dev ft c = Err FE_InvalidCluster"
  by (simp add: read_entry_def cluster_in_range_iff)

lemma fat_raw_write:
  assumes geom: "fat_geom dev dinv ft" and c: "c \<in> fat_clusters ft" and c': "c' \<in> fat_clusters ft"
    and k: "k < unat (ft_num_fats ft)" and k': "k' < unat (ft_num_fats ft)"
    and blk': "\<And>i. i < unat (bd_block_count dev (ft_device ft)) \<Longrightarrow> blk d' i =
      (if i = fat_slot ft k c
       then overwrite (blk (ft_device ft) (fat_slot ft k c)) (entry_offset_of ft c) (u32_to_le_bytes w)
       else blk (ft_device ft) i)"
  shows "fat_raw blk (ft\<lparr>ft_device := d'\<rparr>) k' c' = (if k' = k \<and> c' = c then w else fat_raw blk ft k' c')"
proof -
  have slot: "fat_slot (ft\<lparr>ft_device := d'\<rparr>) j x = fat_slot ft j x" for j x by (simp add: fat_slot_def)
  note off = entry_offset_of_nat [OF geom c] and fits = entry_fits [OF geom c k]
  note less = fat_slot_in_area(2) [OF geom c' k']
  show ?thesis
  proof (cases "fat_slot ft k' c' = fat_slot ft k c")
    case True
    show ?thesis
    proof (cases "k' = k \<and> c' = c")
      case same: True
      then show ?thesis
        using True blk' [OF less] read_u32_overwrite_same [OF fits(2), of w]
        by (simp add: fat_raw_def slot off)
    next
      case False
      define o1 o2 where "o1 = unat c * 4 mod unat (ft_bytes_per_sector ft)"
        and "o2 = unat c' * 4 mod unat (ft_bytes_per_sector ft)"
      have "o2 \<noteq> o1" using fat_slot_inj [OF geom c' c True] False by (auto simp: o1_def o2_def)
      moreover have "4 dvd o1" "4 dvd o2"
        using fat_geomD(4) [OF geom] by (simp_all add: o1_def o2_def dvd_mod)
      ultimately have apart: "o2 + 4 \<le> o1 \<or> o1 + 4 \<le> o2" by (auto elim!: dvdE)
      have "o2 + 4 \<le> length (blk (ft_device ft) (fat_slot ft k c))"
        using entry_offset_fits [OF geom c'] fits(1) by (simp add: o2_def)
      from read_u32_overwrite_other [OF fits(2) [unfolded off, folded o1_def] this apart, of w]
      show ?thesis
        using True False blk' [OF less] by (auto simp: fat_raw_def slot off simp flip: o1_def o2_def)
    qed
  next
    case False
    then show ?thesis using blk' [OF less] by (auto simp: fat_raw_def slot)
  qed
qed

lemma write_entry_copy_ok:
  assumes geom: "fat_geom dev dinv ft" and c: "c \<in> fat_clusters ft" and k: "k < unat (ft_num_fats ft)"
  shows "\<exists>d'. write_entry_copy dev c v k ft = (Ok (), ft\<lparr>ft_device := d'\<rparr>) \<and>
    fat_ext dev dinv blk ft (ft\<lparr>ft_device := d'\<rparr>) \<and>
    (\<forall>k' < unat (ft_num_fats ft). \<forall>c' \<in> fat_clusters ft. fat_raw blk (ft\<lparr>ft_device := d'\<rparr>) k' c' =
       (if k' = k \<and> c' = c then merge_entry (fat_raw blk ft k c) v else fat_raw blk ft k' c'))"
proof -
  define sector where "sector = fat_sector_of ft c + of_nat k * ft_fat_size ft"
  define w where "w = merge_entry (fat_raw blk ft k c) v"
  define buf where "buf = overwrite (blk (ft_device ft) (fat_slot ft k c)) (entry_offset_of ft c) (u32_to_le_bytes w)"
  note slot = fat_slot_in_area [OF geom c k] and fits = entry_fits [OF geom c k]
  have len: "length buf = unat (ft_bytes_per_sector ft)" using fits by (simp add: buf_def)
  obtain d' where d': "bd_write_block dev (ucast sector) buf (ft_device ft) = (Ok (), d')" "dinv d'"
    "bd_block_size dev d' = bd_block_size dev (ft_device ft)"
    "bd_block_count dev d' = bd_block_count dev (ft_device ft)"
    "bd_is_read_only dev d' = bd_is_read_only dev (ft_device ft)"
    and blk': "\<And>i. i < unat (bd_block_count dev (ft_device ft)) \<Longrightarrow>
      blk d' i = (if i = fat_slot ft k c then buf else blk (ft_device ft) i)"
    using write_ok [OF fat_geomD(1) [OF geom], of "ucast sector" buf] slot(2,3) len fat_geomD(2,3) [OF geom]
    by (auto simp: sector_def)
  have run: "write_entry_copy dev c v k ft = (Ok (), ft\<lparr>ft_device := d'\<rparr>)"
    using read_slot_ok(1) [OF geom c k] fits(2) d'(1)
    by (simp add: write_entry_copy_def act_bind_def ft_write_block_def slice_put_def Let_def
        read_slot_ok(2) [OF geom c k]
        flip: sector_def merge_entry_def w_def buf_def)
  have ext: "fat_ext dev dinv blk ft (ft\<lparr>ft_device := d'\<rparr>)"
    using geom d' blk' slot(1) unfolding fat_ext_def fat_geom_def by auto
  show ?thesis
    using run ext fat_raw_write [OF geom c _ k _ blk' [unfolded buf_def]] unfolding w_def by blast
qed

lemma write_entry_loop_ok:
  assumes geom: "fat_geom dev dinv ft" and c: "c \<in> fat_clusters ft" and n: "n \<le> unat (ft_num_fats ft)"
  shows "\<exists>d'. act_for [0..<n] (write_entry_copy dev c v) ft = (Ok (), ft\<lparr>ft_device := d'\<rparr>) \<and>
    fat_ext dev dinv blk ft (ft\<lparr>ft_device := d'\<rparr>) \<and>
    (\<forall>k < unat (ft_num_fats ft). \<forall>c' \<in> fat_clusters ft. fat_raw blk (ft\<lparr>ft_device := d'\<rparr>) k c' =
       (if k < n \<and> c' = c then merge_entry (fat_raw blk ft k c) v else fat_raw blk ft k c'))"
  using n
proof (induction n)
  case 0
  have "ft = ft\<lparr>ft_device := ft_device ft\<rparr>" by simp
  then show ?case using fat_ext_refl [OF geom] by (intro exI [of _ "ft_device ft"]) simp
next
  case (Suc n)
  obtain d1 where d1: "act_for [0..<n] (write_entry_copy dev c v) ft = (Ok (), ft\<lparr>ft_device := d1\<rparr>)"
    "fat_ext dev dinv blk ft (ft\<lparr>ft_device := d1\<rparr>)"
    "\<And>k c'. k < unat (ft_num_fats ft) \<Longrightarrow> c' \<in> fat_clusters ft \<Longrightarrow> fat_raw blk (ft\<lparr>ft_device := d1\<rparr>) k c' =
       (if k < n \<and> c' = c then merge_entry (fat_raw blk ft k c) v else fat_raw blk ft k c')"
    using Suc by auto
  have n: "n < unat (ft_num_fats ft)" using Suc.prems by simp
  obtain d2 where d2: "write_entry_copy dev c v n (ft\<lparr>ft_device := d1\<rparr>) = (Ok (), ft\<lparr>ft_device := d2\<rparr>)"
    "fat_ext dev dinv blk (ft\<lparr>ft_device := d1\<rparr>) (ft\<lparr>ft_device := d2\<rparr>)"
    "\<And>k c'. k < unat (ft_num_fats ft) \<Longrightarrow> c' \<in> fat_clusters ft \<Longrightarrow> fat_raw blk (ft\<lparr>ft_device := d2\<rparr>) k c' =
       (if k = n \<and> c' = c then merge_entry (fat_raw blk (ft\<lparr>ft_device := d1\<rparr>) n c) v
        else fat_raw blk (ft\<lparr>ft_device := d1\<rparr>) k c')"
    using write_entry_copy_ok [OF fat_ext_geom [OF d1(2)], of c n v] c n
    by (auto simp: fat_clusters_def)
  have "act_for [0..<Suc n] (write_entry_copy dev c v) ft = (Ok (), ft\<lparr>ft_device := d2\<rparr>)"
    using d1(1) d2(1) by (simp add: act_for_append act_bind_def)
  moreover have "fat_raw blk (ft\<lparr>ft_device := d2\<rparr>) k c' =
      (if k < Suc n \<and> c' = c then merge_entry (fat_raw blk ft k c) v else fat_raw blk ft k c')"
    if "k < unat (ft_num_fats ft)" "c' \<in> fat_clusters ft" for k c'
    using d2(3) [OF that] d1(3) [OF that] d1(3) [OF n c] by (auto simp: less_Suc_eq)
  ultimately show ?case using fat_ext_trans [OF d1(2) d2(2)] by blast
qed

text \<open>\<open>write_entry\<close> updates every copy of the one entry, and nothing else.\<close>

lemma write_entry_ok:
  assumes geom: "fat_geom dev dinv ft" and c: "c \<in> fat_clusters ft"
  obtains d' where "write_entry dev c v ft = (Ok (), ft\<lparr>ft_device := d'\<rparr>)"
    and "fat_ext dev dinv blk ft (ft\<lparr>ft_device := d'\<rparr>)"
    and "\<And>k c'. k < unat (ft_num_fats ft) \<Longrightarrow> c' \<in> fat_clusters ft \<Longrightarrow> fat_raw blk (ft\<lparr>ft_device := d'\<rparr>) k c' =
       (if c' = c then merge_entry (fat_raw blk ft k c) v else fat_raw blk ft k c')"
    and "\<And>c'. c' \<in> fat_clusters ft \<Longrightarrow> fat_next blk (ft\<lparr>ft_device := d'\<rparr>) c' =
       (if c' = c then v AND 0x0FFFFFFF else fat_next blk ft c')"
proof -
  have "ft_bytes_per_sector ft \<noteq> 0" using fat_geomD(5) [OF geom] by auto
  then have run: "write_entry dev c v ft = act_for [0..<unat (ft_num_fats ft)] (write_entry_copy dev c v) ft"
    using c by (simp add: write_entry_def cluster_in_range_iff [OF geom])
  obtain d' where d': "act_for [0..<unat (ft_num_fats ft)] (write_entry_copy dev c v) ft = (Ok (), ft\<lparr>ft_device := d'\<rparr>)"
    "fat_ext dev dinv blk ft (ft\<lparr>ft_device := d'\<rparr>)"
    and raw: "\<And>k c'. k < unat (ft_num_fats ft) \<Longrightarrow> c' \<in> fat_clusters ft \<Longrightarrow> fat_raw blk (ft\<lparr>ft_device := d'\<rparr>) k c' =
       (if c' = c then merge_entry (fat_raw blk ft k c) v else fat_raw blk ft k c')"
    using write_entry_loop_ok [OF geom c order_refl, of v] by (metis (no_types, lifting))
  have "fat_next blk (ft\<lparr>ft_device := d'\<rparr>) c' = (if c' = c then v AND 0x0FFFFFFF else fat_next blk ft c')"
    if "c' \<in> fat_clusters ft" for c'
    using raw [OF fat_geomD(6) [OF geom] that] by (simp add: fat_next_def)
  then show ?thesis using that run d' raw by simp
qed

end

end
