(* ===== verification/Fat_Chain.thy ===== *)
theory Fat_Chain
  imports Fat_Table
begin

text \<open>
  Chains of clusters in the file allocation table: what \<open>read_chain\<close> returns, the invariant of a
  consistent volume (\<open>fat_wf\<close>: mirrored FATs, a search hint in range, a cached count that is right), and
  the functional behaviour of allocation, release, extension and truncation of chains on any device
  that keeps the contract of the locale \<open>block_device\<close>.
\<close>

section \<open>Chains of clusters\<close>

text \<open>
  A path follows the entries from \<open>c\<close> through the clusters \<open>cs\<close> to the value \<open>e\<close>; a chain is a path to
  a value that ends the loop of \<open>read_chain\<close>.
\<close>

fun fat_path :: "(u32 \<Rightarrow> u32) \<Rightarrow> u32 set \<Rightarrow> u32 \<Rightarrow> u32 list \<Rightarrow> u32 \<Rightarrow> bool" where
  "fat_path nxt V c [] e \<longleftrightarrow> c = e"
| "fat_path nxt V c (x # xs) e \<longleftrightarrow> x = c \<and> c \<in> V \<and> fat_path nxt V (nxt c) xs e"

definition chain_end :: "u32 \<Rightarrow> bool" where
  "chain_end e \<longleftrightarrow> \<not> (e \<ge> 2 \<and> e < FAT_RESERVED_MIN)"

definition fat_chain :: "(u32 \<Rightarrow> u32) \<Rightarrow> u32 set \<Rightarrow> u32 \<Rightarrow> u32 list \<Rightarrow> bool" where
  "fat_chain nxt V c cs \<longleftrightarrow> (\<exists>e. chain_end e \<and> fat_path nxt V c cs e)"

lemma fat_path_append [simp]:
  "fat_path nxt V c (xs @ ys) e \<longleftrightarrow> (\<exists>m. fat_path nxt V c xs m \<and> fat_path nxt V m ys e)"
  by (induction xs arbitrary: c) auto

lemma fat_path_cong:
  "(\<And>x. x \<in> set cs \<Longrightarrow> nxt' x = nxt x) \<Longrightarrow> fat_path nxt' V c cs e \<longleftrightarrow> fat_path nxt V c cs e"
  by (induction cs arbitrary: c) auto

lemma fat_path_subset: "fat_path nxt V c cs e \<Longrightarrow> set cs \<subseteq> V"
  by (induction cs arbitrary: c) auto

lemma fat_path_hd: "fat_path nxt V c cs e \<Longrightarrow> cs \<noteq> [] \<Longrightarrow> hd cs = c"
  by (cases cs) auto

text \<open>Cluster numbers are never end values.\<close>

definition proper_clusters :: "u32 set \<Rightarrow> bool" where
  "proper_clusters V \<longleftrightarrow> (\<forall>c \<in> V. \<not> chain_end c)"

lemma fat_clusters_proper: "fat_geom dev dinv ft \<Longrightarrow> proper_clusters (fat_clusters ft)"
  by (drule fat_geomD(10))
    (auto simp: proper_clusters_def chain_end_def fat_clusters_def FAT_RESERVED_MIN_def word_le_nat_alt
      word_less_nat_alt)

lemma fat_path_unique:
  assumes V: "proper_clusters V"
  shows "fat_path nxt V c xs e \<Longrightarrow> fat_path nxt V c ys e' \<Longrightarrow> chain_end e \<Longrightarrow> chain_end e' \<Longrightarrow> xs = ys"
proof (induction xs arbitrary: c ys)
  case Nil
  then show ?case using V by (cases ys) (auto simp: proper_clusters_def)
next
  case (Cons x xs)
  then show ?case using V by (cases ys) (auto simp: proper_clusters_def)
qed

lemma fat_path_distinct:
  assumes V: "proper_clusters V" and e: "chain_end e"
  shows "fat_path nxt V c cs e \<Longrightarrow> distinct cs"
proof (induction cs arbitrary: c)
  case (Cons x xs)
  have "x \<notin> set xs"
  proof
    assume "x \<in> set xs"
    then obtain as bs where xs: "xs = as @ x # bs" by (meson split_list)
    then have "fat_path nxt V x (x # bs) e" using Cons.prems by auto
    moreover have "fat_path nxt V x (x # xs) e" using Cons.prems by auto
    ultimately have "x # bs = x # xs" using fat_path_unique [OF V] e by blast
    then have "length bs = length xs" by simp
    then show False using xs by simp
  qed
  then show ?case using Cons by auto
qed simp

lemma fat_chain_unique: "proper_clusters V \<Longrightarrow> fat_chain nxt V c xs \<Longrightarrow> fat_chain nxt V c ys \<Longrightarrow> xs = ys"
  unfolding fat_chain_def using fat_path_unique by blast

lemma fat_chain_distinct: "proper_clusters V \<Longrightarrow> fat_chain nxt V c cs \<Longrightarrow> distinct cs"
  unfolding fat_chain_def using fat_path_distinct by blast

lemma card_fat_clusters: "card (fat_clusters ft) \<le> unat (ft_total_clusters ft)"
proof -
  have "unat ` fat_clusters ft \<subseteq> {2..<unat (ft_total_clusters ft) + 2}" by (auto simp: fat_clusters_def)
  then have "card (fat_clusters ft) \<le> card {2..<unat (ft_total_clusters ft) + 2}"
    by (intro card_inj_on_le) (auto simp: inj_on_def word_unat_eq_iff)
  then show ?thesis by simp
qed

lemma finite_fat_clusters [simp]: "finite (fat_clusters ft)"
  by simp

lemma fat_chain_length:
  assumes "fat_geom dev dinv ft" and "fat_chain nxt (fat_clusters ft) c cs"
  shows "length cs \<le> unat (ft_total_clusters ft)"
proof -
  have "distinct cs" using fat_chain_distinct fat_clusters_proper assms by blast
  moreover have "set cs \<subseteq> fat_clusters ft" using assms(2) by (auto simp: fat_chain_def dest!: fat_path_subset)
  ultimately have "length cs \<le> card (fat_clusters ft)"
    by (metis card_mono distinct_card finite_fat_clusters)
  then show ?thesis using card_fat_clusters le_trans by blast
qed

context block_device
begin

text \<open>\<open>read_chain\<close> returns the chain when there is one, and an error when there is none.\<close>

lemma read_chain_loop_ok:
  assumes geom: "fat_geom dev dinv ft"
  shows "fat_path (fat_next blk ft) (fat_clusters ft) c cs e \<Longrightarrow> chain_end e \<Longrightarrow>
    length acc + length cs \<le> unat (ft_total_clusters ft) \<Longrightarrow> read_chain_loop dev ft c acc = Ok (acc @ cs)"
proof (induction cs arbitrary: c acc)
  case Nil
  then show ?case unfolding read_chain_loop.simps [of dev ft c] by (auto simp: chain_end_def)
next
  case (Cons x xs)
  have c: "c \<in> fat_clusters ft" "x = c" using Cons.prems(1) by auto
  then have "\<not> chain_end c" using fat_clusters_proper [OF geom] by (simp add: proper_clusters_def)
  then show ?case
    unfolding read_chain_loop.simps [of dev ft c]
    using Cons.IH [of "fat_next blk ft c" "acc @ [c]"] Cons.prems c
    by (auto simp: chain_end_def read_entry_ok [OF geom c(1)])
qed

lemma read_chain_loop_sound:
  assumes geom: "fat_geom dev dinv ft"
  shows "(\<exists>cs. read_chain_loop dev ft c acc = Ok (acc @ cs) \<and>
      fat_chain (fat_next blk ft) (fat_clusters ft) c cs) \<or>
    read_chain_loop dev ft c acc = Err FE_InvalidCluster \<or>
    read_chain_loop dev ft c acc = Err FE_CorruptedChain"
proof (induction "unat (ft_total_clusters ft) - length acc" arbitrary: c acc rule: less_induct)
  case less
  show ?case
  proof (cases "chain_end c")
    case True
    then have "read_chain_loop dev ft c acc = Ok (acc @ []) \<and> fat_chain (fat_next blk ft) (fat_clusters ft) c []"
      unfolding read_chain_loop.simps [of dev ft c] by (auto simp: chain_end_def fat_chain_def)
    then show ?thesis by blast
  next
    case False
    show ?thesis
    proof (cases "c \<in> fat_clusters ft \<and> length (acc @ [c]) \<le> unat (ft_total_clusters ft)")
      case True
      let ?n = "fat_next blk ft c"
      have step: "read_chain_loop dev ft c acc = read_chain_loop dev ft ?n (acc @ [c])"
        unfolding read_chain_loop.simps [of dev ft c]
        using False True by (auto simp: chain_end_def read_entry_ok [OF geom])
      have "fat_chain (fat_next blk ft) (fat_clusters ft) c (c # cs)"
        if "fat_chain (fat_next blk ft) (fat_clusters ft) ?n cs" for cs
        using that True by (auto simp: fat_chain_def)
      then show ?thesis
        unfolding step using less [of "acc @ [c]" ?n] True by fastforce
    next
      case bad: False
      then show ?thesis
        unfolding read_chain_loop.simps [of dev ft c]
        using False by (cases "c \<in> fat_clusters ft")
          (auto simp: chain_end_def read_entry_ok [OF geom] read_entry_invalid [OF geom])
    qed
  qed
qed

lemma read_chain_iff:
  assumes geom: "fat_geom dev dinv ft"
  shows "read_chain dev ft c = Ok cs \<longleftrightarrow> fat_chain (fat_next blk ft) (fat_clusters ft) c cs"
proof
  assume "read_chain dev ft c = Ok cs"
  then show "fat_chain (fat_next blk ft) (fat_clusters ft) c cs"
    using read_chain_loop_sound [OF geom, of c "[]"] by (auto simp: read_chain_def)
next
  assume chain: "fat_chain (fat_next blk ft) (fat_clusters ft) c cs"
  then show "read_chain dev ft c = Ok cs"
    using read_chain_loop_ok [OF geom, of c cs _ "[]"] fat_chain_length [OF geom chain]
    by (auto simp: read_chain_def fat_chain_def)
qed

lemma read_chain_total:
  assumes geom: "fat_geom dev dinv ft"
  shows "(\<exists>cs. read_chain dev ft c = Ok cs) \<or> read_chain dev ft c \<in> {Err FE_InvalidCluster, Err FE_CorruptedChain}"
  using read_chain_loop_sound [OF geom, of c "[]"] by (auto simp: read_chain_def)

end


section \<open>The consistent volume\<close>

definition fat_free :: "('d \<Rightarrow> nat \<Rightarrow> bytes) \<Rightarrow> 'd FatTable \<Rightarrow> u32 set" where
  "fat_free blk ft = {c \<in> fat_clusters ft. fat_next blk ft c = FAT_FREE}"

text \<open>All copies of the FAT have the same entries.\<close>

definition fat_mirror :: "('d \<Rightarrow> nat \<Rightarrow> bytes) \<Rightarrow> 'd FatTable \<Rightarrow> bool" where
  "fat_mirror blk ft \<longleftrightarrow> (\<forall>k < unat (ft_num_fats ft). \<forall>c \<in> fat_clusters ft.
     fat_raw blk ft k c AND 0x0FFFFFFF = fat_next blk ft c)"

text \<open>
  The hint is a position of the search, and the cached count, when there is one, is the number of
  free clusters.
\<close>

definition fat_wf :: "'d blkdev \<Rightarrow> ('d \<Rightarrow> bool) \<Rightarrow> ('d \<Rightarrow> nat \<Rightarrow> bytes) \<Rightarrow> 'd FatTable \<Rightarrow> bool" where
  "fat_wf dev dinv blk ft \<longleftrightarrow>
     fat_geom dev dinv ft \<and> fat_mirror blk ft \<and>
     2 \<le> unat (ft_next_free_hint ft) \<and> unat (ft_next_free_hint ft) \<le> unat (ft_total_clusters ft) + 2 \<and>
     (\<forall>n. ft_free_count ft = Some n \<longrightarrow> unat n = card (fat_free blk ft))"

text \<open>A step of an operation to a consistent volume with the entries \<open>g\<close>.\<close>

definition fat_step ::
    "'d blkdev \<Rightarrow> ('d \<Rightarrow> bool) \<Rightarrow> ('d \<Rightarrow> nat \<Rightarrow> bytes) \<Rightarrow> 'd FatTable \<Rightarrow> 'd FatTable \<Rightarrow> (u32 \<Rightarrow> u32) \<Rightarrow> bool" where
  "fat_step dev dinv blk ft ft' g \<longleftrightarrow>
     fat_wf dev dinv blk ft' \<and> fat_ext dev dinv blk ft ft' \<and>
     (\<forall>c \<in> fat_clusters ft. fat_next blk ft' c = g c)"

lemma fat_wf_geom: "fat_wf dev dinv blk ft \<Longrightarrow> fat_geom dev dinv ft"
  by (simp add: fat_wf_def)

lemma fat_stepD:
  assumes "fat_step dev dinv blk ft ft' g"
  shows "fat_wf dev dinv blk ft'" and "fat_ext dev dinv blk ft ft'" and "fat_clusters ft' = fat_clusters ft"
    and "c \<in> fat_clusters ft \<Longrightarrow> fat_next blk ft' c = g c"
    and "fat_free blk ft' = {c \<in> fat_clusters ft. g c = FAT_FREE}"
  using assms fat_ext_clusters [of dev dinv blk ft ft'] by (auto simp: fat_step_def fat_free_def)

lemma fat_step_refl: "fat_wf dev dinv blk ft \<Longrightarrow> fat_step dev dinv blk ft ft (fat_next blk ft)"
  by (simp add: fat_step_def fat_ext_refl fat_wf_geom)

lemma fat_step_trans:
  "fat_step dev dinv blk ft ft' g \<Longrightarrow> fat_step dev dinv blk ft' ft'' h \<Longrightarrow> fat_step dev dinv blk ft ft'' h"
  unfolding fat_step_def by (auto dest: fat_ext_clusters intro: fat_ext_trans)

lemma fat_step_cong:
  "fat_step dev dinv blk ft ft' g \<Longrightarrow> (\<And>c. c \<in> fat_clusters ft \<Longrightarrow> h c = g c) \<Longrightarrow> fat_step dev dinv blk ft ft' h"
  by (simp add: fat_step_def)

text \<open>The caches are not on the device.\<close>

lemma fat_caches [simp]:
  "fat_raw blk (ft\<lparr>ft_free_count := n\<rparr>) = fat_raw blk ft"
  "fat_raw blk (ft\<lparr>ft_next_free_hint := h\<rparr>) = fat_raw blk ft"
  "fat_next blk (ft\<lparr>ft_free_count := n\<rparr>) = fat_next blk ft"
  "fat_next blk (ft\<lparr>ft_next_free_hint := h\<rparr>) = fat_next blk ft"
  "fat_clusters (ft\<lparr>ft_free_count := n\<rparr>) = fat_clusters ft"
  "fat_clusters (ft\<lparr>ft_next_free_hint := h\<rparr>) = fat_clusters ft"
  "fat_clusters (ft\<lparr>ft_device := d\<rparr>) = fat_clusters ft"
  "fat_free blk (ft\<lparr>ft_free_count := n\<rparr>) = fat_free blk ft"
  "fat_free blk (ft\<lparr>ft_next_free_hint := h\<rparr>) = fat_free blk ft"
  "fat_geom dev dinv (ft\<lparr>ft_free_count := n\<rparr>) = fat_geom dev dinv ft"
  "fat_geom dev dinv (ft\<lparr>ft_next_free_hint := h\<rparr>) = fat_geom dev dinv ft"
  "fat_mirror blk (ft\<lparr>ft_free_count := n\<rparr>) = fat_mirror blk ft"
  "fat_mirror blk (ft\<lparr>ft_next_free_hint := h\<rparr>) = fat_mirror blk ft"
  "fat_ext dev dinv blk ft' (ft\<lparr>ft_free_count := n\<rparr>) = fat_ext dev dinv blk ft' ft"
  "fat_ext dev dinv blk ft' (ft\<lparr>ft_next_free_hint := h\<rparr>) = fat_ext dev dinv blk ft' ft"
  by (simp_all add: fun_eq_iff fat_raw_def fat_slot_def fat_next_def fat_clusters_def fat_free_def
      fat_geom_def fat_mirror_def fat_ext_def)

lemma finite_fat_free [simp]: "finite (fat_free blk ft)"
  by simp

lemma card_fat_free:
  assumes "fat_geom dev dinv ft"
  shows "card (fat_free blk ft) < 0x0FFFFFF0"
proof -
  have "card (fat_free blk ft) \<le> card (fat_clusters ft)" by (rule card_mono) (auto simp: fat_free_def)
  then show ?thesis using card_fat_clusters [of ft] fat_geomD(10) [OF assms] by linarith
qed

lemma set_cluster_range: "set (cluster_range lo hi) = {c. lo \<le> c \<and> c < hi}"
proof
  show "set (cluster_range lo hi) \<subseteq> {c. lo \<le> c \<and> c < hi}"
  proof
    fix c assume "c \<in> set (cluster_range lo hi)"
    then obtain n where n: "c = of_nat n" "unat lo \<le> n" "n < unat hi" by (auto simp: cluster_range_def)
    then have "unat c = n" using unat_less_exp [of hi] by (simp add: unat_of_nat)
    then show "c \<in> {c. lo \<le> c \<and> c < hi}" using n by (simp add: word_le_nat_alt word_less_nat_alt)
  qed
  show "{c. lo \<le> c \<and> c < hi} \<subseteq> set (cluster_range lo hi)"
  proof
    fix c assume "c \<in> {c. lo \<le> c \<and> c < hi}"
    then have "unat c \<in> {unat lo..<unat hi}" "c = of_nat (unat c)"
      by (simp_all add: word_le_nat_alt word_less_nat_alt)
    then show "c \<in> set (cluster_range lo hi)" unfolding cluster_range_def by (metis image_eqI set_map set_upt)
  qed
qed

lemma all_clusters_range:
  assumes "fat_geom dev dinv ft"
  shows "fat_clusters ft = set (cluster_range 2 (ft_total_clusters ft + 2))"
    and "2 \<le> unat h \<Longrightarrow> unat h \<le> unat (ft_total_clusters ft) + 2 \<Longrightarrow>
      fat_clusters ft = set (cluster_range h (ft_total_clusters ft + 2)) \<union> set (cluster_range 2 h)"
proof -
  have "unat (ft_total_clusters ft + 2) = unat (ft_total_clusters ft) + 2"
    using fat_geomD(10) [OF assms] unat_add_of_nat [of "ft_total_clusters ft" 2] by simp
  then show "fat_clusters ft = set (cluster_range 2 (ft_total_clusters ft + 2))"
    "2 \<le> unat h \<Longrightarrow> unat h \<le> unat (ft_total_clusters ft) + 2 \<Longrightarrow>
      fat_clusters ft = set (cluster_range h (ft_total_clusters ft + 2)) \<union> set (cluster_range 2 h)"
    unfolding set_cluster_range fat_clusters_def by (auto simp: word_le_nat_alt word_less_nat_alt)
qed

context block_device
begin

lemma write_entry_step:
  assumes geom: "fat_geom dev dinv ft" and mirror: "fat_mirror blk ft" and c: "c \<in> fat_clusters ft"
  obtains d' where "write_entry dev c v ft = (Ok (), ft\<lparr>ft_device := d'\<rparr>)"
    and "fat_ext dev dinv blk ft (ft\<lparr>ft_device := d'\<rparr>)" and "fat_mirror blk (ft\<lparr>ft_device := d'\<rparr>)"
    and "\<And>c'. c' \<in> fat_clusters ft \<Longrightarrow> fat_next blk (ft\<lparr>ft_device := d'\<rparr>) c' =
       ((fat_next blk ft)(c := v AND 0x0FFFFFFF)) c'"
    and "fat_free blk (ft\<lparr>ft_device := d'\<rparr>) =
       (if v AND 0x0FFFFFFF = 0 then insert c (fat_free blk ft) else fat_free blk ft - {c})"
proof -
  obtain d' where d': "write_entry dev c v ft = (Ok (), ft\<lparr>ft_device := d'\<rparr>)"
    "fat_ext dev dinv blk ft (ft\<lparr>ft_device := d'\<rparr>)"
    and raw: "\<And>k c'. k < unat (ft_num_fats ft) \<Longrightarrow> c' \<in> fat_clusters ft \<Longrightarrow> fat_raw blk (ft\<lparr>ft_device := d'\<rparr>) k c' =
       (if c' = c then merge_entry (fat_raw blk ft k c) v else fat_raw blk ft k c')"
    and nxt: "\<And>c'. c' \<in> fat_clusters ft \<Longrightarrow> fat_next blk (ft\<lparr>ft_device := d'\<rparr>) c' =
       (if c' = c then v AND 0x0FFFFFFF else fat_next blk ft c')"
    using write_entry_ok [OF geom c, of v] by metis
  have "fat_mirror blk (ft\<lparr>ft_device := d'\<rparr>)"
    using mirror raw nxt by (auto simp: fat_mirror_def)
  moreover have "fat_free blk (ft\<lparr>ft_device := d'\<rparr>) =
       (if v AND 0x0FFFFFFF = 0 then insert c (fat_free blk ft) else fat_free blk ft - {c})"
    using nxt c by (auto simp: fat_free_def FAT_FREE_def split: if_splits)
  ultimately show ?thesis using that d' nxt by simp
qed

text \<open>The search of \<open>alloc_cluster\<close> takes the first free cluster of the list it runs over.\<close>

lemma alloc_search_none:
  "fat_geom dev dinv ft \<Longrightarrow> set cs \<subseteq> fat_clusters ft \<Longrightarrow> set cs \<inter> fat_free blk ft = {} \<Longrightarrow>
   alloc_search dev cs ft = (Ok None, ft)"
  by (induction cs) (auto simp: act_bind_def read_entry_ok fat_free_def)

lemma alloc_search_some:
  assumes wf: "fat_wf dev dinv blk ft"
  shows "set cs \<subseteq> fat_clusters ft \<Longrightarrow> set cs \<inter> fat_free blk ft \<noteq> {} \<Longrightarrow>
    \<exists>c ft'. alloc_search dev cs ft = (Ok (Some c), ft') \<and> c \<in> fat_free blk ft \<and>
      fat_step dev dinv blk ft ft' ((fat_next blk ft)(c := FAT_EOC))"
proof (induction cs)
  case (Cons c cs)
  have geom: "fat_geom dev dinv ft" and mirror: "fat_mirror blk ft" using wf by (simp_all add: fat_wf_def)
  have c: "c \<in> fat_clusters ft" using Cons.prems(1) by simp
  show ?case
  proof (cases "fat_next blk ft c = FAT_FREE")
    case True
    obtain d' where d': "write_entry dev c FAT_EOC ft = (Ok (), ft\<lparr>ft_device := d'\<rparr>)"
      "fat_ext dev dinv blk ft (ft\<lparr>ft_device := d'\<rparr>)" "fat_mirror blk (ft\<lparr>ft_device := d'\<rparr>)"
      and nxt: "\<And>c'. c' \<in> fat_clusters ft \<Longrightarrow> fat_next blk (ft\<lparr>ft_device := d'\<rparr>) c' =
         ((fat_next blk ft)(c := FAT_EOC)) c'"
      and free: "fat_free blk (ft\<lparr>ft_device := d'\<rparr>) = fat_free blk ft - {c}"
      using write_entry_step [OF geom mirror c, of FAT_EOC] by (auto simp: FAT_EOC_def)
    define ft' where "ft' = free_count_dec (ft\<lparr>ft_device := d', ft_next_free_hint := c + 1\<rparr>)"
    have c_free: "c \<in> fat_free blk ft" using True c by (simp add: fat_free_def)
    have "alloc_search dev (c # cs) ft = (Ok (Some c), ft')"
      using True d'(1) by (simp add: act_bind_def read_entry_ok [OF geom c] ft'_def)
    moreover have "unat (c + 1) = unat c + 1"
      using c fat_geomD(10) [OF geom] unat_add_of_nat [of c 1] by (simp add: fat_clusters_def)
    moreover have "unat (n - 1) = card (fat_free blk ft - {c})" "n \<noteq> 0" if "ft_free_count ft = Some n" for n
    proof -
      have n: "unat n = card (fat_free blk ft)" using wf that by (simp add: fat_wf_def)
      moreover have "0 < card (fat_free blk ft)" using c_free card_gt_0_iff finite_fat_free by blast
      ultimately show "n \<noteq> 0" by auto
      then have "unat (n - 1) = unat n - 1" by (simp add: unat_minus_one)
      then show "unat (n - 1) = card (fat_free blk ft - {c})" using n c_free by simp
    qed
    ultimately have "alloc_search dev (c # cs) ft = (Ok (Some c), ft') \<and>
        fat_step dev dinv blk ft ft' ((fat_next blk ft)(c := FAT_EOC))"
      using d'(2,3) nxt free c wf fat_ext_geom [OF d'(2)]
      by (auto simp: fat_step_def fat_wf_def ft'_def free_count_dec_def fat_clusters_def word_gt_0)
    then show ?thesis using c_free by blast
  next
    case False
    then have "alloc_search dev (c # cs) ft = alloc_search dev cs ft"
      by (simp add: act_bind_def read_entry_ok [OF geom c])
    moreover have "set cs \<inter> fat_free blk ft \<noteq> {}" using False Cons.prems(2) by (auto simp: fat_free_def)
    ultimately show ?thesis using Cons.IH Cons.prems(1) by simp
  qed
qed simp

lemma alloc_cluster_ok:
  assumes wf: "fat_wf dev dinv blk ft" and free: "fat_free blk ft \<noteq> {}"
  obtains c ft' where "alloc_cluster dev ft = (Ok c, ft')" and "c \<in> fat_free blk ft"
    and "fat_step dev dinv blk ft ft' ((fat_next blk ft)(c := FAT_EOC))"
proof -
  let ?hi = "cluster_range (ft_next_free_hint ft) (ft_total_clusters ft + 2)"
  let ?lo = "cluster_range 2 (ft_next_free_hint ft)"
  have geom: "fat_geom dev dinv ft" using wf by (rule fat_wf_geom)
  have all: "fat_clusters ft = set ?hi \<union> set ?lo"
    using all_clusters_range(2) [OF geom] wf by (simp add: fat_wf_def)
  have "fat_free blk ft \<subseteq> fat_clusters ft" by (auto simp: fat_free_def)
  show ?thesis
  proof (cases "set ?hi \<inter> fat_free blk ft = {}")
    case False
    then obtain c ft' where "alloc_search dev ?hi ft = (Ok (Some c), ft')" "c \<in> fat_free blk ft"
      "fat_step dev dinv blk ft ft' ((fat_next blk ft)(c := FAT_EOC))"
      using alloc_search_some [OF wf, of ?hi] all by blast
    then show ?thesis using that by (simp add: alloc_cluster_def act_bind_def)
  next
    case True
    then have none: "alloc_search dev ?hi ft = (Ok None, ft)"
      using alloc_search_none [OF geom] all by blast
    have "set ?lo \<inter> fat_free blk ft \<noteq> {}" using True free all \<open>fat_free blk ft \<subseteq> fat_clusters ft\<close> by blast
    then obtain c ft' where "alloc_search dev ?lo ft = (Ok (Some c), ft')" "c \<in> fat_free blk ft"
      "fat_step dev dinv blk ft ft' ((fat_next blk ft)(c := FAT_EOC))"
      using alloc_search_some [OF wf, of ?lo] all by blast
    then show ?thesis using that none by (simp add: alloc_cluster_def act_bind_def)
  qed
qed

lemma alloc_cluster_full:
  assumes wf: "fat_wf dev dinv blk ft" and full: "fat_free blk ft = {}"
  shows "alloc_cluster dev ft = (Err FE_NoSpace, ft)"
proof -
  have geom: "fat_geom dev dinv ft" using wf by (rule fat_wf_geom)
  have all: "fat_clusters ft = set (cluster_range (ft_next_free_hint ft) (ft_total_clusters ft + 2)) \<union>
      set (cluster_range 2 (ft_next_free_hint ft))"
    using all_clusters_range(2) [OF geom] wf by (simp add: fat_wf_def)
  then show ?thesis
    using alloc_search_none [OF geom, of "cluster_range (ft_next_free_hint ft) (ft_total_clusters ft + 2)"]
      alloc_search_none [OF geom, of "cluster_range 2 (ft_next_free_hint ft)"] full
    by (simp add: alloc_cluster_def act_bind_def)
qed

lemma free_cluster_ok:
  assumes wf: "fat_wf dev dinv blk ft" and c: "c \<in> fat_clusters ft" and used: "fat_next blk ft c \<noteq> FAT_FREE"
  obtains ft' where "free_cluster dev c ft = (Ok (), ft')"
    and "fat_step dev dinv blk ft ft' ((fat_next blk ft)(c := FAT_FREE))"
proof -
  have geom: "fat_geom dev dinv ft" and mirror: "fat_mirror blk ft" using wf by (simp_all add: fat_wf_def)
  obtain d' where d': "write_entry dev c FAT_FREE ft = (Ok (), ft\<lparr>ft_device := d'\<rparr>)"
    "fat_ext dev dinv blk ft (ft\<lparr>ft_device := d'\<rparr>)" "fat_mirror blk (ft\<lparr>ft_device := d'\<rparr>)"
    and nxt: "\<And>c'. c' \<in> fat_clusters ft \<Longrightarrow> fat_next blk (ft\<lparr>ft_device := d'\<rparr>) c' =
       ((fat_next blk ft)(c := FAT_FREE)) c'"
    and free: "fat_free blk (ft\<lparr>ft_device := d'\<rparr>) = insert c (fat_free blk ft)"
    using write_entry_step [OF geom mirror c, of FAT_FREE] by (auto simp: FAT_FREE_def)
  define ft1 where "ft1 = ft\<lparr>ft_device := d', ft_free_count := map_option (\<lambda>n. n + 1) (ft_free_count ft)\<rparr>"
  define ft' where "ft' = (if c < ft_next_free_hint ft1 then ft1\<lparr>ft_next_free_hint := c\<rparr> else ft1)"
  have "free_cluster dev c ft = (Ok (), ft')"
    using d'(1) by (simp add: free_cluster_def act_bind_def Let_def ft'_def ft1_def)
  moreover have "unat (n + 1) = card (insert c (fat_free blk ft))" if "ft_free_count ft = Some n" for n
  proof -
    have n: "unat n = card (fat_free blk ft)" using wf that by (simp add: fat_wf_def)
    then have "unat (n + 1) = unat n + 1"
      using card_fat_free [OF geom, of blk] unat_add_of_nat [of n 1] by simp
    moreover have "c \<notin> fat_free blk ft" using used by (simp add: fat_free_def)
    ultimately show ?thesis using n by simp
  qed
  then have "fat_step dev dinv blk ft ft' ((fat_next blk ft)(c := FAT_FREE))"
    using d'(2,3) nxt free c wf fat_ext_geom [OF d'(2)]
    by (auto simp: fat_step_def fat_wf_def ft'_def ft1_def fat_clusters_def)
  ultimately show ?thesis using that by blast
qed

end


section \<open>Operations on chains\<close>

lemma fat_path_relink:
  "fat_path nxt V s (xs @ [y]) e \<Longrightarrow> (\<And>x. x \<in> set xs \<Longrightarrow> nxt' x = nxt x) \<Longrightarrow> nxt' y = z \<Longrightarrow>
   fat_path nxt' V s (xs @ [y]) z"
  using fat_path_cong [of xs nxt' nxt V s] by auto

lemma fat_path_used:
  assumes "proper_clusters V" and "e \<noteq> FAT_FREE"
  shows "fat_path nxt V c cs e \<Longrightarrow> x \<in> set cs \<Longrightarrow> nxt x \<noteq> FAT_FREE"
proof (induction cs arbitrary: c)
  case (Cons y ys)
  have "FAT_FREE \<notin> V" using assms(1) by (auto simp: proper_clusters_def chain_end_def FAT_FREE_def)
  then have "nxt y \<noteq> FAT_FREE" using Cons.prems(1) assms(2) by (cases ys) auto
  then show ?case using Cons by auto
qed simp

lemma chain_end_EOC [simp]: "chain_end FAT_EOC" and EOC_used [simp]: "FAT_EOC \<noteq> FAT_FREE"
  by (simp_all add: chain_end_def FAT_EOC_def FAT_RESERVED_MIN_def FAT_FREE_def)

lemma cluster_entry_value:
  assumes "fat_geom dev dinv ft" and "c \<in> fat_clusters ft"
  shows "c AND 0x0FFFFFFF = c" and "c \<noteq> FAT_FREE"
proof -
  have c: "unat c < 2 ^ 28" "2 \<le> unat c"
    using fat_geomD(10) [OF assms(1)] assms(2) by (simp_all add: fat_clusters_def)
  have "unat (take_bit 28 c) = unat c" using c(1) by (simp add: unsigned_take_bit_eq take_bit_nat_eq_self)
  then have "take_bit 28 c = c" by (simp add: word_unat_eq_iff)
  then show "c AND 0x0FFFFFFF = c" by (simp add: take_bit_eq_mask mask_eq_exp_minus_1)
  show "c \<noteq> FAT_FREE" using c(2) by (auto simp: FAT_FREE_def)
qed

context block_device
begin

text \<open>Writing a non-zero link into a used cluster keeps the volume consistent.\<close>

lemma link_ok:
  assumes wf: "fat_wf dev dinv blk ft" and p: "p \<in> fat_clusters ft" and used: "fat_next blk ft p \<noteq> FAT_FREE"
    and v: "v AND 0x0FFFFFFF = v" "v \<noteq> FAT_FREE"
  obtains ft' where "write_entry dev p v ft = (Ok (), ft')"
    and "fat_step dev dinv blk ft ft' ((fat_next blk ft)(p := v))"
proof -
  have geom: "fat_geom dev dinv ft" and mirror: "fat_mirror blk ft" using wf by (simp_all add: fat_wf_def)
  have "p \<notin> fat_free blk ft" using used by (simp add: fat_free_def)
  then obtain d' where d': "write_entry dev p v ft = (Ok (), ft\<lparr>ft_device := d'\<rparr>)"
    "fat_ext dev dinv blk ft (ft\<lparr>ft_device := d'\<rparr>)" "fat_mirror blk (ft\<lparr>ft_device := d'\<rparr>)"
    and nxt: "\<And>c'. c' \<in> fat_clusters ft \<Longrightarrow> fat_next blk (ft\<lparr>ft_device := d'\<rparr>) c' = ((fat_next blk ft)(p := v)) c'"
    and free: "fat_free blk (ft\<lparr>ft_device := d'\<rparr>) = fat_free blk ft"
    using write_entry_step [OF geom mirror p, of v] v by (auto simp: FAT_FREE_def)
  then have "fat_step dev dinv blk ft (ft\<lparr>ft_device := d'\<rparr>) ((fat_next blk ft)(p := v))"
    using wf fat_ext_geom [OF d'(2)] by (simp add: fat_step_def fat_wf_def)
  then show ?thesis using that d'(1) by blast
qed

lemma free_all_ok:
  assumes body: "\<And>c ft ft'. free_cluster dev c ft = (Ok (), ft') \<Longrightarrow> body c ft = (Ok (), ft')"
  shows "fat_wf dev dinv blk ft \<Longrightarrow> distinct cs \<Longrightarrow> set cs \<subseteq> fat_clusters ft \<Longrightarrow>
    (\<And>c. c \<in> set cs \<Longrightarrow> fat_next blk ft c \<noteq> FAT_FREE) \<Longrightarrow>
    \<exists>ft'. act_for cs body ft = (Ok (), ft') \<and>
      fat_step dev dinv blk ft ft' (\<lambda>c. if c \<in> set cs then FAT_FREE else fat_next blk ft c)"
proof (induction cs arbitrary: ft)
  case Nil
  then show ?case using fat_step_refl by auto
next
  case (Cons c cs)
  obtain ft1 where ft1: "free_cluster dev c ft = (Ok (), ft1)"
    and step1: "fat_step dev dinv blk ft ft1 ((fat_next blk ft)(c := FAT_FREE))"
    using free_cluster_ok [OF Cons.prems(1), of c] Cons.prems by auto
  note D = fat_stepD [OF step1]
  have nxt1: "fat_next blk ft1 x = fat_next blk ft x" if "x \<in> fat_clusters ft" "x \<noteq> c" for x
    using D(4) [OF that(1)] that(2) by simp
  have "\<exists>ft'. act_for cs body ft1 = (Ok (), ft') \<and>
      fat_step dev dinv blk ft1 ft' (\<lambda>x. if x \<in> set cs then FAT_FREE else fat_next blk ft1 x)"
    using Cons.prems nxt1 D(3) by (intro Cons.IH [OF D(1)]) fastforce+
  then obtain ft2 where ft2: "act_for cs body ft1 = (Ok (), ft2)"
    "fat_step dev dinv blk ft1 ft2 (\<lambda>x. if x \<in> set cs then FAT_FREE else fat_next blk ft1 x)"
    by blast
  have "fat_step dev dinv blk ft ft2 (\<lambda>x. if x \<in> set (c # cs) then FAT_FREE else fat_next blk ft x)"
    by (rule fat_step_cong [OF fat_step_trans [OF step1 ft2(2)]]) (use D(4) in auto)
  then show ?case using body [OF ft1] ft2(1) by (simp add: act_bind_def)
qed

lemma free_list_ok:
  assumes "fat_wf dev dinv blk ft" and "distinct cs" and "set cs \<subseteq> fat_clusters ft"
    and "\<And>c. c \<in> set cs \<Longrightarrow> fat_next blk ft c \<noteq> FAT_FREE"
  obtains ft' where "act_for cs (free_cluster dev) ft = (Ok (), ft')"
    and "fat_step dev dinv blk ft ft' (\<lambda>c. if c \<in> set cs then FAT_FREE else fat_next blk ft c)"
  using free_all_ok [of "free_cluster dev", OF _ assms] by blast

lemma free_list_ignore_ok:
  assumes "fat_wf dev dinv blk ft" and "distinct cs" and "set cs \<subseteq> fat_clusters ft"
    and "\<And>c. c \<in> set cs \<Longrightarrow> fat_next blk ft c \<noteq> FAT_FREE"
  obtains ft' where "act_for cs (\<lambda>c. act_ignore (free_cluster dev c)) ft = (Ok () :: (unit, FatError) outcome, ft')"
    and "fat_step dev dinv blk ft ft' (\<lambda>c. if c \<in> set cs then FAT_FREE else fat_next blk ft c)"
  using free_all_ok [of "\<lambda>c. act_ignore (free_cluster dev c)", OF _ assms] by (auto simp: act_ignore_def)

text \<open>One round of \<open>alloc_rest\<close>: a new cluster is allocated and linked to the end of the held chain.\<close>

lemma alloc_link_ok:
  assumes wf: "fat_wf dev dinv blk ft" and free: "fat_free blk ft \<noteq> {}"
    and path: "fat_path (fat_next blk ft) (fat_clusters ft) s (xs @ [y]) FAT_EOC"
  obtains c ft1 ft2 where "alloc_cluster dev ft = (Ok c, ft1)" and "write_entry dev y c ft1 = (Ok (), ft2)"
    and "c \<in> fat_free blk ft"
    and "fat_step dev dinv blk ft ft2 ((fat_next blk ft)(c := FAT_EOC, y := c))"
    and "fat_free blk ft2 = fat_free blk ft - {c}"
    and "fat_path (fat_next blk ft2) (fat_clusters ft2) s ((xs @ [y]) @ [c]) FAT_EOC"
proof -
  have geom: "fat_geom dev dinv ft" using wf by (rule fat_wf_geom)
  note proper = fat_clusters_proper [OF geom]
  obtain c ft1 where c: "alloc_cluster dev ft = (Ok c, ft1)" "c \<in> fat_free blk ft"
    and step1: "fat_step dev dinv blk ft ft1 ((fat_next blk ft)(c := FAT_EOC))"
    using alloc_cluster_ok [OF wf free] by blast
  note D1 = fat_stepD [OF step1]
  have cV: "c \<in> fat_clusters ft" "fat_next blk ft c = FAT_FREE" using c(2) by (simp_all add: fat_free_def)
  have sub: "set (xs @ [y]) \<subseteq> fat_clusters ft" by (rule fat_path_subset [OF path])
  then have y: "y \<in> fat_clusters ft" by simp
  have used: "fat_next blk ft x \<noteq> FAT_FREE" if "x \<in> set (xs @ [y])" for x
    using fat_path_used [OF proper EOC_used path that] .
  then have c_new: "c \<notin> set (xs @ [y])" using cV(2) by blast
  then have "c \<noteq> y" "y \<noteq> c" by auto
  then have "fat_next blk ft1 y \<noteq> FAT_FREE" using D1(4) [OF y] used [of y] by simp
  then obtain ft2 where ft2: "write_entry dev y c ft1 = (Ok (), ft2)"
    and step2: "fat_step dev dinv blk ft1 ft2 ((fat_next blk ft1)(y := c))"
    using link_ok [OF D1(1), of y c] y D1(3) cluster_entry_value [OF geom cV(1)] by auto
  have step: "fat_step dev dinv blk ft ft2 ((fat_next blk ft)(c := FAT_EOC, y := c))"
    by (rule fat_step_cong [OF fat_step_trans [OF step1 step2]]) (use D1(4) in auto)
  note D = fat_stepD [OF step]
  have "distinct (xs @ [y])" using fat_path_distinct [OF proper chain_end_EOC path] .
  moreover have "fat_next blk ft2 x = fat_next blk ft x" if "x \<in> set xs" "x \<noteq> y" for x
    using that sub c_new D(4) [of x] by auto
  ultimately have "fat_path (fat_next blk ft2) (fat_clusters ft) s (xs @ [y]) c"
    using D(4) [OF y] by (intro fat_path_relink [OF path]) auto
  then have "fat_path (fat_next blk ft2) (fat_clusters ft) s ((xs @ [y]) @ [c]) FAT_EOC"
    unfolding fat_path_append using cV(1) D(4) [OF cV(1)] \<open>c \<noteq> y\<close> by auto
  moreover have "fat_free blk ft2 = fat_free blk ft - {c}"
    unfolding D(5) using used [of y] cluster_entry_value(2) [OF geom cV(1)]
    by (auto simp: fat_free_def split: if_splits)
  ultimately show ?thesis using that c ft2 step D(3) by simp
qed

lemma alloc_rest_ok:
  "fat_wf dev dinv blk ft \<Longrightarrow> fat_path (fat_next blk ft) (fat_clusters ft) s (xs @ [y]) FAT_EOC \<Longrightarrow>
   n \<le> card (fat_free blk ft) \<Longrightarrow>
   \<exists>new ft'. alloc_rest dev n (xs @ [y]) ft = (Ok (xs @ [y] @ new), ft') \<and> length new = n \<and> distinct new \<and>
     set new \<subseteq> fat_free blk ft \<and> fat_wf dev dinv blk ft' \<and> fat_ext dev dinv blk ft ft' \<and>
     fat_path (fat_next blk ft') (fat_clusters ft) s (xs @ [y] @ new) FAT_EOC \<and>
     (\<forall>c \<in> fat_clusters ft - set new - {y}. fat_next blk ft' c = fat_next blk ft c)"
proof (induction n arbitrary: ft xs y)
  case 0
  then show ?case using fat_ext_refl [OF fat_wf_geom] by auto
next
  case (Suc n)
  have "fat_free blk ft \<noteq> {}" using Suc.prems(3) by auto
  then obtain c ft1 ft2 where run: "alloc_cluster dev ft = (Ok c, ft1)" "write_entry dev y c ft1 = (Ok (), ft2)"
    and c: "c \<in> fat_free blk ft"
    and step: "fat_step dev dinv blk ft ft2 ((fat_next blk ft)(c := FAT_EOC, y := c))"
    and free2: "fat_free blk ft2 = fat_free blk ft - {c}"
    and path: "fat_path (fat_next blk ft2) (fat_clusters ft2) s ((xs @ [y]) @ [c]) FAT_EOC"
    using alloc_link_ok [OF Suc.prems(1) _ Suc.prems(2)] by blast
  note D = fat_stepD [OF step]
  have "n \<le> card (fat_free blk ft2)" using free2 Suc.prems(3) c by simp
  from Suc.IH [OF D(1) path this] obtain new ft3 where
    IH: "alloc_rest dev n ((xs @ [y]) @ [c]) ft2 = (Ok ((xs @ [y]) @ [c] @ new), ft3)" "length new = n"
      "distinct new" "set new \<subseteq> fat_free blk ft2" "fat_wf dev dinv blk ft3" "fat_ext dev dinv blk ft2 ft3"
      "fat_path (fat_next blk ft3) (fat_clusters ft2) s ((xs @ [y]) @ [c] @ new) FAT_EOC"
      "\<forall>x \<in> fat_clusters ft2 - set new - {c}. fat_next blk ft3 x = fat_next blk ft2 x"
    by blast
  have "alloc_rest dev (Suc n) (xs @ [y]) ft = (Ok (xs @ [y] @ (c # new)), ft3)"
    using run IH(1) by (simp add: act_bind_def)
  moreover have "\<forall>x \<in> fat_clusters ft - set (c # new) - {y}. fat_next blk ft3 x = fat_next blk ft x"
    using IH(8) D(3,4) by auto
  moreover have "distinct (c # new)" "set (c # new) \<subseteq> fat_free blk ft"
    using IH(3,4) free2 c by auto
  moreover have "length (c # new) = Suc n" using IH(2) by simp
  moreover have "fat_ext dev dinv blk ft ft3" using fat_ext_trans [OF D(2) IH(6)] .
  moreover have "fat_path (fat_next blk ft3) (fat_clusters ft) s (xs @ [y] @ (c # new)) FAT_EOC"
    using IH(7) D(3) by simp
  ultimately show ?case using IH(5) by blast
qed

lemma alloc_rest_fail:
  "fat_wf dev dinv blk ft \<Longrightarrow> fat_path (fat_next blk ft) (fat_clusters ft) s (xs @ [y]) FAT_EOC \<Longrightarrow>
   card (fat_free blk ft) < n \<Longrightarrow>
   \<exists>ft'. alloc_rest dev n (xs @ [y]) ft = (Err FE_NoSpace, ft') \<and>
     fat_step dev dinv blk ft ft' (\<lambda>c. if c \<in> set (xs @ [y]) then FAT_FREE else fat_next blk ft c)"
proof (induction n arbitrary: ft xs y)
  case (Suc n)
  note proper = fat_clusters_proper [OF fat_wf_geom [OF Suc.prems(1)]]
  note used = fat_path_used [OF proper EOC_used Suc.prems(2)]
  show ?case
  proof (cases "fat_free blk ft = {}")
    case True
    obtain ft' where "act_for (xs @ [y]) (\<lambda>c. act_ignore (free_cluster dev c)) ft = (Ok () :: (unit, FatError) outcome, ft')"
      "fat_step dev dinv blk ft ft' (\<lambda>c. if c \<in> set (xs @ [y]) then FAT_FREE else fat_next blk ft c)"
      using free_list_ignore_ok [OF Suc.prems(1) fat_path_distinct [OF proper chain_end_EOC Suc.prems(2)]
          fat_path_subset [OF Suc.prems(2)] used] by blast
    then show ?thesis using alloc_cluster_full [OF Suc.prems(1) True] by (simp add: act_bind_def)
  next
    case False
    then obtain c ft1 ft2 where run: "alloc_cluster dev ft = (Ok c, ft1)" "write_entry dev y c ft1 = (Ok (), ft2)"
      and c: "c \<in> fat_free blk ft"
      and step: "fat_step dev dinv blk ft ft2 ((fat_next blk ft)(c := FAT_EOC, y := c))"
      and free2: "fat_free blk ft2 = fat_free blk ft - {c}"
      and path: "fat_path (fat_next blk ft2) (fat_clusters ft2) s ((xs @ [y]) @ [c]) FAT_EOC"
      using alloc_link_ok [OF Suc.prems(1) _ Suc.prems(2)] by blast
    note D = fat_stepD [OF step]
    have "card (fat_free blk ft2) < n" using free2 Suc.prems(3) c card_Suc_Diff1 [OF finite_fat_free c] by simp
    from Suc.IH [OF D(1) path this] obtain ft3 where
      IH: "alloc_rest dev n ((xs @ [y]) @ [c]) ft2 = (Err FE_NoSpace, ft3)"
        "fat_step dev dinv blk ft2 ft3 (\<lambda>x. if x \<in> set ((xs @ [y]) @ [c]) then FAT_FREE else fat_next blk ft2 x)"
      by blast
    have "fat_step dev dinv blk ft ft3 (\<lambda>x. if x \<in> set (xs @ [y]) then FAT_FREE else fat_next blk ft x)"
      by (rule fat_step_cong [OF fat_step_trans [OF step IH(2)]]) (use D(4) c in \<open>auto simp: fat_free_def\<close>)
    then show ?thesis using run IH(1) by (simp add: act_bind_def)
  qed
qed simp

end

lemma distinct_cluster_range: "distinct (cluster_range lo hi)"
proof -
  have "unat (of_nat n :: u32) = n" if "n < unat hi" for n
    using that unat_less_exp [of hi] by (intro unat_of_nat_small) simp
  then have "inj_on (of_nat :: nat \<Rightarrow> u32) {unat lo..<unat hi}"
    by (intro inj_on_inverseI [of _ unat]) simp
  then show ?thesis by (simp add: cluster_range_def distinct_map)
qed

context block_device
begin

text \<open>\<open>alloc_clusters\<close>: all or nothing.\<close>

lemma alloc_clusters_ok:
  assumes wf: "fat_wf dev dinv blk ft" and n: "count \<le> card (fat_free blk ft)"
  shows "\<exists>cs ft'. alloc_clusters dev count ft = (Ok cs, ft') \<and> length cs = count \<and> distinct cs \<and>
    set cs \<subseteq> fat_free blk ft \<and> fat_wf dev dinv blk ft' \<and> fat_ext dev dinv blk ft ft' \<and>
    (cs \<noteq> [] \<longrightarrow> fat_path (fat_next blk ft') (fat_clusters ft) (hd cs) cs FAT_EOC) \<and>
    (\<forall>c \<in> fat_clusters ft - set cs. fat_next blk ft' c = fat_next blk ft c)"
proof (cases count)
  case 0
  then show ?thesis using wf fat_ext_refl [OF fat_wf_geom [OF wf]] by (simp add: alloc_clusters_def)
next
  case (Suc n')
  have "fat_free blk ft \<noteq> {}" using n Suc by auto
  then obtain c ft1 where c: "alloc_cluster dev ft = (Ok c, ft1)" "c \<in> fat_free blk ft"
    and step: "fat_step dev dinv blk ft ft1 ((fat_next blk ft)(c := FAT_EOC))"
    using alloc_cluster_ok [OF wf] by blast
  note D = fat_stepD [OF step]
  have cV: "c \<in> fat_clusters ft" using c(2) by (simp add: fat_free_def)
  have path: "fat_path (fat_next blk ft1) (fat_clusters ft1) c ([] @ [c]) FAT_EOC"
    using cV D(3) D(4) [OF cV] by simp
  have free1: "fat_free blk ft1 = fat_free blk ft - {c}"
    unfolding D(5) by (auto simp: fat_free_def split: if_splits)
  then have "n' \<le> card (fat_free blk ft1)" using n Suc c(2) by simp
  from alloc_rest_ok [OF D(1) path this] obtain new ft2 where
    rest: "alloc_rest dev n' [c] ft1 = (Ok (c # new), ft2)" "length new = n'" "distinct new"
      "set new \<subseteq> fat_free blk ft1" "fat_wf dev dinv blk ft2" "fat_ext dev dinv blk ft1 ft2"
      "fat_path (fat_next blk ft2) (fat_clusters ft1) c (c # new) FAT_EOC"
      "\<forall>x \<in> fat_clusters ft1 - set new - {c}. fat_next blk ft2 x = fat_next blk ft1 x"
    by auto
  have "alloc_clusters dev count ft = (Ok (c # new), ft2)"
    using c(1) rest(1) Suc by (simp add: alloc_clusters_def act_bind_def)
  moreover have "\<forall>x \<in> fat_clusters ft - set (c # new). fat_next blk ft2 x = fat_next blk ft x"
    using rest(8) D(3,4) by auto
  moreover have "distinct (c # new)" "set (c # new) \<subseteq> fat_free blk ft" "length (c # new) = count"
    using rest(2-4) free1 c(2) Suc by auto
  moreover have "fat_path (fat_next blk ft2) (fat_clusters ft) (hd (c # new)) (c # new) FAT_EOC"
    using rest(7) D(3) by simp
  ultimately show ?thesis using rest(5) fat_ext_trans [OF D(2) rest(6)] by blast
qed

lemma alloc_clusters_fail:
  assumes wf: "fat_wf dev dinv blk ft" and n: "card (fat_free blk ft) < count"
  shows "\<exists>ft'. alloc_clusters dev count ft = (Err FE_NoSpace, ft') \<and>
    fat_step dev dinv blk ft ft' (fat_next blk ft)"
proof (cases "fat_free blk ft = {}")
  case True
  then show ?thesis
    using alloc_cluster_full [OF wf True] n fat_step_refl [OF wf] by (simp add: alloc_clusters_def act_bind_def)
next
  case False
  then obtain c ft1 where c: "alloc_cluster dev ft = (Ok c, ft1)" "c \<in> fat_free blk ft"
    and step: "fat_step dev dinv blk ft ft1 ((fat_next blk ft)(c := FAT_EOC))"
    using alloc_cluster_ok [OF wf] by blast
  note D = fat_stepD [OF step]
  have cV: "c \<in> fat_clusters ft" using c(2) by (simp add: fat_free_def)
  have path: "fat_path (fat_next blk ft1) (fat_clusters ft1) c ([] @ [c]) FAT_EOC"
    using cV D(3) D(4) [OF cV] by simp
  have "fat_free blk ft1 = fat_free blk ft - {c}"
    unfolding D(5) by (auto simp: fat_free_def split: if_splits)
  then have "card (fat_free blk ft1) < count - 1"
    using n c(2) card_Suc_Diff1 [OF finite_fat_free c(2)] by simp
  from alloc_rest_fail [OF D(1) path this] obtain ft2 where
    rest: "alloc_rest dev (count - 1) [c] ft1 = (Err FE_NoSpace, ft2)"
      "fat_step dev dinv blk ft1 ft2 (\<lambda>x. if x \<in> {c} then FAT_FREE else fat_next blk ft1 x)"
    by auto
  have "fat_step dev dinv blk ft ft2 (fat_next blk ft)"
    by (rule fat_step_cong [OF fat_step_trans [OF step rest(2)]]) (use D(4) c(2) in \<open>auto simp: fat_free_def\<close>)
  then show ?thesis using c(1) rest(1) n by (simp add: alloc_clusters_def act_bind_def)
qed

lemma free_chain_ok:
  assumes wf: "fat_wf dev dinv blk ft" and e: "chain_end e" "e \<noteq> FAT_FREE"
    and path: "fat_path (fat_next blk ft) (fat_clusters ft) s cs e"
  shows "\<exists>ft'. free_chain dev s ft = (Ok (), ft') \<and>
    fat_step dev dinv blk ft ft' (\<lambda>c. if c \<in> set cs then FAT_FREE else fat_next blk ft c)"
proof -
  note geom = fat_wf_geom [OF wf] and proper = fat_clusters_proper [OF fat_wf_geom [OF wf]]
  have "read_chain dev ft s = Ok cs" using path e(1) by (auto simp: read_chain_iff [OF geom] fat_chain_def)
  moreover obtain ft' where "act_for cs (free_cluster dev) ft = (Ok (), ft')"
    "fat_step dev dinv blk ft ft' (\<lambda>c. if c \<in> set cs then FAT_FREE else fat_next blk ft c)"
    using free_list_ok [OF wf fat_path_distinct [OF proper e(1) path] fat_path_subset [OF path]
        fat_path_used [OF proper e(2) path]] by blast
  ultimately show ?thesis by (simp add: free_chain_def act_bind_def)
qed

lemma extend_chain_ok:
  assumes wf: "fat_wf dev dinv blk ft" and n: "count \<le> card (fat_free blk ft)"
    and e: "chain_end e" "e \<noteq> FAT_FREE" and path: "fat_path (fat_next blk ft) (fat_clusters ft) s (xs @ [y]) e"
  shows "\<exists>new ft'. extend_chain dev y count ft = (Ok new, ft') \<and> length new = count \<and> distinct new \<and>
    set new \<subseteq> fat_free blk ft \<and> fat_wf dev dinv blk ft' \<and> fat_ext dev dinv blk ft ft' \<and>
    fat_path (fat_next blk ft') (fat_clusters ft) s (xs @ [y] @ new) (if count = 0 then e else FAT_EOC) \<and>
    (\<forall>c \<in> fat_clusters ft - set new - {y}. fat_next blk ft' c = fat_next blk ft c)"
proof -
  note geom = fat_wf_geom [OF wf] and proper = fat_clusters_proper [OF fat_wf_geom [OF wf]]
  obtain new ft1 where a: "alloc_clusters dev count ft = (Ok new, ft1)" "length new = count" "distinct new"
    "set new \<subseteq> fat_free blk ft" "fat_wf dev dinv blk ft1" "fat_ext dev dinv blk ft ft1"
    "new \<noteq> [] \<longrightarrow> fat_path (fat_next blk ft1) (fat_clusters ft) (hd new) new FAT_EOC"
    "\<forall>c \<in> fat_clusters ft - set new. fat_next blk ft1 c = fat_next blk ft c"
    using alloc_clusters_ok [OF wf n] by blast
  have used: "fat_next blk ft x \<noteq> FAT_FREE" if "x \<in> set (xs @ [y])" for x
    using fat_path_used [OF proper e(2) path that] .
  have sub: "set (xs @ [y]) \<subseteq> fat_clusters ft" by (rule fat_path_subset [OF path])
  have apart: "set (xs @ [y]) \<inter> set new = {}" using used a(4) by (auto simp: fat_free_def)
  have keep: "fat_next blk ft1 x = fat_next blk ft x" if "x \<in> set (xs @ [y])" for x
    using a(8) that sub apart by blast
  show ?thesis
  proof (cases "new = []")
    case True
    have "fat_path (fat_next blk ft1) (fat_clusters ft) s (xs @ [y]) e"
      using path fat_path_cong [of "xs @ [y]" "fat_next blk ft1" "fat_next blk ft"] keep by blast
    then show ?thesis using a True by (auto simp: extend_chain_def act_bind_def)
  next
    case False
    have cl1: "fat_clusters ft1 = fat_clusters ft" using fat_ext_clusters [OF a(6)] .
    have hd: "hd new \<in> fat_clusters ft" using a(4) hd_in_set [OF False] by (auto simp: fat_free_def)
    obtain ft2 where ft2: "write_entry dev y (hd new) ft1 = (Ok (), ft2)"
      and step: "fat_step dev dinv blk ft1 ft2 ((fat_next blk ft1)(y := hd new))"
      using link_ok [OF a(5), of y "hd new"] sub cl1 keep [of y] used [of y] cluster_entry_value [OF geom hd]
      by auto
    note D = fat_stepD [OF step, unfolded cl1]
    have "distinct (xs @ [y])" using fat_path_distinct [OF proper e(1) path] .
    then have "fat_path (fat_next blk ft2) (fat_clusters ft) s (xs @ [y]) (hd new)"
      using sub keep D(4) by (intro fat_path_relink [OF path]) auto
    moreover have "fat_path (fat_next blk ft2) (fat_clusters ft) (hd new) new FAT_EOC"
      using a(4,7) False apart D(4)
      by (subst fat_path_cong [of new _ "fat_next blk ft1"]) (auto simp: fat_free_def)
    ultimately have "fat_path (fat_next blk ft2) (fat_clusters ft) s (xs @ [y] @ new) FAT_EOC"
      unfolding append_assoc [symmetric] fat_path_append [of _ _ _ "xs @ [y]"] by blast
    moreover have "\<forall>c \<in> fat_clusters ft - set new - {y}. fat_next blk ft2 c = fat_next blk ft c"
      using D(4) a(8) by auto
    moreover have "extend_chain dev y count ft = (Ok new, ft2)"
      using a(1) False ft2 by (simp add: extend_chain_def act_bind_def)
    moreover have eoc: "(if count = 0 then e else FAT_EOC) = FAT_EOC" using False a(2) by auto
    ultimately show ?thesis unfolding eoc using a(2-4) D(1) fat_ext_trans [OF a(6) D(2)] by blast
  qed
qed

lemma truncate_chain_ok:
  assumes wf: "fat_wf dev dinv blk ft" and e: "chain_end e" "e \<noteq> FAT_FREE"
    and path: "fat_path (fat_next blk ft) (fat_clusters ft) s cs e" and k: "k < length cs"
  shows "\<exists>ft'. truncate_chain dev s k ft = (Ok (), ft') \<and>
    fat_step dev dinv blk ft ft' (\<lambda>c. if c \<in> set (drop k cs) then FAT_FREE
      else if 0 < k \<and> c = cs ! (k - 1) then FAT_EOC else fat_next blk ft c) \<and>
    (0 < k \<longrightarrow> fat_path (fat_next blk ft') (fat_clusters ft) s (take k cs) FAT_EOC)"
proof (cases k)
  case 0
  have "read_chain dev ft s = Ok cs"
    using path e(1) by (auto simp: read_chain_iff [OF fat_wf_geom [OF wf]] fat_chain_def)
  then show ?thesis
    using free_chain_ok [OF wf e path] 0 k by (simp add: truncate_chain_def act_bind_def cong: if_cong)
next
  case (Suc j)
  note geom = fat_wf_geom [OF wf] and proper = fat_clusters_proper [OF fat_wf_geom [OF wf]]
  define y where "y = cs ! j"
  have cs: "cs = take j cs @ [y] @ drop k cs" "take k cs = take j cs @ [y]"
    using k Suc by (simp_all add: y_def id_take_nth_drop take_Suc_conv_app_nth)
  have dist: "distinct (take j cs @ [y] @ drop k cs)"
    using fat_path_distinct [OF proper e(1) path] cs(1) by simp
  have sub: "set (take j cs) \<subseteq> fat_clusters ft" "y \<in> fat_clusters ft" "set (drop k cs) \<subseteq> fat_clusters ft"
    using fat_path_subset [OF path] cs(1) by (metis Un_subset_iff insert_subset set_append list.simps(15))+
  have used: "fat_next blk ft x \<noteq> FAT_FREE" if "x \<in> set (take j cs @ [y] @ drop k cs)" for x
    using fat_path_used [OF proper e(2) path] that unfolding cs(1) [symmetric] by blast
  obtain ft1 where ft1: "write_entry dev y FAT_EOC ft = (Ok (), ft1)"
    and step1: "fat_step dev dinv blk ft ft1 ((fat_next blk ft)(y := FAT_EOC))"
    using link_ok [OF wf sub(2) used [of y], of FAT_EOC] by (auto simp: FAT_EOC_def FAT_FREE_def)
  note D = fat_stepD [OF step1]
  have "fat_next blk ft1 c \<noteq> FAT_FREE" if "c \<in> set (drop k cs)" for c
    using used [of c] D(4) [OF subsetD [OF sub(3) that]] that by (auto split: if_splits)
  then obtain ft2 where ft2: "act_for (drop k cs) (free_cluster dev) ft1 = (Ok (), ft2)"
    and step2: "fat_step dev dinv blk ft1 ft2 (\<lambda>c. if c \<in> set (drop k cs) then FAT_FREE else fat_next blk ft1 c)"
    using free_list_ok [OF D(1), of "drop k cs"] sub(3) D(3) dist by auto
  have step: "fat_step dev dinv blk ft ft2 (\<lambda>c. if c \<in> set (drop k cs) then FAT_FREE
      else if 0 < k \<and> c = cs ! (k - 1) then FAT_EOC else fat_next blk ft c)"
    by (rule fat_step_cong [OF fat_step_trans [OF step1 step2]]) (use D(4) Suc in \<open>auto simp: y_def\<close>)
  have nxt2: "fat_next blk ft2 x = (if x \<in> set (drop k cs) then FAT_FREE else if x = y then FAT_EOC
      else fat_next blk ft x)" if "x \<in> fat_clusters ft" for x
    using fat_stepD(4) [OF step that] Suc by (simp add: y_def)
  have "fat_path (fat_next blk ft) (fat_clusters ft) s (take j cs @ [y]) (fat_next blk ft y)"
    using path by (subst (asm) cs(1)) auto
  then have "fat_path (fat_next blk ft2) (fat_clusters ft) s (take j cs @ [y]) FAT_EOC"
  proof (rule fat_path_relink)
    show "fat_next blk ft2 x = fat_next blk ft x" if "x \<in> set (take j cs)" for x
      using nxt2 [OF subsetD [OF sub(1) that]] that dist by auto
    show "fat_next blk ft2 y = FAT_EOC" using nxt2 [OF sub(2)] dist by auto
  qed
  moreover have "truncate_chain dev s k ft = (Ok (), ft2)"
    using ft1 ft2 k Suc path e(1) read_chain_iff [OF geom, of s cs]
    by (auto simp: truncate_chain_def act_bind_def fat_chain_def y_def)
  ultimately show ?thesis using step cs(2) by auto
qed

lemma count_free_loop_ok:
  assumes geom: "fat_geom dev dinv ft"
  shows "distinct cs \<Longrightarrow> set cs \<subseteq> fat_clusters ft \<Longrightarrow>
    count_free_loop dev ft cs n = Ok (n + of_nat (card (set cs \<inter> fat_free blk ft)))"
proof (induction cs arbitrary: n)
  case (Cons c cs)
  have c: "c \<in> fat_clusters ft" and new: "c \<notin> set cs" using Cons.prems by simp_all
  have "card (set (c # cs) \<inter> fat_free blk ft) =
      (if fat_next blk ft c = FAT_FREE then 1 else 0) + card (set cs \<inter> fat_free blk ft)"
    using c new by (auto simp: fat_free_def)
  then show ?case using Cons c by (simp add: read_entry_ok [OF geom] algebra_simps)
qed simp

lemma count_free_clusters_ok:
  assumes wf: "fat_wf dev dinv blk ft"
  shows "\<exists>n. count_free_clusters dev ft = (Ok n, ft\<lparr>ft_free_count := Some n\<rparr>) \<and>
    unat n = card (fat_free blk ft) \<and> fat_wf dev dinv blk (ft\<lparr>ft_free_count := Some n\<rparr>)"
proof -
  let ?cs = "cluster_range 2 (ft_total_clusters ft + 2)"
  have geom: "fat_geom dev dinv ft" using wf by (rule fat_wf_geom)
  have all: "set ?cs = fat_clusters ft" using all_clusters_range(1) [OF geom] by simp
  have "distinct ?cs" by (rule distinct_cluster_range)
  then have "count_free_loop dev ft ?cs 0 = Ok (of_nat (card (fat_free blk ft)))"
    using count_free_loop_ok [OF geom, of ?cs 0] all by (simp add: fat_free_def Int_absorb1 Collect_conj_eq)
  moreover have "unat (of_nat (card (fat_free blk ft)) :: u32) = card (fat_free blk ft)"
    using card_fat_free [OF geom, of blk] by (intro unat_of_nat_small) simp
  ultimately show ?thesis
    using wf by (simp add: count_free_clusters_def act_bind_def fat_wf_def)
qed

end


section \<open>A small volume\<close>

text \<open>
  A RAM disk of eight 16-byte sectors with one reserved sector, two FATs of two sectors, and five
  clusters: the chain 2, 3 and three free clusters. It is the volume of the concrete runs below.
\<close>

definition fat_image :: bytes where
  "fat_image =
     [0xF8, 0xFF, 0xFF, 0x0F, 0xFF, 0xFF, 0xFF, 0x0F, 3, 0, 0, 0, 0xFF, 0xFF, 0xFF, 0x0F,
      0, 0, 0, 0, 0, 0, 0, 0, 0, 0, 0, 0, 0, 0, 0, 0]"

definition vol_disk :: RamDisk where
  "vol_disk = \<lparr>rd_name = ''ram0'', rd_block_size = 16,
     rd_data = replicate 16 0 @ fat_image @ fat_image @ replicate 48 0, rd_read_only = False\<rparr>"

definition vol_fat :: "RamDisk FatTable" where
  "vol_fat = \<lparr>ft_device = vol_disk, ft_fat_start = 1, ft_fat_size = 2, ft_num_fats = 2,
     ft_bytes_per_sector = 16, ft_total_clusters = 5, ft_free_count = None, ft_next_free_hint = 2\<rparr>"

lemma vol_disk_wf: "rd_wf vol_disk" "unat (RamDisk_block_count vol_disk) = 8"
  by (simp_all add: rd_wf_def vol_disk_def fat_image_def RamDisk_block_count_def)

lemma vol_fat_geom: "fat_geom ramdisk_ops rd_wf vol_fat"
  using vol_disk_wf
  by (simp add: fat_geom_def vol_fat_def ramdisk_ops_def) (simp add: vol_disk_def)

lemma vol_fat_clusters: "fat_clusters vol_fat = {2, 3, 4, 5, 6}"
  unfolding all_clusters_range(1) [OF vol_fat_geom]
  by (auto simp: vol_fat_def cluster_range_def upt_conv_Cons)

lemma vol_fat_raw:
  "fat_raw rd_blk vol_fat k 2 = 3" "fat_raw rd_blk vol_fat k 3 = FAT_EOC" "fat_raw rd_blk vol_fat k 4 = 0"
  "fat_raw rd_blk vol_fat k 5 = 0" "fat_raw rd_blk vol_fat k 6 = 0" if "k = 0 \<or> k = 1"
  using that
  by (auto simp: fat_raw_def fat_slot_def vol_fat_def rd_blk_def vol_disk_def fat_image_def read_u32_def
      u32_from_le_bytes_def FAT_EOC_def)

lemma vol_fat_next:
  "fat_next rd_blk vol_fat 2 = 3" "fat_next rd_blk vol_fat 3 = FAT_EOC" "fat_next rd_blk vol_fat 4 = 0"
  "fat_next rd_blk vol_fat 5 = 0" "fat_next rd_blk vol_fat 6 = 0"
  using vol_fat_raw [of 0] by (simp_all add: fat_next_def FAT_EOC_def)

lemma vol_fat_free: "fat_free rd_blk vol_fat = {4, 5, 6}"
  unfolding fat_free_def vol_fat_clusters by (auto simp: vol_fat_next FAT_FREE_def FAT_EOC_def)

lemma vol_fat_wf: "fat_wf ramdisk_ops rd_wf rd_blk vol_fat"
proof -
  have "unat (ft_num_fats vol_fat) = 2" by (simp add: vol_fat_def)
  then have "fat_mirror rd_blk vol_fat"
    unfolding fat_mirror_def vol_fat_clusters
    by (auto simp: vol_fat_next vol_fat_raw less_2_cases_iff FAT_EOC_def)
  then show ?thesis using vol_fat_geom by (simp add: fat_wf_def) (simp add: vol_fat_def)
qed

lemma vol_fat_path: "fat_path (fat_next rd_blk vol_fat) (fat_clusters vol_fat) 2 [2, 3] FAT_EOC"
  by (simp add: vol_fat_next vol_fat_clusters)

lemma vol_card_free: "card (fat_free rd_blk vol_fat) = 3"
  by (simp add: vol_fat_free)


section \<open>Properties\<close>

text \<open>
  C11. \<open>write_entry\<close> stores the low 28 bits of the value in the entry of the cluster in every copy of
  the FAT and keeps the reserved high bits; every other entry of every copy and every sector outside
  the FATs is unchanged, and reading the entry back returns the value.
\<close>

theorem write_entry_updates_all_copies:
  assumes "block_device dev dinv blk" and "fat_geom dev dinv ft" and "c \<in> fat_clusters ft"
  shows "\<exists>ft'. write_entry dev c v ft = (Ok (), ft') \<and> read_entry dev ft' c = Ok (v AND 0x0FFFFFFF) \<and>
    (\<forall>k < unat (ft_num_fats ft). \<forall>c' \<in> fat_clusters ft. fat_raw blk ft' k c' =
       (if c' = c then (fat_raw blk ft k c AND 0xF0000000) OR (v AND 0x0FFFFFFF) else fat_raw blk ft k c')) \<and>
    (\<forall>i < unat (bd_block_count dev (ft_device ft)).
       i \<notin> fat_area ft \<longrightarrow> blk (ft_device ft') i = blk (ft_device ft) i)"
proof -
  obtain d' where d': "write_entry dev c v ft = (Ok (), ft\<lparr>ft_device := d'\<rparr>)"
    "fat_ext dev dinv blk ft (ft\<lparr>ft_device := d'\<rparr>)"
    and raw: "\<And>k c'. k < unat (ft_num_fats ft) \<Longrightarrow> c' \<in> fat_clusters ft \<Longrightarrow> fat_raw blk (ft\<lparr>ft_device := d'\<rparr>) k c' =
       (if c' = c then merge_entry (fat_raw blk ft k c) v else fat_raw blk ft k c')"
    and nxt: "\<And>c'. c' \<in> fat_clusters ft \<Longrightarrow> fat_next blk (ft\<lparr>ft_device := d'\<rparr>) c' =
       (if c' = c then v AND 0x0FFFFFFF else fat_next blk ft c')"
    using block_device.write_entry_ok [OF assms, of v] by metis
  have "read_entry dev (ft\<lparr>ft_device := d'\<rparr>) c = Ok (v AND 0x0FFFFFFF)"
    using block_device.read_entry_ok [OF assms(1) fat_ext_geom [OF d'(2)], of c] assms(3) nxt by simp
  then show ?thesis
    using d' raw by (intro exI [of _ "ft\<lparr>ft_device := d'\<rparr>"]) (simp add: fat_ext_def merge_entry_def)
qed

theorem write_entry_updates_all_copies_witness:
  "\<exists>ft'. write_entry ramdisk_ops 4 6 vol_fat = (Ok (), ft') \<and> read_entry ramdisk_ops ft' 4 = Ok 6"
  using write_entry_updates_all_copies [OF ramdisk.block_device_axioms vol_fat_geom, of 4 6]
  by (auto simp: vol_fat_clusters)

text \<open>
  C16. \<open>read_chain\<close> always returns. It returns a list of clusters exactly when that list is the chain
  the entries of the FAT form from the start cluster, and otherwise the error for a link out of range
  or for a chain that does not end.
\<close>

theorem read_chain_exact:
  assumes "block_device dev dinv blk" and "fat_geom dev dinv ft"
  shows "(read_chain dev ft s = Ok cs \<longleftrightarrow> fat_chain (fat_next blk ft) (fat_clusters ft) s cs) \<and>
    ((\<exists>cs. read_chain dev ft s = Ok cs) \<or>
     read_chain dev ft s = Err FE_InvalidCluster \<or> read_chain dev ft s = Err FE_CorruptedChain)"
  using block_device.read_chain_iff [OF assms] block_device.read_chain_total [OF assms] by auto

theorem read_chain_exact_witness: "read_chain ramdisk_ops vol_fat 2 = Ok [2, 3]"
  using read_chain_exact [OF ramdisk.block_device_axioms vol_fat_geom, of 2 "[2, 3]"] vol_fat_path
  by (auto simp: fat_chain_def)

text \<open>
  C1. \<open>alloc_clusters\<close> is all or nothing on a consistent volume: when enough clusters are free, it
  returns that many distinct free clusters, linked into a chain in the order of the result, and
  changes no other entry; when there are not enough, it reports no space and every entry is as
  before. Either way the volume, its cached free count included, stays consistent and no sector
  outside the FATs changes.
\<close>

theorem alloc_clusters_all_or_nothing:
  assumes "block_device dev dinv blk" and "fat_wf dev dinv blk ft"
  shows "(count \<le> card (fat_free blk ft) \<longrightarrow>
      (\<exists>cs ft'. alloc_clusters dev count ft = (Ok cs, ft') \<and> length cs = count \<and> distinct cs \<and>
         set cs \<subseteq> fat_free blk ft \<and> fat_wf dev dinv blk ft' \<and> fat_ext dev dinv blk ft ft' \<and>
         (cs \<noteq> [] \<longrightarrow> fat_path (fat_next blk ft') (fat_clusters ft) (hd cs) cs FAT_EOC) \<and>
         (\<forall>c \<in> fat_clusters ft - set cs. fat_next blk ft' c = fat_next blk ft c))) \<and>
    (card (fat_free blk ft) < count \<longrightarrow>
      (\<exists>ft'. alloc_clusters dev count ft = (Err FE_NoSpace, ft') \<and> fat_wf dev dinv blk ft' \<and>
         fat_ext dev dinv blk ft ft' \<and> (\<forall>c \<in> fat_clusters ft. fat_next blk ft' c = fat_next blk ft c)))"
  using block_device.alloc_clusters_ok [OF assms] block_device.alloc_clusters_fail [OF assms]
  by (simp add: fat_step_def)

theorem alloc_clusters_all_or_nothing_witness:
  "(\<exists>cs ft'. alloc_clusters ramdisk_ops 3 vol_fat = (Ok cs, ft') \<and> length cs = 3 \<and> set cs \<subseteq> {4, 5, 6}) \<and>
   (\<exists>ft'. alloc_clusters ramdisk_ops 4 vol_fat = (Err FE_NoSpace, ft') \<and>
      (\<forall>c \<in> fat_clusters vol_fat. fat_next rd_blk ft' c = fat_next rd_blk vol_fat c))"
  using alloc_clusters_all_or_nothing [OF ramdisk.block_device_axioms vol_fat_wf, of 3]
    alloc_clusters_all_or_nothing [OF ramdisk.block_device_axioms vol_fat_wf, of 4]
  unfolding vol_card_free vol_fat_free by auto

text \<open>
  C15. \<open>extend_chain\<close> on the last cluster of a chain appends new, previously free clusters to that
  chain, and changes the entry of no other cluster.
\<close>

theorem extend_chain_appends:
  assumes "block_device dev dinv blk" and "fat_wf dev dinv blk ft" and "count \<le> card (fat_free blk ft)"
    and "chain_end e" and "e \<noteq> FAT_FREE" and "fat_path (fat_next blk ft) (fat_clusters ft) s (xs @ [y]) e"
  shows "\<exists>new ft'. extend_chain dev y count ft = (Ok new, ft') \<and> length new = count \<and>
    set new \<subseteq> fat_free blk ft \<and> read_chain dev ft' s = Ok (xs @ [y] @ new) \<and> fat_wf dev dinv blk ft' \<and>
    (\<forall>c \<in> fat_clusters ft - set new - {y}. fat_next blk ft' c = fat_next blk ft c)"
proof -
  obtain new ft' where new: "extend_chain dev y count ft = (Ok new, ft')" "length new = count"
    "set new \<subseteq> fat_free blk ft" "fat_wf dev dinv blk ft'" "fat_ext dev dinv blk ft ft'"
    "fat_path (fat_next blk ft') (fat_clusters ft) s (xs @ [y] @ new) (if count = 0 then e else FAT_EOC)"
    "\<forall>c \<in> fat_clusters ft - set new - {y}. fat_next blk ft' c = fat_next blk ft c"
    using block_device.extend_chain_ok [OF assms] by blast
  have "read_chain dev ft' s = Ok (xs @ [y] @ new)"
    unfolding block_device.read_chain_iff [OF assms(1) fat_wf_geom [OF new(4)]] fat_chain_def
      fat_ext_clusters [OF new(5)]
    using new(6) chain_end_EOC assms(4) by metis
  then show ?thesis using new by blast
qed

theorem extend_chain_appends_witness:
  "\<exists>new ft'. extend_chain ramdisk_ops 3 2 vol_fat = (Ok new, ft') \<and> length new = 2 \<and>
     read_chain ramdisk_ops ft' 2 = Ok ([2] @ [3] @ new)"
  using extend_chain_appends [OF ramdisk.block_device_axioms vol_fat_wf, of 2 FAT_EOC 2 "[2]" 3] vol_fat_path
  unfolding vol_card_free by auto

text \<open>
  C18. \<open>truncate_chain\<close> to \<open>k\<close> clusters keeps exactly the first \<open>k\<close> clusters of the chain, gives back the
  others, and changes no other entry; with \<open>k = 0\<close> the whole chain is given back.
\<close>

theorem truncate_chain_keeps_prefix:
  assumes "block_device dev dinv blk" and "fat_wf dev dinv blk ft" and "chain_end e" and "e \<noteq> FAT_FREE"
    and "fat_path (fat_next blk ft) (fat_clusters ft) s cs e" and "k < length cs"
  shows "\<exists>ft'. truncate_chain dev s k ft = (Ok (), ft') \<and> fat_wf dev dinv blk ft' \<and>
    (0 < k \<longrightarrow> read_chain dev ft' s = Ok (take k cs)) \<and>
    fat_free blk ft' = fat_free blk ft \<union> set (drop k cs) \<and>
    (\<forall>c \<in> fat_clusters ft - set cs. fat_next blk ft' c = fat_next blk ft c)"
proof -
  obtain ft' where ft': "truncate_chain dev s k ft = (Ok (), ft')"
    and step: "fat_step dev dinv blk ft ft' (\<lambda>c. if c \<in> set (drop k cs) then FAT_FREE
      else if 0 < k \<and> c = cs ! (k - 1) then FAT_EOC else fat_next blk ft c)"
    and path: "0 < k \<longrightarrow> fat_path (fat_next blk ft') (fat_clusters ft) s (take k cs) FAT_EOC"
    using block_device.truncate_chain_ok [OF assms] by blast
  note D = fat_stepD [OF step]
  have proper: "proper_clusters (fat_clusters ft)" using fat_clusters_proper [OF fat_wf_geom [OF assms(2)]] .
  have sub: "set (drop k cs) \<subseteq> fat_clusters ft"
    by (rule order_trans [OF set_drop_subset fat_path_subset [OF assms(5)]])
  have last: "0 < k \<Longrightarrow> cs ! (k - 1) \<in> set cs \<and> fat_next blk ft (cs ! (k - 1)) \<noteq> FAT_FREE"
    using fat_path_used [OF proper assms(4,5), of "cs ! (k - 1)"] assms(6) by simp
  have "0 < k \<longrightarrow> read_chain dev ft' s = Ok (take k cs)"
    unfolding block_device.read_chain_iff [OF assms(1) fat_wf_geom [OF D(1)]] fat_chain_def D(3)
    using path chain_end_EOC by blast
  moreover have "fat_free blk ft' = fat_free blk ft \<union> set (drop k cs)"
    unfolding D(5) using sub last by (auto simp: fat_free_def split: if_splits)
  moreover have "fat_next blk ft' c = fat_next blk ft c" if "c \<in> fat_clusters ft - set cs" for c
    using D(4) [of c] that last in_set_dropD [of c k cs] by auto
  ultimately show ?thesis using ft' D(1) by blast
qed

theorem truncate_chain_keeps_prefix_witness:
  "\<exists>ft'. truncate_chain ramdisk_ops 2 1 vol_fat = (Ok (), ft') \<and> read_chain ramdisk_ops ft' 2 = Ok [2] \<and>
     fat_free rd_blk ft' = {3, 4, 5, 6}"
  using truncate_chain_keeps_prefix [OF ramdisk.block_device_axioms vol_fat_wf chain_end_EOC EOC_used vol_fat_path, of 1]
  by (auto simp: vol_fat_free)

text \<open>
  C15. On a consistent volume \<open>count_free_clusters\<close> returns the number of free clusters, and giving back
  a chain of \<open>n\<close> clusters makes the count grow by exactly \<open>n\<close>: nothing is leaked and nothing is freed
  twice.
\<close>

theorem count_free_after_free_chain:
  assumes "block_device dev dinv blk" and "fat_wf dev dinv blk ft" and "chain_end e" and "e \<noteq> FAT_FREE"
    and "fat_path (fat_next blk ft) (fat_clusters ft) s cs e"
  shows "\<exists>n ft1 ft2 n' ft3. count_free_clusters dev ft = (Ok n, ft1) \<and> free_chain dev s ft1 = (Ok (), ft2) \<and>
    fat_wf dev dinv blk ft2 \<and> count_free_clusters dev ft2 = (Ok n', ft3) \<and>
    unat n = card (fat_free blk ft) \<and> unat n' = unat n + length cs"
proof -
  have proper: "proper_clusters (fat_clusters ft)" using fat_clusters_proper [OF fat_wf_geom [OF assms(2)]] .
  obtain n where n: "count_free_clusters dev ft = (Ok n, ft\<lparr>ft_free_count := Some n\<rparr>)"
    "unat n = card (fat_free blk ft)" "fat_wf dev dinv blk (ft\<lparr>ft_free_count := Some n\<rparr>)"
    using block_device.count_free_clusters_ok [OF assms(1,2)] by blast
  define ft1 where "ft1 = ft\<lparr>ft_free_count := Some n\<rparr>"
  have path: "fat_path (fat_next blk ft1) (fat_clusters ft1) s cs e" using assms(5) by (simp add: ft1_def)
  obtain ft2 where ft2: "free_chain dev s ft1 = (Ok (), ft2)"
    and step: "fat_step dev dinv blk ft1 ft2 (\<lambda>c. if c \<in> set cs then FAT_FREE else fat_next blk ft1 c)"
    using block_device.free_chain_ok [OF assms(1) n(3) [folded ft1_def] assms(3,4) path] by blast
  note D = fat_stepD [OF step]
  have "fat_free blk ft2 = fat_free blk ft \<union> set cs"
    unfolding D(5) using fat_path_subset [OF path] by (auto simp: fat_free_def ft1_def split: if_splits)
  moreover have "fat_free blk ft \<inter> set cs = {}"
    using fat_path_used [OF proper assms(4,5)] by (auto simp: fat_free_def)
  moreover have "card (set cs) = length cs"
    using fat_path_distinct [OF proper assms(3,5)] by (rule distinct_card)
  ultimately have "card (fat_free blk ft2) = card (fat_free blk ft) + length cs"
    by (simp add: card_Un_disjoint)
  then show ?thesis
    using block_device.count_free_clusters_ok [OF assms(1) D(1)] n ft2 D(1) unfolding ft1_def by metis
qed

theorem count_free_after_free_chain_witness:
  "\<exists>n ft1 ft2 n' ft3. count_free_clusters ramdisk_ops vol_fat = (Ok n, ft1) \<and>
     free_chain ramdisk_ops 2 ft1 = (Ok (), ft2) \<and> count_free_clusters ramdisk_ops ft2 = (Ok n', ft3) \<and>
     unat n = 3 \<and> unat n' = 5"
  using count_free_after_free_chain [OF ramdisk.block_device_axioms vol_fat_wf chain_end_EOC EOC_used vol_fat_path]
  unfolding vol_card_free by fastforce

end
