(* ===== verification/Rust_Str.thy ===== *)
theory Rust_Str
  imports Prelude "HOL-Library.Sublist"
begin

text \<open>
  The parts of Rust's string library the file systems use. A \<open>str\<close> is the sequence of its UTF-8
  bytes, so \<^typ>\<open>string\<close> models it byte by byte: lengths, slicing at an ASCII character and ASCII case
  folding act on the bytes, and the functions below go between bytes, code points and UTF-16 units.
\<close>

section \<open>Searching and splitting\<close>

text \<open>\<open>str::split(c)\<close>, \<open>str::rfind(c)\<close>, \<open>str::starts_with\<close>.\<close>

fun split_on :: "char \<Rightarrow> string \<Rightarrow> string list" where
  "split_on c [] = [[]]"
| "split_on c (x # xs) =
     (if x = c then [] # split_on c xs
      else case split_on c xs of [] \<Rightarrow> [[x]] | w # ws \<Rightarrow> (x # w) # ws)"

definition rfind :: "char \<Rightarrow> string \<Rightarrow> nat option" where
  "rfind c s = map_option (\<lambda>i. length s - 1 - i) (position (\<lambda>x. x = c) (rev s))"

definition starts_with :: "string \<Rightarrow> string \<Rightarrow> bool" where
  "starts_with s pre \<longleftrightarrow> prefix pre s"

lemma split_on_ne [simp]: "split_on c s \<noteq> []"
  by (induction s) (auto split: list.splits)

lemma split_on_free: "w \<in> set (split_on c s) \<Longrightarrow> c \<notin> set w"
proof (induction s arbitrary: w)
  case (Cons x xs)
  then show ?case by (cases "split_on c xs") (auto split: if_splits)
qed simp

lemma split_on_word [simp]: "c \<notin> set w \<Longrightarrow> split_on c w = [w]"
  by (induction w) auto

lemma split_on_append: "c \<notin> set w \<Longrightarrow> split_on c (w @ c # s) = w # split_on c s"
  by (induction w) auto

lemma rfind_append: "c \<notin> set w \<Longrightarrow> rfind c (u @ c # w) = Some (length u)"
proof -
  assume w: "c \<notin> set w"
  have "position (\<lambda>x. x = c) (v @ c # r) = Some (length v)" if "c \<notin> set v" for v r
    using that by (induction v) auto
  then show ?thesis using w by (simp add: rfind_def)
qed


section \<open>Code points\<close>

definition REPLACEMENT_CHARACTER :: nat where "REPLACEMENT_CHARACTER = 0xFFFD"

text \<open>\<open>char::encode_utf8\<close>\<close>

definition encode_utf8 :: "nat \<Rightarrow> string" where
  "encode_utf8 c =
     map char_of
       (if c < 0x80 then [c]
        else if c < 0x800 then [0xC0 + c div 64, 0x80 + c mod 64]
        else if c < 0x10000 then [0xE0 + c div 4096, 0x80 + c div 64 mod 64, 0x80 + c mod 64]
        else [0xF0 + c div 262144, 0x80 + c div 4096 mod 64, 0x80 + c div 64 mod 64, 0x80 + c mod 64])"

text \<open>\<open>str::chars\<close>: the first byte gives the length of the sequence.\<close>

definition cont_bits :: "string \<Rightarrow> nat \<Rightarrow> nat" where
  "cont_bits s i = (if i < length s then of_char (s ! i) mod 64 else 0)"

fun str_chars :: "string \<Rightarrow> nat list" where
  "str_chars [] = []"
| "str_chars (a # s) =
     (let x = of_char a
      in if x < 0x80 then x # str_chars s
         else if x < 0xE0 then (x mod 32 * 64 + cont_bits s 0) # str_chars (drop 1 s)
         else if x < 0xF0 then (x mod 16 * 4096 + cont_bits s 0 * 64 + cont_bits s 1) # str_chars (drop 2 s)
         else (x mod 8 * 262144 + cont_bits s 0 * 4096 + cont_bits s 1 * 64 + cont_bits s 2) # str_chars (drop 3 s))"


section \<open>Lossy conversions\<close>

text \<open>
  \<open>String::from_utf8_lossy\<close>: a well-formed sequence is kept, a maximal ill-formed prefix of one becomes
  a replacement character. \<open>utf8_chunk\<close> tells whether the bytes start with a well-formed sequence, and
  how many bytes are consumed.
\<close>

definition is_cont :: "nat \<Rightarrow> bool" where
  "is_cont b \<longleftrightarrow> 0x80 \<le> b \<and> b \<le> 0xBF"

definition second_ok :: "nat \<Rightarrow> nat \<Rightarrow> bool" where
  "second_ok b b1 \<longleftrightarrow>
     (if b = 0xE0 then 0xA0 \<le> b1 \<and> b1 \<le> 0xBF
      else if b = 0xED then 0x80 \<le> b1 \<and> b1 \<le> 0x9F
      else if b = 0xF0 then 0x90 \<le> b1 \<and> b1 \<le> 0xBF
      else if b = 0xF4 then 0x80 \<le> b1 \<and> b1 \<le> 0x8F
      else is_cont b1)"

definition utf8_chunk :: "nat list \<Rightarrow> bool \<times> nat" where
  "utf8_chunk bs =
     (let get = (\<lambda>i. if i < length bs then bs ! i else 0); b = get 0
      in if b < 0x80 then (True, 1)
         else if 0xC2 \<le> b \<and> b \<le> 0xDF then (if is_cont (get 1) then (True, 2) else (False, 1))
         else if 0xE0 \<le> b \<and> b \<le> 0xEF then
           (if \<not> second_ok b (get 1) then (False, 1)
            else if is_cont (get 2) then (True, 3) else (False, 2))
         else if 0xF0 \<le> b \<and> b \<le> 0xF4 then
           (if \<not> second_ok b (get 1) then (False, 1)
            else if \<not> is_cont (get 2) then (False, 2)
            else if is_cont (get 3) then (True, 4) else (False, 3))
         else (False, 1))"

fun utf8_lossy :: "nat list \<Rightarrow> string" where
  "utf8_lossy [] = []"
| "utf8_lossy (b # bs) =
     (case utf8_chunk (b # bs) of (ok, n) \<Rightarrow>
        (if ok then map char_of (take n (b # bs)) else encode_utf8 REPLACEMENT_CHARACTER) @
        utf8_lossy (drop (n - 1) bs))"

definition from_utf8_lossy :: "bytes \<Rightarrow> string" where
  "from_utf8_lossy bs = utf8_lossy (map unat bs)"

text \<open>\<open>String::from_utf16_lossy\<close>: a surrogate without its partner becomes a replacement character.\<close>

fun decode_utf16 :: "nat list \<Rightarrow> nat list" where
  "decode_utf16 [] = []"
| "decode_utf16 (u # us) =
     (if u < 0xD800 \<or> 0xDFFF < u then u # decode_utf16 us
      else if 0xDC00 \<le> u then REPLACEMENT_CHARACTER # decode_utf16 us
      else (case us of
              v # vs \<Rightarrow>
                if 0xDC00 \<le> v \<and> v \<le> 0xDFFF
                then (0x10000 + (u - 0xD800) * 0x400 + (v - 0xDC00)) # decode_utf16 vs
                else REPLACEMENT_CHARACTER # decode_utf16 us
            | [] \<Rightarrow> [REPLACEMENT_CHARACTER]))"

definition from_utf16_lossy :: "u16 list \<Rightarrow> string" where
  "from_utf16_lossy us = concat (map encode_utf8 (decode_utf16 (map unat us)))"


section \<open>ASCII case\<close>

definition ascii_upper :: "nat \<Rightarrow> nat" where
  "ascii_upper c = (if 97 \<le> c \<and> c \<le> 122 then c - 32 else c)"

definition ascii_lower :: "char \<Rightarrow> char" where
  "ascii_lower c = (let x = of_char c :: nat in if 65 \<le> x \<and> x \<le> 90 then char_of (x + 32) else c)"

definition eq_ignore_ascii_case :: "string \<Rightarrow> string \<Rightarrow> bool" where
  "eq_ignore_ascii_case a b \<longleftrightarrow> map ascii_lower a = map ascii_lower b"


section \<open>ASCII strings\<close>

definition is_ascii :: "string \<Rightarrow> bool" where
  "is_ascii s \<longleftrightarrow> (\<forall>c \<in> set s. of_char c < (128 :: nat))"

lemma is_ascii_simps [simp]:
  "is_ascii []" "is_ascii (c # s) \<longleftrightarrow> of_char c < (128 :: nat) \<and> is_ascii s"
  "is_ascii (s @ t) \<longleftrightarrow> is_ascii s \<and> is_ascii t"
  by (auto simp: is_ascii_def)

lemma is_ascii_subset: "is_ascii s \<Longrightarrow> set t \<subseteq> set s \<Longrightarrow> is_ascii t"
  by (auto simp: is_ascii_def)

lemma str_chars_ascii: "is_ascii s \<Longrightarrow> str_chars s = map of_char s"
  by (induction s) auto

lemma utf8_lossy_ascii: "\<forall>b \<in> set bs. b < 128 \<Longrightarrow> utf8_lossy bs = map char_of bs"
  by (induction bs) (auto simp: utf8_chunk_def)

lemma from_utf8_lossy_ascii: "\<forall>b \<in> set bs. unat b < 128 \<Longrightarrow> from_utf8_lossy bs = map (\<lambda>b. char_of (unat b)) bs"
  by (simp add: from_utf8_lossy_def utf8_lossy_ascii)

lemma decode_utf16_plain: "\<forall>u \<in> set us. u < 0xD800 \<Longrightarrow> decode_utf16 us = us"
  by (induction us rule: decode_utf16.induct) auto

lemma from_utf16_lossy_ascii:
  assumes "\<forall>u \<in> set us. unat u < 128"
  shows "from_utf16_lossy us = map (\<lambda>u. char_of (unat u)) us"
proof -
  have "decode_utf16 (map unat us) = map unat us" using assms by (intro decode_utf16_plain) auto
  moreover have "encode_utf8 (unat u) = [char_of (unat u)]" if "u \<in> set us" for u
    using assms that by (simp add: encode_utf8_def)
  ultimately show ?thesis using assms by (induction us) (simp_all add: from_utf16_lossy_def)
qed

text \<open>Case folding is an equivalence, and upper case differs from its original only in case.\<close>

lemma eq_ignore_ascii_case_refl [simp]: "eq_ignore_ascii_case a a"
  by (simp add: eq_ignore_ascii_case_def)

lemma eq_ignore_ascii_case_sym: "eq_ignore_ascii_case a b \<longleftrightarrow> eq_ignore_ascii_case b a"
  by (auto simp: eq_ignore_ascii_case_def)

lemma eq_ignore_ascii_case_trans:
  "eq_ignore_ascii_case a b \<Longrightarrow> eq_ignore_ascii_case b c \<Longrightarrow> eq_ignore_ascii_case a c"
  by (simp add: eq_ignore_ascii_case_def)

lemma ascii_lower_upper: "ascii_lower (char_of (ascii_upper (of_char c))) = ascii_lower c"
proof -
  have "(of_char c :: nat) < 256" by simp
  then show ?thesis by (auto simp: ascii_lower_def ascii_upper_def Let_def)
qed

end
