(* ===== verification/Fat_Dir.thy ===== *)
theory Fat_Dir
  imports Fat_Boot Rust_Str "HOL-Library.Multiset"
begin

text \<open>
  The directory entries of \<open>src/fs/fat32/dir.rs\<close>: the 32-byte short entry and its encoding, the 8.3
  name, the long-name entry and the assembly of a long name. The byte arrays of fixed length are
  lists; every operation keeps their lengths.
\<close>

section \<open>Short entries\<close>

record DirEntry =
  de_name :: bytes
  de_ext :: bytes
  de_attr :: u8
  de_nt_res :: u8
  de_crt_time_tenth :: u8
  de_crt_time :: u16
  de_crt_date :: u16
  de_lst_acc_date :: u16
  de_fst_clus_hi :: u16
  de_wrt_time :: u16
  de_wrt_date :: u16
  de_fst_clus_lo :: u16
  de_file_size :: u32

definition READ_ONLY :: u8 where "READ_ONLY = 0x01"
definition HIDDEN :: u8 where "HIDDEN = 0x02"
definition SYSTEM :: u8 where "SYSTEM = 0x04"
definition VOLUME_ID :: u8 where "VOLUME_ID = 0x08"
definition DIRECTORY :: u8 where "DIRECTORY = 0x10"
definition ARCHIVE :: u8 where "ARCHIVE = 0x20"
definition LONG_NAME :: u8 where "LONG_NAME = READ_ONLY OR HIDDEN OR SYSTEM OR VOLUME_ID"
definition LONG_NAME_MASK :: u8 where
  "LONG_NAME_MASK = READ_ONLY OR HIDDEN OR SYSTEM OR VOLUME_ID OR DIRECTORY OR ARCHIVE"

definition DirEntry_empty :: DirEntry where
  "DirEntry_empty =
     \<lparr>de_name = replicate 8 0, de_ext = replicate 3 0, de_attr = 0, de_nt_res = 0, de_crt_time_tenth = 0,
      de_crt_time = 0, de_crt_date = 0, de_lst_acc_date = 0, de_fst_clus_hi = 0, de_wrt_time = 0,
      de_wrt_date = 0, de_fst_clus_lo = 0, de_file_size = 0\<rparr>"

definition de_is_empty :: "DirEntry \<Rightarrow> bool" where
  "de_is_empty e \<longleftrightarrow> de_name e ! 0 = 0x00"

definition de_is_deleted :: "DirEntry \<Rightarrow> bool" where
  "de_is_deleted e \<longleftrightarrow> de_name e ! 0 = 0xE5"

definition de_is_valid :: "DirEntry \<Rightarrow> bool" where
  "de_is_valid e \<longleftrightarrow> \<not> de_is_empty e \<and> \<not> de_is_deleted e"

definition is_lfn :: "DirEntry \<Rightarrow> bool" where
  "is_lfn e \<longleftrightarrow> de_attr e AND LONG_NAME_MASK = LONG_NAME"

definition is_dir :: "DirEntry \<Rightarrow> bool" where
  "is_dir e \<longleftrightarrow> de_attr e AND DIRECTORY \<noteq> 0"

definition is_volume_label :: "DirEntry \<Rightarrow> bool" where
  "is_volume_label e \<longleftrightarrow> de_attr e AND VOLUME_ID \<noteq> 0 \<and> \<not> is_lfn e"

definition de_cluster :: "DirEntry \<Rightarrow> u32" where
  "de_cluster e = push_bit 16 (ucast (de_fst_clus_hi e)) OR ucast (de_fst_clus_lo e)"

definition set_cluster :: "u32 \<Rightarrow> DirEntry \<Rightarrow> DirEntry" where
  "set_cluster cluster e =
     e\<lparr>de_fst_clus_hi := ucast (drop_bit 16 cluster), de_fst_clus_lo := ucast (cluster AND 0xFFFF)\<rparr>"

text \<open>The bytes of a padded field up to the first space or zero.\<close>

definition field_text :: "nat \<Rightarrow> bytes \<Rightarrow> bytes" where
  "field_text n bs = take (case position (\<lambda>c. c = 0x20 \<or> c = 0) bs of Some e \<Rightarrow> e | None \<Rightarrow> n) bs"

definition short_name :: "DirEntry \<Rightarrow> string" where
  "short_name e =
     (let name = field_text 8 (de_name e); ext = field_text 3 (de_ext e)
      in if ext = [] then from_utf8_lossy name
         else from_utf8_lossy name @ ''.'' @ from_utf8_lossy ext)"

definition split_ext :: "string \<Rightarrow> string \<times> string" where
  "split_ext name =
     (case rfind CHR ''.'' name of
        Some dot_pos \<Rightarrow> (take dot_pos name, drop (dot_pos + 1) name)
      | None \<Rightarrow> (name, []))"

text \<open>The first \<open>n\<close> characters in upper case, cut to a byte each, padded with spaces.\<close>

definition pad_upper :: "nat \<Rightarrow> string \<Rightarrow> bytes" where
  "pad_upper n s = overwrite (replicate n 0x20) 0 (map (\<lambda>c. of_nat (ascii_upper c)) (take n (str_chars s)))"

definition set_name :: "string \<Rightarrow> DirEntry \<Rightarrow> DirEntry" where
  "set_name name e =
     (case split_ext name of (base, ext) \<Rightarrow> e\<lparr>de_name := pad_upper 8 base, de_ext := pad_upper 3 ext\<rparr>)"

definition new_file :: "string \<Rightarrow> u32 \<Rightarrow> u32 \<Rightarrow> DirEntry" where
  "new_file name cluster file_size =
     (set_cluster cluster (set_name name DirEntry_empty))\<lparr>de_file_size := file_size, de_attr := ARCHIVE\<rparr>"

definition new_dir :: "string \<Rightarrow> u32 \<Rightarrow> DirEntry" where
  "new_dir name cluster = (set_cluster cluster (set_name name DirEntry_empty))\<lparr>de_attr := DIRECTORY\<rparr>"

definition is_dot :: "DirEntry \<Rightarrow> bool" where
  "is_dot e \<longleftrightarrow> de_name e ! 0 = 0x2E \<and> de_name e ! 1 = 0x20"

definition is_dotdot :: "DirEntry \<Rightarrow> bool" where
  "is_dotdot e \<longleftrightarrow> de_name e ! 0 = 0x2E \<and> de_name e ! 1 = 0x2E"

definition dot_entry :: "u32 \<Rightarrow> DirEntry" where
  "dot_entry cluster =
     set_cluster cluster (DirEntry_empty\<lparr>de_name := 0x2E # replicate 7 0x20, de_ext := replicate 3 0x20,
       de_attr := DIRECTORY\<rparr>)"

definition dotdot_entry :: "u32 \<Rightarrow> DirEntry" where
  "dotdot_entry parent_cluster =
     set_cluster parent_cluster (DirEntry_empty\<lparr>de_name := 0x2E # 0x2E # replicate 6 0x20,
       de_ext := replicate 3 0x20, de_attr := DIRECTORY\<rparr>)"

definition mark_deleted :: "DirEntry \<Rightarrow> DirEntry" where
  "mark_deleted e = e\<lparr>de_name := (de_name e)[0 := 0xE5]\<rparr>"

definition to_bytes :: "DirEntry \<Rightarrow> bytes" where
  "to_bytes e =
     de_name e @ de_ext e @ [de_attr e, de_nt_res e, de_crt_time_tenth e] @
     u16_to_le_bytes (de_crt_time e) @ u16_to_le_bytes (de_crt_date e) @
     u16_to_le_bytes (de_lst_acc_date e) @ u16_to_le_bytes (de_fst_clus_hi e) @
     u16_to_le_bytes (de_wrt_time e) @ u16_to_le_bytes (de_wrt_date e) @
     u16_to_le_bytes (de_fst_clus_lo e) @ u32_to_le_bytes (de_file_size e)"

definition DirEntry_from_bytes :: "bytes \<Rightarrow> DirEntry option" where
  "DirEntry_from_bytes bs =
     (if length bs < 32 then None
      else Some
        \<lparr>de_name = take 8 bs, de_ext = take 3 (drop 8 bs), de_attr = bs ! 11, de_nt_res = bs ! 12,
         de_crt_time_tenth = bs ! 13, de_crt_time = read_u16 bs 14, de_crt_date = read_u16 bs 16,
         de_lst_acc_date = read_u16 bs 18, de_fst_clus_hi = read_u16 bs 20, de_wrt_time = read_u16 bs 22,
         de_wrt_date = read_u16 bs 24, de_fst_clus_lo = read_u16 bs 26, de_file_size = read_u32 bs 28\<rparr>)"


section \<open>Long-name entries\<close>

record LfnEntry =
  lfn_order :: u8
  lfn_name1 :: "u16 list"
  lfn_attr :: u8
  lfn_type :: u8
  lfn_checksum :: u8
  lfn_name2 :: "u16 list"
  lfn_fst_clus_lo :: u16
  lfn_name3 :: "u16 list"

definition LAST_ENTRY :: u8 where "LAST_ENTRY = 0x40"

definition LfnEntry_from_bytes :: "bytes \<Rightarrow> LfnEntry option" where
  "LfnEntry_from_bytes bs =
     (if length bs < 32 then None
      else Some
        \<lparr>lfn_order = bs ! 0, lfn_name1 = map (\<lambda>i. read_u16 bs (1 + i * 2)) [0..<5],
         lfn_attr = bs ! 11, lfn_type = bs ! 12, lfn_checksum = bs ! 13,
         lfn_name2 = map (\<lambda>i. read_u16 bs (14 + i * 2)) [0..<6], lfn_fst_clus_lo = read_u16 bs 26,
         lfn_name3 = map (\<lambda>i. read_u16 bs (28 + i * 2)) [0..<2]\<rparr>)"

definition lfn_sum :: "bytes \<Rightarrow> u8" where
  "lfn_sum name = fold (\<lambda>b s. drop_bit 1 s + push_bit 7 s + b) name 0"

definition is_last :: "LfnEntry \<Rightarrow> bool" where
  "is_last l \<longleftrightarrow> lfn_order l AND LAST_ENTRY \<noteq> 0"

definition lfn_sequence :: "LfnEntry \<Rightarrow> u8" where
  "lfn_sequence l = lfn_order l AND 0x1F"

definition lfn_units :: "u16 list \<Rightarrow> u16 list" where
  "lfn_units us = takeWhile (\<lambda>c. \<not> (c = 0 \<or> c = 0xFFFF)) us"

definition get_name_part :: "LfnEntry \<Rightarrow> string" where
  "get_name_part l =
     from_utf16_lossy (lfn_units (lfn_name1 l) @ lfn_units (lfn_name2 l) @ lfn_units (lfn_name3 l))"

definition extract_lfn_name :: "LfnEntry list \<Rightarrow> string" where
  "extract_lfn_name ls =
     concat (map snd (sort_key fst (map (\<lambda>l. (lfn_sequence l, get_name_part l)) ls)))"


section \<open>Encoding of entries\<close>

definition entry_wf :: "DirEntry \<Rightarrow> bool" where
  "entry_wf e \<longleftrightarrow> length (de_name e) = 8 \<and> length (de_ext e) = 3"

lemma length_to_bytes [simp]: "entry_wf e \<Longrightarrow> length (to_bytes e) = 32"
  by (simp add: entry_wf_def to_bytes_def)

lemma to_bytes_marks:
  assumes "entry_wf e"
  shows "to_bytes e ! 0 = de_name e ! 0" "to_bytes e ! 11 = de_attr e"
  using assms by (simp_all add: to_bytes_def entry_wf_def nth_append)

lemma length_pad_upper [simp]: "length (pad_upper n s) = n"
  by (simp add: pad_upper_def)

lemma entry_wf_ops [simp]:
  "entry_wf DirEntry_empty" "entry_wf (set_name name e)" "entry_wf (new_file name c n)" "entry_wf (new_dir name c)"
  "entry_wf (dot_entry c)" "entry_wf (dotdot_entry c)"
  "entry_wf (set_cluster c e) = entry_wf e" "entry_wf (mark_deleted e) = entry_wf e"
  "entry_wf (e\<lparr>de_file_size := n\<rparr>) = entry_wf e"
  by (simp_all add: entry_wf_def DirEntry_empty_def set_name_def new_file_def new_dir_def dot_entry_def
      dotdot_entry_def set_cluster_def mark_deleted_def split: prod.splits)

lemma from_bytes_wf: "DirEntry_from_bytes bs = Some e \<Longrightarrow> entry_wf e"
  by (auto simp: DirEntry_from_bytes_def entry_wf_def split: if_splits)

lemma read_u16_append:
  "length xs = n \<Longrightarrow> read_u16 (xs @ a # b # ys) n = u16_from_le_bytes a b"
  by (auto simp: read_u16_def nth_append)

lemma length_8_cases:
  assumes "length xs = 8"
  obtains a b c d e f g h where "xs = [a, b, c, d, e, f, g, h]"
  using assms by (auto simp: numeral_eq_Suc length_Suc_conv)

lemma length_3_cases:
  assumes "length xs = 3"
  obtains a b c where "xs = [a, b, c]"
  using assms by (auto simp: numeral_eq_Suc length_Suc_conv)

lemma from_bytes_to_bytes:
  assumes "entry_wf e"
  shows "DirEntry_from_bytes (to_bytes e @ rest) = Some e"
proof -
  have len: "length (de_name e) = 8" "length (de_ext e) = 3" using assms by (simp_all add: entry_wf_def)
  obtain n1 n2 n3 n4 n5 n6 n7 n8 where n: "de_name e = [n1, n2, n3, n4, n5, n6, n7, n8]"
    using len(1) by (rule length_8_cases)
  obtain x1 x2 x3 where x: "de_ext e = [x1, x2, x3]" using len(2) by (rule length_3_cases)
  show ?thesis
    using assms
    by (cases e) (use n x in \<open>simp add: DirEntry_from_bytes_def to_bytes_def u16_to_le_bytes_def u32_to_le_bytes_def read_u16_def read_u32_def\<close>)
qed

lemma to_bytes_from_bytes:
  assumes "DirEntry_from_bytes bs = Some e"
  shows "to_bytes e = take 32 bs"
proof -
  have len: "32 \<le> length bs" using assms by (auto simp: DirEntry_from_bytes_def split: if_splits)
  have e: "entry_wf e" using assms by (rule from_bytes_wf)
  have fields: "de_name e = take 8 bs" "de_ext e = take 3 (drop 8 bs)"
    "[de_attr e, de_nt_res e, de_crt_time_tenth e] = [bs ! 11, bs ! 12, bs ! 13]"
    "u16_to_le_bytes (de_crt_time e) = [bs ! 14, bs ! 15]" "u16_to_le_bytes (de_crt_date e) = [bs ! 16, bs ! 17]"
    "u16_to_le_bytes (de_lst_acc_date e) = [bs ! 18, bs ! 19]" "u16_to_le_bytes (de_fst_clus_hi e) = [bs ! 20, bs ! 21]"
    "u16_to_le_bytes (de_wrt_time e) = [bs ! 22, bs ! 23]" "u16_to_le_bytes (de_wrt_date e) = [bs ! 24, bs ! 25]"
    "u16_to_le_bytes (de_fst_clus_lo e) = [bs ! 26, bs ! 27]"
    "u32_to_le_bytes (de_file_size e) = [bs ! 28, bs ! 29, bs ! 30, bs ! 31]"
    using assms by (auto simp: DirEntry_from_bytes_def read_u16_def read_u32_def split: if_splits)
  have "take 32 bs = map (\<lambda>i. bs ! i) [0..<32]" using len by (simp add: list_eq_iff_nth_eq)
  moreover have "take 8 bs = map (\<lambda>i. bs ! i) [0..<8]" using len by (simp add: list_eq_iff_nth_eq)
  moreover have "take 3 (drop 8 bs) = [bs ! 8, bs ! 9, bs ! 10]"
    using len by (intro nth_equalityI) (auto simp: numeral_3_eq_3 less_Suc_eq)
  moreover have "[0..<32] = [0..<8] @ [8..<32]" using upt_add_eq_append [of 0 8 24] by simp
  ultimately show ?thesis unfolding to_bytes_def fields by simp
qed

lemma from_bytes_defined: "32 \<le> length bs \<Longrightarrow> \<exists>e. DirEntry_from_bytes bs = Some e"
  by (simp add: DirEntry_from_bytes_def)

lemma from_bytes_take: "DirEntry_from_bytes (take 32 bs) = DirEntry_from_bytes bs"
proof (cases "length bs < 32")
  case False
  then have "take 3 (drop 8 (take 32 bs)) = take 3 (drop 8 bs)" by (simp add: drop_take)
  then show ?thesis using False by (simp add: DirEntry_from_bytes_def read_u16_def read_u32_def)
qed simp

lemma cluster_set_cluster [simp]: "de_cluster (set_cluster c e) = c"
proof (rule bit_word_eqI)
  fix n assume "n < LENGTH(32)"
  moreover have "bit (0xFFFF :: u32) n \<longleftrightarrow> n < 16"
  proof -
    have "(0xFFFF :: u32) = mask 16" by (simp add: mask_eq_exp_minus_1)
    moreover have "bit (mask 16 :: u32) n \<longleftrightarrow> n < 16" by (auto simp: bit_mask_iff)
    ultimately show ?thesis by (simp only:)
  qed
  ultimately show "bit (de_cluster (set_cluster c e)) n = bit c n"
    by (cases "n < 16") (auto simp: de_cluster_def set_cluster_def bit_simps dest: bit_imp_le_length)
qed


section \<open>8.3 names\<close>

text \<open>
  The names the short entry can hold: a base of one to eight and an extension of one to three ASCII
  characters that are neither spaces nor zero, or no dot at all.
\<close>

definition plain_char :: "char \<Rightarrow> bool" where
  "plain_char c \<longleftrightarrow> of_char c < (128 :: nat) \<and> of_char c \<noteq> (32 :: nat) \<and> of_char c \<noteq> (0 :: nat)"

definition name_83 :: "string \<Rightarrow> bool" where
  "name_83 name \<longleftrightarrow>
     (case split_ext name of (base, ext) \<Rightarrow>
        base \<noteq> [] \<and> length base \<le> 8 \<and> length ext \<le> 3 \<and> (CHR ''.'' \<in> set name \<longrightarrow> ext \<noteq> []) \<and>
        list_all plain_char base \<and> list_all plain_char ext)"

definition upper_name :: "string \<Rightarrow> string" where
  "upper_name name = map (\<lambda>c. char_of (ascii_upper (of_char c))) name"

lemma split_ext_join:
  "split_ext name = (base, ext) \<Longrightarrow> name = (if CHR ''.'' \<in> set name then base @ ''.'' @ ext else base) \<and>
     (CHR ''.'' \<notin> set name \<longrightarrow> ext = [])"
proof -
  assume split: "split_ext name = (base, ext)"
  show ?thesis
  proof (cases "CHR ''.'' \<in> set name")
    case True
    then obtain u w where uw: "name = u @ CHR ''.'' # w" "CHR ''.'' \<notin> set w" using split_list_last by fast
    then show ?thesis using split rfind_append [of "CHR ''.''" w u] by (simp add: split_ext_def)
  next
    case False
    then have "rfind CHR ''.'' name = None" by (auto simp: rfind_def position_None_iff)
    then show ?thesis using split False by (simp add: split_ext_def)
  qed
qed

lemma plain_upper:
  assumes "plain_char c"
  shows "ascii_upper (of_char c) < 128" "ascii_upper (of_char c) \<noteq> 32" "ascii_upper (of_char c) \<noteq> 0"
  using assms by (auto simp: plain_char_def ascii_upper_def)

lemma field_text_pad_upper:
  assumes plain: "list_all plain_char s" and len: "length s \<le> n"
  shows "field_text n (pad_upper n s) = map (\<lambda>c. of_nat (ascii_upper (of_char c))) s"
proof -
  let ?bs = "map (\<lambda>c. of_nat (ascii_upper (of_char c))) s :: bytes"
  have "is_ascii s" using plain by (auto simp: is_ascii_def plain_char_def list_all_iff)
  then have pad: "pad_upper n s = ?bs @ replicate (n - length s) 0x20"
    using len by (simp add: pad_upper_def str_chars_ascii overwrite_def o_def)
  have ne: "b \<noteq> 0x20 \<and> b \<noteq> 0" if b: "b \<in> set ?bs" for b
  proof -
    obtain c where c: "c \<in> set s" "b = of_nat (ascii_upper (of_char c))" using b by auto
    then have "plain_char c" using plain by (auto simp: list_all_iff)
    from plain_upper [OF this] have "unat b = ascii_upper (of_char c)"
      unfolding c(2) by (intro unat_of_nat_small) simp
    then show ?thesis using plain_upper [OF \<open>plain_char c\<close>] by auto
  qed
  have pos: "position P (xs @ replicate k y) = (if k = 0 then None else Some (length xs))"
    if "\<forall>x \<in> set xs. \<not> P x" "P y" for P :: "u8 \<Rightarrow> bool" and xs k y
    using that by (induction xs) (cases k, auto)
  have "position (\<lambda>c. c = 0x20 \<or> c = 0) (?bs @ replicate (n - length s) 0x20) =
      (if n - length s = 0 then None else Some (length ?bs))"
    using ne by (intro pos) auto
  then show ?thesis unfolding pad field_text_def using len by auto
qed


lemma upper_text:
  assumes "list_all plain_char s"
  shows "from_utf8_lossy (map (\<lambda>c. of_nat (ascii_upper (of_char c))) s) = upper_name s"
proof -
  have small: "ascii_upper (of_char c) < 128" if "c \<in> set s" for c
    using assms that by (auto simp: list_all_iff plain_upper)
  have "unat (of_nat (ascii_upper (of_char c)) :: u8) = ascii_upper (of_char c)" if "c \<in> set s" for c
    using small [OF that] by (intro unat_of_nat_small) simp
  then show ?thesis using small by (subst from_utf8_lossy_ascii) (auto simp: upper_name_def)
qed

lemma upper_dot [simp]: "upper_name ''.'' = ''.''"
  by code_simp

lemma upper_name_append [simp]: "upper_name (s @ t) = upper_name s @ upper_name t"
  by (simp add: upper_name_def)

lemma eq_ignore_upper [simp]: "eq_ignore_ascii_case (upper_name s) s"
  by (simp add: eq_ignore_ascii_case_def upper_name_def ascii_lower_upper)

lemma short_name_set_name:
  assumes "name_83 name"
  shows "short_name (set_name name e) = upper_name name"
proof -
  obtain base ext where split: "split_ext name = (base, ext)" by fastforce
  have plain: "list_all plain_char base" "list_all plain_char ext" "length base \<le> 8" "length ext \<le> 3"
    and dot: "CHR ''.'' \<in> set name \<longrightarrow> ext \<noteq> []"
    using assms split by (simp_all add: name_83_def)
  note join = split_ext_join [OF split]
  have "field_text 8 (de_name (set_name name e)) = map (\<lambda>c. of_nat (ascii_upper (of_char c))) base"
    "field_text 3 (de_ext (set_name name e)) = map (\<lambda>c. of_nat (ascii_upper (of_char c))) ext"
    using field_text_pad_upper [OF plain(1,3)] field_text_pad_upper [OF plain(2,4)] split
    by (simp_all add: set_name_def)
  then have "short_name (set_name name e) =
      (if ext = [] then upper_name base else upper_name base @ ''.'' @ upper_name ext)"
    by (simp add: short_name_def upper_text [OF plain(1)] upper_text [OF plain(2)])
  also have "\<dots> = upper_name name"
  proof (cases "CHR ''.'' \<in> set name")
    case True
    then have "name = base @ ''.'' @ ext" "ext \<noteq> []" using join dot by auto
    then show ?thesis by (simp del: append_Cons append_Nil add: upper_name_append [of base] upper_name_append [of "''.''"])
  qed (use join in auto)
  finally show ?thesis .
qed

text \<open>The stored name never starts with one of the marks of a free slot.\<close>

lemma set_name_first:
  assumes "name_83 name"
  shows "de_name (set_name name e) ! 0 \<notin> {0, 0xE5}"
proof -
  obtain base ext where split: "split_ext name = (base, ext)" by fastforce
  then obtain c cs where c: "base = c # cs" "plain_char c" "list_all plain_char base"
    using assms by (cases base) (auto simp: name_83_def)
  have "is_ascii base" using c(3) by (auto simp: is_ascii_def plain_char_def list_all_iff)
  then have first: "de_name (set_name name e) ! 0 = of_nat (ascii_upper (of_char c))"
    using split c(1) by (simp add: set_name_def pad_upper_def overwrite_def str_chars_ascii)
  then have "unat (de_name (set_name name e) ! 0) = ascii_upper (of_char c)"
    using plain_upper(1) [OF c(2)] unfolding first by (intro unat_of_nat_small) simp
  then show ?thesis using plain_upper [OF c(2)] by auto
qed


section \<open>Long names\<close>

lemma short_list_unique: "mset xs = mset ys \<Longrightarrow> length ys \<le> 1 \<Longrightarrow> ys = xs"
  by (cases ys) auto

text \<open>The pieces of a long name are put in the order of their sequence numbers.\<close>

lemma extract_lfn_name_sorted:
  assumes perm: "mset ls = mset sorted_ls" and sorted: "sorted (map lfn_sequence sorted_ls)"
    and distinct: "distinct (map lfn_sequence sorted_ls)"
  shows "extract_lfn_name ls = concat (map get_name_part sorted_ls)"
proof -
  let ?f = "\<lambda>l. (lfn_sequence l, get_name_part l)"
  have "sort_key fst (map ?f ls) = map ?f sorted_ls"
  proof (rule properties_for_sort_key)
    show "mset (map ?f sorted_ls) = mset (map ?f ls)" using perm by simp
    show "sorted (map fst (map ?f sorted_ls))" using sorted by (simp add: o_def)
    fix k assume "k \<in> set (map ?f sorted_ls)"
    have "length (filter (\<lambda>x. fst k = fst x) ys) \<le> 1"
      if "distinct (map fst ys)" for ys :: "(u8 \<times> string) list"
      using that by (induction ys) (auto simp: filter_empty_conv image_iff)
    from this [of "map ?f sorted_ls"] have "length (filter (\<lambda>x. fst k = fst x) (map ?f sorted_ls)) \<le> 1"
      using distinct by (simp add: o_def)
    moreover have "mset (filter (\<lambda>x. fst k = fst x) (map ?f ls)) = mset (filter (\<lambda>x. fst k = fst x) (map ?f sorted_ls))"
      using perm by (simp only: mset_filter mset_map)
    ultimately show "filter (\<lambda>x. fst k = fst x) (map ?f sorted_ls) = filter (\<lambda>x. fst k = fst x) (map ?f ls)"
      by (intro short_list_unique) simp_all
  qed
  then show ?thesis by (simp add: extract_lfn_name_def o_def)
qed


lemma new_entry_fields [simp]:
  "de_name (new_file name c n) = de_name (set_name name DirEntry_empty)"
  "de_ext (new_file name c n) = de_ext (set_name name DirEntry_empty)"
  "de_name (new_dir name c) = de_name (set_name name DirEntry_empty)"
  "de_ext (new_dir name c) = de_ext (set_name name DirEntry_empty)"
  "de_attr (new_file name c n) = ARCHIVE" "de_attr (new_dir name c) = DIRECTORY"
  "de_cluster (new_file name c n) = c" "de_cluster (new_dir name c) = c"
  "de_file_size (new_file name c n) = n" "de_file_size (new_dir name c) = 0"
  using cluster_set_cluster [of c]
  by (simp_all add: new_file_def new_dir_def set_cluster_def set_name_def de_cluster_def DirEntry_empty_def
      split: prod.splits)

lemma short_name_new:
  "name_83 name \<Longrightarrow> short_name (new_file name c n) = upper_name name"
  "name_83 name \<Longrightarrow> short_name (new_dir name c) = upper_name name"
  using short_name_set_name [of name DirEntry_empty] by (simp_all add: short_name_def)


section \<open>Properties\<close>

text \<open>
  The 32-byte encoding of a directory entry and its decoding are inverse to each other, in both
  directions, whatever follows the entry in the buffer; only buffers shorter than an entry are refused.
\<close>

theorem dir_entry_round_trip:
  "(entry_wf e \<longrightarrow> length (to_bytes e) = 32 \<and> DirEntry_from_bytes (to_bytes e @ rest) = Some e) \<and>
   (DirEntry_from_bytes bs = None \<longleftrightarrow> length bs < 32) \<and>
   (\<forall>e'. DirEntry_from_bytes bs = Some e' \<longrightarrow> entry_wf e' \<and> to_bytes e' = take 32 bs)"
  using from_bytes_to_bytes to_bytes_from_bytes from_bytes_wf by (auto simp: DirEntry_from_bytes_def)

theorem dir_entry_round_trip_witness:
  "DirEntry_from_bytes (to_bytes (new_file ''A.TXT'' 70000 12)) = Some (new_file ''A.TXT'' 70000 12)"
  using dir_entry_round_trip [of "new_file ''A.TXT'' 70000 12" "[]" "[]"] by simp

text \<open>
  A new file entry holds what it was given: the cluster number is split over its two halves and
  read back exactly, and an 8.3 name (a base of up to eight and an extension of up to three plain
  ASCII characters) is read back in upper case, so it is equal to the given name up to case.
\<close>

theorem new_file_round_trip:
  assumes "name_83 name"
  shows "short_name (new_file name c n) = map (\<lambda>x. char_of (ascii_upper (of_char x))) name \<and>
    eq_ignore_ascii_case (short_name (new_file name c n)) name \<and>
    de_cluster (new_file name c n) = c \<and> de_file_size (new_file name c n) = n \<and>
    de_is_valid (new_file name c n) \<and> \<not> is_dir (new_file name c n) \<and> \<not> is_lfn (new_file name c n)"
  using short_name_new(1) [OF assms] set_name_first [OF assms] eq_ignore_upper [of name]
  by (auto simp: upper_name_def de_is_valid_def de_is_empty_def de_is_deleted_def is_dir_def is_lfn_def
      ARCHIVE_def DIRECTORY_def LONG_NAME_MASK_def LONG_NAME_def READ_ONLY_def HIDDEN_def SYSTEM_def VOLUME_ID_def)

theorem new_file_round_trip_witness: "short_name (new_file ''read.me'' 5 0) = ''READ.ME''"
proof -
  have "name_83 ''read.me''" "map (\<lambda>x. char_of (ascii_upper (of_char x))) ''read.me'' = ''READ.ME''" by code_simp+
  with new_file_round_trip [OF this(1), of 5 0] show ?thesis by simp
qed

text \<open>
  The pieces of a long name may stand in any order in the directory (they are stored last piece
  first): when their sequence numbers are different, the name is the concatenation of the pieces in
  the order of the sequence numbers.
\<close>

theorem long_name_in_sequence:
  assumes "mset ls = mset pieces" and "sorted (map lfn_sequence pieces)" and "distinct (map lfn_sequence pieces)"
  shows "extract_lfn_name ls = concat (map get_name_part pieces)"
  using assms by (rule extract_lfn_name_sorted)

definition lfn_sample :: "u8 \<Rightarrow> u16 \<Rightarrow> LfnEntry" where
  "lfn_sample k u = \<lparr>lfn_order = k, lfn_name1 = [u, u, 0, 0xFFFF, 0xFFFF], lfn_attr = LONG_NAME, lfn_type = 0,
     lfn_checksum = 0, lfn_name2 = [0xFFFF, 0xFFFF, 0xFFFF, 0xFFFF, 0xFFFF, 0xFFFF], lfn_fst_clus_lo = 0,
     lfn_name3 = [0xFFFF, 0xFFFF]\<rparr>"

theorem long_name_in_sequence_witness:
  "extract_lfn_name [lfn_sample 0x42 98, lfn_sample 1 97] = ''aabb''"
proof -
  let ?ls = "[lfn_sample 0x42 98, lfn_sample 1 97]" and ?pieces = "[lfn_sample 1 97, lfn_sample 0x42 98]"
  have "mset ?ls = mset ?pieces" "sorted (map lfn_sequence ?pieces)" "distinct (map lfn_sequence ?pieces)"
    by (simp_all add: lfn_sequence_def lfn_sample_def)
  note name = long_name_in_sequence [OF this]
  have "char_of (97::nat) = CHR ''a''" "char_of (98::nat) = CHR ''b''" by code_simp+
  then show ?thesis
    unfolding name by (simp add: get_name_part_def lfn_sample_def lfn_units_def from_utf16_lossy_ascii)
qed

end
