(* ===== verification/Vfs_Path.thy ===== *)
theory Vfs_Path
  imports Rust_Str
begin

text \<open>
  The virtual file system layer: the types of \<open>src/fs/mod.rs\<close>, the path functions of
  \<open>src/fs/path.rs\<close>, and the mount table. Strings are their UTF-8 bytes; the separators are ASCII, so the functions
  act on the bytes. A file system object (\<open>Arc<dyn VNode>\<close>) is a handle of a type \<open>'v\<close>; the path
  functions take the lookup method of the objects as an argument.
\<close>

section \<open>Types\<close>

datatype VfsError =
    NotFound | PermissionDenied | AlreadyExists | NotADirectory | IsADirectory | DirectoryNotEmpty
  | InvalidPath | VfsIoError | NoSpace | ReadOnly | NotSupported | InvalidArgument | FileBusy
  | NotMountPoint | SymlinkLoop | InvalidFormat | UnknownError

definition VfsError_fmt :: "VfsError \<Rightarrow> string" where
  "VfsError_fmt e = (case e of
     NotFound \<Rightarrow> ''not found'' | PermissionDenied \<Rightarrow> ''permission denied''
   | AlreadyExists \<Rightarrow> ''already exists'' | NotADirectory \<Rightarrow> ''not a directory''
   | IsADirectory \<Rightarrow> ''is a directory'' | DirectoryNotEmpty \<Rightarrow> ''directory not empty''
   | InvalidPath \<Rightarrow> ''invalid path'' | VfsIoError \<Rightarrow> ''I/O error'' | NoSpace \<Rightarrow> ''no space left''
   | ReadOnly \<Rightarrow> ''read-only filesystem'' | NotSupported \<Rightarrow> ''not supported''
   | InvalidArgument \<Rightarrow> ''invalid argument'' | FileBusy \<Rightarrow> ''file is busy''
   | NotMountPoint \<Rightarrow> ''not a mount point'' | SymlinkLoop \<Rightarrow> ''too many symbolic links''
   | InvalidFormat \<Rightarrow> ''invalid filesystem format'' | UnknownError \<Rightarrow> ''unknown error'')"

datatype VNodeType = VFile | VDirectory | VSymlink | VBlockDevice | VCharDevice | VFifo | VSocket

type_synonym FileMode = u32

definition FileMode_new :: "u32 \<Rightarrow> FileMode" where
  "FileMode_new mode = mode AND 0xFFF"

definition default_file :: FileMode where
  "default_file = 0x1A4"

definition default_dir :: FileMode where
  "default_dir = 0x1ED"

definition is_readable :: "FileMode \<Rightarrow> bool" where
  "is_readable mode = (mode AND 0x100 \<noteq> 0)"

definition is_writable :: "FileMode \<Rightarrow> bool" where
  "is_writable mode = (mode AND 0x80 \<noteq> 0)"

definition is_executable :: "FileMode \<Rightarrow> bool" where
  "is_executable mode = (mode AND 0x40 \<noteq> 0)"

record Stat =
  stat_node_type :: VNodeType
  stat_mode :: FileMode
  stat_size :: u64
  stat_nlink :: u32
  stat_uid :: u32
  stat_gid :: u32
  stat_blksize :: u32
  stat_blocks :: u64
  stat_atime :: u64
  stat_mtime :: u64
  stat_ctime :: u64

definition Stat_default :: Stat where
  "Stat_default =
     \<lparr>stat_node_type = VFile, stat_mode = default_file, stat_size = 0, stat_nlink = 1, stat_uid = 0,
      stat_gid = 0, stat_blksize = 512, stat_blocks = 0, stat_atime = 0, stat_mtime = 0, stat_ctime = 0\<rparr>"

text \<open>The directory entry of the virtual file system (a name and a type).\<close>

record VDirEntry =
  vde_name :: string
  vde_type :: VNodeType

record FsStats =
  fs_type_name :: string
  fs_block_size :: u64
  fs_total_blocks :: u64
  fs_free_blocks :: u64
  fs_total_inodes :: u64
  fs_free_inodes :: u64


section \<open>Paths\<close>

definition norm_step :: "string \<Rightarrow> string list \<Rightarrow> string list" where
  "norm_step component components =
     (if component = '''' \<or> component = ''.'' then components
      else if component = ''..'' then butlast components
      else components @ [component])"

definition join_components :: "string list \<Rightarrow> string" where
  "join_components components = concat (map (\<lambda>comp. CHR ''/'' # comp) components)"

definition normalize :: "string \<Rightarrow> (string, VfsError) outcome" where
  "normalize path =
     (if path = [] then Err InvalidPath
      else if \<not> starts_with path ''/'' then Err InvalidPath
      else
        let components = fold norm_step (split_on CHR ''/'' path) []
        in if components = [] then Ok ''/'' else Ok (join_components components))"

definition path_split :: "string \<Rightarrow> string \<times> string" where
  "path_split path =
     (case rfind CHR ''/'' path of
        Some pos \<Rightarrow> if pos = 0 then (''/'', drop 1 path) else (take pos path, drop (pos + 1) path)
      | None \<Rightarrow> (''.'', path))"

definition basename :: "string \<Rightarrow> string" where
  "basename path = snd (path_split path)"

definition dirname :: "string \<Rightarrow> string" where
  "dirname path = fst (path_split path)"

definition path_join :: "string \<Rightarrow> string \<Rightarrow> string" where
  "path_join base name = (if base = ''/'' then CHR ''/'' # name else base @ CHR ''/'' # name)"

text \<open>The loop of \<open>resolve\<close>: empty components are skipped.\<close>

fun walk :: "('v \<Rightarrow> string \<Rightarrow> ('v, VfsError) outcome) \<Rightarrow> 'v \<Rightarrow> string list \<Rightarrow> ('v, VfsError) outcome" where
  "walk look current [] = Ok current"
| "walk look current (component # rest) =
     (if component = [] then walk look current rest
      else and_then (look current component) (\<lambda>next. walk look next rest))"

definition resolve ::
    "('v \<Rightarrow> string \<Rightarrow> ('v, VfsError) outcome) \<Rightarrow> 'v \<Rightarrow> string \<Rightarrow> ('v, VfsError) outcome" where
  "resolve look root path =
     (if path = [] \<or> path = ''/'' then Ok root
      else and_then (normalize path) (\<lambda>normalized. walk look root (split_on CHR ''/'' normalized)))"

definition resolve_parent ::
    "('v \<Rightarrow> string \<Rightarrow> ('v, VfsError) outcome) \<Rightarrow> 'v \<Rightarrow> string \<Rightarrow> ('v \<times> string, VfsError) outcome" where
  "resolve_parent look root path =
     and_then (normalize path) (\<lambda>normalized.
       case path_split normalized of (parent_path, name) \<Rightarrow>
         if name = [] then Err InvalidPath
         else and_then (resolve look root parent_path) (\<lambda>parent. Ok (parent, name)))"

definition is_absolute :: "string \<Rightarrow> bool" where
  "is_absolute path = starts_with path ''/''"

definition extension :: "string \<Rightarrow> string option" where
  "extension path =
     (let name = basename path
      in case rfind CHR ''.'' name of
           Some pos \<Rightarrow> if pos > 0 then Some (drop (pos + 1) name) else None
         | None \<Rightarrow> None)"


section \<open>The mount table\<close>

text \<open>
  The two statics of the module: the mount table and the root file system. A file system is a handle
  of a type \<open>'f\<close>; \<open>unmount_op\<close>, \<open>fs_name\<close> and \<open>fs_root\<close> are the methods of the handle that are called.
\<close>

record 'f MountPoint =
  mp_path :: string
  mp_fs :: 'f

record 'f Vfs =
  mount_table :: "'f MountPoint list"
  root_fs :: "'f option"

definition set_root_fs :: "'f \<Rightarrow> 'f Vfs \<Rightarrow> 'f Vfs" where
  "set_root_fs fs v =
     v\<lparr>root_fs := Some fs, mount_table := mount_table v @ [\<lparr>mp_path = ''/'', mp_fs = fs\<rparr>]\<rparr>"

text \<open>The sort is stable, longest path first.\<close>

definition mount :: "string \<Rightarrow> 'f \<Rightarrow> ('f Vfs, unit, VfsError) act" where
  "mount path fs v =
     (if path = [] \<or> \<not> starts_with path ''/'' then (Err InvalidPath, v)
      else if \<exists>m \<in> set (mount_table v). mp_path m = path then (Err AlreadyExists, v)
      else (Ok (), v\<lparr>mount_table :=
              sort_key (\<lambda>m. - int (length (mp_path m))) (mount_table v @ [\<lparr>mp_path = path, mp_fs = fs\<rparr>])\<rparr>))"

definition unmount :: "('f \<Rightarrow> (unit, VfsError) outcome) \<Rightarrow> string \<Rightarrow> ('f Vfs, unit, VfsError) act" where
  "unmount unmount_op path v =
     (case position (\<lambda>m. mp_path m = path) (mount_table v) of
        None \<Rightarrow> (Err NotMountPoint, v)
      | Some idx \<Rightarrow>
          if path = ''/'' then (Err FileBusy, v)
          else
            (case unmount_op (mp_fs (mount_table v ! idx)) of
               Ok _ \<Rightarrow> (Ok (), v\<lparr>mount_table := vec_remove idx (mount_table v)\<rparr>)
             | Err e \<Rightarrow> (Err e, v)
             | Panic \<Rightarrow> (Panic, v)))"

definition mount_covers :: "string \<Rightarrow> string \<Rightarrow> bool" where
  "mount_covers mp path \<longleftrightarrow> path = mp \<or> starts_with path (mp @ ''/'') \<or> mp = ''/''"

definition relative_path :: "string \<Rightarrow> string \<Rightarrow> string" where
  "relative_path mp path =
     (if mp = ''/'' then path else if path = mp then ''/'' else drop (length mp) path)"

definition find_mount :: "'f Vfs \<Rightarrow> string \<Rightarrow> ('f \<times> string) option" where
  "find_mount v path =
     map_option (\<lambda>m. (mp_fs m, relative_path (mp_path m) path))
       (find (\<lambda>m. mount_covers (mp_path m) path) (mount_table v))"

definition lookup_path ::
    "('f \<Rightarrow> 'v) \<Rightarrow> ('v \<Rightarrow> string \<Rightarrow> ('v, VfsError) outcome) \<Rightarrow> 'f Vfs \<Rightarrow> string \<Rightarrow> ('v, VfsError) outcome" where
  "lookup_path fs_root look v path =
     and_then (normalize path) (\<lambda>path.
       and_then (ok_or NotFound (find_mount v path)) (\<lambda>(fs, relative).
         resolve look (fs_root fs) relative))"

definition list_mounts :: "('f \<Rightarrow> string) \<Rightarrow> 'f Vfs \<Rightarrow> (string \<times> string) list" where
  "list_mounts fs_name v = map (\<lambda>m. (mp_path m, fs_name (mp_fs m))) (mount_table v)"


section \<open>Splitting and joining\<close>

text \<open>A component that \<open>normalize\<close> keeps.\<close>

definition clean :: "string \<Rightarrow> bool" where
  "clean w \<longleftrightarrow> w \<noteq> [] \<and> w \<noteq> ''.'' \<and> w \<noteq> ''..'' \<and> CHR ''/'' \<notin> set w"

lemma norm_fold_clean:
  "(\<And>w. w \<in> set ws \<Longrightarrow> CHR ''/'' \<notin> set w) \<Longrightarrow> (\<And>w. w \<in> set cs \<Longrightarrow> clean w) \<Longrightarrow>
   w \<in> set (fold norm_step ws cs) \<Longrightarrow> clean w"
proof (induction ws arbitrary: cs)
  case (Cons x xs)
  have "clean v" if "v \<in> set (norm_step x cs)" for v
    using that Cons.prems(1) [of x] Cons.prems(2)
    by (auto simp: norm_step_def clean_def split: if_splits dest: in_set_butlastD)
  then show ?case using Cons.IH [of "norm_step x cs"] Cons.prems(1,3) by simp
qed simp

lemma norm_fold_id: "(\<And>w. w \<in> set cs \<Longrightarrow> clean w) \<Longrightarrow> fold norm_step cs acc = acc @ cs"
  by (induction cs arbitrary: acc) (auto simp: norm_step_def clean_def)

lemma join_components_Nil [simp]: "join_components [] = []"
  by (simp add: join_components_def)

lemma join_components_Cons [simp]: "join_components (c # cs) = CHR ''/'' # c @ join_components cs"
  by (simp add: join_components_def)

lemma join_components_append [simp]: "join_components (as @ bs) = join_components as @ join_components bs"
  by (simp add: join_components_def)

lemma split_join: "(\<And>w. w \<in> set cs \<Longrightarrow> clean w) \<Longrightarrow> split_on CHR ''/'' (join_components cs) = [] # cs"
proof (induction cs)
  case (Cons c cs)
  have c: "CHR ''/'' \<notin> set c" using Cons.prems [of c] by (simp add: clean_def)
  show ?case
  proof (cases cs)
    case Nil
    then show ?thesis using c by simp
  next
    case (Cons d ds)
    then obtain rest where rest: "join_components cs = CHR ''/'' # rest" by simp
    then have "split_on CHR ''/'' rest = cs" using Cons.IH Cons.prems by simp
    then show ?thesis using split_on_append [OF c, of rest] rest by simp
  qed
qed simp

text \<open>The components of an absolute path.\<close>

definition components :: "string \<Rightarrow> string list" where
  "components path = fold norm_step (split_on CHR ''/'' path) []"

definition path_of :: "string list \<Rightarrow> string" where
  "path_of cs = (if cs = [] then ''/'' else join_components cs)"

lemma components_clean: "w \<in> set (components path) \<Longrightarrow> clean w"
  unfolding components_def by (rule norm_fold_clean) (auto dest: split_on_free)

lemma components_path_of: "(\<And>w. w \<in> set cs \<Longrightarrow> clean w) \<Longrightarrow> components (path_of cs) = cs"
proof (cases "cs = []")
  case True
  then show ?thesis by (simp add: components_def path_of_def norm_step_def)
next
  case False
  assume clean: "\<And>w. w \<in> set cs \<Longrightarrow> clean w"
  then have "components (path_of cs) = fold norm_step ([] # cs) []"
    using False split_join [of cs] by (simp add: components_def path_of_def)
  moreover have "fold norm_step cs [] = cs" using norm_fold_id [of cs "[]"] clean by simp
  ultimately show ?thesis by (simp add: norm_step_def)
qed

lemma path_of_absolute [simp]: "starts_with (path_of cs) ''/''" "path_of cs \<noteq> []"
  by (cases cs; simp add: path_of_def starts_with_def)+

lemma normalize_eq:
  "normalize path = (if starts_with path ''/'' then Ok (path_of (components path)) else Err InvalidPath)"
  by (auto simp: normalize_def components_def path_of_def starts_with_def)

lemma normalize_path_of: "(\<And>w. w \<in> set cs \<Longrightarrow> clean w) \<Longrightarrow> normalize (path_of cs) = Ok (path_of cs)"
  using components_path_of [of cs] by (simp add: normalize_eq)


section \<open>Directory and base name\<close>

lemma path_split_path_of:
  assumes "clean c"
  shows "path_split (path_of (cs @ [c])) = (path_of cs, c)"
proof -
  have "CHR ''/'' \<notin> set c" using assms by (simp add: clean_def)
  then have pos: "rfind CHR ''/'' (path_of (cs @ [c])) = Some (length (join_components cs))"
    using rfind_append [of "CHR ''/''" c "join_components cs"] by (simp add: path_of_def)
  have "length (join_components cs) = 0 \<longleftrightarrow> cs = []" by (cases cs) simp_all
  then show ?thesis
    unfolding path_split_def pos by (auto simp: path_of_def)
qed

lemma path_join_path_of: "(\<And>w. w \<in> set cs \<Longrightarrow> clean w) \<Longrightarrow> path_join (path_of cs) c = path_of (cs @ [c])"
  by (cases cs) (auto simp: path_join_def path_of_def clean_def)


section \<open>Resolution\<close>

lemma walk_append: "walk look r (xs @ ys) = and_then (walk look r xs) (\<lambda>v. walk look v ys)"
proof (induction xs arbitrary: r)
  case (Cons x xs)
  then show ?case by (cases "look r x") auto
qed simp

text \<open>Resolution follows the components of the normalised path.\<close>

lemma resolve_components:
  assumes "starts_with path ''/''"
  shows "resolve look root path = walk look root (components path)"
proof -
  have split: "walk look root (split_on CHR ''/'' (path_of (components path))) = walk look root (components path)"
  proof (cases "components path = []")
    case True
    then show ?thesis by (simp add: path_of_def)
  next
    case False
    then show ?thesis using split_join [of "components path"] components_clean by (simp add: path_of_def)
  qed
  have "components ''/'' = []" by (simp add: components_def norm_step_def)
  then show ?thesis using assms split by (auto simp: resolve_def normalize_eq starts_with_def)
qed

lemma resolve_parent_components:
  assumes "starts_with path ''/''"
  shows "resolve_parent look root path =
    (if components path = [] then Err InvalidPath
     else and_then (walk look root (butlast (components path))) (\<lambda>parent. Ok (parent, last (components path))))"
proof (cases "components path" rule: rev_cases)
  case Nil
  have "rfind CHR ''/'' ''/'' = Some 0" by (simp add: rfind_def)
  then show ?thesis using assms Nil by (simp add: resolve_parent_def normalize_eq path_of_def path_split_def)
next
  case (snoc cs c)
  have clean: "clean c" "\<And>w. w \<in> set cs \<Longrightarrow> clean w" using components_clean [of _ path] snoc by auto
  have "resolve look root (path_of cs) = walk look root cs"
    using resolve_components [of "path_of cs"] components_path_of [OF clean(2)] by simp
  moreover have "c \<noteq> []" using clean(1) by (simp add: clean_def)
  ultimately show ?thesis
    using assms snoc path_split_path_of [OF clean(1), of cs] by (simp add: resolve_parent_def normalize_eq)
qed


section \<open>The mount table in use\<close>

text \<open>Root file systems are set, and file systems are mounted and unmounted, in any order.\<close>

inductive vfs_run :: "'f Vfs \<Rightarrow> bool" where
  start: "vfs_run \<lparr>mount_table = [], root_fs = None\<rparr>"
| set_root: "vfs_run v \<Longrightarrow> vfs_run (set_root_fs fs v)"
| mount: "vfs_run v \<Longrightarrow> mount path fs v = (r, v') \<Longrightarrow> vfs_run v'"
| unmount: "vfs_run v \<Longrightarrow> unmount op path v = (r, v') \<Longrightarrow> vfs_run v'"

text \<open>The table is sorted by falling length and its paths are absolute.\<close>

definition mounts_sorted :: "'f MountPoint list \<Rightarrow> bool" where
  "mounts_sorted ms \<longleftrightarrow> sorted_wrt (\<lambda>a b. length (mp_path b) \<le> length (mp_path a)) ms \<and>
     (\<forall>m \<in> set ms. starts_with (mp_path m) ''/'')"

lemma sort_key_length_sorted:
  "sorted_wrt (\<lambda>a b. length (mp_path b) \<le> length (mp_path a)) (sort_key (\<lambda>m. - int (length (mp_path m))) ms)"
proof -
  have "sorted (map (\<lambda>m. - int (length (mp_path m))) (sort_key (\<lambda>m. - int (length (mp_path m))) ms))"
    by (rule sorted_sort_key)
  then show ?thesis by (simp add: sorted_wrt_map)
qed

lemma mounts_sorted_mount:
  assumes "mounts_sorted (mount_table v)" and "mount path fs v = (r, v')"
  shows "mounts_sorted (mount_table v')"
proof (cases "path = [] \<or> \<not> starts_with path ''/'' \<or> (\<exists>m \<in> set (mount_table v). mp_path m = path)")
  case True
  then have "v' = v" using assms(2) by (auto simp: mount_def split: if_splits)
  then show ?thesis using assms(1) by simp
next
  case False
  let ?ms = "mount_table v @ [\<lparr>mp_path = path, mp_fs = fs\<rparr>]"
  have v': "mount_table v' = sort_key (\<lambda>m. - int (length (mp_path m))) ?ms"
    using False assms(2) by (auto simp: mount_def)
  show ?thesis
    using assms(1) False sort_key_length_sorted by (auto simp: mounts_sorted_def v')
qed

lemma mounts_sorted_unmount:
  assumes "mounts_sorted (mount_table v)" and "unmount op path v = (r, v')"
  shows "mounts_sorted (mount_table v')"
proof -
  have "mount_table v' = mount_table v \<or> (\<exists>i. mount_table v' = vec_remove i (mount_table v))"
    using assms(2) by (auto simp: unmount_def split: option.splits if_splits outcome.splits)
  moreover have "starts_with (mp_path m) ''/''" if "m \<in> set (vec_remove i (mount_table v))" for i m
    using assms(1) that set_vec_remove_subset [of i "mount_table v"] by (auto simp: mounts_sorted_def)
  ultimately show ?thesis
    using assms(1) by (auto simp: mounts_sorted_def intro: sorted_wrt_vec_remove)
qed

lemma vfs_run_sorted: "vfs_run v \<Longrightarrow> mounts_sorted (mount_table v)"
proof (induction rule: vfs_run.induct)
  case start
  show ?case by (simp add: mounts_sorted_def)
next
  case (set_root v fs)
  have "1 \<le> length (mp_path m)" if "m \<in> set (mount_table v)" for m
    using set_root.IH that by (cases "mp_path m") (auto simp: mounts_sorted_def starts_with_def)
  then show ?case
    using set_root by (auto simp: mounts_sorted_def set_root_fs_def sorted_wrt_append starts_with_def)
qed (auto intro: mounts_sorted_mount mounts_sorted_unmount)

lemma vfs_run_root:
  assumes "vfs_run v" and "root_fs v = Some fs"
  shows "\<exists>m \<in> set (mount_table v). mp_path m = ''/'' \<and> mp_fs m = fs"
  using assms
proof (induction rule: vfs_run.induct)
  case (mount v path fs' r v')
  then have "root_fs v = Some fs" by (auto simp: mount_def split: if_splits)
  then show ?case using mount by (fastforce simp: mount_def split: if_splits)
next
  case (unmount v op path r v')
  have root: "root_fs v = Some fs"
    using unmount by (auto simp: unmount_def split: option.splits if_splits outcome.splits)
  then obtain m where m: "m \<in> set (mount_table v)" "mp_path m = ''/''" "mp_fs m = fs" using unmount.IH by blast
  have "m \<in> set (vec_remove i (mount_table v))"
    if "position (\<lambda>m. mp_path m = path) (mount_table v) = Some i" "path \<noteq> ''/''" for i
  proof -
    have i: "i < length (mount_table v)" "mp_path (mount_table v ! i) = path"
      using position_SomeD [OF that(1)] by auto
    have "set (mount_table v) \<subseteq> insert (mount_table v ! i) (set (vec_remove i (mount_table v)))"
      unfolding vec_remove_def by (subst id_take_nth_drop [OF i(1)]) auto
    then show ?thesis using m that(2) i(2) by auto
  qed
  then have "m \<in> set (mount_table v')"
    using unmount.hyps(2) m(1) by (auto simp: unmount_def split: option.splits if_splits outcome.splits)
  then show ?case using m by blast
qed (auto simp: set_root_fs_def)

text \<open>The test for a mount compares whole components.\<close>

lemma split_join_more:
  "(\<And>w. w \<in> set cs \<Longrightarrow> clean w) \<Longrightarrow> split_on CHR ''/'' (join_components cs @ CHR ''/'' # r) = [] # cs @ split_on CHR ''/'' r"
proof (induction cs)
  case Nil
  show ?case using split_on_append [of "CHR ''/''" "[]" r] by simp
next
  case (Cons c cs)
  obtain t where t: "join_components cs @ CHR ''/'' # r = CHR ''/'' # t" by (cases cs) auto
  have "split_on CHR ''/'' (CHR ''/'' # t) = [] # split_on CHR ''/'' t" using split_on_append [of "CHR ''/''" "[]" t] by simp
  then have "split_on CHR ''/'' t = cs @ split_on CHR ''/'' r" using Cons t by simp
  moreover have "split_on CHR ''/'' (c @ CHR ''/'' # t) = c # split_on CHR ''/'' t"
    using Cons.prems [of c] by (intro split_on_append) (simp add: clean_def)
  ultimately show ?case using split_on_append [of "CHR ''/''" "[]" "c @ CHR ''/'' # t"] t by simp
qed

lemma path_of_prefix:
  assumes "\<And>w. w \<in> set ms \<Longrightarrow> clean w" "\<And>w. w \<in> set cs \<Longrightarrow> clean w"
  shows "mount_covers (path_of ms) (path_of cs) \<longleftrightarrow> prefix ms cs"
proof
  assume covers: "mount_covers (path_of ms) (path_of cs)"
  show "prefix ms cs"
  proof (cases "path_of cs = path_of ms \<or> ms = []")
    case True
    then show ?thesis using components_path_of [of ms] components_path_of [of cs] assms by auto
  next
    case False
    then have ms: "path_of ms = join_components ms" by (simp add: path_of_def)
    then obtain r where r: "path_of cs = join_components ms @ CHR ''/'' # r"
      using covers False components_path_of [of ms] components_path_of [of "[]"] assms
      by (fastforce simp: mount_covers_def starts_with_def prefix_def path_of_def)
    have "cs \<noteq> []" using r False by (cases ms) (auto simp: path_of_def)
    then have "[] # cs = [] # ms @ split_on CHR ''/'' r"
      using split_join [of cs] split_join_more [of ms r] assms r by (simp add: path_of_def)
    then show ?thesis by (auto simp: prefix_def)
  qed
next
  assume "prefix ms cs"
  then obtain zs where "cs = ms @ zs" by (auto simp: prefix_def)
  then show "mount_covers (path_of ms) (path_of cs)"
    by (cases zs; cases "ms = []") (auto simp: mount_covers_def path_of_def starts_with_def)
qed

lemma relative_path_of:
  assumes "\<And>w. w \<in> set (ms @ zs) \<Longrightarrow> clean w"
  shows "relative_path (path_of ms) (path_of (ms @ zs)) = path_of zs"
proof (cases "ms = []")
  case False
  have "path_of ms \<noteq> ''/''" using False components_path_of [of ms] components_path_of [of "[]"] assms by (auto simp: path_of_def)
  moreover have "path_of (ms @ zs) = path_of ms \<longleftrightarrow> zs = []"
    using components_path_of [of ms] components_path_of [of "ms @ zs"] assms by (metis append_self_conv in_set_conv_decomp_first set_append Un_iff)
  ultimately show ?thesis using False by (auto simp: relative_path_def path_of_def)
qed (simp add: relative_path_def path_of_def)

lemma path_of_length: "prefix ms ps \<Longrightarrow> prefix ks ps \<Longrightarrow> length (path_of ks) \<le> length (path_of ms) \<Longrightarrow> (\<And>w. w \<in> set ps \<Longrightarrow> clean w) \<Longrightarrow> length ks \<le> length ms"
proof (rule ccontr)
  assume *: "prefix ms ps" "prefix ks ps" "length (path_of ks) \<le> length (path_of ms)" "\<And>w. w \<in> set ps \<Longrightarrow> clean w" "\<not> length ks \<le> length ms"
  then have "prefix ms ks" by (meson nle_le prefix_length_le prefix_same_cases)
  then obtain c zs where ks: "ks = ms @ c # zs" using *(5) by (cases "drop (length ms) ks") (auto simp: prefix_def)
  then have "clean c" using *(2,4) by (auto simp: prefix_def)
  then have "c \<noteq> []" by (simp add: clean_def)
  then show False using *(3) ks by (cases c; cases "ms = []") (auto simp: path_of_def)
qed

text \<open>In a table sorted by falling length the first match is the longest.\<close>

lemma find_longest:
  assumes "sorted_wrt (\<lambda>a b. length (mp_path b) \<le> length (mp_path a)) ms" and "find P ms = Some m"
  shows "m \<in> set ms \<and> P m \<and> (\<forall>m' \<in> set ms. P m' \<longrightarrow> length (mp_path m') \<le> length (mp_path m))"
  using assms by (induction ms) (auto split: if_splits)


section \<open>Properties\<close>

text \<open>
  C35. \<open>normalize\<close> is idempotent and returns a canonical absolute path: it is the slash-separated
  sequence of components none of which is empty, \<open>.\<close> or \<open>..\<close>; it fails exactly on paths that do not
  start with a slash.
\<close>

theorem normalize_canonical:
  "(normalize path = Err InvalidPath \<longleftrightarrow> \<not> starts_with path ''/'') \<and> normalize path \<noteq> Panic \<and>
   (\<forall>n. normalize path = Ok n \<longrightarrow> normalize n = Ok n \<and>
      (\<exists>cs. (\<forall>c \<in> set cs. c \<noteq> [] \<and> c \<noteq> ''.'' \<and> c \<noteq> ''..'' \<and> CHR ''/'' \<notin> set c) \<and>
         n = (if cs = [] then ''/'' else concat (map (\<lambda>c. CHR ''/'' # c) cs))))"
proof -
  have "normalize (path_of (components path)) = Ok (path_of (components path))"
    using components_clean by (rule normalize_path_of)
  moreover have "\<exists>cs. (\<forall>c \<in> set cs. c \<noteq> [] \<and> c \<noteq> ''.'' \<and> c \<noteq> ''..'' \<and> CHR ''/'' \<notin> set c) \<and>
      path_of (components path) = (if cs = [] then ''/'' else concat (map (\<lambda>c. CHR ''/'' # c) cs))"
    using components_clean [of _ path]
    by (intro exI [of _ "components path"]) (auto simp: path_of_def join_components_def clean_def)
  ultimately show ?thesis by (auto simp: normalize_eq)
qed

theorem normalize_canonical_witness: "normalize ''/a//b/../c/.'' = Ok ''/a/c'' \<and> normalize ''/a/c'' = Ok ''/a/c''"
proof -
  have n: "normalize ''/a//b/../c/.'' = Ok ''/a/c''" by code_simp
  then show ?thesis using normalize_canonical [of "''/a//b/../c/.''"] by blast
qed

text \<open>
  C32. Resolving a path is resolving its parent and looking up its last component there: whatever the
  lookup of the objects does, \<open>resolve\<close> of an absolute path other than the root is the result of
  \<open>resolve_parent\<close> followed by one lookup, errors included.
\<close>

theorem resolve_via_parent:
  assumes "starts_with path ''/''" and "normalize path \<noteq> Ok ''/''"
  shows "resolve look root path =
    and_then (resolve_parent look root path) (\<lambda>(parent, name). look parent name)"
proof (cases "components path" rule: rev_cases)
  case Nil
  then show ?thesis using assms by (simp add: normalize_eq path_of_def)
next
  case (snoc cs c)
  have "c \<noteq> []" using components_clean [of c path] snoc by (simp add: clean_def)
  have "and_then (look v c) Ok = look v c" for v by (cases "look v c") auto
  then show ?thesis
    using \<open>c \<noteq> []\<close> snoc
    by (cases "walk look root cs") (simp_all add: resolve_components [OF assms(1)] resolve_parent_components [OF assms(1)] walk_append)
qed

theorem resolve_via_parent_witness:
  "resolve (\<lambda>v c. if c = ''b'' then Err NotFound else Ok (v @ c)) [] ''/a/./b'' = Err NotFound"
proof -
  have "starts_with ''/a/./b'' ''/''" "normalize ''/a/./b'' \<noteq> Ok ''/''" by code_simp+
  moreover have "resolve_parent (\<lambda>v c. if c = ''b'' then Err NotFound else Ok (v @ c)) [] ''/a/./b'' = Ok (''a'', ''b'')"
    by code_simp
  ultimately show ?thesis by (simp add: resolve_via_parent)
qed

text \<open>
  The directory and base name of a normalised path other than the root join to the path again,
  and the directory is itself normalised.
\<close>

theorem dirname_basename_join:
  assumes "normalize path = Ok path" and "path \<noteq> ''/''"
  shows "path_join (dirname path) (basename path) = path \<and> normalize (dirname path) = Ok (dirname path)"
proof (cases "components path" rule: rev_cases)
  case Nil
  then show ?thesis using assms by (auto simp: normalize_eq path_of_def split: if_splits)
next
  case (snoc cs c)
  have clean: "clean c" "\<And>w. w \<in> set cs \<Longrightarrow> clean w" using components_clean [of _ path] snoc by auto
  have path: "path = path_of (cs @ [c])" using assms(1) snoc by (auto simp: normalize_eq split: if_splits)
  show ?thesis
    using path_split_path_of [OF clean(1), of cs] path_join_path_of [of cs c] normalize_path_of [of cs] clean(2)
    by (simp add: dirname_def basename_def path)
qed

theorem dirname_basename_join_witness: "path_join (dirname ''/a/b'') (basename ''/a/b'') = ''/a/b''"
proof -
  have "normalize ''/a/b'' = Ok ''/a/b''" by code_simp
  from dirname_basename_join [OF this] show ?thesis by simp
qed

text \<open>
  C34. \<open>find_mount\<close> picks the deepest mount: in every history of mounts and unmounts at normalised paths, and for every normalised path
  (\<open>lookup_path\<close> passes no other), the components of the path are those of the mount point followed by those of the relative path, which is
  again a normalised path, and no mount point with more components leads to the path. It finds one exactly when the components of some mount
  point begin those of the path, in particular whenever a root file system is set.
\<close>

theorem find_mount_deepest:
  assumes "vfs_run v" "\<forall>m \<in> set (mount_table v). normalize (mp_path m) = Ok (mp_path m)" "normalize path = Ok path"
  shows "(\<forall>fs rel. find_mount v path = Some (fs, rel) \<longrightarrow>
      (\<exists>m \<in> set (mount_table v). mp_fs m = fs \<and> components path = components (mp_path m) @ components rel \<and> normalize rel = Ok rel \<and>
         (\<forall>m' \<in> set (mount_table v). prefix (components (mp_path m')) (components path) \<longrightarrow>
            length (components (mp_path m')) \<le> length (components (mp_path m))))) \<and>
    (find_mount v path \<noteq> None \<longleftrightarrow> (\<exists>m \<in> set (mount_table v). prefix (components (mp_path m)) (components path))) \<and>
    (root_fs v \<noteq> None \<longrightarrow> find_mount v path \<noteq> None)"
proof -
  have canon: "normalize q = Ok q \<Longrightarrow> q = path_of (components q)" for q by (simp add: normalize_eq split: if_splits)
  have covers: "mount_covers (mp_path m) path \<longleftrightarrow> prefix (components (mp_path m)) (components path)" if "m \<in> set (mount_table v)" for m
    using path_of_prefix [of "components (mp_path m)" "components path"] components_clean canon assms(2,3) that by metis
  have sorted: "sorted_wrt (\<lambda>a b. length (mp_path b) \<le> length (mp_path a)) (mount_table v)"
    using vfs_run_sorted [OF assms(1)] by (simp add: mounts_sorted_def)
  have "\<exists>m \<in> set (mount_table v). mp_fs m = fs \<and> components path = components (mp_path m) @ components rel \<and> normalize rel = Ok rel \<and>
      (\<forall>m' \<in> set (mount_table v). prefix (components (mp_path m')) (components path) \<longrightarrow> length (components (mp_path m')) \<le> length (components (mp_path m)))"
    if found: "find_mount v path = Some (fs, rel)" for fs rel
  proof -
    obtain m where m: "find (\<lambda>m. mount_covers (mp_path m) path) (mount_table v) = Some m"
      "fs = mp_fs m" "rel = relative_path (mp_path m) path"
      using found by (auto simp: find_mount_def)
    note longest = find_longest [OF sorted m(1)]
    then obtain zs where zs: "components path = components (mp_path m) @ zs" using covers by (auto simp: prefix_def)
    have clean: "clean w" if "w \<in> set (components (mp_path m) @ zs)" for w using that components_clean [of w path] zs by simp
    have paths: "path = path_of (components (mp_path m) @ zs)" "mp_path m = path_of (components (mp_path m))"
      using canon assms(2,3) longest zs by metis+
    have rel: "rel = path_of zs" using relative_path_of [OF clean] m(3) paths by metis
    then have "components rel = zs" "normalize rel = Ok rel" using components_path_of [of zs] normalize_path_of [of zs] clean by auto
    moreover have "length (components (mp_path m')) \<le> length (components (mp_path m))"
      if "m' \<in> set (mount_table v)" "prefix (components (mp_path m')) (components path)" for m'
    proof (rule path_of_length)
      show "length (path_of (components (mp_path m'))) \<le> length (path_of (components (mp_path m)))"
        using longest covers [OF that(1)] canon assms(2) that by metis
      show "prefix (components (mp_path m)) (components path)" using zs by simp
    qed (rule that(2), rule components_clean)
    ultimately show ?thesis using longest m(2) zs by metis
  qed
  moreover have some: "find_mount v path \<noteq> None \<longleftrightarrow> (\<exists>m \<in> set (mount_table v). prefix (components (mp_path m)) (components path))"
    using covers by (auto simp: find_mount_def find_None_iff)
  moreover have "find_mount v path \<noteq> None" if "root_fs v \<noteq> None"
    using vfs_run_root [OF assms(1)] that by (auto simp: find_mount_def find_None_iff mount_covers_def)
  ultimately show ?thesis by blast
qed

theorem find_mount_deepest_witness:
  "\<exists>v. vfs_run v \<and> find_mount v ''/dev/null'' = Some (1 :: nat, ''/null'') \<and>
     find_mount v ''/home'' = Some (0, ''/home'')"
proof -
  let ?start = "\<lparr>mount_table = [], root_fs = None\<rparr> :: nat Vfs"
  let ?v = "snd (mount ''/dev'' 1 (set_root_fs 0 ?start))"
  have "vfs_run (set_root_fs 0 ?start)" by (rule vfs_run.set_root [OF vfs_run.start])
  then have run: "vfs_run ?v" by (rule vfs_run.mount [where r = "fst (mount ''/dev'' 1 (set_root_fs 0 ?start))"]) simp
  have "find_mount ?v ''/dev/null'' = Some (1, ''/null'')" "find_mount ?v ''/home'' = Some (0, ''/home'')"
    by code_simp+
  moreover have "\<forall>m \<in> set (mount_table ?v). normalize (mp_path m) = Ok (mp_path m)" "normalize ''/home'' = Ok ''/home''" by code_simp+
  ultimately show ?thesis using run find_mount_deepest [OF run, of "''/home''"] by blast
qed

end
