(* ===== verification/Fat_Cluster.thy ===== *)
theory Fat_Cluster
  imports Fat_Chain Fat_Dir Vfs_Path
begin

text \<open>
  The mounted FAT32 volume of \<open>src/fs/fat32/mod.rs\<close>: mounting, and the transfer of whole clusters. The
  block device is shared by all objects of the volume; its state \<open>'d\<close> is passed explicitly, and every
  object (file system, directory, file) keeps the boot sector. The directory and the file have their
  own copies of the transfer functions, which are all the same code.
\<close>

section \<open>Objects of the volume\<close>

record Fat32FileSystem =
  fs_boot :: Fat32BootSector
  fs_root_cluster :: u32

record Fat32Dir =
  fd_boot :: Fat32BootSector
  fd_cluster :: u32
  fd_name :: string

record Fat32File =
  ff_boot :: Fat32BootSector
  ff_start_cluster :: u32
  ff_size :: u32
  ff_name :: string
  ff_parent_cluster :: u32
  ff_entry_offset :: nat

datatype Fat32Node = FatDir Fat32Dir | FatFile Fat32File

definition Fat32FileSystem_new :: "Fat32BootSector \<Rightarrow> Fat32FileSystem" where
  "Fat32FileSystem_new boot = \<lparr>fs_boot = boot, fs_root_cluster = root_cluster boot\<rparr>"

definition Fat32Dir_new_root :: "Fat32BootSector \<Rightarrow> u32 \<Rightarrow> Fat32Dir" where
  "Fat32Dir_new_root boot cluster = \<lparr>fd_boot = boot, fd_cluster = cluster, fd_name = ''/''\<rparr>"

definition Fat32Dir_new :: "Fat32BootSector \<Rightarrow> u32 \<Rightarrow> string \<Rightarrow> Fat32Dir" where
  "Fat32Dir_new boot cluster name = \<lparr>fd_boot = boot, fd_cluster = cluster, fd_name = name\<rparr>"

definition Fat32File_new :: "Fat32BootSector \<Rightarrow> u32 \<Rightarrow> u32 \<Rightarrow> string \<Rightarrow> u32 \<Rightarrow> nat \<Rightarrow> Fat32File" where
  "Fat32File_new boot start_cluster sz name parent_cluster entry_offset =
     \<lparr>ff_boot = boot, ff_start_cluster = start_cluster, ff_size = sz, ff_name = name,
      ff_parent_cluster = parent_cluster, ff_entry_offset = entry_offset\<rparr>"


section \<open>Cluster transfers\<close>

definition cluster_size :: "Fat32BootSector \<Rightarrow> nat" where
  "cluster_size boot = unat (sectors_per_cluster boot) * unat (bytes_per_sector boot)"

text \<open>The sector number is a 32-bit sum.\<close>

definition cluster_sector :: "Fat32BootSector \<Rightarrow> u32 \<Rightarrow> nat \<Rightarrow> u64" where
  "cluster_sector boot cluster i = ucast (cluster_to_sector boot cluster + of_nat i)"

fun read_sectors_loop ::
    "'d blkdev \<Rightarrow> 'd \<Rightarrow> Fat32BootSector \<Rightarrow> u32 \<Rightarrow> nat list \<Rightarrow> bytes \<Rightarrow> (bytes, VfsError) outcome" where
  "read_sectors_loop dev d boot cluster [] data = Ok data"
| "read_sectors_loop dev d boot cluster (i # is) data =
     (let bps = unat (bytes_per_sector boot); offset = i * bps
      in and_then (map_err (\<lambda>_. VfsIoError) (bd_read_block dev d (cluster_sector boot cluster i) bps)) (\<lambda>buf.
           and_then (slice_put data offset buf) (\<lambda>data.
             read_sectors_loop dev d boot cluster is data)))"

definition read_cluster :: "'d blkdev \<Rightarrow> Fat32BootSector \<Rightarrow> 'd \<Rightarrow> u32 \<Rightarrow> (bytes, VfsError) outcome" where
  "read_cluster dev boot d cluster =
     read_sectors_loop dev d boot cluster [0..<unat (sectors_per_cluster boot)] (replicate (cluster_size boot) 0)"

text \<open>The bytes for one sector, padded with zeros.\<close>

definition sector_buf :: "nat \<Rightarrow> nat \<Rightarrow> bytes \<Rightarrow> bytes" where
  "sector_buf sector_size offset data =
     (let buf = replicate sector_size 0
      in if offset < length data then
           (let copy_len = min sector_size (length data - offset)
            in overwrite buf 0 (take copy_len (drop offset data)))
         else buf)"

definition write_cluster :: "'d blkdev \<Rightarrow> Fat32BootSector \<Rightarrow> u32 \<Rightarrow> bytes \<Rightarrow> ('d, unit, VfsError) act" where
  "write_cluster dev boot cluster data =
     act_for [0..<unat (sectors_per_cluster boot)] (\<lambda>i.
       let bps = unat (bytes_per_sector boot)
       in act_map_err (\<lambda>_. VfsIoError)
            (bd_write_block dev (cluster_sector boot cluster i) (sector_buf bps (i * bps) data)))"

definition Fat32FileSystem_read_cluster ::
    "'d blkdev \<Rightarrow> Fat32FileSystem \<Rightarrow> 'd \<Rightarrow> u32 \<Rightarrow> (bytes, VfsError) outcome" where
  "Fat32FileSystem_read_cluster dev fs = read_cluster dev (fs_boot fs)"

definition Fat32FileSystem_write_cluster ::
    "'d blkdev \<Rightarrow> Fat32FileSystem \<Rightarrow> u32 \<Rightarrow> bytes \<Rightarrow> ('d, unit, VfsError) act" where
  "Fat32FileSystem_write_cluster dev fs = write_cluster dev (fs_boot fs)"

definition fat_table :: "Fat32FileSystem \<Rightarrow> 'd \<Rightarrow> ('d FatTable, VfsError) outcome" where
  "fat_table fs d = FatTable_new d (fs_boot fs)"

definition Fat32_root :: "Fat32FileSystem \<Rightarrow> Fat32Node" where
  "Fat32_root fs = FatDir (Fat32Dir_new_root (fs_boot fs) (fs_root_cluster fs))"

definition Fat32_sync :: "('d, unit, BlockError) act \<Rightarrow> ('d, unit, VfsError) act" where
  "Fat32_sync device_sync = act_map_err (\<lambda>_. VfsIoError) device_sync"

definition Fat32_statfs :: "Fat32FileSystem \<Rightarrow> FsStats" where
  "Fat32_statfs fs =
     \<lparr>fs_type_name = ''fat32'', fs_block_size = ucast (bytes_per_sector (fs_boot fs)),
      fs_total_blocks = ucast (total_sectors_32 (fs_boot fs)), fs_free_blocks = 0, fs_total_inodes = 0,
      fs_free_inodes = 0\<rparr>"

text \<open>
  The message printed on success divides by the number of sectors of a cluster, which is not zero in
  a valid boot sector.
\<close>

definition mount_fat32 :: "'d blkdev \<Rightarrow> 'd \<Rightarrow> (Fat32FileSystem, VfsError) outcome" where
  "mount_fat32 dev d =
     and_then (map_err (\<lambda>_. VfsIoError) (bd_read_block dev d 0 (bd_block_size dev d))) (\<lambda>buf.
       and_then (ok_or InvalidFormat (BootSector_from_bytes buf)) (\<lambda>boot.
         if \<not> is_valid boot then Err InvalidFormat
         else Ok (Fat32FileSystem_new boot)))"

text \<open>
  A FAT table is made for every operation. \<open>with_fat\<close> runs an action on a fresh table of the device;
  \<open>fat_read_chain\<close> is the common case of reading one chain.
\<close>

definition with_fat :: "Fat32BootSector \<Rightarrow> ('d FatTable, 'a, VfsError) act \<Rightarrow> ('d, 'a, VfsError) act" where
  "with_fat boot m d =
     (case FatTable_new d boot of
        Ok ft \<Rightarrow> (case m ft of (r, ft') \<Rightarrow> (r, ft_device ft'))
      | Err e \<Rightarrow> (Err e, d)
      | Panic \<Rightarrow> (Panic, d))"

definition fat_read_chain ::
    "'d blkdev \<Rightarrow> Fat32BootSector \<Rightarrow> 'd \<Rightarrow> u32 \<Rightarrow> (u32 list, VfsError) outcome" where
  "fat_read_chain dev boot d cluster =
     and_then (FatTable_new d boot) (\<lambda>ft. map_err (\<lambda>_. VfsIoError) (read_chain dev ft cluster))"


section \<open>The volume\<close>

text \<open>The table that \<open>FatTable::new\<close> makes, and the clusters of the volume.\<close>

definition fresh_fat :: "Fat32BootSector \<Rightarrow> 'd \<Rightarrow> 'd FatTable" where
  "fresh_fat boot d =
     \<lparr>ft_device = d, ft_fat_start = fat_start_sector boot, ft_fat_size = fat_size_32 boot,
      ft_num_fats = num_fats boot, ft_bytes_per_sector = bytes_per_sector boot,
      ft_total_clusters = cluster_count boot, ft_free_count = None, ft_next_free_hint = 2\<rparr>"

definition vol_clusters :: "Fat32BootSector \<Rightarrow> u32 set" where
  "vol_clusters boot = {c. 2 \<le> unat c \<and> unat c < unat (cluster_count boot) + 2}"

text \<open>
  A volume in order: the boot sector describes areas that fit on the device, and the FAT is
  consistent.
\<close>

definition vol_ok ::
    "'d blkdev \<Rightarrow> ('d \<Rightarrow> bool) \<Rightarrow> ('d \<Rightarrow> nat \<Rightarrow> bytes) \<Rightarrow> Fat32BootSector \<Rightarrow> 'd \<Rightarrow> bool" where
  "vol_ok dev dinv blk boot d \<longleftrightarrow>
     sectors_per_cluster boot \<noteq> 0 \<and> volume_fits boot \<and>
     unat (total_sectors_32 boot) \<le> unat (bd_block_count dev d) \<and> fat_wf dev dinv blk (fresh_fat boot d)"

text \<open>The contents of a cluster and of a chain, and the entries of the FAT.\<close>

definition cluster_data :: "('d \<Rightarrow> nat \<Rightarrow> bytes) \<Rightarrow> Fat32BootSector \<Rightarrow> 'd \<Rightarrow> u32 \<Rightarrow> bytes" where
  "cluster_data blk boot d c =
     concat (map (\<lambda>i. blk d (unat (cluster_to_sector boot c) + i)) [0..<unat (sectors_per_cluster boot)])"

definition chain_data :: "('d \<Rightarrow> nat \<Rightarrow> bytes) \<Rightarrow> Fat32BootSector \<Rightarrow> 'd \<Rightarrow> u32 list \<Rightarrow> bytes" where
  "chain_data blk boot d cs = concat (map (cluster_data blk boot d) cs)"

definition vol_next :: "('d \<Rightarrow> nat \<Rightarrow> bytes) \<Rightarrow> Fat32BootSector \<Rightarrow> 'd \<Rightarrow> u32 \<Rightarrow> u32" where
  "vol_next blk boot d = fat_next blk (fresh_fat boot d)"

definition vol_chain :: "('d \<Rightarrow> nat \<Rightarrow> bytes) \<Rightarrow> Fat32BootSector \<Rightarrow> 'd \<Rightarrow> u32 \<Rightarrow> u32 list \<Rightarrow> bool" where
  "vol_chain blk boot d c cs \<longleftrightarrow> fat_chain (vol_next blk boot d) (vol_clusters boot) c cs"

lemma fresh_fat_fields [simp]:
  "ft_device (fresh_fat boot d) = d" "ft_fat_start (fresh_fat boot d) = fat_start_sector boot"
  "ft_fat_size (fresh_fat boot d) = fat_size_32 boot" "ft_num_fats (fresh_fat boot d) = num_fats boot"
  "ft_bytes_per_sector (fresh_fat boot d) = bytes_per_sector boot"
  "ft_total_clusters (fresh_fat boot d) = cluster_count boot" "ft_free_count (fresh_fat boot d) = None"
  "ft_next_free_hint (fresh_fat boot d) = 2"
  by (simp_all add: fresh_fat_def)

lemma FatTable_new_fresh: "sectors_per_cluster boot \<noteq> 0 \<Longrightarrow> FatTable_new d boot = Ok (fresh_fat boot d)"
  by (simp add: FatTable_new_def fresh_fat_def total_clusters_def cluster_count_def Let_def)

lemma fresh_fat_clusters [simp]: "fat_clusters (fresh_fat boot d) = vol_clusters boot"
  by (simp add: fat_clusters_def vol_clusters_def fresh_fat_def)

lemma vol_okD:
  assumes "vol_ok dev dinv blk boot d"
  shows "FatTable_new d boot = Ok (fresh_fat boot d)" "volume_fits boot" "fat_wf dev dinv blk (fresh_fat boot d)"
    "unat (total_sectors_32 boot) \<le> unat (bd_block_count dev d)" "dinv d" "\<not> bd_is_read_only dev d"
    "bd_block_size dev d = unat (bytes_per_sector boot)" "0 < unat (bytes_per_sector boot)"
    "0 < unat (sectors_per_cluster boot)" "0 < cluster_size boot"
proof -
  have spc: "sectors_per_cluster boot \<noteq> 0" using assms by (simp add: vol_ok_def)
  then show new: "FatTable_new d boot = Ok (fresh_fat boot d)" by (rule FatTable_new_fresh)
  show wf: "fat_wf dev dinv blk (fresh_fat boot d)" and "volume_fits boot"
    "unat (total_sectors_32 boot) \<le> unat (bd_block_count dev d)" using assms by (simp_all add: vol_ok_def)
  note g = fat_geomD [OF fat_wf_geom [OF wf]]
  show "dinv d" "\<not> bd_is_read_only dev d" "bd_block_size dev d = unat (bytes_per_sector boot)"
    and bps: "0 < unat (bytes_per_sector boot)"
    using g(1,2,3,5) by (simp_all add: fresh_fat_def)
  show spc': "0 < unat (sectors_per_cluster boot)" using spc by (simp add: unat_gt_0)
  show "0 < cluster_size boot" using bps spc' by (simp add: cluster_size_def)
qed

lemma cluster_sector_nat:
  assumes ok: "vol_ok dev dinv blk boot d" and c: "c \<in> vol_clusters boot" and i: "i < unat (sectors_per_cluster boot)"
  shows "unat (cluster_sector boot c i) = unat (cluster_to_sector boot c) + i"
    and "unat (cluster_to_sector boot c) + i < unat (bd_block_count dev d)"
    and "unat (cluster_to_sector boot c) + i \<notin> fat_area (fresh_fat boot d)"
proof -
  have c': "2 \<le> unat c" "unat c < unat (cluster_count boot) + 2" using c by (simp_all add: vol_clusters_def)
  note sec = cluster_to_sector_nat [OF vol_okD(2) [OF ok] c']
  have less: "unat (cluster_to_sector boot c) + i < unat (total_sectors_32 boot)" using sec(2) i by linarith
  have "unat (total_sectors_32 boot) < 2 ^ 32" using unat_less_exp [of "total_sectors_32 boot"] by simp
  then have "unat (cluster_to_sector boot c) + i < 2 ^ LENGTH(32)" using less by simp
  from unat_add_of_nat [OF this] show "unat (cluster_sector boot c i) = unat (cluster_to_sector boot c) + i"
    by (simp add: cluster_sector_def)
  show "unat (cluster_to_sector boot c) + i < unat (bd_block_count dev d)" using less vol_okD(4) [OF ok] by simp
  show "unat (cluster_to_sector boot c) + i \<notin> fat_area (fresh_fat boot d)"
    using sec(1) data_start_sector_nat [OF vol_okD(2) [OF ok]]
    by (simp add: fat_area_def fresh_fat_def fat_start_sector_def)
qed

lemma cluster_sectors_apart:
  assumes ok: "vol_ok dev dinv blk boot d" and c: "c \<in> vol_clusters boot" "c' \<in> vol_clusters boot" "c \<noteq> c'"
    and i: "i < unat (sectors_per_cluster boot)" "j < unat (sectors_per_cluster boot)"
  shows "unat (cluster_to_sector boot c) + i \<noteq> unat (cluster_to_sector boot c') + j"
proof -
  define spc where "spc = unat (sectors_per_cluster boot)"
  have c': "2 \<le> unat c" "unat c < unat (cluster_count boot) + 2" "2 \<le> unat c'" "unat c' < unat (cluster_count boot) + 2"
    using c by (simp_all add: vol_clusters_def)
  note sec = cluster_to_sector_nat(1) [OF vol_okD(2) [OF ok]]
  have "((unat c - 2) * spc + i) div spc = unat c - 2" "((unat c' - 2) * spc + j) div spc = unat c' - 2"
    using i by (simp_all add: spc_def)
  moreover have "unat c - 2 \<noteq> unat c' - 2" using c(3) c' by (simp add: word_unat_eq_iff)
  ultimately have "(unat c - 2) * spc + i \<noteq> (unat c' - 2) * spc + j" by metis
  then show ?thesis using sec [OF c'(1,2)] sec [OF c'(3,4)] by (simp add: spc_def)
qed


lemma concat_chunks_upt:
  "(\<And>i. i < k \<Longrightarrow> length (f i) = n) \<Longrightarrow> length (concat (map f [0..<k])) = k * n"
  by (induction k) auto

lemma concat_upt_cong: "(\<And>i. i < k \<Longrightarrow> f i = g i) \<Longrightarrow> concat (map f [0..<k]) = concat (map g [0..<k])"
  by (induction k) auto

lemma overwrite_append_replicate:
  "length xs = off \<Longrightarrow> length ys \<le> m \<Longrightarrow>
   overwrite (xs @ replicate m z) off ys = (xs @ ys) @ replicate (m - length ys) z"
  by (simp add: overwrite_def)

context block_device
begin

lemma length_cluster_data [simp]:
  assumes ok: "vol_ok dev dinv blk boot d" and c: "c \<in> vol_clusters boot"
  shows "length (cluster_data blk boot d c) = cluster_size boot"
  unfolding cluster_data_def cluster_size_def
  using blk_length vol_okD(5,7) [OF ok] cluster_sector_nat(2) [OF ok c] by (intro concat_chunks_upt) simp

lemma read_sectors_loop_ok:
  assumes ok: "vol_ok dev dinv blk boot d" and c: "c \<in> vol_clusters boot"
  shows "k \<le> unat (sectors_per_cluster boot) \<Longrightarrow>
    read_sectors_loop dev d boot c [k..<unat (sectors_per_cluster boot)]
      (concat (map (\<lambda>i. blk d (unat (cluster_to_sector boot c) + i)) [0..<k]) @
       replicate ((unat (sectors_per_cluster boot) - k) * unat (bytes_per_sector boot)) 0) =
    Ok (cluster_data blk boot d c)"
proof (induction "unat (sectors_per_cluster boot) - k" arbitrary: k)
  case 0
  then show ?case by (simp add: cluster_data_def)
next
  case (Suc n)
  define spc bps where "spc = unat (sectors_per_cluster boot)" and "bps = unat (bytes_per_sector boot)"
  let ?f = "\<lambda>i. blk d (unat (cluster_to_sector boot c) + i)"
  have k: "k < spc" using Suc by (simp add: spc_def)
  note sec = cluster_sector_nat [OF ok c k [unfolded spc_def]]
  have read: "bd_read_block dev d (cluster_sector boot c k) bps = Ok (?f k)"
    using read_ok [OF vol_okD(5) [OF ok], of "cluster_sector boot c k"] sec vol_okD(7) [OF ok] by (simp add: bps_def)
  have len: "length (?f i) = bps" if "i < spc" for i
    using blk_length vol_okD(5,7) [OF ok] cluster_sector_nat(2) [OF ok c] that by (simp add: spc_def bps_def)
  have pre: "length (concat (map ?f [0..<k])) = k * bps" using len k by (intro concat_chunks_upt) simp
  have "(spc - k) * bps = bps + (spc - Suc k) * bps"
    using k by (metis Suc_diff_Suc mult_Suc)
  then have put: "slice_put (concat (map ?f [0..<k]) @ replicate ((spc - k) * bps) 0) (k * bps) (?f k) =
      (Ok (concat (map ?f [0..<Suc k]) @ replicate ((spc - Suc k) * bps) 0) :: (bytes, VfsError) outcome)"
    using overwrite_append_replicate [OF pre, of "?f k" "(spc - k) * bps" 0] len [OF k] pre
    by (simp add: slice_put_def)
  have "read_sectors_loop dev d boot c [Suc k..<spc]
      (concat (map ?f [0..<Suc k]) @ replicate ((spc - Suc k) * bps) 0) = Ok (cluster_data blk boot d c)"
    using Suc k unfolding spc_def bps_def by (intro Suc.hyps(1)) auto
  then show ?case using k read put upt_conv_Cons [OF k] by (simp add: Let_def flip: spc_def bps_def)
qed

lemma read_cluster_ok:
  assumes "vol_ok dev dinv blk boot d" and "c \<in> vol_clusters boot"
  shows "read_cluster dev boot d c = Ok (cluster_data blk boot d c)"
  using read_sectors_loop_ok [OF assms, of 0] by (simp add: read_cluster_def cluster_size_def)

text \<open>Whole sectors are transferred, so the padding is empty.\<close>

lemma sector_buf_full: "offset + n \<le> length data \<Longrightarrow> sector_buf n offset data = take n (drop offset data)"
  by (simp add: sector_buf_def overwrite_def Let_def)

lemma write_sectors_ok:
  assumes ok: "vol_ok dev dinv blk boot d" and c: "c \<in> vol_clusters boot" and len: "length data = cluster_size boot"
  defines "s \<equiv> unat (cluster_to_sector boot c)" and "bps \<equiv> unat (bytes_per_sector boot)"
  shows "k \<le> unat (sectors_per_cluster boot) \<Longrightarrow>
    \<exists>d'. act_for [0..<k] (\<lambda>i. let bps = unat (bytes_per_sector boot)
        in act_map_err (\<lambda>_. VfsIoError)
             (bd_write_block dev (cluster_sector boot c i) (sector_buf bps (i * bps) data))) d = (Ok (), d') \<and>
      dinv d' \<and> bd_block_size dev d' = bd_block_size dev d \<and> bd_block_count dev d' = bd_block_count dev d \<and>
      bd_is_read_only dev d' = bd_is_read_only dev d \<and>
      (\<forall>i < unat (bd_block_count dev d). blk d' i =
         (if s \<le> i \<and> i < s + k then take bps (drop ((i - s) * bps) data) else blk d i))"
proof (induction k)
  case 0
  then show ?case using vol_okD(5) [OF ok] by auto
next
  case (Suc k)
  let ?body = "\<lambda>i. let bps = unat (bytes_per_sector boot)
      in act_map_err (\<lambda>_. VfsIoError) (bd_write_block dev (cluster_sector boot c i) (sector_buf bps (i * bps) data))"
  obtain d1 where d1: "act_for [0..<k] ?body d = (Ok (), d1)" "dinv d1"
    "bd_block_size dev d1 = bd_block_size dev d" "bd_block_count dev d1 = bd_block_count dev d"
    "bd_is_read_only dev d1 = bd_is_read_only dev d"
    "\<And>i. i < unat (bd_block_count dev d) \<Longrightarrow> blk d1 i =
       (if s \<le> i \<and> i < s + k then take bps (drop ((i - s) * bps) data) else blk d i)"
    using Suc by auto
  have k: "k < unat (sectors_per_cluster boot)" using Suc.prems by simp
  note sec = cluster_sector_nat [OF ok c k, folded s_def]
  have "Suc k * bps \<le> cluster_size boot"
    unfolding cluster_size_def bps_def using Suc.prems by (intro mult_le_mono1)
  then have range: "k * bps + bps \<le> length data" using len by (simp add: add.commute)
  have size: "bd_block_size dev d = bps" and ro: "\<not> bd_is_read_only dev d"
    using vol_okD(6,7) [OF ok] by (simp_all add: bps_def)
  have "\<exists>d2. bd_write_block dev (cluster_sector boot c k) (take bps (drop (k * bps) data)) d1 = (Ok (), d2) \<and> dinv d2 \<and>
      (\<forall>i < unat (bd_block_count dev d1). blk d2 i = (if i = unat (cluster_sector boot c k)
         then take bps (drop (k * bps) data) else blk d1 i)) \<and>
      bd_block_size dev d2 = bd_block_size dev d1 \<and> bd_block_count dev d2 = bd_block_count dev d1 \<and>
      bd_is_read_only dev d2 = bd_is_read_only dev d1"
    using d1(2-5) sec range size ro by (intro write_ok) auto
  then obtain d2 where d2:
    "bd_write_block dev (cluster_sector boot c k) (take bps (drop (k * bps) data)) d1 = (Ok (), d2)" "dinv d2"
    "bd_block_size dev d2 = bd_block_size dev d" "bd_block_count dev d2 = bd_block_count dev d"
    "bd_is_read_only dev d2 = bd_is_read_only dev d"
    "\<And>i. i < unat (bd_block_count dev d) \<Longrightarrow> blk d2 i = (if i = s + k then take bps (drop (k * bps) data) else blk d1 i)"
    using d1(3-5) sec(1) by auto
  have "?body k d1 = (Ok (), d2)"
    using d2(1) sector_buf_full [OF range] by (simp add: Let_def act_map_err_def bps_def)
  then have run: "act_for [0..<Suc k] ?body d = (Ok (), d2)" using d1(1) by (simp add: act_for_append act_bind_def)
  have "blk d2 i = (if s \<le> i \<and> i < s + Suc k then take bps (drop ((i - s) * bps) data) else blk d i)"
    if "i < unat (bd_block_count dev d)" for i
    using d1(6) [OF that] d2(6) [OF that] by (auto simp: less_Suc_eq)
  then show ?case using run d2(2-5) by blast
qed


text \<open>The blocks outside the FATs and the data of a table whose device was written to outside the FATs.\<close>

lemma fat_raw_cong:
  assumes geom: "fat_geom dev dinv (fresh_fat boot d)" and c: "c \<in> vol_clusters boot"
    and k: "k < unat (num_fats boot)"
    and blk': "\<And>i. i \<in> fat_area (fresh_fat boot d) \<Longrightarrow> i < unat (bd_block_count dev d) \<Longrightarrow> blk d' i = blk d i"
  shows "fat_raw blk (fresh_fat boot d') k c = fat_raw blk (fresh_fat boot d) k c"
proof -
  have "fat_slot (fresh_fat boot d') k c = fat_slot (fresh_fat boot d) k c" by (simp add: fat_slot_def)
  moreover have "blk d' (fat_slot (fresh_fat boot d) k c) = blk d (fat_slot (fresh_fat boot d) k c)"
    using fat_slot_in_area [OF geom, of c k] c k blk' by simp
  ultimately show ?thesis by (simp add: fat_raw_def)
qed

lemma vol_ok_data:
  assumes ok: "vol_ok dev dinv blk boot d"
    and d': "dinv d'" "bd_block_size dev d' = bd_block_size dev d" "bd_block_count dev d' = bd_block_count dev d"
      "bd_is_read_only dev d' = bd_is_read_only dev d"
    and blk': "\<And>i. i \<in> fat_area (fresh_fat boot d) \<Longrightarrow> i < unat (bd_block_count dev d) \<Longrightarrow> blk d' i = blk d i"
  shows "vol_ok dev dinv blk boot d'" and "c \<in> vol_clusters boot \<Longrightarrow> vol_next blk boot d' c = vol_next blk boot d c"
proof -
  note wf = vol_okD(3) [OF ok]
  note geom = fat_wf_geom [OF wf]
  have nf: "0 < unat (num_fats boot)" using fat_geomD(6) [OF geom] by simp
  note raw = fat_raw_cong [OF geom _ _ blk']
  have next': "fat_next blk (fresh_fat boot d') c = fat_next blk (fresh_fat boot d) c" if "c \<in> vol_clusters boot" for c
    using raw [OF that nf] by (simp add: fat_next_def)
  show "c \<in> vol_clusters boot \<Longrightarrow> vol_next blk boot d' c = vol_next blk boot d c"
    unfolding vol_next_def by (rule next')
  have "fat_mirror blk (fresh_fat boot d')"
    using wf raw next' unfolding fat_wf_def fat_mirror_def by simp
  moreover have "fat_geom dev dinv (fresh_fat boot d')"
    using geom d' by (simp add: fat_geom_def)
  ultimately have "fat_wf dev dinv blk (fresh_fat boot d')"
    using wf by (simp add: fat_wf_def)
  then show "vol_ok dev dinv blk boot d'" using ok d'(3) by (simp add: vol_ok_def)
qed

lemma write_cluster_ok:
  assumes ok: "vol_ok dev dinv blk boot d" and c: "c \<in> vol_clusters boot" and len: "length data = cluster_size boot"
  obtains d' where "write_cluster dev boot c data d = (Ok (), d')" and "vol_ok dev dinv blk boot d'"
    and "\<And>c'. c' \<in> vol_clusters boot \<Longrightarrow> cluster_data blk boot d' c' = (if c' = c then data else cluster_data blk boot d c')"
    and "\<And>c'. c' \<in> vol_clusters boot \<Longrightarrow> vol_next blk boot d' c' = vol_next blk boot d c'"
proof -
  define s bps spc where "s = unat (cluster_to_sector boot c)" and "bps = unat (bytes_per_sector boot)"
    and "spc = unat (sectors_per_cluster boot)"
  obtain d' where d': "write_cluster dev boot c data d = (Ok (), d')" "dinv d'"
    "bd_block_size dev d' = bd_block_size dev d" "bd_block_count dev d' = bd_block_count dev d"
    "bd_is_read_only dev d' = bd_is_read_only dev d"
    and blk': "\<And>i. i < unat (bd_block_count dev d) \<Longrightarrow> blk d' i =
       (if s \<le> i \<and> i < s + spc then take bps (drop ((i - s) * bps) data) else blk d i)"
    using write_sectors_ok [OF ok c len order_refl] unfolding write_cluster_def s_def bps_def spc_def by auto
  have "blk d' i = blk d i" if "i \<in> fat_area (fresh_fat boot d)" "i < unat (bd_block_count dev d)" for i
  proof -
    have "\<not> (s \<le> i \<and> i < s + spc)"
      using cluster_sector_nat(3) [OF ok c] that(1) by (auto simp: s_def spc_def dest!: le_Suc_ex)
    then show ?thesis using blk' [OF that(2)] by auto
  qed
  note vol = vol_ok_data [OF ok d'(2-5) this]
  have "cluster_data blk boot d' c' = (if c' = c then data else cluster_data blk boot d c')"
    if c': "c' \<in> vol_clusters boot" for c'
  proof (cases "c' = c")
    case True
    have "blk d' (s + i) = take bps (drop (i * bps) data)" if "i < spc" for i
      using blk' [of "s + i"] cluster_sector_nat(2) [OF ok c, of i] that by (simp add: s_def spc_def)
    then have "cluster_data blk boot d' c = concat (map (\<lambda>i. take bps (drop (i * bps) data)) [0..<spc])"
      unfolding cluster_data_def spc_def [symmetric] s_def [symmetric] by (rule concat_upt_cong)
    also have "\<dots> = data" using len by (intro concat_chunks) (simp add: cluster_size_def spc_def bps_def)
    finally show ?thesis using True by simp
  next
    case False
    have "blk d' (unat (cluster_to_sector boot c') + i) = blk d (unat (cluster_to_sector boot c') + i)" if "i < spc" for i
    proof -
      note less = cluster_sector_nat(2) [OF ok c' that [unfolded spc_def]]
      have "\<not> (s \<le> unat (cluster_to_sector boot c') + i \<and> unat (cluster_to_sector boot c') + i < s + spc)"
        using cluster_sectors_apart [OF ok c' c False that [unfolded spc_def]]
        unfolding s_def spc_def by (metis add_less_cancel_left le_Suc_ex)
      then show ?thesis using blk' [OF less] by auto
    qed
    then have "cluster_data blk boot d' c' = cluster_data blk boot d c'"
      unfolding cluster_data_def spc_def [symmetric] by (rule concat_upt_cong)
    then show ?thesis using False by simp
  qed
  then show ?thesis using that d'(1) vol by blast
qed

end


section \<open>Tables of the volume\<close>

text \<open>A FAT table in use: it has the geometry of the boot sector, its caches may be anything consistent.\<close>

definition vol_tab ::
    "'d blkdev \<Rightarrow> ('d \<Rightarrow> bool) \<Rightarrow> ('d \<Rightarrow> nat \<Rightarrow> bytes) \<Rightarrow> Fat32BootSector \<Rightarrow> 'd FatTable \<Rightarrow> bool" where
  "vol_tab dev dinv blk boot ft \<longleftrightarrow>
     ft_fat_start ft = fat_start_sector boot \<and> ft_fat_size ft = fat_size_32 boot \<and> ft_num_fats ft = num_fats boot \<and>
     ft_bytes_per_sector ft = bytes_per_sector boot \<and> ft_total_clusters ft = cluster_count boot \<and>
     vol_ok dev dinv blk boot (ft_device ft) \<and> fat_wf dev dinv blk ft"

definition vol_free :: "('d \<Rightarrow> nat \<Rightarrow> bytes) \<Rightarrow> Fat32BootSector \<Rightarrow> 'd \<Rightarrow> u32 set" where
  "vol_free blk boot d = {c \<in> vol_clusters boot. vol_next blk boot d c = FAT_FREE}"

lemma vol_tab_fresh [simp]: "vol_ok dev dinv blk boot d \<Longrightarrow> vol_tab dev dinv blk boot (fresh_fat boot d)"
  by (simp add: vol_tab_def vol_okD(3))

lemma fresh_fat_eq:
  assumes "ft_fat_start ft = fat_start_sector boot" "ft_fat_size ft = fat_size_32 boot" "ft_num_fats ft = num_fats boot"
    "ft_bytes_per_sector ft = bytes_per_sector boot" "ft_total_clusters ft = cluster_count boot"
  shows "fresh_fat boot (ft_device ft) = ft\<lparr>ft_free_count := None, ft_next_free_hint := 2\<rparr>"
  using assms by (cases ft) (simp add: fresh_fat_def)

lemma vol_tabD:
  assumes "vol_tab dev dinv blk boot ft"
  shows "vol_ok dev dinv blk boot (ft_device ft)" "fat_wf dev dinv blk ft" "fat_clusters ft = vol_clusters boot"
    "fat_next blk ft = vol_next blk boot (ft_device ft)" "fat_free blk ft = vol_free blk boot (ft_device ft)"
proof -
  have eq: "fresh_fat boot (ft_device ft) = ft\<lparr>ft_free_count := None, ft_next_free_hint := 2\<rparr>"
    using assms by (intro fresh_fat_eq) (simp_all add: vol_tab_def)
  show "vol_ok dev dinv blk boot (ft_device ft)" "fat_wf dev dinv blk ft" using assms by (simp_all add: vol_tab_def)
  show cl: "fat_clusters ft = vol_clusters boot" using assms by (simp add: vol_tab_def fat_clusters_def vol_clusters_def)
  show next': "fat_next blk ft = vol_next blk boot (ft_device ft)" by (simp add: vol_next_def eq)
  show "fat_free blk ft = vol_free blk boot (ft_device ft)" by (simp add: fat_free_def vol_free_def cl next')
qed

lemma fat_wf_fresh:
  assumes wf: "fat_wf dev dinv blk ft" and geom: "ft_fat_start ft = fat_start_sector boot" "ft_fat_size ft = fat_size_32 boot"
    "ft_num_fats ft = num_fats boot" "ft_bytes_per_sector ft = bytes_per_sector boot"
    "ft_total_clusters ft = cluster_count boot"
  shows "fat_wf dev dinv blk (fresh_fat boot (ft_device ft))"
  unfolding fresh_fat_eq [OF geom] using wf by (simp add: fat_wf_def)

text \<open>A FAT operation changes the entries and the caches; a write to a cluster does neither.\<close>

lemma vol_tab_step:
  assumes tab: "vol_tab dev dinv blk boot ft" and wf': "fat_wf dev dinv blk ft'" and ext: "fat_ext dev dinv blk ft ft'"
  shows "vol_tab dev dinv blk boot ft'"
    and "c \<in> vol_clusters boot \<Longrightarrow> cluster_data blk boot (ft_device ft') c = cluster_data blk boot (ft_device ft) c"
proof -
  have geom: "ft_fat_start ft' = fat_start_sector boot" "ft_fat_size ft' = fat_size_32 boot"
    "ft_num_fats ft' = num_fats boot" "ft_bytes_per_sector ft' = bytes_per_sector boot"
    "ft_total_clusters ft' = cluster_count boot"
    using tab ext by (simp_all add: vol_tab_def fat_ext_def)
  have ok: "vol_ok dev dinv blk boot (ft_device ft)" using tab by (simp add: vol_tab_def)
  have count: "bd_block_count dev (ft_device ft') = bd_block_count dev (ft_device ft)" using ext by (simp add: fat_ext_def)
  have "vol_ok dev dinv blk boot (ft_device ft')"
    using ok fat_wf_fresh [OF wf' geom] count by (simp add: vol_ok_def)
  then show "vol_tab dev dinv blk boot ft'" using geom wf' by (simp add: vol_tab_def)
  have area: "fat_area ft = fat_area (fresh_fat boot (ft_device ft))" using tab by (simp add: vol_tab_def fat_area_def)
  show "cluster_data blk boot (ft_device ft') c = cluster_data blk boot (ft_device ft) c" if "c \<in> vol_clusters boot"
    unfolding cluster_data_def
  proof (rule concat_upt_cong)
    fix i assume "i < unat (sectors_per_cluster boot)"
    from cluster_sector_nat(2,3) [OF ok that this] ext
    show "blk (ft_device ft') (unat (cluster_to_sector boot c) + i) = blk (ft_device ft) (unat (cluster_to_sector boot c) + i)"
      by (simp add: fat_ext_def area)
  qed
qed

lemma vol_tab_data:
  assumes tab: "vol_tab dev dinv blk boot ft" and ok: "vol_ok dev dinv blk boot d'"
    and same: "\<And>c. c \<in> vol_clusters boot \<Longrightarrow> vol_next blk boot d' c = vol_next blk boot (ft_device ft) c"
  shows "vol_tab dev dinv blk boot (ft\<lparr>ft_device := d'\<rparr>)"
proof -
  let ?ft = "ft\<lparr>ft_device := d'\<rparr>"
  have eq: "fresh_fat boot d' = ?ft\<lparr>ft_free_count := None, ft_next_free_hint := 2\<rparr>"
    using tab fresh_fat_eq [of ?ft boot] by (simp add: vol_tab_def)
  have wf: "fat_wf dev dinv blk (?ft\<lparr>ft_free_count := None, ft_next_free_hint := 2\<rparr>)"
    using vol_okD(3) [OF ok] unfolding eq .
  have next': "fat_next blk ?ft = vol_next blk boot d'" by (simp add: vol_next_def eq)
  have "fat_free blk ?ft = fat_free blk ft"
    using same by (auto simp: vol_tabD(5) [OF tab] fat_free_def vol_free_def next' vol_tabD(3,4) [OF tab])
  then have "fat_wf dev dinv blk ?ft"
    using wf vol_tabD(2) [OF tab] by (simp add: fat_wf_def)
  then show ?thesis using tab ok by (simp add: vol_tab_def)
qed

lemma vol_chain_tab:
  "vol_tab dev dinv blk boot ft \<Longrightarrow>
   vol_chain blk boot (ft_device ft) c cs \<longleftrightarrow> fat_chain (fat_next blk ft) (fat_clusters ft) c cs"
  by (simp add: vol_chain_def vol_tabD)

lemma vol_chain_cong:
  assumes "\<And>x. x \<in> set cs \<Longrightarrow> vol_next blk boot d' x = vol_next blk boot d x"
  shows "vol_chain blk boot d' c cs \<longleftrightarrow> vol_chain blk boot d c cs"
  unfolding vol_chain_def fat_chain_def using fat_path_cong [of cs "vol_next blk boot d'" "vol_next blk boot d"] assms by simp

context block_device
begin

lemma fat_read_chain_ok:
  assumes ok: "vol_ok dev dinv blk boot d" and chain: "vol_chain blk boot d c cs"
  shows "fat_read_chain dev boot d c = Ok cs"
proof -
  have "read_chain dev (fresh_fat boot d) c = Ok cs"
    using read_chain_iff [OF fat_wf_geom [OF vol_okD(3) [OF ok]]] chain by (simp add: vol_chain_def vol_next_def)
  then show ?thesis by (simp add: fat_read_chain_def vol_okD(1) [OF ok])
qed

end


section \<open>Chains of a volume\<close>

text \<open>The chain of a file or a directory: its last entry is an end mark, not a free entry.\<close>

definition used_chain :: "('d \<Rightarrow> nat \<Rightarrow> bytes) \<Rightarrow> Fat32BootSector \<Rightarrow> 'd \<Rightarrow> u32 \<Rightarrow> u32 list \<Rightarrow> bool" where
  "used_chain blk boot d c cs \<longleftrightarrow>
     (\<exists>e. chain_end e \<and> e \<noteq> FAT_FREE \<and> fat_path (vol_next blk boot d) (vol_clusters boot) c cs e)"

lemma used_chain_cong:
  "(\<And>x. x \<in> set cs \<Longrightarrow> vol_next blk boot d' x = vol_next blk boot d x) \<Longrightarrow>
   used_chain blk boot d' c cs \<longleftrightarrow> used_chain blk boot d c cs"
  unfolding used_chain_def using fat_path_cong [of cs "vol_next blk boot d'" "vol_next blk boot d"] by simp

lemma used_chainD:
  assumes ok: "vol_ok dev dinv blk boot d" and used: "used_chain blk boot d c cs"
  shows "vol_chain blk boot d c cs" "set cs \<subseteq> vol_clusters boot" "distinct cs" "set cs \<inter> vol_free blk boot d = {}"
proof -
  obtain e where e: "chain_end e" "e \<noteq> FAT_FREE" and path: "fat_path (vol_next blk boot d) (vol_clusters boot) c cs e"
    using used by (auto simp: used_chain_def)
  have proper: "proper_clusters (vol_clusters boot)"
    using fat_clusters_proper [OF fat_wf_geom [OF vol_okD(3) [OF ok]]] by simp
  show "vol_chain blk boot d c cs" using e path by (auto simp: vol_chain_def fat_chain_def)
  show "set cs \<subseteq> vol_clusters boot" by (rule fat_path_subset [OF path])
  show "distinct cs" by (rule fat_path_distinct [OF proper e(1) path])
  show "set cs \<inter> vol_free blk boot d = {}"
    using fat_path_used [OF proper e(2) path] by (auto simp: vol_free_def)
qed

lemma chain_data_simps [simp]:
  "chain_data blk boot d [] = []" "chain_data blk boot d (c # cs) = cluster_data blk boot d c @ chain_data blk boot d cs"
  "chain_data blk boot d (cs @ cs') = chain_data blk boot d cs @ chain_data blk boot d cs'"
  by (simp_all add: chain_data_def)

lemma chain_data_cong:
  "(\<And>c. c \<in> set cs \<Longrightarrow> cluster_data blk boot d' c = cluster_data blk boot d c) \<Longrightarrow>
   chain_data blk boot d' cs = chain_data blk boot d cs"
  by (induction cs) simp_all

context block_device
begin

lemma length_chain_data:
  assumes "vol_ok dev dinv blk boot d"
  shows "set cs \<subseteq> vol_clusters boot \<Longrightarrow> length (chain_data blk boot d cs) = length cs * cluster_size boot"
  using assms by (induction cs) simp_all

lemma drop_chain_data:
  assumes "vol_ok dev dinv blk boot d"
  shows "set cs \<subseteq> vol_clusters boot \<Longrightarrow>
    chain_data blk boot d (drop k cs) = drop (k * cluster_size boot) (chain_data blk boot d cs)"
proof (induction cs arbitrary: k)
  case (Cons c cs)
  then show ?case using assms by (cases k) (simp_all add: add.commute)
qed simp

end


section \<open>Slots of a directory\<close>

definition dir_entry_at ::
    "('d \<Rightarrow> nat \<Rightarrow> bytes) \<Rightarrow> Fat32BootSector \<Rightarrow> 'd \<Rightarrow> u32 list \<Rightarrow> nat \<Rightarrow> DirEntry option" where
  "dir_entry_at blk boot d ps off = DirEntry_from_bytes (take 32 (drop off (chain_data blk boot d ps)))"

text \<open>A slot of a directory: the 32 bytes at an offset lie in one of its clusters.\<close>

definition slot_in :: "Fat32BootSector \<Rightarrow> u32 list \<Rightarrow> nat \<Rightarrow> bool" where
  "slot_in boot ps off \<longleftrightarrow> off div cluster_size boot < length ps \<and> off mod cluster_size boot + 32 \<le> cluster_size boot"

context block_device
begin

lemma chain_data_update:
  assumes ok: "vol_ok dev dinv blk boot d" and cs: "set cs \<subseteq> vol_clusters boot" "distinct cs" and k: "k < length cs"
    and fits: "off + length bs \<le> cluster_size boot"
    and upd: "\<And>c. c \<in> set cs \<Longrightarrow> cluster_data blk boot d' c =
      (if c = cs ! k then overwrite (cluster_data blk boot d (cs ! k)) off bs else cluster_data blk boot d c)"
  shows "chain_data blk boot d' cs = overwrite (chain_data blk boot d cs) (k * cluster_size boot + off) bs"
proof -
  let ?pre = "take k cs" and ?c = "cs ! k" and ?post = "drop (Suc k) cs"
  have split: "cs = ?pre @ ?c # ?post" by (rule id_take_nth_drop [OF k])
  have mem: "set ?pre \<subseteq> set cs" "set ?post \<subseteq> set cs" by (rule set_take_subset, rule set_drop_subset)
  have "distinct (?pre @ ?c # ?post)" using split cs(2) by simp
  then have notin: "?c \<notin> set ?pre" "?c \<notin> set ?post" by simp_all
  have pre: "chain_data blk boot d' ?pre = chain_data blk boot d ?pre"
    using upd mem(1) notin(1) by (intro chain_data_cong) auto
  have post: "chain_data blk boot d' ?post = chain_data blk boot d ?post"
    using upd mem(2) notin(2) by (intro chain_data_cong) auto
  have "length (chain_data blk boot d ?pre) = k * cluster_size boot"
    using length_chain_data [OF ok, of ?pre] mem(1) cs(1) k by auto
  moreover have "length (cluster_data blk boot d ?c) = cluster_size boot"
    using ok cs(1) k by (meson length_cluster_data nth_mem subsetD)
  ultimately have "overwrite (chain_data blk boot d (?pre @ ?c # ?post)) (k * cluster_size boot + off) bs =
      chain_data blk boot d ?pre @ overwrite (cluster_data blk boot d ?c) off bs @ chain_data blk boot d ?post"
    using overwrite_append2 [of "chain_data blk boot d ?pre"] fits
      overwrite_append [of off "cluster_data blk boot d ?c" "chain_data blk boot d ?post" bs] by simp
  moreover have "chain_data blk boot d' (?pre @ ?c # ?post) =
      chain_data blk boot d ?pre @ overwrite (cluster_data blk boot d ?c) off bs @ chain_data blk boot d ?post"
    using pre post upd [OF nth_mem [OF k]] by simp
  ultimately show ?thesis using split by simp
qed

text \<open>The slot of a directory lies in one cluster.\<close>

lemma slot_data:
  assumes ok: "vol_ok dev dinv blk boot d" and ps: "set ps \<subseteq> vol_clusters boot" and slot: "slot_in boot ps off"
  shows "take 32 (drop off (chain_data blk boot d ps)) =
      take 32 (drop (off mod cluster_size boot) (cluster_data blk boot d (ps ! (off div cluster_size boot))))"
    and "off + 32 \<le> length (chain_data blk boot d ps)"
proof -
  define csz k where "csz = cluster_size boot" and "k = off div cluster_size boot"
  have k: "k < length ps" "off mod csz + 32 \<le> csz" using slot by (simp_all add: slot_in_def csz_def k_def)
  have off: "off = k * csz + off mod csz" by (simp add: k_def csz_def)
  have c: "ps ! k \<in> vol_clusters boot" using ps k(1) by auto
  have "drop off (chain_data blk boot d ps) = drop (off mod csz) (chain_data blk boot d (drop k ps))"
    using drop_chain_data [OF ok ps, of k] off by (metis csz_def drop_drop add.commute)
  also have "chain_data blk boot d (drop k ps) = cluster_data blk boot d (ps ! k) @ chain_data blk boot d (drop (Suc k) ps)"
    using k(1) by (simp flip: Cons_nth_drop_Suc)
  finally show "take 32 (drop off (chain_data blk boot d ps)) = take 32 (drop (off mod csz) (cluster_data blk boot d (ps ! k)))"
    using k(2) ok c by (simp add: csz_def)
  have "Suc k * csz \<le> length ps * csz" using k(1) by (intro mult_le_mono1) simp
  then show "off + 32 \<le> length (chain_data blk boot d ps)"
    using off k(2) length_chain_data [OF ok ps] by (simp add: csz_def)
qed

text \<open>Writing the 32 bytes of a slot: the cluster is read, changed and written back.\<close>

lemma write_slot_ok:
  assumes ok: "vol_ok dev dinv blk boot d" and ps: "set ps \<subseteq> vol_clusters boot" "distinct ps"
    and slot: "slot_in boot ps off" and len: "length bs = 32"
  defines "c \<equiv> ps ! (off div cluster_size boot)"
  obtains d' where
    "write_cluster dev boot c (overwrite (cluster_data blk boot d c) (off mod cluster_size boot) bs) d = (Ok (), d')"
    and "vol_ok dev dinv blk boot d'"
    and "chain_data blk boot d' ps = overwrite (chain_data blk boot d ps) off bs"
    and "\<And>x. x \<in> vol_clusters boot - set ps \<Longrightarrow> cluster_data blk boot d' x = cluster_data blk boot d x"
    and "\<And>x. x \<in> vol_clusters boot \<Longrightarrow> vol_next blk boot d' x = vol_next blk boot d x"
proof -
  have k: "off div cluster_size boot < length ps" "off mod cluster_size boot + length bs \<le> cluster_size boot"
    using slot len by (simp_all add: slot_in_def)
  have mem: "c \<in> set ps" "c \<in> vol_clusters boot" using k(1) ps(1) by (auto simp: c_def)
  define data where "data = overwrite (cluster_data blk boot d c) (off mod cluster_size boot) bs"
  have "length data = cluster_size boot" using ok mem(2) k(2) by (simp add: data_def)
  then obtain d' where d': "write_cluster dev boot c data d = (Ok (), d')" "vol_ok dev dinv blk boot d'"
    "\<And>x. x \<in> vol_clusters boot \<Longrightarrow> cluster_data blk boot d' x = (if x = c then data else cluster_data blk boot d x)"
    "\<And>x. x \<in> vol_clusters boot \<Longrightarrow> vol_next blk boot d' x = vol_next blk boot d x"
    using write_cluster_ok [OF ok mem(2)] by metis
  have "chain_data blk boot d' ps =
      overwrite (chain_data blk boot d ps) (off div cluster_size boot * cluster_size boot + off mod cluster_size boot) bs"
    using d'(3) ps(1) by (intro chain_data_update [OF ok ps k]) (auto simp: data_def c_def)
  then have chain: "chain_data blk boot d' ps = overwrite (chain_data blk boot d ps) off bs" by simp
  show ?thesis
  proof (rule that [OF d'(1) [unfolded data_def] d'(2) chain _ d'(4)])
    show "cluster_data blk boot d' x = cluster_data blk boot d x" if "x \<in> vol_clusters boot - set ps" for x
      using d'(3) [of x] that mem(1) by auto
  qed
qed

end

end
