(* ===== verification/Fat_File.thy ===== *)
theory Fat_File
  imports Fat_Cluster
begin

text \<open>
  Files of a FAT32 volume (\<open>Fat32File\<close> in \<open>src/fs/fat32/mod.rs\<close>): reading, writing, truncating and
  the update of the directory entry. The start cluster and the size are behind locks and change; an
  operation that changes them takes and returns the file together with the device. Offsets and
  lengths are \<open>usize\<close>; the sums that may leave 64 bits are reduced explicitly.
\<close>

section \<open>Operations\<close>

definition Fat32File_read_cluster ::
    "'d blkdev \<Rightarrow> Fat32File \<Rightarrow> 'd \<Rightarrow> u32 \<Rightarrow> (bytes, VfsError) outcome" where
  "Fat32File_read_cluster dev f = read_cluster dev (ff_boot f)"

definition Fat32File_write_cluster ::
    "'d blkdev \<Rightarrow> Fat32File \<Rightarrow> u32 \<Rightarrow> bytes \<Rightarrow> ('d, unit, VfsError) act" where
  "Fat32File_write_cluster dev f = write_cluster dev (ff_boot f)"

text \<open>An entry that does not fit in the rest of its cluster is left alone.\<close>

definition update_dir_entry ::
    "'d blkdev \<Rightarrow> Fat32File \<Rightarrow> u32 \<Rightarrow> u32 \<Rightarrow> ('d, unit, VfsError) act" where
  "update_dir_entry dev f new_cluster new_size =
     act_bind (act_lift (\<lambda>d. fat_read_chain dev (ff_boot f) d (ff_parent_cluster f))) (\<lambda>chain.
       let csz = cluster_size (ff_boot f)
       in if csz = 0 then act_panic
          else
            let cluster_idx = ff_entry_offset f div csz; offset_in_cluster = ff_entry_offset f mod csz
            in if cluster_idx \<ge> length chain then act_fail VfsIoError
               else
                 let cluster = chain ! cluster_idx
                 in act_bind (act_lift (\<lambda>d. Fat32File_read_cluster dev f d cluster)) (\<lambda>data.
                      case DirEntry_from_bytes (drop offset_in_cluster data) of
                        Some entry \<Rightarrow>
                          let entry = (set_cluster new_cluster entry)\<lparr>de_file_size := new_size\<rparr>
                          in act_bind (act_lift (\<lambda>_. slice_put data offset_in_cluster (to_bytes entry))) (\<lambda>data.
                               Fat32File_write_cluster dev f cluster data)
                      | None \<Rightarrow> act_return ()))"

text \<open>The loop of \<open>read\<close>; the accumulator is the part of the caller's buffer that is filled.\<close>

fun file_read_loop ::
    "'d blkdev \<Rightarrow> Fat32File \<Rightarrow> 'd \<Rightarrow> nat \<Rightarrow> u32 list \<Rightarrow> nat \<Rightarrow> nat \<Rightarrow> bytes \<Rightarrow> (bytes, VfsError) outcome" where
  "file_read_loop dev f d csz [] cluster_offset bytes_to_read acc = Ok acc"
| "file_read_loop dev f d csz (cluster # cs) cluster_offset bytes_to_read acc =
     (if length acc \<ge> bytes_to_read then Ok acc
      else and_then (Fat32File_read_cluster dev f d cluster) (\<lambda>data.
        let copy_len = min (csz - cluster_offset) (bytes_to_read - length acc)
        in and_then (slice_get data cluster_offset copy_len) (\<lambda>part.
             file_read_loop dev f d csz cs 0 bytes_to_read (acc @ part))))"

definition Fat32File_read ::
    "'d blkdev \<Rightarrow> Fat32File \<Rightarrow> 'd \<Rightarrow> nat \<Rightarrow> nat \<Rightarrow> (bytes, VfsError) outcome" where
  "Fat32File_read dev f d offset buf_len =
     (if offset \<ge> unat (ff_size f) then Ok []
      else if ff_start_cluster f < 2 then Ok []
      else and_then (fat_read_chain dev (ff_boot f) d (ff_start_cluster f)) (\<lambda>chain.
        let csz = cluster_size (ff_boot f); bytes_to_read = min buf_len (unat (ff_size f) - offset)
        in if csz = 0 then Panic
           else file_read_loop dev f d csz (drop (offset div csz) chain) (offset mod csz) bytes_to_read []))"

text \<open>
  During \<open>write\<close> and \<open>truncate\<close> the FAT table and its caches live from call to call; every access to the
  device goes to the device of that table.
\<close>

definition on_table :: "('d FatTable, 'a, 'e) act \<Rightarrow> (Fat32File \<times> 'd FatTable, 'a, 'e) act" where
  "on_table m s = (case s of (f, ft) \<Rightarrow> (case m ft of (r, ft') \<Rightarrow> (r, (f, ft'))))"

definition on_device :: "('d, 'a, 'e) act \<Rightarrow> ('d FatTable, 'a, 'e) act" where
  "on_device m ft = (case m (ft_device ft) of (r, d') \<Rightarrow> (r, ft\<lparr>ft_device := d'\<rparr>))"

definition with_file_fat ::
    "(Fat32File \<times> 'd FatTable, 'a, VfsError) act \<Rightarrow> (Fat32File \<times> 'd, 'a, VfsError) act" where
  "with_file_fat m s =
     (case s of (f, d) \<Rightarrow>
        (case FatTable_new d (ff_boot f) of
           Ok ft \<Rightarrow> (case m (f, ft) of (r, f', ft') \<Rightarrow> (r, f', ft_device ft'))
         | Err e \<Rightarrow> (Err e, s)
         | Panic \<Rightarrow> (Panic, s)))"

text \<open>The first cluster of an empty file.\<close>

definition ensure_first_cluster :: "'d blkdev \<Rightarrow> (Fat32File \<times> 'd FatTable, unit, VfsError) act" where
  "ensure_first_cluster dev s =
     (if ff_start_cluster (fst s) < 2 then
        act_bind (on_table (act_map_err (\<lambda>_. NoSpace) (alloc_cluster dev))) (\<lambda>new_cluster.
          act_modify (\<lambda>(f, ft). (f\<lparr>ff_start_cluster := new_cluster\<rparr>, ft))) s
      else (Ok (), s))"

text \<open>The chain of the file, extended to the required number of clusters.\<close>

definition ensure_clusters ::
    "'d blkdev \<Rightarrow> nat \<Rightarrow> u32 list \<Rightarrow> (Fat32File \<times> 'd FatTable, u32 list, VfsError) act" where
  "ensure_clusters dev required_clusters chain =
     (if required_clusters > length chain then
        if chain = [] then act_panic
        else act_bind (on_table (act_map_err (\<lambda>_. NoSpace)
               (extend_chain dev (last chain) (required_clusters - length chain)))) (\<lambda>new_clusters.
             act_return (chain @ new_clusters))
      else act_return chain)"

fun file_write_loop ::
    "'d blkdev \<Rightarrow> Fat32File \<Rightarrow> nat \<Rightarrow> u32 list \<Rightarrow> nat \<Rightarrow> bytes \<Rightarrow> nat \<Rightarrow> ('d, nat, VfsError) act" where
  "file_write_loop dev f csz [] cluster_offset buf bytes_written = act_return bytes_written"
| "file_write_loop dev f csz (cluster # cs) cluster_offset buf bytes_written =
     (if bytes_written \<ge> length buf then act_return bytes_written
      else act_bind (act_lift (\<lambda>d. Fat32File_read_cluster dev f d cluster)) (\<lambda>data.
        let copy_len = min (csz - cluster_offset) (length buf - bytes_written)
        in act_bind (act_lift (\<lambda>_. slice_put data cluster_offset (take copy_len (drop bytes_written buf)))) (\<lambda>data.
           act_bind (Fat32File_write_cluster dev f cluster data) (\<lambda>_.
             file_write_loop dev f csz cs 0 buf (bytes_written + copy_len)))))"

definition set_size :: "u32 \<Rightarrow> Fat32File \<times> 'd FatTable \<Rightarrow> Fat32File \<times> 'd FatTable" where
  "set_size n s = (case s of (f, ft) \<Rightarrow> (f\<lparr>ff_size := n\<rparr>, ft))"

definition save_entry :: "'d blkdev \<Rightarrow> (Fat32File \<times> 'd FatTable, unit, VfsError) act" where
  "save_entry dev s =
     on_table (on_device (update_dir_entry dev (fst s) (ff_start_cluster (fst s)) (ff_size (fst s)))) s"

definition file_chain :: "'d blkdev \<Rightarrow> (Fat32File \<times> 'd FatTable, u32 list, VfsError) act" where
  "file_chain dev =
     act_lift (\<lambda>(f, ft). map_err (\<lambda>_. VfsIoError) (read_chain dev ft (ff_start_cluster f)))"

definition file_write_body ::
    "'d blkdev \<Rightarrow> nat \<Rightarrow> bytes \<Rightarrow> (Fat32File \<times> 'd FatTable, nat, VfsError) act" where
  "file_write_body dev offset buf s =
     (let csz = cluster_size (ff_boot (fst s)); end_offset = (offset + length buf) mod 2 ^ 64
      in act_bind (ensure_first_cluster dev) (\<lambda>_.
         act_bind (file_chain dev) (\<lambda>chain.
         if csz = 0 then act_panic
         else act_bind (ensure_clusters dev ((end_offset + csz - 1) mod 2 ^ 64 div csz) chain) (\<lambda>chain.
         act_bind (on_table (on_device (file_write_loop dev (fst s) csz (drop (offset div csz) chain)
                     (offset mod csz) buf 0))) (\<lambda>bytes_written.
         act_bind (act_modify (\<lambda>s. if end_offset > unat (ff_size (fst s)) then set_size (of_nat end_offset) s else s)) (\<lambda>_.
         act_bind (save_entry dev) (\<lambda>_.
         act_return bytes_written)))))) s)"

definition Fat32File_write ::
    "'d blkdev \<Rightarrow> nat \<Rightarrow> bytes \<Rightarrow> (Fat32File \<times> 'd, nat, VfsError) act" where
  "Fat32File_write dev offset buf =
     (if buf = [] then act_return 0 else with_file_fat (file_write_body dev offset buf))"

definition file_truncate_body ::
    "'d blkdev \<Rightarrow> u32 \<Rightarrow> (Fat32File \<times> 'd FatTable, unit, VfsError) act" where
  "file_truncate_body dev new_size s =
     (let f = fst s; csz = cluster_size (ff_boot f)
      in act_bind
          (if new_size = 0 then
             (\<lambda>s. if ff_start_cluster f \<ge> 2 then
                act_bind (on_table (act_map_err (\<lambda>_. VfsIoError) (free_chain dev (ff_start_cluster f)))) (\<lambda>_.
                  act_modify (\<lambda>(f, ft). (f\<lparr>ff_start_cluster := 0, ff_size := 0\<rparr>, ft))) s
              else act_modify (set_size 0) s)
           else if new_size < ff_size f then
             if csz = 0 then act_panic
             else act_bind
               (if ff_start_cluster f \<ge> 2 then
                  on_table (act_map_err (\<lambda>_. VfsIoError)
                    (truncate_chain dev (ff_start_cluster f) ((unat new_size + csz - 1) div csz)))
                else act_return ())
               (\<lambda>_. act_modify (set_size new_size))
           else if new_size > ff_size f then
             act_bind (ensure_first_cluster dev) (\<lambda>_.
               if csz = 0 then act_panic
               else act_bind (file_chain dev) (\<lambda>chain.
                 act_bind (ensure_clusters dev ((unat new_size + csz - 1) div csz) chain) (\<lambda>_.
                   act_modify (set_size new_size))))
           else act_return ())
          (\<lambda>_. save_entry dev) s)"

definition Fat32File_truncate :: "'d blkdev \<Rightarrow> u64 \<Rightarrow> (Fat32File \<times> 'd, unit, VfsError) act" where
  "Fat32File_truncate dev new_size = with_file_fat (file_truncate_body dev (ucast new_size))"

definition Fat32File_stat :: "Fat32File \<Rightarrow> Stat" where
  "Fat32File_stat f =
     Stat_default\<lparr>stat_node_type := VFile, stat_mode := default_file, stat_size := ucast (ff_size f),
       stat_nlink := 1, stat_blksize := ucast (bytes_per_sector (ff_boot f)),
       stat_blocks := (ucast (ff_size f) + 511) div 512\<rparr>"


section \<open>Reading\<close>

context block_device
begin

lemma file_read_loop_ok:
  assumes ok: "vol_ok dev dinv blk (ff_boot f) d"
  shows "set cs \<subseteq> vol_clusters (ff_boot f) \<Longrightarrow> off \<le> cluster_size (ff_boot f) \<Longrightarrow>
    file_read_loop dev f d (cluster_size (ff_boot f)) cs off n acc =
      Ok (acc @ take (n - length acc) (drop off (chain_data blk (ff_boot f) d cs)))"
proof (induction cs arbitrary: off acc)
  case (Cons c cs)
  define csz data where "csz = cluster_size (ff_boot f)" and "data = cluster_data blk (ff_boot f) d c"
  have c: "c \<in> vol_clusters (ff_boot f)" using Cons.prems by simp
  have len: "length data = csz" using ok c by (simp add: data_def csz_def)
  define part where "part = take (min (csz - off) (n - length acc)) (drop off data)"
  have get: "slice_get data off (min (csz - off) (n - length acc)) = (Ok part :: (bytes, VfsError) outcome)"
    using Cons.prems(2) len by (simp add: slice_get_def part_def csz_def)
  have "file_read_loop dev f d csz cs 0 n (acc @ part) =
      Ok ((acc @ part) @ take (n - length (acc @ part)) (chain_data blk (ff_boot f) d cs))"
    using Cons.IH [of 0] Cons.prems by (simp add: csz_def)
  moreover have "part @ take (n - length (acc @ part)) (chain_data blk (ff_boot f) d cs) =
      take (n - length acc) (drop off (data @ chain_data blk (ff_boot f) d cs))"
    using Cons.prems(2) len by (auto simp: part_def csz_def min_def)
  ultimately show ?case
    using read_cluster_ok [OF ok c] get
    by (simp add: Fat32File_read_cluster_def Let_def flip: data_def csz_def)
qed simp

end


text \<open>
  A file in order: its chain has room for its size, and a file without a chain is empty. Its contents
  are the first bytes of its chain.
\<close>

definition file_wf ::
    "('d \<Rightarrow> nat \<Rightarrow> bytes) \<Rightarrow> 'd \<Rightarrow> Fat32File \<Rightarrow> u32 list \<Rightarrow> bool" where
  "file_wf blk d f cs \<longleftrightarrow>
     unat (ff_size f) \<le> length cs * cluster_size (ff_boot f) \<and>
     (if ff_start_cluster f < 2 then cs = []
      else cs \<noteq> [] \<and> used_chain blk (ff_boot f) d (ff_start_cluster f) cs)"

definition file_data :: "('d \<Rightarrow> nat \<Rightarrow> bytes) \<Rightarrow> 'd \<Rightarrow> Fat32File \<Rightarrow> u32 list \<Rightarrow> bytes" where
  "file_data blk d f cs = take (unat (ff_size f)) (chain_data blk (ff_boot f) d cs)"

lemma file_wf_used:
  assumes "vol_ok dev dinv blk (ff_boot f) d" and "file_wf blk d f cs"
  shows "set cs \<subseteq> vol_clusters (ff_boot f)" "distinct cs" "set cs \<inter> vol_free blk (ff_boot f) d = {}"
proof -
  have "cs = [] \<or> used_chain blk (ff_boot f) d (ff_start_cluster f) cs"
    using assms(2) by (auto simp: file_wf_def split: if_splits)
  then show "set cs \<subseteq> vol_clusters (ff_boot f)" "distinct cs" "set cs \<inter> vol_free blk (ff_boot f) d = {}"
    using used_chainD(2-4) [OF assms(1)] by fastforce+
qed

context block_device
begin

lemma length_file_data:
  assumes "vol_ok dev dinv blk (ff_boot f) d" and "file_wf blk d f cs"
  shows "length (file_data blk d f cs) = unat (ff_size f)"
  using assms file_wf_used(1) [OF assms] by (simp add: file_data_def length_chain_data file_wf_def)

lemma file_read_ok:
  assumes ok: "vol_ok dev dinv blk (ff_boot f) d" and wf: "file_wf blk d f cs"
  shows "Fat32File_read dev f d offset n = Ok (take n (drop offset (file_data blk d f cs)))"
proof (cases "unat (ff_size f) \<le> offset \<or> ff_start_cluster f < 2")
  case True
  then have "drop offset (file_data blk d f cs) = []"
    using wf length_file_data [OF assms] by (auto simp: file_wf_def file_data_def)
  then show ?thesis using True by (auto simp: Fat32File_read_def)
next
  case False
  define csz where "csz = cluster_size (ff_boot f)"
  have csz: "0 < csz" using vol_okD(10) [OF ok] by (simp add: csz_def)
  have used: "used_chain blk (ff_boot f) d (ff_start_cluster f) cs" using wf False by (simp add: file_wf_def)
  note chain = used_chainD [OF ok used]
  let ?n = "min n (unat (ff_size f) - offset)"
  have "set (drop (offset div csz) cs) \<subseteq> vol_clusters (ff_boot f)"
    using chain(2) set_drop_subset by fastforce
  then have "file_read_loop dev f d csz (drop (offset div csz) cs) (offset mod csz) ?n [] =
      Ok (take ?n (drop (offset mod csz) (drop (offset div csz * csz) (chain_data blk (ff_boot f) d cs))))"
    using file_read_loop_ok [OF ok] csz drop_chain_data [OF ok chain(2)] by (simp add: csz_def less_imp_le)
  also have "\<dots> = Ok (take n (drop offset (file_data blk d f cs)))"
    by (simp add: file_data_def drop_take min_def add.commute)
  finally show ?thesis
    using False csz fat_read_chain_ok [OF ok chain(1)] by (simp add: Fat32File_read_def Let_def csz_def)
qed


section \<open>Writing\<close>

lemma file_write_loop_ok:
  "vol_ok dev dinv blk (ff_boot f) d \<Longrightarrow> set cs \<subseteq> vol_clusters (ff_boot f) \<Longrightarrow> distinct cs \<Longrightarrow>
   off \<le> cluster_size (ff_boot f) \<Longrightarrow> w \<le> length buf \<Longrightarrow>
   off + (length buf - w) \<le> length cs * cluster_size (ff_boot f) \<or> w = length buf \<Longrightarrow>
   \<exists>d'. file_write_loop dev f (cluster_size (ff_boot f)) cs off buf w d = (Ok (length buf), d') \<and>
     vol_ok dev dinv blk (ff_boot f) d' \<and>
     chain_data blk (ff_boot f) d' cs = overwrite (chain_data blk (ff_boot f) d cs) off (drop w buf) \<and>
     (\<forall>c \<in> vol_clusters (ff_boot f) - set cs. cluster_data blk (ff_boot f) d' c = cluster_data blk (ff_boot f) d c) \<and>
     (\<forall>c \<in> vol_clusters (ff_boot f). vol_next blk (ff_boot f) d' c = vol_next blk (ff_boot f) d c)"
proof (induction cs arbitrary: off w d)
  case Nil
  then show ?case by auto
next
  case (Cons c cs)
  show ?case
  proof (cases "w = length buf")
    case True
    then show ?thesis using Cons.prems by auto
  next
    case False
    define boot csz where "boot = ff_boot f" and "csz = cluster_size (ff_boot f)"
    define n where "n = min (csz - off) (length buf - w)"
    define data where "data = overwrite (cluster_data blk boot d c) off (take n (drop w buf))"
    have c: "c \<in> vol_clusters boot" "c \<notin> set cs" using Cons.prems by (simp_all add: boot_def)
    have ok: "vol_ok dev dinv blk boot d" using Cons.prems by (simp add: boot_def)
    have len: "length (cluster_data blk boot d c) = csz" using ok c(1) by (simp add: boot_def csz_def)
    have fits: "off + length (take n (drop w buf)) \<le> length (cluster_data blk boot d c)"
      using Cons.prems(4) len by (simp add: n_def csz_def)
    obtain d1 where d1: "write_cluster dev boot c data d = (Ok (), d1)" "vol_ok dev dinv blk boot d1"
      "\<And>c'. c' \<in> vol_clusters boot \<Longrightarrow> cluster_data blk boot d1 c' = (if c' = c then data else cluster_data blk boot d c')"
      "\<And>c'. c' \<in> vol_clusters boot \<Longrightarrow> vol_next blk boot d1 c' = vol_next blk boot d c'"
      using write_cluster_ok [OF ok c(1), of data] fits len by (auto simp: data_def boot_def csz_def)
    have "w + n \<le> length buf" "(length buf - (w + n)) \<le> length cs * csz \<or> w + n = length buf"
      using Cons.prems(4-6) False by (auto simp: n_def csz_def min_def)
    then obtain d2 where d2: "file_write_loop dev f csz cs 0 buf (w + n) d1 = (Ok (length buf), d2)"
      "vol_ok dev dinv blk boot d2"
      "chain_data blk boot d2 cs = overwrite (chain_data blk boot d1 cs) 0 (drop (w + n) buf)"
      "\<forall>x \<in> vol_clusters boot - set cs. cluster_data blk boot d2 x = cluster_data blk boot d1 x"
      "\<forall>x \<in> vol_clusters boot. vol_next blk boot d2 x = vol_next blk boot d1 x"
      using Cons.IH [OF d1(2) [unfolded boot_def], of 0 "w + n"] Cons.prems by (auto simp: boot_def csz_def)
    have run: "file_write_loop dev f csz (c # cs) off buf w d = (Ok (length buf), d2)"
      using False Cons.prems(5) read_cluster_ok [OF ok c(1)] fits d1(1) d2(1)
      by (simp add: Fat32File_read_cluster_def Fat32File_write_cluster_def act_bind_def slice_put_def Let_def
          flip: boot_def n_def data_def)
    have "chain_data blk boot d1 cs = chain_data blk boot d cs"
      using d1(3) c(2) Cons.prems(2) by (intro chain_data_cong) (auto simp: boot_def)
    moreover have "cluster_data blk boot d2 c = data" using d1(3) d2(4) c by simp
    moreover have "take n (drop w buf) = take (csz - off) (drop w buf)" "drop (w + n) buf = drop (csz - off) (drop w buf)"
      using Cons.prems(5) by (auto simp: n_def min_def add.commute)
    ultimately have "chain_data blk boot d2 (c # cs) = overwrite (chain_data blk boot d (c # cs)) off (drop w buf)"
      using d2(3) overwrite_append [of off "cluster_data blk boot d c" "chain_data blk boot d cs" "drop w buf"]
        len Cons.prems(4) by (simp add: data_def csz_def)
    moreover have "\<forall>x \<in> vol_clusters boot - set (c # cs). cluster_data blk boot d2 x = cluster_data blk boot d x"
      using d1(3) d2(4) by simp
    ultimately show ?thesis using run d2(2,5) d1(4) unfolding boot_def csz_def by auto
  qed
qed


section \<open>The directory entry of the file\<close>

lemma update_dir_entry_ok:
  assumes ok: "vol_ok dev dinv blk (ff_boot f) d" and used: "used_chain blk (ff_boot f) d (ff_parent_cluster f) ps"
    and slot: "slot_in (ff_boot f) ps (ff_entry_offset f)"
  shows "\<exists>d' e. dir_entry_at blk (ff_boot f) d ps (ff_entry_offset f) = Some e \<and>
    update_dir_entry dev f nc ns d = (Ok (), d') \<and> vol_ok dev dinv blk (ff_boot f) d' \<and>
    chain_data blk (ff_boot f) d' ps = overwrite (chain_data blk (ff_boot f) d ps) (ff_entry_offset f)
      (to_bytes ((set_cluster nc e)\<lparr>de_file_size := ns\<rparr>)) \<and>
    (\<forall>c \<in> vol_clusters (ff_boot f) - set ps. cluster_data blk (ff_boot f) d' c = cluster_data blk (ff_boot f) d c) \<and>
    (\<forall>c \<in> vol_clusters (ff_boot f). vol_next blk (ff_boot f) d' c = vol_next blk (ff_boot f) d c)"
proof -
  define boot where "boot = ff_boot f"
  define csz where "csz = cluster_size boot"
  define k o' where "k = ff_entry_offset f div csz" and "o' = ff_entry_offset f mod csz"
  note chain = used_chainD [OF ok used, folded boot_def]
  have k: "k < length ps" "o' + 32 \<le> csz" using slot by (simp_all add: slot_in_def k_def o'_def csz_def boot_def)
  define c where "c = ps ! k"
  have c: "c \<in> vol_clusters boot" using chain(2) k(1) by (auto simp: c_def)
  have len: "length (cluster_data blk boot d c) = csz" using ok c by (simp add: csz_def boot_def)
  obtain e where e: "DirEntry_from_bytes (drop o' (cluster_data blk boot d c)) = Some e"
    using from_bytes_defined [of "drop o' (cluster_data blk boot d c)"] k(2) len by force
  then have at: "dir_entry_at blk boot d ps (ff_entry_offset f) = Some e"
    using slot_data(1) [OF ok chain(2) [unfolded boot_def] slot] from_bytes_take [of "drop o' (cluster_data blk boot d c)"]
    by (simp add: dir_entry_at_def c_def k_def o'_def csz_def boot_def)
  define e' where "e' = (set_cluster nc e)\<lparr>de_file_size := ns\<rparr>"
  have len': "length (to_bytes e') = 32" using from_bytes_wf [OF e] by (simp add: e'_def)
  obtain d' where d': "write_cluster dev boot c (overwrite (cluster_data blk boot d c) o' (to_bytes e')) d = (Ok (), d')"
    "vol_ok dev dinv blk boot d'"
    "chain_data blk boot d' ps = overwrite (chain_data blk boot d ps) (ff_entry_offset f) (to_bytes e')"
    "\<And>x. x \<in> vol_clusters boot - set ps \<Longrightarrow> cluster_data blk boot d' x = cluster_data blk boot d x"
    "\<And>x. x \<in> vol_clusters boot \<Longrightarrow> vol_next blk boot d' x = vol_next blk boot d x"
    using write_slot_ok [OF ok [folded boot_def] chain(2,3) slot [folded boot_def] len']
    unfolding csz_def [symmetric] k_def [symmetric] o'_def [symmetric] c_def [symmetric] by blast
  have "csz \<noteq> 0" using vol_okD(10) [OF ok] by (simp add: csz_def boot_def)
  then have run: "update_dir_entry dev f nc ns d = (Ok (), d')"
    using fat_read_chain_ok [OF ok chain(1) [unfolded boot_def]] k read_cluster_ok [OF ok [folded boot_def] c] e d'(1) len len'
    by (simp add: update_dir_entry_def Fat32File_read_cluster_def Fat32File_write_cluster_def act_bind_def slice_put_def Let_def
        not_le flip: boot_def csz_def k_def o'_def c_def e'_def)
  show ?thesis using at run d'(2-5) unfolding boot_def e'_def by blast
qed

end


section \<open>Growing the chain\<close>

text \<open>
  A chain that has grown into free clusters: the clusters keep their contents, and no entry outside
  the new chain has changed.
\<close>

definition grown ::
    "('d \<Rightarrow> nat \<Rightarrow> bytes) \<Rightarrow> Fat32BootSector \<Rightarrow> 'd \<Rightarrow> u32 list \<Rightarrow> 'd \<Rightarrow> u32 list \<Rightarrow> bool" where
  "grown blk boot d cs d' cs' \<longleftrightarrow>
     prefix cs cs' \<and> set cs' \<subseteq> set cs \<union> vol_free blk boot d \<and>
     (\<forall>c \<in> vol_clusters boot. cluster_data blk boot d' c = cluster_data blk boot d c) \<and>
     (\<forall>c \<in> vol_clusters boot - set cs'. vol_next blk boot d' c = vol_next blk boot d c)"

lemma grown_refl [simp]: "grown blk boot d cs d cs"
  by (simp add: grown_def)

lemma grown_trans:
  assumes "grown blk boot d cs d1 cs1" and "grown blk boot d1 cs1 d2 cs2"
  shows "grown blk boot d cs d2 cs2"
proof -
  have p: "prefix cs cs1" "prefix cs1 cs2" using assms by (simp_all add: grown_def)
  have sub: "set cs1 \<subseteq> set cs2" using p(2) by (rule set_mono_prefix)
  have "vol_free blk boot d1 - set cs1 \<subseteq> vol_free blk boot d"
    using assms(1) by (auto simp: grown_def vol_free_def)
  then have "set cs2 \<subseteq> set cs \<union> vol_free blk boot d"
    using assms by (fastforce simp: grown_def)
  moreover have "vol_next blk boot d2 c = vol_next blk boot d c" if "c \<in> vol_clusters boot - set cs2" for c
    using assms that sub by (auto simp: grown_def)
  ultimately show ?thesis using assms p by (auto simp: grown_def)
qed

context block_device
begin

lemma ensure_first_cluster_ok:
  assumes tab: "vol_tab dev dinv blk (ff_boot f) ft" and wf: "file_wf blk (ft_device ft) f cs"
    and free: "cs = [] \<Longrightarrow> 0 < card (vol_free blk (ff_boot f) (ft_device ft))"
  obtains f1 ft1 cs1 where "ensure_first_cluster dev (f, ft) = (Ok (), (f1, ft1))"
    and "vol_tab dev dinv blk (ff_boot f) ft1" and "f1 = f\<lparr>ff_start_cluster := ff_start_cluster f1\<rparr>"
    and "\<not> ff_start_cluster f1 < 2" and "cs1 \<noteq> []"
    and "used_chain blk (ff_boot f) (ft_device ft1) (ff_start_cluster f1) cs1"
    and "grown blk (ff_boot f) (ft_device ft) cs (ft_device ft1) cs1"
    and "length cs1 + card (vol_free blk (ff_boot f) (ft_device ft1)) =
      length cs + card (vol_free blk (ff_boot f) (ft_device ft))"
    and "length cs1 = max 1 (length cs)"
proof (cases "ff_start_cluster f < 2")
  case False
  have "ensure_first_cluster dev (f, ft) = (Ok (), (f, ft))" using False by (simp add: ensure_first_cluster_def)
  moreover have "1 \<le> length cs" using wf False by (cases cs) (auto simp: file_wf_def)
  moreover have "cs \<noteq> []" "used_chain blk (ff_boot f) (ft_device ft) (ff_start_cluster f) cs"
    using wf False by (simp_all add: file_wf_def)
  ultimately show ?thesis using that [of f ft cs] False tab by simp
next
  case True
  then have cs: "cs = []" using wf by (simp add: file_wf_def)
  note D = vol_tabD [OF tab]
  have "fat_free blk ft \<noteq> {}" using free [OF cs] unfolding D(5) by (auto simp: card_gt_0_iff)
  then obtain c ft1 where a: "alloc_cluster dev ft = (Ok c, ft1)" "c \<in> fat_free blk ft"
    and step: "fat_step dev dinv blk ft ft1 ((fat_next blk ft)(c := FAT_EOC))"
    using alloc_cluster_ok [OF D(2)] by blast
  note S = fat_stepD [OF step]
  note T = vol_tab_step [OF tab S(1,2)]
  note D1 = vol_tabD [OF T(1)]
  have c: "c \<in> vol_clusters (ff_boot f)" "c \<in> vol_free blk (ff_boot f) (ft_device ft)"
    using a(2) unfolding D(5) by (auto simp: vol_free_def)
  have nxt: "vol_next blk (ff_boot f) (ft_device ft1) x = (if x = c then FAT_EOC else vol_next blk (ff_boot f) (ft_device ft) x)"
    if "x \<in> vol_clusters (ff_boot f)" for x
    using S(4) [of x] that by (simp add: D(3,4) D1(4))
  have "used_chain blk (ff_boot f) (ft_device ft1) c [c]"
    unfolding used_chain_def using c(1) nxt [OF c(1)] by (intro exI [of _ FAT_EOC]) simp
  moreover have "grown blk (ff_boot f) (ft_device ft) [] (ft_device ft1) [c]"
    using c T(2) nxt by (simp add: grown_def)
  moreover have "vol_free blk (ff_boot f) (ft_device ft1) = vol_free blk (ff_boot f) (ft_device ft) - {c}"
    using nxt by (auto simp: vol_free_def split: if_splits)
  then have "Suc (card (vol_free blk (ff_boot f) (ft_device ft1))) = card (vol_free blk (ff_boot f) (ft_device ft))"
    using c(2) card.remove [OF finite_fat_free [of blk ft, unfolded D(5)] c(2)] by simp
  moreover have "\<not> c < 2" using c(1) by (simp add: vol_clusters_def word_less_nat_alt)
  moreover have "ensure_first_cluster dev (f, ft) = (Ok (), (f\<lparr>ff_start_cluster := c\<rparr>, ft1))"
    using True a(1) by (simp add: ensure_first_cluster_def on_table_def act_bind_def act_map_err_def)
  ultimately show ?thesis using that [of "f\<lparr>ff_start_cluster := c\<rparr>" ft1 "[c]"] T(1) cs by simp
qed

lemma ensure_clusters_ok:
  assumes tab: "vol_tab dev dinv blk boot ft" and used: "used_chain blk boot (ft_device ft) s cs" and cs: "cs \<noteq> []"
    and free: "required \<le> length cs + card (vol_free blk boot (ft_device ft))"
  obtains ft1 cs1 where "ensure_clusters dev required cs (f, ft) = (Ok cs1, (f, ft1))"
    and "vol_tab dev dinv blk boot ft1" and "used_chain blk boot (ft_device ft1) s cs1"
    and "grown blk boot (ft_device ft) cs (ft_device ft1) cs1" and "length cs1 = max required (length cs)"
proof (cases "required \<le> length cs")
  case True
  then have "ensure_clusters dev required cs (f, ft) = (Ok cs, (f, ft))" by (simp add: ensure_clusters_def)
  then show ?thesis using that [of cs ft] tab used True by simp
next
  case False
  note D = vol_tabD [OF tab]
  obtain e where e: "chain_end e" "e \<noteq> FAT_FREE"
    and path: "fat_path (fat_next blk ft) (fat_clusters ft) s (butlast cs @ [last cs]) e"
    using used cs by (auto simp: used_chain_def D(3,4))
  define n where "n = required - length cs"
  have n: "n \<le> card (fat_free blk ft)" "n \<noteq> 0" using free False unfolding D(5) by (simp_all add: n_def)
  obtain new ft1 where new: "extend_chain dev (last cs) n ft = (Ok new, ft1)" "length new = n" "distinct new"
    "set new \<subseteq> fat_free blk ft" "fat_wf dev dinv blk ft1" "fat_ext dev dinv blk ft ft1"
    "fat_path (fat_next blk ft1) (fat_clusters ft) s (butlast cs @ [last cs] @ new) (if n = 0 then e else FAT_EOC)"
    "\<forall>c \<in> fat_clusters ft - set new - {last cs}. fat_next blk ft1 c = fat_next blk ft c"
    using extend_chain_ok [OF D(2) n(1) e path] by blast
  note T = vol_tab_step [OF tab new(5,6)]
  note D1 = vol_tabD [OF T(1)]
  have app: "butlast cs @ [last cs] @ new = cs @ new" using cs by simp
  have "fat_path (vol_next blk boot (ft_device ft1)) (vol_clusters boot) s (cs @ new) FAT_EOC"
    using new(7) n(2) unfolding app D1(4) D(3) by simp
  then have "used_chain blk boot (ft_device ft1) s (cs @ new)"
    unfolding used_chain_def using chain_end_EOC EOC_used by blast
  moreover have "grown blk boot (ft_device ft) cs (ft_device ft1) (cs @ new)"
    using new(4,8) T(2) cs unfolding grown_def by (auto simp: D(3,4,5) D1(4))
  moreover have "ensure_clusters dev required cs (f, ft) = (Ok (cs @ new), (f, ft1))"
    using False cs new(1) by (simp add: ensure_clusters_def on_table_def act_bind_def act_map_err_def n_def)
  ultimately show ?thesis using that [of "cs @ new" ft1] T(1) new(2) False by (simp add: n_def max_def)
qed

end

lemma ceil_div_le: "0 < c \<Longrightarrow> (x + c - 1) div c \<le> n \<longleftrightarrow> x \<le> n * c" for c :: nat
proof -
  assume c: "0 < c"
  have "(x + c - 1) div c \<le> n \<longleftrightarrow> x + c - 1 < Suc n * c"
    using c by (metis div_less_iff_less_mult less_Suc_eq_le)
  then show ?thesis using c by auto
qed

lemma cluster_size_small: "cluster_size boot < 2 ^ 24"
proof -
  have "unat (sectors_per_cluster boot) \<le> 2 ^ 8 - 1" "unat (bytes_per_sector boot) \<le> 2 ^ 16 - 1"
    using unat_less_exp [of "sectors_per_cluster boot"] unat_less_exp [of "bytes_per_sector boot"] by simp_all
  then have "unat (sectors_per_cluster boot) * unat (bytes_per_sector boot) \<le> (2 ^ 8 - 1) * (2 ^ 16 - 1)"
    by (rule mult_le_mono)
  then show ?thesis by (simp add: cluster_size_def)
qed

context block_device
begin

text \<open>The loop that writes the data, over the chain of the file.\<close>

lemma file_write_chain_ok:
  assumes ok: "vol_ok dev dinv blk (ff_boot f) d" and cs: "set cs \<subseteq> vol_clusters (ff_boot f)" "distinct cs"
    and room: "offset + length buf \<le> length cs * cluster_size (ff_boot f)"
  obtains d' where "file_write_loop dev f (cluster_size (ff_boot f)) (drop (offset div cluster_size (ff_boot f)) cs)
      (offset mod cluster_size (ff_boot f)) buf 0 d = (Ok (length buf), d')"
    and "vol_ok dev dinv blk (ff_boot f) d'"
    and "chain_data blk (ff_boot f) d' cs = overwrite (chain_data blk (ff_boot f) d cs) offset buf"
    and "\<And>c. c \<in> vol_clusters (ff_boot f) - set cs \<Longrightarrow> cluster_data blk (ff_boot f) d' c = cluster_data blk (ff_boot f) d c"
    and "\<And>c. c \<in> vol_clusters (ff_boot f) \<Longrightarrow> vol_next blk (ff_boot f) d' c = vol_next blk (ff_boot f) d c"
proof -
  define boot csz k where "boot = ff_boot f" and "csz = cluster_size (ff_boot f)" and "k = offset div cluster_size (ff_boot f)"
  have csz: "0 < csz" using vol_okD(10) [OF ok] by (simp add: csz_def)
  have off: "offset = k * csz + offset mod csz" by (simp add: k_def csz_def)
  have "k \<le> length cs"
    using room csz by (metis add_leD1 csz_def div_le_mono k_def nonzero_mult_div_cancel_right less_irrefl)
  have sub: "set (take k cs) \<subseteq> set cs" "set (drop k cs) \<subseteq> set cs" by (rule set_take_subset, rule set_drop_subset)
  have "offset mod csz + length buf \<le> length (drop k cs) * csz"
  proof -
    have "k * csz + (offset mod csz + length buf) \<le> length cs * csz" using room off by (simp add: csz_def)
    then show ?thesis by (simp add: diff_mult_distrib)
  qed
  then obtain d' where d': "file_write_loop dev f csz (drop k cs) (offset mod csz) buf 0 d = (Ok (length buf), d')"
    "vol_ok dev dinv blk boot d'"
    "chain_data blk boot d' (drop k cs) = overwrite (chain_data blk boot d (drop k cs)) (offset mod csz) buf"
    "\<forall>c \<in> vol_clusters boot - set (drop k cs). cluster_data blk boot d' c = cluster_data blk boot d c"
    "\<forall>c \<in> vol_clusters boot. vol_next blk boot d' c = vol_next blk boot d c"
    using file_write_loop_ok [OF ok, of "drop k cs" "offset mod csz" 0 buf] sub(2) cs csz
    unfolding boot_def csz_def by (auto simp: less_imp_le)
  have "chain_data blk boot d' (take k cs) = chain_data blk boot d (take k cs)"
    using d'(4) sub(1) cs set_take_disj_set_drop_if_distinct [OF cs(2) order_refl, of k]
    by (intro chain_data_cong) (auto simp: boot_def)
  moreover have "length (chain_data blk boot d (take k cs)) = k * csz"
    using length_chain_data [OF ok, of "take k cs"] sub(1) cs(1) \<open>k \<le> length cs\<close> by (auto simp: boot_def csz_def)
  ultimately have "chain_data blk boot d' (take k cs @ drop k cs) =
      overwrite (chain_data blk boot d (take k cs @ drop k cs)) (k * csz + offset mod csz) buf"
    using d'(3) overwrite_append2 [of "chain_data blk boot d (take k cs)"] by (simp del: append_take_drop_id)
  then have "chain_data blk boot d' cs = overwrite (chain_data blk boot d cs) offset buf" using off by simp
  then show ?thesis
    using that [of d'] d' sub(2) unfolding boot_def csz_def k_def by blast
qed

lemma file_chain_ok:
  assumes tab: "vol_tab dev dinv blk boot ft" and used: "used_chain blk boot (ft_device ft) (ff_start_cluster f) cs"
  shows "file_chain dev (f, ft) = (Ok cs, (f, ft))"
proof -
  have "read_chain dev ft (ff_start_cluster f) = Ok cs"
    using read_chain_iff [OF fat_wf_geom [OF vol_tabD(2) [OF tab]]] used_chainD(1) [OF vol_tabD(1) [OF tab] used]
      vol_chain_tab [OF tab] by simp
  then show ?thesis by (simp add: file_chain_def)
qed

lemma save_entry_ok:
  assumes tab: "vol_tab dev dinv blk (ff_boot f) ft"
    and used: "used_chain blk (ff_boot f) (ft_device ft) (ff_parent_cluster f) ps"
    and slot: "slot_in (ff_boot f) ps (ff_entry_offset f)"
  obtains d' e where "dir_entry_at blk (ff_boot f) (ft_device ft) ps (ff_entry_offset f) = Some e"
    and "save_entry dev (f, ft) = (Ok (), (f, ft\<lparr>ft_device := d'\<rparr>))" and "vol_ok dev dinv blk (ff_boot f) d'"
    and "chain_data blk (ff_boot f) d' ps = overwrite (chain_data blk (ff_boot f) (ft_device ft) ps) (ff_entry_offset f)
      (to_bytes ((set_cluster (ff_start_cluster f) e)\<lparr>de_file_size := ff_size f\<rparr>))"
    and "\<And>c. c \<in> vol_clusters (ff_boot f) - set ps \<Longrightarrow>
      cluster_data blk (ff_boot f) d' c = cluster_data blk (ff_boot f) (ft_device ft) c"
    and "\<And>c. c \<in> vol_clusters (ff_boot f) \<Longrightarrow> vol_next blk (ff_boot f) d' c = vol_next blk (ff_boot f) (ft_device ft) c"
proof -
  obtain d' e where *: "dir_entry_at blk (ff_boot f) (ft_device ft) ps (ff_entry_offset f) = Some e"
    "update_dir_entry dev f (ff_start_cluster f) (ff_size f) (ft_device ft) = (Ok (), d')"
    "vol_ok dev dinv blk (ff_boot f) d'"
    "chain_data blk (ff_boot f) d' ps = overwrite (chain_data blk (ff_boot f) (ft_device ft) ps) (ff_entry_offset f)
      (to_bytes ((set_cluster (ff_start_cluster f) e)\<lparr>de_file_size := ff_size f\<rparr>))"
    "\<forall>c \<in> vol_clusters (ff_boot f) - set ps. cluster_data blk (ff_boot f) d' c = cluster_data blk (ff_boot f) (ft_device ft) c"
    "\<forall>c \<in> vol_clusters (ff_boot f). vol_next blk (ff_boot f) d' c = vol_next blk (ff_boot f) (ft_device ft) c"
    using update_dir_entry_ok [OF vol_tabD(1) [OF tab] used slot] by blast
  have "save_entry dev (f, ft) = (Ok (), (f, ft\<lparr>ft_device := d'\<rparr>))"
    using *(2) by (simp add: save_entry_def on_table_def on_device_def)
  then show ?thesis using that * by blast
qed

end

lemma grownD:
  assumes "grown blk boot d cs d' cs'"
  shows "prefix cs cs'" "set cs' \<subseteq> set cs \<union> vol_free blk boot d"
    "c \<in> vol_clusters boot \<Longrightarrow> cluster_data blk boot d' c = cluster_data blk boot d c"
    "c \<in> vol_clusters boot \<Longrightarrow> c \<notin> set cs' \<Longrightarrow> vol_next blk boot d' c = vol_next blk boot d c"
  using assms by (auto simp: grown_def)

context block_device
begin

text \<open>The chain of the file is brought to the required length.\<close>

lemma grow_ok:
  assumes tab: "vol_tab dev dinv blk (ff_boot f) ft" and wf: "file_wf blk (ft_device ft) f cs"
    and req: "0 < required" "required \<le> length cs + card (vol_free blk (ff_boot f) (ft_device ft))"
  obtains f1 ft1 ft2 cs1 cs2 where "ensure_first_cluster dev (f, ft) = (Ok (), (f1, ft1))"
    and "file_chain dev (f1, ft1) = (Ok cs1, (f1, ft1))"
    and "ensure_clusters dev required cs1 (f1, ft1) = (Ok cs2, (f1, ft2))"
    and "f1 = f\<lparr>ff_start_cluster := ff_start_cluster f1\<rparr>" and "\<not> ff_start_cluster f1 < 2"
    and "vol_tab dev dinv blk (ff_boot f) ft2"
    and "used_chain blk (ff_boot f) (ft_device ft2) (ff_start_cluster f1) cs2"
    and "grown blk (ff_boot f) (ft_device ft) cs (ft_device ft2) cs2" and "length cs2 = max required (length cs)"
proof -
  have "0 < card (vol_free blk (ff_boot f) (ft_device ft))" if "cs = []" using req that by simp
  then obtain f1 ft1 cs1 where 1: "ensure_first_cluster dev (f, ft) = (Ok (), (f1, ft1))"
    "vol_tab dev dinv blk (ff_boot f) ft1" "f1 = f\<lparr>ff_start_cluster := ff_start_cluster f1\<rparr>"
    "\<not> ff_start_cluster f1 < 2" "cs1 \<noteq> []" "used_chain blk (ff_boot f) (ft_device ft1) (ff_start_cluster f1) cs1"
    "grown blk (ff_boot f) (ft_device ft) cs (ft_device ft1) cs1"
    "length cs1 + card (vol_free blk (ff_boot f) (ft_device ft1)) =
      length cs + card (vol_free blk (ff_boot f) (ft_device ft))" "length cs1 = max 1 (length cs)"
    using ensure_first_cluster_ok [OF tab wf] by blast
  have "required \<le> length cs1 + card (vol_free blk (ff_boot f) (ft_device ft1))" using req(2) 1(8) by simp
  then obtain ft2 cs2 where 2: "ensure_clusters dev required cs1 (f1, ft1) = (Ok cs2, (f1, ft2))"
    "vol_tab dev dinv blk (ff_boot f) ft2" "used_chain blk (ff_boot f) (ft_device ft2) (ff_start_cluster f1) cs2"
    "grown blk (ff_boot f) (ft_device ft1) cs1 (ft_device ft2) cs2" "length cs2 = max required (length cs1)"
    using ensure_clusters_ok [OF 1(2,6,5)] by blast
  have "length cs2 = max required (length cs)" using 2(5) 1(9) req(1) by simp
  then show ?thesis
    using that 1(1,3,4) file_chain_ok [OF 1(2,6)] 2(1-3) grown_trans [OF 1(7) 2(4)] by blast
qed

lemma file_write_ok:
  assumes ok: "vol_ok dev dinv blk (ff_boot f) d" and wf: "file_wf blk d f cs"
    and parent: "used_chain blk (ff_boot f) d (ff_parent_cluster f) ps" "slot_in (ff_boot f) ps (ff_entry_offset f)"
    and apart: "set ps \<inter> set cs = {}"
    and buf: "buf \<noteq> []" "offset + length buf < 2 ^ 32"
    and space: "offset + length buf \<le> (length cs + card (vol_free blk (ff_boot f) d)) * cluster_size (ff_boot f)"
  shows "\<exists>f' d' cs' e. Fat32File_write dev offset buf (f, d) = (Ok (length buf), (f', d')) \<and>
    f' = f\<lparr>ff_start_cluster := ff_start_cluster f', ff_size := ff_size f'\<rparr> \<and>
    unat (ff_size f') = max (unat (ff_size f)) (offset + length buf) \<and>
    vol_ok dev dinv blk (ff_boot f) d' \<and> file_wf blk d' f' cs' \<and>
    prefix cs cs' \<and> set cs' \<subseteq> set cs \<union> vol_free blk (ff_boot f) d \<and>
    chain_data blk (ff_boot f) d' cs' = overwrite (chain_data blk (ff_boot f) d cs') offset buf \<and>
    dir_entry_at blk (ff_boot f) d ps (ff_entry_offset f) = Some e \<and>
    chain_data blk (ff_boot f) d' ps = overwrite (chain_data blk (ff_boot f) d ps) (ff_entry_offset f)
      (to_bytes ((set_cluster (ff_start_cluster f') e)\<lparr>de_file_size := ff_size f'\<rparr>)) \<and>
    (\<forall>c \<in> vol_clusters (ff_boot f) - set cs' - set ps. cluster_data blk (ff_boot f) d' c = cluster_data blk (ff_boot f) d c) \<and>
    (\<forall>c \<in> vol_clusters (ff_boot f) - set cs'. vol_next blk (ff_boot f) d' c = vol_next blk (ff_boot f) d c)"
proof -
  define boot where "boot = ff_boot f"
  define csz where "csz = cluster_size boot"
  define end_offset where "end_offset = offset + length buf"
  define required where "required = (end_offset + csz - 1) div csz"
  note ok = ok [folded boot_def] and parent = parent [folded boot_def]
  have csz: "0 < csz" "csz < 2 ^ 24" using vol_okD(10) [OF ok] cluster_size_small by (simp_all add: csz_def)
  have small: "end_offset < 2 ^ 32" "0 < end_offset" using buf by (simp_all add: end_offset_def)
  have req_pos: "0 < required"
    using ceil_div_le [OF csz(1), of end_offset 0] small(2) by (auto simp: required_def)
  have req_le: "required \<le> length cs + card (vol_free blk boot d)"
    using space ceil_div_le [OF csz(1)] by (simp add: required_def end_offset_def csz_def boot_def)
  have tab: "vol_tab dev dinv blk boot (fresh_fat boot d)" using ok by simp
  have wf0: "file_wf blk (ft_device (fresh_fat (ff_boot f) d)) f cs" using wf by simp
  have req0: "required \<le> length cs + card (vol_free blk (ff_boot f) (ft_device (fresh_fat (ff_boot f) d)))"
    using req_le by (simp add: boot_def)
  obtain f1 ft1 ft2 cs1 cs2 where g: "ensure_first_cluster dev (f, fresh_fat boot d) = (Ok (), (f1, ft1))"
    "file_chain dev (f1, ft1) = (Ok cs1, (f1, ft1))" "ensure_clusters dev required cs1 (f1, ft1) = (Ok cs2, (f1, ft2))"
    "f1 = f\<lparr>ff_start_cluster := ff_start_cluster f1\<rparr>" "\<not> ff_start_cluster f1 < 2"
    "vol_tab dev dinv blk boot ft2" "used_chain blk boot (ft_device ft2) (ff_start_cluster f1) cs2"
    "grown blk boot (ft_device (fresh_fat boot d)) cs (ft_device ft2) cs2" "length cs2 = max required (length cs)"
    by (rule grow_ok [OF tab [unfolded boot_def] wf0 req_pos req0, folded boot_def])
  note G = grownD [OF g(8) [unfolded fresh_fat_fields(1)]]
  note chain2 = used_chainD [OF vol_tabD(1) [OF g(6)] g(7)]
  have room: "end_offset \<le> length cs2 * csz"
    using ceil_div_le [OF csz(1), of end_offset "length cs2"] g(9) by (simp add: required_def)
  obtain d3 where w: "file_write_loop dev f csz (drop (offset div csz) cs2) (offset mod csz) buf 0 (ft_device ft2) = (Ok (length buf), d3)"
    "vol_ok dev dinv blk boot d3"
    "chain_data blk boot d3 cs2 = overwrite (chain_data blk boot (ft_device ft2) cs2) offset buf"
    "\<And>c. c \<in> vol_clusters boot - set cs2 \<Longrightarrow> cluster_data blk boot d3 c = cluster_data blk boot (ft_device ft2) c"
    "\<And>c. c \<in> vol_clusters boot \<Longrightarrow> vol_next blk boot d3 c = vol_next blk boot (ft_device ft2) c"
    using file_write_chain_ok [OF vol_tabD(1) [OF g(6), unfolded boot_def] chain2(2,3) [unfolded boot_def]] room
    unfolding boot_def csz_def end_offset_def by metis
  define f2 where "f2 = (if end_offset > unat (ff_size f1) then f1\<lparr>ff_size := of_nat end_offset\<rparr> else f1)"
  define ft3 where "ft3 = ft2\<lparr>ft_device := d3\<rparr>"
  have f2: "f2 = f\<lparr>ff_start_cluster := ff_start_cluster f2, ff_size := ff_size f2\<rparr>"
    "ff_start_cluster f2 = ff_start_cluster f1"
    using g(4) unfolding f2_def by (cases f; cases f1; simp)+
  have size2: "unat (ff_size f2) = max (unat (ff_size f)) end_offset"
  proof -
    have "ff_size f1 = ff_size f" by (subst g(4)) simp
    then show ?thesis using small(1) by (simp add: f2_def unat_of_nat_small)
  qed
  have boot2: "ff_boot f2 = boot" "ff_parent_cluster f2 = ff_parent_cluster f" "ff_entry_offset f2 = ff_entry_offset f"
    by (subst f2(1), simp add: boot_def)+
  have tab3: "vol_tab dev dinv blk boot ft3" unfolding ft3_def by (rule vol_tab_data [OF g(6) w(2,5)])
  have ps: "set ps \<inter> set cs2 = {}" "set ps \<subseteq> vol_clusters boot"
    using G(2) apart used_chainD(2,4) [OF ok parent(1)] by auto
  have ps_out: "c \<in> vol_clusters boot" "c \<notin> set cs2" if "c \<in> set ps" for c using that ps by auto
  have "vol_next blk boot d3 c = vol_next blk boot d c" if "c \<in> set ps" for c
    using w(5) [OF ps_out(1) [OF that]] G(4) [OF ps_out [OF that]] by simp
  then have parent3: "used_chain blk boot d3 (ff_parent_cluster f) ps"
    using parent(1) used_chain_cong [of ps blk boot d3 d] by blast
  have ps_data: "chain_data blk boot d3 ps = chain_data blk boot d ps"
    using w(4) G(3) ps_out by (intro chain_data_cong) simp
  have dev3: "ft_device ft3 = d3" by (simp add: ft3_def)
  obtain d4 e where s: "dir_entry_at blk boot d3 ps (ff_entry_offset f) = Some e"
    "save_entry dev (f2, ft3) = (Ok (), (f2, ft3\<lparr>ft_device := d4\<rparr>))" "vol_ok dev dinv blk boot d4"
    "chain_data blk boot d4 ps = overwrite (chain_data blk boot d3 ps) (ff_entry_offset f)
      (to_bytes ((set_cluster (ff_start_cluster f2) e)\<lparr>de_file_size := ff_size f2\<rparr>))"
    "\<And>c. c \<in> vol_clusters boot - set ps \<Longrightarrow> cluster_data blk boot d4 c = cluster_data blk boot d3 c"
    "\<And>c. c \<in> vol_clusters boot \<Longrightarrow> vol_next blk boot d4 c = vol_next blk boot d3 c"
    by (rule save_entry_ok [of f2 ft3 ps, unfolded boot2 dev3, OF tab3 parent3 parent(2)]) (rule that; assumption)
  have arith: "(offset + length buf) mod 2 ^ 64 = end_offset" "(end_offset + csz - 1) mod 2 ^ 64 = end_offset + csz - 1"
    using small csz(2) by (simp_all add: end_offset_def)
  have "file_write_body dev offset buf (f, fresh_fat boot d) = (Ok (length buf), (f2, ft3\<lparr>ft_device := d4\<rparr>))"
    unfolding file_write_body_def Let_def arith fst_conv boot_def [symmetric] csz_def [symmetric] required_def [symmetric]
    using g(1-3) csz(1) w(1) s(2)
    by (auto simp: act_bind_def on_table_def on_device_def set_size_def f2_def ft3_def)
  then have run: "Fat32File_write dev offset buf (f, d) = (Ok (length buf), (f2, d4))"
    using buf(1) by (simp add: Fat32File_write_def with_file_fat_def vol_okD(1) [OF ok] flip: boot_def)
  have cs2: "chain_data blk boot d4 cs2 = overwrite (chain_data blk boot d cs2) offset buf"
  proof -
    have "chain_data blk boot d4 cs2 = chain_data blk boot d3 cs2"
      using s(5) ps(1) chain2(2) by (intro chain_data_cong) auto
    moreover have "chain_data blk boot (ft_device ft2) cs2 = chain_data blk boot d cs2"
      using G(3) chain2(2) by (intro chain_data_cong) auto
    ultimately show ?thesis using w(3) by simp
  qed
  have "vol_next blk boot d4 c = vol_next blk boot (ft_device ft2) c" if "c \<in> set cs2" for c
    using s(6) w(5) that chain2(2) by auto
  then have "used_chain blk boot d4 (ff_start_cluster f2) cs2"
    using g(7) used_chain_cong [of cs2 blk boot d4 "ft_device ft2"] unfolding f2(2) by blast
  moreover have "unat (ff_size f2) \<le> length cs2 * csz"
  proof -
    have "length cs * csz \<le> length cs2 * csz" using g(9) by (intro mult_le_mono1) simp
    moreover have "unat (ff_size f) \<le> length cs * csz" using wf by (simp add: file_wf_def csz_def boot_def)
    ultimately show ?thesis using room size2 by linarith
  qed
  moreover have "cs2 \<noteq> []" using g(9) req_pos by auto
  ultimately have wf': "file_wf blk d4 f2 cs2"
    using g(5) unfolding file_wf_def boot2 f2(2) by (simp add: csz_def)
  have at: "dir_entry_at blk boot d ps (ff_entry_offset f) = Some e" using s(1) by (simp add: dir_entry_at_def ps_data)
  have data: "cluster_data blk boot d4 c = cluster_data blk boot d c" if "c \<in> vol_clusters boot - set cs2 - set ps" for c
    using that s(5) w(4) G(3) by simp
  have next': "vol_next blk boot d4 c = vol_next blk boot d c" if "c \<in> vol_clusters boot - set cs2" for c
    using that s(6) w(5) G(4) by simp
  show ?thesis
    unfolding boot_def [symmetric] end_offset_def [symmetric]
    by (rule exI [of _ f2], rule exI [of _ d4], rule exI [of _ cs2], rule exI [of _ e], intro conjI ballI)
      (fact run f2(1) size2 s(3) wf' G(1) G(2) cs2 at data next' | fact s(4) [unfolded ps_data])+
qed

end


section \<open>A small volume with a file\<close>

text \<open>
  Eleven 32-byte sectors: a reserved one, two FATs of one sector, four clusters of two sectors. The
  root directory is cluster 2, the file \<open>A.TXT\<close> of five bytes is in cluster 3, clusters 4 and 5 are free.
\<close>

definition boot_tiny :: Fat32BootSector where
  "boot_tiny = boot_small\<lparr>bytes_per_sector := 32, fat_size_32 := 1, total_sectors_32 := 11\<rparr>"

definition tiny_fat :: bytes where
  "tiny_fat =
     [0xF8, 0xFF, 0xFF, 0x0F, 0xFF, 0xFF, 0xFF, 0x0F, 0xFF, 0xFF, 0xFF, 0x0F, 0xFF, 0xFF, 0xFF, 0x0F,
      0, 0, 0, 0, 0, 0, 0, 0, 0, 0, 0, 0, 0, 0, 0, 0]"

definition tiny_disk :: RamDisk where
  "tiny_disk = \<lparr>rd_name = ''ram0'', rd_block_size = 32,
     rd_data = replicate 32 0 @ tiny_fat @ tiny_fat @ (to_bytes (new_file ''A.TXT'' 3 5) @ replicate 32 0) @
       (map of_char ''hello'' @ replicate 59 0) @ replicate 128 0, rd_read_only = False\<rparr>"

definition tiny_file :: Fat32File where
  "tiny_file = Fat32File_new boot_tiny 3 5 ''A.TXT'' 2 0"

lemma boot_tiny_fields:
  "sectors_per_cluster boot_tiny = 2" "bytes_per_sector boot_tiny = 32" "num_fats boot_tiny = 2"
  "reserved_sectors boot_tiny = 1" "fat_size_32 boot_tiny = 1" "total_sectors_32 boot_tiny = 11"
  "cluster_count boot_tiny = 4" "cluster_size boot_tiny = 64" "fat_start_sector boot_tiny = 1" "volume_fits boot_tiny"
  by (simp_all add: boot_tiny_def boot_small_def cluster_count_def data_start_sector_def cluster_size_def
      fat_start_sector_def volume_fits_def)

lemma tiny_disk_wf: "rd_wf tiny_disk" "unat (RamDisk_block_count tiny_disk) = 11"
  by (simp_all add: rd_wf_def tiny_disk_def tiny_fat_def RamDisk_block_count_def)

lemma tiny_clusters: "vol_clusters boot_tiny = {2, 3, 4, 5}"
proof -
  have "c \<in> vol_clusters boot_tiny \<longleftrightarrow> c \<in> {2, 3, 4, 5}" for c
  proof -
    have "c \<in> vol_clusters boot_tiny \<longleftrightarrow> unat c \<in> {2, 3, 4, 5}" by (auto simp: vol_clusters_def boot_tiny_fields)
    then show ?thesis by (simp add: word_unat_eq_iff)
  qed
  then show ?thesis by blast
qed

lemma tiny_blocks: "rd_blk tiny_disk 1 = tiny_fat" "rd_blk tiny_disk 2 = tiny_fat"
  by (simp_all add: rd_blk_def tiny_disk_def tiny_fat_def)

lemma tiny_raw:
  assumes "k = 0 \<or> k = 1"
  shows "fat_raw rd_blk (fresh_fat boot_tiny tiny_disk) k 2 = FAT_EOC"
    "fat_raw rd_blk (fresh_fat boot_tiny tiny_disk) k 3 = FAT_EOC"
    "fat_raw rd_blk (fresh_fat boot_tiny tiny_disk) k 4 = 0" "fat_raw rd_blk (fresh_fat boot_tiny tiny_disk) k 5 = 0"
proof -
  have "fat_slot (fresh_fat boot_tiny tiny_disk) k c = 1 + k" if "c \<in> {2, 3, 4, 5}" for c
    using that by (auto simp: fat_slot_def boot_tiny_fields)
  then have "rd_blk tiny_disk (fat_slot (fresh_fat boot_tiny tiny_disk) k c) = tiny_fat" if "c \<in> {2, 3, 4, 5}" for c
    using that tiny_blocks assms by (auto simp: numeral_2_eq_2)
  then show "fat_raw rd_blk (fresh_fat boot_tiny tiny_disk) k 2 = FAT_EOC"
    "fat_raw rd_blk (fresh_fat boot_tiny tiny_disk) k 3 = FAT_EOC"
    "fat_raw rd_blk (fresh_fat boot_tiny tiny_disk) k 4 = 0" "fat_raw rd_blk (fresh_fat boot_tiny tiny_disk) k 5 = 0"
    by (simp_all add: fat_raw_def boot_tiny_fields tiny_fat_def read_u32_def u32_from_le_bytes_def FAT_EOC_def)
qed

lemma tiny_next:
  "vol_next rd_blk boot_tiny tiny_disk 2 = FAT_EOC" "vol_next rd_blk boot_tiny tiny_disk 3 = FAT_EOC"
  "vol_next rd_blk boot_tiny tiny_disk 4 = 0" "vol_next rd_blk boot_tiny tiny_disk 5 = 0"
  using tiny_raw [of 0] by (simp_all add: vol_next_def fat_next_def FAT_EOC_def)

lemma tiny_vol_ok: "vol_ok ramdisk_ops rd_wf rd_blk boot_tiny tiny_disk"
proof -
  have geom: "fat_geom ramdisk_ops rd_wf (fresh_fat boot_tiny tiny_disk)"
    using tiny_disk_wf by (simp add: fat_geom_def boot_tiny_fields ramdisk_ops_def) (simp add: tiny_disk_def)
  have "fat_mirror rd_blk (fresh_fat boot_tiny tiny_disk)"
    unfolding fat_mirror_def fresh_fat_clusters tiny_clusters fresh_fat_fields boot_tiny_fields
    using tiny_next by (auto simp: vol_next_def tiny_raw less_2_cases_iff FAT_EOC_def)
  then have "fat_wf ramdisk_ops rd_wf rd_blk (fresh_fat boot_tiny tiny_disk)"
    using geom by (simp add: fat_wf_def boot_tiny_fields)
  then show ?thesis using tiny_disk_wf by (simp add: vol_ok_def boot_tiny_fields ramdisk_ops_def)
qed

lemma tiny_free: "vol_free rd_blk boot_tiny tiny_disk = {4, 5}"
  unfolding vol_free_def tiny_clusters by (auto simp: tiny_next FAT_FREE_def FAT_EOC_def)

lemma tiny_chains:
  "used_chain rd_blk boot_tiny tiny_disk 2 [2]" "used_chain rd_blk boot_tiny tiny_disk 3 [3]"
  unfolding used_chain_def using tiny_next tiny_clusters by (auto intro!: exI [of _ FAT_EOC])

lemma length_tiny_fat [simp]: "length tiny_fat = 32"
  by (simp add: tiny_fat_def)

lemma tiny_file_data: "cluster_data rd_blk boot_tiny tiny_disk 3 = map of_char ''hello'' @ replicate 59 0"
proof -
  have "rd_blk tiny_disk 5 = map of_char ''hello'' @ replicate 27 0" "rd_blk tiny_disk 6 = replicate 32 0"
    by (simp_all add: rd_blk_def tiny_disk_def)
  moreover have "unat (cluster_to_sector boot_tiny 3) = 5"
    by (simp add: cluster_to_sector_def data_start_sector_def boot_tiny_fields)
  moreover have "replicate 27 x @ replicate 32 x = replicate 59 x" for x :: u8 by (simp flip: replicate_add)
  moreover have "[0..<unat (sectors_per_cluster boot_tiny)] = [0, 1]" by (simp add: boot_tiny_fields upt_rec)
  ultimately show ?thesis by (simp add: cluster_data_def)
qed

lemma tiny_file_fields [simp]:
  "ff_boot tiny_file = boot_tiny" "ff_start_cluster tiny_file = 3" "ff_size tiny_file = 5"
  "ff_parent_cluster tiny_file = 2" "ff_entry_offset tiny_file = 0"
  by (simp_all add: tiny_file_def Fat32File_new_def)

lemma tiny_file_wf: "file_wf rd_blk tiny_disk tiny_file [3]"
  using tiny_chains(2) by (simp add: file_wf_def boot_tiny_fields)


section \<open>Properties\<close>

text \<open>
  C17. Reading a file of a consistent volume returns exactly the bytes of the file from the offset,
  as many as were asked for and are there: it follows the chain over any number of clusters and
  never fails.
\<close>

theorem file_read_exact:
  assumes "block_device dev dinv blk" and "vol_ok dev dinv blk (ff_boot f) d" and "file_wf blk d f cs"
  shows "Fat32File_read dev f d offset n =
    Ok (take n (drop offset (take (unat (ff_size f)) (concat (map (cluster_data blk (ff_boot f) d) cs)))))"
  using block_device.file_read_ok [OF assms] by (simp add: file_data_def chain_data_def)

theorem file_read_exact_witness: "Fat32File_read ramdisk_ops tiny_file tiny_disk 1 10 = Ok (map of_char ''ello'')"
  using file_read_exact [OF ramdisk.block_device_axioms, of tiny_file tiny_disk "[3]" 1 10] tiny_vol_ok tiny_file_wf
    tiny_file_data by simp


lemma de_cluster_size [simp]: "de_cluster (e\<lparr>de_file_size := n\<rparr>) = de_cluster e"
  by (simp add: de_cluster_def)

context block_device
begin

text \<open>What a write leaves in a file: the new bytes at their place, the old ones before and after.\<close>

lemma written_file_data:
  assumes ok: "vol_ok dev dinv blk (ff_boot f) d" and wf: "file_wf blk d f cs" and ok': "vol_ok dev dinv blk (ff_boot f) d'"
    and wf': "file_wf blk d' f' cs'" and boot: "ff_boot f' = ff_boot f" and pre: "prefix cs cs'"
    and size': "unat (ff_size f') = max (unat (ff_size f)) (offset + length buf)"
    and data: "chain_data blk (ff_boot f) d' cs' = overwrite (chain_data blk (ff_boot f) d cs') offset buf"
  shows "take (length buf) (drop offset (file_data blk d' f' cs')) = buf"
    and "m \<le> offset \<Longrightarrow> m \<le> unat (ff_size f) \<Longrightarrow> take m (file_data blk d' f' cs') = take m (file_data blk d f cs)"
    and "drop (offset + length buf) (file_data blk d' f' cs') = drop (offset + length buf) (file_data blk d f cs)"
proof -
  define D S S' where "D = chain_data blk (ff_boot f) d cs'" and "S = unat (ff_size f)" and "S' = unat (ff_size f')"
  have new: "file_data blk d' f' cs' = take S' (overwrite D offset buf)"
    using data by (simp add: file_data_def boot D_def S'_def)
  obtain zs where zs: "cs' = cs @ zs" using pre by (auto simp: prefix_def)
  have cs': "set cs' \<subseteq> vol_clusters (ff_boot f)" using file_wf_used(1) [of dev dinv blk f' d' cs'] ok' wf' boot by simp
  have len: "length D = length cs' * cluster_size (ff_boot f)" unfolding D_def by (rule length_chain_data [OF ok cs'])
  then have "S' \<le> length D" using wf' by (simp add: file_wf_def boot S'_def)
  then have room: "offset + length buf \<le> length D" "S \<le> length D" using size' by (simp_all add: S_def S'_def)
  have "S \<le> length (chain_data blk (ff_boot f) d cs)"
    using length_chain_data [OF ok, of cs] cs' zs wf by (simp add: file_wf_def S_def)
  then have old: "file_data blk d f cs = take S D" by (simp add: file_data_def D_def zs S_def)
  have S': "S' = max S (offset + length buf)" using size' by (simp add: S_def S'_def)
  show "take (length buf) (drop offset (file_data blk d' f' cs')) = buf"
    unfolding new using room S' by (intro overwrite_slice) simp_all
  show "take m (file_data blk d' f' cs') = take m (file_data blk d f cs)" if "m \<le> offset" "m \<le> unat (ff_size f)"
  proof -
    have "m \<le> S'" "m \<le> S" using that S' by (simp_all add: S_def)
    then show ?thesis using that(1) room take_overwrite [of m offset D buf] by (simp add: new old min_def)
  qed
  show "drop (offset + length buf) (file_data blk d' f' cs') = drop (offset + length buf) (file_data blk d f cs)"
    using room S' drop_overwrite [of offset buf "offset + length buf" D]
    by (cases "S \<le> offset + length buf") (simp_all add: new old drop_take)
qed

lemma dir_entry_at_written:
  assumes e: "entry_wf e" and len: "off + 32 \<le> length (chain_data blk boot d ps)"
    and data: "chain_data blk boot d' ps = overwrite (chain_data blk boot d ps) off (to_bytes e)"
  shows "dir_entry_at blk boot d' ps off = Some e"
proof -
  have "take 32 (drop off (chain_data blk boot d' ps)) = to_bytes e"
    using overwrite_same [of off "to_bytes e" "chain_data blk boot d ps"] e len by (simp add: data)
  then show ?thesis using from_bytes_to_bytes [OF e, of "[]"] by (simp add: dir_entry_at_def)
qed

end

text \<open>
  C12. Writing to a file of a consistent volume with room for the data: all bytes are written, the
  file can be read back with the new bytes at their place and the old ones before and after them,
  the volume stays consistent, the directory entry on the device has the new size and start cluster,
  and every other file whose clusters are not those of the file or of its directory keeps its chain
  and its contents.
\<close>

theorem file_write_read:
  assumes dev: "block_device dev dinv blk" and ok: "vol_ok dev dinv blk (ff_boot f) d" and wf: "file_wf blk d f cs"
    and parent: "used_chain blk (ff_boot f) d (ff_parent_cluster f) ps" "slot_in (ff_boot f) ps (ff_entry_offset f)"
    and apart: "set ps \<inter> set cs = {}" and buf: "buf \<noteq> []" "offset + length buf < 2 ^ 32"
    and space: "offset + length buf \<le> (length cs + card (vol_free blk (ff_boot f) d)) * cluster_size (ff_boot f)"
  shows "\<exists>f' d' cs' e. Fat32File_write dev offset buf (f, d) = (Ok (length buf), (f', d')) \<and>
    vol_ok dev dinv blk (ff_boot f) d' \<and> file_wf blk d' f' cs' \<and>
    unat (ff_size f') = max (unat (ff_size f)) (offset + length buf) \<and>
    Fat32File_read dev f' d' offset (length buf) = Ok buf \<and>
    (\<forall>m. m \<le> offset \<and> m \<le> unat (ff_size f) \<longrightarrow> Fat32File_read dev f' d' 0 m = Fat32File_read dev f d 0 m) \<and>
    (\<forall>m. Fat32File_read dev f' d' (offset + length buf) m = Fat32File_read dev f d (offset + length buf) m) \<and>
    dir_entry_at blk (ff_boot f) d' ps (ff_entry_offset f) = Some e \<and>
    de_cluster e = ff_start_cluster f' \<and> de_file_size e = ff_size f' \<and>
    (\<forall>g gs. ff_boot g = ff_boot f \<and> file_wf blk d g gs \<and> set gs \<inter> (set cs \<union> set ps) = {} \<longrightarrow>
       file_wf blk d' g gs \<and> file_data blk d' g gs = file_data blk d g gs)"
proof -
  obtain f' d' cs' e where w: "Fat32File_write dev offset buf (f, d) = (Ok (length buf), (f', d'))"
    "f' = f\<lparr>ff_start_cluster := ff_start_cluster f', ff_size := ff_size f'\<rparr>"
    "unat (ff_size f') = max (unat (ff_size f)) (offset + length buf)"
    "vol_ok dev dinv blk (ff_boot f) d'" "file_wf blk d' f' cs'" "prefix cs cs'"
    "set cs' \<subseteq> set cs \<union> vol_free blk (ff_boot f) d"
    "chain_data blk (ff_boot f) d' cs' = overwrite (chain_data blk (ff_boot f) d cs') offset buf"
    "dir_entry_at blk (ff_boot f) d ps (ff_entry_offset f) = Some e"
    "chain_data blk (ff_boot f) d' ps = overwrite (chain_data blk (ff_boot f) d ps) (ff_entry_offset f)
      (to_bytes ((set_cluster (ff_start_cluster f') e)\<lparr>de_file_size := ff_size f'\<rparr>))"
    "\<forall>c \<in> vol_clusters (ff_boot f) - set cs' - set ps. cluster_data blk (ff_boot f) d' c = cluster_data blk (ff_boot f) d c"
    "\<forall>c \<in> vol_clusters (ff_boot f) - set cs'. vol_next blk (ff_boot f) d' c = vol_next blk (ff_boot f) d c"
    by (rule exE [OF block_device.file_write_ok [OF assms]]) blast
  have boot: "ff_boot f' = ff_boot f" by (subst w(2)) simp
  note read = block_device.file_read_ok [OF dev]
  note data = block_device.written_file_data [OF dev ok wf w(4,5) boot w(6,3,8)]
  let ?e = "(set_cluster (ff_start_cluster f') e)\<lparr>de_file_size := ff_size f'\<rparr>"
  have "entry_wf ?e" using from_bytes_wf w(9) by (auto simp: dir_entry_at_def)
  then have entry: "dir_entry_at blk (ff_boot f) d' ps (ff_entry_offset f) = Some ?e"
    using block_device.slot_data(2) [OF dev ok used_chainD(2) [OF ok parent(1)] parent(2)] w(10)
    by (rule block_device.dir_entry_at_written [OF dev])
  have other: "file_wf blk d' g gs \<and> file_data blk d' g gs = file_data blk d g gs"
    if g: "ff_boot g = ff_boot f" "file_wf blk d g gs" "set gs \<inter> (set cs \<union> set ps) = {}" for g gs
  proof -
    have gs: "set gs \<subseteq> vol_clusters (ff_boot f)" "set gs \<inter> vol_free blk (ff_boot f) d = {}"
      using file_wf_used [of dev dinv blk g d gs] ok g by simp_all
    then have out: "c \<in> vol_clusters (ff_boot f) - set cs' - set ps" if "c \<in> set gs" for c
      using that g(3) w(7) by blast
    have "used_chain blk (ff_boot f) d' (ff_start_cluster g) gs \<longleftrightarrow> used_chain blk (ff_boot f) d (ff_start_cluster g) gs"
      using out w(12) by (intro used_chain_cong) blast
    moreover have "chain_data blk (ff_boot f) d' gs = chain_data blk (ff_boot f) d gs"
      using out w(11) by (intro chain_data_cong) blast
    ultimately show ?thesis using g(1,2) by (auto simp: file_wf_def file_data_def)
  qed
  have reads: "Fat32File_read dev f' d' offset (length buf) = Ok buf"
    "\<forall>m. m \<le> offset \<and> m \<le> unat (ff_size f) \<longrightarrow> Fat32File_read dev f' d' 0 m = Fat32File_read dev f d 0 m"
    "\<forall>m. Fat32File_read dev f' d' (offset + length buf) m = Fat32File_read dev f d (offset + length buf) m"
    using read [OF ok wf] read [of f' d' cs'] w(4,5) boot data by simp_all
  show ?thesis
    by (rule exI [of _ f'], rule exI [of _ d'], rule exI [of _ cs'], rule exI [of _ ?e])
      (use w(1,3,4,5) reads entry other in simp)
qed

theorem file_write_read_witness:
  "\<exists>f' d'. Fat32File_write ramdisk_ops 62 [7, 8, 9] (tiny_file, tiny_disk) = (Ok 3, (f', d')) \<and>
     unat (ff_size f') = 65 \<and> Fat32File_read ramdisk_ops f' d' 62 3 = Ok [7, 8, 9] \<and>
     Fat32File_read ramdisk_ops f' d' 0 5 = Fat32File_read ramdisk_ops tiny_file tiny_disk 0 5"
proof -
  have slot: "slot_in boot_tiny [2] 0" by (simp add: slot_in_def boot_tiny_fields)
  obtain f' d' where "Fat32File_write ramdisk_ops 62 [7, 8, 9] (tiny_file, tiny_disk) = (Ok (length [7, 8, 9 :: u8]), (f', d'))"
    "unat (ff_size f') = max (unat (ff_size tiny_file)) (62 + length [7, 8, 9 :: u8])"
    "Fat32File_read ramdisk_ops f' d' 62 (length [7, 8, 9 :: u8]) = Ok [7, 8, 9]"
    "\<And>m. m \<le> 62 \<and> m \<le> unat (ff_size tiny_file) \<Longrightarrow>
      Fat32File_read ramdisk_ops f' d' 0 m = Fat32File_read ramdisk_ops tiny_file tiny_disk 0 m"
    using file_write_read [OF ramdisk.block_device_axioms, of tiny_file tiny_disk "[3]" "[2]" "[7, 8, 9]" 62]
      tiny_vol_ok tiny_file_wf tiny_chains(1) slot tiny_free boot_tiny_fields(8) by fastforce
  then show ?thesis by (intro exI [of _ f'] exI [of _ d']) (simp add: numeral_3_eq_3)
qed

end
