(* ===== verification/Fat_Folder.thy ===== *)
theory Fat_Folder
  imports Fat_File
begin

text \<open>
  Directories of a FAT32 volume (\<open>Fat32Dir\<close> in \<open>src/fs/fat32/mod.rs\<close>): parsing of the entries with
  their long names, lookup, listing, creation and removal.
\<close>

section \<open>Operations\<close>

definition Fat32Dir_read_cluster_data :: "'d blkdev \<Rightarrow> Fat32Dir \<Rightarrow> 'd \<Rightarrow> (bytes, VfsError) outcome" where
  "Fat32Dir_read_cluster_data dev dir d = read_cluster dev (fd_boot dir) d (fd_cluster dir)"

definition read_cluster_data_for :: "'d blkdev \<Rightarrow> Fat32Dir \<Rightarrow> 'd \<Rightarrow> u32 \<Rightarrow> (bytes, VfsError) outcome" where
  "read_cluster_data_for dev dir = read_cluster dev (fd_boot dir)"

definition write_cluster_data :: "'d blkdev \<Rightarrow> Fat32Dir \<Rightarrow> u32 \<Rightarrow> bytes \<Rightarrow> ('d, unit, VfsError) act" where
  "write_cluster_data dev dir = write_cluster dev (fd_boot dir)"

text \<open>The two nested loops of \<open>read_all_cluster_data\<close> run over the sectors of all clusters in order.\<close>

fun extend_sectors ::
    "'d blkdev \<Rightarrow> 'd \<Rightarrow> nat \<Rightarrow> u64 list \<Rightarrow> bytes \<Rightarrow> (bytes, VfsError) outcome" where
  "extend_sectors dev d bps [] data = Ok data"
| "extend_sectors dev d bps (sector # ss) data =
     and_then (map_err (\<lambda>_. VfsIoError) (bd_read_block dev d sector bps)) (\<lambda>sector_buf.
       extend_sectors dev d bps ss (data @ sector_buf))"

definition read_all_cluster_data :: "'d blkdev \<Rightarrow> Fat32Dir \<Rightarrow> 'd \<Rightarrow> (bytes, VfsError) outcome" where
  "read_all_cluster_data dev dir d =
     and_then (fat_read_chain dev (fd_boot dir) d (fd_cluster dir)) (\<lambda>chain.
       extend_sectors dev d (unat (bytes_per_sector (fd_boot dir)))
         (concat (map (\<lambda>cluster. map (cluster_sector (fd_boot dir) cluster)
            [0..<unat (sectors_per_cluster (fd_boot dir))]) chain)) [])"

text \<open>
  The loop over the 32-byte chunks. A deleted entry is skipped without dropping the long-name parts
  collected so far; the other entries drop them.
\<close>

fun parse_loop ::
    "nat \<Rightarrow> bytes list \<Rightarrow> LfnEntry list \<Rightarrow> ((string \<times> DirEntry \<times> nat) list, VfsError) outcome" where
  "parse_loop idx [] lfn_parts = Ok []"
| "parse_loop idx (chunk # rest) lfn_parts =
     (if chunk ! 0 = 0x00 then Ok []
      else if chunk ! 0 = 0xE5 then parse_loop (Suc idx) rest lfn_parts
      else if length chunk \<le> 11 then Panic
      else if chunk ! 11 = LONG_NAME then
        (case LfnEntry_from_bytes chunk of
           Some lfn \<Rightarrow> parse_loop (Suc idx) rest (lfn_parts @ [lfn])
         | None \<Rightarrow> parse_loop (Suc idx) rest lfn_parts)
      else
        (case DirEntry_from_bytes chunk of
           Some entry \<Rightarrow>
             if is_volume_label entry then parse_loop (Suc idx) rest []
             else
               let name = if lfn_parts \<noteq> [] then extract_lfn_name lfn_parts else short_name entry
               in if name = ''.'' \<or> name = ''..'' then parse_loop (Suc idx) rest []
                  else map_ok (\<lambda>es. (name, entry, idx * 32) # es) (parse_loop (Suc idx) rest [])
         | None \<Rightarrow> parse_loop (Suc idx) rest []))"

definition parse_entries_with_offsets ::
    "'d blkdev \<Rightarrow> Fat32Dir \<Rightarrow> 'd \<Rightarrow> ((string \<times> DirEntry \<times> nat) list, VfsError) outcome" where
  "parse_entries_with_offsets dev dir d =
     and_then (read_all_cluster_data dev dir d) (\<lambda>data. parse_loop 0 (chunks 32 data) [])"

definition parse_entries :: "'d blkdev \<Rightarrow> Fat32Dir \<Rightarrow> 'd \<Rightarrow> ((string \<times> DirEntry) list, VfsError) outcome" where
  "parse_entries dev dir d =
     map_ok (map (\<lambda>(name, entry, _). (name, entry))) (parse_entries_with_offsets dev dir d)"

definition find_free_entry_slot :: "'d blkdev \<Rightarrow> Fat32Dir \<Rightarrow> 'd \<Rightarrow> (nat, VfsError) outcome" where
  "find_free_entry_slot dev dir d =
     and_then (read_all_cluster_data dev dir d) (\<lambda>data.
       ok_or NoSpace (map_option (\<lambda>idx. idx * 32)
         (position (\<lambda>chunk. chunk ! 0 = 0x00 \<or> chunk ! 0 = 0xE5) (chunks 32 data))))"

definition write_dir_entry :: "'d blkdev \<Rightarrow> Fat32Dir \<Rightarrow> nat \<Rightarrow> DirEntry \<Rightarrow> ('d, unit, VfsError) act" where
  "write_dir_entry dev dir offset entry =
     act_bind (act_lift (\<lambda>d. fat_read_chain dev (fd_boot dir) d (fd_cluster dir))) (\<lambda>chain.
       let csz = cluster_size (fd_boot dir)
       in if csz = 0 then act_panic
          else
            let cluster_idx = offset div csz; offset_in_cluster = offset mod csz
            in if cluster_idx \<ge> length chain then act_fail VfsIoError
               else
                 let cluster = chain ! cluster_idx
                 in act_bind (act_lift (\<lambda>d. read_cluster_data_for dev dir d cluster)) (\<lambda>data.
                    act_bind (act_lift (\<lambda>_. slice_put data offset_in_cluster (to_bytes entry))) (\<lambda>data.
                      write_cluster_data dev dir cluster data)))"

definition create_file :: "'d blkdev \<Rightarrow> Fat32Dir \<Rightarrow> string \<Rightarrow> ('d, Fat32Node, VfsError) act" where
  "create_file dev dir name =
     (let entry = new_file name 0 0
      in act_bind (act_lift (find_free_entry_slot dev dir)) (\<lambda>offset.
         act_bind (write_dir_entry dev dir offset entry) (\<lambda>_.
         act_return (FatFile (Fat32File_new (fd_boot dir) 0 0 name (fd_cluster dir) offset)))))"

definition create_directory :: "'d blkdev \<Rightarrow> Fat32Dir \<Rightarrow> string \<Rightarrow> ('d, Fat32Node, VfsError) act" where
  "create_directory dev dir name =
     act_bind (with_fat (fd_boot dir) (act_map_err (\<lambda>_. NoSpace) (alloc_cluster dev))) (\<lambda>cluster.
     act_bind (act_lift (\<lambda>_. slice_put (replicate (cluster_size (fd_boot dir)) 0) 0 (to_bytes (dot_entry cluster)))) (\<lambda>data.
     act_bind (act_lift (\<lambda>_. slice_put data 32 (to_bytes (dotdot_entry (fd_cluster dir))))) (\<lambda>data.
     act_bind (write_cluster_data dev dir cluster data) (\<lambda>_.
     act_bind (act_lift (find_free_entry_slot dev dir)) (\<lambda>offset.
     act_bind (write_dir_entry dev dir offset (new_dir name cluster)) (\<lambda>_.
     act_return (FatDir (Fat32Dir_new (fd_boot dir) cluster name))))))))"

definition Fat32Dir_lookup :: "'d blkdev \<Rightarrow> Fat32Dir \<Rightarrow> 'd \<Rightarrow> string \<Rightarrow> (Fat32Node, VfsError) outcome" where
  "Fat32Dir_lookup dev dir d name =
     and_then (parse_entries_with_offsets dev dir d) (\<lambda>entries.
       case find (\<lambda>(entry_name, entry, offset). eq_ignore_ascii_case entry_name name) entries of
         Some (entry_name, entry, offset) \<Rightarrow>
           if is_dir entry then Ok (FatDir (Fat32Dir_new (fd_boot dir) (de_cluster entry) entry_name))
           else Ok (FatFile (Fat32File_new (fd_boot dir) (de_cluster entry) (de_file_size entry) entry_name
                  (fd_cluster dir) offset))
       | None \<Rightarrow> Err NotFound)"

definition Fat32Dir_readdir :: "'d blkdev \<Rightarrow> Fat32Dir \<Rightarrow> 'd \<Rightarrow> (VDirEntry list, VfsError) outcome" where
  "Fat32Dir_readdir dev dir d =
     map_ok (map (\<lambda>(name, entry).
         \<lparr>vde_name = name, vde_type = (if is_dir entry then VDirectory else VFile)\<rparr>))
       (parse_entries dev dir d)"

definition Fat32Dir_stat :: "Fat32Dir \<Rightarrow> Stat" where
  "Fat32Dir_stat dir =
     Stat_default\<lparr>stat_node_type := VDirectory, stat_mode := default_dir, stat_size := 0, stat_nlink := 2\<rparr>"

text \<open>Any error of the lookup, not only that there is no such entry, lets the creation go on.\<close>

definition Fat32Dir_create ::
    "'d blkdev \<Rightarrow> Fat32Dir \<Rightarrow> string \<Rightarrow> VNodeType \<Rightarrow> FileMode \<Rightarrow> ('d, Fat32Node, VfsError) act" where
  "Fat32Dir_create dev dir name node_type mode d =
     (if name = [] \<or> CHR ''/'' \<in> set name \<or> length name > 255 then (Err InvalidArgument, d)
      else
        (case Fat32Dir_lookup dev dir d name of
           Ok _ \<Rightarrow> (Err AlreadyExists, d)
         | Panic \<Rightarrow> (Panic, d)
         | Err _ \<Rightarrow>
             (case node_type of
                VFile \<Rightarrow> create_file dev dir name d
              | VDirectory \<Rightarrow> create_directory dev dir name d
              | _ \<Rightarrow> (Err NotSupported, d))))"

text \<open>The entry that \<open>unlink\<close> and \<open>rmdir\<close> look for.\<close>

definition find_entry ::
    "'d blkdev \<Rightarrow> Fat32Dir \<Rightarrow> 'd \<Rightarrow> string \<Rightarrow> (nat \<times> DirEntry, VfsError) outcome" where
  "find_entry dev dir d name =
     and_then (parse_entries_with_offsets dev dir d) (\<lambda>entries.
       ok_or NotFound (map_option (\<lambda>(_, entry, offset). (offset, entry))
         (find (\<lambda>(entry_name, _, _). eq_ignore_ascii_case entry_name name) entries)))"

definition Fat32Dir_unlink :: "'d blkdev \<Rightarrow> Fat32Dir \<Rightarrow> string \<Rightarrow> ('d, unit, VfsError) act" where
  "Fat32Dir_unlink dev dir name =
     act_bind (act_lift (\<lambda>d. find_entry dev dir d name)) (\<lambda>(offset, entry).
       if is_dir entry then act_fail IsADirectory
       else act_bind
         (with_fat (fd_boot dir)
            (if de_cluster entry \<ge> 2 then act_map_err (\<lambda>_. VfsIoError) (free_chain dev (de_cluster entry))
             else act_return ()))
         (\<lambda>_. write_dir_entry dev dir offset (mark_deleted entry)))"

definition Fat32Dir_rmdir :: "'d blkdev \<Rightarrow> Fat32Dir \<Rightarrow> string \<Rightarrow> ('d, unit, VfsError) act" where
  "Fat32Dir_rmdir dev dir name =
     act_bind (act_lift (\<lambda>d. find_entry dev dir d name)) (\<lambda>(offset, entry).
       if \<not> is_dir entry then act_fail NotADirectory
       else act_bind (act_lift (\<lambda>d. Fat32Dir_readdir dev (Fat32Dir_new (fd_boot dir) (de_cluster entry) name) d))
         (\<lambda>subdir_entries.
            if subdir_entries \<noteq> [] then act_fail DirectoryNotEmpty
            else act_bind
              (with_fat (fd_boot dir) (act_map_err (\<lambda>_. VfsIoError) (free_chain dev (de_cluster entry))))
              (\<lambda>_. write_dir_entry dev dir offset (mark_deleted entry))))"


section \<open>Slots of a directory\<close>

lemma extend_sectors_append:
  "(\<And>s. s \<in> set ss \<Longrightarrow> bd_read_block dev d s bps = Ok (g s)) \<Longrightarrow>
   extend_sectors dev d bps ss data = Ok (data @ concat (map g ss))"
  by (induction ss arbitrary: data) simp_all

lemma concat_map_concat:
  "(\<And>c. c \<in> set cs \<Longrightarrow> concat (map g (ss c)) = f c) \<Longrightarrow> concat (map g (concat (map ss cs))) = concat (map f cs)"
  by (induction cs) auto

definition dir_slots :: "('d \<Rightarrow> nat \<Rightarrow> bytes) \<Rightarrow> Fat32BootSector \<Rightarrow> 'd \<Rightarrow> u32 list \<Rightarrow> bytes list" where
  "dir_slots blk boot d ps = chunks 32 (chain_data blk boot d ps)"

context block_device
begin

lemma read_all_ok:
  assumes ok: "vol_ok dev dinv blk (fd_boot dir) d" and used: "used_chain blk (fd_boot dir) d (fd_cluster dir) ps"
  shows "read_all_cluster_data dev dir d = Ok (chain_data blk (fd_boot dir) d ps)"
proof -
  define boot bps where "boot = fd_boot dir" and "bps = unat (bytes_per_sector (fd_boot dir))"
  note chain = used_chainD [OF ok used]
  let ?ss = "\<lambda>c. map (cluster_sector boot c) [0..<unat (sectors_per_cluster boot)]"
  have "bd_read_block dev d s bps = Ok (blk d (unat s))" if s: "s \<in> set (concat (map ?ss ps))" for s
  proof -
    obtain c i where c: "c \<in> set ps" "i < unat (sectors_per_cluster boot)" "s = cluster_sector boot c i" using s by auto
    then have "c \<in> vol_clusters (fd_boot dir)" using chain(2) by auto
    from cluster_sector_nat [OF ok this c(2) [unfolded boot_def]] show ?thesis
      using read_ok [OF vol_okD(5) [OF ok], of s] vol_okD(7) [OF ok] by (simp add: c(3) boot_def bps_def)
  qed
  then have "extend_sectors dev d bps (concat (map ?ss ps)) [] = Ok (concat (map (\<lambda>s. blk d (unat s)) (concat (map ?ss ps))))"
    by (subst extend_sectors_append) auto
  moreover have "concat (map (\<lambda>s. blk d (unat s)) (?ss c)) = cluster_data blk boot d c" if "c \<in> set ps" for c
  proof -
    have "c \<in> vol_clusters (fd_boot dir)" using chain(2) that by auto
    then show ?thesis
      unfolding cluster_data_def map_map o_def
      using cluster_sector_nat(1) [OF ok] by (intro concat_upt_cong) (simp add: boot_def)
  qed
  then have "concat (map (\<lambda>s. blk d (unat s)) (concat (map ?ss ps))) = chain_data blk boot d ps"
    unfolding chain_data_def by (rule concat_map_concat)
  ultimately show ?thesis
    using fat_read_chain_ok [OF ok chain(1)] by (simp add: read_all_cluster_data_def boot_def bps_def)
qed

end


text \<open>
  A directory in order: slots of 32 bytes, and no used slot after the end mark. A slot may hold a short entry, a part of a long
  name, a volume label, or be free.
\<close>

definition free_slot :: "bytes \<Rightarrow> bool" where
  "free_slot s \<longleftrightarrow> s ! 0 = 0x00 \<or> s ! 0 = 0xE5"

definition slots_wf :: "bytes list \<Rightarrow> bool" where
  "slots_wf ss \<longleftrightarrow> (\<forall>s \<in> set ss. length s = 32) \<and> sorted_wrt (\<lambda>s t. s ! 0 = 0 \<longrightarrow> t ! 0 = 0) ss"

text \<open>
  The parts of a long name that are pending behind some slots: a free slot keeps them, a part is added, and every other slot drops them.
  The entry of a slot as a lookup sees it, given the pending parts, and all entries with their offsets.
\<close>

definition next_parts :: "LfnEntry list \<Rightarrow> bytes \<Rightarrow> LfnEntry list" where
  "next_parts parts s =
     (if free_slot s then parts
      else if s ! 11 = LONG_NAME then (case LfnEntry_from_bytes s of Some l \<Rightarrow> parts @ [l] | None \<Rightarrow> parts)
      else [])"

definition pending_parts :: "LfnEntry list \<Rightarrow> bytes list \<Rightarrow> LfnEntry list" where
  "pending_parts parts ss = foldl next_parts parts ss"

definition entry_name :: "LfnEntry list \<Rightarrow> DirEntry \<Rightarrow> string" where
  "entry_name parts e = (if parts \<noteq> [] then extract_lfn_name parts else short_name e)"

definition slot_entry :: "LfnEntry list \<Rightarrow> nat \<Rightarrow> bytes \<Rightarrow> (string \<times> DirEntry \<times> nat) option" where
  "slot_entry parts i s =
     (if free_slot s \<or> s ! 11 = LONG_NAME then None
      else case DirEntry_from_bytes s of
        Some e \<Rightarrow>
          if is_volume_label e \<or> entry_name parts e = ''.'' \<or> entry_name parts e = ''..'' then None
          else Some (entry_name parts e, e, i * 32)
      | None \<Rightarrow> None)"

fun slot_entries :: "LfnEntry list \<Rightarrow> nat \<Rightarrow> bytes list \<Rightarrow> (string \<times> DirEntry \<times> nat) list" where
  "slot_entries parts i [] = []"
| "slot_entries parts i (s # ss) =
     (case slot_entry parts i s of Some x \<Rightarrow> [x] | None \<Rightarrow> []) @ slot_entries (next_parts parts s) (Suc i) ss"

lemma pending_parts_simps [simp]: "pending_parts parts [] = parts" "pending_parts parts (s # ss) = pending_parts (next_parts parts s) ss"
  by (simp_all add: pending_parts_def)

lemma slot_entries_append:
  "slot_entries parts i (ss @ ts) = slot_entries parts i ss @ slot_entries (pending_parts parts ss) (i + length ss) ts"
  by (induction ss arbitrary: i parts) simp_all

lemma slot_entries_zero: "\<forall>s \<in> set ss. s ! 0 = 0 \<Longrightarrow> slot_entries parts i ss = []"
  by (induction ss arbitrary: i parts) (simp_all add: slot_entry_def free_slot_def)

lemma slots_wf_Cons: "slots_wf (s # ss) \<Longrightarrow> slots_wf ss"
  by (simp add: slots_wf_def)

lemma parse_loop_slots: "slots_wf ss \<Longrightarrow> parse_loop i ss parts = Ok (slot_entries parts i ss)"
proof (induction ss arbitrary: i parts)
  case (Cons s ss)
  then have IH: "parse_loop (Suc i) ss parts = Ok (slot_entries parts (Suc i) ss)" for parts using slots_wf_Cons by blast
  show ?case
  proof (cases "free_slot s")
    case True
    have "slot_entries parts (Suc i) ss = []" if "s ! 0 = 0"
      using Cons.prems that by (intro slot_entries_zero) (simp add: slots_wf_def)
    then show ?thesis using True IH by (auto simp: slot_entry_def next_parts_def free_slot_def)
  next
    case False
    then have s: "length s = 32" "s ! 0 \<noteq> 0" "s ! 0 \<noteq> 0xE5"
      using Cons.prems by (simp_all add: slots_wf_def free_slot_def)
    then obtain e l where "DirEntry_from_bytes s = Some e" "LfnEntry_from_bytes s = Some l"
      using from_bytes_defined [of s] by (auto simp: LfnEntry_from_bytes_def)
    then show ?thesis using False s IH by (simp add: slot_entry_def next_parts_def entry_name_def Let_def)
  qed
qed simp

text \<open>A slot that is overwritten.\<close>

lemma slots_split: "i < length ss \<Longrightarrow> ss[i := s] = take i ss @ s # drop (Suc i) ss"
  by (simp add: upd_conv_take_nth_drop)

lemma slot_entries_update:
  assumes "i < length ss"
  shows "slot_entries [] 0 (ss[i := s]) = slot_entries [] 0 (take i ss) @
      (case slot_entry (pending_parts [] (take i ss)) i s of Some x \<Rightarrow> [x] | None \<Rightarrow> []) @
      slot_entries (next_parts (pending_parts [] (take i ss)) s) (Suc i) (drop (Suc i) ss)"
  using assms by (simp add: slots_split slot_entries_append min_def)

lemmas slot_entries_split = slot_entries_update [where s = "ss ! i" and ss = ss and i = i for ss i, unfolded list_update_id]

lemma slots_wf_update:
  assumes wf: "slots_wf ss" and i: "i < length ss" and s: "length s = 32" "s ! 0 \<noteq> 0"
    and before: "\<And>j. j < i \<Longrightarrow> ss ! j ! 0 \<noteq> 0"
  shows "slots_wf (ss[i := s])"
proof -
  have "sorted_wrt (\<lambda>s t. s ! 0 = 0 \<longrightarrow> t ! 0 = 0) (ss[i := s])"
    unfolding sorted_wrt_iff_nth_less
  proof (intro allI impI)
    fix a b assume ab: "a < b" "b < length (ss[i := s])" "ss[i := s] ! a ! 0 = 0"
    then have a: "a \<noteq> i" using s(2) by auto
    then have "ss ! a ! 0 = 0" using ab by simp
    moreover have "b \<noteq> i" using before [of a] ab(1) calculation by auto
    ultimately show "ss[i := s] ! b ! 0 = 0"
      using wf ab(1,2) by (auto simp: slots_wf_def sorted_wrt_iff_nth_less)
  qed
  moreover have "length t = 32" if "t \<in> set (ss[i := s])" for t
    using that wf s set_update_subset_insert [of ss i s] by (auto simp: slots_wf_def)
  ultimately show ?thesis by (simp add: slots_wf_def)
qed


section \<open>Operations on the slots\<close>

text \<open>A directory of the volume: its chain, cut into slots, is in order.\<close>

definition dir_ok ::
    "'d blkdev \<Rightarrow> ('d \<Rightarrow> bool) \<Rightarrow> ('d \<Rightarrow> nat \<Rightarrow> bytes) \<Rightarrow> Fat32Dir \<Rightarrow> 'd \<Rightarrow> u32 list \<Rightarrow> bool" where
  "dir_ok dev dinv blk dir d ps \<longleftrightarrow>
     vol_ok dev dinv blk (fd_boot dir) d \<and> 32 dvd cluster_size (fd_boot dir) \<and>
     used_chain blk (fd_boot dir) d (fd_cluster dir) ps \<and> slots_wf (dir_slots blk (fd_boot dir) d ps)"

lemma dir_okD:
  assumes "dir_ok dev dinv blk dir d ps"
  shows "vol_ok dev dinv blk (fd_boot dir) d" "32 dvd cluster_size (fd_boot dir)"
    "used_chain blk (fd_boot dir) d (fd_cluster dir) ps" "slots_wf (dir_slots blk (fd_boot dir) d ps)"
  using assms by (simp_all add: dir_ok_def)

lemma slot_in_index:
  assumes dvd: "32 dvd cluster_size boot" and pos: "0 < cluster_size boot" and i: "i * 32 < length ps * cluster_size boot"
  shows "slot_in boot ps (i * 32)"
proof -
  have "32 dvd i * 32 mod cluster_size boot" using dvd by (simp add: dvd_mod)
  moreover have "i * 32 mod cluster_size boot < cluster_size boot" using pos by simp
  ultimately have "i * 32 mod cluster_size boot + 32 \<le> cluster_size boot" using dvd by (auto elim!: dvdE)
  then show ?thesis using i pos by (simp add: slot_in_def div_less_iff_less_mult)
qed

context block_device
begin

lemma length_dir_slots:
  assumes "dir_ok dev dinv blk dir d ps"
  shows "length (dir_slots blk (fd_boot dir) d ps) * 32 = length ps * cluster_size (fd_boot dir)"
    and "length (chain_data blk (fd_boot dir) d ps) = length (dir_slots blk (fd_boot dir) d ps) * 32"
proof -
  note D = dir_okD [OF assms]
  have len: "length (chain_data blk (fd_boot dir) d ps) = length ps * cluster_size (fd_boot dir)"
    by (rule length_chain_data [OF D(1) used_chainD(2) [OF D(1,3)]])
  obtain k where k: "cluster_size (fd_boot dir) = 32 * k" using D(2) by (elim dvdE)
  have "length (dir_slots blk (fd_boot dir) d ps) = length ps * k"
    unfolding dir_slots_def using len k by (intro length_chunks) simp_all
  then show "length (dir_slots blk (fd_boot dir) d ps) * 32 = length ps * cluster_size (fd_boot dir)"
    "length (chain_data blk (fd_boot dir) d ps) = length (dir_slots blk (fd_boot dir) d ps) * 32"
    using len k by simp_all
qed

lemma parse_entries_ok:
  assumes "dir_ok dev dinv blk dir d ps"
  shows "parse_entries_with_offsets dev dir d = Ok (slot_entries [] 0 (dir_slots blk (fd_boot dir) d ps))"
  using dir_okD [OF assms] read_all_ok parse_loop_slots
  by (simp add: parse_entries_with_offsets_def dir_slots_def)

lemma find_free_slot_ok:
  assumes "dir_ok dev dinv blk dir d ps"
  shows "find_free_entry_slot dev dir d =
    ok_or NoSpace (map_option (\<lambda>i. i * 32) (position free_slot (dir_slots blk (fd_boot dir) d ps)))"
proof -
  have "(\<lambda>chunk. chunk ! 0 = 0x00 \<or> chunk ! 0 = 0xE5) = free_slot" by (auto simp: free_slot_def)
  then show ?thesis
    using dir_okD [OF assms] read_all_ok by (simp add: find_free_entry_slot_def dir_slots_def)
qed

lemma write_dir_entry_ok:
  assumes dir: "dir_ok dev dinv blk dir d ps" and i: "i < length (dir_slots blk (fd_boot dir) d ps)" and e: "entry_wf e"
  obtains d' where "write_dir_entry dev dir (i * 32) e d = (Ok (), d')" and "vol_ok dev dinv blk (fd_boot dir) d'"
    and "dir_slots blk (fd_boot dir) d' ps = (dir_slots blk (fd_boot dir) d ps)[i := to_bytes e]"
    and "\<And>x. x \<in> vol_clusters (fd_boot dir) - set ps \<Longrightarrow>
      cluster_data blk (fd_boot dir) d' x = cluster_data blk (fd_boot dir) d x"
    and "\<And>x. x \<in> vol_clusters (fd_boot dir) \<Longrightarrow> vol_next blk (fd_boot dir) d' x = vol_next blk (fd_boot dir) d x"
proof -
  define boot where "boot = fd_boot dir"
  define csz where "csz = cluster_size boot"
  define k o' where "k = i * 32 div csz" and "o' = i * 32 mod csz"
  note D = dir_okD [OF dir, folded boot_def]
  note chain = used_chainD [OF D(1,3)]
  note len = length_dir_slots [OF dir, folded boot_def]
  have pos: "0 < csz" using vol_okD(10) [OF D(1)] by (simp add: csz_def)
  have slot: "slot_in boot ps (i * 32)"
    using i len pos by (intro slot_in_index [OF D(2)]) (simp_all add: boot_def csz_def)
  then have k: "k < length ps" "o' + 32 \<le> csz" by (simp_all add: slot_in_def k_def o'_def csz_def)
  define c where "c = ps ! k"
  have c: "c \<in> vol_clusters boot" using chain(2) k(1) by (auto simp: c_def)
  have clen: "length (cluster_data blk boot d c) = csz" using D(1) c by (simp add: csz_def)
  have elen: "length (to_bytes e) = 32" using e by simp
  obtain d' where d': "write_cluster dev boot c (overwrite (cluster_data blk boot d c) o' (to_bytes e)) d = (Ok (), d')"
    "vol_ok dev dinv blk boot d'" "chain_data blk boot d' ps = overwrite (chain_data blk boot d ps) (i * 32) (to_bytes e)"
    "\<And>x. x \<in> vol_clusters boot - set ps \<Longrightarrow> cluster_data blk boot d' x = cluster_data blk boot d x"
    "\<And>x. x \<in> vol_clusters boot \<Longrightarrow> vol_next blk boot d' x = vol_next blk boot d x"
    using write_slot_ok [OF D(1) chain(2,3) slot elen]
    unfolding csz_def [symmetric] k_def [symmetric] o'_def [symmetric] c_def [symmetric] by blast
  have run: "write_dir_entry dev dir (i * 32) e d = (Ok (), d')"
    using fat_read_chain_ok [OF D(1) chain(1)] k read_cluster_ok [OF D(1) c] d'(1) clen elen pos
    by (simp add: write_dir_entry_def read_cluster_data_for_def write_cluster_data_def act_bind_def slice_put_def Let_def
        not_le flip: boot_def csz_def k_def o'_def c_def)
  have "dir_slots blk boot d' ps = (dir_slots blk boot d ps)[i := to_bytes e]"
    unfolding dir_slots_def d'(3) using i len(2) elen
    by (intro chunks_overwrite [where k = "length (dir_slots blk boot d ps)"]) (simp_all add: boot_def)
  then show ?thesis using that run d'(2,4,5) unfolding boot_def by blast
qed

text \<open>A directory after one of its slots was written.\<close>

lemma dir_ok_written:
  assumes dir: "dir_ok dev dinv blk dir d ps" and i: "i < length (dir_slots blk (fd_boot dir) d ps)" and ok': "vol_ok dev dinv blk (fd_boot dir) d'"
    and slots: "dir_slots blk (fd_boot dir) d' ps = (dir_slots blk (fd_boot dir) d ps)[i := to_bytes e]"
    and nxt: "\<And>x. x \<in> set ps \<Longrightarrow> vol_next blk (fd_boot dir) d' x = vol_next blk (fd_boot dir) d x"
    and e: "entry_wf e" "de_name e ! 0 \<noteq> 0"
    and before: "\<And>j. j < i \<Longrightarrow> dir_slots blk (fd_boot dir) d ps ! j ! 0 \<noteq> 0"
  shows "dir_ok dev dinv blk dir d' ps"
proof -
  note name = to_bytes_marks [OF e(1)]
  have "slots_wf (dir_slots blk (fd_boot dir) d' ps)"
    unfolding slots using e name before dir_okD(4) [OF dir] i
    by (intro slots_wf_update) (auto simp: free_slot_def)
  moreover have "used_chain blk (fd_boot dir) d' (fd_cluster dir) ps"
    using used_chain_cong [of ps blk "fd_boot dir" d' d] nxt dir_okD(3) [OF dir] by blast
  ultimately show ?thesis using ok' dir_okD(2) [OF dir] by (simp add: dir_ok_def)
qed

end


section \<open>Creating and removing files\<close>

lemma upper_char_dot: "char_of (ascii_upper (of_char c)) = CHR ''.'' \<Longrightarrow> c = CHR ''.''"
proof -
  assume a: "char_of (ascii_upper (of_char c)) = CHR ''.''"
  have "ascii_upper (of_char c) < 256" by (auto simp: ascii_upper_def)
  then have "ascii_upper (of_char c) = of_char (CHR ''.'')"
    using arg_cong [OF a, of "of_char :: char \<Rightarrow> nat"] by simp
  then have "of_char c = (of_char (CHR ''.'') :: nat)" by (auto simp: ascii_upper_def split: if_splits)
  then show "c = CHR ''.''" by (simp only: of_char_eq_iff)
qed

lemma name_83_dots: "name_83 name \<Longrightarrow> upper_name name \<noteq> ''.'' \<and> upper_name name \<noteq> ''..''"
proof -
  assume n: "name_83 name"
  have "name \<noteq> ''.''" "name \<noteq> ''..''"
    using n by (auto simp: name_83_def split_ext_def rfind_def)
  moreover have "name = ''.''" if "upper_name name = ''.''" using that upper_char_dot by (auto simp: upper_name_def)
  moreover have "name = ''..''" if "upper_name name = ''..''" using that upper_char_dot by (auto simp: upper_name_def)
  ultimately show ?thesis by blast
qed

lemma slot_entry_new_file:
  assumes "name_83 name"
  shows "slot_entry [] i (to_bytes (new_file name c n)) = Some (upper_name name, new_file name c n, i * 32)"
    and "next_parts parts (to_bytes (new_file name c n)) = []"
proof -
  have e: "entry_wf (new_file name c n)" by simp
  have "to_bytes (new_file name c n) ! 0 = de_name (set_name name DirEntry_empty) ! 0"
    using to_bytes_marks(1) [OF e] by simp
  then have used: "\<not> free_slot (to_bytes (new_file name c n))"
    using set_name_first [OF assms, of DirEntry_empty] by (auto simp: free_slot_def)
  have short: "to_bytes (new_file name c n) ! 11 \<noteq> LONG_NAME"
    by (simp add: to_bytes_marks ARCHIVE_def LONG_NAME_def READ_ONLY_def HIDDEN_def SYSTEM_def VOLUME_ID_def)
  have "\<not> is_volume_label (new_file name c n)"
    by (simp add: is_volume_label_def ARCHIVE_def VOLUME_ID_def)
  then show "slot_entry [] i (to_bytes (new_file name c n)) = Some (upper_name name, new_file name c n, i * 32)"
    using used short from_bytes_to_bytes [OF e, of "[]"] name_83_dots [OF assms] short_name_new(1) [OF assms]
    by (simp add: slot_entry_def entry_name_def)
  show "next_parts parts (to_bytes (new_file name c n)) = []" using used short by (simp add: next_parts_def)
qed

text \<open>A list into which one element is put.\<close>

lemma find_insert:
  "find P (xs @ [x] @ ys) = (if \<exists>y \<in> set xs. P y then find P xs else if P x then Some x else find P ys)"
  by (induction xs) auto

lemma find_append_none: "\<not> P x \<Longrightarrow> find P (xs @ [x] @ ys) = find P (xs @ ys)"
  by (induction xs) auto

definition node_of :: "Fat32Dir \<Rightarrow> string \<times> DirEntry \<times> nat \<Rightarrow> Fat32Node" where
  "node_of dir x = (case x of (name, e, off) \<Rightarrow>
     if is_dir e then FatDir (Fat32Dir_new (fd_boot dir) (de_cluster e) name)
     else FatFile (Fat32File_new (fd_boot dir) (de_cluster e) (de_file_size e) name (fd_cluster dir) off))"

context block_device
begin

lemma lookup_ok:
  assumes "dir_ok dev dinv blk dir d ps"
  shows "Fat32Dir_lookup dev dir d name =
    (case find (\<lambda>x. eq_ignore_ascii_case (fst x) name) (slot_entries [] 0 (dir_slots blk (fd_boot dir) d ps)) of
       Some x \<Rightarrow> Ok (node_of dir x) | None \<Rightarrow> Err NotFound)"
proof -
  have "(\<lambda>(entry_name, entry :: DirEntry, offset :: nat). eq_ignore_ascii_case entry_name name) =
      (\<lambda>x. eq_ignore_ascii_case (fst x) name)" by (rule ext) (simp add: case_prod_beta)
  then show ?thesis
    using parse_entries_ok [OF assms] by (auto simp: Fat32Dir_lookup_def node_of_def split: option.splits)
qed

lemma create_file_ok:
  assumes dir: "dir_ok dev dinv blk dir d ps" and name: "name_83 name"
    and free: "position free_slot (dir_slots blk (fd_boot dir) d ps) = Some i"
  obtains d' where "create_file dev dir name d = (Ok (FatFile (Fat32File_new (fd_boot dir) 0 0 name (fd_cluster dir) (i * 32))), d')"
    and "dir_ok dev dinv blk dir d' ps"
    and "dir_slots blk (fd_boot dir) d' ps = (dir_slots blk (fd_boot dir) d ps)[i := to_bytes (new_file name 0 0)]"
    and "\<And>x. x \<in> vol_clusters (fd_boot dir) - set ps \<Longrightarrow>
      cluster_data blk (fd_boot dir) d' x = cluster_data blk (fd_boot dir) d x"
    and "\<And>x. x \<in> vol_clusters (fd_boot dir) \<Longrightarrow> vol_next blk (fd_boot dir) d' x = vol_next blk (fd_boot dir) d x"
proof -
  let ?e = "new_file name 0 0"
  have i: "i < length (dir_slots blk (fd_boot dir) d ps)" and
    before: "\<And>j. j < i \<Longrightarrow> dir_slots blk (fd_boot dir) d ps ! j ! 0 \<noteq> 0"
    using position_SomeD [OF free] by (auto simp: free_slot_def)
  obtain d' where w: "write_dir_entry dev dir (i * 32) ?e d = (Ok (), d')" "vol_ok dev dinv blk (fd_boot dir) d'"
    "dir_slots blk (fd_boot dir) d' ps = (dir_slots blk (fd_boot dir) d ps)[i := to_bytes ?e]"
    "\<And>x. x \<in> vol_clusters (fd_boot dir) - set ps \<Longrightarrow> cluster_data blk (fd_boot dir) d' x = cluster_data blk (fd_boot dir) d x"
    "\<And>x. x \<in> vol_clusters (fd_boot dir) \<Longrightarrow> vol_next blk (fd_boot dir) d' x = vol_next blk (fd_boot dir) d x"
    using write_dir_entry_ok [OF dir i, of ?e] by auto
  have "set ps \<subseteq> vol_clusters (fd_boot dir)" by (rule used_chainD(2) [OF dir_okD(1,3) [OF dir]])
  then have "dir_ok dev dinv blk dir d' ps"
    using w(5) before set_name_first [OF name, of DirEntry_empty]
    by (intro dir_ok_written [OF dir i w(2,3)]) auto
  moreover have "create_file dev dir name d =
      (Ok (FatFile (Fat32File_new (fd_boot dir) 0 0 name (fd_cluster dir) (i * 32))), d')"
    using w(1) by (simp add: create_file_def act_bind_def find_free_slot_ok [OF dir] free)
  ultimately show ?thesis using that w(3-5) by blast
qed

end

lemma slot_entries_offset:
  "x \<in> set (slot_entries parts k ss) \<Longrightarrow>
   \<exists>i < length ss. slot_entry (pending_parts parts (take i ss)) (k + i) (ss ! i) = Some x \<and> snd (snd x) = (k + i) * 32"
proof (induction ss arbitrary: k parts)
  case (Cons s ss)
  show ?case
  proof (cases "slot_entry parts k s = Some x")
    case True
    then have "snd (snd x) = k * 32" by (auto simp: slot_entry_def split: if_splits option.splits)
    then show ?thesis using True by (intro exI [of _ 0]) simp
  next
    case False
    then have "x \<in> set (slot_entries (next_parts parts s) (Suc k) ss)" using Cons.prems by (auto split: option.splits)
    then obtain i where "i < length ss" "slot_entry (pending_parts (next_parts parts s) (take i ss)) (Suc k + i) (ss ! i) = Some x"
      "snd (snd x) = (Suc k + i) * 32"
      using Cons.IH by blast
    then show ?thesis by (intro exI [of _ "Suc i"]) simp
  qed
qed simp

text \<open>What is known of a slot with an entry, and of the slot once the entry is marked as deleted.\<close>

lemma slot_entry_Some:
  assumes "slot_entry parts i s = Some (nm, e, off)"
  shows "entry_wf e" "\<not> free_slot s" "off = i * 32" "nm = entry_name parts e" "next_parts parts s = []"
  using assms from_bytes_wf by (auto simp: slot_entry_def next_parts_def split: if_splits option.splits)

lemma slot_entry_deleted:
  assumes "entry_wf e"
  shows "slot_entry parts i (to_bytes (mark_deleted e)) = None" "de_name (mark_deleted e) ! 0 = 0xE5"
    "next_parts parts (to_bytes (mark_deleted e)) = parts"
proof -
  show "de_name (mark_deleted e) ! 0 = 0xE5" using assms by (simp add: mark_deleted_def entry_wf_def)
  moreover have "to_bytes (mark_deleted e) ! 0 = de_name (mark_deleted e) ! 0"
    using assms by (intro to_bytes_marks) simp
  ultimately show "slot_entry parts i (to_bytes (mark_deleted e)) = None" "next_parts parts (to_bytes (mark_deleted e)) = parts"
    by (simp_all add: slot_entry_def next_parts_def free_slot_def)
qed

text \<open>Marking an entry without a long name as deleted removes exactly that entry.\<close>

lemma slot_entries_remove:
  assumes i: "i < length ss" and x: "slot_entry [] i (ss ! i) = Some (nm, e, off)" and clean: "pending_parts [] (take i ss) = []"
  shows "slot_entries [] 0 (ss[i := to_bytes (mark_deleted e)]) = filter (\<lambda>x. snd (snd x) \<noteq> i * 32) (slot_entries [] 0 ss)"
proof -
  let ?A = "slot_entries [] 0 (take i ss)" and ?B = "slot_entries [] (Suc i) (drop (Suc i) ss)"
  note e = slot_entry_Some [OF x]
  have off: "snd (snd y) \<noteq> i * 32" if "y \<in> set ?A \<union> set ?B" for y
    using that slot_entries_offset [of y "[]" 0 "take i ss"] slot_entries_offset [of y "[]" "Suc i" "drop (Suc i) ss"] by auto
  have old: "slot_entries [] 0 ss = ?A @ [(nm, e, off)] @ ?B" using slot_entries_split [OF i] x clean e(5) by simp
  have "slot_entries [] 0 (ss[i := to_bytes (mark_deleted e)]) = ?A @ ?B"
    using slot_entries_update [OF i] slot_entry_deleted(1,3) [OF e(1)] clean by simp
  moreover have "filter (\<lambda>x. snd (snd x) \<noteq> i * 32) ?A = ?A" "filter (\<lambda>x. snd (snd x) \<noteq> i * 32) ?B = ?B"
    using off by (simp_all add: filter_id_conv)
  ultimately show ?thesis using old e(3) by simp
qed

context block_device
begin

text \<open>Giving back the chain of a file.\<close>

lemma free_file_chain_ok:
  assumes ok: "vol_ok dev dinv blk boot d" and cs: "if c < 2 then cs = [] else used_chain blk boot d c cs"
  obtains d' where "with_fat boot (if c \<ge> 2 then act_map_err (\<lambda>_. VfsIoError) (free_chain dev c) else act_return ()) d = (Ok (), d')"
    and "vol_ok dev dinv blk boot d'"
    and "\<And>x. x \<in> vol_clusters boot \<Longrightarrow> cluster_data blk boot d' x = cluster_data blk boot d x"
    and "\<And>x. x \<in> vol_clusters boot \<Longrightarrow> vol_next blk boot d' x = (if x \<in> set cs then FAT_FREE else vol_next blk boot d x)"
proof (cases "c < 2")
  case True
  then show ?thesis using that [of d] ok cs by (simp add: with_fat_def vol_okD(1) [OF ok] linorder_not_less [symmetric])
next
  case False
  have tab: "vol_tab dev dinv blk boot (fresh_fat boot d)" using ok by simp
  note D = vol_tabD [OF tab]
  obtain e where e: "chain_end e" "e \<noteq> FAT_FREE"
    and path: "fat_path (fat_next blk (fresh_fat boot d)) (fat_clusters (fresh_fat boot d)) c cs e"
    using cs False by (auto simp: used_chain_def vol_next_def)
  obtain ft' where run: "free_chain dev c (fresh_fat boot d) = (Ok (), ft')"
    and step: "fat_step dev dinv blk (fresh_fat boot d) ft'
      (\<lambda>x. if x \<in> set cs then FAT_FREE else fat_next blk (fresh_fat boot d) x)"
    using free_chain_ok [OF D(2) e path] by blast
  note S = fat_stepD [OF step]
  note T = vol_tab_step [OF tab S(1,2)]
  note D' = vol_tabD [OF T(1)]
  have "with_fat boot (if c \<ge> 2 then act_map_err (\<lambda>_. VfsIoError) (free_chain dev c) else act_return ()) d = (Ok (), ft_device ft')"
    using False run by (simp add: with_fat_def vol_okD(1) [OF ok] act_map_err_def linorder_not_less)
  moreover have "vol_next blk boot (ft_device ft') x = (if x \<in> set cs then FAT_FREE else vol_next blk boot d x)"
    if "x \<in> vol_clusters boot" for x
    using S(4) [of x] that by (simp add: D'(4) vol_next_def)
  ultimately show ?thesis using that [of "ft_device ft'"] D'(1) T(2) by simp
qed

lemma find_entry_ok:
  assumes "dir_ok dev dinv blk dir d ps"
    and "find (\<lambda>x. eq_ignore_ascii_case (fst x) name) (slot_entries [] 0 (dir_slots blk (fd_boot dir) d ps)) = Some (nm, e, off)"
  shows "find_entry dev dir d name = Ok (off, e)"
proof -
  have "(\<lambda>(entry_name, _ :: DirEntry, _ :: nat). eq_ignore_ascii_case entry_name name) =
      (\<lambda>x. eq_ignore_ascii_case (fst x) name)" by (rule ext) (simp add: case_prod_beta)
  then show ?thesis using parse_entries_ok [OF assms(1)] assms(2) by (simp add: find_entry_def)
qed

lemma unlink_ok:
  assumes dir: "dir_ok dev dinv blk dir d ps" and found: "find_entry dev dir d name = Ok (off, e)" and not_dir: "\<not> is_dir e"
    and cs: "if de_cluster e < 2 then cs = [] else used_chain blk (fd_boot dir) d (de_cluster e) cs"
    and apart: "set cs \<inter> set ps = {}"
  obtains d' i nm where "Fat32Dir_unlink dev dir name d = (Ok (), d')" and "dir_ok dev dinv blk dir d' ps"
    and "off = i * 32" and "i < length (dir_slots blk (fd_boot dir) d ps)"
    and "slot_entry (pending_parts [] (take i (dir_slots blk (fd_boot dir) d ps))) i (dir_slots blk (fd_boot dir) d ps ! i) = Some (nm, e, off)"
    and "dir_slots blk (fd_boot dir) d' ps = (dir_slots blk (fd_boot dir) d ps)[i := to_bytes (mark_deleted e)]"
    and "\<And>x. x \<in> vol_clusters (fd_boot dir) - set ps \<Longrightarrow>
      cluster_data blk (fd_boot dir) d' x = cluster_data blk (fd_boot dir) d x"
    and "\<And>x. x \<in> vol_clusters (fd_boot dir) \<Longrightarrow>
      vol_next blk (fd_boot dir) d' x = (if x \<in> set cs then FAT_FREE else vol_next blk (fd_boot dir) d x)"
proof -
  define boot where "boot = fd_boot dir"
  define ss where "ss = dir_slots blk boot d ps"
  note D = dir_okD [OF dir, folded boot_def, folded ss_def]
  have ps: "set ps \<subseteq> vol_clusters boot" by (rule used_chainD(2) [OF D(1,3)])
  obtain nm where "(nm, e, off) \<in> set (slot_entries [] 0 ss)"
    using found parse_entries_ok [OF dir] by (auto simp: find_entry_def find_Some_iff ss_def boot_def split: option.splits) (metis nth_mem)
  then obtain i where i: "i < length ss" "slot_entry (pending_parts [] (take i ss)) i (ss ! i) = Some (nm, e, off)" "off = i * 32"
    using slot_entries_offset [of "(nm, e, off)" "[]" 0 ss] by auto
  note e = slot_entry_Some(1,2) [OF i(2)]
  have before: "ss ! j ! 0 \<noteq> 0" if "j < i" for j
    using D(4) e(2) i(1) that by (auto simp: slots_wf_def free_slot_def sorted_wrt_iff_nth_less)
  obtain d1 where f: "with_fat boot (if de_cluster e \<ge> 2 then act_map_err (\<lambda>_. VfsIoError) (free_chain dev (de_cluster e))
      else act_return ()) d = (Ok (), d1)" "vol_ok dev dinv blk boot d1"
    "\<And>x. x \<in> vol_clusters boot \<Longrightarrow> cluster_data blk boot d1 x = cluster_data blk boot d x"
    "\<And>x. x \<in> vol_clusters boot \<Longrightarrow> vol_next blk boot d1 x = (if x \<in> set cs then FAT_FREE else vol_next blk boot d x)"
    using free_file_chain_ok [OF D(1) cs [folded boot_def]] by blast
  have slots1: "dir_slots blk boot d1 ps = ss"
    unfolding ss_def dir_slots_def using f(3) ps by (subst chain_data_cong [of ps _ _ d1 d]) auto
  have next1: "vol_next blk boot d1 x = vol_next blk boot d x" if "x \<in> set ps" for x
  proof -
    have "x \<in> vol_clusters boot" "x \<notin> set cs" using that ps apart by blast+
    then show ?thesis using f(4) [of x] by simp
  qed
  have dir1: "dir_ok dev dinv blk dir d1 ps"
    using D(2,4) f(2) slots1 used_chain_cong [of ps blk boot d1 d, OF next1] D(3) by (simp add: dir_ok_def boot_def)
  obtain d2 where w: "write_dir_entry dev dir (i * 32) (mark_deleted e) d1 = (Ok (), d2)" "vol_ok dev dinv blk boot d2"
    "dir_slots blk boot d2 ps = ss[i := to_bytes (mark_deleted e)]"
    "\<And>x. x \<in> vol_clusters boot - set ps \<Longrightarrow> cluster_data blk boot d2 x = cluster_data blk boot d1 x"
    "\<And>x. x \<in> vol_clusters boot \<Longrightarrow> vol_next blk boot d2 x = vol_next blk boot d1 x"
    using write_dir_entry_ok [OF dir1, of i "mark_deleted e"] i(1) e(1) slots1 unfolding boot_def by auto
  have "dir_ok dev dinv blk dir d2 ps"
    using w(3,5) ps i(1) slots1 slot_entry_deleted(2) [OF e(1)] e(1) before
    by (intro dir_ok_written [OF dir1 _ w(2) [unfolded boot_def], of i "mark_deleted e"]) (auto simp: boot_def)
  moreover have "Fat32Dir_unlink dev dir name d = (Ok (), d2)"
    using found not_dir f(1) w(1)
    by (simp add: Fat32Dir_unlink_def act_bind_def i(3) boot_def)
  ultimately show ?thesis using that [of d2 i nm] i w(3-5) f(3,4) unfolding boot_def ss_def by simp
qed

end


section \<open>The root directory of the small volume\<close>

definition tiny_root :: Fat32Dir where
  "tiny_root = Fat32Dir_new_root boot_tiny 2"

lemma tiny_root_fields [simp]: "fd_boot tiny_root = boot_tiny" "fd_cluster tiny_root = 2"
  by (simp_all add: tiny_root_def Fat32Dir_new_root_def)

lemma tiny_root_slots:
  "dir_slots rd_blk boot_tiny tiny_disk [2] = [to_bytes (new_file ''A.TXT'' 3 5), replicate 32 0]"
proof -
  let ?e = "new_file ''A.TXT'' 3 5"
  have len: "length (to_bytes ?e) = 32" by simp
  have "rd_blk tiny_disk 3 = to_bytes ?e" "rd_blk tiny_disk 4 = replicate 32 0"
    by (simp_all add: rd_blk_def tiny_disk_def)
  moreover have "unat (cluster_to_sector boot_tiny 2) = 3"
    by (simp add: cluster_to_sector_def data_start_sector_def boot_tiny_fields)
  moreover have "[0..<unat (sectors_per_cluster boot_tiny)] = [0, 1]" by (simp add: boot_tiny_fields upt_rec)
  ultimately have "chain_data rd_blk boot_tiny tiny_disk [2] = to_bytes ?e @ replicate 32 0"
    by (simp add: cluster_data_def)
  then show ?thesis using len by (simp add: dir_slots_def chunks_map [of 32 _ 2] upt_rec)
qed

lemma tiny_root_ok: "dir_ok ramdisk_ops rd_wf rd_blk tiny_root tiny_disk [2]"
proof -
  have "to_bytes (new_file ''A.TXT'' 3 5) ! 0 = 65" by (simp add: to_bytes_marks) code_simp
  then have "slots_wf (dir_slots rd_blk boot_tiny tiny_disk [2])"
    unfolding tiny_root_slots slots_wf_def by simp
  then show ?thesis using tiny_vol_ok tiny_chains(1) by (simp add: dir_ok_def boot_tiny_fields)
qed

lemma tiny_name: "name_83 ''A.TXT''"
  by (simp add: name_83_def split_ext_def rfind_def plain_char_def)

lemma tiny_root_entries:
  "slot_entries [] 0 (dir_slots rd_blk boot_tiny tiny_disk [2]) = [(''A.TXT'', new_file ''A.TXT'' 3 5, 0)]"
proof -
  note name = tiny_name
  have upper: "upper_name ''A.TXT'' = ''A.TXT''" by code_simp
  have first: "slot_entry [] 0 (to_bytes (new_file ''A.TXT'' 3 5)) = Some (''A.TXT'', new_file ''A.TXT'' 3 5, 0)"
    using slot_entry_new_file(1) [OF name, of 0 3 5] unfolding upper by (simp only: mult_0)
  have "free_slot (replicate 32 0)" by (simp add: free_slot_def)
  then have second: "slot_entry parts (Suc 0) (replicate 32 0) = None" for parts by (simp only: slot_entry_def simp_thms if_True)
  show ?thesis by (simp only: tiny_root_slots slot_entries.simps first second option.case append.simps)
qed


section \<open>Properties\<close>

text \<open>
  C14. Creating a file with a new 8.3 name in a directory that has a free slot, with no left-over parts of a long name before the first free slot,
  succeeds; afterwards a lookup of that name finds the empty file at its slot, every other name, long or short, is found or not found as
  before, and no cluster outside the directory and no FAT entry has changed.
\<close>

theorem create_then_lookup:
  assumes dev: "block_device dev dinv blk" and dir: "dir_ok dev dinv blk dir d ps" and name: "name_83 name" "CHR ''/'' \<notin> set name"
    and fresh: "Fat32Dir_lookup dev dir d name = Err NotFound"
    and free: "position free_slot (dir_slots blk (fd_boot dir) d ps) = Some i"
    and clean: "pending_parts [] (take i (dir_slots blk (fd_boot dir) d ps)) = []"
  shows "\<exists>d'. Fat32Dir_create dev dir name VFile mode d =
      (Ok (FatFile (Fat32File_new (fd_boot dir) 0 0 name (fd_cluster dir) (i * 32))), d') \<and>
    dir_ok dev dinv blk dir d' ps \<and>
    Fat32Dir_lookup dev dir d' name =
      Ok (FatFile (Fat32File_new (fd_boot dir) 0 0 (upper_name name) (fd_cluster dir) (i * 32))) \<and>
    (\<forall>other. \<not> eq_ignore_ascii_case other name \<longrightarrow> Fat32Dir_lookup dev dir d' other = Fat32Dir_lookup dev dir d other) \<and>
    (\<forall>c \<in> vol_clusters (fd_boot dir) - set ps. cluster_data blk (fd_boot dir) d' c = cluster_data blk (fd_boot dir) d c) \<and>
    (\<forall>c \<in> vol_clusters (fd_boot dir). vol_next blk (fd_boot dir) d' c = vol_next blk (fd_boot dir) d c)"
proof -
  define ss where "ss = dir_slots blk (fd_boot dir) d ps"
  note i = free [folded ss_def] and none_left = clean [folded ss_def]
  obtain d' where c: "create_file dev dir name d = (Ok (FatFile (Fat32File_new (fd_boot dir) 0 0 name (fd_cluster dir) (i * 32))), d')"
    "dir_ok dev dinv blk dir d' ps" "dir_slots blk (fd_boot dir) d' ps = ss[i := to_bytes (new_file name 0 0)]"
    "\<And>x. x \<in> vol_clusters (fd_boot dir) - set ps \<Longrightarrow> cluster_data blk (fd_boot dir) d' x = cluster_data blk (fd_boot dir) d x"
    "\<And>x. x \<in> vol_clusters (fd_boot dir) \<Longrightarrow> vol_next blk (fd_boot dir) d' x = vol_next blk (fd_boot dir) d x"
    using block_device.create_file_ok [OF dev dir name(1) i [unfolded ss_def]] unfolding ss_def by blast
  have len: "i < length ss" "free_slot (ss ! i)" using position_SomeD [OF i] by auto
  define A B where "A = slot_entries [] 0 (take i ss)" and "B = slot_entries [] (Suc i) (drop (Suc i) ss)"
  let ?x = "(upper_name name, new_file name 0 0, i * 32)"
  have old: "slot_entries [] 0 ss = A @ B"
    using slot_entries_split [OF len(1)] len(2) none_left by (simp add: A_def B_def slot_entry_def next_parts_def)
  have new: "slot_entries [] 0 (dir_slots blk (fd_boot dir) d' ps) = A @ [?x] @ B"
    unfolding c(3) using slot_entries_update [OF len(1)] slot_entry_new_file [OF name(1)] none_left by (simp add: A_def B_def)
  note lookup = block_device.lookup_ok [OF dev dir, folded ss_def, unfolded old]
    and lookup' = block_device.lookup_ok [OF dev c(2), unfolded new]
  have none: "find (\<lambda>x. eq_ignore_ascii_case (fst x) name) (A @ B) = None"
    using fresh lookup [of name] by (auto split: option.splits)
  have "find (\<lambda>x. eq_ignore_ascii_case (fst x) name) (A @ [?x] @ B) = Some ?x"
  proof -
    have "\<not> (\<exists>y \<in> set A. eq_ignore_ascii_case (fst y) name)" using none unfolding find_None_iff by (metis Un_iff set_append)
    then show ?thesis unfolding find_insert by (simp add: eq_ignore_upper)
  qed
  then have "Fat32Dir_lookup dev dir d' name =
      Ok (FatFile (Fat32File_new (fd_boot dir) 0 0 (upper_name name) (fd_cluster dir) (i * 32)))"
    using lookup' [of name] by (simp add: node_of_def is_dir_def ARCHIVE_def DIRECTORY_def)
  moreover have "Fat32Dir_lookup dev dir d' other = Fat32Dir_lookup dev dir d other"
    if "\<not> eq_ignore_ascii_case other name" for other
  proof -
    have "\<not> eq_ignore_ascii_case (upper_name name) other"
      using that eq_ignore_upper [of name] eq_ignore_ascii_case_sym eq_ignore_ascii_case_trans by blast
    then have "find (\<lambda>x. eq_ignore_ascii_case (fst x) other) (A @ [?x] @ B) = find (\<lambda>x. eq_ignore_ascii_case (fst x) other) (A @ B)"
      by (intro find_append_none) simp
    then show ?thesis unfolding lookup lookup' by simp
  qed
  moreover have "name \<noteq> []" "length name \<le> 255"
  proof -
    obtain base ext where split: "split_ext name = (base, ext)" by fastforce
    then have "base \<noteq> []" "length base \<le> 8" "length ext \<le> 3" using name(1) by (auto simp: name_83_def)
    then show "name \<noteq> []" "length name \<le> 255" using split_ext_join [OF split] by (auto split: if_splits)
  qed
  then have "Fat32Dir_create dev dir name VFile mode d = create_file dev dir name d"
    using fresh name(2) by (simp add: Fat32Dir_create_def)
  ultimately show ?thesis using c(1,2,4,5) by (intro exI [of _ d'] conjI ballI allI impI) simp_all
qed

theorem create_then_lookup_witness:
  "\<exists>d'. Fat32Dir_create ramdisk_ops tiny_root ''b.c'' VFile default_file tiny_disk =
     (Ok (FatFile (Fat32File_new boot_tiny 0 0 ''b.c'' 2 32)), d') \<and>
     Fat32Dir_lookup ramdisk_ops tiny_root d' ''a.txt'' = Fat32Dir_lookup ramdisk_ops tiny_root tiny_disk ''a.txt''"
proof -
  have name: "name_83 ''b.c''" "CHR ''/'' \<notin> set ''b.c''"
    by (simp_all add: name_83_def split_ext_def rfind_def plain_char_def)
  have eval: "\<not> eq_ignore_ascii_case ''A.TXT'' ''b.c''" "\<not> eq_ignore_ascii_case ''a.txt'' ''b.c''"
    by (simp_all add: eq_ignore_ascii_case_def)
  have "Fat32Dir_lookup ramdisk_ops tiny_root tiny_disk ''b.c'' = Err NotFound"
    using ramdisk.lookup_ok [OF tiny_root_ok] eval(1) by (simp add: tiny_root_entries)
  moreover have "\<not> free_slot (to_bytes (new_file ''A.TXT'' 3 5))"
    using slot_entry_new_file(1) [OF tiny_name, of 0 3 5] by (auto simp: slot_entry_def)
  then have "position free_slot (dir_slots rd_blk (fd_boot tiny_root) tiny_disk [2]) = Some 1"
    "pending_parts [] (take 1 (dir_slots rd_blk (fd_boot tiny_root) tiny_disk [2])) = []"
    using slot_entry_new_file(2) [OF tiny_name, of "[]" 3 5] by (simp_all add: tiny_root_slots free_slot_def)
  ultimately show ?thesis
    using create_then_lookup [OF ramdisk.block_device_axioms tiny_root_ok name, where mode = default_file and i = 1] eval(2) by fastforce
qed

text \<open>
  C15. Removing a file without a long name, whose data is a chain of clusters apart from the directory's own, succeeds; the
  directory then lists exactly the other entries, in the same order, the clusters of the file are free
  again, every other FAT entry is kept, and so is the data of every cluster outside the directory.
\<close>

theorem unlink_frees_file:
  assumes dev: "block_device dev dinv blk" and dir: "dir_ok dev dinv blk dir d ps"
    and found: "find_entry dev dir d name = Ok (off, e)" and not_dir: "\<not> is_dir e"
    and cs: "if de_cluster e < 2 then cs = [] else used_chain blk (fd_boot dir) d (de_cluster e) cs"
    and apart: "set cs \<inter> set ps = {}"
    and short: "pending_parts [] (take (off div 32) (dir_slots blk (fd_boot dir) d ps)) = []"
  shows "\<exists>d'. Fat32Dir_unlink dev dir name d = (Ok (), d') \<and> dir_ok dev dinv blk dir d' ps \<and>
    parse_entries_with_offsets dev dir d' =
      map_ok (filter (\<lambda>x. snd (snd x) \<noteq> off)) (parse_entries_with_offsets dev dir d) \<and>
    (\<forall>c \<in> vol_clusters (fd_boot dir) - set ps. cluster_data blk (fd_boot dir) d' c = cluster_data blk (fd_boot dir) d c) \<and>
    (\<forall>c \<in> vol_clusters (fd_boot dir).
       vol_next blk (fd_boot dir) d' c = (if c \<in> set cs then FAT_FREE else vol_next blk (fd_boot dir) d c))"
proof -
  obtain d' i nm where d': "Fat32Dir_unlink dev dir name d = (Ok (), d')" "dir_ok dev dinv blk dir d' ps"
    "off = i * 32" "i < length (dir_slots blk (fd_boot dir) d ps)"
    "slot_entry (pending_parts [] (take i (dir_slots blk (fd_boot dir) d ps))) i (dir_slots blk (fd_boot dir) d ps ! i) = Some (nm, e, off)"
    "dir_slots blk (fd_boot dir) d' ps = (dir_slots blk (fd_boot dir) d ps)[i := to_bytes (mark_deleted e)]"
    "\<And>x. x \<in> vol_clusters (fd_boot dir) - set ps \<Longrightarrow> cluster_data blk (fd_boot dir) d' x = cluster_data blk (fd_boot dir) d x"
    "\<And>x. x \<in> vol_clusters (fd_boot dir) \<Longrightarrow>
      vol_next blk (fd_boot dir) d' x = (if x \<in> set cs then FAT_FREE else vol_next blk (fd_boot dir) d x)"
    using block_device.unlink_ok [OF dev dir found not_dir cs apart] by metis
  have clean: "pending_parts [] (take i (dir_slots blk (fd_boot dir) d ps)) = []" using short d'(3) by simp
  have "slot_entries [] 0 (dir_slots blk (fd_boot dir) d' ps) = filter (\<lambda>x. snd (snd x) \<noteq> off) (slot_entries [] 0 (dir_slots blk (fd_boot dir) d ps))"
    using slot_entries_remove [OF d'(4) d'(5) [unfolded clean] clean] by (simp add: d'(3,6))
  then show ?thesis using d'(1,2,7,8) block_device.parse_entries_ok [OF dev dir] block_device.parse_entries_ok [OF dev d'(2)]
    by (intro exI [of _ d'] conjI ballI) simp_all
qed

theorem unlink_frees_file_witness:
  "\<exists>d'. Fat32Dir_unlink ramdisk_ops tiny_root ''a.txt'' tiny_disk = (Ok (), d') \<and>
     parse_entries_with_offsets ramdisk_ops tiny_root d' = Ok [] \<and> vol_next rd_blk boot_tiny d' 3 = FAT_FREE"
proof -
  let ?e = "new_file ''A.TXT'' 3 5"
  have "eq_ignore_ascii_case ''A.TXT'' ''a.txt''" by code_simp
  then have found: "find_entry ramdisk_ops tiny_root tiny_disk ''a.txt'' = Ok (0, ?e)"
    using ramdisk.find_entry_ok [OF tiny_root_ok, of "''a.txt''" "''A.TXT''" ?e 0] by (simp add: tiny_root_entries)
  have "\<not> is_dir ?e" "de_cluster ?e = 3" by (simp_all add: is_dir_def ARCHIVE_def DIRECTORY_def)
  moreover have "3 \<in> vol_clusters boot_tiny" by (simp add: tiny_clusters)
  ultimately show ?thesis
    using unlink_frees_file [OF ramdisk.block_device_axioms tiny_root_ok found, of "[3]"] tiny_chains
      ramdisk.parse_entries_ok [OF tiny_root_ok] by (simp add: tiny_root_entries) (metis (full_types))
qed

text \<open>
  C38. Removing a file with a long name renames the next file. \<open>unlink\<close> marks the short entry only, and the parser forgets the parts of a long name
  only at a short entry, not at a deleted one. Whenever the removed entry has a long name and a short entry without one follows it, the
  directory lists that entry, after the removal, under the long name of the removed file.
\<close>

theorem orphaned_long_name:
  assumes dev: "block_device dev dinv blk" and dir: "dir_ok dev dinv blk dir d ps"
    and found: "find_entry dev dir d name = Ok (off, e)" and not_dir: "\<not> is_dir e"
    and cs: "if de_cluster e < 2 then cs = [] else used_chain blk (fd_boot dir) d (de_cluster e) cs"
    and apart: "set cs \<inter> set ps = {}"
    and long: "pending_parts [] (take (off div 32) (dir_slots blk (fd_boot dir) d ps)) = parts" "parts \<noteq> []"
    and follows: "Suc (off div 32) < length (dir_slots blk (fd_boot dir) d ps)"
      "slot_entry [] (Suc (off div 32)) (dir_slots blk (fd_boot dir) d ps ! Suc (off div 32)) = Some (nm, f, off')"
  shows "\<exists>d' A B. Fat32Dir_unlink dev dir name d = (Ok (), d') \<and>
    parse_entries_with_offsets dev dir d = Ok (A @ [(extract_lfn_name parts, e, off), (short_name f, f, off + 32)] @ B) \<and>
    parse_entries_with_offsets dev dir d' = Ok (A @ [(extract_lfn_name parts, f, off + 32)] @ B)"
proof -
  define ss where "ss = dir_slots blk (fd_boot dir) d ps"
  obtain d' i nm' where d': "Fat32Dir_unlink dev dir name d = (Ok (), d')" "dir_ok dev dinv blk dir d' ps"
    "off = i * 32" "i < length ss" "slot_entry (pending_parts [] (take i ss)) i (ss ! i) = Some (nm', e, off)"
    "dir_slots blk (fd_boot dir) d' ps = ss[i := to_bytes (mark_deleted e)]"
    using block_device.unlink_ok [OF dev dir found not_dir cs apart] unfolding ss_def by metis
  have parts: "pending_parts [] (take i ss) = parts" "Suc i < length ss" "slot_entry [] (Suc i) (ss ! Suc i) = Some (nm, f, off')"
    using long follows d'(3) by (simp_all add: ss_def)
  note e = slot_entry_Some [OF d'(5) [unfolded parts(1)]] and f = slot_entry_Some [OF parts(3)]
  have ename: "nm' = extract_lfn_name parts" "nm' \<notin> {''.'', ''..''}"
    using d'(5) long(2) parts(1) by (auto simp: slot_entry_def entry_name_def split: if_splits option.splits)
  have fname: "slot_entry parts (Suc i) (ss ! Suc i) = Some (extract_lfn_name parts, f, off')" "next_parts parts (ss ! Suc i) = []"
    using parts(3) long(2) ename by (auto simp: slot_entry_def entry_name_def next_parts_def split: if_splits option.splits)
  let ?B = "slot_entries [] (Suc (Suc i)) (drop (Suc (Suc i)) ss)"
  have tail: "drop (Suc i) ss = ss ! Suc i # drop (Suc (Suc i)) ss" using parts(2) by (rule Cons_nth_drop_Suc [symmetric])
  have "slot_entries [] 0 ss = slot_entries [] 0 (take i ss) @ [(extract_lfn_name parts, e, off), (short_name f, f, off + 32)] @ ?B"
    using slot_entries_split [OF d'(4)] d'(3,5) parts e(5) f(3-5) ename(1) by (simp add: tail entry_name_def)
  moreover have "slot_entries [] 0 (ss[i := to_bytes (mark_deleted e)]) =
      slot_entries [] 0 (take i ss) @ [(extract_lfn_name parts, f, off + 32)] @ ?B"
    using slot_entries_update [OF d'(4)] slot_entry_deleted(1,3) [OF e(1)] d'(3) parts(1) fname f(3) by (simp add: tail)
  ultimately show ?thesis using d'(1,6) block_device.parse_entries_ok [OF dev dir, folded ss_def] block_device.parse_entries_ok [OF dev d'(2)] by auto
qed

text \<open>
  A volume whose root directory takes two clusters: a part of the long name \<open>long\<close>, the short entry it belongs to, and another short entry.
\<close>

definition long_fat :: bytes where
  "long_fat =
     [0xF8, 0xFF, 0xFF, 0x0F, 0xFF, 0xFF, 0xFF, 0x0F, 3, 0, 0, 0, 0xFF, 0xFF, 0xFF, 0x0F,
      0, 0, 0, 0, 0, 0, 0, 0, 0, 0, 0, 0, 0, 0, 0, 0]"

definition long_part :: bytes where
  "long_part =
     [0x41, 108, 0, 111, 0, 110, 0, 103, 0, 0, 0, 0x0F, 0, 0, 0xFF, 0xFF, 0xFF, 0xFF, 0xFF, 0xFF, 0xFF, 0xFF, 0xFF, 0xFF, 0xFF, 0xFF,
      0, 0, 0xFF, 0xFF, 0xFF, 0xFF]"

definition long_disk :: RamDisk where
  "long_disk = \<lparr>rd_name = ''ram0'', rd_block_size = 32,
     rd_data = replicate 32 0 @ long_fat @ long_fat @ long_part @ to_bytes (new_file ''A.TXT'' 0 0) @ to_bytes (new_file ''B.C'' 0 0) @
       replicate 160 0, rd_read_only = False\<rparr>"

lemma long_disk_wf: "rd_wf long_disk" "unat (RamDisk_block_count long_disk) = 11" "length long_part = 32"
  by (simp_all add: rd_wf_def long_disk_def long_fat_def long_part_def RamDisk_block_count_def)

lemma long_blocks:
  "rd_blk long_disk 1 = long_fat" "rd_blk long_disk 2 = long_fat" "rd_blk long_disk 3 = long_part"
  "rd_blk long_disk 4 = to_bytes (new_file ''A.TXT'' 0 0)" "rd_blk long_disk 5 = to_bytes (new_file ''B.C'' 0 0)" "rd_blk long_disk 6 = replicate 32 0"
  using long_disk_wf(3) by (simp_all add: rd_blk_def long_disk_def long_fat_def)

lemma long_raw:
  assumes "k < 2"
  shows "fat_raw rd_blk (fresh_fat boot_tiny long_disk) k 2 = 3" "fat_raw rd_blk (fresh_fat boot_tiny long_disk) k 3 = FAT_EOC"
    "fat_raw rd_blk (fresh_fat boot_tiny long_disk) k 4 = 0" "fat_raw rd_blk (fresh_fat boot_tiny long_disk) k 5 = 0"
proof -
  have "rd_blk long_disk (1 + k) = long_fat" using long_blocks(1,2) less_2_cases [OF assms] by (elim disjE) (simp_all add: numeral_2_eq_2)
  moreover have "fat_slot (fresh_fat boot_tiny long_disk) k c = 1 + k" if "unat c * 4 < 32" for c
    using that by (simp add: fat_slot_def boot_tiny_fields)
  ultimately have "fat_raw rd_blk (fresh_fat boot_tiny long_disk) k c = read_u32 long_fat (unat c * 4)" if "unat c * 4 < 32" for c
    using that by (simp add: fat_raw_def boot_tiny_fields)
  moreover have "read_u32 long_fat 8 = 3" "read_u32 long_fat 12 = FAT_EOC" "read_u32 long_fat 16 = 0" "read_u32 long_fat 20 = 0"
    by (simp_all add: long_fat_def read_u32_def u32_from_le_bytes_def FAT_EOC_def)
  ultimately show "fat_raw rd_blk (fresh_fat boot_tiny long_disk) k 2 = 3" "fat_raw rd_blk (fresh_fat boot_tiny long_disk) k 3 = FAT_EOC"
    "fat_raw rd_blk (fresh_fat boot_tiny long_disk) k 4 = 0" "fat_raw rd_blk (fresh_fat boot_tiny long_disk) k 5 = 0"
    by simp_all
qed

lemma long_next:
  "vol_next rd_blk boot_tiny long_disk 2 = 3" "vol_next rd_blk boot_tiny long_disk 3 = FAT_EOC"
  "vol_next rd_blk boot_tiny long_disk 4 = 0" "vol_next rd_blk boot_tiny long_disk 5 = 0"
  using long_raw [of 0] by (simp_all add: vol_next_def fat_next_def FAT_EOC_def)

lemma long_vol_ok: "vol_ok ramdisk_ops rd_wf rd_blk boot_tiny long_disk"
proof -
  have geom: "fat_geom ramdisk_ops rd_wf (fresh_fat boot_tiny long_disk)"
    using long_disk_wf by (simp add: fat_geom_def boot_tiny_fields ramdisk_ops_def) (simp add: long_disk_def)
  have "fat_mirror rd_blk (fresh_fat boot_tiny long_disk)"
    unfolding fat_mirror_def fresh_fat_clusters tiny_clusters fresh_fat_fields boot_tiny_fields
    using long_next by (auto simp: vol_next_def long_raw less_2_cases_iff FAT_EOC_def)
  then have "fat_wf ramdisk_ops rd_wf rd_blk (fresh_fat boot_tiny long_disk)"
    using geom by (simp add: fat_wf_def boot_tiny_fields)
  then show ?thesis using long_disk_wf by (simp add: vol_ok_def boot_tiny_fields ramdisk_ops_def)
qed

lemma long_chain: "used_chain rd_blk boot_tiny long_disk 2 [2, 3]"
  unfolding used_chain_def using long_next tiny_clusters by (auto intro!: exI [of _ FAT_EOC])

lemma long_slots:
  "dir_slots rd_blk boot_tiny long_disk [2, 3] =
     [long_part, to_bytes (new_file ''A.TXT'' 0 0), to_bytes (new_file ''B.C'' 0 0), replicate 32 0]"
proof -
  have "unat (cluster_to_sector boot_tiny 2) = 3" "unat (cluster_to_sector boot_tiny 3) = 5"
    by (simp_all add: cluster_to_sector_def data_start_sector_def boot_tiny_fields)
  moreover have "[0..<unat (sectors_per_cluster boot_tiny)] = [0, 1]" by (simp add: boot_tiny_fields upt_rec)
  ultimately have "chain_data rd_blk boot_tiny long_disk [2, 3] =
      long_part @ to_bytes (new_file ''A.TXT'' 0 0) @ to_bytes (new_file ''B.C'' 0 0) @ replicate 32 0"
    using long_blocks by (simp add: cluster_data_def)
  then show ?thesis using long_disk_wf(3) by (simp add: dir_slots_def chunks_map [of 32 _ 4] upt_rec)
qed

lemma long_part_name:
  obtains l where "LfnEntry_from_bytes long_part = Some l" "extract_lfn_name [l] = ''long''"
proof -
  have "map_option (\<lambda>l. (lfn_name1 l, lfn_name2 l, lfn_name3 l)) (LfnEntry_from_bytes long_part) =
      Some ([108, 111, 110, 103, 0], replicate 6 0xFFFF, replicate 2 0xFFFF)" by code_simp
  then obtain l where l: "LfnEntry_from_bytes long_part = Some l" "lfn_name1 l = [108, 111, 110, 103, 0]" "lfn_name2 l = replicate 6 0xFFFF"
    "lfn_name3 l = replicate 2 0xFFFF" by auto
  moreover have "char_of (108::nat) = CHR ''l''" "char_of (111::nat) = CHR ''o''" "char_of (110::nat) = CHR ''n''" "char_of (103::nat) = CHR ''g''"
    by code_simp+
  ultimately have "extract_lfn_name [l] = ''long''"
    by (simp add: extract_lfn_name_def get_name_part_def lfn_units_def from_utf16_lossy_ascii)
  then show ?thesis using that l(1) by blast
qed

theorem orphaned_long_name_witness:
  "\<exists>d'. Fat32Dir_unlink ramdisk_ops tiny_root ''long'' long_disk = (Ok (), d') \<and>
     parse_entries_with_offsets ramdisk_ops tiny_root d' = Ok [(''long'', new_file ''B.C'' 0 0, 64)]"
proof -
  let ?A = "new_file ''A.TXT'' 0 0" and ?B = "new_file ''B.C'' 0 0" and ?ss = "dir_slots rd_blk boot_tiny long_disk [2, 3]"
  obtain l where l: "LfnEntry_from_bytes long_part = Some l" "extract_lfn_name [l] = ''long''" by (rule long_part_name)
  have B: "name_83 ''B.C''" "upper_name ''B.C'' = ''B.C''"
    by (simp add: name_83_def split_ext_def rfind_def plain_char_def) code_simp
  have first: "to_bytes ?A ! 0 = 65" "to_bytes ?B ! 0 = 66" "long_part ! 0 = 0x41"
    by (simp add: to_bytes_marks, code_simp)+ (simp add: long_part_def)
  have dir: "dir_ok ramdisk_ops rd_wf rd_blk tiny_root long_disk [2, 3]"
    using long_vol_ok long_chain long_disk_wf(3) first by (simp add: dir_ok_def boot_tiny_fields long_slots slots_wf_def)
  have parts: "next_parts [] long_part = [l]"
    using l(1) first(3) by (simp add: next_parts_def free_slot_def) (simp add: long_part_def LONG_NAME_def READ_ONLY_def HIDDEN_def SYSTEM_def VOLUME_ID_def)
  have A: "slot_entry [l] 1 (to_bytes ?A) = Some (''long'', ?A, 32)"
    using slot_entry_new_file(1) [OF tiny_name, of 1 0 0] l(2) by (auto simp: slot_entry_def entry_name_def split: option.splits if_splits)
  have BB: "slot_entry [] 2 (to_bytes ?B) = Some (''B.C'', ?B, 64)" using slot_entry_new_file(1) [OF B(1), of 2 0 0] B(2) by simp
  have "\<not> free_slot (to_bytes ?A)" "to_bytes ?A ! 11 \<noteq> LONG_NAME" using A by (auto simp: slot_entry_def)
  then have "next_parts [l] (to_bytes ?A) = []" by (simp add: next_parts_def)
  moreover have "next_parts [] (to_bytes ?B) = []" using slot_entry_new_file(2) [OF B(1)] .
  moreover have "slot_entry [] 0 long_part = None" "slot_entry [] 3 (replicate 32 0) = None"
    by (simp_all add: slot_entry_def free_slot_def) (simp add: long_part_def LONG_NAME_def READ_ONLY_def HIDDEN_def SYSTEM_def VOLUME_ID_def)
  ultimately have entries: "slot_entries [] 0 ?ss = [(''long'', ?A, 32), (''B.C'', ?B, 64)]"
    using A BB parts by (simp add: long_slots numeral_2_eq_2 numeral_3_eq_3)
  have "eq_ignore_ascii_case ''long'' ''long''" by code_simp
  then have found: "find_entry ramdisk_ops tiny_root long_disk ''long'' = Ok (32, ?A)"
    using ramdisk.find_entry_ok [OF dir, of "''long''" "''long''" ?A 32] entries by simp
  have plain: "\<not> is_dir ?A" "de_cluster ?A = 0" by (simp_all add: is_dir_def ARCHIVE_def DIRECTORY_def)
  obtain d' X Y where d': "Fat32Dir_unlink ramdisk_ops tiny_root ''long'' long_disk = (Ok (), d')"
    "parse_entries_with_offsets ramdisk_ops tiny_root long_disk = Ok (X @ [(extract_lfn_name [l], ?A, 32), (short_name ?B, ?B, 32 + 32)] @ Y)"
    "parse_entries_with_offsets ramdisk_ops tiny_root d' = Ok (X @ [(extract_lfn_name [l], ?B, 32 + 32)] @ Y)"
    using orphaned_long_name [OF ramdisk.block_device_axioms dir found, where cs = "[]" and parts = "[l]" and nm = "''B.C''" and f = ?B and off' = 64]
      parts BB plain long_slots by (auto simp: numeral_2_eq_2)
  have "[(''long'', ?A, 32), (''B.C'', ?B, 64)] = X @ [(extract_lfn_name [l], ?A, 32), (short_name ?B, ?B, 32 + 32)] @ Y"
    using d'(2) ramdisk.parse_entries_ok [OF dir] entries by simp
  from arg_cong [OF this, of length] have "X = []" "Y = []" by simp_all
  then show ?thesis using d'(1,3) l(2) by simp
qed

end
