(* ===== verification/Sem_Pool.thy ===== *)
theory Sem_Pool
  imports Prelude
begin

text \<open>
  The counting semaphore, the binary semaphore and the resource pool of \<open>src/sync/semaphore.rs\<close>.
  The operations are first given as a thread sees them when no other thread interferes: a loop that
  spins on a counter nobody else changes does not return, which is \<open>None\<close>. The step relation at the
  end interleaves the atomic accesses of \<open>acquire\<close>, \<open>try_acquire\<close> and \<open>release\<close> of any number of threads.
  There the counter is the 64-bit \<open>isize\<close> of the code, which wraps around. In the sequential operations it is an integer: the counter
  of a pool is at most the number of its slots, which is the length of a vector and below \<open>2 ^ 63\<close>. The acquire of a pool is one
  call without interference: waiting for the semaphore and taking the slot are not interleaved with other threads.
\<close>

section \<open>Semaphores\<close>

record Semaphore =
  sem_count :: int

definition Semaphore_new :: "int \<Rightarrow> Semaphore" where
  "Semaphore_new initial = \<lparr>sem_count = initial\<rparr>"

definition Semaphore_binary :: Semaphore where
  "Semaphore_binary = Semaphore_new 1"

text \<open>The compare-and-exchange succeeds when nothing interferes.\<close>

partial_function (option) Semaphore_acquire :: "Semaphore \<Rightarrow> Semaphore option" where
  "Semaphore_acquire s =
     (let count = sem_count s
      in if count > 0 then Some (s\<lparr>sem_count := count - 1\<rparr>) else Semaphore_acquire s)"

definition Semaphore_try_acquire :: "Semaphore \<Rightarrow> bool \<times> Semaphore" where
  "Semaphore_try_acquire s =
     (let count = sem_count s
      in if count > 0 then (True, s\<lparr>sem_count := count - 1\<rparr>) else (False, s))"

definition Semaphore_release :: "Semaphore \<Rightarrow> Semaphore" where
  "Semaphore_release s = s\<lparr>sem_count := sem_count s + 1\<rparr>"

definition Semaphore_available :: "Semaphore \<Rightarrow> int" where
  "Semaphore_available s = sem_count s"

definition BinarySemaphore_new :: "bool \<Rightarrow> Semaphore" where
  "BinarySemaphore_new available = Semaphore_new (if available then 1 else 0)"

definition BinarySemaphore_acquire :: "Semaphore \<Rightarrow> Semaphore option" where
  "BinarySemaphore_acquire s = Semaphore_acquire s"

definition BinarySemaphore_release :: "Semaphore \<Rightarrow> Semaphore" where
  "BinarySemaphore_release s =
     (let count = sem_count s in if count \<ge> 1 then s else s\<lparr>sem_count := 1\<rparr>)"

definition BinarySemaphore_is_available :: "Semaphore \<Rightarrow> bool" where
  "BinarySemaphore_is_available s = (Semaphore_available s > 0)"


section \<open>The resource pool\<close>

text \<open>A guard is the index of the slot it holds.\<close>

record 'a ResourcePool =
  rp_semaphore :: Semaphore
  rp_resources :: "'a option list"
  rp_available :: "bool list"

definition ResourcePool_empty :: "nat \<Rightarrow> 'a ResourcePool" where
  "ResourcePool_empty n =
     \<lparr>rp_semaphore = Semaphore_new 0, rp_resources = replicate n None, rp_available = replicate n False\<rparr>"

definition ResourcePool_add :: "'a \<Rightarrow> 'a ResourcePool \<Rightarrow> (unit, 'a) outcome \<times> 'a ResourcePool" where
  "ResourcePool_add resource p =
     (case position Not (rp_available p) of
        Some i \<Rightarrow> (Ok (), p\<lparr>rp_resources := (rp_resources p)[i := Some resource],
                        rp_available := (rp_available p)[i := True],
                        rp_semaphore := Semaphore_release (rp_semaphore p)\<rparr>)
      | None \<Rightarrow> (Err resource, p))"

text \<open>The blocking acquire spins (does not return) when it finds no available slot.\<close>

definition ResourcePool_acquire :: "'a ResourcePool \<Rightarrow> (nat \<times> 'a ResourcePool) option" where
  "ResourcePool_acquire p =
     (case Semaphore_acquire (rp_semaphore p) of
        None \<Rightarrow> None
      | Some s \<Rightarrow>
          (case position id (rp_available p) of
             Some i \<Rightarrow> Some (i, p\<lparr>rp_semaphore := s, rp_available := (rp_available p)[i := False]\<rparr>)
           | None \<Rightarrow> None))"

definition ResourcePool_try_acquire :: "'a ResourcePool \<Rightarrow> nat option \<times> 'a ResourcePool" where
  "ResourcePool_try_acquire p =
     (case Semaphore_try_acquire (rp_semaphore p) of
        (False, s) \<Rightarrow> (None, p\<lparr>rp_semaphore := s\<rparr>)
      | (True, s) \<Rightarrow>
          (case position id (rp_available p) of
             Some i \<Rightarrow> (Some i, p\<lparr>rp_semaphore := s, rp_available := (rp_available p)[i := False]\<rparr>)
           | None \<Rightarrow> (None, p\<lparr>rp_semaphore := Semaphore_release s\<rparr>)))"

definition PoolGuard_deref :: "nat \<Rightarrow> 'a ResourcePool \<Rightarrow> ('a, 'e) outcome" where
  "PoolGuard_deref i p = (case rp_resources p ! i of Some x \<Rightarrow> Ok x | None \<Rightarrow> Panic)"

definition PoolGuard_drop :: "nat \<Rightarrow> 'a ResourcePool \<Rightarrow> 'a ResourcePool" where
  "PoolGuard_drop i p =
     p\<lparr>rp_available := (rp_available p)[i := True], rp_semaphore := Semaphore_release (rp_semaphore p)\<rparr>"


section \<open>Interleaved threads on a semaphore\<close>

text \<open>
  A thread is outside, in the loop of \<open>acquire\<close>, past the load of the counter there, or at one of the two accesses of \<open>try_acquire\<close>. The
  weak exchange of \<open>acquire\<close> may fail although the counter is unchanged. Any thread may release at any time, whether it has
  acquired a unit or not. The steps that complete a call are labelled.
\<close>

datatype sem_pc = Outside | Looping | Loaded "64 word" | Trying | Tried "64 word"

datatype sem_event = Internal | Acquired nat | Refused nat | Released nat

record sem_sys =
  ss_count :: "64 word"
  ss_pc :: "nat \<Rightarrow> sem_pc"

inductive sem_step :: "sem_sys \<Rightarrow> sem_event \<Rightarrow> sem_sys \<Rightarrow> bool" where
  enter: "ss_pc s t = Outside \<Longrightarrow> sem_step s Internal (s\<lparr>ss_pc := (ss_pc s)(t := Looping)\<rparr>)"
| load: "ss_pc s t = Looping \<Longrightarrow> sem_step s Internal (s\<lparr>ss_pc := (ss_pc s)(t := Loaded (ss_count s))\<rparr>)"
| spin: "ss_pc s t = Loaded c \<Longrightarrow> \<not> sint c > 0 \<Longrightarrow> sem_step s Internal (s\<lparr>ss_pc := (ss_pc s)(t := Looping)\<rparr>)"
| cas_ok: "ss_pc s t = Loaded c \<Longrightarrow> sint c > 0 \<Longrightarrow> ss_count s = c \<Longrightarrow>
    sem_step s (Acquired t) (s\<lparr>ss_count := c - 1, ss_pc := (ss_pc s)(t := Outside)\<rparr>)"
| cas_fail: "ss_pc s t = Loaded c \<Longrightarrow> sint c > 0 \<Longrightarrow> sem_step s Internal (s\<lparr>ss_pc := (ss_pc s)(t := Looping)\<rparr>)"
| enter_try: "ss_pc s t = Outside \<Longrightarrow> sem_step s Internal (s\<lparr>ss_pc := (ss_pc s)(t := Trying)\<rparr>)"
| load_try: "ss_pc s t = Trying \<Longrightarrow> sem_step s Internal (s\<lparr>ss_pc := (ss_pc s)(t := Tried (ss_count s))\<rparr>)"
| try_ok: "ss_pc s t = Tried c \<Longrightarrow> sint c > 0 \<Longrightarrow> ss_count s = c \<Longrightarrow>
    sem_step s (Acquired t) (s\<lparr>ss_count := c - 1, ss_pc := (ss_pc s)(t := Outside)\<rparr>)"
| try_fail: "ss_pc s t = Tried c \<Longrightarrow> \<not> sint c > 0 \<or> ss_count s \<noteq> c \<Longrightarrow>
    sem_step s (Refused t) (s\<lparr>ss_pc := (ss_pc s)(t := Outside)\<rparr>)"
| release: "ss_pc s t = Outside \<Longrightarrow> sem_step s (Released t) (s\<lparr>ss_count := ss_count s + 1\<rparr>)"

inductive_cases sem_stepE: "sem_step s e s'"

definition sem_start :: "64 word \<Rightarrow> sem_sys" where
  "sem_start initial = \<lparr>ss_count = initial, ss_pc = (\<lambda>_. Outside)\<rparr>"

inductive sem_steps :: "sem_sys \<Rightarrow> sem_event list \<Rightarrow> sem_sys \<Rightarrow> bool" where
  nil: "sem_steps s [] s"
| snoc: "sem_steps s es s' \<Longrightarrow> sem_step s' e s'' \<Longrightarrow> sem_steps s (es @ [e]) s''"

definition acquired :: "sem_event list \<Rightarrow> nat" where
  "acquired es = length (filter (\<lambda>e. case e of Acquired _ \<Rightarrow> True | _ \<Rightarrow> False) es)"

definition released :: "sem_event list \<Rightarrow> nat" where
  "released es = length (filter (\<lambda>e. case e of Released _ \<Rightarrow> True | _ \<Rightarrow> False) es)"


section \<open>Facts about semaphores\<close>

lemma Semaphore_acquire_iff:
  "Semaphore_acquire s = Some s' \<longleftrightarrow> sem_count s > 0 \<and> s' = s\<lparr>sem_count := sem_count s - 1\<rparr>"
proof
  assume "Semaphore_acquire s = Some s'"
  then show "sem_count s > 0 \<and> s' = s\<lparr>sem_count := sem_count s - 1\<rparr>"
    by (rule Semaphore_acquire.raw_induct
        [where P = "\<lambda>s s'. sem_count s > 0 \<and> s' = s\<lparr>sem_count := sem_count s - 1\<rparr>", rotated])
      (auto simp: Let_def split: if_splits)
next
  assume "sem_count s > 0 \<and> s' = s\<lparr>sem_count := sem_count s - 1\<rparr>"
  then show "Semaphore_acquire s = Some s'" by (subst Semaphore_acquire.simps) (simp add: Let_def)
qed

lemma Semaphore_acquire_eq:
  "Semaphore_acquire s = (if sem_count s > 0 then Some (s\<lparr>sem_count := sem_count s - 1\<rparr>) else None)"
  using Semaphore_acquire_iff [of s] by (cases "Semaphore_acquire s") force+

text \<open>The counter is what was put in minus what was taken out, as long as it fits.\<close>

lemma event_counts [simp]:
  "acquired [] = 0" "released [] = 0"
  "acquired (es @ [e]) = acquired es + (case e of Acquired _ \<Rightarrow> 1 | _ \<Rightarrow> 0)"
  "released (es @ [e]) = released es + (case e of Released _ \<Rightarrow> 1 | _ \<Rightarrow> 0)"
  by (cases e; simp add: acquired_def released_def)+

lemma sint_pred: "sint (c - 1) = sint c - 1" if "0 < sint c" for c :: "64 word"
proof -
  have "sint c < 2 ^ 63" using sint_lt [of c] by simp
  then have "signed_take_bit 63 (sint c - 1) = sint c - 1" using that by (intro signed_take_bit_int_eq_self) auto
  then show ?thesis by (simp add: sint_word_ariths(2))
qed

lemma sint_succ: "sint (c + 1) = sint c + 1" if "sint c + 1 < 2 ^ 63" for c :: "64 word"
proof -
  have "- (2 ^ 63) \<le> sint c" using sint_ge [of c] by simp
  then have "signed_take_bit 63 (sint c + 1) = sint c + 1" using that by (intro signed_take_bit_int_eq_self) auto
  then show ?thesis by (simp add: sint_word_ariths(1))
qed

lemma sem_steps_count:
  assumes "sem_steps s0 es s" "s0 = sem_start initial" "sint initial + int (released es) < 2 ^ 63"
  shows "sint (ss_count s) = sint initial + int (released es) - int (acquired es) \<and>
    int (acquired es) \<le> max 0 (sint initial + int (released es))"
  using assms
proof (induction rule: sem_steps.induct)
  case (nil s)
  then show ?case by (simp add: sem_start_def)
next
  case (snoc s0 es s e s')
  have "int (released es) \<le> int (released (es @ [e]))" by simp
  then have IH: "sint (ss_count s) = sint initial + int (released es) - int (acquired es)"
    "int (acquired es) \<le> max 0 (sint initial + int (released es))" using snoc by linarith+
  from snoc.hyps(2) show ?case
  proof (cases rule: sem_step.cases)
    case (release t)
    then have "sint (ss_count s) + 1 < 2 ^ 63" using IH(1) snoc.prems(2) by simp
    then show ?thesis using IH release sint_succ by simp
  qed (use IH sint_pred in auto)
qed

text \<open>A thread in the loop gets its unit when nothing interferes and one is left.\<close>

lemma sem_can_acquire:
  assumes "ss_pc s t = Looping" "0 < sint (ss_count s)"
  shows "\<exists>s'. sem_steps s [Internal, Acquired t] s'"
proof -
  let ?s = "s\<lparr>ss_pc := (ss_pc s)(t := Loaded (ss_count s))\<rparr>"
  have "sem_steps s ([] @ [Internal]) ?s" using sem_steps.snoc [OF sem_steps.nil sem_step.load [OF assms(1)]] .
  moreover have "sem_step ?s (Acquired t) (?s\<lparr>ss_count := ss_count s - 1, ss_pc := (ss_pc ?s)(t := Outside)\<rparr>)"
    using assms(2) by (intro sem_step.cas_ok) simp_all
  ultimately show ?thesis using sem_steps.snoc by fastforce
qed


section \<open>The pool in use\<close>

text \<open>
  A pool that is filled first and then shared: guards are taken and dropped, and resources are added
  only while no guard is out. The second component is the set of guards that are out.
\<close>

inductive pool_run :: "nat \<Rightarrow> 'a ResourcePool \<Rightarrow> nat set \<Rightarrow> bool" for n where
  empty: "pool_run n (ResourcePool_empty n) {}"
| add: "pool_run n p {} \<Longrightarrow> ResourcePool_add r p = (res, p') \<Longrightarrow> pool_run n p' {}"
| acquire: "pool_run n p gs \<Longrightarrow> ResourcePool_acquire p = Some (i, p') \<Longrightarrow> pool_run n p' (insert i gs)"
| try_acquire: "pool_run n p gs \<Longrightarrow> ResourcePool_try_acquire p = (Some i, p') \<Longrightarrow> pool_run n p' (insert i gs)"
| try_fail: "pool_run n p gs \<Longrightarrow> ResourcePool_try_acquire p = (None, p') \<Longrightarrow> pool_run n p' gs"
| drop: "pool_run n p gs \<Longrightarrow> i \<in> gs \<Longrightarrow> pool_run n (PoolGuard_drop i p) (gs - {i})"

text \<open>
  The counter is the number of available slots; a slot that is available or held has its resource;
  no slot is both.
\<close>

definition free_slots :: "bool list \<Rightarrow> nat set" where
  "free_slots av = {i. i < length av \<and> av ! i}"

definition pool_inv :: "nat \<Rightarrow> 'a ResourcePool \<Rightarrow> nat set \<Rightarrow> bool" where
  "pool_inv n p gs \<longleftrightarrow>
     length (rp_resources p) = n \<and> length (rp_available p) = n \<and> gs \<subseteq> {..<n} \<and>
     sem_count (rp_semaphore p) = int (card (free_slots (rp_available p))) \<and>
     (\<forall>i \<in> gs. \<not> rp_available p ! i) \<and>
     (\<forall>i < n. rp_available p ! i \<or> i \<in> gs \<longrightarrow> rp_resources p ! i \<noteq> None)"

lemma free_slots_upd [simp]:
  "i < length av \<Longrightarrow> free_slots (av[i := True]) = insert i (free_slots av)"
  "i < length av \<Longrightarrow> free_slots (av[i := False]) = free_slots av - {i}"
  by (auto simp: free_slots_def nth_list_update split: if_splits)

lemma free_slots_iff [simp]: "i \<in> free_slots av \<longleftrightarrow> i < length av \<and> av ! i"
  by (simp add: free_slots_def)

lemma finite_free_slots [simp]: "finite (free_slots av)"
  by (simp add: free_slots_def)

lemma pool_inv_take:
  assumes inv: "pool_inv n p gs" and i: "position id (rp_available p) = Some i"
    and s: "sem_count s = sem_count (rp_semaphore p) - 1"
  shows "pool_inv n (p\<lparr>rp_semaphore := s, rp_available := (rp_available p)[i := False]\<rparr>) (insert i gs)"
    and "i \<notin> gs"
proof -
  have av: "i < n" "rp_available p ! i" using position_SomeD [OF i] inv by (auto simp: pool_inv_def)
  have slot: "i \<in> free_slots (rp_available p)" using av inv by (simp add: pool_inv_def)
  have "int (card (free_slots (rp_available p) - {i})) = int (card (free_slots (rp_available p))) - 1"
    using card_Suc_Diff1 [OF finite_free_slots slot] by linarith
  then show "pool_inv n (p\<lparr>rp_semaphore := s, rp_available := (rp_available p)[i := False]\<rparr>) (insert i gs)"
    using inv av s by (auto simp: pool_inv_def nth_list_update simp del: card_Diff_insert)
  show "i \<notin> gs" using inv av by (auto simp: pool_inv_def)
qed

lemma pool_inv_drop:
  assumes inv: "pool_inv n p gs" and i: "i \<in> gs"
  shows "pool_inv n (PoolGuard_drop i p) (gs - {i})"
proof -
  have "i < n" "\<not> rp_available p ! i" using inv i by (auto simp: pool_inv_def)
  then show ?thesis
    using inv i by (auto simp: pool_inv_def PoolGuard_drop_def Semaphore_release_def nth_list_update)
qed

lemma pool_inv_add:
  assumes inv: "pool_inv n p {}" and add: "ResourcePool_add r p = (res, p')"
  shows "pool_inv n p' {}"
proof (cases "position Not (rp_available p)")
  case None
  then show ?thesis using inv add by (simp add: ResourcePool_add_def)
next
  case (Some i)
  then have "i < n" "\<not> rp_available p ! i" using position_SomeD [OF Some] inv by (auto simp: pool_inv_def)
  then show ?thesis
    using inv add Some
    by (auto simp: pool_inv_def ResourcePool_add_def Semaphore_release_def nth_list_update)
qed

lemma pool_inv_empty: "pool_inv n (ResourcePool_empty n) {}"
  by (simp add: pool_inv_def ResourcePool_empty_def Semaphore_new_def free_slots_def)

lemma pool_run_inv: "pool_run n p gs \<Longrightarrow> pool_inv n p gs"
proof (induction rule: pool_run.induct)
  case (acquire p gs i p')
  then show ?case
    using pool_inv_take(1) [OF acquire.IH]
    by (auto simp: ResourcePool_acquire_def Semaphore_acquire_eq split: option.splits if_splits)
next
  case (try_acquire p gs i p')
  then show ?case
    using pool_inv_take(1) [OF try_acquire.IH]
    by (auto simp: ResourcePool_try_acquire_def Semaphore_try_acquire_def Let_def
        split: option.splits if_splits)
next
  case (try_fail p gs p')
  have "p' = p"
    using try_fail.hyps(2)
    by (auto simp: ResourcePool_try_acquire_def Semaphore_try_acquire_def Semaphore_release_def Let_def
        split: option.splits if_splits)
  then show ?case using try_fail.IH by simp
qed (auto intro: pool_inv_empty pool_inv_add pool_inv_drop)


section \<open>Properties\<close>

text \<open>
  C33. However the atomic accesses of \<open>acquire\<close>, \<open>try_acquire\<close> and \<open>release\<close> of any number of threads are interleaved, and whichever threads
  release, a semaphore created with \<open>initial\<close> units never grants more units than it was created with and was given back, and its
  counter is exactly the number of units left: when every thread releases only what it has acquired, at most \<open>initial\<close> units are out.
  While a unit is left, a thread in the loop can complete its acquire in two steps. This holds as long as the counter does not
  overflow its 64 bits.
\<close>

theorem semaphore_bounds_holders:
  assumes "sem_steps (sem_start initial) es s" and "sint initial + int (released es) < 2 ^ 63"
  shows "int (acquired es) \<le> max 0 (sint initial + int (released es)) \<and>
    sint (ss_count s) = sint initial + int (released es) - int (acquired es) \<and>
    (\<forall>t. ss_pc s t = Looping \<and> int (acquired es) < sint initial + int (released es) \<longrightarrow> (\<exists>s'. sem_steps s [Internal, Acquired t] s'))"
  using sem_steps_count [OF assms(1) refl assms(2)] sem_can_acquire [of s] by auto

theorem semaphore_bounds_holders_witness:
  "\<exists>s es. sem_steps (sem_start 1) es s \<and> acquired es = 1 \<and> released es = 1 \<and> sint (ss_count s) = 1"
proof -
  let ?s = "\<lambda>c p. \<lparr>ss_count = c, ss_pc = (\<lambda>_. Outside)(7 := p)\<rparr>"
  have "sem_step (sem_start 1) Internal (?s 1 Looping)"
    using sem_step.enter [of "sem_start 1" 7] by (simp add: sem_start_def)
  moreover have "sem_step (?s 1 Looping) Internal (?s 1 (Loaded 1))"
    using sem_step.load [of "?s 1 Looping" 7] by simp
  moreover have "sem_step (?s 1 (Loaded 1)) (Acquired 7) (?s 0 Outside)"
    using sem_step.cas_ok [of "?s 1 (Loaded 1)" 7 1] by simp
  moreover have "sem_step (?s 0 Outside) (Released 8) (?s 1 Outside)"
    using sem_step.release [of "?s 0 Outside" 8] by simp
  ultimately have run: "sem_steps (sem_start 1) (((([] @ [Internal]) @ [Internal]) @ [Acquired 7]) @ [Released 8]) (?s 1 Outside)"
    by (meson sem_steps.nil sem_steps.snoc)
  have counts: "acquired (((([] @ [Internal]) @ [Internal]) @ [Acquired 7]) @ [Released 8]) = 1"
    "released (((([] @ [Internal]) @ [Internal]) @ [Acquired 7]) @ [Released 8]) = 1" by (simp_all only: event_counts) simp_all
  then have "sint (ss_count (?s 1 Outside)) = 1" using semaphore_bounds_holders [OF run] by simp
  then show ?thesis using run counts by blast
qed

text \<open>
  C37. A pool to which resources are added only while no guard is out hands out every slot at most
  once: a guard that is returned refers to a slot no other guard holds, every guard that is out finds
  its resource, and the blocking acquire returns exactly when a slot is available.
\<close>

theorem pool_guards_exclusive:
  assumes "pool_run n p gs"
  shows "(\<forall>i p'. ResourcePool_acquire p = Some (i, p') \<longrightarrow> i < n \<and> i \<notin> gs) \<and>
    (\<forall>i \<in> gs. \<exists>x. PoolGuard_deref i p = (Ok x :: ('a, unit) outcome)) \<and>
    (ResourcePool_acquire p = None \<longleftrightarrow> (\<forall>i < n. \<not> rp_available p ! i))"
proof -
  have inv: "pool_inv n p gs" by (rule pool_run_inv [OF assms])
  have len: "length (rp_available p) = n" using inv by (simp add: pool_inv_def)
  have "i < n \<and> i \<notin> gs" if "ResourcePool_acquire p = Some (i, p')" for i p'
    using that inv position_SomeD [of id "rp_available p" i]
    by (auto simp: ResourcePool_acquire_def pool_inv_def split: option.splits)
  moreover have "\<exists>x. PoolGuard_deref i p = (Ok x :: ('a, unit) outcome)" if "i \<in> gs" for i
    using that inv by (fastforce simp: PoolGuard_deref_def pool_inv_def)
  moreover have "ResourcePool_acquire p = None \<longleftrightarrow> (\<forall>i < n. \<not> rp_available p ! i)"
  proof (cases "position id (rp_available p)")
    case None
    then have "\<forall>i < n. \<not> rp_available p ! i" using len by (auto simp: position_None_iff in_set_conv_nth)
    then show ?thesis using None by (simp add: ResourcePool_acquire_def split: option.splits)
  next
    case (Some i)
    then have av: "i < n" "rp_available p ! i" using position_SomeD [OF Some] len by auto
    then have "i \<in> free_slots (rp_available p)" using len by simp
    then have "0 < card (free_slots (rp_available p))" using card_gt_0_iff finite_free_slots by blast
    then have "0 < sem_count (rp_semaphore p)" using inv by (simp add: pool_inv_def)
    then show ?thesis using Some av by (auto simp: ResourcePool_acquire_def Semaphore_acquire_eq)
  qed
  ultimately show ?thesis by blast
qed

theorem pool_guards_exclusive_witness:
  "\<exists>p p'. pool_run 1 p {} \<and> ResourcePool_acquire p = Some (0, p') \<and>
     PoolGuard_deref 0 p' = (Ok 5 :: (nat, unit) outcome) \<and> ResourcePool_acquire p' = None"
proof -
  let ?e = "ResourcePool_empty 1 :: nat ResourcePool"
  let ?p = "\<lparr>rp_semaphore = \<lparr>sem_count = 1\<rparr>, rp_resources = [Some (5::nat)], rp_available = [True]\<rparr>"
  let ?p' = "\<lparr>rp_semaphore = \<lparr>sem_count = 0\<rparr>, rp_resources = [Some (5::nat)], rp_available = [False]\<rparr>"
  have "ResourcePool_add 5 ?e = (Ok (), ?p)"
    by (simp add: ResourcePool_add_def ResourcePool_empty_def Semaphore_new_def Semaphore_release_def)
  then have run: "pool_run 1 ?p {}" by (rule pool_run.add [OF pool_run.empty])
  have acq: "ResourcePool_acquire ?p = Some (0, ?p')"
    by (simp add: ResourcePool_acquire_def Semaphore_acquire_eq)
  have "pool_run 1 ?p' {0}" using pool_run.acquire [OF run acq] by simp
  from pool_guards_exclusive [OF this] have "ResourcePool_acquire ?p' = None" by auto
  moreover have "PoolGuard_deref 0 ?p' = (Ok 5 :: (nat, unit) outcome)" by (simp add: PoolGuard_deref_def)
  ultimately show ?thesis using run acq by blast
qed

text \<open>
  C36. Without that discipline the pool breaks: \<open>add\<close> takes a slot whose resource is checked out for
  an empty one. In a pool of size one, adding a resource while the only guard is out succeeds,
  replaces the resource under the guard, and a second guard to the same slot is handed out.
\<close>

theorem pool_add_reuses_held_slot:
  "\<exists>p0 p1 p2 p3. snd (ResourcePool_add a (ResourcePool_empty 1)) = p0 \<and>
     ResourcePool_acquire p0 = Some (0, p1) \<and>
     ResourcePool_add b p1 = (Ok (), p2) \<and> PoolGuard_deref 0 p2 = (Ok b :: ('a, unit) outcome) \<and>
     ResourcePool_acquire p2 = Some (0, p3)"
  by (simp add: ResourcePool_add_def ResourcePool_empty_def ResourcePool_acquire_def Semaphore_acquire_eq
      Semaphore_new_def Semaphore_release_def PoolGuard_deref_def)

end
