(* ===== verification/Msg_Queue.thy ===== *)
theory Msg_Queue
  imports Sem_Pool
begin

text \<open>
  The message queues of \<open>src/ipc/message_queue.rs\<close>: the unbounded queue with priorities, the bounded
  queue, the channel built on it, and the registry of named queues. Each operation is the run of the
  method without interference of other threads; a blocking operation that would wait for ever is
  \<open>None\<close>. A \<open>VecDeque\<close> is the list of its elements, front first.
\<close>

section \<open>Messages\<close>

datatype Priority = Low | Normal | High | Urgent

text \<open>The derived order of the enum is the order of its discriminants.\<close>

primrec prio_num :: "Priority \<Rightarrow> nat" where
  "prio_num Low = 0"
| "prio_num Normal = 1"
| "prio_num High = 2"
| "prio_num Urgent = 3"

instantiation Priority :: linorder
begin

definition less_eq_Priority :: "Priority \<Rightarrow> Priority \<Rightarrow> bool" where
  "less_eq_Priority p q \<longleftrightarrow> prio_num p \<le> prio_num q"

definition less_Priority :: "Priority \<Rightarrow> Priority \<Rightarrow> bool" where
  "less_Priority p q \<longleftrightarrow> prio_num p < prio_num q"

instance
proof
  fix p q :: Priority
  show "p \<le> q \<Longrightarrow> q \<le> p \<Longrightarrow> p = q"
    by (cases p; cases q) (auto simp: less_eq_Priority_def)
qed (auto simp: less_eq_Priority_def less_Priority_def)

end

record 'a Message =
  msg_data :: 'a
  msg_priority :: Priority
  msg_sender_id :: "u64 option"
  msg_timestamp :: u64

definition Message_new :: "'a \<Rightarrow> 'a Message" where
  "Message_new x = \<lparr>msg_data = x, msg_priority = Normal, msg_sender_id = None, msg_timestamp = 0\<rparr>"

definition Message_with_priority :: "'a \<Rightarrow> Priority \<Rightarrow> 'a Message" where
  "Message_with_priority x p = \<lparr>msg_data = x, msg_priority = p, msg_sender_id = None, msg_timestamp = 0\<rparr>"

datatype MessageQueueError = MQ_Full | MQ_Empty | MQ_Closed | MQ_Timeout


section \<open>The unbounded queue\<close>

record 'a MessageQueue =
  mq_queue :: "'a Message list"
  mq_count :: nat
  mq_closed :: bool
  mq_sem_items :: Semaphore

definition MessageQueue_new :: "'a MessageQueue" where
  "MessageQueue_new = \<lparr>mq_queue = [], mq_count = 0, mq_closed = False, mq_sem_items = Semaphore_new 0\<rparr>"

definition mq_len :: "'a MessageQueue \<Rightarrow> nat" where
  "mq_len mq = mq_count mq"

definition mq_is_empty :: "'a MessageQueue \<Rightarrow> bool" where
  "mq_is_empty mq = (mq_len mq = 0)"

definition mq_is_closed :: "'a MessageQueue \<Rightarrow> bool" where
  "mq_is_closed mq = mq_closed mq"

definition mq_send_message :: "'a Message \<Rightarrow> ('a MessageQueue, unit, MessageQueueError) act" where
  "mq_send_message msg mq =
     (if mq_closed mq then (Err MQ_Closed, mq)
      else (Ok (), mq\<lparr>mq_queue := mq_queue mq @ [msg], mq_count := mq_count mq + 1,
                     mq_sem_items := Semaphore_release (mq_sem_items mq)\<rparr>))"

definition MessageQueue_send :: "'a \<Rightarrow> ('a MessageQueue, unit, MessageQueueError) act" where
  "MessageQueue_send x = mq_send_message (Message_new x)"

definition MessageQueue_send_priority :: "'a \<Rightarrow> Priority \<Rightarrow> ('a MessageQueue, unit, MessageQueueError) act" where
  "MessageQueue_send_priority x p = mq_send_message (Message_with_priority x p)"

text \<open>The loop of \<open>find_highest_priority\<close> at position \<open>i\<close>.\<close>

fun highest_loop :: "nat \<Rightarrow> 'a Message list \<Rightarrow> nat \<Rightarrow> Priority \<Rightarrow> nat" where
  "highest_loop i [] best_idx best_priority = best_idx"
| "highest_loop i (msg # msgs) best_idx best_priority =
     (if msg_priority msg > best_priority then highest_loop (i + 1) msgs i (msg_priority msg)
      else highest_loop (i + 1) msgs best_idx best_priority)"

definition find_highest_priority :: "'a Message list \<Rightarrow> nat option" where
  "find_highest_priority queue =
     (if queue = [] then None else Some (highest_loop 0 queue 0 (msg_priority (queue ! 0))))"

text \<open>The part of the two receive methods under the lock of the queue.\<close>

definition mq_take_highest :: "('a MessageQueue, 'a Message, MessageQueueError) act" where
  "mq_take_highest mq =
     (case find_highest_priority (mq_queue mq) of
        Some idx \<Rightarrow>
          if idx < length (mq_queue mq) then
            (Ok (mq_queue mq ! idx),
             mq\<lparr>mq_queue := vec_remove idx (mq_queue mq), mq_count := mq_count mq - 1\<rparr>)
          else (Err MQ_Empty, mq)
      | None \<Rightarrow> (Err MQ_Empty, mq))"

definition MessageQueue_receive ::
    "'a MessageQueue \<Rightarrow> (('a Message, MessageQueueError) outcome \<times> 'a MessageQueue) option" where
  "MessageQueue_receive mq =
     (if mq_closed mq \<and> mq_is_empty mq then Some (Err MQ_Closed, mq)
      else case Semaphore_acquire (mq_sem_items mq) of
             None \<Rightarrow> None
           | Some s \<Rightarrow>
               (let mq1 = mq\<lparr>mq_sem_items := s\<rparr>
                in if mq_closed mq1 \<and> mq_is_empty mq1 then Some (Err MQ_Closed, mq1)
                   else Some (mq_take_highest mq1)))"

definition MessageQueue_try_receive :: "('a MessageQueue, 'a Message, MessageQueueError) act" where
  "MessageQueue_try_receive mq =
     (if mq_closed mq \<and> mq_is_empty mq then (Err MQ_Closed, mq)
      else case Semaphore_try_acquire (mq_sem_items mq) of
             (False, s) \<Rightarrow> (Err MQ_Empty, mq\<lparr>mq_sem_items := s\<rparr>)
           | (True, s) \<Rightarrow> mq_take_highest (mq\<lparr>mq_sem_items := s\<rparr>))"

definition MessageQueue_close :: "'a MessageQueue \<Rightarrow> 'a MessageQueue" where
  "MessageQueue_close mq =
     mq\<lparr>mq_closed := True, mq_sem_items := (Semaphore_release ^^ 10) (mq_sem_items mq)\<rparr>"

definition MessageQueue_clear :: "'a MessageQueue \<Rightarrow> 'a MessageQueue" where
  "MessageQueue_clear mq =
     (let count = length (mq_queue mq)
      in mq\<lparr>mq_queue := [], mq_count := 0,
            mq_sem_items := ((\<lambda>s. snd (Semaphore_try_acquire s)) ^^ count) (mq_sem_items mq)\<rparr>)"


section \<open>The bounded queue and the channel\<close>

record 'a BoundedMessageQueue =
  bq_queue :: "'a Message list"
  bq_capacity :: nat
  bq_count :: nat
  bq_closed :: bool
  bq_sem_slots :: Semaphore
  bq_sem_items :: Semaphore

text \<open>
  \<open>VecDeque::with_capacity\<close> panics for a capacity whose size in bytes exceeds \<open>isize::MAX\<close>; for the others the cast of the capacity to \<open>isize\<close> is
  exact. The panic is not modelled.
\<close>

definition BoundedMessageQueue_new :: "nat \<Rightarrow> 'a BoundedMessageQueue" where
  "BoundedMessageQueue_new capacity =
     \<lparr>bq_queue = [], bq_capacity = capacity, bq_count = 0, bq_closed = False,
      bq_sem_slots = Semaphore_new (int capacity), bq_sem_items = Semaphore_new 0\<rparr>"

definition bq_len :: "'a BoundedMessageQueue \<Rightarrow> nat" where
  "bq_len bq = bq_count bq"

definition bq_is_empty :: "'a BoundedMessageQueue \<Rightarrow> bool" where
  "bq_is_empty bq = (bq_len bq = 0)"

definition bq_is_full :: "'a BoundedMessageQueue \<Rightarrow> bool" where
  "bq_is_full bq = (bq_len bq \<ge> bq_capacity bq)"

definition bq_push :: "'a Message \<Rightarrow> 'a BoundedMessageQueue \<Rightarrow> 'a BoundedMessageQueue" where
  "bq_push msg bq = bq\<lparr>bq_queue := bq_queue bq @ [msg], bq_count := bq_count bq + 1,
     bq_sem_items := Semaphore_release (bq_sem_items bq)\<rparr>"

definition bq_send_message ::
    "'a Message \<Rightarrow> 'a BoundedMessageQueue \<Rightarrow>
     ((unit, MessageQueueError) outcome \<times> 'a BoundedMessageQueue) option" where
  "bq_send_message msg bq =
     (if bq_closed bq then Some (Err MQ_Closed, bq)
      else case Semaphore_acquire (bq_sem_slots bq) of
             None \<Rightarrow> None
           | Some s \<Rightarrow>
               (let bq1 = bq\<lparr>bq_sem_slots := s\<rparr>
                in if bq_closed bq1
                   then Some (Err MQ_Closed, bq1\<lparr>bq_sem_slots := Semaphore_release (bq_sem_slots bq1)\<rparr>)
                   else Some (Ok (), bq_push msg bq1)))"

definition Bounded_send ::
    "'a \<Rightarrow> 'a BoundedMessageQueue \<Rightarrow> ((unit, MessageQueueError) outcome \<times> 'a BoundedMessageQueue) option" where
  "Bounded_send x = bq_send_message (Message_new x)"

definition bq_try_send_message :: "'a Message \<Rightarrow> ('a BoundedMessageQueue, unit, MessageQueueError) act" where
  "bq_try_send_message msg bq =
     (if bq_closed bq then (Err MQ_Closed, bq)
      else case Semaphore_try_acquire (bq_sem_slots bq) of
             (False, s) \<Rightarrow> (Err MQ_Full, bq\<lparr>bq_sem_slots := s\<rparr>)
           | (True, s) \<Rightarrow> (Ok (), bq_push msg (bq\<lparr>bq_sem_slots := s\<rparr>)))"

definition Bounded_try_send :: "'a \<Rightarrow> ('a BoundedMessageQueue, unit, MessageQueueError) act" where
  "Bounded_try_send x = bq_try_send_message (Message_new x)"

definition bq_pop :: "('a BoundedMessageQueue, 'a Message, MessageQueueError) act" where
  "bq_pop bq =
     (case bq_queue bq of
        msg # rest \<Rightarrow>
          (Ok msg, bq\<lparr>bq_queue := rest, bq_count := bq_count bq - 1,
                     bq_sem_slots := Semaphore_release (bq_sem_slots bq)\<rparr>)
      | [] \<Rightarrow> (Err MQ_Empty, bq))"

definition Bounded_receive ::
    "'a BoundedMessageQueue \<Rightarrow> (('a Message, MessageQueueError) outcome \<times> 'a BoundedMessageQueue) option" where
  "Bounded_receive bq =
     (if bq_closed bq \<and> bq_is_empty bq then Some (Err MQ_Closed, bq)
      else case Semaphore_acquire (bq_sem_items bq) of
             None \<Rightarrow> None
           | Some s \<Rightarrow>
               (let bq1 = bq\<lparr>bq_sem_items := s\<rparr>
                in if bq_closed bq1 \<and> bq_is_empty bq1 then Some (Err MQ_Closed, bq1)
                   else Some (bq_pop bq1)))"

definition Bounded_try_receive :: "('a BoundedMessageQueue, 'a Message, MessageQueueError) act" where
  "Bounded_try_receive bq =
     (if bq_closed bq \<and> bq_is_empty bq then (Err MQ_Closed, bq)
      else case Semaphore_try_acquire (bq_sem_items bq) of
             (False, s) \<Rightarrow> (Err MQ_Empty, bq\<lparr>bq_sem_items := s\<rparr>)
           | (True, s) \<Rightarrow> bq_pop (bq\<lparr>bq_sem_items := s\<rparr>))"

definition Bounded_close :: "'a BoundedMessageQueue \<Rightarrow> 'a BoundedMessageQueue" where
  "Bounded_close bq =
     (let n = bq_capacity bq
      in bq\<lparr>bq_closed := True, bq_sem_slots := (Semaphore_release ^^ n) (bq_sem_slots bq),
            bq_sem_items := (Semaphore_release ^^ n) (bq_sem_items bq)\<rparr>)"

text \<open>
  A channel is one bounded queue behind a sender and a receiver; both act on the queue they share.
\<close>

definition Channel_bounded :: "nat \<Rightarrow> 'a BoundedMessageQueue" where
  "Channel_bounded capacity = BoundedMessageQueue_new capacity"

definition Channel_unbuffered :: "'a BoundedMessageQueue" where
  "Channel_unbuffered = Channel_bounded 1"

definition Sender_send ::
    "'a \<Rightarrow> 'a BoundedMessageQueue \<Rightarrow> ((unit, MessageQueueError) outcome \<times> 'a BoundedMessageQueue) option" where
  "Sender_send x queue = Bounded_send x queue"

definition Sender_try_send :: "'a \<Rightarrow> ('a BoundedMessageQueue, unit, MessageQueueError) act" where
  "Sender_try_send x = Bounded_try_send x"

definition Receiver_recv ::
    "'a BoundedMessageQueue \<Rightarrow> (('a Message, MessageQueueError) outcome \<times> 'a BoundedMessageQueue) option" where
  "Receiver_recv queue = Bounded_receive queue"

definition Receiver_try_recv :: "('a BoundedMessageQueue, 'a Message, MessageQueueError) act" where
  "Receiver_try_recv = Bounded_try_receive"


section \<open>Named queues\<close>

text \<open>
  The registry maps names to leaked queues; a reference to a queue is its index in the list of all
  queues ever created.
\<close>

record MqRegistry =
  mr_queues :: "(string \<times> nat) list option"
  mr_heap :: "bytes MessageQueue list"

definition mq_lookup :: "string \<Rightarrow> MqRegistry \<Rightarrow> nat option" where
  "mq_lookup name reg =
     (case mr_queues reg of
        Some list \<Rightarrow> map_option snd (find (\<lambda>(n, _). n = name) list)
      | None \<Rightarrow> None)"

definition mq_open :: "string \<Rightarrow> bool \<Rightarrow> (MqRegistry, nat, MessageQueueError) act" where
  "mq_open name create reg =
     (case mq_lookup name reg of
        Some mq \<Rightarrow> (Ok mq, reg)
      | None \<Rightarrow>
          if \<not> create then (Err MQ_Empty, reg)
          else
            let list = (case mr_queues reg of None \<Rightarrow> [] | Some list \<Rightarrow> list);
                mq = length (mr_heap reg)
            in (Ok mq, reg\<lparr>mr_queues := Some (list @ [(name, mq)]), mr_heap := mr_heap reg @ [MessageQueue_new]\<rparr>))"

definition mq_unlink :: "string \<Rightarrow> (MqRegistry, unit, MessageQueueError) act" where
  "mq_unlink name reg =
     (case mr_queues reg of
        Some list \<Rightarrow>
          (case position (\<lambda>(n, _). n = name) list of
             Some pos \<Rightarrow> (Ok (), reg\<lparr>mr_queues := Some (vec_remove pos list)\<rparr>)
           | None \<Rightarrow> (Err MQ_Empty, reg))
      | None \<Rightarrow> (Err MQ_Empty, reg))"

definition mq_send :: "string \<Rightarrow> bytes \<Rightarrow> (MqRegistry, unit, MessageQueueError) act" where
  "mq_send name msg =
     act_bind (mq_open name False)
       (\<lambda>mq reg. case MessageQueue_send msg (mr_heap reg ! mq) of
          (r, q) \<Rightarrow> (r, reg\<lparr>mr_heap := (mr_heap reg)[mq := q]\<rparr>))"

definition mq_receive ::
    "string \<Rightarrow> MqRegistry \<Rightarrow> ((bytes, MessageQueueError) outcome \<times> MqRegistry) option" where
  "mq_receive name reg =
     (case mq_open name False reg of
        (Ok mq, reg1) \<Rightarrow>
          map_option (\<lambda>(r, q). (map_ok msg_data r, reg1\<lparr>mr_heap := (mr_heap reg1)[mq := q]\<rparr>))
            (MessageQueue_receive (mr_heap reg1 ! mq))
      | (Err e, reg1) \<Rightarrow> Some (Err e, reg1)
      | (Panic, reg1) \<Rightarrow> Some (Panic, reg1))"


section \<open>Selection by priority\<close>

text \<open>
  The index that is found is the first of the messages with the highest priority.
\<close>

definition first_highest :: "'a Message list \<Rightarrow> nat \<Rightarrow> bool" where
  "first_highest q i \<longleftrightarrow> i < length q \<and> (\<forall>j < length q. msg_priority (q ! j) \<le> msg_priority (q ! i)) \<and>
     (\<forall>j < i. msg_priority (q ! j) < msg_priority (q ! i))"

lemma highest_loop_first:
  "q = pre @ msgs \<Longrightarrow> length pre = i \<Longrightarrow> b < length q \<Longrightarrow> p = msg_priority (q ! b) \<Longrightarrow>
   (\<And>j. j < i \<Longrightarrow> msg_priority (q ! j) \<le> p) \<Longrightarrow> (\<And>j. j < b \<Longrightarrow> msg_priority (q ! j) < p) \<Longrightarrow>
   first_highest q (highest_loop i msgs b p)"
proof (induction msgs arbitrary: pre i b p)
  case Nil
  then show ?case by (auto simp: first_highest_def)
next
  case (Cons m ms)
  have q: "q = (pre @ [m]) @ ms" "length (pre @ [m]) = i + 1" and m: "q ! i = m"
    using Cons.prems(1,2) by auto
  show ?case
  proof (cases "msg_priority m > p")
    case True
    have lt: "msg_priority (q ! j) < msg_priority m" if "j < i" for j
      using Cons.prems(5) [OF that] True by (rule le_less_trans)
    have "first_highest q (highest_loop (i + 1) ms i (msg_priority m))"
    proof (rule Cons.IH [OF q])
      show "i < length q" using q(1) by (simp add: Cons.prems(2) [symmetric])
      show "msg_priority (q ! j) \<le> msg_priority m" if "j < i + 1" for j
        using lt [of j] m that by (cases "j = i") auto
    qed (use lt m in auto)
    then show ?thesis using True by simp
  next
    case False
    have "first_highest q (highest_loop (i + 1) ms b p)"
    proof (rule Cons.IH [OF q Cons.prems(3,4)])
      show "msg_priority (q ! j) \<le> p" if "j < i + 1" for j
        using Cons.prems(5) [of j] m that False by (cases "j = i") auto
    qed (use Cons.prems(6) in auto)
    then show ?thesis using False by simp
  qed
qed

lemma find_highest_priority_first:
  "q \<noteq> [] \<Longrightarrow> \<exists>i. find_highest_priority q = Some i \<and> first_highest q i"
  using highest_loop_first [of q "[]" q 0 0 "msg_priority (q ! 0)"]
  by (auto simp: find_highest_priority_def)

text \<open>The order in which a queue is emptied: by falling priority, and by arrival within a priority.\<close>

definition of_priority :: "Priority \<Rightarrow> 'a Message list \<Rightarrow> 'a Message list" where
  "of_priority p q = filter (\<lambda>m. msg_priority m = p) q"

definition by_priority :: "'a Message list \<Rightarrow> 'a Message list" where
  "by_priority q = of_priority Urgent q @ of_priority High q @ of_priority Normal q @ of_priority Low q"

lemma first_highest_split:
  assumes "first_highest q i"
  obtains as bs where "q = as @ q ! i # bs" and "length as = i"
    and "\<And>x. x \<in> set as \<Longrightarrow> msg_priority x < msg_priority (q ! i)"
    and "\<And>x. x \<in> set bs \<Longrightarrow> msg_priority x \<le> msg_priority (q ! i)"
proof (rule that [of "take i q" "drop (Suc i) q"])
  have i: "i < length q" using assms by (simp add: first_highest_def)
  then show "q = take i q @ q ! i # drop (Suc i) q" "length (take i q) = i"
    by (simp_all add: id_take_nth_drop)
  show "x \<in> set (take i q) \<Longrightarrow> msg_priority x < msg_priority (q ! i)" for x
    using assms by (auto simp: first_highest_def in_set_conv_nth)
  show "x \<in> set (drop (Suc i) q) \<Longrightarrow> msg_priority x \<le> msg_priority (q ! i)" for x
    using assms by (auto simp: first_highest_def in_set_conv_nth)
qed

lemma of_priority_none: "(\<And>x. x \<in> set q \<Longrightarrow> msg_priority x \<noteq> p) \<Longrightarrow> of_priority p q = []"
  by (auto simp: of_priority_def filter_empty_conv)

lemma of_priority_append [simp]: "of_priority p (xs @ ys) = of_priority p xs @ of_priority p ys"
  by (simp add: of_priority_def)

lemma of_priority_Cons:
  "of_priority p (x # xs) = (if msg_priority x = p then x # of_priority p xs else of_priority p xs)"
  by (simp add: of_priority_def)

lemma by_priority_first:
  assumes "first_highest q i"
  shows "by_priority q = q ! i # by_priority (vec_remove i q)"
proof -
  obtain as bs where q: "q = as @ q ! i # bs" "length as = i"
    and as: "\<And>x. x \<in> set as \<Longrightarrow> msg_priority x < msg_priority (q ! i)"
    and bs: "\<And>x. x \<in> set bs \<Longrightarrow> msg_priority x \<le> msg_priority (q ! i)"
    using first_highest_split [OF assms] by blast
  define m where "m = q ! i"
  have as_none: "of_priority p as = []" if "\<not> p < msg_priority m" for p
    using that as by (intro of_priority_none) (auto simp: m_def)
  have bs_none: "of_priority p bs = []" if "\<not> p \<le> msg_priority m" for p
    using that bs by (intro of_priority_none) (auto simp: m_def)
  have rm: "vec_remove i q = as @ bs" using q by (intro vec_remove_append) 
  have qm: "q = as @ m # bs" using q(1) by (simp add: m_def)
  show ?thesis
    unfolding m_def [symmetric] rm
    by (subst qm, cases "msg_priority m")
      (simp_all add: by_priority_def of_priority_Cons as_none bs_none less_eq_Priority_def less_Priority_def)
qed

lemma length_by_priority [simp]: "length (by_priority q) = length q"
proof (induction q)
  case (Cons m q)
  then show ?case by (cases "msg_priority m") (simp_all add: by_priority_def of_priority_def)
qed (simp add: by_priority_def of_priority_def)


section \<open>The unbounded queue\<close>

text \<open>
  The counter mirrors the queue, and every message is backed by a unit of the semaphore; an open
  queue has no other units, a closed one has the units that wake its receivers.
\<close>

definition mq_wf :: "'a MessageQueue \<Rightarrow> bool" where
  "mq_wf mq \<longleftrightarrow> mq_count mq = length (mq_queue mq) \<and>
     int (length (mq_queue mq)) \<le> sem_count (mq_sem_items mq) \<and>
     (\<not> mq_closed mq \<longrightarrow> sem_count (mq_sem_items mq) = int (length (mq_queue mq)))"

lemma sem_release_n: "sem_count ((Semaphore_release ^^ n) s) = sem_count s + int n"
  by (induction n) (simp_all add: Semaphore_release_def)

lemma sem_try_acquire_n:
  "int n \<le> sem_count s \<Longrightarrow> sem_count (((\<lambda>s. snd (Semaphore_try_acquire s)) ^^ n) s) = sem_count s - int n"
  by (induction n) (simp_all add: Semaphore_try_acquire_def Let_def)

lemma MessageQueue_new_wf: "mq_wf MessageQueue_new"
  by (simp add: mq_wf_def MessageQueue_new_def Semaphore_new_def)

lemma mq_send_wf: "mq_wf mq \<Longrightarrow> mq_wf (snd (mq_send_message msg mq))"
  by (simp add: mq_wf_def mq_send_message_def Semaphore_release_def)

lemma mq_close_wf: "mq_wf mq \<Longrightarrow> mq_wf (MessageQueue_close mq)"
  by (simp add: mq_wf_def MessageQueue_close_def sem_release_n del: funpow.simps)

lemma mq_clear_wf: "mq_wf mq \<Longrightarrow> mq_wf (MessageQueue_clear mq)"
  by (auto simp: mq_wf_def MessageQueue_clear_def Let_def sem_try_acquire_n)

lemma mq_take_highest_ok:
  assumes "first_highest (mq_queue mq) i" and "find_highest_priority (mq_queue mq) = Some i"
  shows "mq_take_highest mq = (Ok (mq_queue mq ! i),
    mq\<lparr>mq_queue := vec_remove i (mq_queue mq), mq_count := mq_count mq - 1\<rparr>)"
  using assms by (simp add: mq_take_highest_def first_highest_def)

text \<open>What \<open>receive\<close> does on a consistent queue, by cases.\<close>

lemma receive_nonempty:
  assumes wf: "mq_wf mq" and ne: "mq_queue mq \<noteq> []"
  obtains i mq' where "first_highest (mq_queue mq) i"
    and "MessageQueue_receive mq = Some (Ok (mq_queue mq ! i), mq')"
    and "MessageQueue_try_receive mq = (Ok (mq_queue mq ! i), mq')"
    and "mq_queue mq' = vec_remove i (mq_queue mq)" and "mq_wf mq'" and "mq_closed mq' = mq_closed mq"
proof -
  obtain i where i: "find_highest_priority (mq_queue mq) = Some i" "first_highest (mq_queue mq) i"
    using find_highest_priority_first [OF ne] by blast
  define mq1 where "mq1 = mq\<lparr>mq_sem_items := mq_sem_items mq\<lparr>sem_count := sem_count (mq_sem_items mq) - 1\<rparr>\<rparr>"
  define mq' where "mq' = mq1\<lparr>mq_queue := vec_remove i (mq_queue mq), mq_count := mq_count mq - 1\<rparr>"
  have pos: "0 < sem_count (mq_sem_items mq)" and cnt: "mq_count mq \<noteq> 0"
    using wf ne by (cases "mq_queue mq", auto simp: mq_wf_def)+
  have take: "mq_take_highest mq1 = (Ok (mq_queue mq ! i), mq')"
    using mq_take_highest_ok [of mq1 i] i by (simp add: mq1_def mq'_def)
  have "mq_wf mq'"
    using wf ne i(2) by (auto simp: mq_wf_def mq'_def mq1_def first_highest_def of_nat_diff)
  moreover have "MessageQueue_receive mq = Some (Ok (mq_queue mq ! i), mq')"
    using pos cnt take
    by (simp add: MessageQueue_receive_def Semaphore_acquire_eq mq_is_empty_def mq_len_def mq1_def Let_def)
  moreover have "MessageQueue_try_receive mq = (Ok (mq_queue mq ! i), mq')"
    using pos cnt take
    by (simp add: MessageQueue_try_receive_def Semaphore_try_acquire_def mq_is_empty_def mq_len_def mq1_def Let_def)
  ultimately show ?thesis using that i(2) by (simp add: mq'_def mq1_def)
qed

lemma receive_empty:
  assumes wf: "mq_wf mq" and e: "mq_queue mq = []"
  shows "MessageQueue_receive mq = (if mq_closed mq then Some (Err MQ_Closed, mq) else None)"
    and "MessageQueue_try_receive mq = (Err (if mq_closed mq then MQ_Closed else MQ_Empty), mq)"
proof -
  have "mq_count mq = 0" "\<not> mq_closed mq \<Longrightarrow> sem_count (mq_sem_items mq) = 0" using wf e by (auto simp: mq_wf_def)
  then show "MessageQueue_receive mq = (if mq_closed mq then Some (Err MQ_Closed, mq) else None)"
    "MessageQueue_try_receive mq = (Err (if mq_closed mq then MQ_Closed else MQ_Empty), mq)"
    by (simp_all add: MessageQueue_receive_def MessageQueue_try_receive_def mq_is_empty_def mq_len_def
        Semaphore_acquire_eq Semaphore_try_acquire_def Let_def)
qed

text \<open>A receiver that calls \<open>receive\<close> \<open>n\<close> times.\<close>

primrec receive_n :: "nat \<Rightarrow> 'a MessageQueue \<Rightarrow> ('a Message list \<times> 'a MessageQueue) option" where
  "receive_n 0 mq = Some ([], mq)"
| "receive_n (Suc n) mq =
     (case MessageQueue_receive mq of
        Some (Ok m, mq1) \<Rightarrow> map_option (\<lambda>(ms, mq2). (m # ms, mq2)) (receive_n n mq1)
      | _ \<Rightarrow> None)"

lemma receive_n_by_priority:
  "mq_wf mq \<Longrightarrow> n = length (mq_queue mq) \<Longrightarrow>
   \<exists>mq'. receive_n n mq = Some (by_priority (mq_queue mq), mq') \<and> mq_queue mq' = [] \<and> mq_wf mq' \<and>
     mq_closed mq' = mq_closed mq"
proof (induction n arbitrary: mq)
  case 0
  then show ?case by (simp add: by_priority_def of_priority_def)
next
  case (Suc n)
  have "mq_queue mq \<noteq> []" using Suc.prems(2) by auto
  then obtain i mq1 where i: "first_highest (mq_queue mq) i"
    and mq1: "MessageQueue_receive mq = Some (Ok (mq_queue mq ! i), mq1)"
      "mq_queue mq1 = vec_remove i (mq_queue mq)" "mq_wf mq1" "mq_closed mq1 = mq_closed mq"
    using receive_nonempty [OF Suc.prems(1)] by blast
  have "n = length (mq_queue mq1)" using mq1(2) i Suc.prems(2) by (simp add: first_highest_def)
  from Suc.IH [OF mq1(3) this] obtain mq' where
    "receive_n n mq1 = Some (by_priority (mq_queue mq1), mq')" "mq_queue mq' = []" "mq_wf mq'"
    "mq_closed mq' = mq_closed mq1" by blast
  then show ?case using mq1 by_priority_first [OF i] by simp
qed


section \<open>What a channel promises\<close>

text \<open>
  The contract of a bounded first-in first-out channel, for a single thread: \<open>contents\<close> are the values
  in flight and \<open>room\<close> is the capacity. A call that would wait for another thread is \<open>None\<close>.
\<close>

locale bounded_fifo =
  fixes send :: "'a \<Rightarrow> 's \<Rightarrow> ((unit, 'e) outcome \<times> 's) option"
    and recv :: "'s \<Rightarrow> (('a, 'e) outcome \<times> 's) option"
    and contents :: "'s \<Rightarrow> 'a list" and room :: "'s \<Rightarrow> nat" and ok :: "'s \<Rightarrow> bool"
  assumes send_room: "ok s \<Longrightarrow> length (contents s) < room s \<Longrightarrow>
      \<exists>s'. send x s = Some (Ok (), s') \<and> ok s' \<and> contents s' = contents s @ [x] \<and> room s' = room s"
    and send_full: "ok s \<Longrightarrow> room s \<le> length (contents s) \<Longrightarrow> send x s = None"
    and recv_some: "ok s \<Longrightarrow> contents s = x # xs \<Longrightarrow>
      \<exists>s'. recv s = Some (Ok x, s') \<and> ok s' \<and> contents s' = xs \<and> room s' = room s"
    and recv_none: "ok s \<Longrightarrow> contents s = [] \<Longrightarrow> recv s = None"

text \<open>Sending a list of values one by one, and receiving a number of values.\<close>

fun send_all :: "('a \<Rightarrow> 's \<Rightarrow> ((unit, 'e) outcome \<times> 's) option) \<Rightarrow> 'a list \<Rightarrow> 's \<Rightarrow> 's option" where
  "send_all send [] s = Some s"
| "send_all send (x # xs) s =
     (case send x s of Some (Ok _, s') \<Rightarrow> send_all send xs s' | _ \<Rightarrow> None)"

fun recv_all :: "('s \<Rightarrow> (('a, 'e) outcome \<times> 's) option) \<Rightarrow> nat \<Rightarrow> 's \<Rightarrow> ('a list \<times> 's) option" where
  "recv_all recv 0 s = Some ([], s)"
| "recv_all recv (Suc n) s =
     (case recv s of
        Some (Ok x, s') \<Rightarrow> map_option (\<lambda>(xs, t). (x # xs, t)) (recv_all recv n s')
      | _ \<Rightarrow> None)"

context bounded_fifo
begin

lemma send_all_ok:
  "ok s \<Longrightarrow> length (contents s) + length xs \<le> room s \<Longrightarrow>
   \<exists>s'. send_all send xs s = Some s' \<and> ok s' \<and> contents s' = contents s @ xs \<and> room s' = room s"
proof (induction xs arbitrary: s)
  case (Cons x xs)
  have "length (contents s) < room s" using Cons.prems(2) by simp
  then obtain s1 where s1: "send x s = Some (Ok (), s1)" "ok s1" "contents s1 = contents s @ [x]" "room s1 = room s"
    using send_room [OF Cons.prems(1), of x] by blast
  have "length (contents s1) + length xs \<le> room s1" using s1(3,4) Cons.prems(2) by simp
  from Cons.IH [OF s1(2) this] show ?case by (simp add: s1(1,3,4))
qed simp

lemma recv_all_ok:
  "ok s \<Longrightarrow> n \<le> length (contents s) \<Longrightarrow>
   \<exists>s'. recv_all recv n s = Some (take n (contents s), s') \<and> ok s' \<and> contents s' = drop n (contents s) \<and>
     room s' = room s"
proof (induction n arbitrary: s)
  case (Suc n)
  then obtain x xs where c: "contents s = x # xs" by (cases "contents s") auto
  obtain s1 where s1: "recv s = Some (Ok x, s1)" "ok s1" "contents s1 = xs" "room s1 = room s"
    using recv_some [OF Suc.prems(1) c] by blast
  have "n \<le> length (contents s1)" using s1(3) Suc.prems(2) c by simp
  from Suc.IH [OF s1(2) this] show ?case unfolding s1(3,4) by (auto simp: s1(1) c)
qed simp

lemma transfer_in_order:
  assumes "ok s" and "contents s = []" and "length xs \<le> room s"
  shows "\<exists>s1 s2. send_all send xs s = Some s1 \<and> recv_all recv (length xs) s1 = Some (xs, s2) \<and>
    contents s2 = [] \<and> (length xs = room s \<longrightarrow> send x s1 = None) \<and> recv s2 = None"
proof -
  obtain s1 where s1: "send_all send xs s = Some s1" "ok s1" "contents s1 = xs" "room s1 = room s"
    using send_all_ok [OF assms(1), of xs] assms(2,3) by auto
  obtain s2 where s2: "recv_all recv (length xs) s1 = Some (xs, s2)" "ok s2" "contents s2 = []"
    using recv_all_ok [OF s1(2), of "length xs"] s1(3) by auto
  have "length xs = room s \<longrightarrow> send x s1 = None" using send_full [OF s1(2), of x] s1(3,4) by simp
  then show ?thesis using s1(1) s2(1,3) recv_none [OF s2(2,3)] by blast
qed

end


section \<open>The bounded queue\<close>

definition bq_open_wf :: "'a BoundedMessageQueue \<Rightarrow> bool" where
  "bq_open_wf bq \<longleftrightarrow> \<not> bq_closed bq \<and> bq_count bq = length (bq_queue bq) \<and>
     length (bq_queue bq) \<le> bq_capacity bq \<and>
     sem_count (bq_sem_items bq) = int (length (bq_queue bq)) \<and>
     sem_count (bq_sem_slots bq) = int (bq_capacity bq) - int (length (bq_queue bq))"

definition recv_data ::
    "'a BoundedMessageQueue \<Rightarrow> (('a, MessageQueueError) outcome \<times> 'a BoundedMessageQueue) option" where
  "recv_data bq = map_option (\<lambda>(r, bq'). (map_ok msg_data r, bq')) (Receiver_recv bq)"

lemmas bq_ops = Sender_send_def Bounded_send_def bq_send_message_def bq_try_send_message_def bq_push_def
  Receiver_recv_def Bounded_receive_def Bounded_try_receive_def bq_pop_def bq_is_empty_def bq_len_def
  Semaphore_acquire_eq Semaphore_try_acquire_def Semaphore_release_def Let_def

interpretation chan: bounded_fifo Sender_send recv_data "\<lambda>bq. map msg_data (bq_queue bq)" bq_capacity bq_open_wf
proof unfold_locales
  fix s :: "'a BoundedMessageQueue" and x :: 'a
  assume "bq_open_wf s" "length (map msg_data (bq_queue s)) < bq_capacity s"
  then show "\<exists>s'. Sender_send x s = Some (Ok (), s') \<and> bq_open_wf s' \<and>
      map msg_data (bq_queue s') = map msg_data (bq_queue s) @ [x] \<and> bq_capacity s' = bq_capacity s"
    by (simp add: bq_ops bq_open_wf_def Message_new_def)
next
  fix s :: "'a BoundedMessageQueue" and x :: 'a and xs
  assume "bq_open_wf s" "map msg_data (bq_queue s) = x # xs"
  then show "\<exists>s'. recv_data s = Some (Ok x, s') \<and> bq_open_wf s' \<and> map msg_data (bq_queue s') = xs \<and>
      bq_capacity s' = bq_capacity s"
    by (cases "bq_queue s") (auto simp: recv_data_def bq_ops bq_open_wf_def)
qed (auto simp: recv_data_def bq_ops bq_open_wf_def)

lemma BoundedMessageQueue_new_wf: "bq_open_wf (BoundedMessageQueue_new n)"
  by (simp add: bq_open_wf_def BoundedMessageQueue_new_def Semaphore_new_def)

text \<open>
  A bounded queue in use, with the messages sent and received so far. A call that waits for ever is
  no step.
\<close>

inductive bq_run :: "nat \<Rightarrow> 'a BoundedMessageQueue \<Rightarrow> 'a Message list \<Rightarrow> 'a Message list \<Rightarrow> bool" for n where
  new: "bq_run n (BoundedMessageQueue_new n) [] []"
| send: "bq_run n bq sent rcvd \<Longrightarrow> bq_send_message m bq = Some (r, bq') \<Longrightarrow>
    bq_run n bq' (if r = Ok () then sent @ [m] else sent) rcvd"
| try_send: "bq_run n bq sent rcvd \<Longrightarrow> bq_try_send_message m bq = (r, bq') \<Longrightarrow>
    bq_run n bq' (if r = Ok () then sent @ [m] else sent) rcvd"
| receive: "bq_run n bq sent rcvd \<Longrightarrow> Bounded_receive bq = Some (r, bq') \<Longrightarrow>
    bq_run n bq' sent (case r of Ok m \<Rightarrow> rcvd @ [m] | _ \<Rightarrow> rcvd)"
| try_receive: "bq_run n bq sent rcvd \<Longrightarrow> Bounded_try_receive bq = (r, bq') \<Longrightarrow>
    bq_run n bq' sent (case r of Ok m \<Rightarrow> rcvd @ [m] | _ \<Rightarrow> rcvd)"
| close: "bq_run n bq sent rcvd \<Longrightarrow> bq_run n (Bounded_close bq) sent rcvd"

definition bq_inv :: "nat \<Rightarrow> 'a BoundedMessageQueue \<Rightarrow> 'a Message list \<Rightarrow> 'a Message list \<Rightarrow> bool" where
  "bq_inv n bq sent rcvd \<longleftrightarrow>
     sent = rcvd @ bq_queue bq \<and> bq_capacity bq = n \<and> length (bq_queue bq) \<le> n \<and>
     bq_count bq = length (bq_queue bq) \<and> int (length (bq_queue bq)) \<le> sem_count (bq_sem_items bq) \<and>
     (\<not> bq_closed bq \<longrightarrow> sem_count (bq_sem_items bq) = int (length (bq_queue bq)) \<and>
        sem_count (bq_sem_slots bq) = int n - int (length (bq_queue bq)))"

lemma bq_run_inv: "bq_run n bq sent rcvd \<Longrightarrow> bq_inv n bq sent rcvd"
proof (induction rule: bq_run.induct)
  case new
  show ?case by (simp add: bq_inv_def BoundedMessageQueue_new_def Semaphore_new_def)
next
  case (send bq sent rcvd m r bq')
  then show ?case by (auto simp: bq_inv_def bq_ops split: if_splits)
next
  case (try_send bq sent rcvd m r bq')
  then show ?case by (auto simp: bq_inv_def bq_ops split: if_splits)
next
  case (receive bq sent rcvd r bq')
  then show ?case by (cases "bq_queue bq") (auto simp: bq_inv_def bq_ops split: if_splits)
next
  case (try_receive bq sent rcvd r bq')
  then show ?case by (cases "bq_queue bq") (auto simp: bq_inv_def bq_ops split: if_splits)
next
  case (close bq sent rcvd)
  then show ?case by (auto simp: bq_inv_def Bounded_close_def Let_def sem_release_n)
qed

text \<open>A sender that calls \<open>send_message\<close> for every message of a list.\<close>

primrec send_messages :: "'a Message list \<Rightarrow> 'a MessageQueue \<Rightarrow> 'a MessageQueue" where
  "send_messages [] q = q"
| "send_messages (m # ms) q = send_messages ms (snd (mq_send_message m q))"

lemma send_messages_ok:
  "mq_wf q \<Longrightarrow> \<not> mq_closed q \<Longrightarrow>
   mq_wf (send_messages ms q) \<and> \<not> mq_closed (send_messages ms q) \<and>
   mq_queue (send_messages ms q) = mq_queue q @ ms"
proof (induction ms arbitrary: q)
  case (Cons m ms)
  have "\<not> mq_closed (snd (mq_send_message m q))" "mq_queue (snd (mq_send_message m q)) = mq_queue q @ [m]"
    using Cons.prems(2) by (simp_all add: mq_send_message_def)
  with Cons.IH [OF mq_send_wf [OF Cons.prems(1)], of m] show ?case by simp
qed simp


section \<open>The registry\<close>

definition mr_list :: "MqRegistry \<Rightarrow> (string \<times> nat) list" where
  "mr_list reg = (case mr_queues reg of None \<Rightarrow> [] | Some list \<Rightarrow> list)"

text \<open>Names are unique and refer to consistent queues; no two names share a queue.\<close>

definition mr_wf :: "MqRegistry \<Rightarrow> bool" where
  "mr_wf reg \<longleftrightarrow> distinct (map fst (mr_list reg)) \<and> distinct (map snd (mr_list reg)) \<and>
     (\<forall>(n, h) \<in> set (mr_list reg). h < length (mr_heap reg)) \<and> (\<forall>mq \<in> set (mr_heap reg). mq_wf mq)"

lemma mq_lookup_map_of: "mq_lookup name reg = map_of (mr_list reg) name"
  by (simp add: mq_lookup_def mr_list_def find_map_of split: option.splits)

lemma map_of_vec_remove:
  assumes "distinct (map fst xs)" and "position (\<lambda>(n, _). n = name) xs = Some i"
  shows "map_of (vec_remove i xs) = (map_of xs)(name := None)"
proof -
  have i: "i < length xs" "fst (xs ! i) = name" using position_SomeD [OF assms(2)] by (auto simp: case_prod_beta)
  have xs: "xs = take i xs @ xs ! i # drop (Suc i) xs" using i(1) by (rule id_take_nth_drop)
  have "distinct (map fst (take i xs @ xs ! i # drop (Suc i) xs))" using assms(1) xs by simp
  then have "name \<notin> fst ` set (take i xs)" "name \<notin> fst ` set (drop (Suc i) xs)"
    using i(2) by (auto simp: image_iff)
  then have none: "map_of (take i xs) name = None" "map_of (drop (Suc i) xs) name = None"
    by (simp_all add: map_of_eq_None_iff)
  have split: "map_of xs k = map_of (take i xs @ xs ! i # drop (Suc i) xs) k" for k using xs by simp
  show ?thesis
  proof
    fix k show "map_of (vec_remove i xs) k = ((map_of xs)(name := None)) k"
      unfolding split fun_upd_apply using none i(2)
      by (cases "xs ! i") (auto simp: vec_remove_def map_add_def split: option.splits)
  qed
qed

lemma mq_open_new_wf:
  assumes wf: "mr_wf reg" and new: "mq_lookup name reg = None"
  shows "mr_wf (snd (mq_open name True reg))"
    and "mr_list (snd (mq_open name True reg)) = mr_list reg @ [(name, length (mr_heap reg))]"
    and "mr_heap (snd (mq_open name True reg)) = mr_heap reg @ [MessageQueue_new]"
proof -
  show list: "mr_list (snd (mq_open name True reg)) = mr_list reg @ [(name, length (mr_heap reg))]"
    and heap: "mr_heap (snd (mq_open name True reg)) = mr_heap reg @ [MessageQueue_new]"
    using new by (simp_all add: mq_open_def Let_def mr_list_def)
  have "name \<notin> fst ` set (mr_list reg)" using new by (simp add: mq_lookup_map_of map_of_eq_None_iff)
  moreover have "length (mr_heap reg) \<notin> snd ` set (mr_list reg)" using wf by (auto simp: mr_wf_def)
  ultimately show "mr_wf (snd (mq_open name True reg))"
    using wf MessageQueue_new_wf unfolding mr_wf_def list heap by (auto simp: less_Suc_eq)
qed

lemma mq_unlink_lookup:
  assumes "mr_wf reg"
  shows "mq_lookup k (snd (mq_unlink name reg)) = (if k = name then None else mq_lookup k reg)"
    and "fst (mq_unlink name reg) = Ok () \<longleftrightarrow> mq_lookup name reg \<noteq> None"
proof -
  have d: "distinct (map fst (mr_list reg))" using assms by (simp add: mr_wf_def)
  have "mq_lookup k (snd (mq_unlink name reg)) = (if k = name then None else mq_lookup k reg) \<and>
      (fst (mq_unlink name reg) = Ok () \<longleftrightarrow> mq_lookup name reg \<noteq> None)"
  proof (cases "mr_queues reg")
    case None
    then show ?thesis by (simp add: mq_unlink_def mq_lookup_def)
  next
    case (Some list)
    show ?thesis
    proof (cases "position (\<lambda>(n, _). n = name) list")
      case None
      then have "map_of list name = None"
        by (auto simp: position_None_iff map_of_eq_None_iff)
      then show ?thesis using None Some by (auto simp: mq_unlink_def mq_lookup_map_of mr_list_def)
    next
      case pos: (Some i)
      have "map_of list name \<noteq> None"
        using position_SomeD [OF pos] by (auto simp: map_of_eq_None_iff case_prod_beta dest: nth_mem)
      then show ?thesis
        using pos Some map_of_vec_remove [OF _ pos] d
        by (auto simp: mq_unlink_def mq_lookup_map_of mr_list_def)
    qed
  qed
  then show "mq_lookup k (snd (mq_unlink name reg)) = (if k = name then None else mq_lookup k reg)"
    "fst (mq_unlink name reg) = Ok () \<longleftrightarrow> mq_lookup name reg \<noteq> None" by simp_all
qed


section \<open>Properties\<close>

text \<open>
  C35. The unbounded queue delivers every message exactly once, in the order of falling priority and,
  within a priority, in the order of sending; closing the queue first changes nothing about the
  messages it holds.
\<close>

theorem messages_delivered_by_priority:
  "\<exists>mq. receive_n (length msgs)
      ((if closed then MessageQueue_close else id)
         (send_messages msgs MessageQueue_new)) = Some (by_priority msgs, mq) \<and>
    MessageQueue_receive mq = (if closed then Some (Err MQ_Closed, mq) else None)"
proof -
  define q where "q = send_messages msgs MessageQueue_new"
  have q: "mq_wf q" "\<not> mq_closed q" "mq_queue q = msgs"
    using send_messages_ok [OF MessageQueue_new_wf, of msgs] by (simp_all add: q_def MessageQueue_new_def)
  define q' where "q' = (if closed then MessageQueue_close else id) q"
  have q': "mq_wf q'" "mq_closed q' = closed" "mq_queue q' = msgs"
    using q mq_close_wf [OF q(1)] by (auto simp: q'_def MessageQueue_close_def)
  from receive_n_by_priority [OF q'(1), of "length msgs"] q' receive_empty(1) show ?thesis
    unfolding q_def [symmetric] q'_def [symmetric] by fastforce
qed

text \<open>
  C36. The bounded queue is first-in first-out and never over capacity: in every history of calls, the
  messages received so far followed by the messages in the queue are the messages accepted so far,
  the queue holds at most its capacity, a receiver waits exactly when the queue is open and empty,
  and a sender waits exactly when it is open and full.
\<close>

theorem bounded_queue_fifo:
  assumes "bq_run n bq sent rcvd"
  shows "sent = rcvd @ bq_queue bq \<and> length (bq_queue bq) \<le> n \<and> bq_len bq = length (bq_queue bq) \<and>
    (Bounded_receive bq = None \<longleftrightarrow> \<not> bq_closed bq \<and> bq_queue bq = []) \<and>
    (bq_send_message m bq = None \<longleftrightarrow> \<not> bq_closed bq \<and> length (bq_queue bq) = n)"
  using bq_run_inv [OF assms] by (cases "bq_queue bq") (auto simp: bq_inv_def bq_ops)

theorem bounded_queue_fifo_witness:
  "\<exists>bq. bq_run 1 bq [Message_new (4::nat)] [] \<and> bq_queue bq = [Message_new 4] \<and>
     bq_send_message (Message_new 5) bq = None"
proof -
  let ?q = "BoundedMessageQueue_new 1 :: nat BoundedMessageQueue"
  have "bq_send_message (Message_new 4) ?q \<noteq> None"
    by (simp add: BoundedMessageQueue_new_def bq_ops Semaphore_new_def)
  then obtain bq where bq: "bq_send_message (Message_new 4) ?q = Some (Ok (), bq)"
    by (auto simp: BoundedMessageQueue_new_def bq_ops Semaphore_new_def split: if_splits)
  have run: "bq_run 1 bq [Message_new 4] []" using bq_run.send [OF bq_run.new bq] by simp
  have "\<not> bq_closed bq" using bq by (auto simp: BoundedMessageQueue_new_def bq_ops Semaphore_new_def)
  moreover note fifo = bounded_queue_fifo [OF run, of "Message_new 5"]
  moreover have "bq_queue bq = [Message_new 4]" using fifo by simp
  ultimately have "bq_send_message (Message_new 5) bq = None" by simp
  then show ?thesis using run \<open>bq_queue bq = [Message_new 4]\<close> by blast
qed

text \<open>
  A channel transfers values in order: on a new channel, sending up to its capacity of values
  never waits, receiving as many returns exactly those values in order, one more send would wait when
  the channel is full, and one more receive would wait at the end.
\<close>

theorem channel_transfers_in_order:
  fixes xs :: "'a list"
  assumes "length xs \<le> n"
  shows "\<exists>c1 c2. send_all Sender_send xs (Channel_bounded n) = Some c1 \<and>
    recv_all recv_data (length xs) c1 = Some (xs, c2) \<and>
    (length xs = n \<longrightarrow> Sender_send x c1 = None) \<and> Receiver_recv c2 = None"
proof -
  have new: "bq_open_wf (Channel_bounded n :: 'a BoundedMessageQueue)"
    "map msg_data (bq_queue (Channel_bounded n :: 'a BoundedMessageQueue)) = []"
    "bq_capacity (Channel_bounded n :: 'a BoundedMessageQueue) = n"
    using BoundedMessageQueue_new_wf by (simp_all add: Channel_bounded_def BoundedMessageQueue_new_def)
  from chan.transfer_in_order [OF new(1,2), of xs x] assms new(3) show ?thesis
    by (auto simp: recv_data_def)
qed

theorem channel_transfers_in_order_witness:
  "\<exists>c1 c2. send_all Sender_send [3, 4::nat] (Channel_bounded 2) = Some c1 \<and>
    recv_all recv_data 2 c1 = Some ([3, 4], c2) \<and> Sender_send 5 c1 = None"
  using channel_transfers_in_order [of "[3, 4::nat]" 2 5] by (auto simp: numeral_2_eq_2)

text \<open>
  The channel that is documented as unbuffered and synchronous is not: a send on it returns at
  once, before any receiver has taken the value.
\<close>

theorem unbuffered_send_returns_at_once:
  "\<exists>c. Sender_send x Channel_unbuffered = Some (Ok (), c) \<and> bq_queue c = [Message_new x]"
  by (simp add: Channel_unbuffered_def Channel_bounded_def BoundedMessageQueue_new_def Semaphore_new_def bq_ops)

text \<open>
  C28. The registry gives every name its own queue: opening a new name with \<open>create\<close> adds a fresh, empty
  queue and leaves every other name where it was, opening it again returns the same queue, and after
  \<open>mq_unlink\<close> the name is gone and the other names are as before.
\<close>

theorem named_queues:
  assumes "mr_wf reg" and "mq_lookup name reg = None" and "mq_open name True reg = (Ok h, reg')"
  shows "mr_wf reg' \<and> h \<notin> ran (\<lambda>k. mq_lookup k reg) \<and> mr_heap reg' ! h = MessageQueue_new \<and>
    mq_open name create reg' = (Ok h, reg') \<and>
    (\<forall>k. mq_lookup k reg' = (if k = name then Some h else mq_lookup k reg)) \<and>
    fst (mq_unlink name reg') = Ok () \<and> (\<forall>k. mq_lookup k (snd (mq_unlink name reg')) = mq_lookup k reg)"
proof -
  have reg': "reg' = snd (mq_open name True reg)" and h: "h = length (mr_heap reg)"
    using assms(2,3) by (auto simp: mq_open_def Let_def)
  note wf = mq_open_new_wf [OF assms(1,2), folded reg']
  have look: "mq_lookup k reg' = (if k = name then Some h else mq_lookup k reg)" for k
    using assms(2) by (auto simp: mq_lookup_map_of wf(2) h map_add_def split: option.splits)
  have "h \<notin> ran (\<lambda>k. mq_lookup k reg)"
    using assms(1) by (auto simp: ran_def mq_lookup_map_of mr_wf_def h dest!: map_of_SomeD)
  moreover have "mq_open name create reg' = (Ok h, reg')" using look by (simp add: mq_open_def)
  moreover have "mq_lookup k (snd (mq_unlink name reg')) = mq_lookup k reg" for k
    using mq_unlink_lookup(1) [OF wf(1), of k name] look assms(2) by auto
  ultimately show ?thesis
    using wf look mq_unlink_lookup(2) [OF wf(1), of name] by (auto simp: h)
qed

theorem named_queues_witness:
  "mq_open ''mq'' False (snd (mq_open ''mq'' True \<lparr>mr_queues = None, mr_heap = []\<rparr>)) =
     (Ok 0, snd (mq_open ''mq'' True \<lparr>mr_queues = None, mr_heap = []\<rparr>))"
proof -
  let ?r = "\<lparr>mr_queues = None, mr_heap = []\<rparr>"
  have "mr_wf ?r" "mq_lookup ''mq'' ?r = None"
    "mq_open ''mq'' True ?r = (Ok 0, snd (mq_open ''mq'' True ?r))"
    by (simp_all add: mr_wf_def mr_list_def mq_lookup_def mq_open_def Let_def)
  from named_queues [OF this, of False] show ?thesis by simp
qed

end
