(* ===== verification/Vnode.thy ===== *)
theory Vnode
  imports Vfs_Path
begin

text \<open>
  The \<open>VNode\<close> trait of \<open>src/fs/mod.rs\<close>: a record of methods over a state of type \<open>'s\<close> that holds the
  objects and handles of type \<open>'v\<close> (the \<open>Arc<dyn VNode>\<close>). A read returns the bytes it places at the
  start of the caller's buffer. The trait's default methods are the fields of \<open>VNode_default\<close>; the
  file systems override them. The locale \<open>file_store\<close> is the contract the descriptor layer relies on.
\<close>

section \<open>The trait\<close>

record ('s, 'v) vnode_ops =
  vn_node_type :: "'v \<Rightarrow> 's \<Rightarrow> VNodeType"
  vn_read :: "'v \<Rightarrow> nat \<Rightarrow> nat \<Rightarrow> ('s, bytes, VfsError) act"
  vn_write :: "'v \<Rightarrow> nat \<Rightarrow> bytes \<Rightarrow> ('s, nat, VfsError) act"
  vn_truncate :: "'v \<Rightarrow> u64 \<Rightarrow> ('s, unit, VfsError) act"
  vn_lookup :: "'v \<Rightarrow> string \<Rightarrow> 's \<Rightarrow> ('v, VfsError) outcome"
  vn_create :: "'v \<Rightarrow> string \<Rightarrow> VNodeType \<Rightarrow> FileMode \<Rightarrow> ('s, 'v, VfsError) act"
  vn_unlink :: "'v \<Rightarrow> string \<Rightarrow> ('s, unit, VfsError) act"
  vn_rmdir :: "'v \<Rightarrow> string \<Rightarrow> ('s, unit, VfsError) act"
  vn_readdir :: "'v \<Rightarrow> 's \<Rightarrow> (VDirEntry list, VfsError) outcome"
  vn_stat :: "'v \<Rightarrow> 's \<Rightarrow> (Stat, VfsError) outcome"
  vn_chmod :: "'v \<Rightarrow> FileMode \<Rightarrow> ('s, unit, VfsError) act"
  vn_sync :: "'v \<Rightarrow> ('s, unit, VfsError) act"
  vn_readlink :: "'v \<Rightarrow> 's \<Rightarrow> (string, VfsError) outcome"
  vn_symlink :: "'v \<Rightarrow> string \<Rightarrow> string \<Rightarrow> ('s, 'v, VfsError) act"

text \<open>An object that implements only the two required methods.\<close>

definition VNode_default ::
    "('v \<Rightarrow> 's \<Rightarrow> VNodeType) \<Rightarrow> ('v \<Rightarrow> 's \<Rightarrow> (Stat, VfsError) outcome) \<Rightarrow> ('s, 'v) vnode_ops" where
  "VNode_default node_type stat =
     \<lparr>vn_node_type = node_type,
      vn_read = (\<lambda>v offset len. act_fail NotSupported),
      vn_write = (\<lambda>v offset buf. act_fail NotSupported),
      vn_truncate = (\<lambda>v size. act_fail NotSupported),
      vn_lookup = (\<lambda>v name s. Err NotADirectory),
      vn_create = (\<lambda>v name ty mode. act_fail NotADirectory),
      vn_unlink = (\<lambda>v name. act_fail NotADirectory),
      vn_rmdir = (\<lambda>v name. act_fail NotADirectory),
      vn_readdir = (\<lambda>v s. Err NotADirectory),
      vn_stat = stat,
      vn_chmod = (\<lambda>v mode. act_fail NotSupported),
      vn_sync = (\<lambda>v. act_return ()),
      vn_readlink = (\<lambda>v s. Err InvalidArgument),
      vn_symlink = (\<lambda>v name target. act_fail NotSupported)\<rparr>"

lemma VNode_default_simps [simp]:
  "vn_node_type (VNode_default ty st) = ty" "vn_stat (VNode_default ty st) = st"
  "vn_read (VNode_default ty st) v off n = act_fail NotSupported"
  "vn_write (VNode_default ty st) v off buf = act_fail NotSupported"
  "vn_truncate (VNode_default ty st) v sz = act_fail NotSupported"
  "vn_lookup (VNode_default ty st) v name s = Err NotADirectory"
  "vn_create (VNode_default ty st) v name t mode = act_fail NotADirectory"
  "vn_unlink (VNode_default ty st) v name = act_fail NotADirectory"
  "vn_rmdir (VNode_default ty st) v name = act_fail NotADirectory"
  "vn_readdir (VNode_default ty st) v s = Err NotADirectory"
  "vn_chmod (VNode_default ty st) v mode = act_fail NotSupported"
  "vn_sync (VNode_default ty st) v = act_return ()"
  "vn_readlink (VNode_default ty st) v s = Err InvalidArgument"
  "vn_symlink (VNode_default ty st) v name target = act_fail NotSupported"
  by (simp_all add: VNode_default_def)


section \<open>The contract of regular files\<close>

text \<open>
  The largest size of an allocation (\<open>isize::MAX\<close>), which bounds the size of every object in memory,
  and the effect of a write on the bytes of a file: a gap before the offset is filled with zeros.
\<close>

definition isize_max :: nat where
  "isize_max = 2 ^ 63 - 1"

definition write_at :: "bytes \<Rightarrow> nat \<Rightarrow> bytes \<Rightarrow> bytes" where
  "write_at xs off ys = overwrite (if off + length ys > length xs then vec_resize xs (off + length ys) 0 else xs) off ys"

lemma length_write_at [simp]: "length (write_at xs off ys) = max (length xs) (off + length ys)"
  by (simp add: write_at_def max_def)

lemma write_at_read [simp]: "take (length ys) (drop off (write_at xs off ys)) = ys"
  by (simp add: write_at_def)

text \<open>Two writes one after the other are one write of the two pieces.\<close>

lemma write_at_append: "write_at (write_at xs off ys) (off + length ys) zs = write_at xs off (ys @ zs)"
proof (rule nth_equalityI)
  show "length (write_at (write_at xs off ys) (off + length ys) zs) = length (write_at xs off (ys @ zs))" by simp
next
  fix i assume "i < length (write_at (write_at xs off ys) (off + length ys) zs)"
  then show "write_at (write_at xs off ys) (off + length ys) zs ! i = write_at xs off (ys @ zs) ! i"
    by (auto simp: write_at_def nth_overwrite nth_vec_resize nth_append)
qed

lemma write_at_end: "write_at xs (length xs) ys = xs @ ys"
  by (simp add: write_at_def overwrite_def vec_resize_def)

text \<open>
  A store of regular files: \<open>contents s v\<close> is what the file \<open>v\<close> holds, \<open>None\<close> when \<open>v\<close> is no regular file.
\<close>

locale file_store =
  fixes ops :: "('s, 'v) vnode_ops" and inv :: "'s \<Rightarrow> bool" and contents :: "'s \<Rightarrow> 'v \<Rightarrow> bytes option"
  assumes contents_bound: "inv s \<Longrightarrow> contents s v = Some xs \<Longrightarrow> length xs \<le> isize_max"
    and read_law: "inv s \<Longrightarrow> contents s v = Some xs \<Longrightarrow> vn_read ops v off n s = (Ok (take n (drop off xs)), s)"
    and write_law: "inv s \<Longrightarrow> contents s v = Some xs \<Longrightarrow> off + length ys \<le> isize_max \<Longrightarrow>
      \<exists>s'. vn_write ops v off ys s = (Ok (length ys), s') \<and> inv s' \<and> contents s' v = Some (write_at xs off ys) \<and>
        (\<forall>w. w \<noteq> v \<longrightarrow> contents s' w = contents s w)"
    and stat_law: "inv s \<Longrightarrow> contents s v = Some xs \<Longrightarrow>
      \<exists>st. vn_stat ops v s = Ok st \<and> stat_size st = of_nat (length xs)"


section \<open>Calls by path\<close>

text \<open>
  What the rest of the kernel does with a mounted file system: it resolves a path, or the parent of a
  path, from the root, and calls one method of the object it finds. The results carry no handles.
\<close>

datatype fs_call =
    FsCreate string VNodeType FileMode
  | FsUnlink string
  | FsRead string nat nat
  | FsWrite string nat bytes
  | FsTruncate string u64
  | FsChmod string FileMode
  | FsReaddir string
  | FsStat string

datatype fs_result = RUnit | RBytes bytes | RCount nat | REntries "VDirEntry list" | RStat Stat

definition at_path ::
    "('s, 'v) vnode_ops \<Rightarrow> 'v \<Rightarrow> string \<Rightarrow> ('v \<Rightarrow> ('s, 'a, VfsError) act) \<Rightarrow> ('a \<Rightarrow> fs_result) \<Rightarrow> ('s, fs_result, VfsError) act" where
  "at_path ops root path f g =
     act_bind (act_lift (\<lambda>s. resolve (\<lambda>v name. vn_lookup ops v name s) root path)) (\<lambda>v.
     act_bind (f v) (\<lambda>x. act_return (g x)))"

definition at_parent ::
    "('s, 'v) vnode_ops \<Rightarrow> 'v \<Rightarrow> string \<Rightarrow> ('v \<Rightarrow> string \<Rightarrow> ('s, 'a, VfsError) act) \<Rightarrow> ('s, fs_result, VfsError) act" where
  "at_parent ops root path f =
     act_bind (act_lift (\<lambda>s. resolve_parent (\<lambda>v name. vn_lookup ops v name s) root path)) (\<lambda>(v, name).
     act_bind (f v name) (\<lambda>_. act_return RUnit))"

definition vfs_call :: "('s, 'v) vnode_ops \<Rightarrow> 'v \<Rightarrow> fs_call \<Rightarrow> ('s, fs_result, VfsError) act" where
  "vfs_call ops root c =
     (case c of
        FsCreate path ty mode \<Rightarrow> at_parent ops root path (\<lambda>v name. vn_create ops v name ty mode)
      | FsUnlink path \<Rightarrow> at_parent ops root path (vn_unlink ops)
      | FsRead path off n \<Rightarrow> at_path ops root path (\<lambda>v. vn_read ops v off n) RBytes
      | FsWrite path off buf \<Rightarrow> at_path ops root path (\<lambda>v. vn_write ops v off buf) RCount
      | FsTruncate path n \<Rightarrow> at_path ops root path (\<lambda>v. vn_truncate ops v n) (\<lambda>_. RUnit)
      | FsChmod path mode \<Rightarrow> at_path ops root path (\<lambda>v. vn_chmod ops v mode) (\<lambda>_. RUnit)
      | FsReaddir path \<Rightarrow> at_path ops root path (\<lambda>v. act_lift (vn_readdir ops v)) REntries
      | FsStat path \<Rightarrow> at_path ops root path (\<lambda>v. act_lift (vn_stat ops v)) RStat)"

fun run_calls ::
    "('s, 'v) vnode_ops \<Rightarrow> 'v \<Rightarrow> fs_call list \<Rightarrow> 's \<Rightarrow> (fs_result, VfsError) outcome list \<times> 's" where
  "run_calls ops root [] s = ([], s)"
| "run_calls ops root (c # cs) s =
     (case vfs_call ops root c s of (r, s') \<Rightarrow>
        case run_calls ops root cs s' of (rs, s'') \<Rightarrow> (r # rs, s''))"


section \<open>Simulation between file systems\<close>

text \<open>
  Two implementations of the trait whose states are related by \<open>R\<close> and, in related states, whose
  handles are related by \<open>H\<close>: every method takes related states to related states and gives related
  results. Then no sequence of calls by path tells the two apart.
\<close>

definition act_sim ::
    "('s \<Rightarrow> 't \<Rightarrow> bool) \<Rightarrow> ('s \<Rightarrow> 't \<Rightarrow> 'a \<Rightarrow> 'b \<Rightarrow> bool) \<Rightarrow> ('a, 'e) outcome \<times> 's \<Rightarrow> ('b, 'e) outcome \<times> 't \<Rightarrow> bool" where
  "act_sim R Q x y \<longleftrightarrow> R (snd x) (snd y) \<and> rel_outcome (Q (snd x) (snd y)) (=) (fst x) (fst y)"

lemma act_sim_bind:
  assumes "act_sim R Q (m s) (m' t)"
    and "\<And>x y s' t'. R s' t' \<Longrightarrow> Q s' t' x y \<Longrightarrow> act_sim R P (f x s') (f' y t')"
  shows "act_sim R P (act_bind m f s) (act_bind m' f' t)"
  using assms by (cases "m s"; cases "m' t"; cases "fst (m s)"; cases "fst (m' t)")
    (auto simp: act_sim_def act_bind_def)

lemma act_sim_lift: "R s t \<Longrightarrow> rel_outcome (Q s t) (=) (f s) (g t) \<Longrightarrow> act_sim R Q (act_lift f s) (act_lift g t)"
  by (simp add: act_sim_def)

lemma act_sim_eq: "act_sim R (\<lambda>_ _. (=)) x y \<longleftrightarrow> R (snd x) (snd y) \<and> fst x = fst y"
  by (simp add: act_sim_def outcome.rel_eq)

lemma act_sim_lift_eq: "R s t \<Longrightarrow> f s = g t \<Longrightarrow> act_sim R (\<lambda>_ _. (=)) (act_lift f s) (act_lift g t)"
  by (simp add: act_sim_eq)

lemma rel_outcome_and_then:
  "rel_outcome P (=) m m' \<Longrightarrow> (\<And>x y. P x y \<Longrightarrow> rel_outcome Q (=) (f x) (f' y)) \<Longrightarrow>
   rel_outcome Q (=) (and_then m f) (and_then m' f')"
  by (cases m; cases m') auto

lemma walk_sim:
  assumes "\<And>v w name. H v w \<Longrightarrow> rel_outcome H (=) (look v name) (look' w name)" and "H v w"
  shows "rel_outcome H (=) (walk look v cs) (walk look' w cs)"
  using assms(2)
proof (induction cs arbitrary: v w)
  case (Cons c cs)
  show ?case
  proof (cases "c = []")
    case False
    then show ?thesis using rel_outcome_and_then [OF assms(1) [OF Cons.prems] Cons.IH] by simp
  qed (use Cons in simp)
qed simp

lemma resolve_sim:
  assumes "\<And>v w name. H v w \<Longrightarrow> rel_outcome H (=) (look v name) (look' w name)" and "H v w"
  shows "rel_outcome H (=) (resolve look v path) (resolve look' w path)"
proof (cases "path = [] \<or> path = ''/''")
  case False
  have "rel_outcome H (=) (and_then (normalize path) (\<lambda>normalized. walk look v (split_on CHR ''/'' normalized)))
      (and_then (normalize path) (\<lambda>normalized. walk look' w (split_on CHR ''/'' normalized)))"
    by (rule rel_outcome_and_then [where P = "(=)"]) (auto simp: outcome.rel_eq intro!: walk_sim assms)
  then show ?thesis using False by (simp add: resolve_def)
qed (use assms(2) in \<open>auto simp: resolve_def\<close>)

lemma resolve_parent_sim:
  assumes "\<And>v w name. H v w \<Longrightarrow> rel_outcome H (=) (look v name) (look' w name)" and "H v w"
  shows "rel_outcome (\<lambda>x y. H (fst x) (fst y) \<and> snd x = snd y) (=)
    (resolve_parent look v path) (resolve_parent look' w path)"
  unfolding resolve_parent_def
proof (rule rel_outcome_and_then [where P = "(=)"])
  fix x y :: string assume "x = y"
  then show "rel_outcome (\<lambda>x y. H (fst x) (fst y) \<and> snd x = snd y) (=)
    (case path_split x of (parent_path, name) \<Rightarrow> if name = [] then Err InvalidPath
       else and_then (resolve look v parent_path) (\<lambda>parent. Ok (parent, name)))
    (case path_split y of (parent_path, name) \<Rightarrow> if name = [] then Err InvalidPath
       else and_then (resolve look' w parent_path) (\<lambda>parent. Ok (parent, name)))"
    by (auto split: prod.split intro!: rel_outcome_and_then [OF resolve_sim [of H, OF assms]])
qed (simp add: outcome.rel_eq)

locale vnode_sim =
  fixes ops :: "('s, 'v) vnode_ops" and ops' :: "('t, 'w) vnode_ops"
    and R :: "'s \<Rightarrow> 't \<Rightarrow> bool" and H :: "'s \<Rightarrow> 't \<Rightarrow> 'v \<Rightarrow> 'w \<Rightarrow> bool" and root :: 'v and root' :: 'w
  assumes root_sim: "R s t \<Longrightarrow> H s t root root'"
    and lookup_sim: "R s t \<Longrightarrow> H s t v w \<Longrightarrow> rel_outcome (H s t) (=) (vn_lookup ops v name s) (vn_lookup ops' w name t)"
    and create_sim: "R s t \<Longrightarrow> H s t v w \<Longrightarrow> act_sim R H (vn_create ops v name ty mode s) (vn_create ops' w name ty mode t)"
    and unlink_sim: "R s t \<Longrightarrow> H s t v w \<Longrightarrow> act_sim R (\<lambda>_ _. (=)) (vn_unlink ops v name s) (vn_unlink ops' w name t)"
    and read_sim: "R s t \<Longrightarrow> H s t v w \<Longrightarrow> act_sim R (\<lambda>_ _. (=)) (vn_read ops v off n s) (vn_read ops' w off n t)"
    and write_sim: "R s t \<Longrightarrow> H s t v w \<Longrightarrow> act_sim R (\<lambda>_ _. (=)) (vn_write ops v off buf s) (vn_write ops' w off buf t)"
    and truncate_sim: "R s t \<Longrightarrow> H s t v w \<Longrightarrow> act_sim R (\<lambda>_ _. (=)) (vn_truncate ops v sz s) (vn_truncate ops' w sz t)"
    and chmod_sim: "R s t \<Longrightarrow> H s t v w \<Longrightarrow> act_sim R (\<lambda>_ _. (=)) (vn_chmod ops v mode s) (vn_chmod ops' w mode t)"
    and readdir_sim: "R s t \<Longrightarrow> H s t v w \<Longrightarrow> vn_readdir ops v s = vn_readdir ops' w t"
    and stat_sim: "R s t \<Longrightarrow> H s t v w \<Longrightarrow> vn_stat ops v s = vn_stat ops' w t"
begin

lemma at_path_sim:
  assumes R: "R s t"
    and f: "\<And>s t v w. R s t \<Longrightarrow> H s t v w \<Longrightarrow> act_sim R (\<lambda>_ _. (=)) (f v s) (f' w t)"
  shows "act_sim R (\<lambda>_ _. (=)) (at_path ops root path f g s) (at_path ops' root' path f' g t)"
  unfolding at_path_def
proof (rule act_sim_bind [where Q = H])
  show "act_sim R H (act_lift (\<lambda>s. resolve (\<lambda>v name. vn_lookup ops v name s) root path) s)
      (act_lift (\<lambda>s. resolve (\<lambda>v name. vn_lookup ops' v name s) root' path) t)"
    by (rule act_sim_lift [of R s t, OF R]) (intro resolve_sim lookup_sim R root_sim; assumption)
next
  fix v w s' t' assume "R s' t'" "H s' t' v w"
  from f [OF this] show "act_sim R (\<lambda>_ _. (=)) (act_bind (f v) (\<lambda>x. act_return (g x)) s') (act_bind (f' w) (\<lambda>x. act_return (g x)) t')"
    by (rule act_sim_bind) (simp add: act_sim_eq)
qed

lemma at_parent_sim:
  assumes R: "R s t"
    and f: "\<And>s t v w name. R s t \<Longrightarrow> H s t v w \<Longrightarrow> act_sim R Q (f v name s) (f' w name t)"
  shows "act_sim R (\<lambda>_ _. (=)) (at_parent ops root path f s) (at_parent ops' root' path f' t)"
  unfolding at_parent_def
proof (rule act_sim_bind [where Q = "\<lambda>s t x y. H s t (fst x) (fst y) \<and> snd x = snd y"])
  show "act_sim R (\<lambda>s t x y. H s t (fst x) (fst y) \<and> snd x = snd y)
      (act_lift (\<lambda>s. resolve_parent (\<lambda>v name. vn_lookup ops v name s) root path) s)
      (act_lift (\<lambda>s. resolve_parent (\<lambda>v name. vn_lookup ops' v name s) root' path) t)"
    by (rule act_sim_lift [of R s t, OF R]) (intro resolve_parent_sim lookup_sim R root_sim; assumption)
next
  fix x y s' t' assume a: "R s' t'" "H s' t' (fst x) (fst y) \<and> snd x = (snd y :: string)"
  then have "act_sim R Q (f (fst x) (snd x) s') (f' (fst y) (snd y) t')" using f by simp
  then show "act_sim R (\<lambda>_ _. (=)) ((case x of (v, name) \<Rightarrow> act_bind (f v name) (\<lambda>_. act_return RUnit)) s')
      ((case y of (v, name) \<Rightarrow> act_bind (f' v name) (\<lambda>_. act_return RUnit)) t')"
    unfolding case_prod_beta by (rule act_sim_bind) (simp add: act_sim_eq)
qed

lemma call_sim: "R s t \<Longrightarrow> act_sim R (\<lambda>_ _. (=)) (vfs_call ops root c s) (vfs_call ops' root' c t)"
proof (cases c)
  case (FsCreate path ty mode)
  assume "R s t"
  then show ?thesis unfolding FsCreate vfs_call_def fs_call.case by (rule at_parent_sim) (rule create_sim)
next
  case (FsUnlink path)
  assume "R s t"
  then show ?thesis unfolding FsUnlink vfs_call_def fs_call.case by (rule at_parent_sim) (rule unlink_sim)
qed (simp_all add: vfs_call_def at_path_sim read_sim write_sim truncate_sim chmod_sim readdir_sim stat_sim act_sim_lift_eq del: act_lift_run)

lemma run_sim:
  "R s t \<Longrightarrow> fst (run_calls ops root cs s) = fst (run_calls ops' root' cs t) \<and>
     R (snd (run_calls ops root cs s)) (snd (run_calls ops' root' cs t))"
proof (induction cs arbitrary: s t)
  case (Cons c cs)
  from call_sim [OF Cons.prems, of c] Cons.IH show ?case by (auto simp: act_sim_eq case_prod_beta)
qed simp

end

end
