(* ===== verification/Ram_Fs.thy ===== *)
theory Ram_Fs
  imports Vnode
begin

text \<open>
  The memory file system of \<open>src/fs/ramfs/mod.rs\<close>. Its objects live in a heap, a list of nodes whose
  index is the handle; \<open>Arc::new\<close> appends a node, and a directory holds the handles of its children.
  The main result is a refinement: every history of calls by path behaves as a tree that maps paths
  to nodes. Running out of memory is not modelled; a \<open>Vec\<close> that would exceed \<open>isize::MAX\<close> bytes panics.
\<close>

section \<open>Objects\<close>

record RamFsDir =
  rdir_name :: string
  rdir_mode :: FileMode
  rdir_children :: "(string \<times> nat) list"

record RamFsFile =
  rfile_name :: string
  rfile_mode :: FileMode
  rfile_data :: bytes

record RamFsSymlink =
  rlink_name :: string
  rlink_target :: string
  rlink_mode :: FileMode

datatype RamNode = RamDir RamFsDir | RamFile RamFsFile | RamSymlink RamFsSymlink

type_synonym ram_heap = "RamNode list"

record RamFs =
  ramfs_root :: nat
  ramfs_next_inode :: u64

definition RamFsDir_new :: "string \<Rightarrow> FileMode \<Rightarrow> RamFsDir" where
  "RamFsDir_new name mode = \<lparr>rdir_name = name, rdir_mode = mode, rdir_children = []\<rparr>"

definition RamFsFile_new :: "string \<Rightarrow> FileMode \<Rightarrow> RamFsFile" where
  "RamFsFile_new name mode = \<lparr>rfile_name = name, rfile_mode = mode, rfile_data = []\<rparr>"

definition RamFsSymlink_new :: "string \<Rightarrow> string \<Rightarrow> RamFsSymlink" where
  "RamFsSymlink_new name target = \<lparr>rlink_name = name, rlink_target = target, rlink_mode = FileMode_new 0x1FF\<rparr>"

definition node_type :: "RamNode \<Rightarrow> VNodeType" where
  "node_type nd = (case nd of RamDir _ \<Rightarrow> VDirectory | RamFile _ \<Rightarrow> VFile | RamSymlink _ \<Rightarrow> VSymlink)"

definition RamFs_new :: "ram_heap \<Rightarrow> RamFs \<times> ram_heap" where
  "RamFs_new h = (\<lparr>ramfs_root = length h, ramfs_next_inode = 2\<rparr>, h @ [RamDir (RamFsDir_new ''/'' default_dir)])"

definition alloc_inode :: "RamFs \<Rightarrow> u64 \<times> RamFs" where
  "alloc_inode fs = (ramfs_next_inode fs, fs\<lparr>ramfs_next_inode := ramfs_next_inode fs + 1\<rparr>)"

definition RamFs_statfs :: "RamFs \<Rightarrow> (FsStats, VfsError) outcome" where
  "RamFs_statfs fs = Ok \<lparr>fs_type_name = ''ramfs'', fs_block_size = 4096, fs_total_blocks = 0, fs_free_blocks = - 1,
     fs_total_inodes = 0, fs_free_inodes = - 1\<rparr>"


section \<open>Directories\<close>

definition RamFsDir_lookup :: "RamFsDir \<Rightarrow> string \<Rightarrow> (nat, VfsError) outcome" where
  "RamFsDir_lookup d name = ok_or NotFound (map_option snd (find (\<lambda>(child_name, _). child_name = name) (rdir_children d)))"

definition RamFsDir_create ::
    "nat \<Rightarrow> RamFsDir \<Rightarrow> string \<Rightarrow> VNodeType \<Rightarrow> FileMode \<Rightarrow> (ram_heap, nat, VfsError) act" where
  "RamFsDir_create a d name ty mode h =
     (if name = [] \<or> CHR ''/'' \<in> set name then (Err InvalidArgument, h)
      else if \<exists>(child_name, _) \<in> set (rdir_children d). child_name = name then (Err AlreadyExists, h)
      else
        let push = (\<lambda>nd. (Ok (length h), h[a := RamDir (d\<lparr>rdir_children := rdir_children d @ [(name, length h)]\<rparr>)] @ [nd]))
        in case ty of
             VFile \<Rightarrow> push (RamFile (RamFsFile_new name mode))
           | VDirectory \<Rightarrow> push (RamDir (RamFsDir_new name mode))
           | _ \<Rightarrow> (Err NotSupported, h))"

definition RamFsDir_readdir :: "ram_heap \<Rightarrow> RamFsDir \<Rightarrow> (VDirEntry list, VfsError) outcome" where
  "RamFsDir_readdir h d = Ok (map (\<lambda>(name, b). \<lparr>vde_name = name, vde_type = node_type (h ! b)\<rparr>) (rdir_children d))"

text \<open>\<open>node.readdir()\<close> through the trait: other nodes have the default method.\<close>

definition node_readdir :: "ram_heap \<Rightarrow> RamNode \<Rightarrow> (VDirEntry list, VfsError) outcome" where
  "node_readdir h nd = (case nd of RamDir d \<Rightarrow> RamFsDir_readdir h d | _ \<Rightarrow> Err NotADirectory)"

definition RamFsDir_unlink :: "nat \<Rightarrow> RamFsDir \<Rightarrow> string \<Rightarrow> (ram_heap, unit, VfsError) act" where
  "RamFsDir_unlink a d name h =
     (case position (\<lambda>(n, _). n = name) (rdir_children d) of
        None \<Rightarrow> (Err NotFound, h)
      | Some index \<Rightarrow>
          let nd = h ! snd (rdir_children d ! index)
          in if node_type nd = VDirectory \<and> (case node_readdir h nd of Ok entries \<Rightarrow> entries \<noteq> [] | _ \<Rightarrow> False)
             then (Err DirectoryNotEmpty, h)
             else (Ok (), h[a := RamDir (d\<lparr>rdir_children := vec_remove index (rdir_children d)\<rparr>)]))"

definition RamFsDir_stat :: "RamFsDir \<Rightarrow> Stat" where
  "RamFsDir_stat d = Stat_default\<lparr>stat_node_type := VDirectory, stat_mode := rdir_mode d,
     stat_size := of_nat (length (rdir_children d)), stat_nlink := 2\<rparr>"


section \<open>Files\<close>

definition RamFsFile_read :: "RamFsFile \<Rightarrow> nat \<Rightarrow> nat \<Rightarrow> (bytes, VfsError) outcome" where
  "RamFsFile_read f offset buf_len =
     (if offset \<ge> length (rfile_data f) then Ok []
      else
        let available = length (rfile_data f) - offset; to_read = min buf_len available
        in slice_get (rfile_data f) offset to_read)"

text \<open>\<open>resize\<close>: a capacity above \<open>isize::MAX\<close> panics.\<close>

definition data_resize :: "bytes \<Rightarrow> nat \<Rightarrow> (bytes, VfsError) outcome" where
  "data_resize xs n = (if n > isize_max then Panic else Ok (vec_resize xs n 0))"

text \<open>
  The end of the range is computed at 64 bits; a range that ends before it starts panics, and so does
  a copy between slices of different lengths.
\<close>

definition RamFsFile_write :: "RamFsFile \<Rightarrow> nat \<Rightarrow> bytes \<Rightarrow> (RamFsFile \<times> nat, VfsError) outcome" where
  "RamFsFile_write f offset buf =
     (let required_size = (offset + length buf) mod 2 ^ 64
      in and_then (if required_size > length (rfile_data f) then data_resize (rfile_data f) required_size else Ok (rfile_data f))
           (\<lambda>data. if offset > required_size \<or> required_size > length data \<or> required_size - offset \<noteq> length buf then Panic
                   else Ok (f\<lparr>rfile_data := overwrite data offset buf\<rparr>, length buf)))"

definition RamFsFile_truncate :: "RamFsFile \<Rightarrow> u64 \<Rightarrow> (RamFsFile, VfsError) outcome" where
  "RamFsFile_truncate f sz = map_ok (\<lambda>data. f\<lparr>rfile_data := data\<rparr>) (data_resize (rfile_data f) (unat sz))"

definition RamFsFile_stat :: "RamFsFile \<Rightarrow> Stat" where
  "RamFsFile_stat f = Stat_default\<lparr>stat_node_type := VFile, stat_mode := rfile_mode f,
     stat_size := of_nat (length (rfile_data f)), stat_nlink := 1,
     stat_blocks := of_nat ((length (rfile_data f) + 511) div 512)\<rparr>"

definition RamFsSymlink_stat :: "RamFsSymlink \<Rightarrow> Stat" where
  "RamFsSymlink_stat l = Stat_default\<lparr>stat_node_type := VSymlink, stat_mode := rlink_mode l,
     stat_size := of_nat (length (rlink_target l)), stat_nlink := 1\<rparr>"


section \<open>The methods by handle\<close>

text \<open>The dispatch of the trait: a method that a type does not implement is the default.\<close>

definition ram_stat :: "nat \<Rightarrow> ram_heap \<Rightarrow> (Stat, VfsError) outcome" where
  "ram_stat a h = Ok (case h ! a of RamDir d \<Rightarrow> RamFsDir_stat d | RamFile f \<Rightarrow> RamFsFile_stat f | RamSymlink l \<Rightarrow> RamFsSymlink_stat l)"

definition ram_read :: "nat \<Rightarrow> nat \<Rightarrow> nat \<Rightarrow> (ram_heap, bytes, VfsError) act" where
  "ram_read a offset len h = (case h ! a of RamFile f \<Rightarrow> RamFsFile_read f offset len | _ \<Rightarrow> Err NotSupported, h)"

definition ram_write :: "nat \<Rightarrow> nat \<Rightarrow> bytes \<Rightarrow> (ram_heap, nat, VfsError) act" where
  "ram_write a offset buf h =
     (case h ! a of
        RamFile f \<Rightarrow>
          (case RamFsFile_write f offset buf of
             Ok (f', n) \<Rightarrow> (Ok n, h[a := RamFile f'])
           | Err e \<Rightarrow> (Err e, h)
           | Panic \<Rightarrow> (Panic, h))
      | _ \<Rightarrow> (Err NotSupported, h))"

definition ram_truncate :: "nat \<Rightarrow> u64 \<Rightarrow> (ram_heap, unit, VfsError) act" where
  "ram_truncate a sz h =
     (case h ! a of
        RamFile f \<Rightarrow>
          (case RamFsFile_truncate f sz of
             Ok f' \<Rightarrow> (Ok (), h[a := RamFile f'])
           | Err e \<Rightarrow> (Err e, h)
           | Panic \<Rightarrow> (Panic, h))
      | _ \<Rightarrow> (Err NotSupported, h))"

definition ram_lookup :: "nat \<Rightarrow> string \<Rightarrow> ram_heap \<Rightarrow> (nat, VfsError) outcome" where
  "ram_lookup a name h = (case h ! a of RamDir d \<Rightarrow> RamFsDir_lookup d name | _ \<Rightarrow> Err NotADirectory)"

definition ram_create :: "nat \<Rightarrow> string \<Rightarrow> VNodeType \<Rightarrow> FileMode \<Rightarrow> (ram_heap, nat, VfsError) act" where
  "ram_create a name ty mode h =
     (case h ! a of RamDir d \<Rightarrow> RamFsDir_create a d name ty mode h | _ \<Rightarrow> (Err NotADirectory, h))"

definition ram_unlink :: "nat \<Rightarrow> string \<Rightarrow> (ram_heap, unit, VfsError) act" where
  "ram_unlink a name h = (case h ! a of RamDir d \<Rightarrow> RamFsDir_unlink a d name h | _ \<Rightarrow> (Err NotADirectory, h))"

definition ram_chmod :: "nat \<Rightarrow> FileMode \<Rightarrow> (ram_heap, unit, VfsError) act" where
  "ram_chmod a mode h =
     (case h ! a of
        RamDir d \<Rightarrow> (Ok (), h[a := RamDir (d\<lparr>rdir_mode := mode\<rparr>)])
      | RamFile f \<Rightarrow> (Ok (), h[a := RamFile (f\<lparr>rfile_mode := mode\<rparr>)])
      | RamSymlink l \<Rightarrow> (Err NotSupported, h))"

definition ram_readlink :: "nat \<Rightarrow> ram_heap \<Rightarrow> (string, VfsError) outcome" where
  "ram_readlink a h = (case h ! a of RamSymlink l \<Rightarrow> Ok (rlink_target l) | _ \<Rightarrow> Err InvalidArgument)"

definition ram_ops :: "(ram_heap, nat) vnode_ops" where
  "ram_ops = (VNode_default (\<lambda>a h. node_type (h ! a)) ram_stat)
     \<lparr>vn_read := ram_read, vn_write := ram_write, vn_truncate := ram_truncate, vn_lookup := ram_lookup,
      vn_create := ram_create, vn_unlink := ram_unlink, vn_readdir := (\<lambda>a h. node_readdir h (h ! a)),
      vn_chmod := ram_chmod, vn_readlink := ram_readlink\<rparr>"

section \<open>The specification: a tree of paths\<close>

text \<open>
  A file system is a map from paths (lists of names) to nodes; a handle is a path. A directory lists
  the names of its entries in the order they were created.
\<close>

datatype tree_node = TDir FileMode "string list" | TFile FileMode bytes

type_synonym tree = "string list \<Rightarrow> tree_node option"

definition tree_type :: "tree_node \<Rightarrow> VNodeType" where
  "tree_type nd = (case nd of TDir _ _ \<Rightarrow> VDirectory | TFile _ _ \<Rightarrow> VFile)"

definition tree_empty :: tree where
  "tree_empty = [[] \<mapsto> TDir default_dir []]"

definition tree_lookup :: "string list \<Rightarrow> string \<Rightarrow> tree \<Rightarrow> (string list, VfsError) outcome" where
  "tree_lookup p name t =
     (case t p of
        Some (TDir _ names) \<Rightarrow> if name \<in> set names then Ok (p @ [name]) else Err NotFound
      | _ \<Rightarrow> Err NotADirectory)"

definition tree_create :: "string list \<Rightarrow> string \<Rightarrow> VNodeType \<Rightarrow> FileMode \<Rightarrow> (tree, string list, VfsError) act" where
  "tree_create p name ty mode t =
     (case t p of
        Some (TDir m names) \<Rightarrow>
          if name = [] \<or> CHR ''/'' \<in> set name then (Err InvalidArgument, t)
          else if name \<in> set names then (Err AlreadyExists, t)
          else (case ty of
                  VFile \<Rightarrow> (Ok (p @ [name]), t(p \<mapsto> TDir m (names @ [name]), p @ [name] \<mapsto> TFile mode []))
                | VDirectory \<Rightarrow> (Ok (p @ [name]), t(p \<mapsto> TDir m (names @ [name]), p @ [name] \<mapsto> TDir mode []))
                | _ \<Rightarrow> (Err NotSupported, t))
      | _ \<Rightarrow> (Err NotADirectory, t))"

definition tree_unlink :: "string list \<Rightarrow> string \<Rightarrow> (tree, unit, VfsError) act" where
  "tree_unlink p name t =
     (case t p of
        Some (TDir m names) \<Rightarrow>
          if name \<notin> set names then (Err NotFound, t)
          else
            (case t (p @ [name]) of
               Some (TDir _ (_ # _)) \<Rightarrow> (Err DirectoryNotEmpty, t)
             | _ \<Rightarrow> (Ok (), t(p \<mapsto> TDir m (remove1 name names), p @ [name] := None)))
      | _ \<Rightarrow> (Err NotADirectory, t))"

definition tree_read :: "string list \<Rightarrow> nat \<Rightarrow> nat \<Rightarrow> (tree, bytes, VfsError) act" where
  "tree_read p off n t = (case t p of Some (TFile mode xs) \<Rightarrow> Ok (take n (drop off xs)) | _ \<Rightarrow> Err NotSupported, t)"

definition tree_write :: "string list \<Rightarrow> nat \<Rightarrow> bytes \<Rightarrow> (tree, nat, VfsError) act" where
  "tree_write p off buf t =
     (case t p of
        Some (TFile mode xs) \<Rightarrow>
          if off + length buf > isize_max then (Panic, t)
          else (Ok (length buf), t(p \<mapsto> TFile mode (write_at xs off buf)))
      | _ \<Rightarrow> (Err NotSupported, t))"

definition tree_truncate :: "string list \<Rightarrow> u64 \<Rightarrow> (tree, unit, VfsError) act" where
  "tree_truncate p n t =
     (case t p of
        Some (TFile mode xs) \<Rightarrow>
          if unat n > isize_max then (Panic, t) else (Ok (), t(p \<mapsto> TFile mode (vec_resize xs (unat n) 0)))
      | _ \<Rightarrow> (Err NotSupported, t))"

definition tree_chmod :: "string list \<Rightarrow> FileMode \<Rightarrow> (tree, unit, VfsError) act" where
  "tree_chmod p mode t =
     (case t p of
        Some (TDir _ names) \<Rightarrow> (Ok (), t(p \<mapsto> TDir mode names))
      | Some (TFile _ xs) \<Rightarrow> (Ok (), t(p \<mapsto> TFile mode xs))
      | None \<Rightarrow> (Err NotSupported, t))"

definition tree_readdir :: "string list \<Rightarrow> tree \<Rightarrow> (VDirEntry list, VfsError) outcome" where
  "tree_readdir p t =
     (case t p of
        Some (TDir _ names) \<Rightarrow> Ok (map (\<lambda>name. \<lparr>vde_name = name, vde_type = tree_type (the (t (p @ [name])))\<rparr>) names)
      | _ \<Rightarrow> Err NotADirectory)"

definition tree_stat :: "string list \<Rightarrow> tree \<Rightarrow> (Stat, VfsError) outcome" where
  "tree_stat p t = Ok (case t p of
     Some (TDir mode names) \<Rightarrow>
       Stat_default\<lparr>stat_node_type := VDirectory, stat_mode := mode, stat_size := of_nat (length names), stat_nlink := 2\<rparr>
   | Some (TFile mode xs) \<Rightarrow>
       Stat_default\<lparr>stat_node_type := VFile, stat_mode := mode, stat_size := of_nat (length xs), stat_nlink := 1,
         stat_blocks := of_nat ((length xs + 511) div 512)\<rparr>
   | None \<Rightarrow> Stat_default)"

definition tree_ops :: "(tree, string list) vnode_ops" where
  "tree_ops = (VNode_default (\<lambda>p t. tree_type (the (t p))) tree_stat)
     \<lparr>vn_read := tree_read, vn_write := tree_write, vn_truncate := tree_truncate, vn_lookup := tree_lookup,
      vn_create := tree_create, vn_unlink := tree_unlink, vn_readdir := tree_readdir, vn_chmod := tree_chmod\<rparr>"


section \<open>Well-formed heaps\<close>

text \<open>
  The children of a directory have distinct, non-empty names without a slash and were allocated after
  the directory; no node is the child of two directories or of one directory twice; there are no
  symbolic links, because nothing in the kernel makes one; and files fit in memory.
\<close>

definition ram_edge :: "ram_heap \<Rightarrow> nat \<Rightarrow> string \<Rightarrow> nat \<Rightarrow> bool" where
  "ram_edge h a name b \<longleftrightarrow> a < length h \<and> (\<exists>d. h ! a = RamDir d \<and> (name, b) \<in> set (rdir_children d))"

definition node_wf :: "RamNode \<Rightarrow> bool" where
  "node_wf nd = (case nd of
     RamDir d \<Rightarrow> distinct (map fst (rdir_children d))
   | RamFile f \<Rightarrow> length (rfile_data f) \<le> isize_max
   | RamSymlink _ \<Rightarrow> False)"

definition ram_wf :: "ram_heap \<Rightarrow> bool" where
  "ram_wf h \<longleftrightarrow> h \<noteq> [] \<and> (\<forall>nd \<in> set h. node_wf nd) \<and>
     (\<forall>a name b. ram_edge h a name b \<longrightarrow> a < b \<and> b < length h) \<and>
     (\<forall>a a' name name' b. ram_edge h a name b \<longrightarrow> ram_edge h a' name' b \<longrightarrow> a = a' \<and> name = name')"

lemma ram_wfD:
  assumes "ram_wf h"
  shows "h \<noteq> []" "a < length h \<Longrightarrow> node_wf (h ! a)" "ram_edge h a name b \<Longrightarrow> a < b" "ram_edge h a name b \<Longrightarrow> b < length h"
    "ram_edge h a name b \<Longrightarrow> ram_edge h a' name' b \<Longrightarrow> a = a'" "ram_edge h a name b \<Longrightarrow> ram_edge h a' name' b \<Longrightarrow> name = name'"
  using assms unfolding ram_wf_def by (blast | metis nth_mem)+

lemma ram_wfI:
  assumes "h \<noteq> []" "\<And>nd. nd \<in> set h \<Longrightarrow> node_wf nd" "\<And>a name b. ram_edge h a name b \<Longrightarrow> a < b \<and> b < length h"
    "\<And>a a' name name' b. ram_edge h a name b \<Longrightarrow> ram_edge h a' name' b \<Longrightarrow> a = a' \<and> name = name'"
  shows "ram_wf h"
  using assms unfolding ram_wf_def by blast

text \<open>The node a path leads to, from the root, and the tree a heap stands for.\<close>

fun reach :: "ram_heap \<Rightarrow> nat \<Rightarrow> string list \<Rightarrow> nat option" where
  "reach h a [] = Some a"
| "reach h a (name # p) = (case ram_lookup a name h of Ok b \<Rightarrow> reach h b p | _ \<Rightarrow> None)"

definition node_view :: "RamNode \<Rightarrow> tree_node" where
  "node_view nd = (case nd of
     RamDir d \<Rightarrow> TDir (rdir_mode d) (map fst (rdir_children d))
   | RamFile f \<Rightarrow> TFile (rfile_mode f) (rfile_data f)
   | RamSymlink l \<Rightarrow> TFile (rlink_mode l) [])"

definition ram_tree :: "ram_heap \<Rightarrow> tree" where
  "ram_tree h p = map_option (\<lambda>a. node_view (h ! a)) (reach h 0 p)"

lemma node_view_dir [simp]: "node_view (RamDir d) = TDir (rdir_mode d) (map fst (rdir_children d))"
  and node_view_file [simp]: "node_view (RamFile f) = TFile (rfile_mode f) (rfile_data f)"
  by (simp_all add: node_view_def)

lemma reach_snoc:
  "reach h a (p @ [name]) = (case reach h a p of Some b \<Rightarrow> (case ram_lookup b name h of Ok c \<Rightarrow> Some c | _ \<Rightarrow> None) | None \<Rightarrow> None)"
  by (induction p arbitrary: a) (auto split: outcome.splits)

lemma ram_lookup_edge:
  assumes "ram_wf h" "a < length h"
  shows "ram_lookup a name h = Ok b \<longleftrightarrow> ram_edge h a name b"
proof (cases "h ! a")
  case (RamDir d)
  have "distinct (map fst (rdir_children d))" using ram_wfD(2) [OF assms] RamDir by (simp add: node_wf_def)
  then show ?thesis
    using RamDir assms(2) by (simp add: ram_lookup_def RamFsDir_lookup_def ram_edge_def find_map_of)
qed (simp_all add: ram_lookup_def ram_edge_def)

lemma reach_snoc_Some:
  "reach h a (p @ [name]) = Some c \<longleftrightarrow> (\<exists>b. reach h a p = Some b \<and> ram_lookup b name h = Ok c)"
  by (simp add: reach_snoc split: option.splits outcome.splits)

lemma reach_bound: "ram_wf h \<Longrightarrow> reach h 0 p = Some a \<Longrightarrow> a < length h"
proof (induction p arbitrary: a rule: rev_induct)
  case (snoc n p)
  then obtain b where b: "reach h 0 p = Some b" "ram_lookup b n h = Ok a" unfolding reach_snoc_Some by blast
  then show ?case using ram_lookup_edge [of h b n a] ram_wfD(4) [of h b n a] snoc.IH snoc.prems(1) by simp
qed (simp add: ram_wf_def)

lemma reach_edge:
  assumes wf: "ram_wf h"
  shows "reach h 0 (p @ [name]) = Some b \<longleftrightarrow> (\<exists>a. reach h 0 p = Some a \<and> ram_edge h a name b)"
  unfolding reach_snoc_Some using ram_lookup_edge [OF wf] reach_bound [OF wf] by blast

lemma reach_inj: "ram_wf h \<Longrightarrow> reach h 0 p = Some a \<Longrightarrow> reach h 0 q = Some a \<Longrightarrow> p = q"
proof (induction p arbitrary: q a rule: rev_induct)
  case Nil
  then show ?case using reach_edge ram_wfD(3) by (cases q rule: rev_cases) force+
next
  case (snoc n p)
  then obtain b where b: "reach h 0 p = Some b" "ram_edge h b n a" using reach_edge by blast
  show ?case
  proof (cases q rule: rev_cases)
    case Nil
    then show ?thesis using snoc.prems b ram_wfD(3) by force
  next
    case (snoc r m)
    then obtain c where "reach h 0 r = Some c" "ram_edge h c m a" using snoc.prems reach_edge by blast
    then show ?thesis using b snoc.IH snoc ram_wfD(5,6) snoc.prems(1) by metis
  qed
qed

text \<open>The edges of the heap only depend on the children lists.\<close>

definition kids :: "RamNode \<Rightarrow> (string \<times> nat) list option" where
  "kids nd = (case nd of RamDir d \<Rightarrow> Some (rdir_children d) | _ \<Rightarrow> None)"

lemma kids_simps [simp]: "kids (RamDir d) = Some (rdir_children d)" "kids (RamFile f) = None"
  by (simp_all add: kids_def)

lemma ram_lookup_kids:
  "ram_lookup a name h = (case kids (h ! a) of Some cs \<Rightarrow> ok_or NotFound (map_of cs name) | None \<Rightarrow> Err NotADirectory)"
  by (simp add: ram_lookup_def RamFsDir_lookup_def kids_def find_map_of split: RamNode.split)

lemma ram_edge_kids: "ram_edge h a name b \<longleftrightarrow> a < length h \<and> (\<exists>cs. kids (h ! a) = Some cs \<and> (name, b) \<in> set cs)"
  by (auto simp: ram_edge_def kids_def split: RamNode.splits)

lemma ram_treeI:
  assumes "\<And>q. reach h' 0 q = f q" and "\<And>q. map_option (\<lambda>a. node_view (h' ! a)) (f q) = t q"
  shows "ram_tree h' = t"
  by (rule ext) (simp add: ram_tree_def assms)

text \<open>A node is changed, its children are not.\<close>

lemma ram_update_same:
  assumes wf: "ram_wf h" and p: "reach h 0 p = Some a" and nd: "node_wf nd" "kids nd = kids (h ! a)"
  shows "ram_wf (h[a := nd])" "reach (h[a := nd]) 0 q = reach h 0 q" "ram_tree (h[a := nd]) = (ram_tree h)(p \<mapsto> node_view nd)"
proof -
  have a: "a < length h" by (rule reach_bound [OF wf p])
  have kids: "kids (h[a := nd] ! x) = kids (h ! x)" for x
    using nd(2) a by (cases "x = a") simp_all
  have edge: "ram_edge (h[a := nd]) = ram_edge h" by (intro ext) (simp add: ram_edge_kids kids)
  show "ram_wf (h[a := nd])" using wf nd(1) set_update_subset_insert [of h a nd] unfolding ram_wf_def edge by auto
  have reach: "reach (h[a := nd]) x q = reach h x q" for x q
    by (induction q arbitrary: x) (simp_all add: ram_lookup_kids kids split: option.split outcome.split)
  then show "reach (h[a := nd]) 0 q = reach h 0 q" .
  show "ram_tree (h[a := nd]) = (ram_tree h)(p \<mapsto> node_view nd)"
  proof (rule ram_treeI [OF reach])
    fix q
    have "q = p \<longleftrightarrow> reach h 0 q = Some a" using p reach_inj [OF wf p, of q] by metis
    then show "map_option (\<lambda>x. node_view (h[a := nd] ! x)) (reach h 0 q) = ((ram_tree h)(p \<mapsto> node_view nd)) q"
      using a by (cases "reach h 0 q") (auto simp: ram_tree_def)
  qed
qed

text \<open>A new node without children is added to a directory.\<close>

lemma ram_update_add:
  assumes wf: "ram_wf h" and p: "reach h 0 p = Some a" and cs: "kids (h ! a) = Some cs" "name \<notin> fst ` set cs"
    and nd: "node_wf nd" "kids nd = Some (cs @ [(name, length h)])" and new: "node_wf new" "kids new \<in> {None, Some []}"
  defines "h' \<equiv> h[a := nd] @ [new]"
  shows "ram_wf h'" "reach h' 0 q = (if q = p @ [name] then Some (length h) else reach h 0 q)"
    "ram_tree h' = (ram_tree h)(p \<mapsto> node_view nd, p @ [name] \<mapsto> node_view new)"
proof -
  have a: "a < length h" by (rule reach_bound [OF wf p])
  have len: "length h' = Suc (length h)" by (simp add: h'_def)
  have kids: "kids (h' ! x) = (if x = a then Some (cs @ [(name, length h)]) else if x = length h then kids new else kids (h ! x))"
    if "x \<le> length h" for x
    using nd(2) a that by (auto simp: h'_def nth_append)
  have edge: "ram_edge h' x n y \<longleftrightarrow> ram_edge h x n y \<or> x = a \<and> n = name \<and> y = length h" for x n y
  proof -
    consider "x = a" | "x = length h" | "x \<noteq> a" "x < length h" | "x > length h" by linarith
    then show ?thesis
    proof cases
      case 1
      then show ?thesis using a cs(1) kids [of a] by (auto simp: ram_edge_kids len)
    next
      case 2
      then show ?thesis using a new(2) kids [of x] by (auto simp: ram_edge_kids len)
    next
      case 3
      then show ?thesis using kids [of x] by (simp add: ram_edge_kids len)
    qed (use a in \<open>simp add: ram_edge_kids len\<close>)
  qed
  have none: "map_of cs name = None" using cs(2) by (simp add: map_of_eq_None_iff)
  have old: "x < y" "y < length h" if "ram_edge h x n y" for x n y
    using ram_wfD(3,4) [OF wf that] by simp_all
  show wf': "ram_wf h'"
  proof (rule ram_wfI)
    show "h' \<noteq> []" by (simp add: h'_def)
    show "node_wf x" if "x \<in> set h'" for x
      using that wf nd(1) new(1) set_update_subset_insert [of h a nd] by (auto simp: h'_def ram_wf_def)
    show "x < y \<and> y < length h'" if "ram_edge h' x n y" for x n y
      using that old [of x n y] a unfolding edge len by auto
    show "x = x' \<and> n = n'" if "ram_edge h' x n y" "ram_edge h' x' n' y" for x x' n n' y
      using that old [of x n y] old [of x' n' y] ram_wfD(5,6) [OF wf] unfolding edge by (metis less_irrefl)
  qed
  show reach: "reach h' 0 q = (if q = p @ [name] then Some (length h) else reach h 0 q)" for q
  proof (induction q rule: rev_induct)
    case (snoc n q)
    have "reach h' 0 (q @ [n]) = Some b \<longleftrightarrow> (if q @ [n] = p @ [name] then Some (length h) else reach h 0 (q @ [n])) = Some b" for b
    proof (cases "q = p @ [name]")
      case True
      have "\<not> ram_edge h' (length h) n b" "reach h 0 q = None"
        using old [of "length h" n b] a edge True cs(1) none p by (auto simp: reach_snoc ram_lookup_kids)
      moreover have "reach h' 0 q = Some (length h)" "q @ [n] \<noteq> p @ [name]" using snoc True by simp_all
      ultimately show ?thesis using reach_edge [OF wf, of q n b] reach_edge [OF wf', of q n b] by auto
    next
      case False
      then have q: "reach h' 0 q = reach h 0 q" using snoc by simp
      have qa: "reach h 0 q = Some a \<longleftrightarrow> q = p" using p reach_inj [OF wf p, of q] by metis
      have "reach h' 0 (q @ [n]) = Some b \<longleftrightarrow> reach h 0 (q @ [n]) = Some b \<or> q = p \<and> n = name \<and> b = length h"
        unfolding reach_edge [OF wf'] reach_edge [OF wf] q edge using qa by blast
      moreover have "reach h 0 (p @ [name]) = None" using p cs(1) none by (simp add: reach_snoc ram_lookup_kids)
      ultimately show ?thesis by (cases "q = p \<and> n = name") auto
    qed
    then show ?case by (metis not_Some_eq)
  qed simp
  show "ram_tree h' = (ram_tree h)(p \<mapsto> node_view nd, p @ [name] \<mapsto> node_view new)"
  proof (rule ram_treeI [OF reach])
    fix q
    have qa: "reach h 0 q = Some a \<longleftrightarrow> q = p" using p reach_inj [OF wf p, of q] by metis
    show "map_option (\<lambda>x. node_view (h' ! x)) (if q = p @ [name] then Some (length h) else reach h 0 q) =
        ((ram_tree h)(p \<mapsto> node_view nd, p @ [name] \<mapsto> node_view new)) q"
    proof (cases "q = p @ [name]")
      case False
      then show ?thesis
        using a qa reach_bound [OF wf, of q] by (cases "reach h 0 q") (auto simp: ram_tree_def h'_def nth_append nth_list_update)
    qed (simp add: h'_def nth_append)
  qed
qed

text \<open>An entry whose node has no children is removed from a directory.\<close>

lemma ram_update_remove:
  assumes wf: "ram_wf h" and p: "reach h 0 p = Some a" and cs: "kids (h ! a) = Some cs" "map_of cs name = Some c"
    and c: "kids (h ! c) \<in> {None, Some []}"
    and nd: "node_wf nd" "kids nd = Some cs'" "set cs' = {x \<in> set cs. fst x \<noteq> name}"
  defines "h' \<equiv> h[a := nd]"
  shows "ram_wf h'" "ram_tree h' = (ram_tree h)(p \<mapsto> node_view nd, p @ [name] := None)"
proof -
  have a: "a < length h" by (rule reach_bound [OF wf p])
  have kids: "kids (h' ! x) = (if x = a then Some cs' else kids (h ! x))" for x
    using nd(2) a by (cases "x = a") (simp_all add: h'_def)
  have edge: "ram_edge h' x n y \<longleftrightarrow> ram_edge h x n y \<and> (x, n) \<noteq> (a, name)" for x n y
    unfolding ram_edge_kids kids using a cs(1) nd(3) by (cases "x = a") (auto simp: h'_def)
  show wf': "ram_wf h'"
  proof (rule ram_wfI)
    show "h' \<noteq> []" using a by (auto simp: h'_def)
    show "node_wf x" if "x \<in> set h'" for x
      using that wf nd(1) set_update_subset_insert [of h a nd] by (auto simp: h'_def ram_wf_def)
    show "x < y \<and> y < length h'" if "ram_edge h' x n y" for x n y
      using that ram_wfD(3,4) [OF wf, of x n y] unfolding edge by (simp add: h'_def)
    show "x = x' \<and> n = n'" if "ram_edge h' x n y" "ram_edge h' x' n' y" for x x' n n' y
      using that ram_wfD(5,6) [OF wf] unfolding edge by blast
  qed
  have at: "reach h 0 (p @ [name]) = Some c" using p cs by (simp add: reach_snoc ram_lookup_kids)
  have reach: "reach h' 0 q = (if q = p @ [name] then None else reach h 0 q)" for q
  proof (induction q rule: rev_induct)
    case (snoc n q)
    have "reach h' 0 (q @ [n]) = Some b \<longleftrightarrow> (if q @ [n] = p @ [name] then None else reach h 0 (q @ [n])) = Some b" for b
    proof (cases "q = p @ [name]")
      case True
      have "\<not> ram_edge h c n b" using c by (auto simp: ram_edge_kids)
      moreover have "reach h' 0 q = None" "reach h 0 q = Some c" "q @ [n] \<noteq> p @ [name]" using snoc True at by simp_all
      ultimately show ?thesis using reach_edge [OF wf, of q n b] reach_edge [OF wf', of q n b] by auto
    next
      case False
      then have q: "reach h' 0 q = reach h 0 q" using snoc by simp
      have qa: "reach h 0 q = Some a \<longleftrightarrow> q = p" using p reach_inj [OF wf p, of q] by metis
      have "reach h' 0 (q @ [n]) = Some b \<longleftrightarrow> reach h 0 (q @ [n]) = Some b \<and> (q, n) \<noteq> (p, name)"
        unfolding reach_edge [OF wf'] reach_edge [OF wf] q edge using qa by auto
      then show ?thesis by simp
    qed
    then show ?case by (metis not_Some_eq)
  qed simp
  show "ram_tree h' = (ram_tree h)(p \<mapsto> node_view nd, p @ [name] := None)"
  proof (rule ram_treeI [OF reach])
    fix q
    have qa: "reach h 0 q = Some a \<longleftrightarrow> q = p" using p reach_inj [OF wf p, of q] by metis
    show "map_option (\<lambda>x. node_view (h' ! x)) (if q = p @ [name] then None else reach h 0 q) =
        ((ram_tree h)(p \<mapsto> node_view nd, p @ [name] := None)) q"
      using a qa by (cases "reach h 0 q") (auto simp: ram_tree_def h'_def nth_list_update)
  qed
qed

section \<open>The simulation\<close>

definition ram_sim :: "ram_heap \<Rightarrow> tree \<Rightarrow> bool" where
  "ram_sim h t \<longleftrightarrow> ram_wf h \<and> t = ram_tree h"

definition handle_sim :: "ram_heap \<Rightarrow> tree \<Rightarrow> nat \<Rightarrow> string list \<Rightarrow> bool" where
  "handle_sim h t a p \<longleftrightarrow> reach h 0 p = Some a"

lemmas sim_defs = ram_sim_def handle_sim_def act_sim_def

lemma handle_node:
  assumes "ram_sim h t" "handle_sim h t a p"
  shows "t p = Some (node_view (h ! a))" "a < length h" "node_wf (h ! a)" "ram_wf h" "reach h 0 p = Some a" "t = ram_tree h"
  using assms reach_bound ram_wfD(2) by (auto simp: ram_sim_def handle_sim_def ram_tree_def)

lemma node_cases:
  assumes "node_wf nd"
  obtains (dir) d where "nd = RamDir d" "distinct (map fst (rdir_children d))"
  | (regular) f where "nd = RamFile f" "length (rfile_data f) \<le> isize_max"
  using assms by (cases nd) (auto simp: node_wf_def)

lemma kid_tree:
  assumes "ram_wf h" "reach h 0 p = Some a" "h ! a = RamDir d" "(name, b) \<in> set (rdir_children d)"
  shows "reach h 0 (p @ [name]) = Some b" "ram_tree h (p @ [name]) = Some (node_view (h ! b))" "node_wf (h ! b)"
proof -
  have a: "a < length h" by (rule reach_bound [OF assms(1,2)])
  then have "ram_edge h a name b" using assms by (auto simp: ram_edge_def)
  then show r: "reach h 0 (p @ [name]) = Some b" using reach_edge [OF assms(1)] assms(2) by blast
  then show "ram_tree h (p @ [name]) = Some (node_view (h ! b))" by (simp add: ram_tree_def)
  show "node_wf (h ! b)" using ram_wfD(2) [OF assms(1) reach_bound [OF assms(1) r]] .
qed

lemma lookup_rel:
  assumes "ram_sim h t" "handle_sim h t a p"
  shows "rel_outcome (handle_sim h t) (=) (ram_lookup a name h) (tree_lookup p name t)"
proof -
  note N = handle_node [OF assms]
  from N(3) show ?thesis
  proof (cases rule: node_cases)
    case (dir d)
    show ?thesis
    proof (cases "map_of (rdir_children d) name")
      case None
      then have "name \<notin> fst ` set (rdir_children d)" by (simp add: map_of_eq_None_iff)
      then show ?thesis using dir N(1) None by (simp add: ram_lookup_kids tree_lookup_def)
    next
      case (Some b)
      then have "(name, b) \<in> set (rdir_children d)" by (rule map_of_SomeD)
      moreover from this have "name \<in> fst ` set (rdir_children d)" by force
      ultimately show ?thesis
        using dir N(1) Some kid_tree(1) [OF N(4,5) dir(1)] by (simp add: ram_lookup_kids tree_lookup_def handle_sim_def)
    qed
  qed (use N(1) in \<open>simp add: ram_lookup_kids tree_lookup_def\<close>)
qed

lemma create_rel:
  assumes "ram_sim h t" "handle_sim h t a p"
  shows "act_sim ram_sim handle_sim (ram_create a name ty mode h) (tree_create p name ty mode t)"
proof -
  note N = handle_node [OF assms]
  from N(3) show ?thesis
  proof (cases rule: node_cases)
    case (dir d)
    let ?d = "d\<lparr>rdir_children := rdir_children d @ [(name, length h)]\<rparr>"
    have kids: "kids (h ! a) = Some (rdir_children d)" "kids (RamDir ?d) = Some (rdir_children d @ [(name, length h)])"
      using dir by simp_all
    show ?thesis
    proof (cases "name = [] \<or> CHR ''/'' \<in> set name \<or> name \<in> fst ` set (rdir_children d)")
      case True
      then show ?thesis using assms(1) N(1) dir by (force simp: ram_create_def RamFsDir_create_def tree_create_def act_sim_def)
    next
      case False
      then have wf: "node_wf (RamDir ?d)" using dir(2) by (simp add: node_wf_def)
      have fresh: "name \<notin> fst ` set (rdir_children d)" "\<not> (\<exists>(child_name, _) \<in> set (rdir_children d). child_name = name)"
        using False by force+
      have new: "node_wf (RamFile (RamFsFile_new name mode))" "node_wf (RamDir (RamFsDir_new name mode))"
        "kids (RamFile (RamFsFile_new name mode)) \<in> {None, Some []}" "kids (RamDir (RamFsDir_new name mode)) \<in> {None, Some []}"
        by (simp_all add: node_wf_def RamFsFile_new_def RamFsDir_new_def)
      note reg = ram_update_add [OF N(4,5) kids(1) fresh(1) wf kids(2) new(1,3)]
        and sub = ram_update_add [OF N(4,5) kids(1) fresh(1) wf kids(2) new(2,4)]
      show ?thesis
        using False fresh(2) N dir assms(1) reg sub
        by (cases ty) (auto simp: ram_create_def RamFsDir_create_def tree_create_def sim_defs Let_def RamFsFile_new_def RamFsDir_new_def)
    qed
  qed (use N(1) assms(1) in \<open>simp add: ram_create_def tree_create_def act_sim_def\<close>)
qed

text \<open>Removing the entry at its position removes the name.\<close>

lemma vec_remove_assoc:
  "distinct (map fst kvs) \<Longrightarrow> position (\<lambda>(k, _). k = x) kvs = Some i \<Longrightarrow>
   map fst (vec_remove i kvs) = remove1 x (map fst kvs) \<and> set (vec_remove i kvs) = {kv \<in> set kvs. fst kv \<noteq> x} \<and>
   map_of kvs x = Some (snd (kvs ! i))"
proof (induction kvs arbitrary: i)
  case (Cons kv kvs)
  show ?case
  proof (cases "fst kv = x")
    case True
    then show ?thesis using Cons.prems by (auto simp: vec_remove_def case_prod_beta) (metis fst_conv image_eqI)
  next
    case False
    then obtain j where "position (\<lambda>(k, _). k = x) kvs = Some j" "i = Suc j" using Cons.prems by (cases kv) auto
    moreover have "vec_remove (Suc j) (kv # kvs) = kv # vec_remove j kvs" for j by (simp add: vec_remove_def)
    ultimately show ?thesis using Cons.IH [of j] Cons.prems(1) False by (cases kv) auto
  qed
qed simp

lemma unlink_rel:
  assumes "ram_sim h t" "handle_sim h t a p"
  shows "act_sim ram_sim (\<lambda>_ _. (=)) (ram_unlink a name h) (tree_unlink p name t)"
proof -
  note N = handle_node [OF assms]
  from N(3) show ?thesis
  proof (cases rule: node_cases)
    case (dir d)
    show ?thesis
    proof (cases "position (\<lambda>(n, _). n = name) (rdir_children d)")
      case None
      then have "name \<notin> fst ` set (rdir_children d)" by (force simp: position_None_iff)
      then show ?thesis
        using None assms(1) N(1) dir by (simp add: ram_unlink_def RamFsDir_unlink_def tree_unlink_def act_sim_def)
    next
      case (Some i)
      define b where "b = snd (rdir_children d ! i)"
      define d' where "d' = d\<lparr>rdir_children := vec_remove i (rdir_children d)\<rparr>"
      note R = vec_remove_assoc [OF dir(2) Some, folded b_def]
      have mem: "(name, b) \<in> set (rdir_children d)" using R by (intro map_of_SomeD) simp
      then have inn: "name \<in> fst ` set (rdir_children d)" by force
      note K = kid_tree [OF N(4,5) dir(1) mem]
      show ?thesis
      proof (cases "\<exists>e x xs. h ! b = RamDir e \<and> rdir_children e = x # xs")
        case True
        then show ?thesis
          using Some assms(1) N(1,6) dir inn K(2)
          by (auto simp: ram_unlink_def RamFsDir_unlink_def tree_unlink_def act_sim_def b_def [symmetric] node_type_def
              node_readdir_def RamFsDir_readdir_def)
      next
        case False
        have kids: "kids (h ! b) \<in> {None, Some []}" using False by (cases "h ! b"; cases "rdir_children (case h ! b of RamDir e \<Rightarrow> e | _ \<Rightarrow> d)") (auto simp: kids_def)
        have wf: "node_wf (RamDir d')" using R dir(2) by (simp add: node_wf_def d'_def distinct_vec_remove map_vec_remove)
        have U: "ram_wf (h[a := RamDir d'])"
          "ram_tree (h[a := RamDir d']) = (ram_tree h)(p \<mapsto> node_view (RamDir d'), p @ [name] := None)"
          using ram_update_remove [OF N(4,5), of "rdir_children d" name b "RamDir d'" "vec_remove i (rdir_children d)"] dir(1) R kids wf
          by (simp_all add: d'_def)
        have "ram_unlink a name h = (Ok (), h[a := RamDir d'])"
          using Some dir(1) kids by (auto simp: ram_unlink_def RamFsDir_unlink_def b_def [symmetric] d'_def node_readdir_def
              RamFsDir_readdir_def node_type_def kids_def split: RamNode.splits)
        moreover have "tree_unlink p name t = (Ok (), t(p \<mapsto> node_view (RamDir d'), p @ [name] := None))"
          using N(1,6) dir(1) inn K(2,3) False R
          by (auto simp: tree_unlink_def d'_def node_wf_def split: RamNode.splits list.splits tree_node.splits)
        ultimately show ?thesis using U N(6) by (simp add: sim_defs)
      qed
    qed
  qed (use N(1) assms(1) in \<open>simp add: ram_unlink_def tree_unlink_def act_sim_def\<close>)
qed

lemma RamFsFile_read_exact: "RamFsFile_read f off n = Ok (take n (drop off (rfile_data f)))"
  by (auto simp: RamFsFile_read_def slice_get_def Let_def min_def)

lemma RamFsFile_write_exact:
  assumes "length (rfile_data f) \<le> isize_max"
  shows "RamFsFile_write f off buf =
    (if off + length buf > isize_max then Panic else Ok (f\<lparr>rfile_data := write_at (rfile_data f) off buf\<rparr>, length buf))"
proof (cases "off + length buf > isize_max")
  case False
  then have "(off + length buf) mod 2 ^ 64 = off + length buf" by (simp add: isize_max_def)
  then show ?thesis
    using False by (auto simp: RamFsFile_write_def Let_def data_resize_def write_at_def)
next
  case big: True
  define r where "r = (off + length buf) mod 2 ^ 64"
  show ?thesis
  proof (cases "r = off + length buf")
    case True
    then have "r > isize_max" "r > length (rfile_data f)" using big assms by simp_all
    then show ?thesis using big unfolding RamFsFile_write_def Let_def r_def [symmetric] data_resize_def by auto
  next
    case False
    then have "r < off + length buf" using mod_less_eq_dividend [of "off + length buf" "2 ^ 64"] unfolding r_def by linarith
    then have "off > r \<or> r - off \<noteq> length buf" by linarith
    then show ?thesis using big unfolding RamFsFile_write_def Let_def r_def [symmetric] data_resize_def by auto
  qed
qed

lemma update_rel:
  assumes "ram_sim h t" "handle_sim h t a p" "node_wf nd" "kids nd = kids (h ! a)"
  shows "ram_sim (h[a := nd]) (t(p \<mapsto> node_view nd))"
  using ram_update_same [OF handle_node(4,5) [OF assms(1,2)] assms(3,4)] handle_node(6) [OF assms(1,2)] by (simp add: ram_sim_def)

lemma write_rel:
  assumes "ram_sim h t" "handle_sim h t a p"
  shows "act_sim ram_sim (\<lambda>_ _. (=)) (ram_write a off buf h) (tree_write p off buf t)"
proof -
  note N = handle_node [OF assms]
  from N(3) show ?thesis
  proof (cases rule: node_cases)
    case (regular f)
    let ?f = "f\<lparr>rfile_data := write_at (rfile_data f) off buf\<rparr>"
    have "ram_sim (h[a := RamFile ?f]) (t(p \<mapsto> node_view (RamFile ?f)))" if "off + length buf \<le> isize_max"
      using that regular by (intro update_rel [OF assms]) (simp_all add: node_wf_def)
    then show ?thesis
      using N(1) assms(1) regular by (simp add: ram_write_def tree_write_def act_sim_eq RamFsFile_write_exact)
  qed (use N(1) assms(1) in \<open>simp add: ram_write_def tree_write_def act_sim_eq\<close>)
qed

lemma truncate_rel:
  assumes "ram_sim h t" "handle_sim h t a p"
  shows "act_sim ram_sim (\<lambda>_ _. (=)) (ram_truncate a sz h) (tree_truncate p sz t)"
proof -
  note N = handle_node [OF assms]
  from N(3) show ?thesis
  proof (cases rule: node_cases)
    case (regular f)
    let ?f = "f\<lparr>rfile_data := vec_resize (rfile_data f) (unat sz) 0\<rparr>"
    have "ram_sim (h[a := RamFile ?f]) (t(p \<mapsto> node_view (RamFile ?f)))" if "unat sz \<le> isize_max"
      using that regular by (intro update_rel [OF assms]) (simp_all add: node_wf_def)
    then show ?thesis
      using N(1) assms(1) regular by (simp add: ram_truncate_def tree_truncate_def act_sim_eq RamFsFile_truncate_def data_resize_def)
  qed (use N(1) assms(1) in \<open>simp add: ram_truncate_def tree_truncate_def act_sim_eq\<close>)
qed

lemma chmod_rel:
  assumes "ram_sim h t" "handle_sim h t a p"
  shows "act_sim ram_sim (\<lambda>_ _. (=)) (ram_chmod a mode h) (tree_chmod p mode t)"
proof -
  note N = handle_node [OF assms]
  from N(3) show ?thesis
  proof (cases rule: node_cases)
    case (dir d)
    then show ?thesis
      using N(1) update_rel [OF assms, of "RamDir (d\<lparr>rdir_mode := mode\<rparr>)"]
      by (simp add: ram_chmod_def tree_chmod_def act_sim_eq node_wf_def)
  next
    case (regular f)
    then show ?thesis
      using N(1) update_rel [OF assms, of "RamFile (f\<lparr>rfile_mode := mode\<rparr>)"]
      by (simp add: ram_chmod_def tree_chmod_def act_sim_eq node_wf_def)
  qed
qed

lemma read_rel:
  assumes "ram_sim h t" "handle_sim h t a p"
  shows "act_sim ram_sim (\<lambda>_ _. (=)) (ram_read a off n h) (tree_read p off n t)"
  using handle_node(3) [OF assms]
  by (cases rule: node_cases) (use handle_node(1) [OF assms] assms(1) in
    \<open>simp_all add: ram_read_def tree_read_def act_sim_eq RamFsFile_read_exact\<close>)

lemma stat_rel:
  assumes "ram_sim h t" "handle_sim h t a p"
  shows "ram_stat a h = tree_stat p t"
  using handle_node(3) [OF assms]
  by (cases rule: node_cases) (use handle_node(1) [OF assms] in
    \<open>simp_all add: ram_stat_def tree_stat_def RamFsDir_stat_def RamFsFile_stat_def\<close>)

lemma readdir_rel:
  assumes "ram_sim h t" "handle_sim h t a p"
  shows "node_readdir h (h ! a) = tree_readdir p t"
proof -
  note N = handle_node [OF assms]
  from N(3) show ?thesis
  proof (cases rule: node_cases)
    case (dir d)
    have "node_type (h ! b) = tree_type (the (t (p @ [name])))" if "(name, b) \<in> set (rdir_children d)" for name b
      using kid_tree(2,3) [OF N(4,5) dir(1) that] N(6)
      by (auto simp: node_type_def tree_type_def node_view_def node_wf_def split: RamNode.splits)
    then show ?thesis using N(1) dir by (auto simp: node_readdir_def RamFsDir_readdir_def tree_readdir_def)
  qed (use N(1) in \<open>simp add: node_readdir_def tree_readdir_def\<close>)
qed

interpretation ram: vnode_sim ram_ops tree_ops ram_sim handle_sim 0 "[]"
  by unfold_locales
    (simp_all add: ram_ops_def tree_ops_def handle_sim_def [of _ _ 0 "[]"] lookup_rel create_rel unlink_rel read_rel write_rel truncate_rel
      chmod_rel readdir_rel stat_rel)

lemma RamFs_new_sim: "ram_sim (snd (RamFs_new [])) tree_empty" "ramfs_root (fst (RamFs_new [])) = 0"
proof -
  let ?h = "[RamDir (RamFsDir_new ''/'' default_dir)]"
  have "\<not> ram_edge ?h a name b" for a name b by (auto simp: ram_edge_kids RamFsDir_new_def)
  then have wf: "ram_wf ?h" by (intro ram_wfI) (auto simp: node_wf_def RamFsDir_new_def)
  have "ram_tree ?h p = tree_empty p" for p
    by (cases p) (simp_all add: ram_tree_def tree_empty_def ram_lookup_kids RamFsDir_new_def)
  then show "ram_sim (snd (RamFs_new [])) tree_empty" using wf by (auto simp: ram_sim_def RamFs_new_def)
qed (simp add: RamFs_new_def)

text \<open>By handle, the heap is a store of regular files.\<close>

definition heap_fits :: "ram_heap \<Rightarrow> bool" where
  "heap_fits h \<longleftrightarrow> (\<forall>nd \<in> set h. node_wf nd)"

definition ram_contents :: "ram_heap \<Rightarrow> nat \<Rightarrow> bytes option" where
  "ram_contents h a = (if a < length h then case h ! a of RamFile f \<Rightarrow> Some (rfile_data f) | _ \<Rightarrow> None else None)"

lemma ram_contents_Some: "ram_contents h a = Some xs \<longleftrightarrow> a < length h \<and> (\<exists>f. h ! a = RamFile f \<and> xs = rfile_data f)"
  by (auto simp: ram_contents_def split: RamNode.splits if_splits)

interpretation ram_files: file_store ram_ops heap_fits ram_contents
proof
  fix h :: ram_heap and a xs
  assume h: "heap_fits h" "ram_contents h a = Some xs"
  then obtain f where f: "a < length h" "h ! a = RamFile f" "xs = rfile_data f" by (auto simp: ram_contents_Some)
  then have "node_wf (RamFile f)" using h(1) nth_mem [of a h] by (auto simp: heap_fits_def)
  then show len: "length xs \<le> isize_max" using f by (simp add: node_wf_def)
  show "vn_read ram_ops a off n h = (Ok (take n (drop off xs)), h)" for off n
    using f by (simp add: ram_ops_def ram_read_def RamFsFile_read_exact)
  show "\<exists>st. vn_stat ram_ops a h = Ok st \<and> stat_size st = of_nat (length xs)"
    using f by (simp add: ram_ops_def ram_stat_def RamFsFile_stat_def)
  fix off ys assume "off + length (ys :: bytes) \<le> isize_max"
  then have w: "RamFsFile_write f off ys = Ok (f\<lparr>rfile_data := write_at xs off ys\<rparr>, length ys)"
    and wf: "node_wf (RamFile (f\<lparr>rfile_data := write_at xs off ys\<rparr>))"
    using RamFsFile_write_exact [of f off ys] len f(3) by (simp_all add: node_wf_def)
  let ?h = "h[a := RamFile (f\<lparr>rfile_data := write_at xs off ys\<rparr>)]"
  have "heap_fits ?h" using h(1) wf set_update_subset_insert [of h a] by (auto simp: heap_fits_def)
  moreover have "ram_contents ?h b = (if b = a then Some (write_at xs off ys) else ram_contents h b)" for b
    using f(1) by (simp add: ram_contents_def)
  moreover have "vn_write ram_ops a off ys h = (Ok (length ys), ?h)"
    using f(2) w by (simp add: ram_ops_def ram_write_def)
  ultimately show "\<exists>h'. vn_write ram_ops a off ys h = (Ok (length ys), h') \<and> heap_fits h' \<and>
      ram_contents h' a = Some (write_at xs off ys) \<and> (\<forall>b. b \<noteq> a \<longrightarrow> ram_contents h' b = ram_contents h b)"
    by simp
qed


section \<open>Properties\<close>

text \<open>
  C3. Refinement. Whatever sequence of calls by path is made on a new memory file system (creating
  and removing files and directories, reading, writing, truncating, changing modes, listing and
  asking for attributes), every result, errors and panics included, is that of a plain map from paths
  to nodes, and at the end the heap stands for exactly that map.
\<close>

theorem ramfs_refines_tree:
  "fst (run_calls ram_ops (ramfs_root (fst (RamFs_new []))) calls (snd (RamFs_new []))) = fst (run_calls tree_ops [] calls tree_empty) \<and>
   ram_tree (snd (run_calls ram_ops (ramfs_root (fst (RamFs_new []))) calls (snd (RamFs_new [])))) =
     snd (run_calls tree_ops [] calls tree_empty)"
  unfolding RamFs_new_sim(2) using ram.run_sim [OF RamFs_new_sim(1)] by (simp add: ram_sim_def)

end
