(* ===== verification/Fd_Table.thy ===== *)
theory Fd_Table
  imports Ram_Fs
begin

text \<open>
  Open files and descriptor tables, \<open>src/fs/fd.rs\<close>. An open file holds a handle to an object of the
  \<open>VNode\<close> trait, its flags and its offset; the offset is a 64-bit word and the signed arithmetic of
  \<open>seek\<close> wraps. A descriptor table is a list of slots that hold handles to open files.
\<close>

section \<open>Open files\<close>

type_synonym i64 = "64 word"

definition STDIN_FD :: int where "STDIN_FD = 0"
definition STDOUT_FD :: int where "STDOUT_FD = 1"
definition STDERR_FD :: int where "STDERR_FD = 2"

type_synonym OpenFlags = u32

definition O_RDONLY :: u32 where "O_RDONLY = 0"
definition O_WRONLY :: u32 where "O_WRONLY = 1"
definition O_RDWR :: u32 where "O_RDWR = 2"
definition O_CREAT :: u32 where "O_CREAT = 0x40"
definition O_EXCL :: u32 where "O_EXCL = 0x80"
definition O_TRUNC :: u32 where "O_TRUNC = 0x200"
definition O_APPEND :: u32 where "O_APPEND = 0x400"
definition O_DIRECTORY :: u32 where "O_DIRECTORY = 0x10000"

definition flags_readable :: "OpenFlags \<Rightarrow> bool" where
  "flags_readable fl = (let access = fl AND 3 in access = O_RDONLY \<or> access = O_RDWR)"

definition flags_writable :: "OpenFlags \<Rightarrow> bool" where
  "flags_writable fl = (let access = fl AND 3 in access = O_WRONLY \<or> access = O_RDWR)"

definition is_create :: "OpenFlags \<Rightarrow> bool" where
  "is_create fl = (fl AND O_CREAT \<noteq> 0)"

definition is_exclusive :: "OpenFlags \<Rightarrow> bool" where
  "is_exclusive fl = (fl AND O_EXCL \<noteq> 0)"

definition is_truncate :: "OpenFlags \<Rightarrow> bool" where
  "is_truncate fl = (fl AND O_TRUNC \<noteq> 0)"

definition is_append :: "OpenFlags \<Rightarrow> bool" where
  "is_append fl = (fl AND O_APPEND \<noteq> 0)"

definition is_directory :: "OpenFlags \<Rightarrow> bool" where
  "is_directory fl = (fl AND O_DIRECTORY \<noteq> 0)"

datatype SeekFrom = SeekStart u64 | SeekCurrent i64 | SeekEnd i64

record 'v OpenFile =
  of_vnode :: 'v
  of_flags :: OpenFlags
  of_offset :: u64

definition OpenFile_new :: "'v \<Rightarrow> OpenFlags \<Rightarrow> 'v OpenFile" where
  "OpenFile_new v fl = \<lparr>of_vnode = v, of_flags = fl, of_offset = 0\<rparr>"

text \<open>The state of a call is the open file together with the state of the file systems.\<close>

definition OpenFile_read :: "('s, 'v) vnode_ops \<Rightarrow> nat \<Rightarrow> ('v OpenFile \<times> 's, bytes, VfsError) act" where
  "OpenFile_read ops len = (\<lambda>(f, s).
     if \<not> flags_readable (of_flags f) then (Err PermissionDenied, (f, s))
     else case vn_read ops (of_vnode f) (unat (of_offset f)) len s of
       (Ok data, s') \<Rightarrow> (Ok data, (f\<lparr>of_offset := of_offset f + of_nat (length data)\<rparr>, s'))
     | (Err e, s') \<Rightarrow> (Err e, (f, s'))
     | (Panic, s') \<Rightarrow> (Panic, (f, s')))"

definition OpenFile_write :: "('s, 'v) vnode_ops \<Rightarrow> bytes \<Rightarrow> ('v OpenFile \<times> 's, nat, VfsError) act" where
  "OpenFile_write ops buf = (\<lambda>(f, s).
     if \<not> flags_writable (of_flags f) then (Err PermissionDenied, (f, s))
     else
       let f = (if is_append (of_flags f) then
                  (case vn_stat ops (of_vnode f) s of Ok st \<Rightarrow> f\<lparr>of_offset := stat_size st\<rparr> | _ \<Rightarrow> f)
                else f)
       in case vn_write ops (of_vnode f) (unat (of_offset f)) buf s of
            (Ok n, s') \<Rightarrow> (Ok n, (f\<lparr>of_offset := of_offset f + of_nat n\<rparr>, s'))
          | (Err e, s') \<Rightarrow> (Err e, (f, s'))
          | (Panic, s') \<Rightarrow> (Panic, (f, s')))"

definition OpenFile_seek :: "('s, 'v) vnode_ops \<Rightarrow> SeekFrom \<Rightarrow> ('v OpenFile \<times> 's, u64, VfsError) act" where
  "OpenFile_seek ops pos = (\<lambda>(f, s).
     let target =
       (case pos of
          SeekStart n \<Rightarrow> Ok n
        | SeekCurrent n \<Rightarrow> Ok (of_offset f + n)
        | SeekEnd n \<Rightarrow> map_ok (\<lambda>st. stat_size st + n) (vn_stat ops (of_vnode f) s))
     in case target of
          Ok new_offset \<Rightarrow>
            if sint new_offset < 0 then (Err InvalidArgument, (f, s))
            else (Ok new_offset, (f\<lparr>of_offset := new_offset\<rparr>, s))
        | Err e \<Rightarrow> (Err e, (f, s))
        | Panic \<Rightarrow> (Panic, (f, s)))"

definition OpenFile_tell :: "'v OpenFile \<Rightarrow> u64" where
  "OpenFile_tell f = of_offset f"


section \<open>Descriptor tables\<close>

record 'f FdTable =
  fdt_files :: "'f option list"
  fdt_max :: nat

text \<open>\<open>n as i32\<close>\<close>

definition as_i32 :: "nat \<Rightarrow> int" where
  "as_i32 n = sint (of_nat n :: 32 word)"

definition FdTable_new :: "nat \<Rightarrow> 'f FdTable" where
  "FdTable_new max_fds = \<lparr>fdt_files = [], fdt_max = max_fds\<rparr>"

definition FdTable_default :: "'f FdTable" where
  "FdTable_default = FdTable_new 256"

definition FdTable_insert :: "'f \<Rightarrow> ('f FdTable, int, VfsError) act" where
  "FdTable_insert f t =
     (case position (\<lambda>slot. slot = None) (fdt_files t) of
        Some i \<Rightarrow> (Ok (as_i32 i), t\<lparr>fdt_files := (fdt_files t)[i := Some f]\<rparr>)
      | None \<Rightarrow>
          if length (fdt_files t) \<ge> fdt_max t then (Err NoSpace, t)
          else (Ok (as_i32 (length (fdt_files t))), t\<lparr>fdt_files := fdt_files t @ [Some f]\<rparr>))"

definition FdTable_get :: "'f FdTable \<Rightarrow> int \<Rightarrow> ('f, VfsError) outcome" where
  "FdTable_get t fd =
     (if fd < 0 then Err InvalidArgument
      else if nat fd < length (fdt_files t) then ok_or InvalidArgument (fdt_files t ! nat fd)
      else Err InvalidArgument)"

definition FdTable_close :: "int \<Rightarrow> ('f FdTable, unit, VfsError) act" where
  "FdTable_close fd t =
     (if fd < 0 then (Err InvalidArgument, t)
      else if nat fd < length (fdt_files t) \<and> fdt_files t ! nat fd \<noteq> None
      then (Ok (), t\<lparr>fdt_files := (fdt_files t)[nat fd := None]\<rparr>)
      else (Err InvalidArgument, t))"

definition FdTable_dup :: "int \<Rightarrow> ('f FdTable, int, VfsError) act" where
  "FdTable_dup old_fd = act_bind (act_lift (\<lambda>t. FdTable_get t old_fd)) FdTable_insert"

text \<open>\<open>while files.len() <= n { files.push(None) }\<close>\<close>

definition extend_slots :: "nat \<Rightarrow> 'f option list \<Rightarrow> 'f option list" where
  "extend_slots n files = files @ replicate (Suc n - length files) None"

definition FdTable_dup2 :: "int \<Rightarrow> int \<Rightarrow> ('f FdTable, int, VfsError) act" where
  "FdTable_dup2 old_fd new_fd t =
     (if new_fd < 0 \<or> nat new_fd \<ge> fdt_max t then (Err InvalidArgument, t)
      else case FdTable_get t old_fd of
        Ok f \<Rightarrow> (Ok new_fd, t\<lparr>fdt_files := (extend_slots (nat new_fd) (fdt_files t))[nat new_fd := Some f]\<rparr>)
      | Err e \<Rightarrow> (Err e, t)
      | Panic \<Rightarrow> (Panic, t))"

definition fd_count :: "'f FdTable \<Rightarrow> nat" where
  "fd_count t = length (filter (\<lambda>f. f \<noteq> None) (fdt_files t))"

definition close_all :: "'f FdTable \<Rightarrow> 'f FdTable" where
  "close_all t = t\<lparr>fdt_files := []\<rparr>"

text \<open>Open files are shared between descriptors: the table holds indexes into a list of open files.\<close>

definition insert_file :: "'v OpenFile \<Rightarrow> nat FdTable \<times> 'v OpenFile list \<Rightarrow> nat FdTable \<times> 'v OpenFile list" where
  "insert_file f = (\<lambda>(t, fs). (snd (FdTable_insert (length fs) t), fs @ [f]))"

definition with_stdio :: "'v \<Rightarrow> 'v OpenFile list \<Rightarrow> nat FdTable \<times> 'v OpenFile list" where
  "with_stdio console fs =
     insert_file (OpenFile_new console O_WRONLY)
       (insert_file (OpenFile_new console O_WRONLY)
         (insert_file (OpenFile_new console O_RDONLY) (FdTable_new 256, fs)))"

definition init_kernel_fd_table ::
    "'v \<Rightarrow> nat FdTable option \<times> 'v OpenFile list \<Rightarrow> nat FdTable option \<times> 'v OpenFile list" where
  "init_kernel_fd_table console = (\<lambda>(_, fs). case with_stdio console fs of (t, fs') \<Rightarrow> (Some t, fs'))"

definition kernel_fd_table :: "nat FdTable option \<Rightarrow> (nat FdTable, VfsError) outcome" where
  "kernel_fd_table table = ok_or NotFound table"

section \<open>The table as a map\<close>

text \<open>
  The specification of a descriptor table: a partial map from descriptors to open files with a bound.
  A new descriptor is the least number that is not in use.
\<close>

datatype 'f fd_op = FdInsert 'f | FdGet int | FdClose int | FdDup int | FdDup2 int int | FdCount | FdCloseAll

datatype 'f fd_result = FdNum int | FdFile 'f | FdSize nat | FdUnit

definition fd_exec :: "'f fd_op \<Rightarrow> ('f FdTable, 'f fd_result, VfsError) act" where
  "fd_exec c =
     (case c of
        FdInsert f \<Rightarrow> act_bind (FdTable_insert f) (\<lambda>fd. act_return (FdNum fd))
      | FdGet fd \<Rightarrow> act_lift (\<lambda>t. map_ok FdFile (FdTable_get t fd))
      | FdClose fd \<Rightarrow> act_bind (FdTable_close fd) (\<lambda>_. act_return FdUnit)
      | FdDup fd \<Rightarrow> act_bind (FdTable_dup fd) (\<lambda>fd. act_return (FdNum fd))
      | FdDup2 old new \<Rightarrow> act_bind (FdTable_dup2 old new) (\<lambda>fd. act_return (FdNum fd))
      | FdCount \<Rightarrow> act_lift (\<lambda>t. Ok (FdSize (fd_count t)))
      | FdCloseAll \<Rightarrow> act_bind (act_modify close_all) (\<lambda>_. act_return FdUnit))"

definition map_insert :: "nat \<Rightarrow> 'f \<Rightarrow> (int \<rightharpoonup> 'f, 'f fd_result, VfsError) act" where
  "map_insert bound f m =
     (case find (\<lambda>k. m (int k) = None) [0..<bound] of
        Some k \<Rightarrow> (Ok (FdNum (int k)), m(int k \<mapsto> f))
      | None \<Rightarrow> (Err NoSpace, m))"

definition map_exec :: "nat \<Rightarrow> 'f fd_op \<Rightarrow> (int \<rightharpoonup> 'f, 'f fd_result, VfsError) act" where
  "map_exec bound c m =
     (case c of
        FdInsert f \<Rightarrow> map_insert bound f m
      | FdGet fd \<Rightarrow> (ok_or InvalidArgument (map_option FdFile (m fd)), m)
      | FdClose fd \<Rightarrow> if m fd = None then (Err InvalidArgument, m) else (Ok FdUnit, m(fd := None))
      | FdDup fd \<Rightarrow> (case m fd of None \<Rightarrow> (Err InvalidArgument, m) | Some f \<Rightarrow> map_insert bound f m)
      | FdDup2 old new \<Rightarrow>
          if new < 0 \<or> nat new \<ge> bound then (Err InvalidArgument, m)
          else (case m old of None \<Rightarrow> (Err InvalidArgument, m) | Some f \<Rightarrow> (Ok (FdNum new), m(new \<mapsto> f)))
      | FdCount \<Rightarrow> (Ok (FdSize (card (dom m))), m)
      | FdCloseAll \<Rightarrow> (Ok FdUnit, Map.empty))"

fun run_ops :: "('c \<Rightarrow> ('s, 'r, VfsError) act) \<Rightarrow> 'c list \<Rightarrow> 's \<Rightarrow> ('r, VfsError) outcome list \<times> 's" where
  "run_ops exec [] s = ([], s)"
| "run_ops exec (c # cs) s = (case exec c s of (r, s') \<Rightarrow> case run_ops exec cs s' of (rs, s'') \<Rightarrow> (r # rs, s''))"

text \<open>The descriptors fit an \<open>i32\<close> because the table is bounded.\<close>

definition fd_wf :: "'f FdTable \<Rightarrow> bool" where
  "fd_wf t \<longleftrightarrow> length (fdt_files t) \<le> fdt_max t \<and> fdt_max t \<le> 2 ^ 31"

definition fd_map :: "'f FdTable \<Rightarrow> int \<rightharpoonup> 'f" where
  "fd_map t fd = (if 0 \<le> fd \<and> nat fd < length (fdt_files t) then fdt_files t ! nat fd else None)"

lemma as_i32_small: "n < 2 ^ 31 \<Longrightarrow> as_i32 n = int n"
  by (simp add: as_i32_def signed_of_nat signed_take_bit_int_eq_self)

lemma fd_map_int [simp]: "fd_map t (int k) = (if k < length (fdt_files t) then fdt_files t ! k else None)"
  by (simp add: fd_map_def)

lemma fd_mapI: "(\<And>k. fd_map t (int k) = m (int k)) \<Longrightarrow> (\<And>fd. fd < 0 \<Longrightarrow> m fd = None) \<Longrightarrow> fd_map t = m"
proof (rule ext)
  fix fd assume a: "\<And>k. fd_map t (int k) = m (int k)" "\<And>fd. fd < 0 \<Longrightarrow> m fd = None"
  show "fd_map t fd = m fd" using a(1) [of "nat fd"] a(2) [of fd] by (cases "fd < 0") (auto simp: fd_map_def)
qed

lemma fd_get_map: "FdTable_get t fd = ok_or InvalidArgument (fd_map t fd)"
  by (simp add: FdTable_get_def fd_map_def)

lemma find_least:
  assumes "P k" "k < n" "\<And>j. j < k \<Longrightarrow> \<not> P j"
  shows "find P [0..<n] = Some k"
  using assms by (auto simp: find_Some_iff intro!: exI [of _ k])

lemma fd_insert_map:
  assumes wf: "fd_wf t"
  obtains t' where "fd_exec (FdInsert f) t = (fst (map_insert (fdt_max t) f (fd_map t)), t')"
    "fd_map t' = snd (map_insert (fdt_max t) f (fd_map t))" "fd_wf t'" "fdt_max t' = fdt_max t"
proof (cases "position (\<lambda>slot. slot = None) (fdt_files t)")
  case (Some i)
  then have i: "i < length (fdt_files t)" "fdt_files t ! i = None" "\<And>j. j < i \<Longrightarrow> fdt_files t ! j \<noteq> None"
    using position_SomeD by force+
  let ?t = "t\<lparr>fdt_files := (fdt_files t)[i := Some f]\<rparr>"
  have "find (\<lambda>k. fd_map t (int k) = None) [0..<fdt_max t] = Some i"
    using i wf by (intro find_least) (auto simp: fd_wf_def)
  moreover have "fd_map ?t = (fd_map t)(int i \<mapsto> f)"
    using i(1) by (intro fd_mapI) (auto simp: nth_list_update, simp add: fd_map_def)
  moreover have "as_i32 i = int i" using i(1) wf by (intro as_i32_small) (simp add: fd_wf_def)
  ultimately show ?thesis
    using Some wf by (intro that [of ?t]) (simp_all add: fd_exec_def act_bind_def FdTable_insert_def map_insert_def fd_wf_def)
next
  case None
  then have full: "fdt_files t ! j \<noteq> None" if "j < length (fdt_files t)" for j
    using that by (auto simp: position_None_iff)
  show ?thesis
  proof (cases "length (fdt_files t) \<ge> fdt_max t")
    case True
    have "find (\<lambda>k. fd_map t (int k) = None) [0..<fdt_max t] = None"
      using full True by (auto simp: find_None_iff)
    then show ?thesis
      using None True wf by (intro that [of t]) (simp_all add: fd_exec_def act_bind_def FdTable_insert_def map_insert_def)
  next
    case False
    let ?n = "length (fdt_files t)" and ?t = "t\<lparr>fdt_files := fdt_files t @ [Some f]\<rparr>"
    have "find (\<lambda>k. fd_map t (int k) = None) [0..<fdt_max t] = Some ?n"
      using full False by (intro find_least) auto
    moreover have "fd_map ?t = (fd_map t)(int ?n \<mapsto> f)"
      by (intro fd_mapI) (auto simp: nth_append less_Suc_eq, simp add: fd_map_def)
    moreover have "as_i32 ?n = int ?n" using False wf by (intro as_i32_small) (simp add: fd_wf_def)
    ultimately show ?thesis
      using None False wf by (intro that [of ?t]) (simp_all add: fd_exec_def act_bind_def FdTable_insert_def map_insert_def fd_wf_def)
  qed
qed

lemma fd_count_map: "fd_count t = card (dom (fd_map t))"
proof -
  have "dom (fd_map t) = int ` {i. i < length (fdt_files t) \<and> fdt_files t ! i \<noteq> None}"
    by (auto simp: fd_map_def dom_def split: if_splits intro!: image_eqI [of _ int "nat _"])
  then have "card (dom (fd_map t)) = card {i. i < length (fdt_files t) \<and> fdt_files t ! i \<noteq> None}"
    by (simp add: card_image)
  then show ?thesis by (simp add: fd_count_def length_filter_conv_card)
qed

lemma fd_exec_map:
  assumes wf: "fd_wf t"
  shows "fst (fd_exec c t) = fst (map_exec (fdt_max t) c (fd_map t)) \<and> fd_map (snd (fd_exec c t)) = snd (map_exec (fdt_max t) c (fd_map t)) \<and>
    fd_wf (snd (fd_exec c t)) \<and> fdt_max (snd (fd_exec c t)) = fdt_max t"
proof (cases c)
  case (FdInsert f)
  show ?thesis unfolding FdInsert by (rule fd_insert_map [OF wf, of f]) (simp add: map_exec_def)
next
  case (FdGet fd)
  then show ?thesis using wf by (cases "fd_map t fd") (simp_all add: fd_exec_def map_exec_def fd_get_map)
next
  case (FdClose fd)
  show ?thesis
  proof (cases "fd_map t fd")
    case None
    then have "FdTable_close fd t = (Err InvalidArgument, t)"
      by (auto simp: FdTable_close_def fd_map_def split: if_splits)
    then show ?thesis using None FdClose wf by (simp add: fd_exec_def map_exec_def act_bind_def)
  next
    case (Some f)
    then have fd: "0 \<le> fd" "nat fd < length (fdt_files t)" "fdt_files t ! nat fd = Some f"
      by (auto simp: fd_map_def split: if_splits)
    let ?t = "t\<lparr>fdt_files := (fdt_files t)[nat fd := None]\<rparr>"
    have "fd_map ?t = (fd_map t)(fd := None)"
      using fd by (intro fd_mapI) (auto simp: nth_list_update, simp add: fd_map_def)
    moreover have "FdTable_close fd t = (Ok (), ?t)" using fd by (simp add: FdTable_close_def)
    ultimately show ?thesis using Some FdClose wf by (simp add: fd_exec_def map_exec_def act_bind_def fd_wf_def)
  qed
next
  case (FdDup fd)
  show ?thesis
  proof (cases "fd_map t fd")
    case None
    then show ?thesis using FdDup wf by (simp add: fd_exec_def map_exec_def FdTable_dup_def act_bind_def fd_get_map)
  next
    case (Some f)
    then have "fd_exec c t = fd_exec (FdInsert f) t"
      using FdDup by (simp add: fd_exec_def FdTable_dup_def act_bind_def fd_get_map split: prod.splits outcome.splits)
    moreover have "map_exec (fdt_max t) c (fd_map t) = map_insert (fdt_max t) f (fd_map t)"
      using FdDup Some by (simp add: map_exec_def)
    ultimately show ?thesis by (metis fd_insert_map [OF wf, of f] fst_conv snd_conv)
  qed
next
  case (FdDup2 old new)
  show ?thesis
  proof (cases "new < 0 \<or> nat new \<ge> fdt_max t \<or> fd_map t old = None")
    case True
    then show ?thesis using FdDup2 wf by (auto simp: fd_exec_def map_exec_def FdTable_dup2_def act_bind_def fd_get_map)
  next
    case False
    then obtain f where f: "fd_map t old = Some f" by auto
    let ?t = "t\<lparr>fdt_files := (extend_slots (nat new) (fdt_files t))[nat new := Some f]\<rparr>"
    have "fd_map ?t = (fd_map t)(new \<mapsto> f)"
      using False by (intro fd_mapI) (auto simp: nth_list_update extend_slots_def nth_append, simp add: fd_map_def)
    moreover have "FdTable_dup2 old new t = (Ok new, ?t)" using False f by (simp add: FdTable_dup2_def fd_get_map)
    moreover have "length (extend_slots (nat new) (fdt_files t)) \<le> fdt_max t"
      using False wf by (auto simp: fd_wf_def extend_slots_def)
    ultimately show ?thesis using False f FdDup2 wf by (simp add: fd_exec_def map_exec_def act_bind_def fd_wf_def)
  qed
next
  case FdCount
  then show ?thesis using wf by (simp add: fd_exec_def map_exec_def fd_count_map)
next
  case FdCloseAll
  have "fd_map (close_all t) = Map.empty" by (rule ext) (simp add: fd_map_def close_all_def)
  then show ?thesis using FdCloseAll wf by (simp add: fd_exec_def map_exec_def act_bind_def fd_wf_def close_all_def)
qed

lemma run_ops_map:
  "fd_wf t \<Longrightarrow> fst (run_ops fd_exec cs t) = fst (run_ops (map_exec (fdt_max t)) cs (fd_map t)) \<and>
     fd_map (snd (run_ops fd_exec cs t)) = snd (run_ops (map_exec (fdt_max t)) cs (fd_map t))"
proof (induction cs arbitrary: t)
  case (Cons c cs)
  obtain r t' where c: "fd_exec c t = (r, t')" by fastforce
  with fd_exec_map [OF Cons.prems, of c] have "map_exec (fdt_max t) c (fd_map t) = (r, fd_map t')" "fd_wf t'" "fdt_max t' = fdt_max t"
    by (simp_all add: prod_eq_iff)
  then show ?case using Cons.IH [of t'] c by (simp add: case_prod_beta)
qed simp

lemma fd_map_new [simp]: "fd_map (FdTable_new n) = Map.empty" "fdt_max (FdTable_new n) = n"
  by (auto simp: fd_map_def FdTable_new_def)

lemma fd_wf_new: "n \<le> 2 ^ 31 \<Longrightarrow> fd_wf (FdTable_new n)"
  by (simp add: fd_wf_def FdTable_new_def)

text \<open>
  C39. In every history of calls a new descriptor table behaves as a map from descriptors to open files
  with a bound: insert and dup give the least descriptor not in use or report that there is none, dup2
  replaces the target, close frees it, and count is the number of descriptors in use.
\<close>

theorem fd_table_refines_map:
  assumes "max_fds \<le> 2 ^ 31"
  shows "fst (run_ops fd_exec cs (FdTable_new max_fds)) = fst (run_ops (map_exec max_fds) cs Map.empty) \<and>
    fd_map (snd (run_ops fd_exec cs (FdTable_new max_fds))) = snd (run_ops (map_exec max_fds) cs Map.empty)"
  using run_ops_map [of "FdTable_new max_fds" cs] fd_wf_new [OF assms] by simp

theorem fd_table_refines_map_witness:
  "fst (run_ops fd_exec [FdInsert 10, FdInsert 11, FdClose 0, FdDup 1, FdDup2 1 3, FdInsert (12::nat)] (FdTable_new 4)) =
    [Ok (FdNum 0), Ok (FdNum 1), Ok FdUnit, Ok (FdNum 0), Ok (FdNum 3), Ok (FdNum 2)]"
proof -
  have "(4::nat) \<le> 2 ^ 31" by simp
  note fd_table_refines_map [OF this, of "[FdInsert 10, FdInsert 11, FdClose 0, FdDup 1, FdDup2 1 3, FdInsert (12::nat)]"]
  then show ?thesis by (simp add: map_exec_def map_insert_def upt_rec)
qed

section \<open>Streams over the files of a store\<close>

lemma isize_max_word: "n \<le> isize_max \<Longrightarrow> n < 2 ^ 64" "n \<le> isize_max \<Longrightarrow> unat (of_nat n :: u64) = n"
  "n \<le> isize_max \<Longrightarrow> 0 \<le> sint (of_nat n :: u64)"
  by (simp_all add: isize_max_def unat_of_nat signed_of_nat signed_take_bit_int_eq_self)

lemma rdwr_flags: "fl AND 3 = O_RDWR \<Longrightarrow> flags_readable fl \<and> flags_writable fl"
  by (simp add: flags_readable_def flags_writable_def)

text \<open>A program that writes several pieces through a descriptor.\<close>

fun write_pieces :: "('s, 'v) vnode_ops \<Rightarrow> bytes list \<Rightarrow> ('v OpenFile \<times> 's, unit, VfsError) act" where
  "write_pieces ops [] = act_return ()"
| "write_pieces ops (ys # pieces) = act_bind (OpenFile_write ops ys) (\<lambda>_. write_pieces ops pieces)"

context file_store
begin

lemma open_write_ok:
  assumes "inv s" "contents s (of_vnode f) = Some xs" "flags_writable (of_flags f)" "\<not> is_append (of_flags f)"
    and "unat (of_offset f) + length ys \<le> isize_max"
  obtains s' where "OpenFile_write ops ys (f, s) = (Ok (length ys), (f\<lparr>of_offset := of_offset f + of_nat (length ys)\<rparr>, s'))"
    "inv s'" "contents s' (of_vnode f) = Some (write_at xs (unat (of_offset f)) ys)"
    "\<And>w. w \<noteq> of_vnode f \<Longrightarrow> contents s' w = contents s w"
  using write_law [OF assms(1,2,5)] assms(3,4) that by (auto simp: OpenFile_write_def)

lemma open_append_ok:
  assumes "inv s" "contents s (of_vnode f) = Some xs" "flags_writable (of_flags f)" "is_append (of_flags f)"
    and fits: "length xs + length ys \<le> isize_max"
  obtains s' where "OpenFile_write ops ys (f, s) = (Ok (length ys), (f\<lparr>of_offset := of_nat (length xs + length ys)\<rparr>, s'))"
    "inv s'" "contents s' (of_vnode f) = Some (xs @ ys)" "\<And>w. w \<noteq> of_vnode f \<Longrightarrow> contents s' w = contents s w"
proof -
  obtain st where st: "vn_stat ops (of_vnode f) s = Ok st" "stat_size st = of_nat (length xs)"
    using stat_law [OF assms(1,2)] by blast
  have len: "unat (of_nat (length xs) :: u64) = length xs" using fits by (intro isize_max_word) simp
  show ?thesis
    using write_law [OF assms(1,2), of "length xs" ys] fits that assms(3,4) st len by (auto simp: OpenFile_write_def write_at_end)
qed

lemma open_read_ok:
  assumes "inv s" "contents s (of_vnode f) = Some xs" "flags_readable (of_flags f)"
  shows "OpenFile_read ops n (f, s) =
    (Ok (take n (drop (unat (of_offset f)) xs)),
     (f\<lparr>of_offset := of_offset f + of_nat (length (take n (drop (unat (of_offset f)) xs)))\<rparr>, s))"
  using read_law [OF assms(1,2)] assms(3) by (simp add: OpenFile_read_def)

lemma write_pieces_ok:
  assumes "inv s" "contents s (of_vnode f) = Some xs" "flags_writable (of_flags f)" "\<not> is_append (of_flags f)"
    and "unat (of_offset f) + length (concat pieces) \<le> isize_max" and "pieces = [] \<Longrightarrow> unat (of_offset f) \<le> length xs"
  shows "\<exists>s'. write_pieces ops pieces (f, s) =
      (Ok (), (f\<lparr>of_offset := of_offset f + of_nat (length (concat pieces))\<rparr>, s')) \<and> inv s' \<and>
    contents s' (of_vnode f) = Some (write_at xs (unat (of_offset f)) (concat pieces)) \<and>
    (\<forall>w. w \<noteq> of_vnode f \<longrightarrow> contents s' w = contents s w)"
  using assms
proof (induction pieces arbitrary: f s xs)
  case Nil
  then show ?case by (auto simp: write_at_def)
next
  case (Cons ys pieces)
  let ?f = "f\<lparr>of_offset := of_offset f + of_nat (length ys)\<rparr>"
  have fits: "unat (of_offset f) + length ys \<le> isize_max" using Cons.prems(5) by simp
  then have off: "unat (of_offset f + of_nat (length ys)) = unat (of_offset f) + length ys"
    using isize_max_word(1) by (intro unat_add_of_nat) simp
  obtain s' where s': "OpenFile_write ops ys (f, s) = (Ok (length ys), (?f, s'))" "inv s'"
    "contents s' (of_vnode f) = Some (write_at xs (unat (of_offset f)) ys)" "\<And>w. w \<noteq> of_vnode f \<Longrightarrow> contents s' w = contents s w"
    using open_write_ok [OF Cons.prems(1-4) fits] by blast
  obtain s'' where s'': "write_pieces ops pieces (?f, s') =
      (Ok (), (?f\<lparr>of_offset := of_offset ?f + of_nat (length (concat pieces))\<rparr>, s''))" "inv s''"
    "contents s'' (of_vnode ?f) = Some (write_at (write_at xs (unat (of_offset f)) ys) (unat (of_offset ?f)) (concat pieces))"
    "\<And>w. w \<noteq> of_vnode ?f \<Longrightarrow> contents s'' w = contents s' w"
    using Cons.IH [of s' ?f "write_at xs (unat (of_offset f)) ys"] s'(2,3) Cons.prems(3-5) off by auto
  then show ?case using s'(1,4) off by (auto simp: act_bind_def write_at_append add.assoc)
qed

lemma append_pieces_ok:
  assumes "inv s" "contents s (of_vnode f) = Some xs" "flags_writable (of_flags f)" "is_append (of_flags f)"
    and "length xs + length (concat pieces) \<le> isize_max"
  shows "\<exists>f' s'. write_pieces ops pieces (f, s) = (Ok (), (f', s')) \<and>
    of_vnode f' = of_vnode f \<and> of_flags f' = of_flags f \<and> inv s' \<and> contents s' (of_vnode f) = Some (xs @ concat pieces) \<and> (\<forall>w. w \<noteq> of_vnode f \<longrightarrow> contents s' w = contents s w)"
  using assms
proof (induction pieces arbitrary: f s xs)
  case (Cons ys pieces)
  let ?f = "f\<lparr>of_offset := of_nat (length xs + length ys)\<rparr>"
  have fits: "length xs + length ys \<le> isize_max" using Cons.prems(5) by simp
  obtain s' where s': "OpenFile_write ops ys (f, s) = (Ok (length ys), (?f, s'))" "inv s'"
    "contents s' (of_vnode f) = Some (xs @ ys)" "\<And>w. w \<noteq> of_vnode f \<Longrightarrow> contents s' w = contents s w"
    using open_append_ok [OF Cons.prems(1-4) fits] by blast
  then show ?case using Cons.IH [of s' ?f "xs @ ys"] Cons.prems(3-5) by (auto simp: act_bind_def)
qed simp

end

text \<open>
  C40. Whatever pieces are written one after the other through a descriptor that is open for reading
  and writing, the file then holds their concatenation from the old offset on, with the rest of the
  file and every other file unchanged; seeking back and reading returns the concatenation. Through a
  descriptor in append mode the pieces land at the end of the file, wherever its offset was.
\<close>

theorem descriptor_streams:
  assumes store: "file_store ops sinv contents" and s: "sinv s" "contents s (of_vnode f) = Some xs"
    and flags: "of_flags f AND 3 = O_RDWR" and pieces: "pieces \<noteq> []"
    and fits: "max (length xs) (unat (of_offset f)) + length (concat pieces) \<le> isize_max"
  shows "\<exists>f' s'. write_pieces ops pieces (f, s) = (Ok (), (f', s')) \<and>
    (let start = if is_append (of_flags f) then length xs else unat (of_offset f)
     in contents s' (of_vnode f) = Some (write_at xs start (concat pieces)) \<and>
        (\<forall>w. w \<noteq> of_vnode f \<longrightarrow> contents s' w = contents s w) \<and>
        fst (act_bind (OpenFile_seek ops (SeekStart (of_nat start))) (\<lambda>_. OpenFile_read ops (length (concat pieces))) (f', s')) =
          Ok (concat pieces))"
proof -
  define start where "start = (if is_append (of_flags f) then length xs else unat (of_offset f))"
  have rw: "flags_readable (of_flags f)" "flags_writable (of_flags f)" using rdwr_flags [OF flags] by simp_all
  have start: "start \<le> isize_max" using fits by (auto simp: start_def)
  have "\<exists>f' s'. write_pieces ops pieces (f, s) = (Ok (), (f', s')) \<and> of_vnode f' = of_vnode f \<and> of_flags f' = of_flags f \<and>
    sinv s' \<and> contents s' (of_vnode f) = Some (write_at xs start (concat pieces)) \<and> (\<forall>w. w \<noteq> of_vnode f \<longrightarrow> contents s' w = contents s w)"
  proof (cases "is_append (of_flags f)")
    case True
    from file_store.append_pieces_ok [OF store s rw(2) True, of pieces] show ?thesis
      using True fits by (auto simp: start_def write_at_end)
  next
    case False
    have "unat (of_offset f) + length (concat pieces) \<le> isize_max" using fits by linarith
    from file_store.write_pieces_ok [OF store s rw(2) False this] pieces obtain s' where
      "write_pieces ops pieces (f, s) = (Ok (), (f\<lparr>of_offset := of_offset f + of_nat (length (concat pieces))\<rparr>, s'))" "sinv s'"
      "contents s' (of_vnode f) = Some (write_at xs start (concat pieces))" "\<forall>w. w \<noteq> of_vnode f \<longrightarrow> contents s' w = contents s w"
      using False by (auto simp: start_def)
    then show ?thesis
      by (intro exI [of _ "f\<lparr>of_offset := of_offset f + of_nat (length (concat pieces))\<rparr>"] exI [of _ s']) simp
  qed
  then obtain f' s' where w: "write_pieces ops pieces (f, s) = (Ok (), (f', s'))" "of_vnode f' = of_vnode f" "of_flags f' = of_flags f"
    "sinv s'" "contents s' (of_vnode f) = Some (write_at xs start (concat pieces))" "\<forall>w. w \<noteq> of_vnode f \<longrightarrow> contents s' w = contents s w"
    by blast
  let ?f = "f'\<lparr>of_offset := of_nat start\<rparr>"
  have "OpenFile_seek ops (SeekStart (of_nat start)) (f', s') = (Ok (of_nat start), (?f, s'))"
    using isize_max_word(3) [OF start] by (simp add: OpenFile_seek_def)
  moreover have "fst (OpenFile_read ops (length (concat pieces)) (?f, s')) = Ok (concat pieces)"
    using file_store.open_read_ok [OF store w(4), of ?f] w(2,3,5) rw(1) isize_max_word(2) [OF start] by simp
  ultimately show ?thesis using w(1,5,6) unfolding start_def [symmetric] by (auto simp: act_bind_def)
qed

theorem descriptor_streams_witness:
  "\<exists>f' h'. write_pieces ram_ops [[1, 2], [3]] (\<lparr>of_vnode = 0, of_flags = O_RDWR, of_offset = 1\<rparr>, [RamFile (RamFsFile_new ''a'' 0)]) =
      (Ok (), (f', h')) \<and> ram_contents h' 0 = Some [0, 1, 2, 3]"
proof -
  let ?f = "\<lparr>of_vnode = 0 :: nat, of_flags = O_RDWR, of_offset = 1\<rparr>" and ?h = "[RamFile (RamFsFile_new ''a'' 0)]"
  have h: "heap_fits ?h" "ram_contents ?h (of_vnode ?f) = Some []"
    by (simp_all add: heap_fits_def node_wf_def RamFsFile_new_def ram_contents_def)
  have "of_flags ?f AND 3 = O_RDWR" "\<not> is_append (of_flags ?f)" by (simp_all add: O_RDWR_def is_append_def O_APPEND_def)
  note flags = this
  have "max (length ([] :: bytes)) (unat (of_offset ?f)) + length (concat [[1, 2], [3 :: u8]]) \<le> isize_max"
    by (simp add: isize_max_def)
  from descriptor_streams [OF ram_files.file_store_axioms h flags(1) _ this]
  obtain f' h' where "write_pieces ram_ops [[1, 2], [3]] (?f, ?h) = (Ok (), (f', h'))" "ram_contents h' 0 = Some (write_at [] 1 [1, 2, 3])"
    using flags(2) by (auto simp: Let_def)
  moreover have "write_at [] 1 [1, 2, 3] = [0, 1, 2, 3]" by (simp add: write_at_def overwrite_def vec_resize_def)
  ultimately show ?thesis by (intro exI [of _ f'] exI [of _ h']) simp
qed

end
