(* ===== verification/Sched.thy ===== *)
theory Sched
  imports Prelude
begin

text \<open>
  Threads, per-CPU data and the round-robin scheduler: \<open>src/proc/mod.rs\<close>, \<open>src/proc/percpu.rs\<close>,
  \<open>src/proc/scheduler.rs\<close> and the RISC-V half of \<open>src/proc/context.rs\<close>. The thread list is behind a lock, so
  the part of \<open>schedule\<close> up to the release of the lock is one step; the context switch, which comes after
  the release, is a step of its own. The number of the calling CPU is an argument.
\<close>

section \<open>Threads\<close>

record Context =
  ctx_ra :: u64
  ctx_sp :: u64
  ctx_s :: "u64 list"

definition Context_empty :: Context where
  "Context_empty = \<lparr>ctx_ra = 0, ctx_sp = 0, ctx_s = replicate 12 0\<rparr>"

definition Context_new :: "u64 \<Rightarrow> u64 \<Rightarrow> Context" where
  "Context_new entry stack_top = \<lparr>ctx_ra = entry, ctx_sp = stack_top, ctx_s = replicate 12 0\<rparr>"

datatype ThreadState = Ready | Running | Blocked | Terminated

record Thread =
  th_tid :: u64
  th_name :: string
  th_state :: ThreadState
  th_context :: Context
  th_stack_size :: nat
  th_affinity :: "u32 option"

definition STACK_SIZE :: nat where
  "STACK_SIZE = 16 * 1024"

text \<open>The stack's address is where the allocator placed it.\<close>

definition Thread_new :: "u64 \<Rightarrow> string \<Rightarrow> u64 \<Rightarrow> u64 \<Rightarrow> Thread" where
  "Thread_new tid name entry stack =
     (let stack_top = (stack + of_nat STACK_SIZE) AND NOT 0xF
      in \<lparr>th_tid = tid, th_name = name, th_state = Ready, th_context = Context_new entry stack_top,
          th_stack_size = STACK_SIZE, th_affinity = None\<rparr>)"

definition Thread_idle :: Thread where
  "Thread_idle = \<lparr>th_tid = 0, th_name = ''idle/0'', th_state = Running, th_context = Context_empty,
     th_stack_size = STACK_SIZE, th_affinity = Some 0\<rparr>"

text \<open>The name is \<open>idle/\<close> and the number of the CPU; there are at most eight CPUs.\<close>

definition digit :: "u32 \<Rightarrow> char" where
  "digit n = char_of (48 + unat n)"

definition Thread_idle_for_cpu :: "u64 \<Rightarrow> u32 \<Rightarrow> Thread" where
  "Thread_idle_for_cpu tid cpu_id = \<lparr>th_tid = tid, th_name = ''idle/'' @ [digit cpu_id], th_state = Running,
     th_context = Context_empty, th_stack_size = 0, th_affinity = Some cpu_id\<rparr>"


section \<open>Per-CPU data\<close>

definition MAX_CPUS :: nat where
  "MAX_CPUS = 8"

record PerCpuData =
  pc_cpu_id :: u32
  pc_current :: u32
  pc_idle :: u32
  pc_online :: bool
  pc_tick_count :: u64

definition PerCpuData_new :: PerCpuData where
  "PerCpuData_new = \<lparr>pc_cpu_id = 0, pc_current = - 1, pc_idle = - 1, pc_online = False, pc_tick_count = 0\<rparr>"

definition PerCpuData_init :: "u32 \<Rightarrow> PerCpuData \<Rightarrow> PerCpuData" where
  "PerCpuData_init cpu_id pc = \<lparr>pc_cpu_id = cpu_id, pc_current = - 1, pc_idle = - 1, pc_online = False, pc_tick_count = 0\<rparr>"

definition set_online :: "PerCpuData \<Rightarrow> PerCpuData" where
  "set_online pc = pc\<lparr>pc_online := True\<rparr>"

record sched =
  threads :: "Thread list"
  per_cpu :: "PerCpuData list"
  next_tid :: u64
  num_cpus_online :: u32
  total_cpu_count :: u32

definition sched_boot :: sched where
  "sched_boot = \<lparr>threads = [], per_cpu = replicate MAX_CPUS PerCpuData_new, next_tid = 1, num_cpus_online = 0, total_cpu_count = 1\<rparr>"

text \<open>An unknown CPU uses the data of CPU 0.\<close>

definition cpu_slot :: "u32 \<Rightarrow> nat" where
  "cpu_slot cpu_id = (if unat cpu_id < MAX_CPUS then unat cpu_id else 0)"

definition percpu_get :: "sched \<Rightarrow> u32 \<Rightarrow> PerCpuData" where
  "percpu_get st cpu_id = per_cpu st ! cpu_slot cpu_id"

definition percpu_set :: "u32 \<Rightarrow> (PerCpuData \<Rightarrow> PerCpuData) \<Rightarrow> sched \<Rightarrow> sched" where
  "percpu_set cpu_id f st = st\<lparr>per_cpu := (per_cpu st)[cpu_slot cpu_id := f (percpu_get st cpu_id)]\<rparr>"

definition percpu_init :: "u32 \<Rightarrow> u32 \<Rightarrow> (sched, unit, unit) act" where
  "percpu_init cpu_id cpu_count st =
     (if unat cpu_id \<ge> MAX_CPUS then (Panic, st\<lparr>total_cpu_count := cpu_count\<rparr>)
      else (Ok (), (percpu_set cpu_id (\<lambda>pc. set_online (PerCpuData_init cpu_id pc)) st)\<lparr>total_cpu_count := cpu_count, num_cpus_online := 1\<rparr>))"

definition percpu_init_secondary :: "u32 \<Rightarrow> sched \<Rightarrow> sched" where
  "percpu_init_secondary cpu_id st =
     (if unat cpu_id \<ge> MAX_CPUS then st
      else (percpu_set cpu_id (\<lambda>pc. set_online (PerCpuData_init cpu_id pc)) st)\<lparr>num_cpus_online := num_cpus_online st + 1\<rparr>)"


section \<open>The process subsystem\<close>

definition set_thread :: "nat \<Rightarrow> ThreadState \<Rightarrow> Thread list \<Rightarrow> Thread list" where
  "set_thread i x ts = ts[i := (ts ! i)\<lparr>th_state := x\<rparr>]"

definition proc_init :: "u32 \<Rightarrow> (sched, unit, unit) act" where
  "proc_init cpu_id =
     act_bind (percpu_init cpu_id 1) (\<lambda>_. act_modify (\<lambda>st.
       percpu_set cpu_id (\<lambda>pc. pc\<lparr>pc_current := 0, pc_idle := 0\<rparr>) (st\<lparr>threads := threads st @ [Thread_idle]\<rparr>)))"

definition init_on_secondary_cpu :: "u32 \<Rightarrow> sched \<Rightarrow> sched" where
  "init_on_secondary_cpu cpu_id st =
     (let idx = of_nat (length (threads st))
      in percpu_set cpu_id (\<lambda>pc. pc\<lparr>pc_current := idx, pc_idle := idx\<rparr>)
           (st\<lparr>threads := threads st @ [Thread_idle_for_cpu (next_tid st) cpu_id], next_tid := next_tid st + 1\<rparr>))"

text \<open>The CPU that a new thread wakes: the first other CPU that runs its idle thread.\<close>

definition kick_idle_cpu :: "u32 \<Rightarrow> sched \<Rightarrow> u32 option" where
  "kick_idle_cpu my_cpu st =
     find (\<lambda>cpu. cpu \<noteq> my_cpu \<and> pc_current (percpu_get st cpu) = pc_idle (percpu_get st cpu))
       (map of_nat [0..<unat (num_cpus_online st)])"

definition spawn :: "u32 \<Rightarrow> string \<Rightarrow> u64 \<Rightarrow> u64 \<Rightarrow> sched \<Rightarrow> (u64 \<times> u32 option) \<times> sched" where
  "spawn my_cpu name entry stack st =
     (let tid = next_tid st;
          st' = st\<lparr>threads := threads st @ [Thread_new tid name entry stack], next_tid := tid + 1\<rparr>
      in ((tid, kick_idle_cpu my_cpu st'), st'))"

definition current_tid :: "u32 \<Rightarrow> sched \<Rightarrow> u64 option" where
  "current_tid cpu_id st =
     (let idx = pc_current (percpu_get st cpu_id)
      in if idx = - 1 then None
         else if unat idx < length (threads st) then Some (th_tid (threads st ! unat idx)) else None)"

text \<open>The first part of \<open>exit\<close>; the call of \<open>schedule\<close> that follows is a step of its own.\<close>

definition exit_mark :: "u32 \<Rightarrow> sched \<Rightarrow> sched" where
  "exit_mark cpu_id st =
     (let idx = pc_current (percpu_get st cpu_id)
      in if idx \<noteq> - 1 \<and> unat idx < length (threads st)
         then st\<lparr>threads := set_thread (unat idx) Terminated (threads st)\<rparr> else st)"


section \<open>The scheduler\<close>

text \<open>The search: the threads after the current one, the current one last.\<close>

definition runnable :: "u32 \<Rightarrow> Thread \<Rightarrow> bool" where
  "runnable cpu_id th \<longleftrightarrow> th_state th = Ready \<and> (case th_affinity th of None \<Rightarrow> True | Some affinity \<Rightarrow> affinity = cpu_id)"

definition next_thread :: "u32 \<Rightarrow> nat \<Rightarrow> Thread list \<Rightarrow> nat option" where
  "next_thread cpu_id current_idx ts =
     find (\<lambda>idx. runnable cpu_id (ts ! idx)) (map (\<lambda>offset. (current_idx + offset) mod length ts) [1..<Suc (length ts)])"

text \<open>Returns the indexes of the two threads whose contexts are to be switched.\<close>

definition schedule :: "u32 \<Rightarrow> sched \<Rightarrow> (nat \<times> nat) option \<times> sched" where
  "schedule cpu_id st =
     (let pc = percpu_get st cpu_id; current_idx = unat (pc_current pc)
      in if pc_current pc = - 1 \<or> current_idx \<ge> length (threads st) then (None, st)
         else
           let ts = (if th_state (threads st ! current_idx) = Running then set_thread current_idx Ready (threads st) else threads st);
               switch_to = (\<lambda>next_idx.
                 if next_idx = current_idx then (None, st\<lparr>threads := set_thread current_idx Running ts\<rparr>)
                 else (Some (current_idx, next_idx),
                       percpu_set cpu_id (\<lambda>pc. pc\<lparr>pc_current := of_nat next_idx\<rparr>) (st\<lparr>threads := set_thread next_idx Running ts\<rparr>)))
           in case next_thread cpu_id current_idx ts of
                Some idx \<Rightarrow> switch_to idx
              | None \<Rightarrow>
                  if th_state (ts ! current_idx) = Terminated then
                    let idle_idx = unat (pc_idle pc)
                    in if idle_idx < length ts then switch_to idle_idx else (None, st\<lparr>threads := ts\<rparr>)
                  else (None, st\<lparr>threads := set_thread current_idx Running ts\<rparr>))"

definition ready_count :: "sched \<Rightarrow> nat" where
  "ready_count st = length (filter (\<lambda>t. th_state t = Ready) (threads st))"

definition active_count :: "sched \<Rightarrow> nat" where
  "active_count st = length (filter (\<lambda>t. th_state t \<noteq> Terminated) (threads st))"

text \<open>
  \<open>context_switch(old, new)\<close> on a CPU whose registers are \<open>regs\<close>: the registers are saved in the context of
  the old thread and loaded from the context of the new one.
\<close>

definition context_switch :: "nat \<Rightarrow> nat \<Rightarrow> Context \<Rightarrow> Thread list \<Rightarrow> Context \<times> Thread list" where
  "context_switch old new regs ts =
     (let ts' = ts[old := (ts ! old)\<lparr>th_context := regs\<rparr>] in (th_context (ts' ! new), ts'))"

section \<open>Histories\<close>

text \<open>
  The steps of the CPUs, in any order: a CPU that is up creates a thread, marks its thread as terminated
  or runs the scheduler; a CPU that is not up comes up. Memory holds fewer than \<open>2 ^ 32 - 1\<close> threads.
\<close>

definition cpu_up :: "sched \<Rightarrow> u32 \<Rightarrow> bool" where
  "cpu_up st c \<longleftrightarrow> unat c < MAX_CPUS \<and> pc_current (percpu_get st c) \<noteq> - 1"

inductive sched_step :: "sched \<Rightarrow> sched \<Rightarrow> bool" where
  step_spawn: "cpu_up st c \<Longrightarrow> length (threads st) < 2 ^ 32 - 2 \<Longrightarrow> sched_step st (snd (spawn c name entry stack st))"
| step_exit: "cpu_up st c \<Longrightarrow> sched_step st (exit_mark c st)"
| step_schedule: "cpu_up st c \<Longrightarrow> sched_step st (snd (schedule c st))"
| step_secondary: "unat c < MAX_CPUS \<Longrightarrow> \<not> cpu_up st c \<Longrightarrow> length (threads st) < 2 ^ 32 - 2 \<Longrightarrow>
    sched_step st (init_on_secondary_cpu c (percpu_init_secondary c st))"

inductive sched_reach :: "sched \<Rightarrow> bool" where
  reach_boot: "proc_init 0 sched_boot = (Ok (), st) \<Longrightarrow> sched_reach st"
| reach_step: "sched_reach st \<Longrightarrow> sched_step st st' \<Longrightarrow> sched_reach st'"

definition cur :: "sched \<Rightarrow> u32 \<Rightarrow> nat" where
  "cur st c = unat (pc_current (percpu_get st c))"

definition idle :: "sched \<Rightarrow> u32 \<Rightarrow> nat" where
  "idle st c = unat (pc_idle (percpu_get st c))"

definition allowed :: "u32 \<Rightarrow> Thread \<Rightarrow> bool" where
  "allowed c th \<longleftrightarrow> th_affinity th \<in> {None, Some c}"

definition sched_inv :: "sched \<Rightarrow> bool" where
  "sched_inv st \<longleftrightarrow> length (threads st) < 2 ^ 32 - 1 \<and> length (per_cpu st) = MAX_CPUS \<and>
     (\<forall>c. cpu_up st c \<longrightarrow> cur st c < length (threads st) \<and> idle st c < length (threads st) \<and>
        th_state (threads st ! cur st c) \<in> {Running, Terminated} \<and> allowed c (threads st ! cur st c) \<and>
        th_affinity (threads st ! idle st c) = Some c) \<and>
     (\<forall>c c'. cpu_up st c \<longrightarrow> cpu_up st c' \<longrightarrow> cur st c = cur st c' \<longrightarrow> c = c') \<and>
     (\<forall>i < length (threads st). th_state (threads st ! i) = Running \<longrightarrow> (\<exists>c. cpu_up st c \<and> cur st c = i))"

lemma sched_invD:
  assumes "sched_inv st"
  shows "length (threads st) < 2 ^ 32 - 1" "length (per_cpu st) = MAX_CPUS"
    "cpu_up st c \<Longrightarrow> cur st c < length (threads st)" "cpu_up st c \<Longrightarrow> idle st c < length (threads st)"
    "cpu_up st c \<Longrightarrow> th_state (threads st ! cur st c) \<in> {Running, Terminated}"
    "cpu_up st c \<Longrightarrow> allowed c (threads st ! cur st c)"
    "cpu_up st c \<Longrightarrow> th_affinity (threads st ! idle st c) = Some c"
    "cpu_up st c \<Longrightarrow> cpu_up st c' \<Longrightarrow> cur st c = cur st c' \<Longrightarrow> c = c'"
    "i < length (threads st) \<Longrightarrow> th_state (threads st ! i) = Running \<Longrightarrow> \<exists>c. cpu_up st c \<and> cur st c = i"
  using assms unfolding sched_inv_def by blast+

lemma percpu_get_set:
  assumes "length (per_cpu st) = MAX_CPUS" "unat c < MAX_CPUS" "unat c' < MAX_CPUS"
  shows "percpu_get (percpu_set c f st) c' = (if c' = c then f (percpu_get st c) else percpu_get st c')"
  using assms by (simp add: percpu_get_def percpu_set_def cpu_slot_def nth_list_update word_unat_eq_iff)

lemma percpu_set_fields [simp]:
  "threads (percpu_set c f st) = threads st" "length (per_cpu (percpu_set c f st)) = length (per_cpu st)"
  "percpu_get (st\<lparr>threads := ts\<rparr>) c = percpu_get st c" "percpu_get (st\<lparr>next_tid := t\<rparr>) c = percpu_get st c"
  by (simp_all add: percpu_set_def percpu_get_def)

lemma set_thread_simps [simp]:
  "length (set_thread i x ts) = length ts"
  "i < length ts \<Longrightarrow> j < length ts \<Longrightarrow> set_thread i x ts ! j = (if j = i then (ts ! i)\<lparr>th_state := x\<rparr> else ts ! j)"
  by (simp_all add: set_thread_def nth_list_update)

lemma allowed_state [simp]: "allowed c (th\<lparr>th_state := x\<rparr>) = allowed c th"
  by (simp add: allowed_def)

lemma runnable_allowed: "runnable c th \<longleftrightarrow> th_state th = Ready \<and> allowed c th"
  by (auto simp: runnable_def allowed_def split: option.splits)

lemma max_index: "i < 2 ^ 32 - 1 \<Longrightarrow> unat (of_nat i :: u32) = i \<and> (of_nat i :: u32) \<noteq> - 1"
proof -
  assume i: "i < 2 ^ 32 - 1"
  then have "unat (of_nat i :: u32) = i" by (simp add: unat_of_nat)
  moreover have "unat (- 1 :: u32) = 2 ^ 32 - 1" by (simp add: unsigned_minus_1_eq_mask mask_eq_exp_minus_1)
  ultimately show ?thesis using i by (metis less_irrefl)
qed

text \<open>The search returns the nearest runnable thread after the current one.\<close>

lemma next_thread_Some:
  assumes "next_thread c k ts = Some i" "ts \<noteq> []"
  shows "i < length ts" "runnable c (ts ! i)"
  using assms by (auto simp: next_thread_def find_Some_iff)

text \<open>A change of the current thread of one CPU: the old one is no longer running, the new one is.\<close>

lemma sched_inv_switch:
  assumes inv: "sched_inv st" and up: "cpu_up st c"
    and ts: "length ts = length (threads st)" "\<And>i. i < length ts \<Longrightarrow> th_affinity (ts ! i) = th_affinity (threads st ! i)"
      "\<And>i. i < length ts \<Longrightarrow> i \<noteq> cur st c \<Longrightarrow> i \<noteq> n \<Longrightarrow> th_state (ts ! i) = th_state (threads st ! i)"
    and old: "n \<noteq> cur st c \<Longrightarrow> th_state (ts ! cur st c) \<noteq> Running"
    and new: "n < length ts" "th_state (ts ! n) \<in> {Running, Terminated}" "allowed c (threads st ! n)"
      "\<And>c'. cpu_up st c' \<Longrightarrow> c' \<noteq> c \<Longrightarrow> cur st c' \<noteq> n"
  shows "sched_inv (percpu_set c (\<lambda>pc. pc\<lparr>pc_current := of_nat n\<rparr>) (st\<lparr>threads := ts\<rparr>))"
proof -
  define st' where "st' = percpu_set c (\<lambda>pc. pc\<lparr>pc_current := of_nat n\<rparr>) (st\<lparr>threads := ts\<rparr>)"
  note D = sched_invD [OF inv]
  have n: "unat (of_nat n :: u32) = n" "(of_nat n :: u32) \<noteq> - 1" using max_index [of n] new(1) ts(1) D(1) by simp_all
  have c: "unat c < MAX_CPUS" using up by (simp add: cpu_up_def)
  have get: "percpu_get st' c' = (if c' = c then (percpu_get st c)\<lparr>pc_current := of_nat n\<rparr> else percpu_get st c')"
    if "unat c' < MAX_CPUS" for c'
    using percpu_get_set [OF _ c that, of "st\<lparr>threads := ts\<rparr>"] D(2) by (simp add: st'_def)
  have up': "cpu_up st' c' \<longleftrightarrow> cpu_up st c'" for c'
    using up n(2) get [of c'] by (cases "unat c' < MAX_CPUS"; cases "c' = c") (simp_all add: cpu_up_def)
  have cur': "cur st' c' = (if c' = c then n else cur st c')" if "cpu_up st c'" for c'
    using that get [of c'] n(1) by (cases "c' = c") (simp_all add: cur_def cpu_up_def)
  have idle': "idle st' c' = idle st c'" if "cpu_up st c'" for c'
    using that get [of c'] by (cases "c' = c") (simp_all add: idle_def cpu_up_def)
  have threads': "threads st' = ts" by (simp add: st'_def)
  show ?thesis unfolding st'_def [symmetric] sched_inv_def
  proof (intro conjI allI impI)
    show "length (threads st') < 2 ^ 32 - 1" "length (per_cpu st') = MAX_CPUS" using D(1,2) ts(1) by (simp_all add: st'_def)
    fix c' assume "cpu_up st' c'"
    then have u: "cpu_up st c'" by (simp add: up')
    show "cur st' c' < length (threads st')" "idle st' c' < length (threads st')"
      using D(3,4) [OF u] cur' [OF u] idle' [OF u] new(1) ts(1) threads' by auto
    show "th_affinity (threads st' ! idle st' c') = Some c'"
      using D(4,7) [OF u] idle' [OF u] ts(1,2) threads' by simp
    show "th_state (threads st' ! cur st' c') \<in> {Running, Terminated}"
    proof (cases "c' = c")
      case False
      then have "cur st c' \<noteq> cur st c" "cur st c' \<noteq> n" using D(8) [OF u up] new(4) [OF u] by auto
      then show ?thesis using False cur' [OF u] D(3,5) [OF u] ts(1,3) threads' by simp
    qed (use cur' [OF u] new(2) threads' in simp)
    show "allowed c' (threads st' ! cur st' c')"
      using cur' [OF u] D(3,6) [OF u] new(1,3) ts(1,2) threads' by (simp add: allowed_def)
  next
    fix a b assume "cpu_up st' a" "cpu_up st' b" "cur st' a = cur st' b"
    then have u: "cpu_up st a" "cpu_up st b" by (simp_all add: up')
    then show "a = b" using cur' [OF u(1)] cur' [OF u(2)] D(8) [OF u] new(4) \<open>cur st' a = cur st' b\<close> by (metis (full_types))
  next
    fix i assume i: "i < length (threads st')" "th_state (threads st' ! i) = Running"
    show "\<exists>c'. cpu_up st' c' \<and> cur st' c' = i"
    proof (cases "i = n")
      case True
      then show ?thesis using up up' cur' [OF up] by auto
    next
      case False
      then have "i \<noteq> cur st c" using i old threads' by auto
      then have "th_state (threads st ! i) = Running" using i ts(3) False threads' by simp
      then obtain c' where "cpu_up st c'" "cur st c' = i" using D(9) i ts(1) threads' by auto
      then show ?thesis using up' cur' \<open>i \<noteq> cur st c\<close> by (intro exI [of _ c']) auto
    qed
  qed
qed

lemma percpu_set_same:
  assumes "length (per_cpu st) = MAX_CPUS" "cpu_up st c"
  shows "percpu_set c (\<lambda>pc. pc\<lparr>pc_current := of_nat (cur st c)\<rparr>) (st\<lparr>threads := ts\<rparr>) = st\<lparr>threads := ts\<rparr>"
  using assms by (simp add: percpu_set_def percpu_get_def cur_def cpu_up_def cpu_slot_def)

lemma sched_inv_schedule:
  assumes inv: "sched_inv st" and up: "cpu_up st c"
  shows "sched_inv (snd (schedule c st))"
proof -
  note D = sched_invD [OF inv]
  define k where "k = cur st c"
  define ts where "ts = (if th_state (threads st ! k) = Running then set_thread k Ready (threads st) else threads st)"
  have k: "k < length (threads st)" "unat (pc_current (percpu_get st c)) = k" "pc_current (percpu_get st c) \<noteq> - 1"
    using D(3) [OF up] up by (simp_all add: k_def cur_def cpu_up_def)
  have ts: "length ts = length (threads st)" "\<And>i. i < length ts \<Longrightarrow> th_affinity (ts ! i) = th_affinity (threads st ! i)"
    "\<And>i. i < length ts \<Longrightarrow> i \<noteq> k \<Longrightarrow> ts ! i = threads st ! i" "th_state (ts ! k) \<noteq> Running"
    using k(1) by (simp_all add: ts_def split: if_splits)
  have move: "sched_inv (percpu_set c (\<lambda>pc. pc\<lparr>pc_current := of_nat i\<rparr>) (st\<lparr>threads := set_thread i Running ts\<rparr>))"
    if i: "i < length ts" "allowed c (threads st ! i)" "\<And>c'. cpu_up st c' \<Longrightarrow> c' \<noteq> c \<Longrightarrow> cur st c' \<noteq> i" for i
  proof (rule sched_inv_switch [OF inv up])
    show "th_affinity (set_thread i Running ts ! j) = th_affinity (threads st ! j)" if "j < length (set_thread i Running ts)" for j
      using that i(1) ts(2) by simp
  qed (use i ts k(1) k_def in simp_all)
  have stay: "sched_inv (st\<lparr>threads := set_thread k Running ts\<rparr>)"
  proof -
    have "cur st c' \<noteq> k" if "cpu_up st c'" "c' \<noteq> c" for c' using D(8) [OF up that(1)] that(2) by (auto simp: k_def)
    then show ?thesis using move [of k] percpu_set_same [OF D(2) up] ts(1) k(1) D(6) [OF up] by (simp add: k_def)
  qed
  have sched: "schedule c st =
    (let switch_to = (\<lambda>i. if i = k then (None, st\<lparr>threads := set_thread k Running ts\<rparr>)
           else (Some (k, i), percpu_set c (\<lambda>pc. pc\<lparr>pc_current := of_nat i\<rparr>) (st\<lparr>threads := set_thread i Running ts\<rparr>)))
     in case next_thread c k ts of Some i \<Rightarrow> switch_to i
        | None \<Rightarrow> if th_state (ts ! k) = Terminated then
                    if idle st c < length ts then switch_to (idle st c) else (None, st\<lparr>threads := ts\<rparr>)
                  else (None, st\<lparr>threads := set_thread k Running ts\<rparr>))"
    using k unfolding schedule_def Let_def k(2) idle_def [symmetric] ts_def by (simp split: option.split)
  show ?thesis
  proof (cases "next_thread c k ts")
    case None
    have "idle st c < length ts" using D(4) [OF up] ts(1) by simp
    moreover have "sched_inv (percpu_set c (\<lambda>pc. pc\<lparr>pc_current := of_nat (idle st c)\<rparr>) (st\<lparr>threads := set_thread (idle st c) Running ts\<rparr>))"
      if "idle st c \<noteq> k"
    proof (rule move)
      show "idle st c < length ts" by fact
      show "allowed c (threads st ! idle st c)" using D(7) [OF up] by (simp add: allowed_def)
      show "cur st c' \<noteq> idle st c" if "cpu_up st c'" "c' \<noteq> c" for c'
        using D(6) [OF that(1)] D(7) [OF up] that(2) by (auto simp: allowed_def)
    qed
    ultimately show ?thesis using stay None unfolding sched Let_def by auto
  next
    case (Some i)
    have "ts \<noteq> []" using k(1) ts(1) by auto
    from next_thread_Some [OF Some this] have i: "i < length ts" "th_state (ts ! i) = Ready" "allowed c (ts ! i)"
      by (simp_all add: runnable_allowed)
    have "sched_inv (percpu_set c (\<lambda>pc. pc\<lparr>pc_current := of_nat i\<rparr>) (st\<lparr>threads := set_thread i Running ts\<rparr>))" if "i \<noteq> k"
    proof (rule move)
      show "i < length ts" "allowed c (threads st ! i)" using i ts(2) that by (simp_all add: allowed_def)
      show "cur st c' \<noteq> i" if "cpu_up st c'" "c' \<noteq> c" for c'
        using D(5) [OF that(1)] i(1,2) ts(3) [of i] \<open>i \<noteq> k\<close> by auto
    qed
    then show ?thesis using stay Some unfolding sched Let_def by auto
  qed
qed

lemma sched_inv_exit:
  assumes inv: "sched_inv st" and up: "cpu_up st c"
  shows "sched_inv (exit_mark c st)"
proof -
  note D = sched_invD [OF inv]
  let ?ts = "set_thread (cur st c) Terminated (threads st)"
  have "sched_inv (percpu_set c (\<lambda>pc. pc\<lparr>pc_current := of_nat (cur st c)\<rparr>) (st\<lparr>threads := ?ts\<rparr>))"
  proof (rule sched_inv_switch [OF inv up])
    show "th_affinity (?ts ! j) = th_affinity (threads st ! j)" if "j < length ?ts" for j
      using that D(3) [OF up] by simp
    show "cur st c' \<noteq> cur st c" if "cpu_up st c'" "c' \<noteq> c" for c' using D(8) [OF up that(1)] that(2) by auto
  qed (use D(3,6) [OF up] in simp_all)
  then have "sched_inv (st\<lparr>threads := ?ts\<rparr>)" unfolding percpu_set_same [OF D(2) up] .
  then show ?thesis using D(3) [OF up] up by (simp add: exit_mark_def cur_def cpu_up_def Let_def)
qed

text \<open>A thread is added that no CPU runs.\<close>

lemma sched_inv_append:
  assumes inv: "sched_inv st" and th: "th_state th = Ready" and len: "length (threads st) < 2 ^ 32 - 2"
  shows "sched_inv (st\<lparr>threads := threads st @ [th], next_tid := t\<rparr>)"
proof -
  note D = sched_invD [OF inv]
  let ?st = "st\<lparr>threads := threads st @ [th], next_tid := t\<rparr>"
  have same: "cpu_up ?st c = cpu_up st c" "cur ?st c = cur st c" "idle ?st c = idle st c" for c
    by (simp_all add: cpu_up_def cur_def idle_def percpu_get_def)
  have "\<exists>c. cpu_up st c \<and> cur st c = i" if "i < length (threads ?st)" "th_state (threads ?st ! i) = Running" for i
  proof -
    have "i < length (threads st)" using that th by (auto simp: nth_append less_Suc_eq split: if_splits)
    then show ?thesis using D(9) [of i] that(2) by (simp add: nth_append)
  qed
  then show ?thesis
    using D(1,2) D(3-7) D(8) len unfolding sched_inv_def same
    by (auto simp: nth_append less_SucI)
qed

lemma sched_inv_secondary:
  assumes inv: "sched_inv st" and c: "unat c < MAX_CPUS" "\<not> cpu_up st c" and len: "length (threads st) < 2 ^ 32 - 2"
  shows "sched_inv (init_on_secondary_cpu c (percpu_init_secondary c st))"
proof -
  define n where "n = length (threads st)"
  define st' where "st' = init_on_secondary_cpu c (percpu_init_secondary c st)"
  note D = sched_invD [OF inv]
  have n: "unat (of_nat n :: u32) = n" "(of_nat n :: u32) \<noteq> - 1" using max_index [of n] len by (simp_all add: n_def)
  have fields: "threads st' = threads st @ [Thread_idle_for_cpu (next_tid st) c]" "length (per_cpu st') = MAX_CPUS"
    using c(1) D(2) by (simp_all add: st'_def init_on_secondary_cpu_def percpu_init_secondary_def percpu_set_def Let_def)
  have get: "percpu_get st' c' = (if c' = c then \<lparr>pc_cpu_id = c, pc_current = of_nat n, pc_idle = of_nat n, pc_online = True, pc_tick_count = 0\<rparr>
      else percpu_get st c')" if "unat c' < MAX_CPUS" for c'
    using that c(1) D(2)
    by (simp add: st'_def init_on_secondary_cpu_def percpu_init_secondary_def percpu_set_def percpu_get_def Let_def cpu_slot_def
        PerCpuData_init_def set_online_def nth_list_update word_unat_eq_iff n_def)
  have up': "cpu_up st' c' \<longleftrightarrow> c' = c \<or> cpu_up st c'" for c'
    using c get [of c'] n(2) by (cases "unat c' < MAX_CPUS"; cases "c' = c") (simp_all add: cpu_up_def)
  have at: "cur st' c = n" "idle st' c = n" using get [OF c(1)] n(1) by (simp_all add: cur_def idle_def)
  have other: "cur st' c' = cur st c'" "idle st' c' = idle st c'" if "cpu_up st c'" for c'
    using that c(2) get [of c'] by (cases "c' = c"; simp add: cur_def idle_def cpu_up_def)+
  have old: "cur st c' < n" "idle st c' < n" if "cpu_up st c'" for c' using D(3,4) [OF that] by (simp_all add: n_def)
  have new: "threads st' ! n = Thread_idle_for_cpu (next_tid st) c" "i < n \<Longrightarrow> threads st' ! i = threads st ! i" "length (threads st') = Suc n" for i
    by (simp_all add: fields(1) n_def nth_append)
  show ?thesis unfolding st'_def [symmetric] sched_inv_def
  proof (intro conjI allI impI)
    show "length (threads st') < 2 ^ 32 - 1" "length (per_cpu st') = MAX_CPUS" using len fields by simp_all
    fix c' assume "cpu_up st' c'"
    then consider "c' = c" | "cpu_up st c'" "c' \<noteq> c" by (auto simp: up')
    note cases = this
    from cases show "cur st' c' < length (threads st')" "idle st' c' < length (threads st')"
      using at other old new(3) by (cases; simp add: less_SucI)+
    from cases show "th_state (threads st' ! cur st' c') \<in> {Running, Terminated}" "allowed c' (threads st' ! cur st' c')"
        "th_affinity (threads st' ! idle st' c') = Some c'"
      using at other old new(1,2) D(5-7) by (cases; simp add: Thread_idle_for_cpu_def allowed_def)+
  next
    fix a b assume ab: "cpu_up st' a" "cpu_up st' b" "cur st' a = cur st' b"
    show "a = b"
    proof (cases "a = c \<or> b = c")
      case True
      then show ?thesis using ab at(1) other(1) old(1) unfolding up' by (metis less_irrefl)
    next
      case False
      then show ?thesis using ab D(8) other(1) unfolding up' by metis
    qed
  next
    fix i assume i: "i < length (threads st')" "th_state (threads st' ! i) = Running"
    show "\<exists>c'. cpu_up st' c' \<and> cur st' c' = i"
    proof (cases "i = n")
      case True
      then show ?thesis using at up' by auto
    next
      case False
      then have "i < n" using i(1) new(3) by simp
      then show ?thesis using D(9) [of i] i(2) new(2) up' other(1) n_def by metis
    qed
  qed
qed

lemma sched_inv_boot:
  assumes "proc_init 0 sched_boot = (Ok (), st)"
  shows "sched_inv st"
proof -
  have st: "st = sched_boot\<lparr>threads := [Thread_idle], total_cpu_count := 1, num_cpus_online := 1,
      per_cpu := (per_cpu sched_boot)[0 := \<lparr>pc_cpu_id = 0, pc_current = 0, pc_idle = 0, pc_online = True, pc_tick_count = 0\<rparr>]\<rparr>"
    using assms by (auto simp: proc_init_def percpu_init_def act_bind_def MAX_CPUS_def percpu_set_def percpu_get_def cpu_slot_def
        sched_boot_def PerCpuData_init_def set_online_def)
  have get: "percpu_get st c = (if c = 0 then \<lparr>pc_cpu_id = 0, pc_current = 0, pc_idle = 0, pc_online = True, pc_tick_count = 0\<rparr> else PerCpuData_new)"
    if "unat c < MAX_CPUS" for c
    using that by (simp add: st percpu_get_def sched_boot_def cpu_slot_def MAX_CPUS_def nth_list_update unat_eq_0)
  have up: "cpu_up st c \<longleftrightarrow> c = 0" for c
    using get [of c] by (cases "unat c < MAX_CPUS"; cases "c = 0") (auto simp: cpu_up_def PerCpuData_new_def MAX_CPUS_def)
  have at: "cur st 0 = 0" "idle st 0 = 0" using get [of 0] by (simp_all add: cur_def idle_def MAX_CPUS_def)
  have "threads st = [Thread_idle]" "length (per_cpu st) = MAX_CPUS" by (simp_all add: st sched_boot_def)
  then show ?thesis unfolding sched_inv_def up using at by (simp add: Thread_idle_def allowed_def)
qed

lemma sched_reach_inv: "sched_reach st \<Longrightarrow> sched_inv st"
proof (induction rule: sched_reach.induct)
  case (reach_boot st)
  then show ?case by (rule sched_inv_boot)
next
  case (reach_step st st')
  from reach_step.hyps(2) reach_step.IH show ?case
  proof cases
    case (step_spawn c name entry stack)
    then show ?thesis using sched_inv_append [OF reach_step.IH] by (simp add: spawn_def Let_def Thread_new_def)
  qed (simp_all add: sched_inv_exit sched_inv_schedule sched_inv_secondary)
qed

section \<open>Round robin\<close>

lemma find_map_least:
  assumes "find P (map f [m..<n]) = Some y"
  obtains o1 where "m \<le> o1" "o1 < n" "y = f o1" "P y" "\<And>o2. m \<le> o2 \<Longrightarrow> o2 < o1 \<Longrightarrow> \<not> P (f o2)"
proof -
  from assms obtain i where i: "i < n - m" "P y" "y = f (m + i)" "\<And>j. j < i \<Longrightarrow> \<not> P (f (m + j))"
    by (auto simp: find_Some_iff)
  show ?thesis
  proof (rule that [of "m + i"])
    show "\<not> P (f o2)" if "m \<le> o2" "o2 < m + i" for o2 using i(4) [of "o2 - m"] that by simp
  qed (use i in auto)
qed

lemma mod_shift: "0 < x \<Longrightarrow> x < n \<Longrightarrow> (a + x) mod n \<noteq> a mod n" for x n a :: nat
  using mod_eq_dvd_iff_nat [of a "a + x" n] by (simp add: nat_dvd_not_less)

text \<open>The scheduler moves to the nearest runnable thread.\<close>

lemma schedule_nearest:
  assumes inv: "sched_inv st" and up: "cpu_up st c" and t: "t < length (threads st)" "runnable c (threads st ! t)"
    and d: "0 < d" "d < length (threads st)" "(cur st c + d) mod length (threads st) = t"
  obtains e where "0 < e" "e \<le> d" "cur (snd (schedule c st)) c = (cur st c + e) mod length (threads st)"
    "length (threads (snd (schedule c st))) = length (threads st)"
    "e < d \<Longrightarrow> threads (snd (schedule c st)) ! t = threads st ! t" "cpu_up (snd (schedule c st)) c"
proof -
  note D = sched_invD [OF inv]
  define k n where "k = cur st c" and "n = length (threads st)"
  define ts where "ts = (if th_state (threads st ! k) = Running then set_thread k Ready (threads st) else threads st)"
  have k: "k < n" "unat (pc_current (percpu_get st c)) = k" "pc_current (percpu_get st c) \<noteq> - 1"
    using D(3) [OF up] up by (simp_all add: k_def n_def cur_def cpu_up_def)
  have tk: "t \<noteq> k" using t(2) D(5) [OF up] by (auto simp: runnable_def k_def)
  have ts: "length ts = n" "ts ! t = threads st ! t" using k(1) t(1) tk by (simp_all add: ts_def n_def)
  have mod: "(k + o1) mod n \<noteq> k" if "0 < o1" "o1 < n" for o1 using mod_shift [OF that, of k] k(1) by simp
  have "next_thread c k ts \<noteq> None"
    using d t(2) ts by (auto simp: next_thread_def find_None_iff k_def [symmetric] n_def [symmetric] image_iff
        intro!: bexI [of _ d])
  then obtain i where i: "next_thread c k ts = Some i" by blast
  then obtain e where e: "1 \<le> e" "e < Suc n" "i = (k + e) mod n" "\<And>o2. 1 \<le> o2 \<Longrightarrow> o2 < e \<Longrightarrow> \<not> runnable c (ts ! ((k + o2) mod n))"
    unfolding next_thread_def ts(1) by (rule find_map_least) metis
  have "e \<le> d" using e(4) [of d] d t(2) ts(2) by (force simp: k_def n_def)
  then have "i \<noteq> k" using mod [of e] e(1,3) d(2) by (simp add: n_def)
  have i_len: "i < n" using e(3) k(1) by simp
  define st' where "st' = percpu_set c (\<lambda>pc. pc\<lparr>pc_current := of_nat i\<rparr>) (st\<lparr>threads := set_thread i Running ts\<rparr>)"
  have "schedule c st = (Some (k, i), st')"
    using k i \<open>i \<noteq> k\<close> unfolding schedule_def Let_def k(2) ts_def [symmetric] st'_def by (simp add: n_def)
  moreover have "cur st' c = i" "cpu_up st' c"
    using percpu_get_set [of "st\<lparr>threads := set_thread i Running ts\<rparr>" c c] D(1,2) up max_index [of i] i_len
    by (simp_all add: st'_def cur_def cpu_up_def n_def)
  moreover have "threads st' ! t = threads st ! t" if "e < d"
  proof -
    have "i \<noteq> t"
    proof
      assume "i = t"
      then have "(k + e) mod n = (k + d) mod n" using e(3) d(3) by (simp add: k_def n_def)
      moreover have "0 < d - e" "d - e < n" using that d(2) by (simp_all add: n_def)
      ultimately show False using mod_shift [of "d - e" n "k + e"] that by simp
    qed
    then show ?thesis using i_len t(1) ts by (simp add: st'_def n_def)
  qed
  ultimately show ?thesis using that [of e] e(1,3) \<open>e \<le> d\<close> ts(1) by (simp add: k_def n_def st'_def)
qed

lemma round_robin:
  assumes "sched_inv st" "cpu_up st c" "t < length (threads st)" "runnable c (threads st ! t)"
    and "0 < d" "d < length (threads st)" "(cur st c + d) mod length (threads st) = t"
  shows "\<exists>k \<le> d. cur (((\<lambda>s. snd (schedule c s)) ^^ k) st) c = t"
  using assms
proof (induction d arbitrary: st rule: less_induct)
  case (less d)
  let ?s = "snd (schedule c st)"
  from schedule_nearest [OF less.prems] obtain e where e: "0 < e" "e \<le> d" "cur ?s c = (cur st c + e) mod length (threads st)"
    "length (threads ?s) = length (threads st)" "e < d \<Longrightarrow> threads ?s ! t = threads st ! t" "cpu_up ?s c" by metis
  show ?case
  proof (cases "e = d")
    case True
    then show ?thesis using e less.prems by (intro exI [of _ 1]) simp
  next
    case False
    then have lt: "d - e < d" "0 < d - e" "d - e < length (threads ?s)" "e < d" using e less.prems(6) by simp_all
    have t: "t < length (threads ?s)" "runnable c (threads ?s ! t)" using e(4) e(5) [OF lt(4)] less.prems(3,4) by simp_all
    have "(cur ?s c + (d - e)) mod length (threads ?s) = t"
      unfolding e(3,4) mod_add_left_eq using e(2) less.prems(7) by simp
    moreover have "sched_inv ?s" by (rule sched_inv_schedule [OF less.prems(1,2)])
    ultimately obtain k where "k \<le> d - e" "cur (((\<lambda>s. snd (schedule c s)) ^^ k) ?s) c = t"
      using less.IH [OF lt(1) _ e(6) t lt(2,3)] by blast
    then show ?thesis using e(1,2) by (intro exI [of _ "Suc k"]) (simp add: funpow_Suc_right del: funpow.simps)
  qed
qed

section \<open>Context switches\<close>

text \<open>
  Each CPU with its registers, the thread whose code it executes, and the context switch it has still to
  make. The scheduler releases the lock before the switch: in between, the CPU still executes the old
  thread, which is already marked ready.
\<close>

record smp =
  m_sched :: sched
  m_regs :: "u32 \<Rightarrow> Context"
  m_exec :: "u32 \<Rightarrow> nat"
  m_pending :: "u32 \<Rightarrow> (nat \<times> nat) option"

definition smp_schedule :: "u32 \<Rightarrow> smp \<Rightarrow> smp" where
  "smp_schedule c m = (case schedule c (m_sched m) of (sw, st) \<Rightarrow> m\<lparr>m_sched := st, m_pending := (m_pending m)(c := sw)\<rparr>)"

definition smp_switch :: "u32 \<Rightarrow> nat \<Rightarrow> nat \<Rightarrow> smp \<Rightarrow> smp" where
  "smp_switch c old new m =
     (case context_switch old new (m_regs m c) (threads (m_sched m)) of (regs, ts) \<Rightarrow>
        m\<lparr>m_sched := (m_sched m)\<lparr>threads := ts\<rparr>, m_regs := (m_regs m)(c := regs), m_exec := (m_exec m)(c := new),
          m_pending := (m_pending m)(c := None)\<rparr>)"

inductive smp_step :: "smp \<Rightarrow> smp \<Rightarrow> bool" where
  smp_sched: "cpu_up (m_sched m) c \<Longrightarrow> m_pending m c = None \<Longrightarrow> smp_step m (smp_schedule c m)"
| smp_run: "cpu_up (m_sched m) c \<Longrightarrow> m_pending m c = None \<Longrightarrow> smp_step m (m\<lparr>m_regs := (m_regs m)(c := regs)\<rparr>)"
| smp_sw: "m_pending m c = Some (old, new) \<Longrightarrow> smp_step m (smp_switch c old new m)"

text \<open>On one CPU with nobody else at work the switch is safe: the thread resumes with its registers.\<close>

lemma context_switch_saves:
  assumes "old < length ts" "new < length ts" "old \<noteq> new" "context_switch old new regs ts = (regs', ts')"
  shows "regs' = th_context (ts ! new)" "th_context (ts' ! old) = regs" "fst (context_switch new old regs'' ts') = regs"
  using assms by (auto simp: context_switch_def)


section \<open>Properties\<close>

text \<open>
  C4. Whatever the CPUs do and in whatever order, two CPUs never have the same current thread, a CPU
  only has threads that may run on it, its current thread is running or has just terminated, and
  every thread marked as running is the current thread of some CPU.
\<close>

theorem threads_run_on_one_cpu:
  assumes "sched_reach st" "cpu_up st c"
  shows "cur st c < length (threads st) \<and> th_state (threads st ! cur st c) \<in> {Running, Terminated} \<and>
    th_affinity (threads st ! cur st c) \<in> {None, Some c} \<and>
    (\<forall>c'. cpu_up st c' \<longrightarrow> cur st c' = cur st c \<longrightarrow> c' = c) \<and>
    (\<forall>i < length (threads st). th_state (threads st ! i) = Running \<longrightarrow> (\<exists>c'. cpu_up st c' \<and> cur st c' = i))"
  using sched_reach_inv [OF assms(1)] assms(2) unfolding sched_inv_def allowed_def by blast

definition duo :: sched where
  "duo = init_on_secondary_cpu 1 (percpu_init_secondary 1 (snd (proc_init 0 sched_boot)))"

lemma duo_reach: "sched_reach duo"
proof -
  have init: "proc_init 0 sched_boot = (Ok (), snd (proc_init 0 sched_boot))"
    by (simp add: proc_init_def percpu_init_def act_bind_def MAX_CPUS_def)
  have "\<not> cpu_up (snd (proc_init 0 sched_boot)) 1" "length (threads (snd (proc_init 0 sched_boot))) = 1"
    by (simp_all add: proc_init_def percpu_init_def act_bind_def MAX_CPUS_def cpu_up_def percpu_get_def percpu_set_def
        cpu_slot_def sched_boot_def PerCpuData_new_def nth_list_update)
  then show ?thesis
    unfolding duo_def by (intro reach_step [OF reach_boot [OF init]] step_secondary) (simp_all add: MAX_CPUS_def)
qed

theorem threads_run_on_one_cpu_witness: "cpu_up duo 1 \<and> cur duo 1 < length (threads duo)"
proof -
  have "cpu_up duo 1"
    by (simp add: duo_def init_on_secondary_cpu_def percpu_init_secondary_def percpu_set_def percpu_get_def
        cpu_up_def cpu_slot_def MAX_CPUS_def proc_init_def percpu_init_def act_bind_def sched_boot_def Let_def nth_list_update)
  with threads_run_on_one_cpu [OF duo_reach this] show ?thesis by simp
qed

text \<open>
  C20. The scheduler is fair. A thread that is ready and may run on a CPU is that CPU's current thread
  after at most as many calls of the scheduler as there are threads, if no other CPU takes it first.
\<close>

theorem round_robin_serves:
  assumes "sched_reach st" "cpu_up st c" "t < length (threads st)" "th_state (threads st ! t) = Ready"
    and "th_affinity (threads st ! t) \<in> {None, Some c}"
  shows "\<exists>k < length (threads st). cur (((\<lambda>s. snd (schedule c s)) ^^ k) st) c = t"
proof -
  let ?n = "length (threads st)"
  note inv = sched_reach_inv [OF assms(1)]
  have t: "runnable c (threads st ! t)" using assms(4,5) by (simp add: runnable_allowed allowed_def)
  have ne: "t \<noteq> cur st c" using sched_invD(5) [OF inv assms(2)] assms(4) by auto
  define d where "d = (t + ?n - cur st c) mod ?n"
  have k: "cur st c < ?n" by (rule sched_invD(3) [OF inv assms(2)])
  have "(cur st c + d) mod ?n = (cur st c + (t + ?n - cur st c)) mod ?n" unfolding d_def by (rule mod_add_right_eq)
  also have "\<dots> = t" using k assms(3) by simp
  finally have d: "(cur st c + d) mod ?n = t" .
  moreover have "d \<noteq> 0" using d ne k by (metis add_0_right mod_less)
  moreover have "d < ?n" unfolding d_def using k by (intro mod_less_divisor) linarith
  ultimately show ?thesis using round_robin [OF inv assms(2,3) t, of d] by (metis le_less_trans neq0_conv)
qed

definition duo_spawned :: sched where
  "duo_spawned = snd (spawn 0 ''a'' 64 4096 duo)"

lemma duo_spawned_eq:
  "threads duo_spawned = [Thread_idle, Thread_idle_for_cpu 1 1, Thread_new 2 ''a'' 64 4096]"
  "cpu_up duo_spawned 0" "cpu_up duo_spawned 1" "sched_reach duo_spawned"
proof -
  have up: "cpu_up duo 0"
    by (simp add: duo_def init_on_secondary_cpu_def percpu_init_secondary_def percpu_set_def percpu_get_def
        cpu_up_def cpu_slot_def MAX_CPUS_def proc_init_def percpu_init_def act_bind_def sched_boot_def Let_def nth_list_update)
  show th: "threads duo_spawned = [Thread_idle, Thread_idle_for_cpu 1 1, Thread_new 2 ''a'' 64 4096]"
    by (simp add: duo_spawned_def spawn_def duo_def init_on_secondary_cpu_def percpu_init_secondary_def percpu_set_def percpu_get_def
        MAX_CPUS_def proc_init_def percpu_init_def act_bind_def sched_boot_def Let_def)
  show "cpu_up duo_spawned 0" "cpu_up duo_spawned 1"
    by (simp_all add: duo_spawned_def spawn_def duo_def init_on_secondary_cpu_def percpu_init_secondary_def percpu_set_def percpu_get_def
        cpu_up_def cpu_slot_def MAX_CPUS_def proc_init_def percpu_init_def act_bind_def sched_boot_def Let_def nth_list_update)
  have "length (threads duo) = 2" using th by (simp add: duo_spawned_def spawn_def Let_def)
  then show "sched_reach duo_spawned"
    unfolding duo_spawned_def by (intro reach_step [OF duo_reach] step_spawn up) simp
qed

theorem round_robin_serves_witness:
  "\<exists>k < 3. cur (((\<lambda>s. snd (schedule 1 s)) ^^ k) duo_spawned) 1 = 2"
  using round_robin_serves [OF duo_spawned_eq(4,3), of 2] by (simp add: duo_spawned_eq(1) Thread_new_def Let_def numeral_3_eq_3)

definition duo_state :: "ThreadState \<Rightarrow> ThreadState \<Rightarrow> ThreadState \<Rightarrow> Context \<Rightarrow> Context \<Rightarrow> Context \<Rightarrow> u32 \<Rightarrow> u32 \<Rightarrow> sched" where
  "duo_state x0 x1 x2 r0 r1 r2 c0 c1 =
     \<lparr>threads = [Thread_idle\<lparr>th_state := x0, th_context := r0\<rparr>, (Thread_idle_for_cpu 1 1)\<lparr>th_state := x1, th_context := r1\<rparr>,
        (Thread_new 2 ''a'' 64 4096)\<lparr>th_state := x2, th_context := r2\<rparr>],
      per_cpu = \<lparr>pc_cpu_id = 0, pc_current = c0, pc_idle = 0, pc_online = True, pc_tick_count = 0\<rparr> #
        \<lparr>pc_cpu_id = 1, pc_current = c1, pc_idle = 1, pc_online = True, pc_tick_count = 0\<rparr> # replicate 6 PerCpuData_new,
      next_tid = 3, num_cpus_online = 2, total_cpu_count = 1\<rparr>"

lemma duo_spawned_state:
  "duo_spawned = duo_state Running Running Ready Context_empty Context_empty (Context_new 64 20480) 0 1"
proof -
  have "replicate 8 x = x # x # replicate 6 x" for x :: PerCpuData by (simp add: numeral_eq_Suc)
  then show ?thesis
    by (simp add: duo_state_def duo_spawned_def spawn_def duo_def init_on_secondary_cpu_def percpu_init_secondary_def percpu_set_def
        percpu_get_def cpu_slot_def MAX_CPUS_def proc_init_def percpu_init_def act_bind_def sched_boot_def Let_def
        Thread_idle_def Thread_idle_for_cpu_def Thread_new_def STACK_SIZE_def PerCpuData_init_def set_online_def)
qed

lemma duo_schedule:
  "schedule 0 (duo_state Running Running Ready r0 r1 r2 0 1) = (Some (0, 2), duo_state Ready Running Running r0 r1 r2 2 1)"
  "schedule 0 (duo_state Ready Running Running r0 r1 r2 2 1) = (Some (2, 0), duo_state Running Running Ready r0 r1 r2 0 1)"
  "schedule 1 (duo_state Running Running Ready r0 r1 r2 0 1) = (Some (1, 2), duo_state Running Ready Running r0 r1 r2 0 2)"
  by (simp_all add: schedule_def duo_state_def percpu_get_def percpu_set_def cpu_slot_def MAX_CPUS_def Let_def next_thread_def runnable_def
      set_thread_def upt_rec Thread_idle_def Thread_idle_for_cpu_def Thread_new_def)

text \<open>
  C25. The lock is released before the context switch, and the old thread is ready by then. Two CPUs can
  therefore execute one thread at the same time: one has not yet saved its registers when the other
  picks the thread and loads the registers saved earlier.
\<close>

theorem context_switch_race:
  "\<exists>m m'. m_sched m = duo_spawned \<and> m_exec m 0 = 0 \<and> m_exec m 1 = 1 \<and> m_pending m = (\<lambda>_. None) \<and> smp_step\<^sup>*\<^sup>* m m' \<and>
     m_exec m' 0 = m_exec m' 1 \<and> m_pending m' 1 = None \<and> m_regs m' 0 = regs \<and> m_regs m' 1 = Context_new 64 20480"
proof -
  let ?e = Context_empty and ?n = "Context_new 64 20480"
  let ?none = "\<lambda>_. None :: (nat \<times> nat) option" and ?exec = "(\<lambda>_. 1)(0 := 0) :: u32 \<Rightarrow> nat"
  define m0 where "m0 = \<lparr>m_sched = duo_spawned, m_regs = \<lambda>_. ?e, m_exec = ?exec, m_pending = ?none\<rparr>"
  define m1 where "m1 = smp_switch 0 0 2 (smp_schedule 0 m0)"
  define m2 where "m2 = m1\<lparr>m_regs := (m_regs m1)(0 := regs)\<rparr>"
  define m3 where "m3 = smp_schedule 1 (smp_schedule 0 m2)"
  define m4 where "m4 = smp_switch 1 1 2 m3"
  have m1: "m1 = \<lparr>m_sched = duo_state Ready Running Running ?e ?e ?n 2 1, m_regs = (\<lambda>_. ?e)(0 := ?n), m_exec = ?exec(0 := 2), m_pending = ?none\<rparr>"
    by (simp add: m1_def m0_def smp_schedule_def smp_switch_def duo_spawned_state duo_schedule context_switch_def)
      (simp add: duo_state_def Thread_new_def Thread_idle_def Let_def fun_eq_iff)
  have up: "cpu_up duo_spawned 0" "cpu_up (m_sched m1) 0" "cpu_up (m_sched (smp_schedule 0 m2)) 1"
    using duo_spawned_eq(2)
    by (simp_all add: m2_def m1 smp_schedule_def duo_schedule)
      (simp_all add: cpu_up_def percpu_get_def duo_state_def cpu_slot_def MAX_CPUS_def)
  have "smp_step m0 (smp_schedule 0 m0)" by (rule smp_sched) (use up(1) in \<open>simp_all add: m0_def\<close>)
  moreover have "smp_step (smp_schedule 0 m0) m1"
    unfolding m1_def by (rule smp_sw) (simp add: m0_def smp_schedule_def duo_spawned_state duo_schedule)
  moreover have "smp_step m1 m2" unfolding m2_def by (rule smp_run) (use up(2) in \<open>simp_all add: m1\<close>)
  moreover have "smp_step m2 (smp_schedule 0 m2)" by (rule smp_sched) (use up(2) in \<open>simp_all add: m2_def m1\<close>)
  moreover have "smp_step (smp_schedule 0 m2) m3"
    unfolding m3_def by (rule smp_sched) (use up(3) in \<open>simp_all add: m2_def m1 smp_schedule_def duo_schedule\<close>)
  moreover have "m_pending m3 1 = Some (1, 2)" by (simp add: m3_def m2_def m1 smp_schedule_def duo_schedule)
  then have "smp_step m3 m4" unfolding m4_def by (rule smp_sw)
  ultimately have "smp_step\<^sup>*\<^sup>* m0 m4" by (meson converse_rtranclp_into_rtranclp rtranclp.rtrancl_refl)
  moreover have "m_exec m4 0 = 2" "m_exec m4 1 = 2" "m_pending m4 1 = None" "m_regs m4 0 = regs" "m_regs m4 1 = ?n"
    by (simp_all add: m4_def m3_def m2_def m1 smp_switch_def smp_schedule_def duo_schedule context_switch_def)
      (simp_all add: duo_state_def)
  ultimately show ?thesis by (intro exI [of _ m0] exI [of _ m4]) (simp add: m0_def)
qed

end
