(* ===== verification/Syscall.thy ===== *)
theory Syscall
  imports Fd_Table Sched
begin

text \<open>
  The system calls of \<open>src/syscall/mod.rs\<close>, \<open>src/syscall/fs.rs\<close> and \<open>src/syscall/process.rs\<close>, over any file system. The
  caller's memory is a list of bytes from address 0; an access outside it is a fault, which the model
  treats like a panic. The console records the bytes put out; its input is the list of the polls of the
  UART. A call that does not return is \<^const>\<open>None\<close>.
\<close>

section \<open>State and error numbers\<close>

record ('f, 's, 'v) kstate =
  k_vfs :: "'f Vfs"
  k_fdt :: "nat FdTable option"
  k_files :: "'v OpenFile list"
  k_fs :: 's
  k_mem :: bytes
  k_out :: bytes
  k_in :: "u8 option list"
  k_sched :: sched

datatype errno = EPERM | ENOENT | ESRCH | EINTR | EIO | ENOMEM | EACCES | EFAULT | EBUSY | ENOTDIR | EISDIR | EINVAL | ENOSYS

primrec errno_code :: "errno \<Rightarrow> int" where
  "errno_code EPERM = - 1"
| "errno_code ENOENT = - 2"
| "errno_code ESRCH = - 3"
| "errno_code EINTR = - 4"
| "errno_code EIO = - 5"
| "errno_code ENOMEM = - 12"
| "errno_code EACCES = - 13"
| "errno_code EFAULT = - 14"
| "errno_code EBUSY = - 16"
| "errno_code ENOTDIR = - 20"
| "errno_code EISDIR = - 21"
| "errno_code EINVAL = - 22"
| "errno_code ENOSYS = - 38"

declare errno_code.simps [simp del]

definition vfs_error_to_errno :: "VfsError \<Rightarrow> int" where
  "vfs_error_to_errno e =
     (case e of
        NotFound \<Rightarrow> errno_code ENOENT | PermissionDenied \<Rightarrow> errno_code EACCES | AlreadyExists \<Rightarrow> errno_code EBUSY | NotADirectory \<Rightarrow> errno_code ENOTDIR
      | IsADirectory \<Rightarrow> errno_code EISDIR | VfsIoError \<Rightarrow> errno_code EIO | NoSpace \<Rightarrow> errno_code ENOMEM | ReadOnly \<Rightarrow> errno_code EACCES | NotSupported \<Rightarrow> errno_code ENOSYS
      | InvalidArgument \<Rightarrow> errno_code EINVAL | _ \<Rightarrow> errno_code EIO)"

text \<open>\<open>match r { Ok(n) => n, Err(e) => vfs_error_to_errno(e) }\<close>\<close>

definition reply :: "('k, int, VfsError) act \<Rightarrow> ('k, int, VfsError) act" where
  "reply m k = (case m k of (Err e, k') \<Rightarrow> (Ok (vfs_error_to_errno e), k') | (r, k') \<Rightarrow> (r, k'))"


section \<open>The caller's memory\<close>

text \<open>The bytes before the first zero from an address on.\<close>

fun c_str :: "bytes \<Rightarrow> (bytes, VfsError) outcome" where
  "c_str [] = Panic"
| "c_str (b # bs) = (if b = 0 then Ok [] else map_ok ((#) b) (c_str bs))"

definition user_string :: "bytes \<Rightarrow> nat \<Rightarrow> (string, VfsError) outcome" where
  "user_string mem p = map_ok (map (\<lambda>b. char_of (unat b))) (c_str (drop p mem))"

text \<open>\<open>slice::from_raw_parts(p, n)\<close>; an empty slice may be anywhere.\<close>

definition user_slice :: "bytes \<Rightarrow> nat \<Rightarrow> nat \<Rightarrow> (bytes, VfsError) outcome" where
  "user_slice mem p n = (if n = 0 then Ok [] else slice_get mem p n)"

text \<open>The loop of \<open>sys_open\<close> gives up after 4096 bytes.\<close>

fun c_str_max :: "nat \<Rightarrow> bytes \<Rightarrow> (bytes, VfsError) outcome" where
  "c_str_max n [] = Panic"
| "c_str_max 0 (b # bs) = (if b = 0 then Ok [] else Err InvalidArgument)"
| "c_str_max (Suc n) (b # bs) = (if b = 0 then Ok [] else map_ok ((#) b) (c_str_max n bs))"

definition user_path :: "bytes \<Rightarrow> nat \<Rightarrow> (string, VfsError) outcome" where
  "user_path mem p = map_ok (map (\<lambda>b. char_of (unat b))) (c_str_max 4096 (drop p mem))"


section \<open>Calls on files\<close>

definition on_file :: "nat \<Rightarrow> ('v OpenFile \<times> 's, 'a, VfsError) act \<Rightarrow> (('f, 's, 'v) kstate, 'a, VfsError) act" where
  "on_file i m k = (case m (k_files k ! i, k_fs k) of (r, (f, s)) \<Rightarrow> (r, k\<lparr>k_files := (k_files k)[i := f], k_fs := s\<rparr>))"

definition k_get :: "('f, 's, 'v) kstate \<Rightarrow> int \<Rightarrow> (nat, VfsError) outcome" where
  "k_get k fd = and_then (kernel_fd_table (k_fdt k)) (\<lambda>t. FdTable_get t fd)"

definition on_fd_table :: "(nat FdTable, 'a, VfsError) act \<Rightarrow> (('f, 's, 'v) kstate, 'a, VfsError) act" where
  "on_fd_table m k =
     (case kernel_fd_table (k_fdt k) of
        Ok t \<Rightarrow> (case m t of (r, t') \<Rightarrow> (r, k\<lparr>k_fdt := Some t'\<rparr>))
      | Err e \<Rightarrow> (Err e, k)
      | Panic \<Rightarrow> (Panic, k))"

text \<open>The system calls take the number of the descriptor as a \<open>usize\<close> and convert it; a count is returned \<open>as isize\<close>.\<close>

definition as_isize :: "nat \<Rightarrow> int" where
  "as_isize n = sint (of_nat n :: u64)"

definition sys_write ::
    "('s, 'v) vnode_ops \<Rightarrow> nat \<Rightarrow> nat \<Rightarrow> nat \<Rightarrow> (('f, 's, 'v) kstate, int, VfsError) act" where
  "sys_write ops fd buf count k =
     (if buf = 0 then (Ok (errno_code EFAULT), k)
      else case k_get k (as_i32 fd) of
        Ok i \<Rightarrow>
          reply (act_bind (act_lift (\<lambda>k. user_slice (k_mem k) buf count)) (\<lambda>data.
            act_bind (on_file i (OpenFile_write ops data)) (\<lambda>n. act_return (as_isize n)))) k
      | _ \<Rightarrow>
          if fd = 1 \<or> fd = 2 then
            act_bind (act_lift (\<lambda>k. user_slice (k_mem k) buf count)) (\<lambda>data.
              act_bind (act_modify (\<lambda>k. k\<lparr>k_out := k_out k @ data\<rparr>)) (\<lambda>_. act_return (as_isize count))) k
          else (Ok (errno_code ENOENT), k))"

text \<open>The loop that polls the UART for one byte.\<close>

fun poll :: "u8 option list \<Rightarrow> (u8 \<times> u8 option list) option" where
  "poll [] = None"
| "poll (Some c # rest) = Some (c, rest)"
| "poll (None # rest) = poll rest"

definition sys_read ::
    "('s, 'v) vnode_ops \<Rightarrow> nat \<Rightarrow> nat \<Rightarrow> nat \<Rightarrow> ('f, 's, 'v) kstate \<Rightarrow> ((int, VfsError) outcome \<times> ('f, 's, 'v) kstate) option" where
  "sys_read ops fd buf count k =
     (if buf = 0 then Some (Ok (errno_code EFAULT), k)
      else case k_get k (as_i32 fd) of
        Ok i \<Rightarrow>
          Some (if count \<noteq> 0 \<and> buf + count > length (k_mem k) then (Panic, k)
            else reply (act_bind (on_file i (OpenFile_read ops count)) (\<lambda>data.
                   act_bind (act_modify (\<lambda>k. k\<lparr>k_mem := overwrite (k_mem k) buf data\<rparr>)) (\<lambda>_. act_return (as_isize (length data))))) k)
      | _ \<Rightarrow>
          if fd = 0 then
            if count = 0 then Some (Ok 0, k)
            else (case poll (k_in k) of
                    None \<Rightarrow> None
                  | Some (c, rest) \<Rightarrow>
                      Some (if buf < length (k_mem k) then (Ok 1, k\<lparr>k_mem := (k_mem k)[buf := c], k_in := rest\<rparr>) else (Panic, k)))
          else Some (Ok (errno_code ENOENT), k))"

text \<open>
  \<open>sys_open\<close>: the object is looked up through the mount table; when it is missing and the flags ask for it,
  it is created from the root file system. \<open>let _ = truncate(0)\<close> ignores errors.
\<close>

definition open_vnode ::
    "('s, 'v) vnode_ops \<Rightarrow> ('f \<Rightarrow> 'v) \<Rightarrow> string \<Rightarrow> OpenFlags \<Rightarrow> u32 \<Rightarrow> (('f, 's, 'v) kstate, 'v, VfsError) act" where
  "open_vnode ops fs_root path fl mode k =
     (case lookup_path fs_root (\<lambda>v name. vn_lookup ops v name (k_fs k)) (k_vfs k) path of
        Ok v \<Rightarrow> if is_directory fl \<and> vn_node_type ops v (k_fs k) \<noteq> VDirectory then (Err NotADirectory, k) else (Ok v, k)
      | Err NotFound \<Rightarrow>
          if is_create fl then
            (case root_fs (k_vfs k) of
               None \<Rightarrow> (Panic, k)
             | Some fs \<Rightarrow>
                 (case resolve_parent (\<lambda>v name. vn_lookup ops v name (k_fs k)) (fs_root fs) path of
                    Ok (parent, name) \<Rightarrow>
                      (case vn_create ops parent name VFile (FileMode_new mode) (k_fs k) of (r, s) \<Rightarrow> (r, k\<lparr>k_fs := s\<rparr>))
                  | Err e \<Rightarrow> (Err e, k)
                  | Panic \<Rightarrow> (Panic, k)))
          else (Err NotFound, k)
      | Err e \<Rightarrow> (Err e, k)
      | Panic \<Rightarrow> (Panic, k))"

definition sys_open ::
    "('s, 'v) vnode_ops \<Rightarrow> ('f \<Rightarrow> 'v) \<Rightarrow> nat \<Rightarrow> OpenFlags \<Rightarrow> u32 \<Rightarrow> (('f, 's, 'v) kstate, int, VfsError) act" where
  "sys_open ops fs_root path fl mode k =
     (if path = 0 then (Ok (errno_code EFAULT), k)
      else reply (act_bind (act_lift (\<lambda>k. user_path (k_mem k) path)) (\<lambda>path_str.
             act_bind (open_vnode ops fs_root path_str fl mode) (\<lambda>v.
             act_bind (if is_truncate fl \<and> flags_writable fl
                       then act_ignore (\<lambda>k. case vn_truncate ops v 0 (k_fs k) of (r, s) \<Rightarrow> (r, k\<lparr>k_fs := s\<rparr>)) else act_return ()) (\<lambda>_.
             act_bind (act_lift (\<lambda>k. Ok (length (k_files k)))) (\<lambda>i.
             act_bind (act_modify (\<lambda>k. k\<lparr>k_files := k_files k @ [OpenFile_new v fl]\<rparr>)) (\<lambda>_.
               on_fd_table (FdTable_insert i))))))) k)"

definition sys_close :: "int \<Rightarrow> (('f, 's, 'v) kstate, int, VfsError) act" where
  "sys_close fd = reply (act_bind (on_fd_table (FdTable_close fd)) (\<lambda>_. act_return 0))"

definition sys_lseek :: "('s, 'v) vnode_ops \<Rightarrow> int \<Rightarrow> i64 \<Rightarrow> int \<Rightarrow> (('f, 's, 'v) kstate, int, VfsError) act" where
  "sys_lseek ops fd offset whence k =
     (let go = (\<lambda>seek_from. reply (act_bind (act_lift (\<lambda>k. k_get k fd)) (\<lambda>i.
                 act_bind (on_file i (OpenFile_seek ops seek_from)) (\<lambda>pos. act_return (sint pos)))) k)
      in if whence = 0 then go (SeekStart offset)
         else if whence = 1 then go (SeekCurrent offset)
         else if whence = 2 then go (SeekEnd offset)
         else (Ok (errno_code EINVAL), k))"

text \<open>The buffer has 64 bytes; the size and the mode are written at its start.\<close>

definition sys_fstat :: "('s, 'v) vnode_ops \<Rightarrow> int \<Rightarrow> nat \<Rightarrow> (('f, 's, 'v) kstate, int, VfsError) act" where
  "sys_fstat ops fd stat_buf k =
     (if stat_buf = 0 then (Ok (errno_code EFAULT), k)
      else reply (act_bind (act_lift (\<lambda>k. k_get k fd)) (\<lambda>i.
             act_bind (act_lift (\<lambda>k. vn_stat ops (of_vnode (k_files k ! i)) (k_fs k))) (\<lambda>st.
             act_bind (\<lambda>k. if stat_buf + 64 > length (k_mem k) then (Panic, k)
                       else (Ok (), k\<lparr>k_mem := overwrite (k_mem k) stat_buf (u64_to_le_bytes (stat_size st) @ u32_to_le_bytes (stat_mode st))\<rparr>))
               (\<lambda>_. act_return 0)))) k)"

text \<open>\<open>sys_mkdir\<close> and \<open>sys_unlink\<close> work from the root file system.\<close>

definition at_root_parent ::
    "('s, 'v) vnode_ops \<Rightarrow> ('f \<Rightarrow> 'v) \<Rightarrow> nat \<Rightarrow> ('v \<Rightarrow> string \<Rightarrow> ('s, 'a, VfsError) act) \<Rightarrow> (('f, 's, 'v) kstate, int, VfsError) act" where
  "at_root_parent ops fs_root path f k =
     (if path = 0 then (Ok (errno_code EFAULT), k)
      else case user_string (k_mem k) path of
        Ok path_str \<Rightarrow>
          (case root_fs (k_vfs k) of
             None \<Rightarrow> (Ok (errno_code EIO), k)
           | Some fs \<Rightarrow>
               reply (act_bind (act_lift (\<lambda>k. resolve_parent (\<lambda>v name. vn_lookup ops v name (k_fs k)) (fs_root fs) path_str)) (\<lambda>(parent, name).
                 act_bind (\<lambda>k. case f parent name (k_fs k) of (r, s) \<Rightarrow> (r, k\<lparr>k_fs := s\<rparr>)) (\<lambda>_. act_return 0))) k)
      | _ \<Rightarrow> (Panic, k))"

definition sys_mkdir :: "('s, 'v) vnode_ops \<Rightarrow> ('f \<Rightarrow> 'v) \<Rightarrow> nat \<Rightarrow> u32 \<Rightarrow> (('f, 's, 'v) kstate, int, VfsError) act" where
  "sys_mkdir ops fs_root path mode =
     at_root_parent ops fs_root path (\<lambda>parent name. vn_create ops parent name VDirectory (FileMode_new mode))"

definition sys_unlink :: "('s, 'v) vnode_ops \<Rightarrow> ('f \<Rightarrow> 'v) \<Rightarrow> nat \<Rightarrow> (('f, 's, 'v) kstate, int, VfsError) act" where
  "sys_unlink ops fs_root path = at_root_parent ops fs_root path (vn_unlink ops)"


section \<open>Calls on processes\<close>

text \<open>\<open>exit\<close> marks the thread, runs the scheduler and does not return.\<close>

definition sys_exit :: "u32 \<Rightarrow> ('f, 's, 'v) kstate \<Rightarrow> ('f, 's, 'v) kstate" where
  "sys_exit cpu k = k\<lparr>k_sched := snd (schedule cpu (exit_mark cpu (k_sched k)))\<rparr>"

definition sys_yield :: "u32 \<Rightarrow> (('f, 's, 'v) kstate, int, VfsError) act" where
  "sys_yield cpu k = (Ok 0, k\<lparr>k_sched := snd (schedule cpu (k_sched k))\<rparr>)"

definition sys_getpid :: "u32 \<Rightarrow> (('f, 's, 'v) kstate, int, VfsError) act" where
  "sys_getpid cpu k = (Ok (sint (case current_tid cpu (k_sched k) of Some t \<Rightarrow> t | None \<Rightarrow> 0)), k)"


section \<open>The dispatcher\<close>

datatype syscall = SYS_MKDIRAT | SYS_UNLINKAT | SYS_OPENAT | SYS_CLOSE | SYS_LSEEK | SYS_READ
  | SYS_WRITE | SYS_FSTAT | SYS_EXIT | SYS_EXIT_GROUP | SYS_SCHED_YIELD | SYS_GETPID
  | SYS_NANOSLEEP | SYS_BRK | SYS_MMAP

primrec syscall_number :: "syscall \<Rightarrow> nat" where
  "syscall_number SYS_MKDIRAT = 34"
| "syscall_number SYS_UNLINKAT = 35"
| "syscall_number SYS_OPENAT = 56"
| "syscall_number SYS_CLOSE = 57"
| "syscall_number SYS_LSEEK = 62"
| "syscall_number SYS_READ = 63"
| "syscall_number SYS_WRITE = 64"
| "syscall_number SYS_FSTAT = 80"
| "syscall_number SYS_EXIT = 93"
| "syscall_number SYS_EXIT_GROUP = 94"
| "syscall_number SYS_SCHED_YIELD = 124"
| "syscall_number SYS_GETPID = 172"
| "syscall_number SYS_NANOSLEEP = 101"
| "syscall_number SYS_BRK = 214"
| "syscall_number SYS_MMAP = 222"

text \<open>The arguments are the six registers; \<open>as i32\<close> and \<open>as u32\<close> keep the low bits.\<close>

definition arg_i32 :: "u64 \<Rightarrow> int" where
  "arg_i32 w = sint (ucast w :: u32)"

definition syscall_handler ::
    "('s, 'v) vnode_ops \<Rightarrow> ('f \<Rightarrow> 'v) \<Rightarrow> u32 \<Rightarrow> nat \<Rightarrow> u64 list \<Rightarrow> ('f, 's, 'v) kstate \<Rightarrow>
     ((int, VfsError) outcome \<times> ('f, 's, 'v) kstate) option" where
  "syscall_handler ops fs_root cpu syscall_num args k =
     (if syscall_num = syscall_number SYS_OPENAT then Some (sys_open ops fs_root (unat (args ! 1)) (ucast (args ! 2)) (ucast (args ! 3)) k)
      else if syscall_num = syscall_number SYS_CLOSE then Some (sys_close (arg_i32 (args ! 0)) k)
      else if syscall_num = syscall_number SYS_LSEEK then Some (sys_lseek ops (arg_i32 (args ! 0)) (args ! 1) (arg_i32 (args ! 2)) k)
      else if syscall_num = syscall_number SYS_READ then sys_read ops (unat (args ! 0)) (unat (args ! 1)) (unat (args ! 2)) k
      else if syscall_num = syscall_number SYS_WRITE then Some (sys_write ops (unat (args ! 0)) (unat (args ! 1)) (unat (args ! 2)) k)
      else if syscall_num = syscall_number SYS_FSTAT then Some (sys_fstat ops (arg_i32 (args ! 0)) (unat (args ! 1)) k)
      else if syscall_num = syscall_number SYS_EXIT \<or> syscall_num = syscall_number SYS_EXIT_GROUP then None
      else if syscall_num = syscall_number SYS_SCHED_YIELD then Some (sys_yield cpu k)
      else if syscall_num = syscall_number SYS_GETPID then Some (sys_getpid cpu k)
      else if syscall_num = syscall_number SYS_MKDIRAT then Some (sys_mkdir ops fs_root (unat (args ! 1)) (ucast (args ! 2)) k)
      else if syscall_num = syscall_number SYS_UNLINKAT then Some (sys_unlink ops fs_root (unat (args ! 1)) k)
      else Some (Ok (- 1), k))"


section \<open>Files of the memory file system through system calls\<close>

text \<open>Resolution in a heap follows the names.\<close>

lemma walk_reach:
  assumes "\<And>w. w \<in> set cs \<Longrightarrow> clean w" and "reach h a cs = Some b"
  shows "walk (\<lambda>v name. vn_lookup ram_ops v name h) a cs = Ok b"
  using assms
proof (induction cs arbitrary: a)
  case (Cons c cs)
  have "c \<noteq> []" using Cons.prems(1) [of c] by (simp add: clean_def)
  moreover obtain a' where "ram_lookup a c h = Ok a'" "reach h a' cs = Some b"
    using Cons.prems(2) by (cases "ram_lookup a c h") auto
  ultimately show ?case using Cons by (simp add: ram_ops_def)
qed simp

text \<open>The kernel with one memory file system mounted at the root, and a path to a file that is not there.\<close>

definition at_root :: "RamFs \<Rightarrow> RamFs Vfs" where
  "at_root fs = set_root_fs fs \<lparr>mount_table = [], root_fs = None\<rparr>"

definition fresh_file :: "ram_heap \<Rightarrow> string \<Rightarrow> string list \<Rightarrow> string \<Rightarrow> nat \<Rightarrow> RamFsDir \<Rightarrow> bool" where
  "fresh_file h path dir name a d \<longleftrightarrow> starts_with path ''/'' \<and> components path = dir @ [name] \<and> reach h 0 dir = Some a \<and>
     h ! a = RamDir d \<and> name \<notin> fst ` set (rdir_children d)"

lemma fresh_file_lookup:
  assumes wf: "ram_wf h" and root: "ramfs_root fs = 0" and fresh: "fresh_file h path dir name a d"
  shows "lookup_path ramfs_root (\<lambda>v name. vn_lookup ram_ops v name h) (at_root fs) path = Err NotFound"
    and "resolve_parent (\<lambda>v name. vn_lookup ram_ops v name h) 0 path = Ok (a, name)"
proof -
  let ?look = "\<lambda>v name. vn_lookup ram_ops v name h"
  from fresh have f: "starts_with path ''/''" "components path = dir @ [name]" "reach h 0 dir = Some a" "h ! a = RamDir d"
    "name \<notin> fst ` set (rdir_children d)" by (simp_all add: fresh_file_def)
  have clean: "clean w" if "w \<in> set (dir @ [name])" for w using components_clean [of w path] f(2) that by simp
  have dir: "walk ?look 0 dir = Ok a" by (rule walk_reach) (use clean f(3) in auto)
  then show "resolve_parent ?look 0 path = Ok (a, name)" using resolve_parent_components [OF f(1), of ?look 0] f(2) by simp
  have "map_of (rdir_children d) name = None" using f(5) by (simp add: map_of_eq_None_iff)
  then have "?look a name = Err NotFound" using f(4) by (simp add: ram_ops_def ram_lookup_kids)
  moreover have "name \<noteq> []" using clean [of name] by (simp add: clean_def)
  ultimately have "walk ?look 0 (dir @ [name]) = Err NotFound" using dir by (simp add: walk_append)
  moreover have "find_mount (at_root fs) p = Some (fs, p)" for p
    by (simp add: find_mount_def at_root_def set_root_fs_def mount_covers_def relative_path_def)
  ultimately show "lookup_path ramfs_root ?look (at_root fs) path = Err NotFound"
    using f(1,2) root resolve_components [of "path_of (dir @ [name])" ?look 0] components_path_of [of "dir @ [name]"] clean
    by (simp add: lookup_path_def normalize_eq)
qed

text \<open>Creating the file.\<close>

lemma fresh_file_create:
  assumes wf: "ram_wf h" and fresh: "fresh_file h path dir name a d"
  obtains h' where "vn_create ram_ops a name VFile mode h = (Ok (length h), h')" "ram_wf h'" "reach h' 0 (dir @ [name]) = Some (length h)"
    "ram_tree h' = (ram_tree h)(dir \<mapsto> TDir (rdir_mode d) (map fst (rdir_children d) @ [name]), dir @ [name] \<mapsto> TFile mode [])"
    "h' ! length h = RamFile (RamFsFile_new name mode)" "length h' = Suc (length h)"
proof -
  from fresh have f: "components path = dir @ [name]" "reach h 0 dir = Some a" "h ! a = RamDir d" "name \<notin> fst ` set (rdir_children d)"
    by (simp_all add: fresh_file_def)
  have clean: "clean name" using components_clean [of name path] f(1) by simp
  define d' where "d' = d\<lparr>rdir_children := rdir_children d @ [(name, length h)]\<rparr>"
  define h' where "h' = h[a := RamDir d'] @ [RamFile (RamFsFile_new name mode)]"
  have a: "a < length h" by (rule reach_bound [OF wf f(2)])
  have "distinct (map fst (rdir_children d))" using ram_wfD(2) [OF wf a] f(3) by (simp add: node_wf_def)
  then have nodes: "node_wf (RamDir d')" "node_wf (RamFile (RamFsFile_new name mode))"
    using f(4) by (simp_all add: node_wf_def d'_def RamFsFile_new_def)
  have U: "ram_wf h'" "reach h' 0 (dir @ [name]) = Some (length h)"
    "ram_tree h' = (ram_tree h)(dir \<mapsto> node_view (RamDir d'), dir @ [name] \<mapsto> node_view (RamFile (RamFsFile_new name mode)))"
    using ram_update_add [OF wf f(2) _ f(4) nodes(1) _ nodes(2)] f(3) unfolding h'_def by (simp_all add: d'_def)
  have "vn_create ram_ops a name VFile mode h = (Ok (length h), h')"
    using clean f(3,4) by (force simp: ram_ops_def ram_create_def RamFsDir_create_def clean_def h'_def d'_def)
  then show ?thesis using that [of h'] U by (simp add: h'_def d'_def RamFsFile_new_def nth_append)
qed

lemma fd_insert_ok:
  assumes wf: "fd_wf t" and free: "j < fdt_max t" "fd_map t (int j) = None"
  obtains fd t' where "FdTable_insert i t = (Ok fd, t')" "0 \<le> fd" "fd < 2 ^ 31" "fd_map t fd = None"
    "fd_map t' = (fd_map t)(fd \<mapsto> i)" "fd_wf t'"
proof -
  have "find (\<lambda>k. fd_map t (int k) = None) [0..<fdt_max t] \<noteq> None" using free by (auto simp: find_None_iff simp del: fd_map_int)
  then obtain k where k: "find (\<lambda>k. fd_map t (int k) = None) [0..<fdt_max t] = Some k" by blast
  then have free': "k < fdt_max t" "fd_map t (int k) = None" by (auto simp: find_Some_iff simp del: fd_map_int)
  have m: "map_insert (fdt_max t) i (fd_map t) = (Ok (FdNum (int k)), (fd_map t)(int k \<mapsto> i))"
    using k by (simp add: map_insert_def del: fd_map_int)
  obtain t' where t': "fd_exec (FdInsert i) t = (Ok (FdNum (int k)), t')" "fd_map t' = (fd_map t)(int k \<mapsto> i)" "fd_wf t'"
    using fd_insert_map [OF wf, of i] unfolding m fst_conv snd_conv by blast
  obtain r t'' where ins: "FdTable_insert i t = (r, t'')" by fastforce
  then have "r = Ok (int k) \<and> t'' = t'"
    using t'(1) by (cases r) (simp_all add: fd_exec_def act_bind_def)
  moreover have "int k < 2 ^ 31" using free'(1) wf by (simp add: fd_wf_def)
  ultimately show ?thesis using that ins free'(2) t'(2,3) by (metis of_nat_0_le_iff)
qed

lemma fd_close_ok:
  assumes wf: "fd_wf t" and fd: "fd_map t fd = Some i"
  obtains t' where "FdTable_close fd t = (Ok (), t')" "fd_map t' = (fd_map t)(fd := None)"
proof -
  obtain r t' where close: "FdTable_close fd t = (r, t')" by fastforce
  then have "r = Ok () \<and> fd_map t' = (fd_map t)(fd := None)"
    using fd_exec_map [OF wf, of "FdClose fd"] fd by (cases r) (simp_all add: fd_exec_def map_exec_def act_bind_def)
  then show ?thesis using close that by blast
qed

lemma as_isize_id: "n \<le> isize_max \<Longrightarrow> as_isize n = int n"
  by (simp add: as_isize_def isize_max_def signed_of_nat signed_take_bit_int_eq_self)

lemma as_i32_nat: "0 \<le> fd \<Longrightarrow> fd < 2 ^ 31 \<Longrightarrow> as_i32 (nat fd) = fd"
  by (simp add: as_i32_small)

lemma k_get_map: "k_fdt k = Some t \<Longrightarrow> k_get k fd = ok_or InvalidArgument (fd_map t fd)"
  by (simp add: k_get_def kernel_fd_table_def fd_get_map)

lemma ram_read_write:
  assumes "h ! b = RamFile f" "b < length h" "rfile_data f = []" "length data \<le> isize_max"
  shows "vn_write ram_ops b 0 data h = (Ok (length data), h[b := RamFile (f\<lparr>rfile_data := data\<rparr>)])"
    "vn_read ram_ops b 0 (length data) (h[b := RamFile (f\<lparr>rfile_data := data\<rparr>)]) = (Ok data, h[b := RamFile (f\<lparr>rfile_data := data\<rparr>)])"
  using assms RamFsFile_write_exact [of f 0 data] write_at_end [of "[]" data]
  by (simp_all add: ram_ops_def ram_write_def ram_read_def RamFsFile_read_exact)

text \<open>
  C9. A whole life of a file through system calls. In a kernel whose root is a memory file system, opening
  a path that is not there with \<open>O_CREAT\<close> and \<open>O_RDWR\<close> gives a descriptor that was not in use; writing a buffer, seeking
  to the start and reading into another buffer copies the bytes; closing gives the descriptor back; and
  the file system has changed by exactly that file.
\<close>

theorem syscall_file_life:
  fixes k :: "(RamFs, ram_heap, nat) kstate"
  assumes wf: "ram_wf (k_fs k)" and root: "k_vfs k = at_root fs" "ramfs_root fs = 0"
    and path: "p \<noteq> 0" "user_path (k_mem k) p = Ok path" "fresh_file (k_fs k) path dir name a d"
    and table: "k_fdt k = Some t" "fd_wf t" "j < fdt_max t" "fd_map t (int j) = None"
    and flags: "is_create fl" "fl AND 3 = O_RDWR" "\<not> is_append fl" "\<not> is_truncate fl"
    and bufs: "buf \<noteq> 0" "out \<noteq> 0" "buf + n \<le> length (k_mem k)" "out + n \<le> length (k_mem k)" "n \<le> isize_max"
  shows "\<exists>fd k1 k2 k3 k4 k5. sys_open ram_ops ramfs_root p fl mode k = (Ok fd, k1) \<and> 0 \<le> fd \<and> fd_map t fd = None \<and>
    sys_write ram_ops (nat fd) buf n k1 = (Ok (int n), k2) \<and> sys_lseek ram_ops fd 0 0 k2 = (Ok 0, k3) \<and>
    sys_read ram_ops (nat fd) out n k3 = Some (Ok (int n), k4) \<and>
    take n (drop out (k_mem k4)) = take n (drop buf (k_mem k)) \<and> sys_close fd k4 = (Ok 0, k5) \<and>
    (\<exists>t'. k_fdt k5 = Some t' \<and> fd_map t' = fd_map t) \<and>
    ram_tree (k_fs k5) = (ram_tree (k_fs k))(dir \<mapsto> TDir (rdir_mode d) (map fst (rdir_children d) @ [name]),
      dir @ [name] \<mapsto> TFile (FileMode_new mode) (take n (drop buf (k_mem k))))"
proof -
  define h where "h = k_fs k"
  define data where "data = take n (drop buf (k_mem k))"
  have data: "length data = n" "user_slice (k_mem k) buf n = Ok data" using bufs(3) by (auto simp: data_def user_slice_def slice_get_def)
  obtain h1 where h1: "vn_create ram_ops a name VFile (FileMode_new mode) h = (Ok (length h), h1)" "ram_wf h1"
    "reach h1 0 (dir @ [name]) = Some (length h)"
    "ram_tree h1 = (ram_tree h)(dir \<mapsto> TDir (rdir_mode d) (map fst (rdir_children d) @ [name]), dir @ [name] \<mapsto> TFile (FileMode_new mode) [])"
    "h1 ! length h = RamFile (RamFsFile_new name (FileMode_new mode))" "length h1 = Suc (length h)"
    using fresh_file_create [OF wf path(3)] unfolding h_def by metis
  define i where "i = length (k_files k)"
  obtain fd t1 where fd: "FdTable_insert i t = (Ok fd, t1)" "0 \<le> fd" "fd < 2 ^ 31" "fd_map t fd = None" "fd_map t1 = (fd_map t)(fd \<mapsto> i)" "fd_wf t1"
    by (rule fd_insert_ok [OF table(2-4)])
  define f where "f = OpenFile_new (length h) fl"
  define k1 where "k1 = k\<lparr>k_fs := h1, k_files := k_files k @ [f], k_fdt := Some t1\<rparr>"
  have open1: "sys_open ram_ops ramfs_root p fl mode k = (Ok fd, k1)"
    using path(1,2) flags(1,4) table(1) fd(1) h1(1) fresh_file_lookup [OF wf root(2) path(3)] root
    by (simp add: sys_open_def reply_def act_bind_def open_vnode_def on_fd_table_def kernel_fd_table_def h_def i_def k1_def f_def
        at_root_def set_root_fs_def)
  have get: "k_get k' fd = Ok i" if "k_fdt k' = Some t1" for k' :: "(RamFs, ram_heap, nat) kstate" using k_get_map [OF that] fd(5) by simp
  have rw: "flags_readable fl" "flags_writable fl" using rdwr_flags [OF flags(2)] by simp_all
  define h2 where "h2 = h1[length h := RamFile ((RamFsFile_new name (FileMode_new mode))\<lparr>rfile_data := data\<rparr>)]"
  have io: "vn_write ram_ops (length h) 0 data h1 = (Ok n, h2)" "vn_read ram_ops (length h) 0 n h2 = (Ok data, h2)"
    using ram_read_write [OF h1(5), of data] h1(6) data(1) bufs(5) by (simp_all add: h2_def RamFsFile_new_def)
  define k2 where "k2 = k1\<lparr>k_fs := h2, k_files := (k_files k1)[i := f\<lparr>of_offset := of_nat n\<rparr>]\<rparr>"
  have write2: "sys_write ram_ops (nat fd) buf n k1 = (Ok (int n), k2)"
    using bufs(1) get [of k1] fd(2,3) data(2) io(1) rw flags(3) as_isize_id [OF bufs(5)]
    by (simp add: sys_write_def as_i32_nat k1_def reply_def act_bind_def on_file_def OpenFile_write_def f_def OpenFile_new_def i_def k2_def nth_append)
  define k3 where "k3 = k2\<lparr>k_files := (k_files k1)[i := f]\<rparr>"
  have seek3: "sys_lseek ram_ops fd 0 0 k2 = (Ok 0, k3)"
    using get [of k2] by (simp add: sys_lseek_def reply_def act_bind_def on_file_def OpenFile_seek_def k2_def k1_def i_def k3_def f_def OpenFile_new_def)
  define k4 where "k4 = k2\<lparr>k_mem := overwrite (k_mem k) out data\<rparr>"
  have read4: "sys_read ram_ops (nat fd) out n k3 = Some (Ok (int n), k4)"
    using bufs(2,4) get [of k3] fd(2,3) io(2) rw data(1) as_isize_id [OF bufs(5)]
    by (simp add: sys_read_def as_i32_nat k3_def k2_def k1_def reply_def act_bind_def on_file_def OpenFile_read_def f_def OpenFile_new_def i_def k4_def nth_append)
  have "fd_map t1 fd = Some i" using fd(5) by simp
  then obtain t2 where t2: "FdTable_close fd t1 = (Ok (), t2)" "fd_map t2 = (fd_map t1)(fd := None)" by (rule fd_close_ok [OF fd(6)])
  define k5 where "k5 = k4\<lparr>k_fdt := Some t2\<rparr>"
  have close5: "sys_close fd k4 = (Ok 0, k5)" "fd_map t2 = fd_map t"
    using t2 fd(4,5)
    by (auto simp: sys_close_def reply_def act_bind_def on_fd_table_def kernel_fd_table_def k5_def k4_def k2_def k1_def)
  have "ram_tree h2 = (ram_tree h1)(dir @ [name] \<mapsto> TFile (FileMode_new mode) data)"
    using ram_update_same(3) [OF h1(2,3), of "RamFile ((RamFsFile_new name (FileMode_new mode))\<lparr>rfile_data := data\<rparr>)"] h1(5) data(1) bufs(5)
    by (simp add: h2_def node_wf_def RamFsFile_new_def)
  then have tree: "ram_tree (k_fs k5) = (ram_tree (k_fs k))(dir \<mapsto> TDir (rdir_mode d) (map fst (rdir_children d) @ [name]),
      dir @ [name] \<mapsto> TFile (FileMode_new mode) data)"
    using h1(4) by (simp add: k5_def k4_def k2_def h_def)
  have mem: "take n (drop out (k_mem k4)) = data" using data(1) bufs(4) by (simp add: k4_def overwrite_def)
  have fdt: "k_fdt k5 = Some t2" by (simp add: k5_def)
  show ?thesis
    unfolding data_def [symmetric]
    by (intro exI [of _ fd] exI [of _ k1] exI [of _ k2] exI [of _ k3] exI [of _ k4] exI [of _ k5] conjI exI [of _ t2]
        open1 fd(2,4) write2 seek3 read4 mem close5 fdt tree)
qed

theorem syscall_file_life_witness:
  "\<exists>fd k1 k2 k3 k4. let k = \<lparr>k_vfs = at_root (fst (RamFs_new [])), k_fdt = Some (FdTable_new 4), k_files = [], k_fs = snd (RamFs_new []),
      k_mem = [0, 0x2F, 0x61, 0, 7, 8, 0, 0], k_out = [], k_in = [], k_sched = sched_boot\<rparr>
    in sys_open ram_ops ramfs_root 1 0x42 0 k = (Ok fd, k1) \<and> sys_write ram_ops (nat fd) 4 2 k1 = (Ok 2, k2) \<and>
      sys_lseek ram_ops fd 0 0 k2 = (Ok 0, k3) \<and> sys_read ram_ops (nat fd) 6 2 k3 = Some (Ok 2, k4) \<and>
      take 2 (drop 6 (k_mem k4)) = [7, 8]"
proof -
  let ?h = "snd (RamFs_new [])" and ?fs = "fst (RamFs_new [])"
  let ?k = "\<lparr>k_vfs = at_root ?fs, k_fdt = Some (FdTable_new 4), k_files = [] :: nat OpenFile list, k_fs = ?h,
    k_mem = [0, 0x2F, 0x61, 0, 7, 8, 0, 0], k_out = [], k_in = [], k_sched = sched_boot\<rparr>"
  have wf: "ram_wf (k_fs ?k)" using RamFs_new_sim(1) by (simp add: ram_sim_def)
  have path: "user_path (k_mem ?k) 1 = Ok ''/a''"
  proof -
    have "c_str_max (Suc (Suc (Suc 4093))) (drop 1 (k_mem ?k)) = Ok [0x2F, 0x61]" by (simp del: Suc_numeral)
    then have "c_str_max 4096 (drop 1 (k_mem ?k)) = Ok [0x2F, 0x61]" by simp
    moreover have "char_of (unat (0x2F :: u8)) = CHR ''/''" "char_of (unat (0x61 :: u8)) = CHR ''a''" by code_simp+
    ultimately show ?thesis by (simp add: user_path_def)
  qed
  have fresh: "fresh_file (k_fs ?k) ''/a'' [] ''a'' 0 (RamFsDir_new ''/'' default_dir)"
    by (simp add: fresh_file_def RamFs_new_def RamFsDir_new_def components_def starts_with_def norm_step_def)
  have flags: "is_create 0x42" "(0x42 :: u32) AND 3 = O_RDWR" "\<not> is_append 0x42" "\<not> is_truncate 0x42"
    by (simp_all add: is_create_def is_append_def is_truncate_def O_CREAT_def O_APPEND_def O_TRUNC_def O_RDWR_def)
  have root: "k_vfs ?k = at_root ?fs" "k_fdt ?k = Some (FdTable_new 4)" by simp_all
  have bound: "4 + 2 \<le> length (k_mem ?k)" "6 + 2 \<le> length (k_mem ?k)" "2 \<le> isize_max" "(0::nat) < fdt_max (FdTable_new 4)"
    by (simp_all add: isize_max_def)
  have table: "fd_wf (FdTable_new 4)" "fd_map (FdTable_new 4) (int 0) = None" by (simp_all add: fd_wf_new)
  note syscall_file_life [where mode = 0, OF wf root(1) RamFs_new_sim(2) _ path fresh root(2) table(1) bound(4) table(2) flags _ _ bound(1-3)]
  then show ?thesis unfolding Let_def by auto
qed

section \<open>What a system call returns\<close>

definition errnos :: "int set" where
  "errnos = {errno_code EPERM, errno_code ENOENT, errno_code EIO, errno_code ENOMEM, errno_code EACCES, errno_code EFAULT, errno_code EBUSY, errno_code ENOTDIR, errno_code EISDIR, errno_code EINVAL, errno_code ENOSYS}"

definition fdt_wf :: "('f, 's, 'v) kstate \<Rightarrow> bool" where
  "fdt_wf k = (case k_fdt k of None \<Rightarrow> True | Some t \<Rightarrow> fd_wf t)"

text \<open>The result is a count or an error number, and the descriptor table stays well-formed.\<close>

definition returns :: "int set \<Rightarrow> (int, VfsError) outcome \<times> ('f, 's, 'v) kstate \<Rightarrow> bool" where
  "returns errs x \<longleftrightarrow> fdt_wf (snd x) \<and> (case fst x of Ok r \<Rightarrow> 0 \<le> r \<or> r \<in> errs | _ \<Rightarrow> True)"

lemma vfs_errno: "vfs_error_to_errno e \<in> errnos"
  by (cases e) (simp_all add: vfs_error_to_errno_def errnos_def)

lemma errnos_simps [simp]: "errno_code EFAULT \<in> errnos" "errno_code ENOENT \<in> errnos" "errno_code EINVAL \<in> errnos" "errno_code EIO \<in> errnos" "- 1 \<in> errnos"
  by (simp_all add: errnos_def errno_code.simps)

lemma returns_simps [simp]: "returns errs (Ok r, k) \<longleftrightarrow> fdt_wf k \<and> (0 \<le> r \<or> r \<in> errs)" "returns errs (Err e, k) \<longleftrightarrow> fdt_wf k"
  "returns errs (Panic, k) \<longleftrightarrow> fdt_wf k"
  by (auto simp: returns_def)

lemma reply_returns: "returns {} (m k) \<Longrightarrow> returns errnos (reply m k)"
  by (auto simp: returns_def reply_def vfs_errno split: prod.splits outcome.splits)

lemma fdt_wf_update [simp]: "fdt_wf (k\<lparr>k_mem := x\<rparr>) = fdt_wf k" "fdt_wf (k\<lparr>k_fs := s\<rparr>) = fdt_wf k"
  "fdt_wf (k\<lparr>k_files := fs\<rparr>) = fdt_wf k" "fdt_wf (k\<lparr>k_out := out\<rparr>) = fdt_wf k" "fdt_wf (k\<lparr>k_in := inp\<rparr>) = fdt_wf k"
  "fdt_wf (k\<lparr>k_sched := st\<rparr>) = fdt_wf k" "fdt_wf (k\<lparr>k_fdt := Some t\<rparr>) = fd_wf t"
  by (simp_all add: fdt_wf_def)

text \<open>Sequencing: the first step keeps the table.\<close>

lemma returns_bind:
  assumes "fdt_wf (snd (m k))" and "\<And>x k'. m k = (Ok x, k') \<Longrightarrow> fdt_wf k' \<Longrightarrow> returns errs (f x k')"
  shows "returns errs (act_bind m f k)"
  using assms by (auto simp: act_bind_def split: prod.splits outcome.splits)

lemma returns_return: "fdt_wf k \<Longrightarrow> 0 \<le> r \<Longrightarrow> returns errs (act_return r k)"
  by (simp add: act_return_def)

lemma fdt_wf_on_file: "fdt_wf k \<Longrightarrow> fdt_wf (snd (on_file i m k))"
  by (simp add: on_file_def split: prod.splits)

lemma fdt_wf_lift: "fdt_wf k \<Longrightarrow> fdt_wf (snd (act_lift f k))"
  by (simp add: act_lift_def)

lemma close_returns: "fdt_wf k \<Longrightarrow> fdt_wf (snd (on_fd_table (FdTable_close fd) k))"
  by (auto simp: on_fd_table_def kernel_fd_table_def fdt_wf_def FdTable_close_def fd_wf_def split: outcome.splits option.splits prod.splits)

lemma insert_returns:
  assumes "fdt_wf k" shows "returns {} (on_fd_table (FdTable_insert i) k)"
proof (cases "k_fdt k")
  case None
  then show ?thesis using assms by (simp add: on_fd_table_def kernel_fd_table_def)
next
  case (Some t)
  then have wf: "fd_wf t" using assms by (simp add: fdt_wf_def)
  obtain r t' where t': "FdTable_insert i t = (r, t')" by fastforce
  have "fd_wf t'" "r = Ok n \<Longrightarrow> 0 \<le> n" for n
    using fd_exec_map [OF wf, of "FdInsert i"] t'
    by (auto simp: fd_exec_def act_bind_def map_exec_def map_insert_def split: outcome.splits option.splits simp del: fd_map_int)
  then show ?thesis using Some t' by (cases r) (auto simp: on_fd_table_def kernel_fd_table_def)
qed

lemma seek_returns: "OpenFile_seek ops pos (f, s) = (Ok n, y) \<Longrightarrow> 0 \<le> sint n"
  by (auto simp: OpenFile_seek_def Let_def not_less split: SeekFrom.splits outcome.splits if_splits)

lemmas returns_rules = returns_bind fdt_wf_lift fdt_wf_on_file returns_return close_returns insert_returns

text \<open>What the code relies on of a file system: it reads no more than was asked for and writes no more than it was given.\<close>

definition ops_bounded :: "('s, 'v) vnode_ops \<Rightarrow> bool" where
  "ops_bounded ops \<longleftrightarrow> (\<forall>v off n s data s'. vn_read ops v off n s = (Ok data, s') \<longrightarrow> length data \<le> n) \<and>
     (\<forall>v off data s n s'. vn_write ops v off data s = (Ok n, s') \<longrightarrow> n \<le> length data)"

lemma ops_boundedD:
  "ops_bounded ops \<Longrightarrow> vn_read ops v off n s = (Ok data, s') \<Longrightarrow> length data \<le> n"
  "ops_bounded ops \<Longrightarrow> vn_write ops v off data s = (Ok n, s') \<Longrightarrow> n \<le> length data"
  unfolding ops_bounded_def by blast+

lemma ram_ops_bounded: "ops_bounded ram_ops"
proof -
  have "snd x = length buf" if "RamFsFile_write f off buf = Ok x" for f off buf x
    using that by (auto simp: RamFsFile_write_def Let_def data_resize_def split: if_splits)
  moreover have "length data \<le> n" if "RamFsFile_read f off n = Ok data" for f off n data
    using that by (auto simp: RamFsFile_read_def slice_get_def Let_def split: if_splits)
  ultimately show ?thesis
    by (fastforce simp: ops_bounded_def ram_ops_def ram_read_def ram_write_def split: RamNode.splits outcome.splits prod.splits)
qed

lemma OpenFile_bounded:
  assumes "ops_bounded ops"
  shows "OpenFile_read ops len x = (Ok data, y) \<Longrightarrow> length data \<le> len" "OpenFile_write ops data x = (Ok n, y) \<Longrightarrow> n \<le> length data"
  by (auto simp: OpenFile_read_def OpenFile_write_def Let_def split: prod.splits if_splits outcome.splits dest: ops_boundedD [OF assms])

lemma user_slice_length: "user_slice mem p n = Ok data \<Longrightarrow> length data = n \<and> n \<le> length mem"
  by (auto simp: user_slice_def slice_get_def split: if_splits)

lemma sys_write_returns:
  assumes "fdt_wf k" "ops_bounded ops" "length (k_mem k) \<le> isize_max"
  shows "returns errnos (sys_write ops fd buf n k)"
proof -
  have count: "0 \<le> as_isize j" if "user_slice (k_mem k) buf n = Ok data" "j \<le> length data" for j data
    using user_slice_length [OF that(1)] that(2) assms(3) by (simp add: as_isize_id)
  have "returns errnos (reply (act_bind (act_lift (\<lambda>k. user_slice (k_mem k) buf n)) (\<lambda>data. act_bind (on_file i (OpenFile_write ops data)) (\<lambda>n. act_return (as_isize n)))) k)" for i
    using assms(1) count OpenFile_bounded(2) [OF assms(2)]
    by (auto intro!: returns_rules reply_returns simp: act_lift_def on_file_def split: prod.splits)
  moreover have "returns errnos (act_bind (act_lift (\<lambda>k. user_slice (k_mem k) buf n)) (\<lambda>data.
      act_bind (act_modify (\<lambda>k. k\<lparr>k_out := k_out k @ data\<rparr>)) (\<lambda>_. act_return (as_isize n))) k)"
    using assms(1) count user_slice_length by (auto intro!: returns_rules simp: act_lift_def act_modify_def)
  ultimately show ?thesis using assms(1) by (auto simp: sys_write_def split: outcome.splits)
qed

lemma sys_read_returns:
  assumes "fdt_wf k" "ops_bounded ops" "length (k_mem k) \<le> isize_max" "sys_read ops fd buf n k = Some x"
  shows "returns errnos x"
proof -
  have "returns errnos (reply (act_bind (on_file i (OpenFile_read ops n)) (\<lambda>data.
      act_bind (act_modify (\<lambda>k. k\<lparr>k_mem := overwrite (k_mem k) buf data\<rparr>)) (\<lambda>_. act_return (as_isize (length data))))) k)"
    if "n = 0 \<or> buf + n \<le> length (k_mem k)" for i
  proof -
    have "0 \<le> as_isize j" if "j \<le> n" for j using that \<open>n = 0 \<or> buf + n \<le> length (k_mem k)\<close> assms(3) by (auto simp: as_isize_id)
    then show ?thesis using assms(1) OpenFile_bounded(1) [OF assms(2)]
      by (auto intro!: returns_rules reply_returns simp: act_modify_def on_file_def split: prod.splits)
  qed
  then show ?thesis using assms(1,4) by (auto simp: sys_read_def split: outcome.splits if_splits option.splits)
qed

lemma sys_close_returns: "fdt_wf k \<Longrightarrow> returns errnos (sys_close fd k)"
  unfolding sys_close_def by (auto intro!: returns_rules reply_returns simp: act_return_def dest: close_returns [of k fd])

lemma sys_lseek_returns: "fdt_wf k \<Longrightarrow> returns errnos (sys_lseek ops fd off whence k)"
  unfolding sys_lseek_def Let_def
  by (auto intro!: returns_rules reply_returns split: outcome.splits prod.splits simp: act_lift_def on_file_def dest: seek_returns)

lemma sys_fstat_returns: "fdt_wf k \<Longrightarrow> returns errnos (sys_fstat ops fd p k)"
  unfolding sys_fstat_def
  by (auto intro!: returns_rules reply_returns split: outcome.splits prod.splits if_splits simp: act_lift_def)

lemma at_root_parent_returns: "fdt_wf k \<Longrightarrow> returns errnos (at_root_parent ops fs_root p f k)"
  unfolding at_root_parent_def
  by (auto intro!: returns_rules reply_returns split: outcome.splits prod.splits option.splits simp: act_lift_def)

lemma open_vnode_fdt: "fdt_wf k \<Longrightarrow> fdt_wf (snd (open_vnode ops fs_root path fl mode k))"
  by (auto simp: open_vnode_def split: outcome.splits VfsError.splits option.splits prod.splits)

lemma truncate_fdt:
  "fdt_wf k \<Longrightarrow> fdt_wf (snd ((if b then act_ignore (\<lambda>k. case vn_truncate ops v n (k_fs k) of (r, s) \<Rightarrow> (r, k\<lparr>k_fs := s\<rparr>)) else act_return ()) k))"
  by (auto simp: act_ignore_def split: prod.splits outcome.splits)

lemma sys_open_returns: "fdt_wf k \<Longrightarrow> returns errnos (sys_open ops fs_root p fl mode k)"
  unfolding sys_open_def
  by (auto intro!: returns_rules open_vnode_fdt truncate_fdt reply_returns simp: act_modify_def)

text \<open>
  C22. The calling convention. Whatever number and arguments a program passes, over any file system whose reads and
  writes return at most the length of the buffer, with a caller's memory of less than \<open>2^63\<close> bytes and thread numbers that are not
  negative as \<open>isize\<close>: a system call that returns gives a number that is not negative, or
  one of the negative error numbers; and it leaves the descriptor table within its bound.
\<close>

theorem syscall_returns_count_or_errno:
  assumes "fdt_wf k" "\<forall>t \<in> set (threads (k_sched k)). 0 \<le> sint (th_tid t)" "ops_bounded ops" "length (k_mem k) \<le> isize_max"
    and "syscall_handler ops fs_root cpu syscall_num args k = Some (Ok r, k')"
  shows "(0 \<le> r \<or> r \<in> errnos) \<and> fdt_wf k'"
proof -
  have "returns errnos (sys_getpid cpu k)"
    using assms(1,2) by (auto simp: sys_getpid_def current_tid_def Let_def)
  moreover have "returns errnos (sys_yield cpu k)" using assms(1) by (simp add: sys_yield_def)
  moreover have "pred_option (returns errnos) (sys_read ops fd buf n k)" for fd buf n
    using sys_read_returns [OF assms(1,3,4)] by (cases "sys_read ops fd buf n k") auto
  ultimately have "pred_option (returns errnos) (syscall_handler ops fs_root cpu syscall_num args k)"
    using assms(1,3,4) unfolding syscall_handler_def sys_mkdir_def sys_unlink_def
    by (simp add: sys_open_returns sys_close_returns sys_lseek_returns sys_write_returns sys_fstat_returns at_root_parent_returns)
  then have "returns errnos (Ok r, k')" unfolding assms(5) by simp
  then show ?thesis by simp
qed

theorem syscall_returns_count_or_errno_witness:
  "let k = \<lparr>k_vfs = at_root (fst (RamFs_new [])), k_fdt = Some (FdTable_new 4), k_files = [], k_fs = snd (RamFs_new []),
      k_mem = [], k_out = [], k_in = [], k_sched = sched_boot\<rparr>
   in syscall_handler ram_ops ramfs_root 0 (syscall_number SYS_CLOSE) [1, 0, 0, 0, 0, 0] k = Some (Ok (errno_code EINVAL), k) \<and> errno_code EINVAL \<in> errnos \<and> errno_code EINVAL < 0"
proof -
  let ?k = "\<lparr>k_vfs = at_root (fst (RamFs_new [])), k_fdt = Some (FdTable_new 4), k_files = [] :: nat OpenFile list, k_fs = snd (RamFs_new []),
    k_mem = [], k_out = [], k_in = [], k_sched = sched_boot\<rparr>"
  have "fdt_wf ?k" "\<forall>t \<in> set (threads (k_sched ?k)). 0 \<le> sint (th_tid t)" "ops_bounded ram_ops" "length (k_mem ?k) \<le> isize_max"
    by (simp_all add: fdt_wf_def fd_wf_new sched_boot_def ram_ops_bounded)
  moreover have call: "syscall_handler ram_ops ramfs_root 0 (syscall_number SYS_CLOSE) [1, 0, 0, 0, 0, 0] ?k = Some (Ok (errno_code EINVAL), ?k)"
    by (simp add: syscall_handler_def sys_close_def reply_def act_bind_def on_fd_table_def kernel_fd_table_def
        FdTable_close_def FdTable_new_def arg_i32_def vfs_error_to_errno_def)
  moreover have "errno_code EINVAL < 0" by (simp add: errno_code.simps)
  ultimately show ?thesis using syscall_returns_count_or_errno [of ?k ram_ops ramfs_root 0 "syscall_number SYS_CLOSE" "[1, 0, 0, 0, 0, 0]" "errno_code EINVAL" ?k]
    unfolding Let_def by auto
qed

end
