(* ===== verification/Dev_Fs.thy ===== *)
theory Dev_Fs
  imports Vnode Block_Dev
begin

text \<open>
  The device file system, \<open>src/fs/devfs/mod.rs\<close>. Its objects are nodes of a heap, next to the block
  devices they refer to, the bytes put out on the console, and the global reference to the mounted
  instance. A device file system is the handle of its root. The locks are not modelled: calls are atomic.
\<close>

section \<open>Objects\<close>

text \<open>A block node holds the handle of its device and its name, a random device its seed.\<close>

datatype dev_node =
    DevFsRoot "(string \<times> nat) list"
  | NullDevice
  | ZeroDevice
  | ConsoleDevice
  | RandomDevice u64
  | BlockDeviceNode nat string

record 'd devfs =
  dn_nodes :: "dev_node list"
  dn_disks :: "'d list"
  dn_out :: bytes
  dn_global :: "nat option"

definition register :: "string \<Rightarrow> nat \<Rightarrow> (string \<times> nat) list \<Rightarrow> (string \<times> nat) list" where
  "register name device devices =
     (case position (\<lambda>(n, _). n = name) devices of
        Some pos \<Rightarrow> devices[pos := (name, device)]
      | None \<Rightarrow> devices @ [(name, device)])"

definition unregister :: "string \<Rightarrow> (string \<times> nat) list \<Rightarrow> (string \<times> nat) list" where
  "unregister name devices =
     (case position (\<lambda>(n, _). n = name) devices of Some pos \<Rightarrow> vec_remove pos devices | None \<Rightarrow> devices)"

text \<open>The devices of the root \<open>r\<close>, and the allocation of a node.\<close>

definition root_devices :: "'d devfs \<Rightarrow> nat \<Rightarrow> (string \<times> nat) list" where
  "root_devices s r = (case dn_nodes s ! r of DevFsRoot devices \<Rightarrow> devices | _ \<Rightarrow> [])"

definition new_node :: "dev_node \<Rightarrow> 'd devfs \<Rightarrow> nat \<times> 'd devfs" where
  "new_node nd s = (length (dn_nodes s), s\<lparr>dn_nodes := dn_nodes s @ [nd]\<rparr>)"

definition devfs_register_device :: "nat \<Rightarrow> string \<Rightarrow> nat \<Rightarrow> 'd devfs \<Rightarrow> 'd devfs" where
  "devfs_register_device r name device s =
     s\<lparr>dn_nodes := (dn_nodes s)[r := DevFsRoot (register name device (root_devices s r))]\<rparr>"

definition devfs_unregister_device :: "nat \<Rightarrow> string \<Rightarrow> 'd devfs \<Rightarrow> 'd devfs" where
  "devfs_unregister_device r name s =
     s\<lparr>dn_nodes := (dn_nodes s)[r := DevFsRoot (unregister name (root_devices s r))]\<rparr>"

definition add_device :: "nat \<Rightarrow> string \<Rightarrow> dev_node \<Rightarrow> 'd devfs \<Rightarrow> 'd devfs" where
  "add_device r name nd s = (case new_node nd s of (h, s') \<Rightarrow> devfs_register_device r name h s')"

definition DevFs_new :: "'d devfs \<Rightarrow> nat \<times> 'd devfs" where
  "DevFs_new s =
     (case new_node (DevFsRoot []) s of (r, s) \<Rightarrow>
        (r, add_device r ''console'' ConsoleDevice (add_device r ''zero'' ZeroDevice (add_device r ''null'' NullDevice s))))"

definition DevFs_statfs :: FsStats where
  "DevFs_statfs =
     \<lparr>fs_type_name = ''devfs'', fs_block_size = 512, fs_total_blocks = 0, fs_free_blocks = 0, fs_total_inodes = 0, fs_free_inodes = 0\<rparr>"

definition RandomDevice_new :: dev_node where
  "RandomDevice_new = RandomDevice 12345"

definition set_devfs :: "nat \<Rightarrow> 'd devfs \<Rightarrow> 'd devfs" where
  "set_devfs r s = s\<lparr>dn_global := Some r\<rparr>"

definition get_devfs :: "'d devfs \<Rightarrow> nat option" where
  "get_devfs s = dn_global s"

definition create_devfs :: "'d devfs \<Rightarrow> nat \<times> 'd devfs" where
  "create_devfs s =
     (case DevFs_new s of (r, s) \<Rightarrow>
        (r, set_devfs r (add_device r ''urandom'' RandomDevice_new (add_device r ''random'' RandomDevice_new s))))"


section \<open>The random device\<close>

definition RandomDevice_next :: "u64 \<Rightarrow> u64" where
  "RandomDevice_next seed =
     (let x = seed;
          x = x XOR push_bit 13 x;
          x = x XOR drop_bit 7 x;
          x = x XOR push_bit 17 x
      in x)"

text \<open>The loop of \<open>read\<close>: \<open>buf\<close> is the part of the buffer already filled.\<close>

function random_read_loop :: "nat \<Rightarrow> bytes \<Rightarrow> u64 \<Rightarrow> bytes \<times> u64" where
  "random_read_loop len buf seed =
     (if length buf < len then
        let rand = RandomDevice_next seed;
            to_copy = min 8 (len - length buf)
        in random_read_loop len (buf @ take to_copy (u64_to_le_bytes rand)) rand
      else (buf, seed))"
  by pat_completeness auto
termination
  by (relation "measure (\<lambda>(len, buf, _). len - length buf)") auto

definition RandomDevice_read :: "nat \<Rightarrow> u64 \<Rightarrow> bytes \<times> u64" where
  "RandomDevice_read len seed = random_read_loop len [] seed"


section \<open>Block device nodes\<close>

text \<open>
  The part of block \<open>block_num\<close> that a transfer of \<open>n\<close> bytes at \<open>offset\<close> covers.
\<close>

definition block_start :: "nat \<Rightarrow> nat \<Rightarrow> nat \<Rightarrow> nat" where
  "block_start block_size offset block_num = (if block_num = offset div block_size then offset mod block_size else 0)"

definition block_end :: "nat \<Rightarrow> nat \<Rightarrow> nat \<Rightarrow> nat \<Rightarrow> nat" where
  "block_end block_size offset n block_num =
     (if block_num = (offset + n - 1) div block_size then (offset + n - 1) mod block_size + 1 else block_size)"

text \<open>The loops over the blocks; \<open>out\<close> holds the bytes read so far, \<open>pos\<close> the number of bytes written.\<close>

fun node_read_loop ::
    "'d blkdev \<Rightarrow> 'd \<Rightarrow> nat \<Rightarrow> nat \<Rightarrow> nat \<Rightarrow> nat \<Rightarrow> nat list \<Rightarrow> bytes \<Rightarrow> (bytes, VfsError) outcome" where
  "node_read_loop dev d block_size offset n len [] out = Ok out"
| "node_read_loop dev d block_size offset n len (block_num # rest) out =
     and_then (map_err (\<lambda>_. VfsIoError) (bd_read_block dev d (of_nat block_num) block_size)) (\<lambda>block_buf.
       let s = block_start block_size offset block_num; e = block_end block_size offset n block_num
       in if e < s \<or> length out + (e - s) > len then Panic
          else and_then (slice_get block_buf s (e - s)) (\<lambda>part.
                 node_read_loop dev d block_size offset n len rest (out @ part)))"

definition BlockDeviceNode_read :: "'d blkdev \<Rightarrow> nat \<Rightarrow> nat \<Rightarrow> 'd \<Rightarrow> (bytes, VfsError) outcome" where
  "BlockDeviceNode_read dev offset len d =
     (let block_size = bd_block_size dev d; device_size = unat (blk_capacity dev d)
      in if offset \<ge> device_size then Ok []
         else let n = min len (device_size - offset)
              in if n = 0 then Ok []
                 else node_read_loop dev d block_size offset n len
                        [offset div block_size..<Suc ((offset + n - 1) div block_size)] [])"

fun node_write_loop ::
    "'d blkdev \<Rightarrow> nat \<Rightarrow> nat \<Rightarrow> nat \<Rightarrow> bytes \<Rightarrow> nat list \<Rightarrow> bytes \<Rightarrow> nat \<Rightarrow> ('d, nat, VfsError) act" where
  "node_write_loop dev block_size offset n buf [] block_buf pos = act_return pos"
| "node_write_loop dev block_size offset n buf (block_num # rest) block_buf pos =
     (let s = block_start block_size offset block_num; e = block_end block_size offset n block_num
      in act_bind (if s \<noteq> 0 \<or> e \<noteq> block_size
                   then act_lift (\<lambda>d. map_err (\<lambda>_. VfsIoError) (bd_read_block dev d (of_nat block_num) block_size))
                   else act_return block_buf) (\<lambda>block_buf.
         if e < s then act_panic
         else act_bind (act_lift (\<lambda>_. slice_get buf pos (e - s))) (\<lambda>part.
              act_bind (act_lift (\<lambda>_. slice_put block_buf s part)) (\<lambda>block_buf.
              act_bind (act_map_err (\<lambda>_. VfsIoError) (bd_write_block dev (of_nat block_num) block_buf)) (\<lambda>_.
                node_write_loop dev block_size offset n buf rest block_buf (pos + (e - s)))))))"

definition BlockDeviceNode_write :: "'d blkdev \<Rightarrow> nat \<Rightarrow> bytes \<Rightarrow> ('d, nat, VfsError) act" where
  "BlockDeviceNode_write dev offset buf d =
     (if bd_is_read_only dev d then (Err ReadOnly, d)
      else let block_size = bd_block_size dev d; device_size = unat (blk_capacity dev d)
           in if offset \<ge> device_size then (Err NoSpace, d)
              else let n = min (length buf) (device_size - offset)
                   in if n = 0 then (Ok 0, d)
                      else node_write_loop dev block_size offset n buf
                             [offset div block_size..<Suc ((offset + n - 1) div block_size)] (replicate block_size 0) 0 d)"


section \<open>The trait methods\<close>

definition dev_node_type :: "nat \<Rightarrow> 'd devfs \<Rightarrow> VNodeType" where
  "dev_node_type v s =
     (case dn_nodes s ! v of DevFsRoot _ \<Rightarrow> VDirectory | BlockDeviceNode _ _ \<Rightarrow> VBlockDevice | _ \<Rightarrow> VCharDevice)"

definition DevFsRoot_lookup :: "string \<Rightarrow> (string \<times> nat) list \<Rightarrow> (nat, VfsError) outcome" where
  "DevFsRoot_lookup name devices = ok_or NotFound (map_option snd (find (\<lambda>(n, _). n = name) devices))"

definition DevFsRoot_readdir :: "(string \<times> nat) list \<Rightarrow> 'd devfs \<Rightarrow> VDirEntry list" where
  "DevFsRoot_readdir devices s = map (\<lambda>(name, v). \<lparr>vde_name = name, vde_type = dev_node_type v s\<rparr>) devices"

definition DevFsRoot_stat :: "(string \<times> nat) list \<Rightarrow> Stat" where
  "DevFsRoot_stat devices =
     Stat_default\<lparr>stat_node_type := VDirectory, stat_mode := FileMode_new 0x1ED, stat_size := of_nat (length devices), stat_nlink := 2\<rparr>"

text \<open>All character devices have the same attributes.\<close>

definition char_stat :: Stat where
  "char_stat = Stat_default\<lparr>stat_node_type := VCharDevice, stat_mode := FileMode_new 0x1B6, stat_size := 0, stat_nlink := 1\<rparr>"

definition BlockDeviceNode_stat :: "'d blkdev \<Rightarrow> 'd \<Rightarrow> Stat" where
  "BlockDeviceNode_stat dev d =
     Stat_default\<lparr>stat_node_type := VBlockDevice, stat_mode := FileMode_new 0x1B0, stat_size := blk_capacity dev d, stat_nlink := 1,
       stat_blksize := of_nat (bd_block_size dev d), stat_blocks := bd_block_count dev d\<rparr>"

definition dev_lookup :: "nat \<Rightarrow> string \<Rightarrow> 'd devfs \<Rightarrow> (nat, VfsError) outcome" where
  "dev_lookup v name s = (case dn_nodes s ! v of DevFsRoot devices \<Rightarrow> DevFsRoot_lookup name devices | _ \<Rightarrow> Err NotADirectory)"

definition dev_readdir :: "nat \<Rightarrow> 'd devfs \<Rightarrow> (VDirEntry list, VfsError) outcome" where
  "dev_readdir v s = (case dn_nodes s ! v of DevFsRoot devices \<Rightarrow> Ok (DevFsRoot_readdir devices s) | _ \<Rightarrow> Err NotADirectory)"

definition dev_stat :: "'d blkdev \<Rightarrow> nat \<Rightarrow> 'd devfs \<Rightarrow> (Stat, VfsError) outcome" where
  "dev_stat dev v s =
     (case dn_nodes s ! v of
        DevFsRoot devices \<Rightarrow> Ok (DevFsRoot_stat devices)
      | BlockDeviceNode i _ \<Rightarrow> Ok (BlockDeviceNode_stat dev (dn_disks s ! i))
      | _ \<Rightarrow> Ok char_stat)"

definition dev_read :: "'d blkdev \<Rightarrow> nat \<Rightarrow> nat \<Rightarrow> nat \<Rightarrow> ('d devfs, bytes, VfsError) act" where
  "dev_read dev v offset len s =
     (case dn_nodes s ! v of
        DevFsRoot _ \<Rightarrow> (Err NotSupported, s)
      | NullDevice \<Rightarrow> (Ok [], s)
      | ZeroDevice \<Rightarrow> (Ok (replicate len 0), s)
      | ConsoleDevice \<Rightarrow> (Ok [], s)
      | RandomDevice seed \<Rightarrow>
          (case RandomDevice_read len seed of (buf, seed') \<Rightarrow> (Ok buf, s\<lparr>dn_nodes := (dn_nodes s)[v := RandomDevice seed']\<rparr>))
      | BlockDeviceNode i _ \<Rightarrow> (BlockDeviceNode_read dev offset len (dn_disks s ! i), s))"

definition dev_write :: "'d blkdev \<Rightarrow> nat \<Rightarrow> nat \<Rightarrow> bytes \<Rightarrow> ('d devfs, nat, VfsError) act" where
  "dev_write dev v offset buf s =
     (case dn_nodes s ! v of
        DevFsRoot _ \<Rightarrow> (Err NotSupported, s)
      | ConsoleDevice \<Rightarrow> (Ok (length buf), s\<lparr>dn_out := dn_out s @ buf\<rparr>)
      | BlockDeviceNode i _ \<Rightarrow>
          (case BlockDeviceNode_write dev offset buf (dn_disks s ! i) of (r, d) \<Rightarrow> (r, s\<lparr>dn_disks := (dn_disks s)[i := d]\<rparr>))
      | _ \<Rightarrow> (Ok (length buf), s))"

definition dev_ops :: "'d blkdev \<Rightarrow> ('d devfs, nat) vnode_ops" where
  "dev_ops dev = (VNode_default dev_node_type (dev_stat dev))
     \<lparr>vn_read := dev_read dev, vn_write := dev_write dev, vn_lookup := dev_lookup, vn_readdir := dev_readdir\<rparr>"

text \<open>
  Registration of the block devices. \<open>dev_node\<close> is what \<open>lookup_path("/dev")\<close> finds; the devices of the
  registry are handles into the list of devices.
\<close>

fun register_block_loop :: "nat \<Rightarrow> nat RegisteredDevice list \<Rightarrow> string list \<Rightarrow> 'd devfs \<Rightarrow> 'd devfs" where
  "register_block_loop dev_node registry [] s = s"
| "register_block_loop dev_node registry (name # names) s =
     register_block_loop dev_node registry names
       (case get_device name registry of
          None \<Rightarrow> s
        | Some device \<Rightarrow>
            (case new_node (BlockDeviceNode device name) s of (node, s') \<Rightarrow>
               (case dev_lookup dev_node name s' of
                  Ok _ \<Rightarrow> s'
                | _ \<Rightarrow> (case get_devfs s' of Some r \<Rightarrow> devfs_register_device r name node s' | None \<Rightarrow> s'))))"

definition register_block_devices_to_devfs ::
    "(nat, VfsError) outcome \<Rightarrow> nat RegisteredDevice list \<Rightarrow> 'd devfs \<Rightarrow> 'd devfs" where
  "register_block_devices_to_devfs dev_dir registry s =
     (case dev_dir of Ok dev_node \<Rightarrow> register_block_loop dev_node registry (list_devices registry) s | _ \<Rightarrow> s)"


declare random_read_loop.simps [simp del]


section \<open>A block node is a flat file\<close>

text \<open>The contents of a device as one array of bytes.\<close>

definition disk_bytes :: "'d blkdev \<Rightarrow> ('d \<Rightarrow> nat \<Rightarrow> bytes) \<Rightarrow> 'd \<Rightarrow> bytes" where
  "disk_bytes dev blk d = concat (map (blk d) [0..<unat (bd_block_count dev d)])"

lemma length_concat_blocks: "(\<And>i. i < k \<Longrightarrow> length (f i) = n) \<Longrightarrow> length (concat (map f [0..<k])) = k * n"
  by (induction k) auto

lemma concat_blocks_split:
  assumes "i < k"
  shows "concat (map f [0..<k]) = concat (map f [0..<i]) @ f i @ concat (map f [Suc i..<k])"
proof -
  have "[0..<k] = [0..<i] @ i # [Suc i..<k]" using assms upt_add_eq_append [of 0 i "k - i"] by (simp add: upt_conv_Cons)
  then show ?thesis by simp
qed

lemma concat_blocks_nth:
  assumes "i < k" "\<And>i. i < k \<Longrightarrow> length (f i) = n"
  shows "take n (drop (i * n) (concat (map f [0..<k]))) = f i"
  using assms length_concat_blocks [of i f n] unfolding concat_blocks_split [OF assms(1)] by simp

lemma concat_blocks_update:
  assumes "i < k" "\<And>i. i < k \<Longrightarrow> length (f i) = n" "length y = n"
  shows "concat (map (f(i := y)) [0..<k]) = overwrite (concat (map f [0..<k])) (i * n) y"
proof -
  have "map (f(i := y)) [0..<i] = map f [0..<i]" "map (f(i := y)) [Suc i..<k] = map f [Suc i..<k]" by simp_all
  then show ?thesis
    using assms length_concat_blocks [of i f n] unfolding concat_blocks_split [OF assms(1)] by (simp add: overwrite_def)
qed

text \<open>The bytes of a list from one position to another.\<close>

definition seg :: "'a list \<Rightarrow> nat \<Rightarrow> nat \<Rightarrow> 'a list" where
  "seg xs i j = take (j - i) (drop i xs)"

lemma seg_append: "i \<le> j \<Longrightarrow> j \<le> k \<Longrightarrow> seg xs i j @ seg xs j k = seg xs i k"
  using take_add [of "j - i" "k - j" "drop i xs"] by (simp add: seg_def)

lemma seg_nil [simp]: "seg xs i i = []"
  by (simp add: seg_def)

lemma length_seg [simp]: "j \<le> length xs \<Longrightarrow> length (seg xs i j) = j - i"
  by (simp add: seg_def)

lemma seg_seg: "a + j \<le> b \<Longrightarrow> take (j - i) (drop i (seg xs a b)) = seg xs (a + i) (a + j)"
  by (simp add: seg_def drop_take add.commute min_def) 

text \<open>The part of a block a transfer covers, in positions of the device.\<close>

lemma block_range:
  assumes bs: "0 < bs" and n: "0 < n" and b: "off div bs \<le> b" "b \<le> (off + n - 1) div bs"
  shows "b * bs + block_start bs off b = max off (b * bs)" "b * bs + block_end bs off n b = min (off + n) (Suc b * bs)"
    and "block_start bs off b < block_end bs off n b" "block_end bs off n b \<le> bs"
proof -
  let ?m = "off + n - 1"
  have off: "off = off div bs * bs + off mod bs" and m: "?m = ?m div bs * bs + ?m mod bs" by simp_all
  have rem: "off mod bs < bs" "?m mod bs < bs" using bs by simp_all
  show S: "b * bs + block_start bs off b = max off (b * bs)"
  proof (cases "b = off div bs")
    case True
    then show ?thesis using off by (simp add: block_start_def)
  next
    case False
    then have "off div bs * bs + bs \<le> b * bs" using b(1) mult_le_mono1 [of "Suc (off div bs)" b bs] by simp
    then have "off \<le> b * bs" using off rem(1) by linarith
    then show ?thesis using False by (simp add: block_start_def)
  qed
  show E: "b * bs + block_end bs off n b = min (off + n) (Suc b * bs)"
  proof (cases "b = ?m div bs")
    case True
    have "off + n = b * bs + (?m mod bs + 1)" using m n unfolding True by linarith
    moreover have "b * bs + (?m mod bs + 1) \<le> Suc b * bs" using rem(2) by simp
    ultimately show ?thesis using True by (simp add: block_end_def)
  next
    case False
    then have "Suc b * bs \<le> ?m div bs * bs" using b(2) by (intro mult_le_mono1) simp
    then have "Suc b * bs \<le> ?m" using m by (metis le_add1 le_trans)
    then show ?thesis using False n by (simp add: block_end_def)
  qed
  show "block_end bs off n b \<le> bs" using E by simp
  have "off < b * bs + bs" using off rem(1) mult_le_mono1 [OF b(1), of bs] by linarith
  moreover have "b * bs \<le> ?m" using m mult_le_mono1 [OF b(2), of bs] by linarith
  ultimately have "max off (b * bs) < min (off + n) (Suc b * bs)" using n bs by simp
  then show "block_start bs off b < block_end bs off n b" using S E by linarith
qed

lemma overwrite_next:
  "a + length xs + length ys \<le> length zs \<Longrightarrow> overwrite (overwrite zs a xs) (a + length xs) ys = overwrite zs a (xs @ ys)"
  by (rule nth_equalityI) (auto simp: nth_overwrite nth_append)

lemma overwrite_in_seg:
  assumes "a + s + length ys \<le> c" "c \<le> length xs"
  shows "overwrite xs a (overwrite (seg xs a c) s ys) = overwrite xs (a + s) ys"
  using assms by (intro nth_equalityI) (auto simp: nth_overwrite seg_def)

context block_device
begin

lemma blocks_are_segs:
  assumes "dinv d" "i < unat (bd_block_count dev d)"
  shows "blk d i = seg (disk_bytes dev blk d) (i * bd_block_size dev d) (Suc i * bd_block_size dev d)"
  using concat_blocks_nth [of i "unat (bd_block_count dev d)" "blk d" "bd_block_size dev d"] assms blk_length
  by (simp add: seg_def disk_bytes_def)

lemma length_disk_bytes:
  assumes "dinv d"
  shows "length (disk_bytes dev blk d) = unat (bd_block_count dev d) * bd_block_size dev d"
  unfolding disk_bytes_def using blk_length [OF assms] by (intro length_concat_blocks)

text \<open>A position below the capacity is in a block of the device.\<close>

lemma block_in_device:
  assumes "0 < n" "off + n \<le> unat (bd_block_count dev d) * bs" "b \<le> (off + n - 1) div bs" "0 < bs"
  shows "unat (of_nat b :: u64) = b" "b < unat (bd_block_count dev d)"
proof -
  have "off + n - 1 < unat (bd_block_count dev d) * bs" using assms(1,2) by linarith
  then have "(off + n - 1) div bs < unat (bd_block_count dev d)" using assms(4) by (simp add: div_less_iff_less_mult)
  then show b: "b < unat (bd_block_count dev d)" using assms(3) by simp
  then have "b < 2 ^ 64" using unat_less_exp [of "bd_block_count dev d"] by simp
  then show "unat (of_nat b :: u64) = b" by (intro unat_of_nat_small) simp
qed

lemma node_read_loop_ok:
  assumes d: "dinv d" and n: "0 < n" "n \<le> len" "off + n \<le> unat (bd_block_count dev d) * bs" and bs: "bs = bd_block_size dev d"
    and b: "off div bs \<le> b" "b \<le> Suc ((off + n - 1) div bs)"
  shows "node_read_loop dev d bs off n len [b..<Suc ((off + n - 1) div bs)] (seg (disk_bytes dev blk d) off (min (off + n) (max off (b * bs)))) =
    Ok (seg (disk_bytes dev blk d) off (off + n))"
  using b
proof (induction "Suc ((off + n - 1) div bs) - b" arbitrary: b)
  case 0
  let ?m = "off + n - 1"
  have "?m < ?m div bs * bs + bs" using bs size_pos [OF d] by (metis add.commute dividend_less_div_times)
  moreover have b: "b = Suc (?m div bs)" using 0 by simp
  ultimately have "off + n \<le> b * bs" using n(1) unfolding b mult_Suc by linarith
  then show ?case unfolding b [symmetric] by simp
next
  case (Suc m)
  let ?F = "disk_bytes dev blk d" and ?s = "block_start bs off b" and ?e = "block_end bs off n b"
  have pos: "0 < bs" using bs size_pos [OF d] by simp
  have b: "off div bs \<le> b" "b \<le> (off + n - 1) div bs" using Suc.hyps(2) Suc.prems by simp_all
  note R = block_range [OF pos n(1) b]
  note B = block_in_device [OF n(1,3) b(2) pos]
  have lo: "min (off + n) (max off (b * bs)) = b * bs + ?s" using R by linarith
  have hi: "min (off + n) (max off (Suc b * bs)) = b * bs + ?e" using R by linarith
  have read: "bd_read_block dev d (of_nat b) bs = Ok (blk d b)" using read_ok [OF d, of "of_nat b"] B bs by simp
  have len: "length (blk d b) = bs" using blk_length [OF d B(2)] bs by simp
  have part: "take (?e - ?s) (drop ?s (blk d b)) = seg ?F (b * bs + ?s) (b * bs + ?e)"
    using blocks_are_segs [OF d B(2)] R(4) bs by (simp add: seg_seg)
  have F: "length ?F = unat (bd_block_count dev d) * bs" using length_disk_bytes [OF d] bs by simp
  have ends: "off \<le> b * bs + ?s" "b * bs + ?e \<le> off + n" "?s \<le> ?e" using R by simp_all
  have out: "length (seg ?F off (b * bs + ?s)) + (?e - ?s) \<le> len" using F ends n by simp
  have "seg ?F off (b * bs + ?s) @ seg ?F (b * bs + ?s) (b * bs + ?e) = seg ?F off (b * bs + ?e)"
    using ends by (intro seg_append) simp_all
  moreover have "[b..<Suc ((off + n - 1) div bs)] = b # [Suc b..<Suc ((off + n - 1) div bs)]" using b(2) by (simp add: upt_conv_Cons del: upt_Suc)
  ultimately show ?case
    using Suc.hyps(1) [of "Suc b"] Suc.hyps(2) b read len part out ends R(4) unfolding lo hi
    by (simp add: slice_get_def Let_def del: upt_Suc)
qed

lemma disk_bytes_write:
  assumes d: "dinv d" "\<not> bd_is_read_only dev d" and b: "b < unat (bd_block_count dev d)" "unat (of_nat b :: u64) = b"
    and buf: "length buf = bd_block_size dev d"
  obtains d' where "bd_write_block dev (of_nat b) buf d = (Ok (), d')" "dev_same d d'"
    "disk_bytes dev blk d' = overwrite (disk_bytes dev blk d) (b * bd_block_size dev d) buf"
proof -
  obtain d' where d': "bd_write_block dev (of_nat b) buf d = (Ok (), d')" "dev_same d d'"
    "\<forall>i < unat (bd_block_count dev d). blk d' i = (if i = b then buf else blk d i)"
    using write_ok [OF d(1), of "of_nat b" buf] b buf d(2) by (auto simp: dev_same_def)
  have "map (blk d') [0..<unat (bd_block_count dev d)] = map ((blk d)(b := buf)) [0..<unat (bd_block_count dev d)]"
    using d'(3) by auto
  then have "disk_bytes dev blk d' = overwrite (disk_bytes dev blk d) (b * bd_block_size dev d) buf"
    using concat_blocks_update [where f = "blk d", OF b(1) blk_length [OF d(1)] buf] d'(2)
    unfolding disk_bytes_def dev_same_def by (simp del: map_eq_conv)
  then show ?thesis using that d' by blast
qed

lemma dev_same_trans: "dev_same d d' \<Longrightarrow> dev_same d' d'' \<Longrightarrow> dev_same d d''"
  by (simp add: dev_same_def)

text \<open>One turn of the loop of \<open>write\<close>.\<close>

lemma node_write_step:
  assumes d: "dinv d" "\<not> bd_is_read_only dev d" and n: "0 < n" "n \<le> length buf" "off + n \<le> unat (bd_block_count dev d) * bs"
    and bs: "bs = bd_block_size dev d" and b: "off div bs \<le> b" "b \<le> (off + n - 1) div bs" and buf: "length block_buf = bs"
  defines "lo \<equiv> max off (b * bs)" and "hi \<equiv> min (off + n) (Suc b * bs)"
  obtains d' block_buf' where "node_write_loop dev bs off n buf (b # rest) block_buf (lo - off) d =
      node_write_loop dev bs off n buf rest block_buf' (hi - off) d'"
    "dev_same d d'" "length block_buf' = bs" "disk_bytes dev blk d' = overwrite (disk_bytes dev blk d) lo (seg buf (lo - off) (hi - off))"
proof -
  let ?F = "disk_bytes dev blk d" and ?s = "block_start bs off b" and ?e = "block_end bs off n b"
  have pos: "0 < bs" using bs size_pos [OF d(1)] by simp
  note R = block_range [OF pos n(1) b]
  note B = block_in_device [OF n(1,3) b(2) pos]
  have ends: "lo = b * bs + ?s" "hi = b * bs + ?e" "off \<le> lo" "lo < hi" "hi \<le> off + n" "hi \<le> Suc b * bs"
    unfolding lo_def hi_def using R by linarith+
  have read: "bd_read_block dev d (of_nat b) bs = Ok (blk d b)" using read_ok [OF d(1), of "of_nat b"] B bs by simp
  define part where "part = seg buf (lo - off) (hi - off)"
  have part: "length part = ?e - ?s" "slice_get buf (lo - off) (?e - ?s) = (Ok part :: (bytes, VfsError) outcome)"
    using ends n(2) by (simp_all add: part_def slice_get_def seg_def)
  define block where "block = (if ?s \<noteq> 0 \<or> ?e \<noteq> bs then blk d b else block_buf)"
  have block: "length block = bs" using blk_length [OF d(1) B(2)] buf bs by (simp add: block_def)
  define new where "new = overwrite block ?s part"
  have new: "slice_put block ?s part = (Ok new :: (bytes, VfsError) outcome)" "length new = bs" using part block R(3,4) by (simp_all add: new_def slice_put_def)
  obtain d' where d': "bd_write_block dev (of_nat b) new d = (Ok (), d')" "dev_same d d'" "disk_bytes dev blk d' = overwrite ?F (b * bs) new"
    using disk_bytes_write [OF d B(2,1), of new] new(2) bs by metis
  have "Suc b * bs \<le> length ?F" using B(2) mult_le_mono1 [of "Suc b" "unat (bd_block_count dev d)" bs] length_disk_bytes [OF d(1)] bs by simp
  then have "overwrite ?F (b * bs) new = overwrite ?F lo part"
    using overwrite_in_seg [of "b * bs" ?s part "Suc b * bs" ?F] blocks_are_segs [OF d(1) B(2)] part(1) ends R(3,4) bs buf
    by (auto simp: new_def block_def overwrite_def)
  moreover have "node_write_loop dev bs off n buf (b # rest) block_buf (lo - off) d = node_write_loop dev bs off n buf rest new (hi - off) d'"
    using part(2) new(1) d'(1) read R(3) ends by (auto simp: Let_def act_bind_def block_def act_map_err_def)
  ultimately show ?thesis using that [of new d'] d' new(2) by (simp add: part_def)
qed

lemma node_write_loop_ok:
  assumes "dinv d" "\<not> bd_is_read_only dev d" and n: "0 < n" "n \<le> length buf"
    and "off + n \<le> unat (bd_block_count dev d) * bs" "bs = bd_block_size dev d"
    and "off div bs \<le> b" "b \<le> Suc ((off + n - 1) div bs)" "length block_buf = bs"
  defines "lo \<equiv> \<lambda>b. min (off + n) (max off (b * bs))"
  shows "\<exists>d'. node_write_loop dev bs off n buf [b..<Suc ((off + n - 1) div bs)] block_buf (lo b - off) d = (Ok n, d') \<and>
    dev_same d d' \<and> disk_bytes dev blk d' = overwrite (disk_bytes dev blk d) (lo b) (seg buf (lo b - off) n)"
  using assms(1,2,5-9)
proof (induction "Suc ((off + n - 1) div bs) - b" arbitrary: b d block_buf)
  case 0
  let ?m = "off + n - 1"
  have "?m < ?m div bs * bs + bs" using 0(5) size_pos [OF 0(2)] by (metis add.commute dividend_less_div_times)
  moreover have b: "b = Suc (?m div bs)" using 0(1,7) by simp
  ultimately have "off + n \<le> b * bs" using n(1) unfolding b mult_Suc by linarith
  then have "lo b = off + n" by (simp add: lo_def)
  then show ?case using 0(2) unfolding b [symmetric] by (simp add: dev_same_def)
next
  case (Suc m)
  have pos: "0 < bs" using Suc.prems(4) size_pos [OF Suc.prems(1)] by simp
  have b: "off div bs \<le> b" "b \<le> (off + n - 1) div bs" using Suc.hyps(2) Suc.prems(5) by simp_all
  note R = block_range [OF pos n(1) b]
  have lo: "lo b = max off (b * bs)" and hi: "lo (Suc b) = min (off + n) (Suc b * bs)" unfolding lo_def using R by linarith+
  obtain d1 buf1 where d1: "node_write_loop dev bs off n buf (b # [Suc b..<Suc ((off + n - 1) div bs)]) block_buf (lo b - off) d =
      node_write_loop dev bs off n buf [Suc b..<Suc ((off + n - 1) div bs)] buf1 (lo (Suc b) - off) d1"
    "dev_same d d1" "length buf1 = bs" "disk_bytes dev blk d1 = overwrite (disk_bytes dev blk d) (lo b) (seg buf (lo b - off) (lo (Suc b) - off))"
    unfolding lo hi by (rule node_write_step [OF Suc.prems(1,2) n Suc.prems(3,4) b Suc.prems(7)])
  have le: "off \<le> lo b" "lo b \<le> lo (Suc b)" "lo (Suc b) \<le> off + n" unfolding lo_def by (simp_all add: max_def min_def)
  obtain d2 where d2: "node_write_loop dev bs off n buf [Suc b..<Suc ((off + n - 1) div bs)] buf1 (lo (Suc b) - off) d1 = (Ok n, d2)"
    "dev_same d1 d2" "disk_bytes dev blk d2 = overwrite (disk_bytes dev blk d1) (lo (Suc b)) (seg buf (lo (Suc b) - off) n)"
  proof -
    have "dinv d1" "\<not> bd_is_read_only dev d1" "off + n \<le> unat (bd_block_count dev d1) * bs" "bs = bd_block_size dev d1"
      using d1(2) Suc.prems(2-4) by (simp_all add: dev_same_def)
    moreover have "m = Suc ((off + n - 1) div bs) - Suc b" "off div bs \<le> Suc b" "Suc b \<le> Suc ((off + n - 1) div bs)"
      using Suc.hyps(2) b by simp_all
    ultimately show ?thesis using Suc.hyps(1) [of "Suc b" d1 buf1] d1(3) that by blast
  qed
  have "length (seg buf (lo b - off) (lo (Suc b) - off)) = lo (Suc b) - lo b" "length (seg buf (lo (Suc b) - off) n) = n - (lo (Suc b) - off)"
    using le n(2) by simp_all
  then have "disk_bytes dev blk d2 = overwrite (disk_bytes dev blk d) (lo b) (seg buf (lo b - off) (lo (Suc b) - off) @ seg buf (lo (Suc b) - off) n)"
    using overwrite_next [of "lo b" "seg buf (lo b - off) (lo (Suc b) - off)" "seg buf (lo (Suc b) - off) n" "disk_bytes dev blk d"] d2(3) d1(4) le
      length_disk_bytes [OF Suc.prems(1)] Suc.prems(3,4) by simp
  moreover have "[b..<Suc ((off + n - 1) div bs)] = b # [Suc b..<Suc ((off + n - 1) div bs)]" using b(2) by (simp add: upt_conv_Cons del: upt_Suc)
  ultimately show ?case using d1(1,2) d2(1,2) le dev_same_trans [of d d1 d2] by (simp add: seg_append del: upt_Suc)
qed

lemma node_read_flat:
  assumes d: "dinv d" and cap: "unat (blk_capacity dev d) = unat (bd_block_count dev d) * bd_block_size dev d"
  shows "BlockDeviceNode_read dev off len d = Ok (take len (drop off (disk_bytes dev blk d)))"
proof -
  define bs F where "bs = bd_block_size dev d" and "F = disk_bytes dev blk d"
  have F: "length F = unat (bd_block_count dev d) * bs" using length_disk_bytes [OF d] by (simp add: bs_def F_def)
  define n where "n = min len (length F - off)"
  show ?thesis
  proof (cases "off < length F \<and> 0 < n")
    case True
    then have "off \<le> off + n - 1" by linarith
    then have "off div bs \<le> Suc ((off + n - 1) div bs)" using div_le_mono le_SucI by blast
    moreover have "min (off + n) (max off (off div bs * bs)) = off" using div_times_less_eq_dividend [of off bs] by linarith
    moreover have "n \<le> len" "off + n \<le> unat (bd_block_count dev d) * bs" using True F by (auto simp: n_def)
    ultimately have "node_read_loop dev d bs off n len [off div bs..<Suc ((off + n - 1) div bs)] [] = Ok (seg F off (off + n))"
      using node_read_loop_ok [OF d, of n len off bs "off div bs"] True unfolding bs_def [symmetric] F_def [symmetric] by (simp del: upt_Suc)
    moreover have "seg F off (off + n) = take len (drop off F)" by (simp add: seg_def n_def min_def)
    ultimately show ?thesis using True cap F by (simp add: BlockDeviceNode_read_def Let_def n_def bs_def [symmetric] F_def del: upt_Suc)
  next
    case False
    then show ?thesis using cap F by (auto simp: BlockDeviceNode_read_def Let_def n_def bs_def [symmetric] F_def)
  qed
qed

lemma node_write_flat:
  assumes d: "dinv d" "\<not> bd_is_read_only dev d"
    and cap: "unat (blk_capacity dev d) = unat (bd_block_count dev d) * bd_block_size dev d" and off: "off < unat (blk_capacity dev d)"
  shows "\<exists>d'. BlockDeviceNode_write dev off buf d = (Ok (min (length buf) (unat (blk_capacity dev d) - off)), d') \<and> dev_same d d' \<and>
    disk_bytes dev blk d' = overwrite (disk_bytes dev blk d) off (take (unat (blk_capacity dev d) - off) buf)"
proof -
  define bs n where "bs = bd_block_size dev d" and "n = min (length buf) (unat (blk_capacity dev d) - off)"
  show ?thesis
  proof (cases "n = 0")
    case True
    then have "buf = []" using off by (auto simp: n_def min_def split: if_splits)
    then show ?thesis using d off by (auto simp: BlockDeviceNode_write_def Let_def dev_same_def)
  next
    case False
    then have "off \<le> off + n - 1" by linarith
    then have "off div bs \<le> Suc ((off + n - 1) div bs)" using div_le_mono le_SucI by blast
    moreover have "min (off + n) (max off (off div bs * bs)) = off" using div_times_less_eq_dividend [of off bs] by linarith
    moreover have "seg buf 0 n = take (unat (blk_capacity dev d) - off) buf" by (simp add: seg_def n_def min_def)
    moreover have "n \<le> length buf" "off + n \<le> unat (bd_block_count dev d) * bs" using off cap by (auto simp: n_def bs_def)
    ultimately show ?thesis
      using node_write_loop_ok [OF d, of n buf off bs "off div bs" "replicate bs 0"] False off d(2)
      unfolding BlockDeviceNode_write_def Let_def n_def [symmetric] bs_def [symmetric] by (simp del: upt_Suc)
  qed
qed

end

text \<open>
  C13. A block node behaves as one flat file of bytes. Over every device that keeps the contract of block
  devices: a read at any offset, aligned or not, returns exactly the bytes of the device from the offset,
  up to its end; a write replaces exactly the bytes it covers, keeps all others of the blocks
  it touches, stops at the end of the device and reports how much it wrote; a write past the end
  and a write to a read-only device fail and change nothing.
\<close>

theorem block_node_is_flat_file:
  assumes dev: "block_device dev dinv blk" and d: "dinv d"
    and fits: "unat (bd_block_count dev d) * bd_block_size dev d < 2 ^ 64"
  defines "F \<equiv> disk_bytes dev blk d"
  shows "BlockDeviceNode_read dev off len d = Ok (take len (drop off F)) \<and>
    (if bd_is_read_only dev d then BlockDeviceNode_write dev off buf d = (Err ReadOnly, d)
     else if off \<ge> length F then BlockDeviceNode_write dev off buf d = (Err NoSpace, d)
     else \<exists>d'. BlockDeviceNode_write dev off buf d = (Ok (min (length buf) (length F - off)), d') \<and> dinv d' \<and>
       disk_bytes dev blk d' = overwrite F off (take (length F - off) buf))"
proof -
  have cap: "unat (blk_capacity dev d) = unat (bd_block_count dev d) * bd_block_size dev d"
    unfolding blk_capacity_def using fits by (intro unat_mult_of_nat) simp
  have F: "length F = unat (blk_capacity dev d)" unfolding F_def cap by (rule block_device.length_disk_bytes [OF dev d])
  have "BlockDeviceNode_write dev off buf d = (Err ReadOnly, d)" if "bd_is_read_only dev d"
    using that by (simp add: BlockDeviceNode_write_def)
  moreover have "BlockDeviceNode_write dev off buf d = (Err NoSpace, d)" if "\<not> bd_is_read_only dev d" "off \<ge> length F"
    using that F by (simp add: BlockDeviceNode_write_def Let_def)
  ultimately show ?thesis
    using block_device.node_read_flat [OF dev d cap, of off len] block_device.node_write_flat [OF dev d _ cap, of off buf]
    unfolding F [symmetric] F_def [symmetric] block_device.dev_same_def [OF dev] by (simp split: if_split) (metis not_le)
qed

theorem block_node_is_flat_file_witness:
  "BlockDeviceNode_read ramdisk_ops 1 2 \<lparr>rd_name = ''r'', rd_block_size = 2, rd_data = [1, 2, 3, 4], rd_read_only = False\<rparr> = Ok [2, 3] \<and>
   (\<exists>d'. BlockDeviceNode_write ramdisk_ops 1 [8, 9] \<lparr>rd_name = ''r'', rd_block_size = 2, rd_data = [1, 2, 3, 4], rd_read_only = False\<rparr> = (Ok 2, d') \<and>
      disk_bytes ramdisk_ops rd_blk d' = [1, 8, 9, 4])"
proof -
  let ?d = "\<lparr>rd_name = ''r'', rd_block_size = 2, rd_data = [1, 2, 3, 4], rd_read_only = False\<rparr>"
  have wf: "rd_wf ?d" by (simp add: rd_wf_def)
  have count: "unat (bd_block_count ramdisk_ops ?d) = 2" using RamDisk_block_count_nat [OF wf] by (simp add: ramdisk_ops_def)
  have small: "unat (bd_block_count ramdisk_ops ?d) * bd_block_size ramdisk_ops ?d < 2 ^ 64" unfolding count by (simp add: ramdisk_ops_def)
  have bytes: "disk_bytes ramdisk_ops rd_blk ?d = [1, 2, 3, 4]"
    unfolding disk_bytes_def count by (simp add: rd_blk_def upt_rec)
  have "\<not> bd_is_read_only ramdisk_ops ?d" by (simp add: ramdisk_ops_def)
  then show ?thesis using block_node_is_flat_file [OF ramdisk.block_device_axioms wf small, of 1 2 "[8, 9]"] unfolding bytes
    by (auto simp: overwrite_def)
qed



section \<open>Registration of the block devices\<close>

lemma register_map: "map_of (register name h devices) = (map_of devices)(name \<mapsto> h)"
proof (cases "position (\<lambda>(n, _). n = name) devices")
  case None
  then have "map_of devices name = None" by (auto simp: position_None_iff map_of_eq_None_iff)
  then show ?thesis using None by (auto simp: register_def map_add_def fun_eq_iff split: option.splits)
next
  case (Some i)
  then show ?thesis
  proof (induction devices arbitrary: i)
    case (Cons x devices)
    then show ?case by (cases i) (auto simp: register_def split: if_splits)
  qed simp
qed

lemma DevFsRoot_lookup_map: "DevFsRoot_lookup name devices = ok_or NotFound (map_of devices name)"
  by (simp add: DevFsRoot_lookup_def find_map_of)

text \<open>The names of the root \<open>r\<close>, and what a registration keeps.\<close>

definition dev_dir :: "'d devfs \<Rightarrow> nat \<Rightarrow> string \<rightharpoonup> nat" where
  "dev_dir s r = map_of (root_devices s r)"

definition devfs_grows :: "nat \<Rightarrow> 'd devfs \<Rightarrow> 'd devfs \<Rightarrow> bool" where
  "devfs_grows r s s' \<longleftrightarrow> length (dn_nodes s) \<le> length (dn_nodes s') \<and> dn_disks s' = dn_disks s \<and> dn_out s' = dn_out s \<and>
     dn_global s' = dn_global s \<and> (\<exists>devices. dn_nodes s' ! r = DevFsRoot devices) \<and>
     (\<forall>v < length (dn_nodes s). v \<noteq> r \<longrightarrow> dn_nodes s' ! v = dn_nodes s ! v)"

lemma devfs_grows_trans: "devfs_grows r s s' \<Longrightarrow> devfs_grows r s' s'' \<Longrightarrow> devfs_grows r s s''"
  unfolding devfs_grows_def by auto

lemma dev_lookup_dir:
  "dn_nodes s ! r = DevFsRoot devices \<Longrightarrow> dev_lookup r name s = ok_or NotFound (dev_dir s r name)"
  by (simp add: dev_lookup_def DevFsRoot_lookup_map dev_dir_def root_devices_def)

text \<open>One turn of the loop.\<close>

lemma register_block_step:
  assumes s: "dn_global s = Some r" "r < length (dn_nodes s)" "dn_nodes s ! r = DevFsRoot devices" and dev: "get_device name registry = Some i"
  obtains s' where "register_block_loop r registry (name # names) s = register_block_loop r registry names s'" "devfs_grows r s s'"
    "length (dn_nodes s') = Suc (length (dn_nodes s))" "dn_nodes s' ! length (dn_nodes s) = BlockDeviceNode i name"
    "dev_dir s' r = (if dev_dir s r name = None then (dev_dir s r)(name \<mapsto> length (dn_nodes s)) else dev_dir s r)"
proof -
  let ?node = "BlockDeviceNode i name" and ?h = "length (dn_nodes s)"
  let ?s = "s\<lparr>dn_nodes := dn_nodes s @ [?node]\<rparr>"
  have root: "dn_nodes ?s ! r = DevFsRoot devices" "root_devices ?s r = devices" "root_devices s r = devices"
    using s(2,3) by (simp_all add: nth_append root_devices_def)
  have look: "dev_lookup r name ?s = ok_or NotFound (map_of devices name)" using dev_lookup_dir [OF root(1)] root by (simp add: dev_dir_def)
  show ?thesis
  proof (cases "map_of devices name")
    case None
    let ?s' = "?s\<lparr>dn_nodes := (dn_nodes ?s)[r := DevFsRoot (register name ?h devices)]\<rparr>"
    have "register_block_loop r registry (name # names) s = register_block_loop r registry names ?s'"
      using dev look None s(1) root(2) by (simp add: new_node_def get_devfs_def devfs_register_device_def)
    moreover have "root_devices ?s' r = register name ?h devices" using s(2) by (simp add: root_devices_def)
    ultimately show ?thesis
      using s None root(3) by (intro that [of ?s']) (auto simp: devfs_grows_def dev_dir_def register_map nth_append)
  next
    case (Some v)
    then have "register_block_loop r registry (name # names) s = register_block_loop r registry names ?s"
      using dev look by (simp add: new_node_def)
    then show ?thesis
      using s Some root by (intro that [of ?s]) (auto simp: devfs_grows_def dev_dir_def nth_append)
  qed
qed

lemma register_block_loop_ok:
  assumes "dn_global s = Some r" "r < length (dn_nodes s)" "dn_nodes s ! r = DevFsRoot devices"
  shows "let s' = register_block_loop r registry names s in devfs_grows r s s' \<and> dev_dir s r \<subseteq>\<^sub>m dev_dir s' r \<and>
    dom (dev_dir s' r) = dom (dev_dir s r) \<union> {name \<in> set names. get_device name registry \<noteq> None} \<and>
    (\<forall>name v. dev_dir s' r name = Some v \<longrightarrow> dev_dir s r name = Some v \<or>
       (\<exists>i. get_device name registry = Some i \<and> dn_nodes s' ! v = BlockDeviceNode i name))"
  using assms
proof (induction names arbitrary: s devices)
  case Nil
  then show ?case by (simp add: devfs_grows_def)
next
  case (Cons name names)
  show ?case
  proof (cases "get_device name registry")
    case None
    then show ?thesis using Cons.IH [OF Cons.prems] by (auto simp: Let_def)
  next
    case (Some i)
    obtain s1 where s1: "register_block_loop r registry (name # names) s = register_block_loop r registry names s1" "devfs_grows r s s1"
      "length (dn_nodes s1) = Suc (length (dn_nodes s))" "dn_nodes s1 ! length (dn_nodes s) = BlockDeviceNode i name"
      "dev_dir s1 r = (if dev_dir s r name = None then (dev_dir s r)(name \<mapsto> length (dn_nodes s)) else dev_dir s r)"
      by (rule register_block_step [OF Cons.prems Some])
    define s2 where "s2 = register_block_loop r registry names s1"
    have "dn_global s1 = Some r" "r < length (dn_nodes s1)" using s1(2,3) Cons.prems by (simp_all add: devfs_grows_def)
    moreover obtain devices1 where "dn_nodes s1 ! r = DevFsRoot devices1" using s1(2) by (auto simp: devfs_grows_def)
    ultimately have IH: "devfs_grows r s1 s2" "dev_dir s1 r \<subseteq>\<^sub>m dev_dir s2 r"
      "dom (dev_dir s2 r) = dom (dev_dir s1 r) \<union> {name \<in> set names. get_device name registry \<noteq> None}"
      "\<And>name v. dev_dir s2 r name = Some v \<Longrightarrow> dev_dir s1 r name = Some v \<or> (\<exists>i. get_device name registry = Some i \<and> dn_nodes s2 ! v = BlockDeviceNode i name)"
      using Cons.IH [of s1 devices1] by (simp_all add: Let_def s2_def)
    have node: "dn_nodes s2 ! length (dn_nodes s) = BlockDeviceNode i name"
      using IH(1) s1(3,4) Cons.prems(2) by (simp add: devfs_grows_def)
    have "dev_dir s r \<subseteq>\<^sub>m dev_dir s1 r" using s1(5) by (auto simp: map_le_def)
    then have le: "dev_dir s r \<subseteq>\<^sub>m dev_dir s2 r" using IH(2) map_le_trans by blast
    have dom: "dom (dev_dir s2 r) = dom (dev_dir s r) \<union> {n \<in> set (name # names). get_device n registry \<noteq> None}"
      unfolding IH(3) s1(5) using Some by auto
    have "dev_dir s r n = Some v \<or> (\<exists>i. get_device n registry = Some i \<and> dn_nodes s2 ! v = BlockDeviceNode i n)"
      if "dev_dir s2 r n = Some v" for n v
      using IH(4) [OF that] node Some unfolding s1(5) by (auto split: if_splits)
    then show ?thesis
      using devfs_grows_trans [OF s1(2) IH(1)] le dom unfolding s1(1) s2_def [symmetric] Let_def by blast
  qed
qed

text \<open>
  The registration of the block devices in a device file system: every name that was there keeps its
  object; every device of the registry whose name was not there appears as a block node of that
  device, the first one registered under the name; no other name appears; all other objects, the disks
  and the console are untouched.
\<close>

theorem block_devices_appear:
  assumes root: "dn_global s = Some r" "r < length (dn_nodes s)" "dn_nodes s ! r = DevFsRoot devices"
  shows "let s' = register_block_devices_to_devfs (Ok r) registry s in
    (case dev_lookup r name s of
       Ok v \<Rightarrow> dev_lookup r name s' = Ok v
     | _ \<Rightarrow> (case get_device name registry of
         Some i \<Rightarrow> \<exists>v. dev_lookup r name s' = Ok v \<and> dn_nodes s' ! v = BlockDeviceNode i name
       | None \<Rightarrow> dev_lookup r name s' = Err NotFound)) \<and> devfs_grows r s s'"
proof -
  define s' where "s' = register_block_devices_to_devfs (Ok r) registry s"
  have s': "s' = register_block_loop r registry (list_devices registry) s" by (simp add: s'_def register_block_devices_to_devfs_def)
  note L = register_block_loop_ok [OF root, of registry "list_devices registry", unfolded Let_def s' [symmetric]]
  have grows: "devfs_grows r s s'" using L by blast
  then obtain devices' where "dn_nodes s' ! r = DevFsRoot devices'" by (auto simp: devfs_grows_def)
  note look = dev_lookup_dir [OF root(3)] dev_lookup_dir [OF this]
  have "name \<in> set (list_devices registry)" if "get_device name registry = Some i" for i
    using that by (auto simp: get_device_def list_devices_def find_Some_iff)
  then have dom: "dev_dir s' r name \<noteq> None \<longleftrightarrow> dev_dir s r name \<noteq> None \<or> get_device name registry \<noteq> None"
    using L by (auto simp: dom_def)
  show ?thesis
  proof (cases "dev_dir s r name")
    case (Some v)
    then have "dev_dir s' r name = Some v" using L by (metis domI map_le_def)
    then show ?thesis using Some look grows by (simp add: Let_def flip: s'_def)
  next
    case None
    show ?thesis
    proof (cases "get_device name registry")
      case reg: (Some i)
      then obtain v where v: "dev_dir s' r name = Some v" using dom by blast
      then have "dn_nodes s' ! v = BlockDeviceNode i name" using L None reg by (metis option.distinct(1) option.inject)
      then show ?thesis using None reg v look grows by (simp add: Let_def flip: s'_def)
    next
      case reg: None
      then have "dev_dir s' r name = None" using dom None by blast
      then show ?thesis using None reg look grows by (simp add: Let_def flip: s'_def)
    qed
  qed
qed

definition devfs_empty :: "RamDisk devfs" where
  "devfs_empty = \<lparr>dn_nodes = [], dn_disks = [\<lparr>rd_name = ''ram0'', rd_block_size = 2, rd_data = [1, 2], rd_read_only = False\<rparr>], dn_out = [], dn_global = None\<rparr>"

lemma create_devfs_empty:
  "create_devfs devfs_empty = (0, devfs_empty\<lparr>dn_nodes :=
     [DevFsRoot [(''null'', 1), (''zero'', 2), (''console'', 3), (''random'', 4), (''urandom'', 5)], NullDevice, ZeroDevice, ConsoleDevice,
      RandomDevice 12345, RandomDevice 12345], dn_global := Some 0\<rparr>)"
  by (simp add: create_devfs_def DevFs_new_def add_device_def new_node_def devfs_register_device_def register_def root_devices_def set_devfs_def
      RandomDevice_new_def devfs_empty_def)

theorem block_devices_appear_witness:
  "let s' = register_block_devices_to_devfs (Ok 0) (register_device ''ram0'' 0 []) (snd (create_devfs devfs_empty))
   in (\<exists>v. dev_lookup 0 ''ram0'' s' = Ok v \<and> dn_nodes s' ! v = BlockDeviceNode 0 ''ram0'') \<and> dev_lookup 0 ''zero'' s' = Ok 2"
proof -
  let ?s = "snd (create_devfs devfs_empty)" and ?reg = "register_device ''ram0'' (0 :: nat) []"
  have root: "dn_global ?s = Some 0" "0 < length (dn_nodes ?s)"
    "dn_nodes ?s ! 0 = DevFsRoot [(''null'', 1), (''zero'', 2), (''console'', 3), (''random'', 4), (''urandom'', 5)]"
    by (simp_all add: create_devfs_empty)
  have look: "dev_lookup 0 ''ram0'' ?s = Err NotFound" "dev_lookup 0 ''zero'' ?s = Ok 2" "get_device ''ram0'' ?reg = Some 0"
    using root(3) by (simp_all add: dev_lookup_def DevFsRoot_lookup_def get_device_def register_device_def)
  show ?thesis
    using block_devices_appear [OF root, of ?reg "''ram0''"] block_devices_appear [OF root, of ?reg "''zero''"] look by (simp add: Let_def)
qed


section \<open>Random numbers\<close>

lemma xor_shift_nonzero:
  assumes n: "0 < n" and x: "(x :: u64) \<noteq> 0"
  shows "x XOR push_bit n x \<noteq> 0" "x XOR drop_bit n x \<noteq> 0"
proof -
  have xor: "a XOR b = 0 \<Longrightarrow> a = b" for a b :: u64 by (metis xor.assoc xor.right_neutral xor_self_eq xor.left_neutral)
  have zero: "x = 0" if "\<And>i. \<not> bit x i" using that by (intro bit_eqI) simp
  show "x XOR push_bit n x \<noteq> 0"
  proof
    assume "x XOR push_bit n x = 0"
    then have eq: "x = push_bit n x" by (rule xor)
    have "\<not> bit x i" for i
    proof (induction i rule: less_induct)
      case (less i)
      have "bit x i = bit (push_bit n x) i" using eq by simp
      then show ?case using less [of "i - n"] n by (auto simp: bit_push_bit_iff)
    qed
    then show False using zero x by blast
  qed
  show "x XOR drop_bit n x \<noteq> 0"
  proof
    assume "x XOR drop_bit n x = 0"
    then have eq: "x = drop_bit n x" by (rule xor)
    have "\<not> bit x i" for i
    proof (induction "64 - i" arbitrary: i rule: less_induct)
      case less
      have "bit x i = bit x (n + i)" using eq bit_drop_bit_eq [of n x] by (metis comp_apply)
      moreover have "64 - (n + i) < 64 - i" if "i < 64" using that n by linarith
      ultimately show ?case using less [of "n + i"] bit_imp_le_length [of x i] by auto
    qed
    then show False using zero x by blast
  qed
qed

lemma RandomDevice_next_nonzero: "seed \<noteq> 0 \<Longrightarrow> RandomDevice_next seed \<noteq> 0"
  unfolding RandomDevice_next_def Let_def by (intro xor_shift_nonzero) simp_all

text \<open>The successive outputs of the generator, as bytes.\<close>

definition random_stream :: "nat \<Rightarrow> u64 \<Rightarrow> bytes" where
  "random_stream k seed = concat (map (\<lambda>j. u64_to_le_bytes ((RandomDevice_next ^^ Suc j) seed)) [0..<k])"

lemma random_stream_Suc: "random_stream (Suc k) seed = u64_to_le_bytes (RandomDevice_next seed) @ random_stream k (RandomDevice_next seed)"
proof -
  have "[0..<Suc k] = 0 # map Suc [0..<k]" by (simp add: map_Suc_upt upt_conv_Cons del: upt_Suc)
  then show ?thesis by (simp add: random_stream_def o_def funpow_swap1 del: upt_Suc)
qed

lemma random_read_loop_ok:
  "length buf \<le> len \<Longrightarrow> random_read_loop len buf seed =
     (buf @ take (len - length buf) (random_stream ((len - length buf + 7) div 8) seed), (RandomDevice_next ^^ ((len - length buf + 7) div 8)) seed)"
proof (induction len buf seed rule: random_read_loop.induct)
  case (1 len buf seed)
  show ?case
  proof (cases "length buf < len")
    case True
    let ?c = "min 8 (len - length buf)" and ?x = "RandomDevice_next seed"
    let ?buf = "buf @ take ?c (u64_to_le_bytes ?x)" and ?r = "len - length buf"
    have len: "len - length ?buf = ?r - ?c" "length ?buf \<le> len" using True by simp_all
    have IH: "random_read_loop len ?buf ?x =
        (?buf @ take (?r - ?c) (random_stream ((?r - ?c + 7) div 8) ?x), (RandomDevice_next ^^ ((?r - ?c + 7) div 8)) ?x)"
      using 1(1) [OF True refl refl len(2)] unfolding len(1) .
    have k: "(?r + 7) div 8 = Suc ((?r - ?c + 7) div 8)" using True by (auto simp: min_def)
    have "random_read_loop len buf seed = random_read_loop len ?buf ?x" using True by (subst random_read_loop.simps) (simp add: Let_def)
    then show ?thesis unfolding IH k random_stream_Suc by (simp add: min_def funpow_swap1)
  next
    case False
    then show ?thesis using 1 by (subst random_read_loop.simps) (simp add: random_stream_def)
  qed
qed

text \<open>
  Reading the random device always returns and fills the whole buffer: with the successive outputs
  of the generator from the seed, eight bytes each; the seed moves on by as many outputs as were
  needed; and a seed that is not zero, such as the initial one, never becomes zero.
\<close>

theorem random_read_fills_buffer:
  "RandomDevice_read len seed = (take len (random_stream ((len + 7) div 8) seed), (RandomDevice_next ^^ ((len + 7) div 8)) seed) \<and>
   length (fst (RandomDevice_read len seed)) = len \<and> (seed \<noteq> 0 \<longrightarrow> snd (RandomDevice_read len seed) \<noteq> 0)"
proof -
  have "RandomDevice_read len seed = (take len (random_stream ((len + 7) div 8) seed), (RandomDevice_next ^^ ((len + 7) div 8)) seed)"
    using random_read_loop_ok [of "[]" len seed] by (simp add: RandomDevice_read_def)
  moreover have "length (random_stream k seed) = 8 * k" for k by (induction k) (simp_all add: random_stream_def)
  moreover have "(RandomDevice_next ^^ k) seed \<noteq> 0" if "seed \<noteq> 0" for k
    using that by (induction k) (simp_all add: RandomDevice_next_nonzero)
  ultimately show ?thesis by auto
qed

theorem random_read_fills_buffer_witness: "length (fst (RandomDevice_read 3 12345)) = 3 \<and> snd (RandomDevice_read 3 12345) \<noteq> 0"
proof -
  have "(12345 :: u64) \<noteq> 0" by simp
  then show ?thesis using random_read_fills_buffer [of 3 12345] by blast
qed

end
