(* ===== verification/Virtq.thy ===== *)
theory Virtq
  imports Prelude "HOL-Library.Multiset"
begin

text \<open>
  Split virtqueues, \<open>src/virtio/queue.rs\<close>. The three areas that driver and device share are lists: the
  descriptor table, the available ring and the used ring; their layout in memory is in the theory
  \<open>Virtio_Mmio\<close>. A buffer is its address and its length. Indices are 16-bit words and wrap. The code
  follows raw pointers; an index outside an area, which would corrupt memory, is a panic of the model.
\<close>

section \<open>The queue\<close>

datatype VirtIOError =
    VE_InvalidMagic | VE_UnsupportedVersion | VE_NoDevice | VE_FeatureNegotiationFailed | VE_QueueSetupFailed | VE_IoError | VE_BufferTooSmall
  | VE_Timeout

definition DESC_NEXT :: u16 where "DESC_NEXT = 1"
definition DESC_WRITE :: u16 where "DESC_WRITE = 2"

record VirtqDesc =
  vd_addr :: u64
  vd_len :: u32
  vd_flags :: u16
  vd_next :: u16

record VirtqUsedElem =
  ue_id :: u32
  ue_len :: u32

record Virtqueue =
  vq_queue_idx :: u32
  vq_queue_size :: u16
  vq_free_head :: u16
  vq_num_free :: u16
  vq_last_used_idx :: u16
  vq_desc :: "VirtqDesc list"
  vq_avail_idx :: u16
  vq_avail_ring :: "u16 list"
  vq_used_idx :: u16
  vq_used_ring :: "VirtqUsedElem list"

type_synonym vbuf = "u64 \<times> nat"

text \<open>The queue after the initialisation loop: every descriptor is free and linked to the next.\<close>

definition vq_init :: "u32 \<Rightarrow> u16 \<Rightarrow> Virtqueue" where
  "vq_init queue_idx queue_size =
     \<lparr>vq_queue_idx = queue_idx, vq_queue_size = queue_size, vq_free_head = 0, vq_num_free = queue_size, vq_last_used_idx = 0,
      vq_desc = map (\<lambda>i. \<lparr>vd_addr = 0, vd_len = 0, vd_flags = 0, vd_next = if i + 1 < unat queue_size then of_nat (i + 1) else 0\<rparr>) [0..<unat queue_size],
      vq_avail_idx = 0, vq_avail_ring = replicate (unat queue_size) 0,
      vq_used_idx = 0, vq_used_ring = replicate (unat queue_size) \<lparr>ue_id = 0, ue_len = 0\<rparr>\<rparr>"

definition available_descs :: "Virtqueue \<Rightarrow> u16" where
  "available_descs q = vq_num_free q"

definition desc_at :: "u16 \<Rightarrow> (VirtqDesc \<Rightarrow> (Virtqueue, 'a, VirtIOError) act) \<Rightarrow> (Virtqueue, 'a, VirtIOError) act" where
  "desc_at i f q = (if unat i < length (vq_desc q) then f (vq_desc q ! unat i) q else (Panic, q))"

definition desc_put :: "u16 \<Rightarrow> VirtqDesc \<Rightarrow> Virtqueue \<Rightarrow> Virtqueue" where
  "desc_put i d q = q\<lparr>vq_desc := (vq_desc q)[unat i := d]\<rparr>"

text \<open>Taking the first free descriptor; the caller fills it in.\<close>

definition take_free :: "(VirtqDesc \<Rightarrow> u16 \<Rightarrow> VirtqDesc) \<Rightarrow> (Virtqueue, u16, VirtIOError) act" where
  "take_free fill q =
     (let desc_idx = vq_free_head q
      in desc_at desc_idx (\<lambda>desc q.
           (Ok desc_idx, desc_put desc_idx (fill desc (vd_next desc)) (q\<lparr>vq_free_head := vd_next desc, vq_num_free := vq_num_free q - 1\<rparr>))) q)"

definition push_avail :: "u16 \<Rightarrow> (Virtqueue, unit, VirtIOError) act" where
  "push_avail head q =
     (let slot = unat (vq_avail_idx q mod vq_queue_size q)
      in if vq_queue_size q = 0 \<or> slot \<ge> length (vq_avail_ring q) then (Panic, q)
         else (Ok (), q\<lparr>vq_avail_ring := (vq_avail_ring q)[slot := head], vq_avail_idx := vq_avail_idx q + 1\<rparr>))"

definition add_buffer :: "vbuf \<Rightarrow> bool \<Rightarrow> (Virtqueue, u16, VirtIOError) act" where
  "add_buffer buf write q =
     (if vq_num_free q = 0 then (Err VE_BufferTooSmall, q)
      else act_bind (take_free (\<lambda>desc _.
             \<lparr>vd_addr = fst buf, vd_len = of_nat (snd buf), vd_flags = if write then DESC_WRITE else 0, vd_next = 0\<rparr>)) (\<lambda>desc_idx.
           act_bind (push_avail desc_idx) (\<lambda>_. act_return desc_idx)) q)"

text \<open>\<open>(*desc_table.add(prev)).next = desc_idx\<close>\<close>

definition link_prev :: "u16 option \<Rightarrow> u16 \<Rightarrow> (Virtqueue, unit, VirtIOError) act" where
  "link_prev prev desc_idx =
     (case prev of
        None \<Rightarrow> act_return ()
      | Some p \<Rightarrow> desc_at p (\<lambda>desc. act_modify (desc_put p (desc\<lparr>vd_next := desc_idx\<rparr>))))"

text \<open>The loops over the buffers the device reads and over the buffers it writes.\<close>

fun add_read_bufs :: "vbuf list \<Rightarrow> u16 option \<Rightarrow> (Virtqueue, u16 option, VirtIOError) act" where
  "add_read_bufs [] prev_idx = act_return prev_idx"
| "add_read_bufs (buf # bufs) prev_idx =
     act_bind (take_free (\<lambda>desc next. \<lparr>vd_addr = fst buf, vd_len = of_nat (snd buf), vd_flags = DESC_NEXT, vd_next = next\<rparr>)) (\<lambda>desc_idx.
     act_bind (link_prev prev_idx desc_idx) (\<lambda>_. add_read_bufs bufs (Some desc_idx)))"

fun add_write_bufs :: "vbuf list \<Rightarrow> u16 option \<Rightarrow> (Virtqueue, u16 option, VirtIOError) act" where
  "add_write_bufs [] prev_idx = act_return prev_idx"
| "add_write_bufs (buf # bufs) prev_idx =
     act_bind (take_free (\<lambda>desc next.
       \<lparr>vd_addr = fst buf, vd_len = of_nat (snd buf), vd_flags = if bufs \<noteq> [] then DESC_WRITE OR DESC_NEXT else DESC_WRITE, vd_next = next\<rparr>)) (\<lambda>desc_idx.
     act_bind (link_prev prev_idx desc_idx) (\<lambda>_. add_write_bufs bufs (Some desc_idx)))"

definition add_buffer_chain :: "vbuf list \<Rightarrow> vbuf list \<Rightarrow> (Virtqueue, u16, VirtIOError) act" where
  "add_buffer_chain read_bufs write_bufs q =
     (let total = length read_bufs + length write_bufs
      in if total = 0 then (Err VE_BufferTooSmall, q)
         else if vq_num_free q < of_nat total then (Err VE_BufferTooSmall, q)
         else let head = vq_free_head q
              in act_bind (add_read_bufs read_bufs None) (\<lambda>prev_idx.
                 act_bind (add_write_bufs write_bufs prev_idx) (\<lambda>_.
                 act_bind (push_avail head) (\<lambda>_. act_return head))) q)"

text \<open>The loop that gives a chain back follows \<open>next\<close> as long as the flag is set; it may not end.\<close>

partial_function (option) free_descriptor_chain :: "u16 \<Rightarrow> Virtqueue \<Rightarrow> ((unit, VirtIOError) outcome \<times> Virtqueue) option" where
  "free_descriptor_chain head q =
     (if unat head < length (vq_desc q) then
        let desc = vq_desc q ! unat head;
            q' = (desc_put head (desc\<lparr>vd_next := vq_free_head q\<rparr>) q)\<lparr>vq_free_head := head, vq_num_free := vq_num_free q + 1\<rparr>
        in if vd_flags desc AND DESC_NEXT \<noteq> 0 then free_descriptor_chain (vd_next desc) q' else Some (Ok (), q')
      else Some (Panic, q))"

definition poll_used :: "Virtqueue \<Rightarrow> (((u16 \<times> u32) option, VirtIOError) outcome \<times> Virtqueue) option" where
  "poll_used q =
     (if vq_last_used_idx q = vq_used_idx q then Some (Ok None, q)
      else let slot = unat (vq_last_used_idx q mod vq_queue_size q)
           in if vq_queue_size q = 0 \<or> slot \<ge> length (vq_used_ring q) then Some (Panic, q)
              else let elem = vq_used_ring q ! slot;
                       q' = q\<lparr>vq_last_used_idx := vq_last_used_idx q + 1\<rparr>
                   in map_option (\<lambda>(r, q''). (map_ok (\<lambda>_. Some (ucast (ue_id elem), ue_len elem)) r, q''))
                        (free_descriptor_chain (ucast (ue_id elem)) q'))"

definition pending_count :: "Virtqueue \<Rightarrow> u16" where
  "pending_count q = vq_used_idx q - vq_last_used_idx q"

definition has_pending :: "Virtqueue \<Rightarrow> bool" where
  "has_pending q \<longleftrightarrow> 0 < pending_count q"



section \<open>Chains and the free list\<close>

text \<open>
  A chain as the device sees it: for every descriptor its index, the address and length of its buffer,
  and whether the device writes it.
\<close>

type_synonym vchain = "(u16 \<times> u64 \<times> u32 \<times> bool) list"

definition desc_is :: "VirtqDesc list \<Rightarrow> u16 \<times> u64 \<times> u32 \<times> bool \<Rightarrow> bool \<Rightarrow> bool" where
  "desc_is ds = (\<lambda>(i, addr, len, write) more. unat i < length ds \<and> vd_addr (ds ! unat i) = addr \<and> vd_len (ds ! unat i) = len \<and>
     vd_flags (ds ! unat i) = (if write then DESC_WRITE else 0) OR (if more then DESC_NEXT else 0))"

fun linked :: "VirtqDesc list \<Rightarrow> u16 list \<Rightarrow> bool" where
  "linked ds [] = True"
| "linked ds (i # is) = (unat i < length ds \<and> (is \<noteq> [] \<longrightarrow> vd_next (ds ! unat i) = hd is) \<and> linked ds is)"

fun chain_at :: "VirtqDesc list \<Rightarrow> vchain \<Rightarrow> bool" where
  "chain_at ds [] = True"
| "chain_at ds (e # c) = (desc_is ds e (c \<noteq> []) \<and> chain_at ds c)"

definition free_list :: "Virtqueue \<Rightarrow> u16 list \<Rightarrow> bool" where
  "free_list q fs \<longleftrightarrow> linked (vq_desc q) fs \<and> (fs \<noteq> [] \<longrightarrow> vq_free_head q = hd fs) \<and> unat (vq_num_free q) = length fs \<and> distinct fs"

lemma linked_append: "linked ds (is @ js) \<longleftrightarrow> linked ds is \<and> linked ds js \<and> (is \<noteq> [] \<longrightarrow> js \<noteq> [] \<longrightarrow> vd_next (ds ! unat (last is)) = hd js)"
  by (induction "is") auto

lemma linked_cong:
  "length ds' = length ds \<Longrightarrow> (\<And>i. i \<in> set is \<Longrightarrow> ds' ! unat i = ds ! unat i) \<Longrightarrow> linked ds' is = linked ds is"
  by (induction "is") auto

lemma chain_at_cong:
  "length ds' = length ds \<Longrightarrow> (\<And>i. i \<in> fst ` set c \<Longrightarrow> ds' ! unat i = ds ! unat i) \<Longrightarrow> chain_at ds' c = chain_at ds c"
  by (induction c) (auto simp: desc_is_def)

lemma nth_update_other: "i \<noteq> j \<Longrightarrow> ds[unat i := d] ! unat j = ds ! unat j" for i j :: u16
  by (simp add: word_unat_eq_iff)

definition entries :: "u16 list \<Rightarrow> vbuf list \<Rightarrow> bool \<Rightarrow> vchain" where
  "entries is bufs write = map2 (\<lambda>i buf. (i, fst buf, of_nat (snd buf), write)) is bufs"

lemma entries_simps [simp]: "entries is [] w = []" "entries (i # is) (b # bs) w = (i, fst b, of_nat (snd b), w) # entries is bs w"
  by (simp_all add: entries_def)

lemma entries_index: "length is = length bufs \<Longrightarrow> map fst (entries is bufs w) = is"
  by (simp add: entries_def list_eq_iff_nth_eq)


text \<open>What the construction of a chain changes.\<close>

definition touches :: "u16 set \<Rightarrow> Virtqueue \<Rightarrow> Virtqueue \<Rightarrow> bool" where
  "touches A q q' \<longleftrightarrow> length (vq_desc q') = length (vq_desc q) \<and> (\<forall>j. j \<notin> A \<longrightarrow> vq_desc q' ! unat j = vq_desc q ! unat j) \<and>
     vq_queue_size q' = vq_queue_size q \<and> vq_last_used_idx q' = vq_last_used_idx q \<and> vq_avail_idx q' = vq_avail_idx q \<and>
     vq_avail_ring q' = vq_avail_ring q \<and> vq_used_idx q' = vq_used_idx q \<and> vq_used_ring q' = vq_used_ring q"

lemma touches_refl: "touches {} q q"
  by (simp add: touches_def)

lemma touches_trans: "touches A q q' \<Longrightarrow> touches B q' q'' \<Longrightarrow> touches (A \<union> B) q q''"
  by (auto simp: touches_def) 

text \<open>Taking a descriptor from the free list and filling it in.\<close>

lemma take_free_ok:
  assumes "free_list q (i # fs)"
  obtains q' where "take_free fill q = (Ok i, q')" "free_list q' fs" "vd_next (vq_desc q ! unat i) = vq_free_head q'"
    "touches {i} q q'" "vq_desc q' = (vq_desc q)[unat i := fill (vq_desc q ! unat i) (vq_free_head q')]"
proof -
  let ?d = "vq_desc q ! unat i"
  let ?q = "q\<lparr>vq_desc := (vq_desc q)[unat i := fill ?d (vd_next ?d)], vq_free_head := vd_next ?d, vq_num_free := vq_num_free q - 1\<rparr>"
  have i: "unat i < length (vq_desc q)" "vq_free_head q = i" "linked (vq_desc q) fs" "distinct fs" "i \<notin> set fs"
    "fs \<noteq> [] \<Longrightarrow> vd_next ?d = hd fs" "unat (vq_num_free q) = Suc (length fs)"
    using assms by (auto simp: free_list_def)
  have "linked ((vq_desc q)[unat i := d]) fs" for d
    using i(3,5) by (subst linked_cong [of _ "vq_desc q"]) (auto intro!: nth_update_other)
  moreover have "unat (vq_num_free q - 1) = length fs" using i(7) by (subst unat_sub) (auto simp: word_le_nat_alt)
  ultimately have "free_list ?q fs" using i by (auto simp: free_list_def)
  moreover have "take_free fill q = (Ok i, ?q)" using i by (simp add: take_free_def desc_at_def desc_put_def)
  moreover have "touches {i} q ?q" by (auto simp: touches_def intro!: nth_update_other)
  ultimately show ?thesis using that [of ?q] by simp
qed

text \<open>A chain under construction: every descriptor so far has the flag for a successor.\<close>

definition partial_chain :: "Virtqueue \<Rightarrow> vchain \<Rightarrow> u16 list \<Rightarrow> u16 option \<Rightarrow> bool" where
  "partial_chain q P fs prev \<longleftrightarrow> (\<forall>e \<in> set P. desc_is (vq_desc q) e True) \<and> linked (vq_desc q) (map fst P @ fs) \<and>
     distinct (map fst P @ fs) \<and> prev = (if P = [] then None else Some (fst (last P)))"

text \<open>The new descriptor is already linked to its predecessor.\<close>

lemma link_prev_id:
  assumes "partial_chain q P (i # fs) prev" "\<And>j. j \<noteq> i \<Longrightarrow> vq_desc q' ! unat j = vq_desc q ! unat j" "length (vq_desc q') = length (vq_desc q)"
  shows "link_prev prev i q' = (Ok (), q')"
proof (cases "P = []")
  case True
  then show ?thesis using assms(1) by (simp add: partial_chain_def link_prev_def)
next
  case False
  let ?p = "fst (last P)"
  have p: "unat ?p < length (vq_desc q)" "vd_next (vq_desc q ! unat ?p) = i" "?p \<noteq> i" "prev = Some ?p"
    using assms(1) False last_in_set [OF False]
    by (auto simp: partial_chain_def linked_append last_map desc_is_def case_prod_beta)
  have "(vq_desc q' ! unat ?p)\<lparr>vd_next := i\<rparr> = vq_desc q' ! unat ?p" using p assms(2) [of ?p] by simp
  then have "desc_put ?p ((vq_desc q' ! unat ?p)\<lparr>vd_next := i\<rparr>) q' = q'" by (simp add: desc_put_def)
  then show ?thesis using p assms(3) by (simp add: link_prev_def desc_at_def)
qed

lemma add_one:
  assumes "free_list q (i # fs)" "partial_chain q P (i # fs) prev"
    and fill: "\<And>d n. fill d n = \<lparr>vd_addr = fst buf, vd_len = of_nat (snd buf), vd_flags = fl, vd_next = n\<rparr>"
  obtains q' where "act_bind (take_free fill) (\<lambda>i. act_bind (link_prev prev i) (\<lambda>_. k (Some i))) q = k (Some i) q'" "free_list q' fs"
    "touches {i} q q'" "\<forall>e \<in> set P. desc_is (vq_desc q') e True" "linked (vq_desc q') (map fst P @ i # fs)"
    "vq_desc q' ! unat i = \<lparr>vd_addr = fst buf, vd_len = of_nat (snd buf), vd_flags = fl, vd_next = vq_free_head q'\<rparr>"
    "unat i < length (vq_desc q')"
proof -
  obtain q' where q': "take_free fill q = (Ok i, q')" "free_list q' fs" "vd_next (vq_desc q ! unat i) = vq_free_head q'"
    "touches {i} q q'" and ds: "vq_desc q' = (vq_desc q)[unat i := fill (vq_desc q ! unat i) (vq_free_head q')]"
    by (rule take_free_ok [OF assms(1)])
  have i: "unat i < length (vq_desc q)" using assms(1) by (simp add: free_list_def)
  have other: "vq_desc q' ! unat j = vq_desc q ! unat j" if "j \<noteq> i" for j unfolding ds using that by (intro nth_update_other) simp
  have at: "vq_desc q' ! unat i = \<lparr>vd_addr = fst buf, vd_len = of_nat (snd buf), vd_flags = fl, vd_next = vq_free_head q'\<rparr>"
    unfolding ds using i by (simp add: fill)
  have len: "length (vq_desc q') = length (vq_desc q)" by (simp add: ds)
  have notP: "i \<notin> fst ` set P" "i \<notin> set fs" using assms(2) by (auto simp: partial_chain_def)
  have "link_prev prev i q' = (Ok (), q')" by (rule link_prev_id [OF assms(2) other len])
  then have run: "act_bind (take_free fill) (\<lambda>i. act_bind (link_prev prev i) (\<lambda>_. k (Some i))) q = k (Some i) q'"
    using q'(1) by (simp add: act_bind_def)
  have "\<forall>e \<in> set P. desc_is (vq_desc q') e True"
  proof
    fix e assume e: "e \<in> set P"
    then have "fst e \<noteq> i" using notP(1) by auto
    then show "desc_is (vq_desc q') e True" using assms(2) e other [of "fst e"] len by (auto simp: partial_chain_def desc_is_def case_prod_beta)
  qed
  moreover have "linked (vq_desc q') (map fst P @ i # fs)"
  proof -
    have "linked (vq_desc q') (map fst P) = linked (vq_desc q) (map fst P)"
      using notP(1) by (intro linked_cong len other) (auto simp: image_iff)
    moreover have "vq_desc q' ! unat (last (map fst P)) = vq_desc q ! unat (last (map fst P))" if "P \<noteq> []"
      using notP(1) that last_in_set [of "map fst P"] by (intro other) auto
    ultimately show ?thesis using assms(2) q'(2) at i len by (auto simp: partial_chain_def linked_append free_list_def)
  qed
  ultimately show ?thesis using that [of q'] run q'(2,4) at i len by simp
qed

lemma partial_chain_snoc:
  assumes "\<forall>e \<in> set P. desc_is (vq_desc q) e True" "linked (vq_desc q) (map fst P @ i # fs)" "distinct (map fst P @ i # fs)"
    "desc_is (vq_desc q) (i, a, l, w) True"
  shows "partial_chain q (P @ [(i, a, l, w)]) fs (Some i)"
  using assms by (auto simp: partial_chain_def)

lemma add_read_bufs_ok:
  assumes "free_list q (is @ fs)" "partial_chain q P (is @ fs) prev" "length is = length bufs"
  obtains q' prev' where "add_read_bufs bufs prev q = (Ok prev', q')" "free_list q' fs" "touches (set is) q q'"
    "partial_chain q' (P @ entries is bufs False) fs prev'"
  using assms
proof (induction bufs arbitrary: q P prev "is" thesis)
  case Nil
  then show ?case using touches_refl [of q] by simp
next
  case (Cons b bufs)
  obtain i js where "is": "is = i # js" "length js = length bufs" using Cons.prems(4) by (cases "is") auto
  have F: "free_list q (i # js @ fs)" "partial_chain q P (i # js @ fs) prev" using Cons.prems(2,3) "is" by simp_all
  obtain q1 where q1: "add_read_bufs (b # bufs) prev q = add_read_bufs bufs (Some i) q1" "free_list q1 (js @ fs)"
    "touches {i} q q1" "\<forall>e \<in> set P. desc_is (vq_desc q1) e True" "linked (vq_desc q1) (map fst P @ i # js @ fs)"
    "vq_desc q1 ! unat i = \<lparr>vd_addr = fst b, vd_len = of_nat (snd b), vd_flags = DESC_NEXT, vd_next = vq_free_head q1\<rparr>"
    "unat i < length (vq_desc q1)"
    unfolding add_read_bufs.simps by (rule add_one [OF F, where k = "add_read_bufs bufs"]) (rule refl)
  have "partial_chain q1 (P @ [(i, fst b, of_nat (snd b), False)]) (js @ fs) (Some i)"
    using q1(4-7) F(2) by (intro partial_chain_snoc) (auto simp: desc_is_def partial_chain_def)
  then obtain q2 prev2 where q2: "add_read_bufs bufs (Some i) q1 = (Ok prev2, q2)" "free_list q2 fs" "touches (set js) q1 q2"
    "partial_chain q2 ((P @ [(i, fst b, of_nat (snd b), False)]) @ entries js bufs False) fs prev2"
    using Cons.IH [OF _ q1(2) _ "is"(2)] by blast
  have "touches (set is) q q2" using touches_trans [OF q1(3) q2(3)] "is" by simp
  then show ?case using Cons.prems(1) [of prev2 q2] q1(1) q2 "is" by simp
qed

lemma add_write_bufs_ok:
  assumes "free_list q (is @ fs)" "partial_chain q P (is @ fs) prev" "length is = length bufs" "bufs \<noteq> []"
  obtains q' prev' where "add_write_bufs bufs prev q = (Ok prev', q')" "free_list q' fs" "touches (set is) q q'"
    "chain_at (vq_desc q') (P @ entries is bufs True)" "linked (vq_desc q') (map fst P @ is)"
  using assms
proof (induction bufs arbitrary: q P prev "is" thesis)
  case (Cons b bufs)
  obtain i js where "is": "is = i # js" "length js = length bufs" using Cons.prems(4) by (cases "is") auto
  have F: "free_list q (i # js @ fs)" "partial_chain q P (i # js @ fs) prev" using Cons.prems(2,3) "is" by simp_all
  let ?fl = "if bufs \<noteq> [] then DESC_WRITE OR DESC_NEXT else DESC_WRITE"
  obtain q1 where q1: "add_write_bufs (b # bufs) prev q = add_write_bufs bufs (Some i) q1" "free_list q1 (js @ fs)"
    "touches {i} q q1" "\<forall>e \<in> set P. desc_is (vq_desc q1) e True" "linked (vq_desc q1) (map fst P @ i # js @ fs)"
    "vq_desc q1 ! unat i = \<lparr>vd_addr = fst b, vd_len = of_nat (snd b), vd_flags = ?fl, vd_next = vq_free_head q1\<rparr>"
    "unat i < length (vq_desc q1)"
    unfolding add_write_bufs.simps by (rule add_one [OF F, where k = "add_write_bufs bufs"]) (rule refl)
  show ?case
  proof (cases "bufs = []")
    case True
    then have "desc_is (vq_desc q1) (i, fst b, of_nat (snd b), True) False" using q1(6,7) by (simp add: desc_is_def)
    then have "chain_at (vq_desc q1) (P @ [(i, fst b, of_nat (snd b), True)])" using q1(4) by (induction P) auto
    then show ?thesis using Cons.prems(1) [of "Some i" q1] q1 True "is" by (simp add: linked_append)
  next
    case False
    have "partial_chain q1 (P @ [(i, fst b, of_nat (snd b), True)]) (js @ fs) (Some i)"
      using q1(4-7) F(2) False by (intro partial_chain_snoc) (auto simp: desc_is_def partial_chain_def)
    then obtain q2 prev2 where q2: "add_write_bufs bufs (Some i) q1 = (Ok prev2, q2)" "free_list q2 fs" "touches (set js) q1 q2"
      "chain_at (vq_desc q2) ((P @ [(i, fst b, of_nat (snd b), True)]) @ entries js bufs True)"
      "linked (vq_desc q2) (map fst (P @ [(i, fst b, of_nat (snd b), True)]) @ js)"
      using Cons.IH [OF _ q1(2) _ "is"(2) False] by blast
    have "touches (set is) q q2" using touches_trans [OF q1(3) q2(3)] "is" by simp
    then show ?thesis using Cons.prems(1) [of prev2 q2] q1(1) q2 "is" by simp
  qed
qed simp

text \<open>A queue whose rings have the size of the queue.\<close>

definition rings_ok :: "Virtqueue \<Rightarrow> bool" where
  "rings_ok q \<longleftrightarrow> 0 < unat (vq_queue_size q) \<and> length (vq_avail_ring q) = unat (vq_queue_size q) \<and>
     length (vq_used_ring q) = unat (vq_queue_size q) \<and> length (vq_desc q) = unat (vq_queue_size q)"

definition avail_slot :: "Virtqueue \<Rightarrow> nat" where
  "avail_slot q = unat (vq_avail_idx q) mod unat (vq_queue_size q)"

definition avail_pushed :: "u16 \<Rightarrow> Virtqueue \<Rightarrow> Virtqueue" where
  "avail_pushed head q = q\<lparr>vq_avail_ring := (vq_avail_ring q)[avail_slot q := head], vq_avail_idx := vq_avail_idx q + 1\<rparr>"

lemma push_avail_ok: "rings_ok q \<Longrightarrow> push_avail head q = (Ok (), avail_pushed head q)"
  using mod_less_divisor [of "unat (vq_queue_size q)" "unat (vq_avail_idx q)"]
  by (auto simp: push_avail_def rings_ok_def avail_pushed_def avail_slot_def unat_mod Let_def simp del: mod_less_divisor)

lemma rings_ok_touches: "touches A q q' \<Longrightarrow> rings_ok q' = rings_ok q"
  by (auto simp: touches_def rings_ok_def)

lemma avail_pushed_simps [simp]:
  "vq_desc (avail_pushed head q) = vq_desc q" "free_list (avail_pushed head q) fs = free_list q fs" "rings_ok (avail_pushed head q) = rings_ok q"
  by (simp_all add: avail_pushed_def free_list_def rings_ok_def)

lemma add_buffer_chain_ok:
  assumes q: "rings_ok q" "free_list q fs" and bufs: "length rb + length wb \<le> length fs" "wb \<noteq> []" "length rb + length wb < 2 ^ 16"
  defines "C \<equiv> entries (take (length rb) fs) rb False @ entries (take (length wb) (drop (length rb) fs)) wb True"
  obtains q' where "add_buffer_chain rb wb q = (Ok (fst (hd C)), avail_pushed (fst (hd C)) q')" "touches (fst ` set C) q q'"
    "free_list q' (drop (length C) fs)" "chain_at (vq_desc q') C" "linked (vq_desc q') (map fst C)" "map fst C = take (length C) fs"
    "length C = length rb + length wb"
proof -
  let ?r = "length rb" and ?w = "length wb"
  let ?is = "take ?r fs" and ?js = "take ?w (drop ?r fs)" and ?gs = "drop (?r + ?w) fs"
  have lens: "length ?is = ?r" "length ?js = ?w" using bufs(1) by simp_all
  define hs where "hs = drop ?r fs"
  have split': "hs = ?js @ ?gs" unfolding hs_def by (metis add.commute append_take_drop_id drop_drop)
  have "free_list q (?is @ hs)" using q(2) by (simp add: hs_def)
  moreover from this have "partial_chain q [] (?is @ hs) None" by (simp add: partial_chain_def free_list_def)
  ultimately obtain q1 prev1 where q1: "add_read_bufs rb None q = (Ok prev1, q1)" "free_list q1 (hs)" "touches (set ?is) q q1"
    "partial_chain q1 ([] @ entries ?is rb False) (hs) prev1"
    by (rule add_read_bufs_ok [OF _ _ lens(1)])
  obtain q2 prev2 where q2: "add_write_bufs wb prev1 q1 = (Ok prev2, q2)" "free_list q2 ?gs" "touches (set ?js) q1 q2"
    "chain_at (vq_desc q2) (([] @ entries ?is rb False) @ entries ?js wb True)"
    "linked (vq_desc q2) (map fst ([] @ entries ?is rb False) @ ?js)"
    by (rule add_write_bufs_ok [OF q1(2) [unfolded split'] q1(4) [unfolded split'] lens(2) bufs(2)])
  have C: "length C = ?r + ?w" using lens by (simp add: C_def entries_def)
  have idx: "map fst C = ?is @ ?js" using lens by (simp add: C_def entries_index)
  then have idx': "map fst C = take (length C) fs" by (simp add: C take_add)
  have "C \<noteq> []" using C bufs(2) by auto
  then have head: "fst (hd C) = vq_free_head q"
    using idx' q(2) bufs by (cases C; cases fs) (auto simp: free_list_def)
  have set: "fst ` set C = set ?is \<union> set ?js" by (metis idx set_append set_map)
  have T: "touches (fst ` set C) q q2" using touches_trans [OF q1(3) q2(3)] set by simp
  have "unat (of_nat (?r + ?w) :: u16) = ?r + ?w" using bufs(3) by (intro unat_of_nat_small) simp
  then have "\<not> vq_num_free q < of_nat (?r + ?w)" using q(2) bufs(1) by (simp add: word_less_nat_alt free_list_def)
  moreover have "push_avail (vq_free_head q) q2 = (Ok (), avail_pushed (vq_free_head q) q2)"
    using rings_ok_touches [OF T] q(1) by (intro push_avail_ok) simp
  ultimately have "add_buffer_chain rb wb q = (Ok (fst (hd C)), avail_pushed (fst (hd C)) q2)"
    using q1(1) q2(1) bufs(2) unfolding head by (simp add: add_buffer_chain_def act_bind_def Let_def)
  then show ?thesis using that [of q2] T q2(2,4,5) idx' C lens by (simp add: C_def entries_index)
qed

text \<open>Giving a chain back always ends.\<close>

lemma desc_chain_freed:
  assumes "chain_at (vq_desc q) c" "linked (vq_desc q) (map fst c)" "c \<noteq> []" "free_list q fs" "distinct (map fst c @ fs)" "length c + length fs < 2 ^ 16"
  obtains q' where "free_descriptor_chain (fst (hd c)) q = Some (Ok (), q')" "free_list q' (rev (map fst c) @ fs)" "touches (fst ` set c) q q'"
  using assms
proof (induction c arbitrary: q fs thesis)
  case (Cons e c)
  obtain i a l w where e: "e = (i, a, l, w)" by (cases e)
  let ?d = "vq_desc q ! unat i"
  let ?q = "(desc_put i (?d\<lparr>vd_next := vq_free_head q\<rparr>) q)\<lparr>vq_free_head := i, vq_num_free := vq_num_free q + 1\<rparr>"
  have i: "unat i < length (vq_desc q)" "vd_flags ?d = (if w then DESC_WRITE else 0) OR (if c \<noteq> [] then DESC_NEXT else 0)"
    "c \<noteq> [] \<Longrightarrow> vd_next ?d = fst (hd c)" "i \<notin> fst ` set c" "i \<notin> set fs"
    using Cons.prems(2,3,6) e by (auto simp: desc_is_def hd_map)
  have T: "touches {i} q ?q" by (auto simp: touches_def desc_put_def intro!: nth_update_other)
  then have other: "vq_desc ?q ! unat j = vq_desc q ! unat j" if "j \<noteq> i" for j using that by (auto simp: touches_def)
  have len: "length (vq_desc ?q) = length (vq_desc q)" by (simp add: desc_put_def)
  have "unat (vq_num_free q + 1) = Suc (length fs)"
    using Cons.prems(5,7) by (subst unat_add_of_nat [where n = 1, simplified]) (simp_all add: free_list_def)
  moreover have "linked (vq_desc ?q) fs = linked (vq_desc q) fs" using i(5) by (intro linked_cong len other) auto
  ultimately have free: "free_list ?q (i # fs)"
    using i Cons.prems(5,6) e by (auto simp: free_list_def desc_put_def)
  have step: "free_descriptor_chain i q = (if c \<noteq> [] then free_descriptor_chain (fst (hd c)) ?q else Some (Ok (), ?q))"
    using i by (subst free_descriptor_chain.simps) (auto simp: Let_def DESC_WRITE_def DESC_NEXT_def)
  show ?case
  proof (cases "c = []")
    case True
    then show ?thesis using Cons.prems(1) [of ?q] step free T e by simp
  next
    case False
    have "chain_at (vq_desc ?q) c = chain_at (vq_desc q) c" "linked (vq_desc ?q) (map fst c) = linked (vq_desc q) (map fst c)"
      using i(4) by (intro chain_at_cong linked_cong len other; force)+
    then have "chain_at (vq_desc ?q) c" "linked (vq_desc ?q) (map fst c)" using Cons.prems(2,3) e by simp_all
    moreover have "distinct (map fst c @ i # fs)" "length c + length (i # fs) < 2 ^ 16" using Cons.prems(6,7) e by auto
    ultimately obtain q' where q': "free_descriptor_chain (fst (hd c)) ?q = Some (Ok (), q')" "free_list q' (rev (map fst c) @ i # fs)"
      "touches (fst ` set c) ?q q'"
      using Cons.IH [of ?q "i # fs"] False free by blast
    have "touches (fst ` set (e # c)) q q'" using touches_trans [OF T q'(3)] e by simp
    then show ?thesis using Cons.prems(1) [of q'] q' step False e by simp
  qed
qed simp



section \<open>Rings\<close>

text \<open>
  A ring of \<open>n\<close> slots with free-running 16-bit positions stands for a list. The number of slots divides
  the range of the positions, so that the slot of a position survives the wrap-around.
\<close>

definition ring_is :: "nat \<Rightarrow> u16 \<Rightarrow> u16 \<Rightarrow> 'a list \<Rightarrow> 'a list \<Rightarrow> bool" where
  "ring_is n lo hi ring xs \<longleftrightarrow> n dvd 2 ^ 16 \<and> n < 2 ^ 16 \<and> length ring = n \<and> length xs \<le> n \<and> unat (hi - lo) = length xs \<and>
     (\<forall>k < length xs. ring ! ((unat lo + k) mod n) = xs ! k)"

lemma ring_empty: "ring_is n lo hi ring xs \<Longrightarrow> lo = hi \<longleftrightarrow> xs = []"
  by (auto simp: ring_is_def unat_eq_0)

lemma ring_new: "n dvd 2 ^ 16 \<Longrightarrow> n < 2 ^ 16 \<Longrightarrow> length ring = n \<Longrightarrow> ring_is n p p ring []"
  by (simp add: ring_is_def)

lemma ring_hi:
  assumes "ring_is n lo hi ring xs"
  shows "unat hi mod n = (unat lo + length xs) mod n"
proof -
  have "unat (hi - lo) = length xs" using assms by (simp add: ring_is_def)
  moreover have "of_nat (unat (hi - lo)) = hi - lo" by simp
  ultimately have "hi - lo = of_nat (length xs)" by metis
  then have hi: "hi = lo + of_nat (length xs)" by (metis add.commute diff_add_cancel)
  have "unat hi = (unat lo + length xs) mod 2 ^ 16" unfolding hi by (simp add: unat_word_ariths unat_of_nat mod_add_right_eq)
  then show ?thesis using assms by (simp add: ring_is_def mod_mod_cancel)
qed

lemma ring_push:
  assumes r: "ring_is n lo hi ring xs" and room: "length xs < n"
  shows "ring_is n lo (hi + 1) (ring[unat hi mod n := x]) (xs @ [x])"
proof -
  have n: "n < 2 ^ 16" "0 < n" using r room by (auto simp: ring_is_def)
  have eq: "hi + 1 - lo = (hi - lo) + 1" by simp
  have "unat (hi + 1 - lo) = Suc (length xs)"
    unfolding eq using r room n by (subst unat_add_of_nat [where n = 1, simplified]) (auto simp: ring_is_def)
  moreover have "ring[unat hi mod n := x] ! ((unat lo + k) mod n) = (xs @ [x]) ! k" if "k < Suc (length xs)" for k
  proof (cases "k = length xs")
    case True
    then show ?thesis using ring_hi [OF r] r n by (simp add: ring_is_def)
  next
    case False
    then have k: "k < length xs" using that by simp
    have "(unat lo + k) mod n \<noteq> (unat lo + length xs) mod n"
    proof
      assume "(unat lo + k) mod n = (unat lo + length xs) mod n"
      then have "n dvd (unat lo + length xs) - (unat lo + k)" using k by (subst (asm) eq_commute) (simp add: mod_eq_dvd_iff_nat)
      then show False using k room nat_dvd_not_less [of "length xs - k" n] by simp
    qed
    then show ?thesis using r k ring_hi [OF r] by (simp add: ring_is_def nth_append)
  qed
  ultimately show ?thesis using r room by (simp add: ring_is_def)
qed

lemma ring_pop:
  assumes r: "ring_is n lo hi ring (x # xs)"
  shows "lo \<noteq> hi" "ring ! (unat lo mod n) = x" "ring_is n (lo + 1) hi ring xs"
proof -
  show ne: "lo \<noteq> hi" using ring_empty [OF r] by simp
  show "ring ! (unat lo mod n) = x" using r by (auto simp: ring_is_def)
  have n: "n dvd 2 ^ 16" using r by (simp add: ring_is_def)
  have "unat (hi - lo) = Suc (length xs)" using r by (simp add: ring_is_def)
  then have "unat (hi - lo - 1) = length xs" by (subst unat_sub) (auto simp: word_le_nat_alt)
  then have len: "unat (hi - (lo + 1)) = length xs" by (simp add: diff_diff_eq)
  have "ring ! ((unat (lo + 1) + k) mod n) = xs ! k" if "k < length xs" for k
  proof -
    have "unat (lo + 1) = (unat lo + 1) mod 2 ^ 16" by (simp add: unat_word_ariths)
    then have "unat (lo + 1) mod n = (unat lo + 1) mod n" using n by (simp add: mod_mod_cancel)
    then have "(unat (lo + 1) + k) mod n = (unat lo + Suc k) mod n" by (metis add.assoc mod_add_left_eq plus_1_eq_Suc)
    moreover have "ring ! ((unat lo + Suc k) mod n) = (x # xs) ! Suc k" using r that unfolding ring_is_def by (metis Suc_less_eq length_Cons)
    ultimately show ?thesis by simp
  qed
  then show "ring_is n (lo + 1) hi ring xs" using r len by (simp add: ring_is_def)
qed


section \<open>Driver and device\<close>

text \<open>
  The device works on the shared areas as the VirtIO specification says: it takes chains from the available
  ring in order, works on any number of them, and puts each on the used ring when it is done, in any
  order. \<open>vr_seen\<close> is its position in the available ring and \<open>vr_taken\<close> the chains it works on.
\<close>

record vring =
  vr_q :: Virtqueue
  vr_seen :: u16
  vr_taken :: "u16 list"

text \<open>The buffers of a chain as the device reads them; a chain has no more descriptors than the queue.\<close>

fun device_chain :: "VirtqDesc list \<Rightarrow> nat \<Rightarrow> u16 \<Rightarrow> (u64 \<times> u32 \<times> bool) list" where
  "device_chain ds 0 i = []"
| "device_chain ds (Suc n) i =
     (let d = ds ! unat i
      in (vd_addr d, vd_len d, vd_flags d AND DESC_WRITE \<noteq> 0) # (if vd_flags d AND DESC_NEXT \<noteq> 0 then device_chain ds n (vd_next d) else []))"

datatype vq_event =
    EvAdd "vbuf list" "vbuf list" "(u16, VirtIOError) outcome"
  | EvAdd1 vbuf bool "(u16, VirtIOError) outcome"
  | EvTake u16 "(u64 \<times> u32 \<times> bool) list"
  | EvComplete u16 u32
  | EvPoll "(u16 \<times> u32) option"

definition device_take :: "vring \<Rightarrow> u16 \<times> vring" where
  "device_take s =
     (let head = vq_avail_ring (vr_q s) ! (unat (vr_seen s) mod unat (vq_queue_size (vr_q s)))
      in (head, s\<lparr>vr_seen := vr_seen s + 1, vr_taken := vr_taken s @ [head]\<rparr>))"

definition device_complete :: "u16 \<Rightarrow> u32 \<Rightarrow> vring \<Rightarrow> vring" where
  "device_complete head len s =
     (let q = vr_q s; slot = unat (vq_used_idx q) mod unat (vq_queue_size q)
      in s\<lparr>vr_taken := remove1 head (vr_taken s),
           vr_q := q\<lparr>vq_used_ring := (vq_used_ring q)[slot := \<lparr>ue_id = ucast head, ue_len = len\<rparr>], vq_used_idx := vq_used_idx q + 1\<rparr>\<rparr>)"

inductive vq_step :: "vring \<Rightarrow> vq_event \<Rightarrow> vring \<Rightarrow> bool" where
  step_add: "add_buffer_chain rb wb (vr_q s) = (r, q) \<Longrightarrow> vq_step s (EvAdd rb wb r) (s\<lparr>vr_q := q\<rparr>)"
| step_add1: "add_buffer buf write (vr_q s) = (r, q) \<Longrightarrow> vq_step s (EvAdd1 buf write r) (s\<lparr>vr_q := q\<rparr>)"
| step_take: "vr_seen s \<noteq> vq_avail_idx (vr_q s) \<Longrightarrow> device_take s = (head, s') \<Longrightarrow>
    vq_step s (EvTake head (device_chain (vq_desc (vr_q s)) (unat (vq_queue_size (vr_q s))) head)) s'"
| step_complete: "head \<in> set (vr_taken s) \<Longrightarrow> vq_step s (EvComplete head len) (device_complete head len s)"
| step_poll: "poll_used (vr_q s) = Some (Ok r, q) \<Longrightarrow> vq_step s (EvPoll r) (s\<lparr>vr_q := q\<rparr>)"

inductive vq_steps :: "vring \<Rightarrow> vq_event list \<Rightarrow> vring \<Rightarrow> bool" where
  steps_nil: "vq_steps s [] s"
| steps_snoc: "vq_steps s es s' \<Longrightarrow> vq_step s' e s'' \<Longrightarrow> vq_steps s (es @ [e]) s''"

inductive_cases vq_stepE: "vq_step s e s'"

text \<open>
  Requests the queue is made for: a chain with a buffer that the device reads has one that it writes, and a chain has fewer than \<open>2 ^ 16\<close>
  buffers, as the code converts their number to 16 bits.
\<close>

definition good_request :: "vq_event \<Rightarrow> bool" where
  "good_request e \<longleftrightarrow> (\<forall>rb wb r. e = EvAdd rb wb r \<longrightarrow> (rb \<noteq> [] \<longrightarrow> wb \<noteq> []) \<and> length rb + length wb < 2 ^ 16)"


section \<open>What a virtqueue promises\<close>

text \<open>
  The specification: the chains are posted, taken by the device, done, and then free again. Nothing
  wraps and there are no rings, flags or links.
\<close>

record vspec =
  vs_free :: "u16 list"
  vs_posted :: "vchain list"
  vs_taken :: "vchain list"
  vs_done :: "(vchain \<times> u32) list"

definition chain_head :: "vchain \<Rightarrow> u16" where
  "chain_head c = fst (hd c)"

definition spec_chain :: "u16 list \<Rightarrow> vbuf list \<Rightarrow> vbuf list \<Rightarrow> vchain" where
  "spec_chain fs rb wb = entries (take (length rb) fs) rb False @ entries (take (length wb) (drop (length rb) fs)) wb True"

inductive spec_step :: "vspec \<Rightarrow> vq_event \<Rightarrow> vspec \<Rightarrow> bool" where
  spec_empty: "spec_step S (EvAdd [] [] (Err VE_BufferTooSmall)) S"
| spec_add: "0 < length rb + length wb \<Longrightarrow> length rb + length wb \<le> length (vs_free S) \<Longrightarrow> C = spec_chain (vs_free S) rb wb \<Longrightarrow>
    spec_step S (EvAdd rb wb (Ok (chain_head C))) (S\<lparr>vs_free := drop (length C) (vs_free S), vs_posted := vs_posted S @ [C]\<rparr>)"
| spec_full: "length (vs_free S) < length rb + length wb \<Longrightarrow> spec_step S (EvAdd rb wb (Err VE_BufferTooSmall)) S"
| spec_add1: "vs_free S = i # fs \<Longrightarrow>
    spec_step S (EvAdd1 buf write (Ok i)) (S\<lparr>vs_free := fs, vs_posted := vs_posted S @ [[(i, fst buf, of_nat (snd buf), write)]]\<rparr>)"
| spec_full1: "vs_free S = [] \<Longrightarrow> spec_step S (EvAdd1 buf write (Err VE_BufferTooSmall)) S"
| spec_take: "vs_posted S = C # Cs \<Longrightarrow>
    spec_step S (EvTake (chain_head C) (map snd C)) (S\<lparr>vs_posted := Cs, vs_taken := vs_taken S @ [C]\<rparr>)"
| spec_complete: "C \<in> set (vs_taken S) \<Longrightarrow>
    spec_step S (EvComplete (chain_head C) len) (S\<lparr>vs_taken := remove1 C (vs_taken S), vs_done := vs_done S @ [(C, len)]\<rparr>)"
| spec_poll: "vs_done S = (C, len) # Ds \<Longrightarrow>
    spec_step S (EvPoll (Some (chain_head C, len))) (S\<lparr>vs_done := Ds, vs_free := rev (map fst C) @ vs_free S\<rparr>)"
| spec_none: "vs_done S = [] \<Longrightarrow> spec_step S (EvPoll None) S"

inductive spec_steps :: "vspec \<Rightarrow> vq_event list \<Rightarrow> vspec \<Rightarrow> bool" where
  spec_nil: "spec_steps S [] S"
| spec_snoc: "spec_steps S es S' \<Longrightarrow> spec_step S' e S'' \<Longrightarrow> spec_steps S (es @ [e]) S''"

definition spec_init :: "u16 \<Rightarrow> vspec" where
  "spec_init n = \<lparr>vs_free = map of_nat [0..<unat n], vs_posted = [], vs_taken = [], vs_done = []\<rparr>"

definition vring_init :: "u32 \<Rightarrow> u16 \<Rightarrow> vring" where
  "vring_init queue_idx n = \<lparr>vr_q = vq_init queue_idx n, vr_seen = 0, vr_taken = []\<rparr>"

definition in_flight :: "vspec \<Rightarrow> vchain list" where
  "in_flight S = vs_posted S @ vs_taken S @ map fst (vs_done S)"

text \<open>The relation between the two.\<close>

definition vq_rel :: "vring \<Rightarrow> vspec \<Rightarrow> bool" where
  "vq_rel s S \<longleftrightarrow> (let q = vr_q s; n = unat (vq_queue_size q) in rings_ok q \<and> free_list q (vs_free S) \<and>
     (\<forall>C \<in> set (in_flight S). C \<noteq> [] \<and> chain_at (vq_desc q) C \<and> linked (vq_desc q) (map fst C)) \<and>
     distinct (vs_free S @ concat (map (map fst) (in_flight S))) \<and>
     length (vs_free S) + length (concat (map (map fst) (in_flight S))) = n \<and>
     ring_is n (vr_seen s) (vq_avail_idx q) (vq_avail_ring q) (map chain_head (vs_posted S)) \<and>
     ring_is n (vq_last_used_idx q) (vq_used_idx q) (vq_used_ring q) (map (\<lambda>(C, len). \<lparr>ue_id = ucast (chain_head C), ue_len = len\<rparr>) (vs_done S)) \<and>
     vr_taken s = map chain_head (vs_taken S))"


section \<open>Refinement\<close>

definition chain_ok :: "VirtqDesc list \<Rightarrow> vchain \<Rightarrow> bool" where
  "chain_ok ds C \<longleftrightarrow> C \<noteq> [] \<and> chain_at ds C \<and> linked ds (map fst C)"

abbreviation indices :: "vchain list \<Rightarrow> u16 list" where
  "indices Cs \<equiv> concat (map (map fst) Cs)"

lemma vq_relD:
  assumes "vq_rel s S" and "n = unat (vq_queue_size (vr_q s))"
  shows "rings_ok (vr_q s)" "free_list (vr_q s) (vs_free S)" "\<And>C. C \<in> set (in_flight S) \<Longrightarrow> chain_ok (vq_desc (vr_q s)) C"
    "distinct (vs_free S @ indices (in_flight S))" "length (vs_free S) + length (indices (in_flight S)) = n"
    "ring_is n (vr_seen s) (vq_avail_idx (vr_q s)) (vq_avail_ring (vr_q s)) (map chain_head (vs_posted S))"
    "ring_is n (vq_last_used_idx (vr_q s)) (vq_used_idx (vr_q s)) (vq_used_ring (vr_q s))
       (map (\<lambda>(C, len). \<lparr>ue_id = ucast (chain_head C), ue_len = len\<rparr>) (vs_done S))"
    "vr_taken s = map chain_head (vs_taken S)" "n < 2 ^ 16"
  using assms unfolding vq_rel_def Let_def chain_ok_def ring_is_def by blast+

lemma vq_relI:
  assumes "rings_ok (vr_q s)" "free_list (vr_q s) (vs_free S)" "\<And>C. C \<in> set (in_flight S) \<Longrightarrow> chain_ok (vq_desc (vr_q s)) C"
    "distinct (vs_free S @ indices (in_flight S))" "length (vs_free S) + length (indices (in_flight S)) = unat (vq_queue_size (vr_q s))"
    "ring_is (unat (vq_queue_size (vr_q s))) (vr_seen s) (vq_avail_idx (vr_q s)) (vq_avail_ring (vr_q s)) (map chain_head (vs_posted S))"
    "ring_is (unat (vq_queue_size (vr_q s))) (vq_last_used_idx (vr_q s)) (vq_used_idx (vr_q s)) (vq_used_ring (vr_q s))
       (map (\<lambda>(C, len). \<lparr>ue_id = ucast (chain_head C), ue_len = len\<rparr>) (vs_done S))"
    "vr_taken s = map chain_head (vs_taken S)"
  shows "vq_rel s S"
  using assms unfolding vq_rel_def Let_def chain_ok_def by blast

lemma chains_le: "(\<And>C. C \<in> set Cs \<Longrightarrow> C \<noteq> []) \<Longrightarrow> length Cs \<le> length (indices Cs)"
proof (induction Cs)
  case (Cons C Cs)
  then have "length Cs \<le> length (indices Cs)" "C \<noteq> []" by auto
  then show ?case by (cases C) auto
qed simp

lemma chain_ok_touches:
  assumes "touches A q q'" "A \<inter> fst ` set C = {}" "chain_ok (vq_desc q) C"
  shows "chain_ok (vq_desc q') C"
proof -
  have "length (vq_desc q') = length (vq_desc q)" "\<And>i. i \<in> fst ` set C \<Longrightarrow> vq_desc q' ! unat i = vq_desc q ! unat i"
    using assms(1,2) by (auto simp: touches_def)
  then show ?thesis using assms(3) chain_at_cong [of "vq_desc q'" "vq_desc q" C] linked_cong [of "vq_desc q'" "vq_desc q" "map fst C"]
    by (auto simp: chain_ok_def)
qed

text \<open>The device reads exactly the buffers of a chain.\<close>

lemma device_chain_ok: "chain_ok ds C \<Longrightarrow> length C \<le> n \<Longrightarrow> device_chain ds n (chain_head C) = map snd C"
proof (induction C arbitrary: n)
  case (Cons e C)
  then obtain m where n: "n = Suc m" "length C \<le> m" by (cases n) auto
  obtain i a l w where e: "e = (i, a, l, w)" by (cases e)
  have flags: "DESC_WRITE = 2" "DESC_NEXT = 1" by (simp_all add: DESC_WRITE_def DESC_NEXT_def)
  show ?case
  proof (cases "C = []")
    case True
    then show ?thesis using Cons.prems n e by (auto simp: chain_ok_def chain_head_def desc_is_def flags)
  next
    case False
    then have "chain_ok ds C" "vd_next (ds ! unat i) = chain_head C" using Cons.prems e by (auto simp: chain_ok_def chain_head_def hd_map)
    then show ?thesis using Cons.IH [of m] Cons.prems n e False by (auto simp: chain_ok_def chain_head_def desc_is_def flags)
  qed
qed (simp add: chain_ok_def)

lemma distinct_move: "distinct ((as @ bs) @ cs @ ds) \<Longrightarrow> distinct (bs @ cs @ as @ ds)"
  by auto

text \<open>Posting a chain: the driver's part of the relation.\<close>

lemma rel_post:
  assumes R: "vq_rel s S" and T: "touches (fst ` set C) (vr_q s) q" and free: "free_list q (drop (length C) (vs_free S))"
    and C: "chain_ok (vq_desc q) C" "map fst C = take (length C) (vs_free S)"
  shows "vq_rel (s\<lparr>vr_q := avail_pushed (chain_head C) q\<rparr>) (S\<lparr>vs_free := drop (length C) (vs_free S), vs_posted := vs_posted S @ [C]\<rparr>)"
proof -
  define n where "n = unat (vq_queue_size (vr_q s))"
  note D = vq_relD [OF R n_def]
  have same: "vq_queue_size q = vq_queue_size (vr_q s)" "vq_avail_idx q = vq_avail_idx (vr_q s)" "vq_avail_ring q = vq_avail_ring (vr_q s)"
    "vq_used_idx q = vq_used_idx (vr_q s)" "vq_used_ring q = vq_used_ring (vr_q s)" "vq_last_used_idx q = vq_last_used_idx (vr_q s)"
    using T by (simp_all add: touches_def)
  define gs where "gs = drop (length C) (vs_free S)"
  have split: "map fst C @ gs = vs_free S" using C(2) unfolding gs_def by (metis append_take_drop_id)
  have sub: "fst ` set C \<subseteq> set (vs_free S)" using C(2) by (metis set_map set_take_subset)
  have "chain_ok (vq_desc q) C'" if "C' \<in> set (in_flight S)" for C'
    using D(4) that sub by (intro chain_ok_touches [OF T _ D(3) [OF that]]) (auto simp: image_iff)
  then have chains: "chain_ok (vq_desc q) C'" if "C' \<in> set (vs_posted S @ [C] @ vs_taken S @ map fst (vs_done S))" for C'
    using that C(1) by (auto simp: in_flight_def)
  have "length (vs_posted S) \<le> length (indices (in_flight S))"
    using chains_le [of "in_flight S"] D(3) by (auto simp: in_flight_def chain_ok_def)
  moreover have "0 < length (vs_free S)" using C by (auto simp: chain_ok_def)
  ultimately have room: "length (map chain_head (vs_posted S)) < n" using D(5) unfolding length_map by linarith
  let ?X = "indices (vs_posted S)" and ?Y = "indices (vs_taken S @ map fst (vs_done S))"
  have "distinct ((map fst C @ gs) @ ?X @ ?Y)" "length (map fst C @ gs) + length (?X @ ?Y) = n"
    using D(4,5) unfolding split by (simp_all add: in_flight_def)
  then have perm: "distinct (gs @ ?X @ map fst C @ ?Y)" "length gs + length (?X @ map fst C @ ?Y) = n"
    by (blast intro: distinct_move, simp only: length_append)
  let ?s = "s\<lparr>vr_q := avail_pushed (chain_head C) q\<rparr>" and ?S = "S\<lparr>vs_free := drop (length C) (vs_free S), vs_posted := vs_posted S @ [C]\<rparr>"
  have fl: "in_flight ?S = vs_posted S @ [C] @ vs_taken S @ map fst (vs_done S)" "vs_free ?S = gs" by (simp_all add: in_flight_def gs_def)
  have idx: "indices (in_flight ?S) = ?X @ map fst C @ ?Y" by (simp add: fl)
  have size: "unat (vq_queue_size (vr_q ?s)) = n" using same(1) by (simp add: n_def avail_pushed_def)
  show ?thesis
  proof (rule vq_relI, unfold idx size fl(2))
    show "rings_ok (vr_q ?s)" using D(1) rings_ok_touches [OF T] by simp
    show "free_list (vr_q ?s) gs" using free by (simp add: gs_def)
    show "chain_ok (vq_desc (vr_q ?s)) C'" if "C' \<in> set (in_flight ?S)" for C' using chains [of C'] that unfolding fl by simp
    show "ring_is n (vr_seen ?s) (vq_avail_idx (vr_q ?s)) (vq_avail_ring (vr_q ?s)) (map chain_head (vs_posted ?S))"
      using ring_push [OF D(6) room, of "chain_head C"] same by (simp add: avail_pushed_def avail_slot_def n_def)
    show "ring_is n (vq_last_used_idx (vr_q ?s)) (vq_used_idx (vr_q ?s)) (vq_used_ring (vr_q ?s))
       (map (\<lambda>(C, len). \<lparr>ue_id = ucast (chain_head C), ue_len = len\<rparr>) (vs_done ?S))"
      using D(7) same by (simp add: avail_pushed_def)
    show "vr_taken ?s = map chain_head (vs_taken ?S)" using D(8) by simp
  qed (use perm in blast)+
qed

lemma sim_add:
  assumes R: "vq_rel s S" and run: "add_buffer_chain rb wb (vr_q s) = (r, q)" and good: "good_request (EvAdd rb wb r)"
  shows "\<exists>S'. spec_step S (EvAdd rb wb r) S' \<and> vq_rel (s\<lparr>vr_q := q\<rparr>) S'"
proof (cases "wb = []")
  case True
  then have "rb = []" using good by (simp add: good_request_def)
  then have "r = Err VE_BufferTooSmall" "q = vr_q s" using run True by (auto simp: add_buffer_chain_def)
  then show ?thesis using spec_empty R \<open>rb = []\<close> True by (intro exI [of _ S]) simp
next
  case wb: False
  then have bufs: "wb \<noteq> []" "length rb + length wb < 2 ^ 16" using good by (simp_all add: good_request_def)
  show ?thesis
  proof (cases "length rb + length wb \<le> length (vs_free S)")
    case True
    note D = vq_relD [OF R refl]
    define C where "C = spec_chain (vs_free S) rb wb"
    obtain q1 where q1: "add_buffer_chain rb wb (vr_q s) = (Ok (chain_head C), avail_pushed (chain_head C) q1)" "touches (fst ` set C) (vr_q s) q1"
      "free_list q1 (drop (length C) (vs_free S))" "chain_at (vq_desc q1) C" "linked (vq_desc q1) (map fst C)" "map fst C = take (length C) (vs_free S)"
      "length C = length rb + length wb"
      unfolding C_def spec_chain_def chain_head_def by (rule add_buffer_chain_ok [OF D(1,2) True bufs])
    have "chain_ok (vq_desc q1) C" using q1(4,5,7) bufs(1) by (auto simp: chain_ok_def)
    from rel_post [OF R q1(2,3) this q1(6)] show ?thesis using spec_add [OF _ True C_def] bufs(1) q1(1) run by auto
  next
    case False
    have "unat (of_nat (length rb + length wb) :: u16) = length rb + length wb" using bufs(2) by (intro unat_of_nat_small) simp
    then have "vq_num_free (vr_q s) < of_nat (length rb + length wb)"
      using False vq_relD(2) [OF R refl] by (simp add: word_less_nat_alt free_list_def)
    then have "r = Err VE_BufferTooSmall" "q = vr_q s" using run bufs(1) by (auto simp: add_buffer_chain_def Let_def)
    then show ?thesis using spec_full [of S rb wb] False R by (intro exI [of _ S]) simp
  qed
qed

lemma sim_add1:
  assumes R: "vq_rel s S" and run: "add_buffer buf write (vr_q s) = (r, q)"
  shows "\<exists>S'. spec_step S (EvAdd1 buf write r) S' \<and> vq_rel (s\<lparr>vr_q := q\<rparr>) S'"
proof (cases "vs_free S")
  case Nil
  then have "vq_num_free (vr_q s) = 0" using vq_relD(2) [OF R refl] by (simp add: free_list_def unat_eq_0)
  then have "r = Err VE_BufferTooSmall" "q = vr_q s" using run by (auto simp: add_buffer_def)
  then show ?thesis using spec_full1 [OF Nil] R by (intro exI [of _ S]) simp
next
  case (Cons i fs)
  let ?C = "[(i, fst buf, of_nat (snd buf) :: u32, write)]"
  let ?fill = "\<lambda>desc n. \<lparr>vd_addr = fst buf, vd_len = of_nat (snd buf), vd_flags = if write then DESC_WRITE else 0, vd_next = 0\<rparr>"
  note D = vq_relD [OF R refl]
  have F: "free_list (vr_q s) (i # fs)" using D(2) Cons by simp
  obtain q1 where q1: "take_free ?fill (vr_q s) = (Ok i, q1)" "free_list q1 fs" "vd_next (vq_desc (vr_q s) ! unat i) = vq_free_head q1"
    "touches {i} (vr_q s) q1" "vq_desc q1 = (vq_desc (vr_q s))[unat i := ?fill (vq_desc (vr_q s) ! unat i) (vq_free_head q1)]"
    by (rule take_free_ok [OF F])
  have i: "unat i < length (vq_desc (vr_q s))" "vq_num_free (vr_q s) \<noteq> 0" using F by (auto simp: free_list_def)
  have "rings_ok q1" using rings_ok_touches [OF q1(4)] D(1) by simp
  then have "r = Ok i \<and> q = avail_pushed i q1" using run q1(1) i(2) push_avail_ok [of q1 i] by (simp add: add_buffer_def act_bind_def)
  moreover have "chain_ok (vq_desc q1) ?C" using i(1) q1(5) by (simp add: chain_ok_def desc_is_def)
  then have "vq_rel (s\<lparr>vr_q := avail_pushed (chain_head ?C) q1\<rparr>) (S\<lparr>vs_free := drop (length ?C) (vs_free S), vs_posted := vs_posted S @ [?C]\<rparr>)"
    using q1(2,4) Cons by (intro rel_post [OF R]) simp_all
  ultimately show ?thesis using spec_add1 [OF Cons, of buf "write"] Cons by (auto simp: chain_head_def)
qed

lemma rel_mset:
  assumes "mset (vs_free S' @ indices (in_flight S')) = mset (vs_free S @ indices (in_flight S))"
  shows "distinct (vs_free S' @ indices (in_flight S')) = distinct (vs_free S @ indices (in_flight S))"
    "length (vs_free S') + length (indices (in_flight S')) = length (vs_free S) + length (indices (in_flight S))"
  using mset_eq_imp_distinct_iff [OF assms] mset_eq_length [OF assms] by simp_all

lemma sim_take:
  assumes R: "vq_rel s S" and ne: "vr_seen s \<noteq> vq_avail_idx (vr_q s)" and run: "device_take s = (head, s')"
  shows "\<exists>S'. spec_step S (EvTake head (device_chain (vq_desc (vr_q s)) (unat (vq_queue_size (vr_q s))) head)) S' \<and> vq_rel s' S'"
proof -
  define n where "n = unat (vq_queue_size (vr_q s))"
  note D = vq_relD [OF R n_def]
  obtain C Cs where C: "vs_posted S = C # Cs" using ring_empty [OF D(6)] ne by (cases "vs_posted S") auto
  note P = ring_pop [OF D(6) [unfolded C list.map]]
  have head: "head = chain_head C" "s' = s\<lparr>vr_seen := vr_seen s + 1, vr_taken := vr_taken s @ [chain_head C]\<rparr>"
    using run P(2) by (auto simp: device_take_def Let_def n_def)
  have "length C \<le> n" using D(5) C by (simp add: in_flight_def)
  then have dc: "device_chain (vq_desc (vr_q s)) n head = map snd C" unfolding head using D(3) C by (intro device_chain_ok) (simp add: in_flight_def)
  let ?S = "S\<lparr>vs_posted := Cs, vs_taken := vs_taken S @ [C]\<rparr>"
  have "mset (vs_free ?S @ indices (in_flight ?S)) = mset (vs_free S @ indices (in_flight S))" using C by (simp add: in_flight_def)
  note M = rel_mset [OF this]
  have "vq_rel s' ?S"
  proof (rule vq_relI, unfold M)
    show "chain_ok (vq_desc (vr_q s')) C'" if "C' \<in> set (in_flight ?S)" for C' using D(3) [of C'] that C by (auto simp: in_flight_def head)
    show "ring_is (unat (vq_queue_size (vr_q s'))) (vr_seen s') (vq_avail_idx (vr_q s')) (vq_avail_ring (vr_q s')) (map chain_head (vs_posted ?S))"
      using P(3) by (simp add: head n_def)
  qed (use D head in \<open>simp_all add: n_def\<close>)
  then show ?thesis using spec_take [OF C] dc unfolding head(1) n_def by metis
qed

lemma heads_distinct:
  "distinct (indices Cs) \<Longrightarrow> (\<And>C. C \<in> set Cs \<Longrightarrow> C \<noteq> []) \<Longrightarrow> inj_on chain_head (set Cs)"
proof (induction Cs)
  case (Cons C Cs)
  have in_idx: "chain_head C' \<in> set (map fst C')" if "C' \<in> set (C # Cs)" for C' using Cons.prems(2) [OF that] by (cases C') (auto simp: chain_head_def)
  have "chain_head C \<noteq> chain_head C'" if "C' \<in> set Cs" for C'
  proof -
    have "chain_head C' \<in> set (indices Cs)" using in_idx [of C'] that by auto
    moreover have "set (map fst C) \<inter> set (indices Cs) = {}" using Cons.prems(1) by simp
    ultimately show ?thesis using in_idx [of C] by (metis disjoint_iff list.set_intros(1))
  qed
  then have "chain_head C \<notin> chain_head ` (set Cs - {C})" by blast
  moreover have "inj_on chain_head (set Cs)" using Cons.prems by (intro Cons.IH) auto
  ultimately show ?case by (simp add: inj_on_insert)
qed simp

lemma mset_indices_remove1: "C \<in> set Cs \<Longrightarrow> mset (indices Cs) = mset (map fst C) + mset (indices (remove1 C Cs))"
  by (induction Cs) auto

lemma remove1_map: "inj_on f (set xs) \<Longrightarrow> x \<in> set xs \<Longrightarrow> remove1 (f x) (map f xs) = map f (remove1 x xs)"
  by (induction xs) (auto simp: inj_on_def)

lemma sim_complete:
  assumes R: "vq_rel s S" and head: "head \<in> set (vr_taken s)"
  shows "\<exists>S'. spec_step S (EvComplete head len) S' \<and> vq_rel (device_complete head len s) S'"
proof -
  define n where "n = unat (vq_queue_size (vr_q s))"
  note D = vq_relD [OF R n_def]
  obtain C where C: "C \<in> set (vs_taken S)" "head = chain_head C" using D(8) head by auto
  have "distinct (indices (vs_taken S))" using D(4) by (auto simp: in_flight_def)
  moreover have "C' \<noteq> []" if "C' \<in> set (vs_taken S)" for C' using D(3) [of C'] that by (auto simp: in_flight_def chain_ok_def)
  ultimately have inj: "inj_on chain_head (set (vs_taken S))" using heads_distinct by blast
  have "length (map fst (vs_done S) @ vs_taken S) \<le> length (indices (map fst (vs_done S) @ vs_taken S))"
    using D(3) by (intro chains_le) (auto simp: in_flight_def chain_ok_def)
  moreover have "Suc 0 \<le> length (vs_taken S)" using C(1) by (cases "vs_taken S") auto
  ultimately have room: "length (vs_done S) < n" using D(5) unfolding in_flight_def by simp
  let ?S = "S\<lparr>vs_taken := remove1 C (vs_taken S), vs_done := vs_done S @ [(C, len)]\<rparr>" and ?s = "device_complete head len s"
  have "mset (vs_free ?S @ indices (in_flight ?S)) = mset (vs_free S @ indices (in_flight S))"
    using mset_indices_remove1 [OF C(1)] by (simp add: in_flight_def)
  note M = rel_mset [OF this]
  have "vq_rel ?s ?S"
  proof (rule vq_relI, unfold M)
    show "chain_ok (vq_desc (vr_q ?s)) C'" if "C' \<in> set (in_flight ?S)" for C'
      using D(3) [of C'] D(3) [of C] that C(1) set_remove1_subset [of C "vs_taken S"] by (auto simp: in_flight_def device_complete_def Let_def)
    show "ring_is (unat (vq_queue_size (vr_q ?s))) (vq_last_used_idx (vr_q ?s)) (vq_used_idx (vr_q ?s)) (vq_used_ring (vr_q ?s))
       (map (\<lambda>(C, len). \<lparr>ue_id = ucast (chain_head C), ue_len = len\<rparr>) (vs_done ?S))"
      using ring_push [OF D(7), of "\<lparr>ue_id = ucast head, ue_len = len\<rparr>"] room by (simp add: device_complete_def Let_def n_def C(2))
    show "vr_taken ?s = map chain_head (vs_taken ?S)"
      using remove1_map [OF inj C(1)] D(8) by (simp add: device_complete_def Let_def C(2))
  qed (use D in \<open>simp_all add: n_def device_complete_def Let_def rings_ok_def free_list_def\<close>)
  then show ?thesis using spec_complete [OF C(1)] C(2) by blast
qed

lemma sim_poll_run:
  assumes R: "vq_rel s S" and dn: "vs_done S = (C, len) # Ds"
  obtains q where "poll_used (vr_q s) = Some (Ok (Some (chain_head C, len)), q)"
    "vq_rel (s\<lparr>vr_q := q\<rparr>) (S\<lparr>vs_done := Ds, vs_free := rev (map fst C) @ vs_free S\<rparr>)"
proof -
  define n where "n = unat (vq_queue_size (vr_q s))"
  note D = vq_relD [OF R n_def]
  note P = ring_pop [OF D(7) [unfolded dn list.map prod.case]]
  let ?q = "(vr_q s)\<lparr>vq_last_used_idx := vq_last_used_idx (vr_q s) + 1\<rparr>"
  have C: "chain_ok (vq_desc ?q) C" using D(3) dn by (simp add: in_flight_def)
  have "distinct (map fst C @ vs_free S)" "length C + length (vs_free S) < 2 ^ 16"
    using D(4,5,9) dn by (auto simp: in_flight_def)
  moreover have "free_list ?q (vs_free S)" using D(2) by (simp add: free_list_def)
  ultimately obtain q where q: "free_descriptor_chain (chain_head C) ?q = Some (Ok (), q)" "free_list q (rev (map fst C) @ vs_free S)" "touches (fst ` set C) ?q q"
    using C unfolding chain_ok_def chain_head_def by (elim conjE desc_chain_freed)
  have slot: "unat (vq_last_used_idx (vr_q s) mod vq_queue_size (vr_q s)) = unat (vq_last_used_idx (vr_q s)) mod n" by (simp add: unat_mod n_def)
  have size: "vq_queue_size (vr_q s) \<noteq> 0" "length (vq_used_ring (vr_q s)) = n" "unat (vq_last_used_idx (vr_q s)) mod n < n"
    using D(1) by (auto simp: rings_ok_def n_def)
  have "ucast (ucast (chain_head C) :: u32) = chain_head C" by (intro bit_word_eqI) (simp add: bit_simps)
  then have poll: "poll_used (vr_q s) = Some (Ok (Some (chain_head C, len)), q)"
    using P(1,2) q(1) size unfolding poll_used_def Let_def slot by simp
  let ?S = "S\<lparr>vs_done := Ds, vs_free := rev (map fst C) @ vs_free S\<rparr>" and ?s = "s\<lparr>vr_q := q\<rparr>"
  have "mset (vs_free ?S @ indices (in_flight ?S)) = mset (vs_free S @ indices (in_flight S))" using dn by (simp add: in_flight_def)
  note M = rel_mset [OF this]
  have "chain_ok (vq_desc q) C'" if "C' \<in> set (in_flight ?S)" for C'
  proof (rule chain_ok_touches [OF q(3)])
    show "chain_ok (vq_desc ?q) C'" using D(3) [of C'] that dn by (auto simp: in_flight_def)
    have "distinct (vs_free ?S @ indices (in_flight ?S))" using D(4) unfolding M .
    then have "set (map fst C) \<inter> set (indices (in_flight ?S)) = {}" by simp blast
    then show "fst ` set C \<inter> fst ` set C' = {}" using that by auto
  qed
  then have "vq_rel ?s ?S"
    using D q(2,3) P(3) rings_ok_touches [OF q(3)] unfolding touches_def
    by (intro vq_relI, unfold M) (simp_all add: n_def rings_ok_def)
  then show ?thesis using that poll by blast
qed

lemma vq_simulates:
  assumes "vq_rel s S" "vq_step s e s'" "good_request e"
  shows "\<exists>S'. spec_step S e S' \<and> vq_rel s' S'"
  using assms(2)
proof (cases rule: vq_step.cases)
  case (step_poll r q)
  show ?thesis
  proof (cases "vs_done S")
    case Nil
    then have "vq_last_used_idx (vr_q s) = vq_used_idx (vr_q s)" using ring_empty [OF vq_relD(7) [OF assms(1) refl]] by simp
    then have "r = None" "q = vr_q s" using step_poll(3) by (simp_all add: poll_used_def)
    then show ?thesis using spec_none [OF Nil] assms(1) step_poll(1,2) by (intro exI [of _ S]) simp
  next
    case (Cons d Ds)
    obtain C len where d: "d = (C, len)" by (cases d)
    obtain q' where "poll_used (vr_q s) = Some (Ok (Some (chain_head C, len)), q')"
      "vq_rel (s\<lparr>vr_q := q'\<rparr>) (S\<lparr>vs_done := Ds, vs_free := rev (map fst C) @ vs_free S\<rparr>)"
      by (rule sim_poll_run [OF assms(1) Cons [unfolded d]])
    then show ?thesis using spec_poll [OF Cons [unfolded d]] step_poll by auto
  qed
next
  case (step_add rb wb r q)
  then show ?thesis using sim_add [OF assms(1) step_add(3)] assms(3) by simp
next
  case (step_add1 buf w r q)
  then show ?thesis using sim_add1 [OF assms(1) step_add1(3)] by simp
next
  case (step_take head)
  then show ?thesis using sim_take [OF assms(1) step_take(2,3)] by simp
next
  case (step_complete head len)
  then show ?thesis using sim_complete [OF assms(1) step_complete(3)] by simp
qed

lemma vq_init_free:
  assumes "0 < n"
  shows "free_list (vq_init k n) (map of_nat [0..<unat n])" "rings_ok (vq_init k n)"
proof -
  let ?q = "vq_init k n" and ?fs = "map of_nat [0..<unat n] :: u16 list"
  have n: "0 < unat n" "unat n < 2 ^ 16" using assms unat_less_exp [of n] by (auto simp: word_less_nat_alt)
  have idx: "unat (of_nat i :: u16) = i" if "i < unat n" for i using that n by (intro unat_of_nat_small) simp
  have "linked (vq_desc ?q) (map of_nat [i..<unat n])" if "i \<le> unat n" for i
    using that
  proof (induction "unat n - i" arbitrary: i)
    case (Suc m)
    then have i: "i < unat n" "[i..<unat n] = i # [Suc i..<unat n]" by (simp_all add: upt_conv_Cons)
    moreover have "linked (vq_desc ?q) (map of_nat [Suc i..<unat n])" using Suc by auto
    moreover have "vq_desc ?q ! i = \<lparr>vd_addr = 0, vd_len = 0, vd_flags = 0, vd_next = if i + 1 < unat n then of_nat (i + 1) else 0\<rparr>"
      using i by (simp add: vq_init_def)
    ultimately show ?case using idx [OF i(1)] by (simp add: vq_init_def hd_map)
  qed simp
  from this [of 0] have "linked (vq_desc ?q) ?fs" by simp
  moreover have "distinct ?fs" using idx by (auto simp: distinct_map inj_on_def) (metis idx)
  ultimately show "free_list ?q ?fs" using n by (simp add: free_list_def vq_init_def hd_map)
  show "rings_ok ?q" using n by (simp add: rings_ok_def vq_init_def)
qed

lemma vq_rel_init:
  assumes "unat n dvd 2 ^ 16" "0 < n"
  shows "vq_rel (vring_init k n) (spec_init n)"
proof -
  have n: "0 < unat n" "unat n < 2 ^ 16" using assms(2) unat_less_exp [of n] by (auto simp: word_less_nat_alt)
  show ?thesis
    using assms n vq_init_free [OF assms(2), of k] by (intro vq_relI) (simp_all add: vring_init_def spec_init_def in_flight_def free_list_def vq_init_def ring_new)
qed

lemma vq_steps_rel:
  assumes "vq_steps s es s'" "vq_rel s S" "\<forall>e \<in> set es. good_request e"
  shows "\<exists>S'. spec_steps S es S' \<and> vq_rel s' S'"
  using assms
proof (induction rule: vq_steps.induct)
  case (steps_nil s)
  then show ?case using spec_nil by blast
next
  case (steps_snoc s es s' e s'')
  then obtain S' where S': "spec_steps S es S'" "vq_rel s' S'" by auto
  then obtain S'' where "spec_step S' e S''" "vq_rel s'' S''" using vq_simulates [OF S'(2) steps_snoc.hyps(2)] steps_snoc.prems(2) by auto
  then show ?case using spec_snoc [OF S'(1)] by blast
qed

lemma poll_returns:
  assumes "vq_rel s S"
  shows "\<exists>r q. poll_used (vr_q s) = Some (Ok r, q)"
proof (cases "vs_done S")
  case Nil
  then have "vq_last_used_idx (vr_q s) = vq_used_idx (vr_q s)" using ring_empty [OF vq_relD(7) [OF assms refl]] by simp
  then show ?thesis by (simp add: poll_used_def)
next
  case (Cons d Ds)
  then show ?thesis using sim_poll_run [OF assms, of "fst d" "snd d"] by (metis prod.collapse)
qed

text \<open>No step of the specification loses or duplicates a descriptor.\<close>

lemma spec_chain_index:
  assumes "length rb + length wb \<le> length fs"
  shows "map fst (spec_chain fs rb wb) = take (length (spec_chain fs rb wb)) fs"
proof -
  have "length (spec_chain fs rb wb) = length rb + length wb" using assms by (simp add: spec_chain_def entries_def)
  then show ?thesis using assms by (simp add: spec_chain_def entries_index take_add)
qed

lemma spec_step_mset: "spec_step S e S' \<Longrightarrow> mset (vs_free S' @ indices (in_flight S')) = mset (vs_free S @ indices (in_flight S))"
proof (induction rule: spec_step.induct)
  case (spec_add rb wb S C)
  have "mset (map fst C) + mset (drop (length C) (vs_free S)) = mset (vs_free S)"
    using spec_chain_index [OF spec_add(2)] spec_add(3) by (metis append_take_drop_id mset_append)
  then show ?case by (simp add: in_flight_def add.commute)
next
  case (spec_complete C S len)
  then show ?case using mset_indices_remove1 [of C "vs_taken S"] by (simp add: in_flight_def)
qed (simp_all add: in_flight_def)

lemma spec_steps_mset: "spec_steps S es S' \<Longrightarrow> mset (vs_free S' @ indices (in_flight S')) = mset (vs_free S @ indices (in_flight S))"
  by (induction rule: spec_steps.induct) (use spec_step_mset in \<open>simp_all del: mset_append\<close>)

text \<open>
  C5. The virtqueue. Take a queue whose size divides \<open>2 ^ 16\<close>, and any interleaving of the driver's calls and the steps of a device that keeps to
  the VirtIO rules, in which every chain that has a buffer for the device to read also has one for it to write, and no chain has
  \<open>2 ^ 16\<close> buffers or more. In whatever order the device completes its work and however often the 16-bit positions wrap, the queue behaves as
  the specification, in which chains are posted, taken in order, completed and returned to the driver in the order of completion. The
  device reads exactly the buffers the driver posted; every descriptor is free or in exactly one chain; the driver is refused
  only when it asks for nothing or there are not enough descriptors; and a poll always returns.
\<close>

theorem virtqueue_refines_spec:
  assumes size: "unat n dvd 2 ^ 16" "0 < n" and run: "vq_steps (vring_init k n) es s"
    and chains: "\<forall>rb wb r. EvAdd rb wb r \<in> set es \<longrightarrow> (rb \<noteq> [] \<longrightarrow> wb \<noteq> []) \<and> length rb + length wb < 2 ^ 16"
  shows "\<exists>S. spec_steps (spec_init n) es S \<and> distinct (vs_free S @ indices (in_flight S)) \<and>
    length (vs_free S @ indices (in_flight S)) = unat n \<and> unat (vq_num_free (vr_q s)) = length (vs_free S) \<and>
    (\<exists>r q. poll_used (vr_q s) = Some (Ok r, q))"
proof -
  have "\<forall>e \<in> set es. good_request e" using chains unfolding good_request_def by blast
  then obtain S where S: "spec_steps (spec_init n) es S" "vq_rel s S" using vq_steps_rel [OF run vq_rel_init [OF size]] by blast
  have "length (vs_free S @ indices (in_flight S)) = unat n"
    using mset_eq_length [OF spec_steps_mset [OF S(1)]] by (simp add: spec_init_def in_flight_def)
  then show ?thesis using S poll_returns [OF S(2)] vq_relD(2,4) [OF S(2) refl] by (intro exI [of _ S]) (simp add: free_list_def)
qed

theorem virtqueue_refines_spec_witness:
  "\<exists>S. spec_steps (spec_init 4) [EvAdd [] [(64, 8)] (Ok 0)] S \<and> length (vs_free S @ indices (in_flight S)) = 4"
proof -
  have "add_buffer_chain [] [(64, 8)] (vr_q (vring_init 0 4)) = (Ok 0, snd (add_buffer_chain [] [(64, 8)] (vr_q (vring_init 0 4))))"
    by (simp add: vring_init_def vq_init_def add_buffer_chain_def act_bind_def take_free_def desc_at_def push_avail_def link_prev_def desc_put_def)
  then have "vq_steps (vring_init 0 4) ([] @ [EvAdd [] [(64, 8)] (Ok 0)]) ((vring_init 0 4)\<lparr>vr_q := snd (add_buffer_chain [] [(64, 8)] (vr_q (vring_init 0 4)))\<rparr>)"
    by (intro steps_snoc [OF steps_nil] step_add) simp_all
  from virtqueue_refines_spec [OF _ _ this] show ?thesis by auto
qed





end
