(* ===== verification/Virtio_Mmio.thy ===== *)
theory Virtio_Mmio
  imports Virtq
begin

text \<open>
  VirtIO over memory-mapped registers: \<open>src/virtio/mmio.rs\<close>, the setup of a queue in \<open>src/virtio/queue.rs\<close>,
  the device types of \<open>src/virtio/mod.rs\<close> and the interrupt table of \<open>src/virtio/irq.rs\<close>. The bus is a
  parameter: what an address reads as in a state of the hardware, and how a write changes that state.
  Reading a register does not change the state. A device is the base address of its registers.
\<close>

section \<open>Registers\<close>

record 'm bus =
  bus_read8 :: "'m \<Rightarrow> nat \<Rightarrow> u8"
  bus_read32 :: "'m \<Rightarrow> nat \<Rightarrow> u32"
  bus_read64 :: "'m \<Rightarrow> nat \<Rightarrow> u64"
  bus_write32 :: "nat \<Rightarrow> u32 \<Rightarrow> 'm \<Rightarrow> 'm"

definition VIRTIO_MAGIC :: u32 where "VIRTIO_MAGIC = 0x74726976"

datatype regs =
    REG_MAGIC_VALUE | REG_VERSION | REG_DEVICE_ID | REG_VENDOR_ID | REG_DEVICE_FEATURES
  | REG_DEVICE_FEATURES_SEL | REG_DRIVER_FEATURES | REG_DRIVER_FEATURES_SEL | REG_GUEST_PAGE_SIZE | REG_QUEUE_SEL
  | REG_QUEUE_NUM_MAX | REG_QUEUE_NUM | REG_QUEUE_ALIGN | REG_QUEUE_PFN | REG_QUEUE_READY
  | REG_QUEUE_NOTIFY | REG_INTERRUPT_STATUS | REG_INTERRUPT_ACK | REG_STATUS | REG_QUEUE_DESC_LOW
  | REG_QUEUE_DESC_HIGH | REG_QUEUE_AVAIL_LOW | REG_QUEUE_AVAIL_HIGH | REG_QUEUE_USED_LOW | REG_QUEUE_USED_HIGH
  | REG_CONFIG

primrec reg_offset :: "regs \<Rightarrow> nat" where
  "reg_offset REG_MAGIC_VALUE = 0x000"
| "reg_offset REG_VERSION = 0x004"
| "reg_offset REG_DEVICE_ID = 0x008"
| "reg_offset REG_VENDOR_ID = 0x00c"
| "reg_offset REG_DEVICE_FEATURES = 0x010"
| "reg_offset REG_DEVICE_FEATURES_SEL = 0x014"
| "reg_offset REG_DRIVER_FEATURES = 0x020"
| "reg_offset REG_DRIVER_FEATURES_SEL = 0x024"
| "reg_offset REG_GUEST_PAGE_SIZE = 0x028"
| "reg_offset REG_QUEUE_SEL = 0x030"
| "reg_offset REG_QUEUE_NUM_MAX = 0x034"
| "reg_offset REG_QUEUE_NUM = 0x038"
| "reg_offset REG_QUEUE_ALIGN = 0x03c"
| "reg_offset REG_QUEUE_PFN = 0x040"
| "reg_offset REG_QUEUE_READY = 0x044"
| "reg_offset REG_QUEUE_NOTIFY = 0x050"
| "reg_offset REG_INTERRUPT_STATUS = 0x060"
| "reg_offset REG_INTERRUPT_ACK = 0x064"
| "reg_offset REG_STATUS = 0x070"
| "reg_offset REG_QUEUE_DESC_LOW = 0x080"
| "reg_offset REG_QUEUE_DESC_HIGH = 0x084"
| "reg_offset REG_QUEUE_AVAIL_LOW = 0x090"
| "reg_offset REG_QUEUE_AVAIL_HIGH = 0x094"
| "reg_offset REG_QUEUE_USED_LOW = 0x0a0"
| "reg_offset REG_QUEUE_USED_HIGH = 0x0a4"
| "reg_offset REG_CONFIG = 0x100"
definition STATUS_ACKNOWLEDGE :: u32 where "STATUS_ACKNOWLEDGE = 1"
definition STATUS_DRIVER :: u32 where "STATUS_DRIVER = 2"
definition STATUS_DRIVER_OK :: u32 where "STATUS_DRIVER_OK = 4"
definition STATUS_FEATURES_OK :: u32 where "STATUS_FEATURES_OK = 8"
definition STATUS_FAILED :: u32 where "STATUS_FAILED = 128"

declare reg_offset.simps [simp del]

lemmas status_bits = STATUS_ACKNOWLEDGE_def STATUS_DRIVER_def STATUS_DRIVER_OK_def STATUS_FEATURES_OK_def STATUS_FAILED_def

datatype DeviceType =
    DT_Invalid | DT_Network | DT_Block | DT_Console | DT_Entropy | DT_Balloon | DT_IoMemory | DT_Rpmsg | DT_Scsi | DT_Transport9P | DT_Mac80211
  | DT_RprocSerial | DT_Caif | DT_MemoryBalloon | DT_Gpu | DT_Timer | DT_Input | DT_Socket | DT_Crypto | DT_SignalDist | DT_Pstore | DT_Iommu | DT_Memory

definition DeviceType_from :: "u32 \<Rightarrow> DeviceType" where
  "DeviceType_from value =
     (if value = 0 then DT_Invalid else if value = 1 then DT_Network else if value = 2 then DT_Block else if value = 3 then DT_Console
      else if value = 4 then DT_Entropy else if value = 5 then DT_Balloon else if value = 16 then DT_Gpu else if value = 18 then DT_Input
      else DT_Invalid)"

definition mmio_read :: "'m bus \<Rightarrow> nat \<Rightarrow> regs \<Rightarrow> 'm \<Rightarrow> u32" where
  "mmio_read bus base offset m = bus_read32 bus m (base + reg_offset offset)"

definition mmio_write :: "'m bus \<Rightarrow> nat \<Rightarrow> regs \<Rightarrow> u32 \<Rightarrow> 'm \<Rightarrow> 'm" where
  "mmio_write bus base offset value = bus_write32 bus (base + reg_offset offset) value"

definition mmio_is_valid :: "'m bus \<Rightarrow> nat \<Rightarrow> 'm \<Rightarrow> bool" where
  "mmio_is_valid bus base m \<longleftrightarrow> mmio_read bus base REG_MAGIC_VALUE m = VIRTIO_MAGIC \<and> mmio_read bus base REG_VERSION m \<ge> 1 \<and>
     mmio_read bus base REG_DEVICE_ID m \<noteq> 0"

definition mmio_magic :: "'m bus \<Rightarrow> nat \<Rightarrow> 'm \<Rightarrow> u32" where
  "mmio_magic bus base m = mmio_read bus base REG_MAGIC_VALUE m"

definition mmio_version :: "'m bus \<Rightarrow> nat \<Rightarrow> 'm \<Rightarrow> u32" where
  "mmio_version bus base m = mmio_read bus base REG_VERSION m"

definition device_id :: "'m bus \<Rightarrow> nat \<Rightarrow> 'm \<Rightarrow> u32" where
  "device_id bus base m = mmio_read bus base REG_DEVICE_ID m"

definition device_type :: "'m bus \<Rightarrow> nat \<Rightarrow> 'm \<Rightarrow> DeviceType" where
  "device_type bus base m = DeviceType_from (device_id bus base m)"

definition vendor_id :: "'m bus \<Rightarrow> nat \<Rightarrow> 'm \<Rightarrow> u32" where
  "vendor_id bus base m = mmio_read bus base REG_VENDOR_ID m"

definition mmio_status :: "'m bus \<Rightarrow> nat \<Rightarrow> 'm \<Rightarrow> u32" where
  "mmio_status bus base m = mmio_read bus base REG_STATUS m"

definition set_status :: "'m bus \<Rightarrow> nat \<Rightarrow> u32 \<Rightarrow> 'm \<Rightarrow> 'm" where
  "set_status bus base status = mmio_write bus base REG_STATUS status"

definition mmio_reset :: "'m bus \<Rightarrow> nat \<Rightarrow> 'm \<Rightarrow> 'm" where
  "mmio_reset bus base = set_status bus base 0"

definition device_features :: "'m bus \<Rightarrow> nat \<Rightarrow> u32 \<Rightarrow> 'm \<Rightarrow> u32 \<times> 'm" where
  "device_features bus base sel m =
     (let m = mmio_write bus base REG_DEVICE_FEATURES_SEL sel m in (mmio_read bus base REG_DEVICE_FEATURES m, m))"

definition set_driver_features :: "'m bus \<Rightarrow> nat \<Rightarrow> u32 \<Rightarrow> u32 \<Rightarrow> 'm \<Rightarrow> 'm" where
  "set_driver_features bus base sel features m =
     mmio_write bus base REG_DRIVER_FEATURES features (mmio_write bus base REG_DRIVER_FEATURES_SEL sel m)"

definition select_queue :: "'m bus \<Rightarrow> nat \<Rightarrow> u32 \<Rightarrow> 'm \<Rightarrow> 'm" where
  "select_queue bus base queue = mmio_write bus base REG_QUEUE_SEL queue"

definition queue_max_size :: "'m bus \<Rightarrow> nat \<Rightarrow> 'm \<Rightarrow> u32" where
  "queue_max_size bus base m = mmio_read bus base REG_QUEUE_NUM_MAX m"

definition set_queue_size :: "'m bus \<Rightarrow> nat \<Rightarrow> u32 \<Rightarrow> 'm \<Rightarrow> 'm" where
  "set_queue_size bus base sz = mmio_write bus base REG_QUEUE_NUM sz"

definition queue_ready :: "'m bus \<Rightarrow> nat \<Rightarrow> 'm \<Rightarrow> bool" where
  "queue_ready bus base m \<longleftrightarrow> mmio_read bus base REG_QUEUE_READY m \<noteq> 0"

definition set_queue_ready :: "'m bus \<Rightarrow> nat \<Rightarrow> bool \<Rightarrow> 'm \<Rightarrow> 'm" where
  "set_queue_ready bus base ready = mmio_write bus base REG_QUEUE_READY (if ready then 1 else 0)"

definition set_guest_page_size :: "'m bus \<Rightarrow> nat \<Rightarrow> u32 \<Rightarrow> 'm \<Rightarrow> 'm" where
  "set_guest_page_size bus base sz = mmio_write bus base REG_GUEST_PAGE_SIZE sz"

definition set_queue_align :: "'m bus \<Rightarrow> nat \<Rightarrow> u32 \<Rightarrow> 'm \<Rightarrow> 'm" where
  "set_queue_align bus base align = mmio_write bus base REG_QUEUE_ALIGN align"

definition set_queue_pfn :: "'m bus \<Rightarrow> nat \<Rightarrow> u32 \<Rightarrow> 'm \<Rightarrow> 'm" where
  "set_queue_pfn bus base pfn = mmio_write bus base REG_QUEUE_PFN pfn"

definition queue_pfn :: "'m bus \<Rightarrow> nat \<Rightarrow> 'm \<Rightarrow> u32" where
  "queue_pfn bus base m = mmio_read bus base REG_QUEUE_PFN m"

definition is_legacy :: "'m bus \<Rightarrow> nat \<Rightarrow> 'm \<Rightarrow> bool" where
  "is_legacy bus base m \<longleftrightarrow> mmio_version bus base m = 1"

definition notify_queue :: "'m bus \<Rightarrow> nat \<Rightarrow> u32 \<Rightarrow> 'm \<Rightarrow> 'm" where
  "notify_queue bus base queue = mmio_write bus base REG_QUEUE_NOTIFY queue"

definition interrupt_status :: "'m bus \<Rightarrow> nat \<Rightarrow> 'm \<Rightarrow> u32" where
  "interrupt_status bus base m = mmio_read bus base REG_INTERRUPT_STATUS m"

definition ack_interrupt :: "'m bus \<Rightarrow> nat \<Rightarrow> u32 \<Rightarrow> 'm \<Rightarrow> 'm" where
  "ack_interrupt bus base status = mmio_write bus base REG_INTERRUPT_ACK status"

text \<open>A 64-bit address goes to two registers.\<close>

definition write_addr :: "'m bus \<Rightarrow> nat \<Rightarrow> regs \<Rightarrow> regs \<Rightarrow> u64 \<Rightarrow> 'm \<Rightarrow> 'm" where
  "write_addr bus base lo hi addr m = mmio_write bus base hi (ucast (drop_bit 32 addr)) (mmio_write bus base lo (ucast addr) m)"

definition set_queue_desc :: "'m bus \<Rightarrow> nat \<Rightarrow> u64 \<Rightarrow> 'm \<Rightarrow> 'm" where
  "set_queue_desc bus base = write_addr bus base REG_QUEUE_DESC_LOW REG_QUEUE_DESC_HIGH"

definition set_queue_avail :: "'m bus \<Rightarrow> nat \<Rightarrow> u64 \<Rightarrow> 'm \<Rightarrow> 'm" where
  "set_queue_avail bus base = write_addr bus base REG_QUEUE_AVAIL_LOW REG_QUEUE_AVAIL_HIGH"

definition set_queue_used :: "'m bus \<Rightarrow> nat \<Rightarrow> u64 \<Rightarrow> 'm \<Rightarrow> 'm" where
  "set_queue_used bus base = write_addr bus base REG_QUEUE_USED_LOW REG_QUEUE_USED_HIGH"

definition read_config8 :: "'m bus \<Rightarrow> nat \<Rightarrow> nat \<Rightarrow> 'm \<Rightarrow> u8" where
  "read_config8 bus base offset m = bus_read8 bus m (base + reg_offset REG_CONFIG + offset)"

definition read_config32 :: "'m bus \<Rightarrow> nat \<Rightarrow> nat \<Rightarrow> 'm \<Rightarrow> u32" where
  "read_config32 bus base offset m = bus_read32 bus m (base + reg_offset REG_CONFIG + offset)"

definition read_config64 :: "'m bus \<Rightarrow> nat \<Rightarrow> nat \<Rightarrow> 'm \<Rightarrow> u64" where
  "read_config64 bus base offset m = bus_read64 bus m (base + reg_offset REG_CONFIG + offset)"

definition init_device :: "'m bus \<Rightarrow> nat \<Rightarrow> ('m, unit, VirtIOError) act" where
  "init_device bus base m =
     (let m = mmio_reset bus base m;
          m = set_status bus base STATUS_ACKNOWLEDGE m;
          m = set_status bus base (mmio_status bus base m OR STATUS_DRIVER) m
      in (Ok (), m))"

definition finish_features :: "'m bus \<Rightarrow> nat \<Rightarrow> ('m, unit, VirtIOError) act" where
  "finish_features bus base m =
     (let m = set_status bus base (mmio_status bus base m OR STATUS_FEATURES_OK) m
      in if mmio_status bus base m AND STATUS_FEATURES_OK = 0
         then (Err VE_FeatureNegotiationFailed, set_status bus base STATUS_FAILED m)
         else (Ok (), m))"

definition driver_ok :: "'m bus \<Rightarrow> nat \<Rightarrow> 'm \<Rightarrow> 'm" where
  "driver_ok bus base m = set_status bus base (mmio_status bus base m OR STATUS_DRIVER_OK) m"


section \<open>Finding the devices\<close>

text \<open>What the device tree says about a node; the list of the nodes compatible with \<open>virtio,mmio\<close> is an argument.\<close>

record DeviceInfo =
  di_reg_base :: u64
  di_reg_size :: u64
  di_interrupts :: "u32 list"

record VirtIODeviceInfo =
  vi_mmio_base :: nat
  vi_mmio_size :: nat
  vi_irq :: u32
  vi_device_type :: DeviceType

text \<open>The interrupt number in the format of the RISC-V interrupt controller.\<close>

definition extract_irq_number :: "DeviceInfo \<Rightarrow> u32" where
  "extract_irq_number info = (case di_interrupts info of [] \<Rightarrow> 0 | i # _ \<Rightarrow> i)"

definition find_virtio_devices :: "'m bus \<Rightarrow> DeviceInfo list \<Rightarrow> 'm \<Rightarrow> VirtIODeviceInfo list" where
  "find_virtio_devices bus virtio_nodes m =
     concat (map (\<lambda>info.
       if di_reg_base info = 0 then []
       else let mmio = unat (di_reg_base info);
                ty = (if mmio_is_valid bus mmio m then device_type bus mmio m else DT_Invalid)
            in if ty \<noteq> DT_Invalid
               then [\<lparr>vi_mmio_base = mmio, vi_mmio_size = unat (di_reg_size info), vi_irq = extract_irq_number info, vi_device_type = ty\<rparr>]
               else []) virtio_nodes)"


section \<open>Setup of a queue\<close>

text \<open>
  The memory of a queue: the descriptor table at its start, the available ring behind it, the used
  ring at the next page. \<open>alloc\<close> is the address the allocator returns for a size, \<open>None\<close> for a null pointer.
\<close>

definition LEGACY_QUEUE_ALIGN :: nat where "LEGACY_QUEUE_ALIGN = 4096"

definition desc_size :: "nat \<Rightarrow> nat" where "desc_size n = 16 * n"
definition avail_size :: "nat \<Rightarrow> nat" where "avail_size n = 6 + 2 * n"
definition used_size :: "nat \<Rightarrow> nat" where "used_size n = 6 + 8 * n"

definition legacy_used_offset :: "nat \<Rightarrow> nat" where
  "legacy_used_offset n = (desc_size n + avail_size n + LEGACY_QUEUE_ALIGN - 1) div LEGACY_QUEUE_ALIGN * LEGACY_QUEUE_ALIGN"

definition legacy_total_size :: "nat \<Rightarrow> nat" where
  "legacy_total_size n =
     ((desc_size n + avail_size n + LEGACY_QUEUE_ALIGN - 1) div LEGACY_QUEUE_ALIGN +
      (used_size n + LEGACY_QUEUE_ALIGN - 1) div LEGACY_QUEUE_ALIGN) * LEGACY_QUEUE_ALIGN"

text \<open>\<open>(x + 4095) & !4095\<close>\<close>

definition modern_used_offset :: "nat \<Rightarrow> nat" where
  "modern_used_offset n = (let x = desc_size n + avail_size n + 4095 in x - x mod 4096)"

definition modern_total_size :: "nat \<Rightarrow> nat" where
  "modern_total_size n = modern_used_offset n + used_size n"

definition new_legacy :: "'m bus \<Rightarrow> nat \<Rightarrow> (nat \<Rightarrow> nat option) \<Rightarrow> u32 \<Rightarrow> ('m, Virtqueue, VirtIOError) act" where
  "new_legacy bus mmio alloc queue_idx m =
     (let m = set_guest_page_size bus mmio 4096 m;
          m = select_queue bus mmio queue_idx m;
          max_size = queue_max_size bus mmio m
      in if max_size = 0 then (Err VE_QueueSetupFailed, m)
         else let queue_size = ucast (min max_size 256) :: u16
              in case alloc (legacy_total_size (unat queue_size)) of
                   None \<Rightarrow> (Err VE_QueueSetupFailed, m)
                 | Some base \<Rightarrow>
                     let m = set_queue_size bus mmio (ucast queue_size) m;
                         m = set_queue_align bus mmio (of_nat LEGACY_QUEUE_ALIGN) m;
                         m = set_queue_pfn bus mmio (of_nat (base div LEGACY_QUEUE_ALIGN)) m
                     in (Ok (vq_init queue_idx queue_size), m))"

definition new_modern :: "'m bus \<Rightarrow> nat \<Rightarrow> (nat \<Rightarrow> nat option) \<Rightarrow> u32 \<Rightarrow> ('m, Virtqueue, VirtIOError) act" where
  "new_modern bus mmio alloc queue_idx m =
     (let m = select_queue bus mmio queue_idx m;
          max_size = queue_max_size bus mmio m
      in if max_size = 0 then (Err VE_QueueSetupFailed, m)
         else let queue_size = ucast (min max_size 256) :: u16; n = unat queue_size
              in case alloc (modern_total_size n) of
                   None \<Rightarrow> (Err VE_QueueSetupFailed, m)
                 | Some base \<Rightarrow>
                     let m = set_queue_size bus mmio (ucast queue_size) m;
                         m = set_queue_desc bus mmio (of_nat base) m;
                         m = set_queue_avail bus mmio (of_nat (base + desc_size n)) m;
                         m = set_queue_used bus mmio (of_nat (base + modern_used_offset n)) m;
                         m = set_queue_ready bus mmio True m
                     in (Ok (vq_init queue_idx queue_size), m))"

definition Virtqueue_new :: "'m bus \<Rightarrow> nat \<Rightarrow> (nat \<Rightarrow> nat option) \<Rightarrow> u32 \<Rightarrow> ('m, Virtqueue, VirtIOError) act" where
  "Virtqueue_new bus mmio alloc queue_idx m =
     (if is_legacy bus mmio m then new_legacy bus mmio alloc queue_idx m else new_modern bus mmio alloc queue_idx m)"


section \<open>The interrupt table\<close>

definition MAX_VIRTIO_DEVICES :: nat where "MAX_VIRTIO_DEVICES = 8"

record IrqEntry =
  irq_num :: u32
  irq_mmio_base :: u32
  irq_flag :: u32
  irq_flag_high :: u32

definition IrqEntry_new :: IrqEntry where
  "IrqEntry_new = \<lparr>irq_num = 0, irq_mmio_base = 0, irq_flag = 0, irq_flag_high = 0\<rparr>"

definition irq_is_used :: "IrqEntry \<Rightarrow> bool" where
  "irq_is_used e \<longleftrightarrow> irq_num e \<noteq> 0"

definition get_flag_ptr :: "IrqEntry \<Rightarrow> u64" where
  "get_flag_ptr e = ucast (irq_flag e) OR push_bit 32 (ucast (irq_flag_high e))"

definition IRQ_TABLE :: "IrqEntry list" where
  "IRQ_TABLE = replicate MAX_VIRTIO_DEVICES IrqEntry_new"

definition register_irq :: "u32 \<Rightarrow> nat \<Rightarrow> u64 \<Rightarrow> IrqEntry list \<Rightarrow> IrqEntry list" where
  "register_irq irq base flag_addr table =
     (if irq = 0 then table
      else case position (\<lambda>e. \<not> irq_is_used e) table of
        Some i \<Rightarrow> table[i := \<lparr>irq_num = irq, irq_mmio_base = of_nat base, irq_flag = ucast flag_addr, irq_flag_high = ucast (drop_bit 32 flag_addr)\<rparr>]
      | None \<Rightarrow> table)"

definition unregister_irq :: "u32 \<Rightarrow> IrqEntry list \<Rightarrow> IrqEntry list" where
  "unregister_irq irq table =
     (case position (\<lambda>e. irq_num e = irq) table of Some i \<Rightarrow> table[i := IrqEntry_new] | None \<Rightarrow> table)"

text \<open>The state of the handler: the hardware and the flags of the devices, by address.\<close>

fun irq_loop :: "'m bus \<Rightarrow> u32 \<Rightarrow> IrqEntry list \<Rightarrow> 'm \<times> (u64 \<Rightarrow> bool) \<Rightarrow> bool \<times> 'm \<times> (u64 \<Rightarrow> bool)" where
  "irq_loop bus irq [] s = (False, s)"
| "irq_loop bus irq (e # table) (m, flags) =
     (if irq_num e = irq then
        let base = unat (irq_mmio_base e);
            status = interrupt_status bus base m
        in if status \<noteq> 0
           then (True, ack_interrupt bus base status m, if get_flag_ptr e \<noteq> 0 then flags(get_flag_ptr e := True) else flags)
           else irq_loop bus irq table (m, flags)
      else irq_loop bus irq table (m, flags))"

definition handle_virtio_irq :: "'m bus \<Rightarrow> u32 \<Rightarrow> IrqEntry list \<Rightarrow> 'm \<times> (u64 \<Rightarrow> bool) \<Rightarrow> bool \<times> 'm \<times> (u64 \<Rightarrow> bool)" where
  "handle_virtio_irq bus irq table s = irq_loop bus irq table s"


section \<open>Properties\<close>

text \<open>
  The memory of a queue, legacy or modern: the descriptor table, the available ring and the used ring lie
  one behind the other without overlap inside the memory that is allocated, and the used ring starts at
  a page boundary.
\<close>

lemma queue_areas_disjoint:
  "desc_size n + avail_size n \<le> legacy_used_offset n" "legacy_used_offset n = modern_used_offset n" "4096 dvd legacy_used_offset n"
  "modern_used_offset n + used_size n \<le> modern_total_size n" "modern_total_size n \<le> legacy_total_size n"
proof -
  have up: "x \<le> (x + 4095) div 4096 * 4096" for x :: nat
    using div_mult_mod_eq [of "x + 4095" 4096] mod_less_divisor [of 4096 "x + 4095"] by linarith
  show eq: "legacy_used_offset n = modern_used_offset n"
    by (simp add: legacy_used_offset_def modern_used_offset_def LEGACY_QUEUE_ALIGN_def Let_def minus_mod_eq_div_mult)
  show "desc_size n + avail_size n \<le> legacy_used_offset n" using up by (simp add: legacy_used_offset_def LEGACY_QUEUE_ALIGN_def)
  show "4096 dvd legacy_used_offset n" by (simp add: legacy_used_offset_def LEGACY_QUEUE_ALIGN_def)
  show "modern_used_offset n + used_size n \<le> modern_total_size n" by (simp add: modern_total_size_def)
  show "modern_total_size n \<le> legacy_total_size n"
    unfolding modern_total_size_def eq [symmetric] using up [of "used_size n"]
    by (simp add: legacy_total_size_def legacy_used_offset_def LEGACY_QUEUE_ALIGN_def add_mult_distrib)
qed

text \<open>The entry of a device, and the table after the registration of a list of devices.\<close>

definition irq_entry :: "u32 \<times> nat \<times> u64 \<Rightarrow> IrqEntry" where
  "irq_entry = (\<lambda>(irq, base, flag). \<lparr>irq_num = irq, irq_mmio_base = of_nat base, irq_flag = ucast flag, irq_flag_high = ucast (drop_bit 32 flag)\<rparr>)"

definition irq_table :: "(u32 \<times> nat \<times> u64) list \<Rightarrow> IrqEntry list" where
  "irq_table devs = fold (\<lambda>(irq, base, flag). register_irq irq base flag) devs IRQ_TABLE"

lemma flag_ptr_round_trip: "get_flag_ptr (irq_entry (irq, base, flag)) = flag"
  unfolding get_flag_ptr_def irq_entry_def
  by (intro bit_word_eqI) (auto simp: bit_simps not_less)

lemma position_append: "position p (xs @ ys) = (case position p xs of Some i \<Rightarrow> Some i | None \<Rightarrow> map_option (\<lambda>j. length xs + j) (position p ys))"
  by (induction xs; cases "position p ys") (auto split: option.splits)

lemma irq_table_entries:
  assumes "length devs \<le> MAX_VIRTIO_DEVICES" "\<And>d. d \<in> set devs \<Longrightarrow> fst d \<noteq> 0"
  shows "irq_table devs = map irq_entry devs @ replicate (MAX_VIRTIO_DEVICES - length devs) IrqEntry_new"
  using assms
proof (induction devs rule: rev_induct)
  case Nil
  then show ?case by (simp add: irq_table_def IRQ_TABLE_def)
next
  case (snoc d devs)
  obtain irq base flag where d: "d = (irq, base, flag)" by (cases d)
  let ?k = "MAX_VIRTIO_DEVICES - length devs"
  have k: "?k = Suc (?k - 1)" using snoc.prems(1) by simp
  have IH: "irq_table devs = map irq_entry devs @ replicate ?k IrqEntry_new" using snoc by simp
  have "position (\<lambda>e. \<not> irq_is_used e) (map irq_entry devs) = None"
    using snoc.prems(2) by (auto simp: position_None_iff irq_is_used_def irq_entry_def case_prod_beta)
  moreover have "position (\<lambda>e. \<not> irq_is_used e) (replicate ?k IrqEntry_new) = Some 0"
    by (subst k) (simp add: irq_is_used_def IrqEntry_new_def)
  ultimately have "position (\<lambda>e. \<not> irq_is_used e) (irq_table devs) = Some (length devs)" by (simp add: IH position_append)
  moreover have "irq \<noteq> 0" using snoc.prems(2) [of d] d by simp
  ultimately have "irq_table (devs @ [d]) = (irq_table devs)[length devs := irq_entry d]"
    by (simp add: irq_table_def d register_irq_def irq_entry_def)
  also have "\<dots> = map irq_entry devs @ irq_entry d # replicate (?k - 1) IrqEntry_new"
    unfolding IH by (subst k) (simp add: list_update_append)
  finally show ?case by simp
qed

lemma irq_loop_skip: "(\<And>e. e \<in> set xs \<Longrightarrow> irq_num e \<noteq> irq) \<Longrightarrow> irq_loop bus irq (xs @ ys) s = irq_loop bus irq ys s"
  by (induction xs) (auto, cases s, auto)

text \<open>
  Interrupts reach their devices. When up to eight devices with different interrupt numbers and
  register addresses below 4 GiB are registered, an interrupt of one of them is acknowledged at that
  device and raises that device's flag and no other; an interrupt nobody registered, or one whose
  device has nothing to report, changes nothing.
\<close>

lemma irq_reaches_device:
  assumes devs: "length devs \<le> MAX_VIRTIO_DEVICES" "distinct (map fst devs)" "\<forall>(irq, base, flag) \<in> set devs. irq \<noteq> 0 \<and> base < 2 ^ 32 \<and> flag \<noteq> 0"
    and irq: "irq \<noteq> 0"
  shows "handle_virtio_irq bus irq (irq_table devs) (m, flags) =
    (case map_of devs irq of
       None \<Rightarrow> (False, m, flags)
     | Some (base, flag) \<Rightarrow>
         let status = interrupt_status bus base m
         in if status = 0 then (False, m, flags) else (True, ack_interrupt bus base status m, flags(flag := True)))"
proof -
  let ?free = "replicate (MAX_VIRTIO_DEVICES - length devs) IrqEntry_new"
  have table: "irq_table devs = map irq_entry devs @ ?free" using devs(3) by (intro irq_table_entries [OF devs(1)]) auto
  have num: "irq_num (irq_entry d) = fst d" for d by (simp add: irq_entry_def case_prod_beta)
  have free: "irq_loop bus irq ?free (m, flags) = (False, m, flags)"
    using irq_loop_skip [of ?free irq bus "[]"] irq by (simp add: IrqEntry_new_def)
  show ?thesis
  proof (cases "map_of devs irq")
    case None
    then have "irq_num e \<noteq> irq" if "e \<in> set (map irq_entry devs)" for e using that num by (auto simp: map_of_eq_None_iff)
    then show ?thesis using None free irq_loop_skip [of "map irq_entry devs" irq bus ?free "(m, flags)"]
      by (simp add: handle_virtio_irq_def table)
  next
    case (Some bf)
    obtain base flag where bf: "bf = (base, flag)" by (cases bf)
    then have "(irq, base, flag) \<in> set devs" using Some by (auto dest: map_of_SomeD)
    then obtain xs ys where split: "devs = xs @ (irq, base, flag) # ys" by (meson split_list)
    then have skip: "irq_num e \<noteq> irq" if "e \<in> set (map irq_entry xs) \<union> set (map irq_entry ys @ ?free)" for e
      using that num devs(2) irq by (auto simp: IrqEntry_new_def) force+
    have rest: "irq_loop bus irq (map irq_entry ys @ ?free) (m, flags) = (False, m, flags)"
      using irq_loop_skip [of "map irq_entry ys @ ?free" irq bus "[]"] skip by simp
    have "unat (of_nat base :: u32) = base" "flag \<noteq> 0" using devs(3) split by (auto simp: unat_of_nat_small)
    moreover have "irq_table devs = map irq_entry xs @ irq_entry (irq, base, flag) # map irq_entry ys @ ?free" using table split by simp
    ultimately show ?thesis
      using irq_loop_skip [of "map irq_entry xs" irq bus _ "(m, flags)"] skip rest flag_ptr_round_trip [of irq base flag] Some bf
      by (simp add: handle_virtio_irq_def Let_def num) (simp add: irq_entry_def)
  qed
qed

end
