(* ===== verification/Plic.thy ===== *)
theory Plic
  imports Virtio_Mmio
begin

text \<open>
  The RISC-V interrupt controller, \<open>src/arch/riscv64/plic.rs\<close>, and the dispatch of external interrupts to the VirtIO
  devices. Its registers start at \<open>base\<close>. Reading the claim register changes the controller, so this read is a
  parameter of its own; the registers of the CPU are the one the code sets, \<open>mie\<close>.
\<close>

section \<open>The controller\<close>

definition PLIC_ENABLE_OFFSET :: nat where "PLIC_ENABLE_OFFSET = 0x2000"
definition PLIC_THRESHOLD_OFFSET :: nat where "PLIC_THRESHOLD_OFFSET = 0x200000"
definition PLIC_CLAIM_OFFSET :: nat where "PLIC_CLAIM_OFFSET = 0x200004"
definition IRQ_UART :: u32 where "IRQ_UART = 10"

definition set_priority :: "'m bus \<Rightarrow> nat \<Rightarrow> u32 \<Rightarrow> u32 \<Rightarrow> 'm \<Rightarrow> 'm" where
  "set_priority bus base irq priority = bus_write32 bus (base + unat irq * 4) priority"

definition enable_irq :: "'m bus \<Rightarrow> nat \<Rightarrow> u32 \<Rightarrow> 'm \<Rightarrow> 'm" where
  "enable_irq bus base irq m =
     (let reg_idx = unat (irq div 32); bit_idx = unat (irq mod 32);
          addr = base + PLIC_ENABLE_OFFSET + reg_idx * 4;
          val = bus_read32 bus m addr
      in bus_write32 bus addr (val OR push_bit bit_idx 1) m)"

definition set_threshold :: "'m bus \<Rightarrow> nat \<Rightarrow> u32 \<Rightarrow> 'm \<Rightarrow> 'm" where
  "set_threshold bus base threshold = bus_write32 bus (base + PLIC_THRESHOLD_OFFSET) threshold"

definition complete_irq :: "'m bus \<Rightarrow> nat \<Rightarrow> u32 \<Rightarrow> 'm \<Rightarrow> 'm" where
  "complete_irq bus base irq = bus_write32 bus (base + PLIC_CLAIM_OFFSET) irq"

definition plic_init :: "'m bus \<Rightarrow> nat \<Rightarrow> 'm \<times> u64 \<Rightarrow> 'm \<times> u64" where
  "plic_init bus base = (\<lambda>(m, mie).
     (enable_irq bus base IRQ_UART (set_priority bus base IRQ_UART 1 (set_threshold bus base 0 m)), mie OR 0x808))"

text \<open>Every hart has its own enable registers and its own threshold.\<close>

definition init_secondary :: "'m bus \<Rightarrow> nat \<Rightarrow> u32 \<Rightarrow> 'm \<times> u64 \<Rightarrow> 'm \<times> u64" where
  "init_secondary bus base hart_id = (\<lambda>(m, mie).
     let hart = unat hart_id * 2;
         m = bus_write32 bus (base + 0x200000 + hart * 0x1000) 0 m;
         addr = base + 0x2000 + hart * 0x80 + unat (IRQ_UART div 32) * 4;
         val = bus_read32 bus m addr
     in (bus_write32 bus addr (val OR push_bit (unat (IRQ_UART mod 32)) 1) m, mie OR 0x808))"

text \<open>\<open>claim\<close> is the read of the claim register. The UART's own handler does nothing.\<close>

definition plic_handle_irq ::
    "'m bus \<Rightarrow> (nat \<Rightarrow> 'm \<Rightarrow> u32 \<times> 'm) \<Rightarrow> nat \<Rightarrow> IrqEntry list \<Rightarrow> 'm \<times> (u64 \<Rightarrow> bool) \<Rightarrow> 'm \<times> (u64 \<Rightarrow> bool)" where
  "plic_handle_irq bus claim base table = (\<lambda>(m, flags).
     case claim (base + PLIC_CLAIM_OFFSET) m of (irq, m) \<Rightarrow>
       if irq = 0 then (m, flags)
       else let (m, flags) = (if irq = IRQ_UART then (m, flags) else snd (handle_virtio_irq bus irq table (m, flags)))
            in (complete_irq bus base irq m, flags))"

definition send_ipi :: "'m bus \<Rightarrow> nat \<Rightarrow> u32 \<Rightarrow> 'm \<Rightarrow> 'm" where
  "send_ipi bus clint_base target_hartid = bus_write32 bus (clint_base + unat target_hartid * 4) 1"


section \<open>Properties\<close>

text \<open>Registers that hold what is written to them.\<close>

definition ram_bus :: "(nat \<Rightarrow> u32) bus" where
  "ram_bus = \<lparr>bus_read8 = \<lambda>m a. 0, bus_read32 = \<lambda>m a. m a, bus_read64 = \<lambda>m a. 0, bus_write32 = \<lambda>a v m. m(a := v)\<rparr>"

definition irq_enabled :: "nat \<Rightarrow> (nat \<Rightarrow> u32) \<Rightarrow> u32 \<Rightarrow> bool" where
  "irq_enabled base m irq = bit (m (base + PLIC_ENABLE_OFFSET + unat (irq div 32) * 4)) (unat (irq mod 32))"

text \<open>Enabling an interrupt changes nothing for the others.\<close>

lemma enable_irq_exact: "irq_enabled base (enable_irq ram_bus base i m) j \<longleftrightarrow> j = i \<or> irq_enabled base m j"
proof -
  have split: "j = i \<longleftrightarrow> j div 32 = i div 32 \<and> j mod 32 = i mod 32" by (metis div_mult_mod_eq)
  have "unat (j mod 32) < 32" using word_mod_less_divisor [of 32 j] by (simp add: word_less_nat_alt)
  then have "bit (push_bit (unat (i mod 32)) 1 :: u32) (unat (j mod 32)) \<longleftrightarrow> j mod 32 = i mod 32"
    by (auto simp: bit_simps word_unat_eq_iff)
  then show ?thesis unfolding split
    by (auto simp: irq_enabled_def enable_irq_def ram_bus_def Let_def bit_or_iff word_unat_eq_iff [of "j div 32"])
qed

text \<open>
  C28. External interrupts reach their devices. When up to eight devices with different interrupt numbers and register
  addresses below 4 GiB are registered, the handler completes at the controller exactly the interrupt it has claimed. Before
  that, an interrupt of a registered device with something to report is acknowledged at that device and raises that
  device's flag and no other; every other interrupt, and that of the UART, touches no device and no flag. A spurious interrupt is
  not completed.
\<close>

theorem external_interrupt_reaches_device:
  assumes "length devs \<le> MAX_VIRTIO_DEVICES" "distinct (map fst devs)" "\<forall>(irq, base, flag) \<in> set devs. irq \<noteq> 0 \<and> base < 2 ^ 32 \<and> flag \<noteq> 0"
    and "claim (base + PLIC_CLAIM_OFFSET) m = (irq, m1)"
  shows "plic_handle_irq bus claim base (irq_table devs) (m, flags) =
    (if irq = 0 then (m1, flags)
     else if irq = IRQ_UART then (complete_irq bus base irq m1, flags)
     else case map_of devs irq of
       None \<Rightarrow> (complete_irq bus base irq m1, flags)
     | Some (dev, flag) \<Rightarrow>
         let status = interrupt_status bus dev m1
         in if status = 0 then (complete_irq bus base irq m1, flags)
            else (complete_irq bus base irq (ack_interrupt bus dev status m1), flags(flag := True)))"
  using irq_reaches_device [OF assms(1-3), of irq bus m1 flags] assms(4)
  by (auto simp: plic_handle_irq_def Let_def split: option.splits)

theorem external_interrupt_reaches_device_witness:
  "snd (plic_handle_irq ram_bus (\<lambda>a m. (7, m)) 0 (irq_table [(3, 4096, 64), (7, 8192, 128)]) ((\<lambda>_. 0)(8192 + reg_offset REG_INTERRUPT_STATUS := 1), \<lambda>_. False)) =
     (\<lambda>_. False)(128 := True)"
proof -
  let ?devs = "[(3, 4096, 64), (7, 8192, 128)] :: (u32 \<times> nat \<times> u64) list" and ?m = "(\<lambda>_. 0)(8192 + reg_offset REG_INTERRUPT_STATUS := 1) :: nat \<Rightarrow> u32"
  have "length ?devs \<le> MAX_VIRTIO_DEVICES" "distinct (map fst ?devs)" "\<forall>(irq, base, flag) \<in> set ?devs. irq \<noteq> 0 \<and> base < 2 ^ 32 \<and> flag \<noteq> 0"
    by (simp_all add: MAX_VIRTIO_DEVICES_def)
  from external_interrupt_reaches_device [OF this, where claim = "\<lambda>a m. (7, m)" and base = 0 and m = ?m and bus = ram_bus and flags = "\<lambda>_. False", OF refl]
  show ?thesis by (simp add: interrupt_status_def mmio_read_def ram_bus_def IRQ_UART_def)
qed

end
