(* ===== verification/Memory.thy ===== *)
theory Memory
  imports Prelude
begin

text \<open>
  Memory as code with raw pointers sees it: a byte for every 64-bit address. Reading and writing runs of
  bytes and little-endian words, and when two runs do not overlap.
\<close>

section \<open>Bytes in memory\<close>

definition mem_read :: "u64 \<Rightarrow> nat \<Rightarrow> (u64 \<Rightarrow> u8) \<Rightarrow> bytes" where
  "mem_read a n mem = map (\<lambda>i. mem (a + of_nat i)) [0..<n]"

definition mem_write :: "u64 \<Rightarrow> bytes \<Rightarrow> (u64 \<Rightarrow> u8) \<Rightarrow> u64 \<Rightarrow> u8" where
  "mem_write a bs mem x = (if unat (x - a) < length bs then bs ! unat (x - a) else mem x)"

definition le_nat :: "bytes \<Rightarrow> nat" where
  "le_nat bs = foldr (\<lambda>b n. unat b + 256 * n) bs 0"

lemma le_nat_append: "le_nat (xs @ ys) = le_nat xs + 256 ^ length xs * le_nat ys"
  by (induction xs) (simp_all add: le_nat_def algebra_simps)

lemma le_nat_single: "le_nat [b] = unat b"
  by (simp add: le_nat_def)

lemma le_nat_digits: "le_nat (map (\<lambda>i. ucast (drop_bit (8 * i) w)) [0..<k]) = unat w mod 256 ^ k" for w :: "'a :: len word"
proof (induction k)
  case (Suc k)
  have "unat (ucast (drop_bit (8 * k) w) :: u8) = unat w div 256 ^ k mod 256"
  proof -
    have "unat (drop_bit (8 * k) w) = drop_bit (8 * k) (unat w)" by (rule unat_drop_bit_eq)
    then have "unat (drop_bit (8 * k) w) = unat w div 256 ^ k" by (simp add: drop_bit_eq_div power_mult)
    then show ?thesis by (simp add: unsigned_ucast_eq take_bit_eq_mod)
  qed
  moreover have "unat w mod (256 ^ k * 256) = 256 ^ k * (unat w div 256 ^ k mod 256) + unat w mod 256 ^ k" by (rule mod_mult2_eq)
  ultimately show ?case using Suc by (simp add: le_nat_append le_nat_single mult.commute)
qed (simp add: le_nat_def)

lemma le_nat_u64 [simp]: "le_nat (u64_to_le_bytes w) = unat w"
  using le_nat_digits [of w 8] unat_less_exp [of w] by (simp add: u64_to_le_bytes_def)

lemma le_nat_u16 [simp]: "le_nat (u16_to_le_bytes w) = unat w"
proof -
  have "u16_to_le_bytes w = map (\<lambda>i. ucast (drop_bit (8 * i) w)) [0..<2]" by (simp add: u16_to_le_bytes_def upt_rec)
  then show ?thesis using le_nat_digits [of w 2] unat_less_exp [of w] by simp
qed

lemma le_nat_u32 [simp]: "le_nat (u32_to_le_bytes w) = unat w"
proof -
  have "u32_to_le_bytes w = map (\<lambda>i. ucast (drop_bit (8 * i) w)) [0..<4]" by (simp add: u32_to_le_bytes_def upt_rec)
  then show ?thesis using le_nat_digits [of w 4] unat_less_exp [of w] by simp
qed

definition sep :: "u64 \<Rightarrow> nat \<Rightarrow> u64 \<Rightarrow> nat \<Rightarrow> bool" where
  "sep a n b m \<longleftrightarrow> unat a + n \<le> 2 ^ 64 \<and> unat b + m \<le> 2 ^ 64 \<and> (unat a + n \<le> unat b \<or> unat b + m \<le> unat a)"

lemma sep_sym: "sep a n b m \<Longrightarrow> sep b m a n"
  by (auto simp: sep_def)

lemma unat_off: "unat a + n \<le> 2 ^ 64 \<Longrightarrow> i < n \<Longrightarrow> unat (a + of_nat i) = unat a + i" for a :: u64
proof -
  assume a: "unat a + n \<le> 2 ^ 64" "i < n"
  then have "unat (of_nat i :: u64) = i" by (intro unat_of_nat_small) simp
  then show ?thesis using a by (simp add: unat_word_ariths)
qed

lemma mem_read_len [simp]: "length (mem_read a n mem) = n"
  by (simp add: mem_read_def)

lemma mem_read_write_same [simp]: "length bs < 2 ^ 64 \<Longrightarrow> mem_read a (length bs) (mem_write a bs mem) = bs"
  by (rule nth_equalityI) (simp_all add: mem_read_def mem_write_def unat_of_nat_small)

lemma mem_write_other:
  assumes "sep a n b (length bs)" "i < n"
  shows "mem_write b bs mem (a + of_nat i) = mem (a + of_nat i)"
proof -
  have i: "unat (a + of_nat i) = unat a + i" using assms by (intro unat_off [of a n]) (auto simp: sep_def)
  have "unat (a + of_nat i - b) = (if unat b \<le> unat a + i then unat a + i - unat b else unat a + i + 2 ^ 64 - unat b)"
    using i by (simp add: unat_sub_if')
  then have "\<not> unat (a + of_nat i - b) < length bs" using assms unat_less_exp [of b] by (auto simp: sep_def)
  then show ?thesis by (simp add: mem_write_def)
qed

lemma mem_read_write_other [simp]: "sep a n b (length bs) \<Longrightarrow> mem_read a n (mem_write b bs mem) = mem_read a n mem"
  by (simp add: mem_read_def mem_write_other)

lemma mem_read_part: "k + m \<le> n \<Longrightarrow> mem_read (a + of_nat k) m mem = take m (drop k (mem_read a n mem))"
  by (rule nth_equalityI) (simp_all add: mem_read_def ac_simps)

text \<open>Neighbouring runs, wherever they are.\<close>

lemma mem_read_write_above:
  assumes "length bs \<le> k" "k + n \<le> 2 ^ 64"
  shows "mem_read (a + of_nat k) n (mem_write a bs mem) = mem_read (a + of_nat k) n mem"
proof -
  have "unat (of_nat k + of_nat i :: u64) = k + i" if "i < n" for i
    using that assms(2) unat_of_nat_small [of "k + i", where 'a = 64] by simp
  then have "mem_write a bs mem (a + of_nat k + of_nat i) = mem (a + of_nat k + of_nat i)" if "i < n" for i
    using that assms(1) by (simp add: mem_write_def add.assoc)
  then show ?thesis by (simp add: mem_read_def)
qed

lemma mem_read_write_below:
  assumes "n \<le> k" "k + length bs \<le> 2 ^ 64"
  shows "mem_read a n (mem_write (a + of_nat k) bs mem) = mem_read a n mem"
proof -
  have "\<not> unat (a + of_nat i - (a + of_nat k) :: u64) < length bs" if "i < n" for i
  proof -
    have i: "a + of_nat i - (a + of_nat k) = - of_nat (k - i)" using that assms(1) by (simp add: of_nat_diff)
    have "0 < k - i" "k - i < 2 ^ 64 \<or> length bs = 0" using that assms by (cases "length bs"; simp)+
    moreover have "unat (- of_nat (k - i) :: u64) =
      (if unat (of_nat (k - i) :: u64) \<le> unat (0 :: u64) then unat (0 :: u64) - unat (of_nat (k - i) :: u64)
       else unat (0 :: u64) + 2 ^ 64 - unat (of_nat (k - i) :: u64))"
      using unat_sub_if' [of 0 "of_nat (k - i) :: u64"] unfolding diff_0 by simp
    ultimately show ?thesis unfolding i using assms unat_of_nat_small [of "k - i", where 'a = 64] by auto
  qed
  then show ?thesis by (simp add: mem_read_def mem_write_def)
qed


section \<open>Words in memory\<close>

type_synonym memory = "u64 \<Rightarrow> u8"

definition mem_u32 :: "u64 \<Rightarrow> memory \<Rightarrow> u32" where
  "mem_u32 a mem = of_nat (le_nat (mem_read a 4 mem))"

definition put_u32 :: "u64 \<Rightarrow> u32 \<Rightarrow> memory \<Rightarrow> memory" where
  "put_u32 a w mem = mem_write a (u32_to_le_bytes w) mem"

definition mem_u64 :: "u64 \<Rightarrow> memory \<Rightarrow> u64" where
  "mem_u64 a mem = of_nat (le_nat (mem_read a 8 mem))"

definition put_u64 :: "u64 \<Rightarrow> u64 \<Rightarrow> memory \<Rightarrow> memory" where
  "put_u64 a w mem = mem_write a (u64_to_le_bytes w) mem"

lemma mem_put_u32 [simp]: "mem_u32 a (put_u32 a w mem) = w"
  using mem_read_write_same [of "u32_to_le_bytes w" a mem] by (simp add: mem_u32_def put_u32_def)

lemma mem_put_u64 [simp]: "mem_u64 a (put_u64 a w mem) = w"
  using mem_read_write_same [of "u64_to_le_bytes w" a mem] by (simp add: mem_u64_def put_u64_def)

lemma mem_put_u32_above: "4 \<le> k \<Longrightarrow> k + 8 \<le> 2 ^ 64 \<Longrightarrow> mem_u32 (a + of_nat k) (put_u32 a w mem) = mem_u32 (a + of_nat k) mem"
  by (simp add: mem_u32_def put_u32_def mem_read_write_above)

lemma mem_put_u32_below: "4 \<le> k \<Longrightarrow> k + 8 \<le> 2 ^ 64 \<Longrightarrow> mem_u32 a (put_u32 (a + of_nat k) w mem) = mem_u32 a mem"
  by (simp add: mem_u32_def put_u32_def mem_read_write_below)

lemma mem_put_u64_below: "4 \<le> k \<Longrightarrow> k + 8 \<le> 2 ^ 64 \<Longrightarrow> mem_u32 a (put_u64 (a + of_nat k) w mem) = mem_u32 a mem"
  by (simp add: mem_u32_def put_u64_def mem_read_write_below)

lemmas mem_word_offsets = mem_put_u32_above [of 4, simplified] mem_put_u32_below [of 4, simplified] mem_put_u64_below [of 8, simplified]
  mem_put_u64_below [of 4, simplified]

end
