(* ===== verification/Virtio_Blk.thy ===== *)
theory Virtio_Blk
  imports Plic Block_Dev Memory
begin

text \<open>
  The VirtIO block driver, \<open>src/block/virtio_blk.rs\<close>. The world around the driver is its registers, the
  memory the device can access, the flag of the interrupt handler, the queue with the device's side of it,
  the contents of the disk, and the rest of the device's state. What the device does is a parameter \<open>env\<close> that acts on the world whenever
  the driver waits or takes the lock of the queue. The buffers of a request (on the stack and of the caller) are at
  given addresses. A call that does not return is \<^const>\<open>None\<close>.
\<close>

section \<open>The driver\<close>

definition FEATURE_RO :: u64 where "FEATURE_RO = 0x20"
definition FEATURE_BLK_SIZE :: u64 where "FEATURE_BLK_SIZE = 0x40"
definition VIRTIO_F_VERSION_1 :: u32 where "VIRTIO_F_VERSION_1 = 1"

datatype RequestType = ReqIn | ReqOut | ReqFlush | ReqGetId

definition RequestType_code :: "RequestType \<Rightarrow> u32" where
  "RequestType_code r = (case r of ReqIn \<Rightarrow> 0 | ReqOut \<Rightarrow> 1 | ReqFlush \<Rightarrow> 4 | ReqGetId \<Rightarrow> 8)"

definition VirtIOBlkStatus_Ok :: u8 where "VirtIOBlkStatus_Ok = 0"

text \<open>The bytes of a request header: type, reserved, sector.\<close>

definition req_header :: "RequestType \<Rightarrow> u64 \<Rightarrow> bytes" where
  "req_header ty sector = u32_to_le_bytes (RequestType_code ty) @ u32_to_le_bytes 0 @ u64_to_le_bytes sector"

record VirtIOBlock =
  vb_name :: string
  vb_mmio :: nat
  vb_capacity :: u64
  vb_block_size :: nat
  vb_read_only :: bool
  vb_irq :: u32

record ('m, 'x) blkw =
  w_bus :: 'm
  w_mem :: "u64 \<Rightarrow> u8"
  w_flag :: bool
  w_ring :: vring
  w_disk :: "nat \<Rightarrow> u8"
  w_dev :: 'x

record blk_addrs =
  a_header :: u64
  a_status :: u64
  a_buf :: u64

definition VirtIOBlock_new ::
    "'m bus \<Rightarrow> (nat \<Rightarrow> nat option) \<Rightarrow> VirtIODeviceInfo \<Rightarrow> string \<Rightarrow> ('m, VirtIOBlock \<times> Virtqueue, VirtIOError) act" where
  "VirtIOBlock_new bus alloc info name m =
     (if vi_device_type info \<noteq> DT_Block then (Err VE_NoDevice, m)
      else let mmio = vi_mmio_base info; version = mmio_version bus mmio m
      in act_bind (init_device bus mmio) (\<lambda>_ m.
           case device_features bus mmio 0 m of (lo, m) \<Rightarrow>
           case device_features bus mmio 1 m of (hi, m) \<Rightarrow>
           let dev_features = (ucast lo :: u64) OR push_bit 32 (ucast hi);
               driver_hi = (if version \<ge> 2 \<and> hi AND VIRTIO_F_VERSION_1 \<noteq> 0 then VIRTIO_F_VERSION_1 else 0);
               m = set_driver_features bus mmio 0 0 m;
               m = set_driver_features bus mmio 1 driver_hi m
           in act_bind (finish_features bus mmio) (\<lambda>_ m.
                let capacity = read_config64 bus mmio 0 m;
                    block_size = (if dev_features AND FEATURE_BLK_SIZE \<noteq> 0 then unat (read_config32 bus mmio 20 m) else 512);
                    read_only = (dev_features AND FEATURE_RO \<noteq> 0)
                in act_bind (Virtqueue_new bus mmio alloc 0) (\<lambda>queue.
                   act_bind (act_modify (driver_ok bus mmio)) (\<lambda>_.
                     act_return (\<lparr>vb_name = name, vb_mmio = mmio, vb_capacity = capacity, vb_block_size = block_size, vb_read_only = read_only,
                       vb_irq = vi_irq info\<rparr>, queue))) m) m) m)"

text \<open>Calls that may not return, in sequence.\<close>

type_synonym ('s, 'a) run = "'s \<Rightarrow> (('a, VirtIOError) outcome \<times> 's) option"

definition run_bind :: "('s, 'a) run \<Rightarrow> ('a \<Rightarrow> ('s, 'b) run) \<Rightarrow> ('s, 'b) run" where
  "run_bind m f s =
     (case m s of
        None \<Rightarrow> None
      | Some (Ok x, s') \<Rightarrow> f x s'
      | Some (Err e, s') \<Rightarrow> Some (Err e, s')
      | Some (Panic, s') \<Rightarrow> Some (Panic, s'))"

definition run_act :: "('s, 'a, VirtIOError) act \<Rightarrow> ('s, 'a) run" where
  "run_act m s = Some (m s)"

definition on_queue :: "(Virtqueue, 'a, VirtIOError) act \<Rightarrow> (('m, 'x) blkw, 'a, VirtIOError) act" where
  "on_queue f w = (case f (vr_q (w_ring w)) of (r, q) \<Rightarrow> (r, w\<lparr>w_ring := (w_ring w)\<lparr>vr_q := q\<rparr>\<rparr>))"

definition poll_queue :: "(('m, 'x) blkw, (u16 \<times> u32) option) run" where
  "poll_queue w = map_option (\<lambda>(r, q). (r, w\<lparr>w_ring := (w_ring w)\<lparr>vr_q := q\<rparr>\<rparr>)) (poll_used (vr_q (w_ring w)))"

text \<open>A completion found by polling: a pending interrupt is acknowledged and the flag is cleared.\<close>

definition clear_irq :: "'m bus \<Rightarrow> VirtIOBlock \<Rightarrow> ('m, 'x) blkw \<Rightarrow> ('m, 'x) blkw" where
  "clear_irq bus dev w =
     (let status = interrupt_status bus (vb_mmio dev) (w_bus w);
          w = (if status \<noteq> 0 then w\<lparr>w_bus := ack_interrupt bus (vb_mmio dev) status (w_bus w)\<rparr> else w)
      in w\<lparr>w_flag := False\<rparr>)"

definition poll_direct ::
    "'m bus \<Rightarrow> (('m, 'x) blkw \<Rightarrow> ('m, 'x) blkw) \<Rightarrow> VirtIOBlock \<Rightarrow> (('m, 'x) blkw, bool) run" where
  "poll_direct bus env dev w =
     run_bind poll_queue (\<lambda>r w. if r \<noteq> None then Some (Ok True, clear_irq bus dev w) else Some (Ok False, w)) (env w)"

text \<open>The first phase, with interrupts.  The device and the interrupt handler may act before the flag is taken, between
taking it and locking the queue, and before the second look at the queue.\<close>

fun wait_irq :: "'m bus \<Rightarrow> (('m, 'x) blkw \<Rightarrow> ('m, 'x) blkw) \<Rightarrow> VirtIOBlock \<Rightarrow> nat \<Rightarrow> (('m, 'x) blkw, bool) run" where
  "wait_irq bus env dev 0 w = Some (Ok False, w)"
| "wait_irq bus env dev (Suc k) w =
     (let w = env w; flagged = w_flag w; w = w\<lparr>w_flag := False\<rparr>
      in run_bind (if flagged then (\<lambda>w. poll_queue (env w)) else (\<lambda>w. Some (Ok None, w))) (\<lambda>r.
           if r \<noteq> None then (\<lambda>w. Some (Ok True, w))
           else run_bind (poll_direct bus env dev) (\<lambda>found w.
                  if found then Some (Ok True, w) else wait_irq bus env dev k w)) w)"

text \<open>The second phase polls.\<close>

fun wait_poll :: "'m bus \<Rightarrow> (('m, 'x) blkw \<Rightarrow> ('m, 'x) blkw) \<Rightarrow> VirtIOBlock \<Rightarrow> nat \<Rightarrow> (('m, 'x) blkw, unit) run" where
  "wait_poll bus env dev 0 w = Some (Err VE_Timeout, w)"
| "wait_poll bus env dev (Suc timeout) w =
     run_bind (poll_direct bus env dev) (\<lambda>found w. if found then Some (Ok (), w) else wait_poll bus env dev timeout w) w"

definition wait_for_completion :: "'m bus \<Rightarrow> (('m, 'x) blkw \<Rightarrow> ('m, 'x) blkw) \<Rightarrow> VirtIOBlock \<Rightarrow> (('m, 'x) blkw, unit) run" where
  "wait_for_completion bus env dev =
     run_bind (wait_irq bus env dev 1000) (\<lambda>found w. if found then Some (Ok (), w) else wait_poll bus env dev 100000 w)"

text \<open>Header and status byte are set up, the chain is posted and the device notified.\<close>

definition submit ::
    "'m bus \<Rightarrow> VirtIOBlock \<Rightarrow> blk_addrs \<Rightarrow> RequestType \<Rightarrow> u64 \<Rightarrow> vbuf list \<Rightarrow> vbuf list \<Rightarrow> (('m, 'x) blkw, unit, VirtIOError) act" where
  "submit bus dev A ty block_num rb wb =
     act_bind (act_modify (\<lambda>w. w\<lparr>w_mem := mem_write (a_status A) [0xFF] (mem_write (a_header A) (req_header ty block_num) (w_mem w))\<rparr>)) (\<lambda>_.
     act_bind (on_queue (add_buffer_chain ((a_header A, 16) # rb) (wb @ [(a_status A, 1)]))) (\<lambda>_.
       act_modify (\<lambda>w. w\<lparr>w_bus := notify_queue bus (vb_mmio dev) 0 (w_bus w)\<rparr>)))"

definition check_status :: "blk_addrs \<Rightarrow> (('m, 'x) blkw, unit) run" where
  "check_status A w = Some (if w_mem w (a_status A) \<noteq> VirtIOBlkStatus_Ok then Err VE_IoError else Ok (), w)"

definition read_block_internal ::
    "'m bus \<Rightarrow> (('m, 'x) blkw \<Rightarrow> ('m, 'x) blkw) \<Rightarrow> VirtIOBlock \<Rightarrow> blk_addrs \<Rightarrow> u64 \<Rightarrow> nat \<Rightarrow> (('m, 'x) blkw, bytes) run" where
  "read_block_internal bus env dev A block_num len w =
     (if len < vb_block_size dev then Some (Err VE_BufferTooSmall, w)
      else if block_num \<ge> vb_capacity dev then Some (Err VE_IoError, w)
      else run_bind (run_act (submit bus dev A ReqIn block_num [] [(a_buf A, len)])) (\<lambda>_.
           run_bind (wait_for_completion bus env dev) (\<lambda>_.
           run_bind (check_status A) (\<lambda>_ w. Some (Ok (mem_read (a_buf A) len (w_mem w)), w)))) w)"

definition write_block_internal ::
    "'m bus \<Rightarrow> (('m, 'x) blkw \<Rightarrow> ('m, 'x) blkw) \<Rightarrow> VirtIOBlock \<Rightarrow> blk_addrs \<Rightarrow> u64 \<Rightarrow> bytes \<Rightarrow> (('m, 'x) blkw, unit) run" where
  "write_block_internal bus env dev A block_num buf w =
     (if vb_read_only dev then Some (Err VE_IoError, w)
      else if length buf < vb_block_size dev then Some (Err VE_BufferTooSmall, w)
      else if block_num \<ge> vb_capacity dev then Some (Err VE_IoError, w)
      else run_bind (run_act (submit bus dev A ReqOut block_num [(a_buf A, length buf)] [])) (\<lambda>_.
           run_bind (wait_for_completion bus env dev) (\<lambda>_. check_status A))
             (w\<lparr>w_mem := mem_write (a_buf A) buf (w_mem w)\<rparr>))"

definition handle_irq :: "'m bus \<Rightarrow> VirtIOBlock \<Rightarrow> ('m, 'x) blkw \<Rightarrow> ('m, 'x) blkw" where
  "handle_irq bus dev w =
     (let status = interrupt_status bus (vb_mmio dev) (w_bus w)
      in if status \<noteq> 0 then w\<lparr>w_bus := ack_interrupt bus (vb_mmio dev) status (w_bus w), w_flag := True\<rparr> else w)"

text \<open>The methods of the block device trait; every error becomes an I/O error.\<close>

definition vb_io :: "('s, 'a) run \<Rightarrow> 's \<Rightarrow> (('a, BlockError) outcome \<times> 's) option" where
  "vb_io m w = map_option (\<lambda>(r, w). (map_err (\<lambda>_. BE_IoError) r, w)) (m w)"

definition VirtIOBlock_read_block ::
    "'m bus \<Rightarrow> (('m, 'x) blkw \<Rightarrow> ('m, 'x) blkw) \<Rightarrow> VirtIOBlock \<Rightarrow> blk_addrs \<Rightarrow> u64 \<Rightarrow> nat \<Rightarrow> ('m, 'x) blkw \<Rightarrow>
     ((bytes, BlockError) outcome \<times> ('m, 'x) blkw) option" where
  "VirtIOBlock_read_block bus env dev A block_num len = vb_io (read_block_internal bus env dev A block_num len)"

definition VirtIOBlock_write_block ::
    "'m bus \<Rightarrow> (('m, 'x) blkw \<Rightarrow> ('m, 'x) blkw) \<Rightarrow> VirtIOBlock \<Rightarrow> blk_addrs \<Rightarrow> u64 \<Rightarrow> bytes \<Rightarrow> ('m, 'x) blkw \<Rightarrow>
     ((unit, BlockError) outcome \<times> ('m, 'x) blkw) option" where
  "VirtIOBlock_write_block bus env dev A block_num buf = vb_io (write_block_internal bus env dev A block_num buf)"

text \<open>
  Interrupts are enabled at the controller and in the table. The flag is in the device's memory, at \<open>flag_addr\<close>. \<open>init\<close>
  takes the first block device that can be started.
\<close>

definition register_interrupt :: "'m bus \<Rightarrow> nat \<Rightarrow> u64 \<Rightarrow> VirtIOBlock \<Rightarrow> 'm \<times> IrqEntry list \<Rightarrow> 'm \<times> IrqEntry list" where
  "register_interrupt bus plic flag_addr dev = (\<lambda>(m, table).
     if vb_irq dev = 0 then (m, table)
     else (enable_irq bus plic (vb_irq dev) (set_priority bus plic (vb_irq dev) 1 m), register_irq (vb_irq dev) (vb_mmio dev) flag_addr table))"

fun virtio_blk_init ::
    "'m bus \<Rightarrow> (nat \<Rightarrow> nat option) \<Rightarrow> nat \<Rightarrow> u64 \<Rightarrow> VirtIODeviceInfo list \<Rightarrow> 'm \<times> IrqEntry list \<Rightarrow>
     (VirtIOBlock \<times> Virtqueue) option \<times> 'm \<times> IrqEntry list" where
  "virtio_blk_init bus alloc plic flag_addr [] s = (None, s)"
| "virtio_blk_init bus alloc plic flag_addr (info # devices) (m, table) =
     (if vi_device_type info = DT_Block then
        case VirtIOBlock_new bus alloc info ''vda'' m of
          (Ok (dev, queue), m) \<Rightarrow> (Some (dev, queue), register_interrupt bus plic flag_addr dev (m, table))
        | (_, m) \<Rightarrow> virtio_blk_init bus alloc plic flag_addr devices (m, table)
      else virtio_blk_init bus alloc plic flag_addr devices (m, table))"

section \<open>The device\<close>

text \<open>
  What the VirtIO specification says of a block device. A request is a chain of a header, a data buffer and a status
  byte; the disk is a sequence of bytes, and a sector has 512 of them.
\<close>

definition disk_read :: "nat \<Rightarrow> nat \<Rightarrow> (nat \<Rightarrow> u8) \<Rightarrow> bytes" where
  "disk_read pos n disk = map disk [pos..<pos + n]"

definition disk_write :: "nat \<Rightarrow> bytes \<Rightarrow> (nat \<Rightarrow> u8) \<Rightarrow> nat \<Rightarrow> u8" where
  "disk_write pos bs disk x = (if pos \<le> x \<and> x < pos + length bs then bs ! (x - pos) else disk x)"

definition blk_request ::
    "nat \<Rightarrow> (u64 \<times> u32 \<times> bool) list \<Rightarrow> (u64 \<Rightarrow> u8) \<times> (nat \<Rightarrow> u8) \<Rightarrow> u32 \<times> (u64 \<Rightarrow> u8) \<times> (nat \<Rightarrow> u8)" where
  "blk_request cap bufs = (\<lambda>(mem, disk).
     case bufs of
       [(h, hlen, False), (a, len, writable), (st, slen, True)] \<Rightarrow>
         let ty = le_nat (mem_read h 4 mem); pos = 512 * le_nat (mem_read (h + 8) 8 mem); n = unat len
         in if hlen \<noteq> 16 \<or> slen \<noteq> 1 then (0, mem, disk)
            else if 512 * cap < pos + n \<or> n mod 512 \<noteq> 0 then (1, mem_write st [1] mem, disk)
            else if ty = 0 \<and> writable then (len + 1, mem_write st [0] (mem_write a (disk_read pos n disk) mem), disk)
            else if ty = 1 \<and> \<not> writable then (1, mem_write st [0] mem, disk_write pos (mem_read a n mem) disk)
            else (1, mem_write st [2] mem, disk)
     | _ \<Rightarrow> (0, mem, disk))"

definition waiting :: "('m, 'x) blkw \<Rightarrow> bool" where
  "waiting w \<longleftrightarrow> vr_seen (w_ring w) \<noteq> vq_avail_idx (vr_q (w_ring w))"

definition blk_serve :: "nat \<Rightarrow> ('m, 'x) blkw \<Rightarrow> ('m, 'x) blkw" where
  "blk_serve cap w =
     (let q = vr_q (w_ring w); (head, ring) = device_take (w_ring w);
          (n, mem, disk) = blk_request cap (device_chain (vq_desc q) (unat (vq_queue_size q)) head) (w_mem w, w_disk w)
      in w\<lparr>w_ring := device_complete head n ring, w_mem := mem, w_disk := disk\<rparr>)"

definition w_shared :: "('m, 'x) blkw \<Rightarrow> vring \<times> (u64 \<Rightarrow> u8) \<times> (nat \<Rightarrow> u8)" where
  "w_shared w = (w_ring w, w_mem w, w_disk w)"

text \<open>
  A device with \<open>cap\<close> sectors that serves every request, with a delay that its state determines; registers, interrupts
  and the flag of the handler change in any way.
\<close>

definition conforms :: "nat \<Rightarrow> ('x \<Rightarrow> nat) \<Rightarrow> (('m, 'x) blkw \<Rightarrow> ('m, 'x) blkw) \<Rightarrow> bool" where
  "conforms cap delay env \<longleftrightarrow> (\<forall>w. if waiting w
     then w_shared (env w) = w_shared (blk_serve cap w) \<or> w_shared (env w) = w_shared w \<and> delay (w_dev (env w)) < delay (w_dev w)
     else w_shared (env w) = w_shared w)"


section \<open>Requests\<close>

inductive_cases spec_addE: "spec_step S (EvAdd rb wb r) S'"
inductive_cases spec_takeE: "spec_step S (EvTake h bufs) S'"
inductive_cases spec_completeE: "spec_step S (EvComplete h len) S'"

text \<open>The chains the driver has posted and the ones the device has completed.\<close>

definition blk_phase :: "('m, 'x) blkw \<Rightarrow> vchain list \<Rightarrow> (vchain \<times> u32) list \<Rightarrow> bool" where
  "blk_phase w P D \<longleftrightarrow> (\<exists>S. vq_rel (w_ring w) S \<and> vs_posted S = P \<and> vs_taken S = [] \<and> vs_done S = D \<and>
     3 \<le> length (vs_free S @ indices (in_flight S)))"

abbreviation blk_idle :: "('m, 'x) blkw \<Rightarrow> bool" where
  "blk_idle w \<equiv> blk_phase w [] []"

lemma spec_step_size: "spec_step S e S' \<Longrightarrow> length (vs_free S' @ indices (in_flight S')) = length (vs_free S @ indices (in_flight S))"
  by (rule mset_eq_length [OF spec_step_mset])

lemma spec_chain_bufs:
  assumes "length rb + length wb \<le> length fs"
  shows "map snd (spec_chain fs rb wb) = map (\<lambda>b. (fst b, of_nat (snd b), False)) rb @ map (\<lambda>b. (fst b, of_nat (snd b), True)) wb"
  using assms by (simp add: spec_chain_def entries_def list_eq_iff_nth_eq nth_append)

lemma phase_post:
  assumes w: "blk_idle w" and bufs: "wb \<noteq> []" "length rb + length wb \<le> 3"
  obtains h C w' where "on_queue (add_buffer_chain rb wb) w = (Ok h, w')" "blk_phase w' [C] []" "w' = w\<lparr>w_ring := w_ring w'\<rparr>"
    "map snd C = map (\<lambda>b. (fst b, of_nat (snd b), False)) rb @ map (\<lambda>b. (fst b, of_nat (snd b), True)) wb"
proof -
  obtain S where S: "vq_rel (w_ring w) S" "vs_posted S = []" "vs_taken S = []" "vs_done S = []" "3 \<le> length (vs_free S @ indices (in_flight S))"
    using w by (auto simp: blk_phase_def)
  then have len: "length rb + length wb \<le> length (vs_free S)" using bufs(2) by (simp add: in_flight_def)
  obtain r q where run: "add_buffer_chain rb wb (vr_q (w_ring w)) = (r, q)" by fastforce
  have "good_request (EvAdd rb wb r)" using bufs by (simp add: good_request_def)
  then obtain S' where S': "spec_step S (EvAdd rb wb r) S'" "vq_rel ((w_ring w)\<lparr>vr_q := q\<rparr>) S'" using sim_add [OF S(1) run] by blast
  let ?C = "spec_chain (vs_free S) rb wb"
  have new: "r = Ok (chain_head ?C)" "S' = S\<lparr>vs_free := drop (length ?C) (vs_free S), vs_posted := vs_posted S @ [?C]\<rparr>"
    using S'(1) len bufs(1) by (auto elim!: spec_addE)
  show ?thesis
  proof (rule that [of "chain_head ?C" "w\<lparr>w_ring := (w_ring w)\<lparr>vr_q := q\<rparr>\<rparr>" ?C])
    show "blk_phase (w\<lparr>w_ring := (w_ring w)\<lparr>vr_q := q\<rparr>\<rparr>) [?C] []"
      unfolding blk_phase_def using S S'(2) spec_step_size [OF S'(1)] new(2) by (intro exI [of _ S']) simp
  qed (use run new(1) spec_chain_bufs [OF len] in \<open>simp_all add: on_queue_def\<close>)
qed

lemma phase_waiting: "blk_phase w P D \<Longrightarrow> waiting w \<longleftrightarrow> P \<noteq> []"
  using ring_empty vq_relD(6) [OF _ refl] by (fastforce simp: blk_phase_def waiting_def)

lemma phase_shared: "w_shared w' = w_shared w \<Longrightarrow> blk_phase w' P D = blk_phase w P D"
  by (simp add: w_shared_def blk_phase_def)

lemma phase_serve:
  assumes w: "blk_phase w [C] []"
  shows "\<exists>n. blk_phase (blk_serve cap w) [] [(C, n)]"
    "(w_mem (blk_serve cap w), w_disk (blk_serve cap w)) = snd (blk_request cap (map snd C) (w_mem w, w_disk w))"
proof -
  obtain S where S: "vq_rel (w_ring w) S" "vs_posted S = [C]" "vs_taken S = []" "vs_done S = []" "3 \<le> length (vs_free S @ indices (in_flight S))"
    using w by (auto simp: blk_phase_def)
  let ?q = "vr_q (w_ring w)"
  obtain head ring where take: "device_take (w_ring w) = (head, ring)" by fastforce
  have "vr_seen (w_ring w) \<noteq> vq_avail_idx ?q" using phase_waiting [OF w] by (simp add: waiting_def)
  from sim_take [OF S(1) this take] obtain S1 where
    S1: "spec_step S (EvTake head (device_chain (vq_desc ?q) (unat (vq_queue_size ?q)) head)) S1" "vq_rel ring S1" by blast
  then have new: "head = chain_head C" "device_chain (vq_desc ?q) (unat (vq_queue_size ?q)) head = map snd C"
    "S1 = S\<lparr>vs_posted := [], vs_taken := [C]\<rparr>" using S(2,3) by (auto elim!: spec_takeE)
  obtain n mem disk where req: "blk_request cap (map snd C) (w_mem w, w_disk w) = (n, mem, disk)" by (metis prod.exhaust)
  have serve: "blk_serve cap w = w\<lparr>w_ring := device_complete head n ring, w_mem := mem, w_disk := disk\<rparr>"
    using take new(2) req by (simp add: blk_serve_def Let_def)
  have "head \<in> set (vr_taken ring)" using vq_relD(8) [OF S1(2) refl] new by simp
  from sim_complete [OF S1(2) this] obtain S2 where S2: "spec_step S1 (EvComplete head n) S2" "vq_rel (device_complete head n ring) S2" by blast
  then have "S2 = S1\<lparr>vs_taken := [], vs_done := [(C, n)]\<rparr>" using new(3) S(4) by (auto elim!: spec_completeE)
  then have "blk_phase (blk_serve cap w) [] [(C, n)]"
    unfolding blk_phase_def serve using S S2(2) spec_step_size [OF S1(1)] spec_step_size [OF S2(1)] new(3) by (intro exI [of _ S2]) simp
  then show "\<exists>n. blk_phase (blk_serve cap w) [] [(C, n)]" by blast
  show "(w_mem (blk_serve cap w), w_disk (blk_serve cap w)) = snd (blk_request cap (map snd C) (w_mem w, w_disk w))"
    using serve req by simp
qed

lemma phase_poll:
  assumes "blk_phase w [] [(C, n)]"
  obtains r w' where "poll_queue w = Some (Ok (Some r), w')" "blk_idle w'" "w_mem w' = w_mem w" "w_disk w' = w_disk w" "w_dev w' = w_dev w"
proof -
  obtain S where S: "vq_rel (w_ring w) S" "vs_posted S = []" "vs_taken S = []" "vs_done S = [(C, n)]" "3 \<le> length (vs_free S @ indices (in_flight S))"
    using assms by (auto simp: blk_phase_def)
  obtain q where q: "poll_used (vr_q (w_ring w)) = Some (Ok (Some (chain_head C, n)), q)"
    "vq_rel ((w_ring w)\<lparr>vr_q := q\<rparr>) (S\<lparr>vs_done := [], vs_free := rev (map fst C) @ vs_free S\<rparr>)" using sim_poll_run [OF S(1,4)] by blast
  show ?thesis
  proof (rule that [of "(chain_head C, n)" "w\<lparr>w_ring := (w_ring w)\<lparr>vr_q := q\<rparr>\<rparr>"])
    show "blk_idle (w\<lparr>w_ring := (w_ring w)\<lparr>vr_q := q\<rparr>\<rparr>)" unfolding blk_phase_def
      by (rule exI [of _ "S\<lparr>vs_done := [], vs_free := rev (map fst C) @ vs_free S\<rparr>"]) (use S q(2) in \<open>simp add: in_flight_def\<close>)
  qed (use q(1) in \<open>simp_all add: poll_queue_def\<close>)
qed

lemma phase_poll_none: "blk_phase w P [] \<Longrightarrow> poll_queue w = Some (Ok None, w)"
  using ring_empty vq_relD(7) [OF _ refl] by (fastforce simp: blk_phase_def poll_queue_def poll_used_def)

section \<open>Waiting\<close>

text \<open>The request \<open>C\<close> was posted when memory and disk were \<open>x\<close>: the device has it, has served it, and the driver has seen that.\<close>

definition awaiting :: "vchain \<Rightarrow> (u64 \<Rightarrow> u8) \<times> (nat \<Rightarrow> u8) \<Rightarrow> ('m, 'x) blkw \<Rightarrow> bool" where
  "awaiting C x w \<longleftrightarrow> blk_phase w [C] [] \<and> (w_mem w, w_disk w) = x"

definition served :: "nat \<Rightarrow> vchain \<Rightarrow> (u64 \<Rightarrow> u8) \<times> (nat \<Rightarrow> u8) \<Rightarrow> ('m, 'x) blkw \<Rightarrow> bool" where
  "served cap C x w \<longleftrightarrow> (\<exists>n. blk_phase w [] [(C, n)]) \<and> (w_mem w, w_disk w) = snd (blk_request cap (map snd C) x)"

definition finished :: "nat \<Rightarrow> vchain \<Rightarrow> (u64 \<Rightarrow> u8) \<times> (nat \<Rightarrow> u8) \<Rightarrow> ('m, 'x) blkw \<Rightarrow> bool" where
  "finished cap C x w \<longleftrightarrow> blk_idle w \<and> (w_mem w, w_disk w) = snd (blk_request cap (map snd C) x)"

lemma phase_irrelevant [simp]:
  "blk_phase (w\<lparr>w_flag := b\<rparr>) P D = blk_phase w P D" "blk_phase (w\<lparr>w_bus := m\<rparr>) P D = blk_phase w P D"
  by (simp_all add: blk_phase_def)

lemma flag_irrelevant [simp]: "awaiting C x (w\<lparr>w_flag := b\<rparr>) = awaiting C x w" "served cap C x (w\<lparr>w_flag := b\<rparr>) = served cap C x w"
  by (simp_all add: awaiting_def served_def)

lemma finished_clear: "finished cap C x w \<Longrightarrow> finished cap C x (clear_irq bus dev w)"
  by (simp add: finished_def clear_irq_def Let_def)

lemma env_awaiting:
  assumes "conforms cap delay env" "awaiting C x w"
  shows "awaiting C x (env w) \<and> delay (w_dev (env w)) < delay (w_dev w) \<or> served cap C x (env w)"
proof -
  have w: "blk_phase w [C] []" "(w_mem w, w_disk w) = x" using assms(2) by (simp_all add: awaiting_def)
  then have "w_shared (env w) = w_shared (blk_serve cap w) \<or> w_shared (env w) = w_shared w \<and> delay (w_dev (env w)) < delay (w_dev w)"
    using assms(1) phase_waiting [OF w(1)] by (simp add: conforms_def)
  then show ?thesis
  proof
    assume eq: "w_shared (env w) = w_shared (blk_serve cap w)"
    then show ?thesis using phase_serve [OF w(1), of cap] w(2) phase_shared [OF eq] by (simp add: served_def w_shared_def)
  next
    assume eq: "w_shared (env w) = w_shared w \<and> delay (w_dev (env w)) < delay (w_dev w)"
    then show ?thesis using w phase_shared [OF conjunct1 [OF eq]] by (simp add: awaiting_def w_shared_def)
  qed
qed

lemma env_served:
  assumes "conforms cap delay env" "served cap C x w"
  shows "served cap C x (env w)"
proof -
  obtain n where w: "blk_phase w [] [(C, n)]" using assms(2) by (auto simp: served_def)
  then have eq: "w_shared (env w) = w_shared w" using assms(1) phase_waiting [OF w] by (simp add: conforms_def)
  show ?thesis using assms(2) phase_shared [OF eq] eq by (simp add: served_def w_shared_def)
qed

lemma poll_served:
  assumes "served cap C x w"
  obtains r w' where "poll_queue w = Some (Ok (Some r), w')" "finished cap C x w'"
  using assms phase_poll unfolding served_def finished_def by metis

lemma poll_awaiting: "awaiting C x w \<Longrightarrow> poll_queue w = Some (Ok None, w)"
  using phase_poll_none by (auto simp: awaiting_def)

lemma direct_served:
  assumes "conforms cap delay env" "served cap C x w"
  shows "\<exists>w'. poll_direct bus env dev w = Some (Ok True, w') \<and> finished cap C x w'"
proof -
  obtain r w' where "poll_queue (env w) = Some (Ok (Some r), w')" "finished cap C x w'" using poll_served [OF env_served [OF assms]] by blast
  then show ?thesis by (simp add: poll_direct_def run_bind_def finished_clear)
qed

lemma direct_awaiting:
  assumes "conforms cap delay env" "awaiting C x w"
  shows "(\<exists>w'. poll_direct bus env dev w = Some (Ok False, w') \<and> awaiting C x w' \<and> delay (w_dev w') < delay (w_dev w)) \<or>
    (\<exists>w'. poll_direct bus env dev w = Some (Ok True, w') \<and> finished cap C x w')"
  using env_awaiting [OF assms]
proof
  assume "awaiting C x (env w) \<and> delay (w_dev (env w)) < delay (w_dev w)"
  then show ?thesis using poll_awaiting [of C x "env w"] by (simp add: poll_direct_def run_bind_def)
next
  assume "served cap C x (env w)"
  then obtain r w' where "poll_queue (env w) = Some (Ok (Some r), w')" "finished cap C x w'" by (rule poll_served)
  then show ?thesis by (simp add: poll_direct_def run_bind_def finished_clear)
qed

lemma wait_irq_served:
  assumes "conforms cap delay env" "served cap C x (env w)"
  shows "\<exists>w'. wait_irq bus env dev (Suc k) w = Some (Ok True, w') \<and> finished cap C x w'"
proof -
  let ?w = "(env w)\<lparr>w_flag := False\<rparr>"
  have served: "served cap C x ?w" using assms(2) by simp
  obtain r w1 where poll: "poll_queue (env ?w) = Some (Ok (Some r), w1)" "finished cap C x w1"
    using env_served [OF assms(1) served] by (rule poll_served)
  obtain w2 where direct: "poll_direct bus env dev ?w = Some (Ok True, w2)" "finished cap C x w2"
    using direct_served [OF assms(1) served] by blast
  show ?thesis using poll direct by (cases "w_flag (env w)") (simp_all add: run_bind_def Let_def)
qed

lemma wait_irq_ok:
  assumes "conforms cap delay env" "awaiting C x w"
  shows "(\<exists>w'. wait_irq bus env dev k w = Some (Ok True, w') \<and> finished cap C x w') \<or>
    (\<exists>w'. wait_irq bus env dev k w = Some (Ok False, w') \<and> awaiting C x w' \<and> delay (w_dev w') + k \<le> delay (w_dev w))"
  using assms(2)
proof (induction k arbitrary: w)
  case (Suc k)
  let ?rest = "run_bind (poll_direct bus env dev) (\<lambda>found w. if found then Some (Ok True, w) else wait_irq bus env dev k w)"
  let ?flag = "\<lambda>b. if b then (\<lambda>w. poll_queue (env w)) else (\<lambda>w. Some (Ok None, w))"
  let ?P = "\<lambda>f w. (\<exists>w'. f = Some (Ok True, w') \<and> finished cap C x w') \<or>
    (\<exists>w'. f = Some (Ok False, w') \<and> awaiting C x w' \<and> delay (w_dev w') + Suc k \<le> delay (w_dev w))"
  have rest: "?P (?rest v) v" if "awaiting C x v" for v
  proof -
    from direct_awaiting [OF assms(1) that, of bus dev] show ?thesis
    proof
      assume "\<exists>w'. poll_direct bus env dev v = Some (Ok False, w') \<and> awaiting C x w' \<and> delay (w_dev w') < delay (w_dev v)"
      then obtain w' where w': "poll_direct bus env dev v = Some (Ok False, w')" "awaiting C x w'" "delay (w_dev w') < delay (w_dev v)" by blast
      then show ?thesis using Suc.IH [OF w'(2)] by (fastforce simp: run_bind_def)
    qed (auto simp: run_bind_def)
  qed
  from env_awaiting [OF assms(1) Suc.prems] show ?case
  proof
    assume "served cap C x (env w)"
    from wait_irq_served [OF assms(1) this] show ?thesis by blast
  next
    let ?w = "(env w)\<lparr>w_flag := False\<rparr>"
    assume env: "awaiting C x (env w) \<and> delay (w_dev (env w)) < delay (w_dev w)"
    then have w: "awaiting C x ?w" by simp
    have step: "wait_irq bus env dev (Suc k) w = run_bind (?flag (w_flag (env w))) (\<lambda>r. if r \<noteq> None then (\<lambda>w. Some (Ok True, w)) else ?rest) ?w"
      by (simp add: Let_def)
    have less: "?P f v \<Longrightarrow> delay (w_dev v) \<le> delay (w_dev w) \<Longrightarrow> ?P f w" for f v by fastforce
    from env_awaiting [OF assms(1) w] show ?thesis
    proof
      assume "awaiting C x (env ?w) \<and> delay (w_dev (env ?w)) < delay (w_dev ?w)"
      then have v: "awaiting C x (env ?w)" "delay (w_dev (env ?w)) \<le> delay (w_dev w)" using env by simp_all
      have "wait_irq bus env dev (Suc k) w = (if w_flag (env w) then ?rest (env ?w) else ?rest ?w)"
        unfolding step using poll_awaiting [OF v(1)] by (simp add: run_bind_def)
      then show ?thesis using less [OF rest [OF v(1)] v(2)] less [OF rest [OF w]] env by simp
    next
      assume "served cap C x (env ?w)"
      then obtain r w' where "poll_queue (env ?w) = Some (Ok (Some r), w')" "finished cap C x w'" by (rule poll_served)
      then have "w_flag (env w) \<Longrightarrow> wait_irq bus env dev (Suc k) w = Some (Ok True, w') \<and> finished cap C x w'"
        unfolding step by (simp add: run_bind_def)
      moreover have "\<not> w_flag (env w) \<Longrightarrow> wait_irq bus env dev (Suc k) w = ?rest ?w" unfolding step by (simp add: run_bind_def)
      ultimately show ?thesis using less [OF rest [OF w]] env by (cases "w_flag (env w)") auto
    qed
  qed
qed simp

lemma wait_poll_ok:
  assumes "conforms cap delay env" "awaiting C x w" "delay (w_dev w) < k"
  shows "\<exists>w'. wait_poll bus env dev k w = Some (Ok (), w') \<and> finished cap C x w'"
  using assms(2,3)
proof (induction k arbitrary: w)
  case (Suc k)
  from direct_awaiting [OF assms(1) Suc.prems(1), of bus dev] show ?case
  proof
    assume "\<exists>w'. poll_direct bus env dev w = Some (Ok False, w') \<and> awaiting C x w' \<and> delay (w_dev w') < delay (w_dev w)"
    then obtain w' where w': "poll_direct bus env dev w = Some (Ok False, w')" "awaiting C x w'" "delay (w_dev w') < delay (w_dev w)" by blast
    then show ?thesis using Suc.IH [OF w'(2)] Suc.prems(2) by (simp add: run_bind_def)
  qed (auto simp: run_bind_def)
qed simp

lemma wait_for_completion_ok:
  assumes "conforms cap delay env" "awaiting C x w" "delay (w_dev w) < 101000"
  shows "\<exists>w'. wait_for_completion bus env dev w = Some (Ok (), w') \<and> finished cap C x w'"
  using wait_irq_ok [OF assms(1,2), of bus dev 1000]
proof
  assume "\<exists>w'. wait_irq bus env dev 1000 w = Some (Ok False, w') \<and> awaiting C x w' \<and> delay (w_dev w') + 1000 \<le> delay (w_dev w)"
  then obtain w' where w': "wait_irq bus env dev 1000 w = Some (Ok False, w')" "awaiting C x w'" "delay (w_dev w') + 1000 \<le> delay (w_dev w)" by blast
  then have "delay (w_dev w') < 100000" using assms(3) by simp
  then show ?thesis using wait_poll_ok [OF assms(1) w'(2)] w'(1) unfolding wait_for_completion_def run_bind_def by simp
qed (auto simp: wait_for_completion_def run_bind_def)

section \<open>The driver is a disk\<close>

definition addrs_ok :: "blk_addrs \<Rightarrow> nat \<Rightarrow> bool" where
  "addrs_ok A len \<longleftrightarrow> sep (a_header A) 16 (a_status A) 1 \<and> sep (a_header A) 16 (a_buf A) len \<and> sep (a_status A) 1 (a_buf A) len"

lemma length_req_header [simp]: "length (req_header ty b) = 16"
  by (simp add: req_header_def)

definition req_mem :: "blk_addrs \<Rightarrow> RequestType \<Rightarrow> u64 \<Rightarrow> (u64 \<Rightarrow> u8) \<Rightarrow> u64 \<Rightarrow> u8" where
  "req_mem A ty b mem = mem_write (a_status A) [0xFF] (mem_write (a_header A) (req_header ty b) mem)"

lemma req_mem_fields:
  assumes "addrs_ok A len"
  shows "le_nat (mem_read (a_header A) 4 (req_mem A ty b mem)) = unat (RequestType_code ty)"
    "le_nat (mem_read (a_header A + 8) 8 (req_mem A ty b mem)) = unat b"
    "mem_read (a_buf A) len (req_mem A ty b mem) = mem_read (a_buf A) len mem"
proof -
  have sep: "sep (a_header A) 16 (a_status A) 1" "sep (a_buf A) len (a_header A) 16" "sep (a_buf A) len (a_status A) 1"
    using assms sep_sym by (auto simp: addrs_ok_def)
  have "mem_read (a_header A) 16 (req_mem A ty b mem) = req_header ty b"
    using sep(1) mem_read_write_same [of "req_header ty b"] by (simp add: req_mem_def)
  then have "mem_read (a_header A) 4 (req_mem A ty b mem) = u32_to_le_bytes (RequestType_code ty)"
    "mem_read (a_header A + 8) 8 (req_mem A ty b mem) = u64_to_le_bytes b"
    using mem_read_part [of 0 4 16 "a_header A" "req_mem A ty b mem"] mem_read_part [of 8 8 16 "a_header A" "req_mem A ty b mem"]
    by (simp_all add: req_header_def)
  then show "le_nat (mem_read (a_header A) 4 (req_mem A ty b mem)) = unat (RequestType_code ty)"
    "le_nat (mem_read (a_header A + 8) 8 (req_mem A ty b mem)) = unat b" by simp_all
  show "mem_read (a_buf A) len (req_mem A ty b mem) = mem_read (a_buf A) len mem" using sep by (simp add: req_mem_def)
qed

lemma submit_wait:
  assumes conf: "conforms cap delay env" "\<And>d. delay d < 101000" and w: "blk_idle w" and bufs: "length rb + length wb \<le> 1"
  obtains C w1 w2 where "submit bus dev A ty b rb wb w = (Ok (), w1)" "wait_for_completion bus env dev w1 = Some (Ok (), w2)"
    "finished cap C (req_mem A ty b (w_mem w), w_disk w) w2"
    "map snd C = (a_header A, 16, False) # map (\<lambda>b. (fst b, of_nat (snd b), False)) rb @ map (\<lambda>b. (fst b, of_nat (snd b), True)) wb @ [(a_status A, 1, True)]"
proof -
  let ?w = "w\<lparr>w_mem := req_mem A ty b (w_mem w)\<rparr>" and ?rb = "(a_header A, 16) # rb" and ?wb = "wb @ [(a_status A, 1)]"
  have "blk_idle ?w" "?wb \<noteq> []" "length ?rb + length ?wb \<le> 3" using w bufs by (simp_all add: blk_phase_def)
  then obtain h C w1 where post: "on_queue (add_buffer_chain ?rb ?wb) ?w = (Ok h, w1)" "blk_phase w1 [C] []" "w1 = ?w\<lparr>w_ring := w_ring w1\<rparr>"
    "map snd C = map (\<lambda>b. (fst b, of_nat (snd b), False)) ?rb @ map (\<lambda>b. (fst b, of_nat (snd b), True)) ?wb" by (rule phase_post)
  let ?w1 = "w1\<lparr>w_bus := notify_queue bus (vb_mmio dev) 0 (w_bus w1)\<rparr>"
  have run: "submit bus dev A ty b rb wb w = (Ok (), ?w1)"
    using post(1) by (simp add: submit_def act_bind_def act_modify_def req_mem_def)
  have "w_mem w1 = req_mem A ty b (w_mem w)" "w_disk w1 = w_disk w" by (subst post(3), simp)+
  then have "awaiting C (req_mem A ty b (w_mem w), w_disk w) ?w1" using post(2) by (simp add: awaiting_def)
  from wait_for_completion_ok [OF conf(1) this conf(2)] obtain w2
    where "wait_for_completion bus env dev ?w1 = Some (Ok (), w2)" "finished cap C (req_mem A ty b (w_mem w), w_disk w) w2" by blast
  from that [OF run this] show ?thesis using post(4) by simp
qed

text \<open>What a request does to memory and disk.\<close>

definition req_ok :: "nat \<Rightarrow> u64 \<Rightarrow> nat \<Rightarrow> bool" where
  "req_ok cap b len \<longleftrightarrow> len mod 512 = 0 \<and> 512 * unat b + len \<le> 512 * cap"

lemma read_request:
  assumes A: "addrs_ok A len" "len < 2 ^ 32"
    and C: "bufs = [(a_header A, 16, False), (a_buf A, of_nat len, True), (a_status A, 1, True)]"
    and run: "(mem', disk') = snd (blk_request cap bufs (req_mem A ReqIn b mem, disk))"
  shows "disk' = disk" "mem' (a_status A) = (if req_ok cap b len then 0 else 1)"
    "req_ok cap b len \<Longrightarrow> mem_read (a_buf A) len mem' = disk_read (512 * unat b) len disk"
proof -
  have len: "unat (of_nat len :: u32) = len" using A(2) by (intro unat_of_nat_small) simp
  let ?data = "disk_read (512 * unat b) len disk" and ?m = "req_mem A ReqIn b mem"
  have mem': "mem' = (if req_ok cap b len then mem_write (a_status A) [0] (mem_write (a_buf A) ?data ?m) else mem_write (a_status A) [1] ?m)" "disk' = disk"
    using run req_mem_fields(1,2) [OF A(1), of ReqIn b mem] unfolding C by (auto simp: blk_request_def Let_def len req_ok_def RequestType_code_def split: if_splits)
  then show "disk' = disk" "mem' (a_status A) = (if req_ok cap b len then 0 else 1)" by (simp_all add: mem_write_def)
  have data: "length ?data = len" by (simp add: disk_read_def)
  have "mem_read (a_buf A) (length ?data) (mem_write (a_buf A) ?data ?m) = ?data" using A(2) data by (intro mem_read_write_same) simp
  then show "req_ok cap b len \<Longrightarrow> mem_read (a_buf A) len mem' = ?data"
    using A(1) sep_sym [of "a_status A" 1 "a_buf A" len] mem'(1) data by (simp add: addrs_ok_def)
qed

lemma write_request:
  assumes A: "addrs_ok A (length bs)" "length bs < 2 ^ 32" and buf: "mem_read (a_buf A) (length bs) mem = bs"
    and C: "bufs = [(a_header A, 16, False), (a_buf A, of_nat (length bs), False), (a_status A, 1, True)]"
    and run: "(mem', disk') = snd (blk_request cap bufs (req_mem A ReqOut b mem, disk))"
  shows "disk' = (if req_ok cap b (length bs) then disk_write (512 * unat b) bs disk else disk)"
    "mem' (a_status A) = (if req_ok cap b (length bs) then 0 else 1)"
proof -
  have len: "unat (of_nat (length bs) :: u32) = length bs" using A(2) by (intro unat_of_nat_small) simp
  let ?m = "req_mem A ReqOut b mem"
  have "mem_read (a_buf A) (length bs) ?m = bs" using req_mem_fields(3) [OF A(1)] buf by simp
  then have "mem' = mem_write (a_status A) [if req_ok cap b (length bs) then 0 else 1] ?m"
    "disk' = (if req_ok cap b (length bs) then disk_write (512 * unat b) bs disk else disk)"
    using run req_mem_fields(1,2) [OF A(1), of ReqOut b mem] unfolding C by (auto simp: blk_request_def Let_def len req_ok_def RequestType_code_def split: if_splits)
  then show "disk' = (if req_ok cap b (length bs) then disk_write (512 * unat b) bs disk else disk)"
    "mem' (a_status A) = (if req_ok cap b (length bs) then 0 else 1)" by (simp_all add: mem_write_def)
qed

text \<open>
  Operations on a block device, and what they do on a disk of \<open>cap\<close> sectors. A buffer longer than a sector reads or writes the
  sectors that follow.
\<close>

datatype blk_op = BRead u64 nat | BWrite u64 bytes

fun op_len :: "blk_op \<Rightarrow> nat" where
  "op_len (BRead b len) = len"
| "op_len (BWrite b bs) = length bs"

fun disk_op :: "nat \<Rightarrow> bool \<Rightarrow> blk_op \<Rightarrow> (nat \<Rightarrow> u8) \<Rightarrow> (bytes, BlockError) outcome \<times> (nat \<Rightarrow> u8)" where
  "disk_op cap ro (BRead b len) disk =
     (if len < 512 \<or> \<not> req_ok cap b len then (Err BE_IoError, disk) else (Ok (disk_read (512 * unat b) len disk), disk))"
| "disk_op cap ro (BWrite b bs) disk =
     (if ro \<or> length bs < 512 \<or> \<not> req_ok cap b (length bs) then (Err BE_IoError, disk) else (Ok [], disk_write (512 * unat b) bs disk))"

fun disk_ops :: "nat \<Rightarrow> bool \<Rightarrow> blk_op list \<Rightarrow> (nat \<Rightarrow> u8) \<Rightarrow> (bytes, BlockError) outcome list \<times> (nat \<Rightarrow> u8)" where
  "disk_ops cap ro [] disk = ([], disk)"
| "disk_ops cap ro (op # ops) disk =
     (let (r, disk) = disk_op cap ro op disk; (rs, disk) = disk_ops cap ro ops disk in (r # rs, disk))"

text \<open>The same operations through the driver, each with its own buffers.\<close>

fun driver_op ::
    "'m bus \<Rightarrow> (('m, 'x) blkw \<Rightarrow> ('m, 'x) blkw) \<Rightarrow> VirtIOBlock \<Rightarrow> blk_addrs \<Rightarrow> blk_op \<Rightarrow> ('m, 'x) blkw \<Rightarrow>
     ((bytes, BlockError) outcome \<times> ('m, 'x) blkw) option" where
  "driver_op bus env dev A (BRead b len) w = VirtIOBlock_read_block bus env dev A b len w"
| "driver_op bus env dev A (BWrite b bs) w = map_option (\<lambda>(r, w). (map_ok (\<lambda>_. []) r, w)) (VirtIOBlock_write_block bus env dev A b bs w)"

fun driver_ops ::
    "'m bus \<Rightarrow> (('m, 'x) blkw \<Rightarrow> ('m, 'x) blkw) \<Rightarrow> VirtIOBlock \<Rightarrow> (blk_addrs \<times> blk_op) list \<Rightarrow> ('m, 'x) blkw \<Rightarrow>
     ((bytes, BlockError) outcome list \<times> ('m, 'x) blkw) option" where
  "driver_ops bus env dev [] w = Some ([], w)"
| "driver_ops bus env dev ((A, op) # ops) w =
     (case driver_op bus env dev A op w of
        None \<Rightarrow> None
      | Some (r, w) \<Rightarrow> map_option (\<lambda>(rs, w). (r # rs, w)) (driver_ops bus env dev ops w))"

lemma read_block_ok:
  assumes conf: "conforms cap delay env" "\<And>d. delay d < 101000" and dev: "unat (vb_capacity dev) = cap" "vb_block_size dev = 512"
    and w: "blk_idle w" and A: "addrs_ok A len" "len < 2 ^ 32"
  shows "\<exists>w'. VirtIOBlock_read_block bus env dev A b len w = Some (fst (disk_op cap ro (BRead b len) (w_disk w)), w') \<and>
    w_disk w' = snd (disk_op cap ro (BRead b len) (w_disk w)) \<and> blk_idle w'"
proof (cases "len < 512 \<or> cap \<le> unat b")
  case True
  then have "len < 512 \<or> \<not> req_ok cap b len" by (auto simp: req_ok_def)
  then show ?thesis using True dev w
    by (auto simp: VirtIOBlock_read_block_def vb_io_def read_block_internal_def word_le_nat_alt)
next
  case False
  obtain C w1 w2 where run: "submit bus dev A ReqIn b [] [(a_buf A, len)] w = (Ok (), w1)"
    "wait_for_completion bus env dev w1 = Some (Ok (), w2)" and fin: "finished cap C (req_mem A ReqIn b (w_mem w), w_disk w) w2"
    and C: "map snd C = [(a_header A, 16, False), (a_buf A, of_nat len, True), (a_status A, 1, True)]"
    by (rule submit_wait [OF conf w, where rb = "[]" and wb = "[(a_buf A, len)]"]) simp_all
  have "(w_mem w2, w_disk w2) = snd (blk_request cap (map snd C) (req_mem A ReqIn b (w_mem w), w_disk w))" using fin by (simp add: finished_def)
  note R = read_request [OF A C this]
  have "blk_idle w2" using fin by (simp add: finished_def)
  moreover have "VirtIOBlock_read_block bus env dev A b len w =
    Some (if w_mem w2 (a_status A) \<noteq> 0 then Err BE_IoError else Ok (mem_read (a_buf A) len (w_mem w2)), w2)"
    using False dev run
    by (simp add: VirtIOBlock_read_block_def vb_io_def read_block_internal_def word_le_nat_alt run_bind_def run_act_def check_status_def VirtIOBlkStatus_Ok_def)
  ultimately show ?thesis using R False by auto
qed

lemma write_block_ok:
  assumes conf: "conforms cap delay env" "\<And>d. delay d < 101000" and dev: "unat (vb_capacity dev) = cap" "vb_block_size dev = 512"
    and w: "blk_idle w" and A: "addrs_ok A (length bs)" "length bs < 2 ^ 32"
  shows "\<exists>w'. driver_op bus env dev A (BWrite b bs) w = Some (fst (disk_op cap (vb_read_only dev) (BWrite b bs) (w_disk w)), w') \<and>
    w_disk w' = snd (disk_op cap (vb_read_only dev) (BWrite b bs) (w_disk w)) \<and> blk_idle w'"
proof (cases "vb_read_only dev \<or> length bs < 512 \<or> cap \<le> unat b")
  case True
  then have "vb_read_only dev \<or> length bs < 512 \<or> \<not> req_ok cap b (length bs)" by (auto simp: req_ok_def)
  then show ?thesis using True dev w
    by (auto simp: VirtIOBlock_write_block_def vb_io_def write_block_internal_def word_le_nat_alt)
next
  case False
  let ?w = "w\<lparr>w_mem := mem_write (a_buf A) bs (w_mem w)\<rparr>"
  have w': "blk_idle ?w" using w by (simp add: blk_phase_def)
  obtain C w1 w2 where run: "submit bus dev A ReqOut b [(a_buf A, length bs)] [] ?w = (Ok (), w1)"
    "wait_for_completion bus env dev w1 = Some (Ok (), w2)" and fin: "finished cap C (req_mem A ReqOut b (w_mem ?w), w_disk ?w) w2"
    and C: "map snd C = [(a_header A, 16, False), (a_buf A, of_nat (length bs), False), (a_status A, 1, True)]"
    by (rule submit_wait [OF conf w', where rb = "[(a_buf A, length bs)]" and wb = "[]"]) simp_all
  have "(w_mem w2, w_disk w2) = snd (blk_request cap (map snd C) (req_mem A ReqOut b (w_mem ?w), w_disk ?w))" using fin by (simp add: finished_def)
  moreover have "mem_read (a_buf A) (length bs) (w_mem ?w) = bs" using A(2) by simp
  ultimately have R: "w_disk w2 = (if req_ok cap b (length bs) then disk_write (512 * unat b) bs (w_disk w) else w_disk w)"
    "w_mem w2 (a_status A) = (if req_ok cap b (length bs) then 0 else 1)" using write_request [OF A _ C] by auto
  have "blk_idle w2" using fin by (simp add: finished_def)
  moreover have "driver_op bus env dev A (BWrite b bs) w = Some (if w_mem w2 (a_status A) \<noteq> 0 then Err BE_IoError else Ok [], w2)"
    using False dev run
    by (simp add: VirtIOBlock_write_block_def vb_io_def write_block_internal_def word_le_nat_alt run_bind_def run_act_def check_status_def VirtIOBlkStatus_Ok_def)
  ultimately show ?thesis using R False by auto
qed

lemma idle_start:
  assumes "w_ring w = vring_init k n" "unat n dvd 2 ^ 16" "3 \<le> n"
  shows "blk_idle w"
proof -
  have "3 \<le> unat n" using assms(3) by (simp add: word_le_nat_alt)
  moreover have "vq_rel (vring_init k n) (spec_init n)" using assms(2,3) by (intro vq_rel_init) (auto simp: word_less_nat_alt word_le_nat_alt)
  ultimately show ?thesis unfolding blk_phase_def by (intro exI [of _ "spec_init n"]) (simp add: assms(1) spec_init_def in_flight_def)
qed

lemma driver_op_ok:
  assumes "conforms cap delay env" "\<And>d. delay d < 101000" "unat (vb_capacity dev) = cap" "vb_block_size dev = 512"
    and "blk_idle w" "addrs_ok A (op_len op)" "op_len op < 2 ^ 32"
  shows "\<exists>w'. driver_op bus env dev A op w = Some (fst (disk_op cap (vb_read_only dev) op (w_disk w)), w') \<and>
    w_disk w' = snd (disk_op cap (vb_read_only dev) op (w_disk w)) \<and> blk_idle w'"
proof (cases op)
  case (BRead b len)
  then show ?thesis using read_block_ok [OF assms(1-5)] assms(6,7) by (simp del: disk_op.simps)
next
  case (BWrite b bs)
  then show ?thesis using write_block_ok [OF assms(1-5)] assms(6,7) by (simp del: disk_op.simps driver_op.simps)
qed

lemma driver_ops_ok:
  assumes conf: "conforms cap delay env" "\<And>d. delay d < 101000" "unat (vb_capacity dev) = cap" "vb_block_size dev = 512"
    and "blk_idle w" "\<forall>(A, op) \<in> set ops. addrs_ok A (op_len op) \<and> op_len op < 2 ^ 32"
  shows "\<exists>w'. driver_ops bus env dev ops w = Some (fst (disk_ops cap (vb_read_only dev) (map snd ops) (w_disk w)), w') \<and>
    w_disk w' = snd (disk_ops cap (vb_read_only dev) (map snd ops) (w_disk w)) \<and> blk_idle w'"
  using assms(5,6)
proof (induction ops arbitrary: w)
  case (Cons aop ops)
  obtain A op where aop: "aop = (A, op)" by (cases aop)
  have A: "addrs_ok A (op_len op)" "op_len op < 2 ^ 32" and rest: "\<forall>(A, op) \<in> set ops. addrs_ok A (op_len op) \<and> op_len op < 2 ^ 32"
    using Cons.prems(2) aop by auto
  obtain w1 where w1: "driver_op bus env dev A op w = Some (fst (disk_op cap (vb_read_only dev) op (w_disk w)), w1)"
    "w_disk w1 = snd (disk_op cap (vb_read_only dev) op (w_disk w))" "blk_idle w1" using driver_op_ok [OF conf Cons.prems(1) A] by blast
  obtain w2 where "driver_ops bus env dev ops w1 = Some (fst (disk_ops cap (vb_read_only dev) (map snd ops) (w_disk w1)), w2)"
    "w_disk w2 = snd (disk_ops cap (vb_read_only dev) (map snd ops) (w_disk w1))" "blk_idle w2" using Cons.IH [OF w1(3) rest] by blast
  then show ?case using w1 aop by (simp add: case_prod_beta Let_def del: disk_op.simps driver_op.simps)
qed simp

text \<open>
  C6. The block driver is a disk. With a device that serves every request as the VirtIO specification says, within 101000
  of the driver's polls and with interrupts arriving or not, every sequence of reads and writes gives the results of
  the same operations on a plain disk of \<open>cap\<close> sectors and leaves its contents: a read returns what was last written, a
  write changes the addressed sectors and nothing else, and requests outside the disk, with buffers that are not whole sectors or to a read-only
  disk, fail and change nothing.
\<close>

theorem virtio_block_refines_disk:
  assumes "conforms cap delay env" "\<forall>d. delay d < 101000" "unat (vb_capacity dev) = cap" "vb_block_size dev = 512"
    and "w_ring w = vring_init k n" "unat n dvd 2 ^ 16" "3 \<le> n"
    and "\<forall>(A, op) \<in> set ops. addrs_ok A (op_len op) \<and> op_len op < 2 ^ 32"
  shows "\<exists>w'. driver_ops bus env dev ops w = Some (fst (disk_ops cap (vb_read_only dev) (map snd ops) (w_disk w)), w') \<and>
    w_disk w' = snd (disk_ops cap (vb_read_only dev) (map snd ops) (w_disk w))"
  using driver_ops_ok [OF assms(1) _ assms(3,4) idle_start [OF assms(5-7)] assms(8)] assms(2) by blast

text \<open>A device that serves a request at once.\<close>

definition prompt :: "nat \<Rightarrow> ('m, 'x) blkw \<Rightarrow> ('m, 'x) blkw" where
  "prompt cap w = (if waiting w then blk_serve cap w else w)"

definition demo_dev :: VirtIOBlock where
  "demo_dev = \<lparr>vb_name = ''vda'', vb_mmio = 4096, vb_capacity = 8, vb_block_size = 512, vb_read_only = False, vb_irq = 3\<rparr>"

definition demo_addrs :: blk_addrs where
  "demo_addrs = \<lparr>a_header = 0, a_status = 16, a_buf = 4096\<rparr>"

definition demo_world :: "(nat \<Rightarrow> u32, unit) blkw" where
  "demo_world = \<lparr>w_bus = \<lambda>_. 0, w_mem = \<lambda>_. 0, w_flag = False, w_ring = vring_init 0 4, w_disk = \<lambda>_. 0, w_dev = ()\<rparr>"

lemma disk_read_write: "n = length bs \<Longrightarrow> disk_read pos n (disk_write pos bs disk) = bs"
  by (rule nth_equalityI) (simp_all add: disk_read_def disk_write_def)

theorem virtio_block_refines_disk_witness:
  "\<exists>w'. driver_ops ram_bus (prompt 8) demo_dev [(demo_addrs, BWrite 1 (replicate 512 7)), (demo_addrs, BRead 1 512), (demo_addrs, BRead 8 512)] demo_world =
     Some ([Ok [], Ok (replicate 512 7), Err BE_IoError], w')"
proof -
  define bs :: bytes where "bs = replicate 512 7"
  have len: "length bs = 512" by (simp add: bs_def)
  let ?ops = "[(demo_addrs, BWrite 1 bs), (demo_addrs, BRead 1 512), (demo_addrs, BRead 8 512)]"
  have "conforms 8 (\<lambda>_. 0) (prompt 8 :: (nat \<Rightarrow> u32, unit) blkw \<Rightarrow> _)" by (simp add: conforms_def prompt_def)
  moreover have "\<forall>(A, op) \<in> set ?ops. addrs_ok A (op_len op) \<and> op_len op < 2 ^ 32" by (simp add: addrs_ok_def sep_def demo_addrs_def len)
  moreover have "unat (vb_capacity demo_dev) = 8" "vb_block_size demo_dev = 512" "w_ring demo_world = vring_init 0 4" "unat (4 :: u16) dvd 2 ^ 16" "(3 :: u16) \<le> 4"
    by (simp_all add: demo_dev_def demo_world_def)
  ultimately have "\<exists>w'. driver_ops ram_bus (prompt 8) demo_dev ?ops demo_world = Some (fst (disk_ops 8 (vb_read_only demo_dev) (map snd ?ops) (w_disk demo_world)), w') \<and>
    w_disk w' = snd (disk_ops 8 (vb_read_only demo_dev) (map snd ?ops) (w_disk demo_world))"
    by (intro virtio_block_refines_disk [where delay = "\<lambda>_. 0" and k = 0 and n = 4]) simp_all
  moreover have "fst (disk_ops 8 (vb_read_only demo_dev) (map snd ?ops) (w_disk demo_world)) = [Ok [], Ok bs, Err BE_IoError]"
    by (simp add: req_ok_def disk_read_write demo_dev_def len)
  ultimately show ?thesis unfolding bs_def by auto
qed

section \<open>The driver always returns\<close>

text \<open>A queue that device and other threads have used in any way that the rules of the queue allow.\<close>

definition sound :: "('m, 'x) blkw \<Rightarrow> bool" where
  "sound w \<longleftrightarrow> (\<exists>S. vq_rel (w_ring w) S)"

definition lawful :: "(('m, 'x) blkw \<Rightarrow> ('m, 'x) blkw) \<Rightarrow> bool" where
  "lawful env \<longleftrightarrow> (\<forall>w. \<exists>es. vq_steps (w_ring w) es (w_ring (env w)) \<and> (\<forall>e \<in> set es. good_request e))"

definition halts :: "('s, 'a) run \<Rightarrow> ('s \<Rightarrow> bool) \<Rightarrow> 's \<Rightarrow> bool" where
  "halts f P s \<longleftrightarrow> (\<exists>r s'. f s = Some (r, s') \<and> r \<noteq> Panic \<and> P s')"

lemma map_Panic [simp]: "map_err f r = Panic \<longleftrightarrow> r = Panic" "map_ok g r = Panic \<longleftrightarrow> r = Panic"
  by (cases r; simp)+

lemma halts_bind: "halts f P s \<Longrightarrow> (\<And>x s. P s \<Longrightarrow> halts (g x) P s) \<Longrightarrow> halts (run_bind f g) P s"
  by (auto simp: halts_def run_bind_def split: outcome.splits)

lemma halts_ok [intro]: "P s \<Longrightarrow> halts (\<lambda>s. Some (Ok x, s)) P s"
  by (simp add: halts_def)

lemma sound_simps [simp]: "sound (w\<lparr>w_flag := b\<rparr>) = sound w" "sound (w\<lparr>w_bus := m\<rparr>) = sound w" "sound (w\<lparr>w_mem := mem\<rparr>) = sound w"
  by (simp_all add: sound_def)

lemma sound_env: "lawful env \<Longrightarrow> sound w \<Longrightarrow> sound (env w)"
  unfolding lawful_def sound_def using vq_steps_rel by metis

lemma sound_poll:
  assumes "sound w"
  shows "halts poll_queue sound w"
proof -
  obtain S where S: "vq_rel (w_ring w) S" using assms by (auto simp: sound_def)
  obtain r q where run: "poll_used (vr_q (w_ring w)) = Some (Ok r, q)" using poll_returns [OF S] by blast
  obtain S' where "vq_rel ((w_ring w)\<lparr>vr_q := q\<rparr>) S'" using vq_simulates [OF S step_poll [OF run]] by (auto simp: good_request_def)
  then show ?thesis using run by (auto simp: halts_def poll_queue_def sound_def)
qed

lemma sound_direct:
  assumes "lawful env" "sound w"
  shows "halts (poll_direct bus env dev) sound w"
proof -
  have "halts (run_bind poll_queue (\<lambda>r w. if r \<noteq> None then Some (Ok True, clear_irq bus dev w) else Some (Ok False, w))) sound (env w)"
  proof (rule halts_bind [OF sound_poll [OF sound_env [OF assms]]])
    show "halts (\<lambda>w. if x \<noteq> None then Some (Ok True, clear_irq bus dev w) else Some (Ok False, w)) sound w" if "sound w" for x w
      using that by (simp add: halts_def clear_irq_def Let_def)
  qed
  then show ?thesis by (simp add: halts_def poll_direct_def)
qed

lemma sound_wait_irq:
  assumes "lawful env" "sound w"
  shows "halts (wait_irq bus env dev k) sound w"
  using assms(2)
proof (induction k arbitrary: w)
  case (Suc k)
  let ?poll = "if w_flag (env w) then (\<lambda>w. poll_queue (env w)) else (\<lambda>w. Some (Ok None, w))" and ?w = "(env w)\<lparr>w_flag := False\<rparr>"
  let ?rest = "run_bind (poll_direct bus env dev) (\<lambda>found w. if found then Some (Ok True, w) else wait_irq bus env dev k w)"
  have w: "sound ?w" using sound_env [OF assms(1) Suc.prems] by simp
  have rest: "halts ?rest sound w" if "sound w" for w
    using that Suc.IH by (intro halts_bind sound_direct [OF assms(1)]) (auto simp: halts_def)
  have "halts (\<lambda>w. poll_queue (env w)) sound ?w" using sound_poll [OF sound_env [OF assms(1) w]] by (simp add: halts_def)
  then have "halts ?poll sound ?w" using w by (cases "w_flag (env w)") (simp_all add: halts_ok)
  then have "halts (run_bind ?poll (\<lambda>r. if r \<noteq> None then \<lambda>w. Some (Ok True, w) else ?rest)) sound ?w"
    by (rule halts_bind) (use rest in \<open>simp add: halts_ok\<close>)
  then show ?case by (simp add: halts_def Let_def)
qed (simp add: halts_def)

lemma sound_wait_poll:
  assumes "lawful env" "sound w"
  shows "halts (wait_poll bus env dev k) sound w"
  using assms(2)
proof (induction k arbitrary: w)
  case (Suc k)
  have "halts (run_bind (poll_direct bus env dev) (\<lambda>found w. if found then Some (Ok (), w) else wait_poll bus env dev k w)) sound w"
    using Suc by (intro halts_bind sound_direct [OF assms(1)]) (auto simp: halts_def)
  then show ?case by (simp add: halts_def)
qed (simp add: halts_def)

lemma sound_wait:
  assumes "lawful env" "sound w"
  shows "halts (wait_for_completion bus env dev) sound w"
  unfolding wait_for_completion_def
  by (intro halts_bind sound_wait_irq assms) (use sound_wait_poll [OF assms(1)] in \<open>auto simp: halts_def\<close>)

lemma sound_submit:
  assumes "sound w" "length rb + length wb < 60000"
  shows "halts (run_act (submit bus dev A ty b rb wb)) sound w"
proof -
  let ?w = "w\<lparr>w_mem := mem_write (a_status A) [0xFF] (mem_write (a_header A) (req_header ty b) (w_mem w))\<rparr>"
  let ?rb = "(a_header A, 16) # rb" and ?wb = "wb @ [(a_status A, 1)]"
  obtain S where S: "vq_rel (w_ring w) S" using assms by (auto simp: sound_def)
  obtain r q where run: "add_buffer_chain ?rb ?wb (vr_q (w_ring w)) = (r, q)" by fastforce
  have "good_request (EvAdd ?rb ?wb r)" using assms(2) by (simp add: good_request_def)
  from sim_add [OF S run this] obtain S' where S': "spec_step S (EvAdd ?rb ?wb r) S'" "vq_rel ((w_ring w)\<lparr>vr_q := q\<rparr>) S'" by blast
  have "r \<noteq> Panic" using S'(1) by (auto elim: spec_addE)
  moreover have "sound (w\<lparr>w_ring := (w_ring w)\<lparr>vr_q := q\<rparr>\<rparr>)" using S'(2) by (auto simp: sound_def)
  then have "sound (?w\<lparr>w_ring := (w_ring w)\<lparr>vr_q := q\<rparr>\<rparr>)" by (simp add: sound_def)
  ultimately show ?thesis using run
    by (cases r) (simp_all add: halts_def run_act_def submit_def act_bind_def act_modify_def on_queue_def)
qed

lemma sound_driver_op:
  assumes env: "lawful env" and w: "sound w"
  shows "\<exists>r w'. driver_op bus env dev A op w = Some (r, w') \<and> r \<noteq> Panic \<and> sound w'"
proof (cases op)
  case (BRead b len)
  have "halts (run_bind (run_act (submit bus dev A ReqIn b [] [(a_buf A, len)])) (\<lambda>_. run_bind (wait_for_completion bus env dev) (\<lambda>_.
      run_bind (check_status A) (\<lambda>_ w. Some (Ok (mem_read (a_buf A) len (w_mem w)), w))))) sound w"
    by (intro halts_bind sound_submit sound_wait env w) (simp_all add: halts_def check_status_def)
  then have "halts (read_block_internal bus env dev A b len) sound w" using w by (simp add: halts_def read_block_internal_def)
  then show ?thesis unfolding BRead by (auto simp: halts_def VirtIOBlock_read_block_def vb_io_def)
next
  case (BWrite b bs)
  let ?w = "w\<lparr>w_mem := mem_write (a_buf A) bs (w_mem w)\<rparr>"
  have "halts (run_bind (run_act (submit bus dev A ReqOut b [(a_buf A, length bs)] [])) (\<lambda>_. run_bind (wait_for_completion bus env dev) (\<lambda>_.
      check_status A))) sound ?w"
    by (intro halts_bind sound_submit sound_wait env) (use w in \<open>simp_all add: halts_def check_status_def\<close>)
  then have "halts (write_block_internal bus env dev A b bs) sound w" using w by (simp add: halts_def write_block_internal_def)
  then show ?thesis unfolding BWrite
    by (auto simp: halts_def VirtIOBlock_write_block_def vb_io_def)
qed

text \<open>
  C23. The driver always returns. Whatever the device and other threads do with the queue, as long as they keep to its rules (the
  steps of \<^const>\<open>vq_step\<close>, and no chain of read buffers alone, see \<^const>\<open>good_request\<close>), every
  read and write ends after at most 102000 polls with a result or an error. No call panics, and the queue stays sound.
\<close>

theorem virtio_block_returns:
  assumes "lawful env" "w_ring w = vring_init k n" "unat n dvd 2 ^ 16" "0 < n"
  shows "\<exists>rs w'. driver_ops bus env dev ops w = Some (rs, w') \<and> length rs = length ops \<and> Panic \<notin> set rs \<and> sound w'"
proof -
  have "sound w" using vq_rel_init [OF assms(3,4)] assms(2) by (auto simp: sound_def)
  then show ?thesis
  proof (induction ops arbitrary: w)
    case (Cons aop ops)
    obtain A op where aop: "aop = (A, op)" by (cases aop)
    obtain r w1 where w1: "driver_op bus env dev A op w = Some (r, w1)" "r \<noteq> Panic" "sound w1" using sound_driver_op [OF assms(1) Cons.prems] by blast
    obtain rs w2 where "driver_ops bus env dev ops w1 = Some (rs, w2)" "length rs = length ops" "Panic \<notin> set rs" "sound w2" using Cons.IH [OF w1(3)] by blast
    then show ?case using w1 aop by (auto simp del: driver_op.simps)
  qed simp
qed

theorem virtio_block_returns_witness:
  "\<exists>rs w'. driver_ops ram_bus (\<lambda>w. w) demo_dev [(demo_addrs, BRead 1 512), (demo_addrs, BRead 2 512)] demo_world = Some (rs, w') \<and>
     length rs = 2 \<and> Panic \<notin> set rs"
proof -
  have "lawful (\<lambda>w :: (nat \<Rightarrow> u32, unit) blkw. w)" unfolding lawful_def using steps_nil by (metis empty_iff empty_set)
  from virtio_block_returns [OF this, where w = demo_world and k = 0 and n = 4 and bus = ram_bus and dev = demo_dev and
    ops = "[(demo_addrs, BRead 1 512), (demo_addrs, BRead 2 512)]"]
  have "\<exists>rs w'. driver_ops ram_bus (\<lambda>w. w) demo_dev [(demo_addrs, BRead 1 512), (demo_addrs, BRead 2 512)] demo_world = Some (rs, w') \<and>
    length rs = length [(demo_addrs, BRead 1 512), (demo_addrs, BRead 2 512)] \<and> Panic \<notin> set rs \<and> sound w'"
    by (simp add: demo_world_def del: driver_ops.simps)
  then show ?thesis by auto
qed


lemma queue_size_bounds:
  assumes "(x :: u32) \<noteq> 0"
  shows "0 < (ucast (min x 256) :: u16)" "(ucast (min x 256) :: u16) \<le> 256"
proof -
  have "unat (min x 256) \<le> 256" "0 < unat (min x 256)" using assms by (auto simp: min_def word_le_nat_alt unat_gt_0)
  moreover from this have "unat (ucast (min x 256) :: u16) = unat (min x 256)" by (simp add: unsigned_ucast_eq take_bit_nat_eq_self)
  ultimately show "0 < (ucast (min x 256) :: u16)" "(ucast (min x 256) :: u16) \<le> 256" by (simp_all add: word_less_nat_alt word_le_nat_alt)
qed

text \<open>A device that has been started has an empty queue of at most 256 descriptors.\<close>

lemma VirtIOBlock_new_queue:
  assumes "VirtIOBlock_new bus alloc info name m = (Ok (dev, q), m')"
  shows "\<exists>n. q = vq_init 0 n \<and> 0 < n \<and> n \<le> 256"
proof -
  have "\<exists>n. q = vq_init 0 n \<and> 0 < n \<and> n \<le> 256" if "Virtqueue_new bus mmio alloc 0 m1 = (Ok q, m2)" for mmio m1 m2
    using that queue_size_bounds by (auto simp: Virtqueue_new_def new_legacy_def new_modern_def Let_def split: if_splits option.splits)
  then show ?thesis using assms
    by (auto simp: VirtIOBlock_new_def Let_def act_bind_def act_modify_def act_return_def split: if_splits prod.splits outcome.splits)
qed

end
