(* ===== verification/Elf.thy ===== *)
theory Elf
  imports Memory Rust_Str
begin

text \<open>
  Parsing ELF64 files, \<open>src/module/elf.rs\<close>. The parser casts positions of the file to structures without
  looking at the file again; a structure that is not inside the file, which the code would read from whatever is behind it,
  is a panic of the model. Sizes and offsets are 64-bit words and wrap.
\<close>

section \<open>Structures\<close>

definition ELF_MAGIC :: bytes where "ELF_MAGIC = [0x7f, 0x45, 0x4c, 0x46]"

datatype ElfType = ET_None | ET_Rel | ET_Exec | ET_Dyn | ET_Core

definition ElfType_from :: "u16 \<Rightarrow> ElfType" where
  "ElfType_from v = (if v = 1 then ET_Rel else if v = 2 then ET_Exec else if v = 3 then ET_Dyn else if v = 4 then ET_Core else ET_None)"

datatype ElfMachine = EM_None | EM_AArch64 | EM_RiscV

definition ElfMachine_from :: "u16 \<Rightarrow> ElfMachine" where
  "ElfMachine_from v = (if v = 183 then EM_AArch64 else if v = 243 then EM_RiscV else EM_None)"

record Elf64Header =
  e_ident :: bytes
  e_type :: u16
  e_machine :: u16
  e_version :: u32
  e_entry :: u64
  e_phoff :: u64
  e_shoff :: u64
  e_flags :: u32
  e_ehsize :: u16
  e_phentsize :: u16
  e_phnum :: u16
  e_shentsize :: u16
  e_shnum :: u16
  e_shstrndx :: u16

record Elf64SectionHeader =
  sh_name :: u32
  sh_type :: u32
  sh_flags :: u64
  sh_addr :: u64
  sh_offset :: u64
  sh_size :: u64
  sh_link :: u32
  sh_info :: u32
  sh_addralign :: u64
  sh_entsize :: u64

record Elf64ProgramHeader =
  p_type :: u32
  p_flags :: u32
  p_offset :: u64
  p_vaddr :: u64
  p_paddr :: u64
  p_filesz :: u64
  p_memsz :: u64
  p_align :: u64

record Elf64Symbol =
  st_name :: u32
  st_info :: u8
  st_other :: u8
  st_shndx :: u16
  st_value :: u64
  st_size :: u64

record Elf64Rela =
  r_offset :: u64
  r_info :: u64
  r_addend :: u64

definition SHT_SYMTAB :: u32 where "SHT_SYMTAB = 2"
definition SHT_RELA :: u32 where "SHT_RELA = 4"
definition SHT_NOBITS :: u32 where "SHT_NOBITS = 8"
definition SHF_ALLOC :: u64 where "SHF_ALLOC = 2"
definition PT_LOAD :: u32 where "PT_LOAD = 1"
definition SHN_UNDEF :: u16 where "SHN_UNDEF = 0"
definition SHN_ABS :: u16 where "SHN_ABS = 0xfff1"

definition binding :: "Elf64Symbol \<Rightarrow> u8" where
  "binding s = drop_bit 4 (st_info s)"

definition sym_type :: "Elf64Symbol \<Rightarrow> u8" where
  "sym_type s = st_info s AND 0xf"

definition rela_symbol :: "Elf64Rela \<Rightarrow> u32" where
  "rela_symbol r = ucast (drop_bit 32 (r_info r))"

definition rel_type :: "Elf64Rela \<Rightarrow> u32" where
  "rel_type r = ucast (r_info r AND 0xffffffff)"

datatype Elf64Error =
    TooSmall | InvalidMagic | Not64Bit | UnsupportedEndian | UnsupportedMachine | InvalidSectionHeader | InvalidProgramHeader | SectionNotFound
  | ElfSymbolNotFound

text \<open>The fields of a structure in its bytes, in the C layout.\<close>

definition fld :: "nat \<Rightarrow> nat \<Rightarrow> bytes \<Rightarrow> nat" where
  "fld off n bs = le_nat (take n (drop off bs))"

definition header_of :: "bytes \<Rightarrow> Elf64Header" where
  "header_of bs = \<lparr>e_ident = take 16 bs, e_type = of_nat (fld 16 2 bs), e_machine = of_nat (fld 18 2 bs), e_version = of_nat (fld 20 4 bs),
     e_entry = of_nat (fld 24 8 bs), e_phoff = of_nat (fld 32 8 bs), e_shoff = of_nat (fld 40 8 bs), e_flags = of_nat (fld 48 4 bs),
     e_ehsize = of_nat (fld 52 2 bs), e_phentsize = of_nat (fld 54 2 bs), e_phnum = of_nat (fld 56 2 bs), e_shentsize = of_nat (fld 58 2 bs),
     e_shnum = of_nat (fld 60 2 bs), e_shstrndx = of_nat (fld 62 2 bs)\<rparr>"

definition section_of :: "bytes \<Rightarrow> Elf64SectionHeader" where
  "section_of bs = \<lparr>sh_name = of_nat (fld 0 4 bs), sh_type = of_nat (fld 4 4 bs), sh_flags = of_nat (fld 8 8 bs), sh_addr = of_nat (fld 16 8 bs),
     sh_offset = of_nat (fld 24 8 bs), sh_size = of_nat (fld 32 8 bs), sh_link = of_nat (fld 40 4 bs), sh_info = of_nat (fld 44 4 bs),
     sh_addralign = of_nat (fld 48 8 bs), sh_entsize = of_nat (fld 56 8 bs)\<rparr>"

definition program_of :: "bytes \<Rightarrow> Elf64ProgramHeader" where
  "program_of bs = \<lparr>p_type = of_nat (fld 0 4 bs), p_flags = of_nat (fld 4 4 bs), p_offset = of_nat (fld 8 8 bs), p_vaddr = of_nat (fld 16 8 bs),
     p_paddr = of_nat (fld 24 8 bs), p_filesz = of_nat (fld 32 8 bs), p_memsz = of_nat (fld 40 8 bs), p_align = of_nat (fld 48 8 bs)\<rparr>"

definition symbol_of :: "bytes \<Rightarrow> Elf64Symbol" where
  "symbol_of bs = \<lparr>st_name = of_nat (fld 0 4 bs), st_info = of_nat (fld 4 1 bs), st_other = of_nat (fld 5 1 bs), st_shndx = of_nat (fld 6 2 bs),
     st_value = of_nat (fld 8 8 bs), st_size = of_nat (fld 16 8 bs)\<rparr>"

definition rela_of :: "bytes \<Rightarrow> Elf64Rela" where
  "rela_of bs = \<lparr>r_offset = of_nat (fld 0 8 bs), r_info = of_nat (fld 8 8 bs), r_addend = of_nat (fld 16 8 bs)\<rparr>"

text \<open>\<open>slice::from_raw_parts(data.as_ptr().add(off) as *const T, count)\<close> for a structure of \<open>n\<close> bytes.\<close>

definition structs_at :: "(bytes \<Rightarrow> 'r) \<Rightarrow> nat \<Rightarrow> bytes \<Rightarrow> nat \<Rightarrow> nat \<Rightarrow> ('r list, 'e) outcome" where
  "structs_at dec n data off count =
     (if off + count * n \<le> length data then Ok (map (\<lambda>i. dec (take n (drop (off + i * n) data))) [0..<count]) else Panic)"


section \<open>The parser\<close>

record Elf64 =
  elf_data :: bytes
  elf_header :: Elf64Header
  elf_sections :: "Elf64SectionHeader list"
  elf_programs :: "Elf64ProgramHeader list option"
  elf_shstrtab :: bytes

text \<open>\<open>let end = start + size; if end <= data.len() { &data[start..end] } else { &[] }\<close>\<close>

definition data_range :: "bytes \<Rightarrow> u64 \<Rightarrow> u64 \<Rightarrow> (bytes, 'e) outcome" where
  "data_range data start sz =
     (let end' = start + sz
      in if unat end' \<le> length data
         then if start \<le> end' then Ok (take (unat end' - unat start) (drop (unat start) data)) else Panic
         else Ok [])"

definition Elf64_parse :: "ElfMachine \<Rightarrow> bytes \<Rightarrow> (Elf64, Elf64Error) outcome" where
  "Elf64_parse native data =
     (if length data < 64 then Err TooSmall
      else let header = header_of data
      in if take 4 (e_ident header) \<noteq> ELF_MAGIC then Err InvalidMagic
         else if e_ident header ! 4 \<noteq> 2 then Err Not64Bit
         else if e_ident header ! 5 \<noteq> 1 then Err UnsupportedEndian
         else if ElfMachine_from (e_machine header) \<noteq> native then Err UnsupportedMachine
         else if unat (e_shoff header + ucast (e_shnum header) * ucast (e_shentsize header)) > length data then Err InvalidSectionHeader
         else and_then (structs_at section_of 64 data (unat (e_shoff header)) (unat (e_shnum header))) (\<lambda>section_headers.
              and_then (if e_phoff header \<noteq> 0 \<and> e_phnum header \<noteq> 0
                        then if unat (e_phoff header + ucast (e_phnum header) * ucast (e_phentsize header)) > length data
                             then Err InvalidProgramHeader
                             else map_ok Some (structs_at program_of 56 data (unat (e_phoff header)) (unat (e_phnum header)))
                        else Ok None) (\<lambda>program_headers.
              and_then (if unat (e_shstrndx header) < unat (e_shnum header)
                        then let sh = section_headers ! unat (e_shstrndx header) in data_range data (sh_offset sh) (sh_size sh)
                        else Ok []) (\<lambda>shstrtab.
              Ok \<lparr>elf_data = data, elf_header = header, elf_sections = section_headers, elf_programs = program_headers, elf_shstrtab = shstrtab\<rparr>))))"

definition file_type :: "Elf64 \<Rightarrow> ElfType" where
  "file_type elf = ElfType_from (e_type (elf_header elf))"

definition entry_point :: "Elf64 \<Rightarrow> u64" where
  "entry_point elf = e_entry (elf_header elf)"

text \<open>\<open>core::str::from_utf8(bs).unwrap_or("")\<close> of the bytes up to the first zero.\<close>

fun valid_utf8 :: "nat list \<Rightarrow> bool" where
  "valid_utf8 [] = True"
| "valid_utf8 (b # bs) = (case utf8_chunk (b # bs) of (ok, n) \<Rightarrow> ok \<and> valid_utf8 (drop (n - 1) bs))"

definition str_or_empty :: "bytes \<Rightarrow> string" where
  "str_or_empty bs = (if valid_utf8 (map unat bs) then map (\<lambda>b. char_of (unat b)) bs else [])"

definition string_at :: "bytes \<Rightarrow> u32 \<Rightarrow> string" where
  "string_at strtab offset =
     (let start = unat offset
      in if start \<ge> length strtab then []
         else str_or_empty (takeWhile (\<lambda>b. b \<noteq> 0) (drop start strtab)))"

definition section_name :: "Elf64 \<Rightarrow> Elf64SectionHeader \<Rightarrow> string" where
  "section_name elf sh = string_at (elf_shstrtab elf) (sh_name sh)"

definition find_section :: "Elf64 \<Rightarrow> string \<Rightarrow> Elf64SectionHeader option" where
  "find_section elf name = find (\<lambda>sh. section_name elf sh = name) (elf_sections elf)"

definition section_data :: "Elf64 \<Rightarrow> Elf64SectionHeader \<Rightarrow> (bytes, 'e) outcome" where
  "section_data elf sh = (if sh_type sh = SHT_NOBITS then Ok [] else data_range (elf_data elf) (sh_offset sh) (sh_size sh))"

definition symbol_table :: "Elf64 \<Rightarrow> ((Elf64SectionHeader \<times> Elf64Symbol list) option, 'e) outcome" where
  "symbol_table elf =
     (case find (\<lambda>sh. sh_type sh = SHT_SYMTAB) (elf_sections elf) of
        None \<Rightarrow> Ok None
      | Some sh \<Rightarrow> and_then (section_data elf sh) (\<lambda>data.
          map_ok (\<lambda>symbols. Some (sh, symbols)) (structs_at symbol_of 24 data 0 (length data div 24))))"

definition symbol_name :: "Elf64 \<Rightarrow> Elf64Symbol \<Rightarrow> (string, 'e) outcome" where
  "symbol_name elf s =
     and_then (symbol_table elf) (\<lambda>table.
       case table of
         None \<Rightarrow> Ok []
       | Some (symtab_sh, _) \<Rightarrow>
           if unat (sh_link symtab_sh) < length (elf_sections elf)
           then and_then (section_data elf (elf_sections elf ! unat (sh_link symtab_sh))) (\<lambda>strtab. Ok (string_at strtab (st_name s)))
           else Ok [])"

fun find_named :: "Elf64 \<Rightarrow> string \<Rightarrow> Elf64Symbol list \<Rightarrow> (Elf64Symbol option, 'e) outcome" where
  "find_named elf name [] = Ok None"
| "find_named elf name (s # syms) = and_then (symbol_name elf s) (\<lambda>n. if n = name then Ok (Some s) else find_named elf name syms)"

definition find_symbol :: "Elf64 \<Rightarrow> string \<Rightarrow> (Elf64Symbol option, 'e) outcome" where
  "find_symbol elf name =
     and_then (symbol_table elf) (\<lambda>table. case table of None \<Rightarrow> Ok None | Some (_, symbols) \<Rightarrow> find_named elf name symbols)"

text \<open>The relocations of a section, \<open>None\<close> for a section of another type.\<close>

definition relocations :: "Elf64 \<Rightarrow> Elf64SectionHeader \<Rightarrow> (Elf64Rela list option, 'e) outcome" where
  "relocations elf sh =
     (if sh_type sh = SHT_RELA
      then and_then (section_data elf sh) (\<lambda>data. map_ok Some (structs_at rela_of 24 data 0 (length data div 24)))
      else Ok None)"

definition load_segments :: "Elf64 \<Rightarrow> Elf64ProgramHeader list" where
  "load_segments elf = (case elf_programs elf of None \<Rightarrow> [] | Some phs \<Rightarrow> filter (\<lambda>ph. p_type ph = PT_LOAD) phs)"

definition memory_size :: "Elf64 \<Rightarrow> u64" where
  "memory_size elf = fold (\<lambda>ph max_addr. let end' = p_vaddr ph + p_memsz ph in if end' > max_addr then end' else max_addr) (load_segments elf) 0"

definition align_up :: "u64 \<Rightarrow> u64 \<Rightarrow> u64" where
  "align_up x align = (x + align - 1) AND NOT (align - 1)"

definition section_memory_size :: "Elf64 \<Rightarrow> u64" where
  "section_memory_size elf =
     fold (\<lambda>sh total.
       if sh_flags sh AND SHF_ALLOC \<noteq> 0
       then let total = total + sh_size sh in if sh_addralign sh > 0 then align_up total (sh_addralign sh) else total
       else total) (elf_sections elf) 0"

section \<open>Files\<close>

text \<open>The bytes of the structures, and a file of a header, section headers and contents.\<close>

definition header_bytes :: "Elf64Header \<Rightarrow> bytes" where
  "header_bytes h = e_ident h @ u16_to_le_bytes (e_type h) @ u16_to_le_bytes (e_machine h) @ u32_to_le_bytes (e_version h) @
     u64_to_le_bytes (e_entry h) @ u64_to_le_bytes (e_phoff h) @ u64_to_le_bytes (e_shoff h) @ u32_to_le_bytes (e_flags h) @
     u16_to_le_bytes (e_ehsize h) @ u16_to_le_bytes (e_phentsize h) @ u16_to_le_bytes (e_phnum h) @ u16_to_le_bytes (e_shentsize h) @
     u16_to_le_bytes (e_shnum h) @ u16_to_le_bytes (e_shstrndx h)"

definition section_bytes :: "Elf64SectionHeader \<Rightarrow> bytes" where
  "section_bytes s = u32_to_le_bytes (sh_name s) @ u32_to_le_bytes (sh_type s) @ u64_to_le_bytes (sh_flags s) @ u64_to_le_bytes (sh_addr s) @
     u64_to_le_bytes (sh_offset s) @ u64_to_le_bytes (sh_size s) @ u32_to_le_bytes (sh_link s) @ u32_to_le_bytes (sh_info s) @
     u64_to_le_bytes (sh_addralign s) @ u64_to_le_bytes (sh_entsize s)"

definition elf_image :: "Elf64Header \<Rightarrow> Elf64SectionHeader list \<Rightarrow> bytes \<Rightarrow> bytes" where
  "elf_image h secs body = header_bytes h @ concat (map section_bytes secs) @ body"

lemma length_header_bytes [simp]: "length (e_ident h) = 16 \<Longrightarrow> length (header_bytes h) = 64"
  by (simp add: header_bytes_def)

lemma length_section_bytes [simp]: "length (section_bytes s) = 64"
  by (simp add: section_bytes_def)

lemma header_of_bytes: "length (e_ident h) = 16 \<Longrightarrow> header_of (header_bytes h @ rest) = h"
  by (simp add: header_of_def header_bytes_def fld_def)

lemma section_of_bytes: "section_of (section_bytes s) = s"
  by (simp add: section_of_def section_bytes_def fld_def)

lemma structs_at_image:
  assumes "length (e_ident h) = 16"
  shows "structs_at section_of 64 (elf_image h secs body) 64 (length secs) = Ok secs"
proof -
  have "take 64 (drop (64 + i * 64) (elf_image h secs body)) = section_bytes (secs ! i)" if "i < length secs" for i
  proof -
    have split: "secs = take i secs @ secs ! i # drop (Suc i) secs" using that by (simp add: id_take_nth_drop)
    have "concat (map section_bytes secs) = concat (map section_bytes (take i secs)) @ section_bytes (secs ! i) @ concat (map section_bytes (drop (Suc i) secs))"
      by (subst split) simp
    moreover have "length (concat (map section_bytes (take i secs))) = i * 64" using that by (simp add: length_concat comp_def sum_list_triv)
    ultimately show ?thesis using assms by (simp add: elf_image_def)
  qed
  then have "map (\<lambda>i. section_of (take 64 (drop (64 + i * 64) (elf_image h secs body)))) [0..<length secs] = map ((!) secs) [0..<length secs]"
    by (intro map_cong) (simp_all add: section_of_bytes)
  moreover have "length (concat (map section_bytes secs)) = length secs * 64" by (simp add: length_concat comp_def sum_list_triv)
  then have "64 + length secs * 64 \<le> length (elf_image h secs body)" using assms by (simp add: elf_image_def)
  ultimately show ?thesis by (simp add: structs_at_def map_nth)
qed

text \<open>
  Parsing reads back what is in a file. For a file that starts with a little-endian 64-bit header for this machine, followed by
  the section headers it counts, and has no program headers, the parser returns the header and exactly these section
  headers, and the name table is the part of the file its section describes.
\<close>

theorem elf_parse_image:
  assumes ident: "length (e_ident h) = 16" "take 4 (e_ident h) = ELF_MAGIC" "e_ident h ! 4 = 2" "e_ident h ! 5 = 1"
    and machine: "ElfMachine_from (e_machine h) = native" "e_phnum h = 0"
    and secs: "e_shoff h = 64" "unat (e_shnum h) = length secs" "e_shentsize h = 64" "unat (e_shstrndx h) < length secs"
    and names: "unat (sh_offset (secs ! unat (e_shstrndx h))) + unat (sh_size (secs ! unat (e_shstrndx h))) \<le> length (elf_image h secs body)"
      "length (elf_image h secs body) < 2 ^ 64"
  shows "Elf64_parse native (elf_image h secs body) =
    Ok \<lparr>elf_data = elf_image h secs body, elf_header = h, elf_sections = secs, elf_programs = None,
      elf_shstrtab = take (unat (sh_size (secs ! unat (e_shstrndx h)))) (drop (unat (sh_offset (secs ! unat (e_shstrndx h)))) (elf_image h secs body))\<rparr>"
proof -
  let ?data = "elf_image h secs body" and ?sh = "secs ! unat (e_shstrndx h)"
  have header: "header_of ?data = h" using header_of_bytes [OF ident(1)] by (simp add: elf_image_def)
  have len: "64 + length secs * 64 \<le> length ?data" using ident(1) by (simp add: elf_image_def length_concat comp_def sum_list_triv)
  have "unat (ucast (e_shnum h) :: u64) = length secs" using secs(2) by simp
  then have "unat (64 + ucast (e_shnum h) * 64 :: u64) = 64 + length secs * 64" using len names(2) by (simp add: unat_word_ariths)
  then have "unat (e_shoff h + ucast (e_shnum h) * ucast (e_shentsize h)) = 64 + length secs * 64" using secs by simp
  moreover have end': "unat (sh_offset ?sh + sh_size ?sh) = unat (sh_offset ?sh) + unat (sh_size ?sh)" using names by (simp add: unat_word_ariths)
  then have "(data_range ?data (sh_offset ?sh) (sh_size ?sh) :: (bytes, Elf64Error) outcome) = Ok (take (unat (sh_size ?sh)) (drop (unat (sh_offset ?sh)) ?data))"
    using names(1) by (simp add: data_range_def word_le_nat_alt)
  ultimately show ?thesis
    using header ident machine secs len by (simp add: Elf64_parse_def structs_at_image Let_def)
qed


definition demo_header :: Elf64Header where
  "demo_header = \<lparr>e_ident = ELF_MAGIC @ [2, 1, 1, 0] @ replicate 8 0, e_type = 1, e_machine = 243, e_version = 1, e_entry = 0, e_phoff = 0, e_shoff = 64, e_flags = 0,
     e_ehsize = 64, e_phentsize = 0, e_phnum = 0, e_shentsize = 64, e_shnum = 2, e_shstrndx = 1\<rparr>"

definition demo_sections :: "Elf64SectionHeader list" where
  "demo_sections =
     [\<lparr>sh_name = 0, sh_type = 0, sh_flags = 0, sh_addr = 0, sh_offset = 0, sh_size = 0, sh_link = 0, sh_info = 0, sh_addralign = 0, sh_entsize = 0\<rparr>,
      \<lparr>sh_name = 1, sh_type = 3, sh_flags = 0, sh_addr = 0, sh_offset = 192, sh_size = 7, sh_link = 0, sh_info = 0, sh_addralign = 1, sh_entsize = 0\<rparr>]"

theorem elf_parse_image_witness:
  "map_ok (\<lambda>elf. (elf_header elf, elf_sections elf)) (Elf64_parse EM_RiscV (elf_image demo_header demo_sections [0, 46, 115, 104, 115, 116, 114])) =
     Ok (demo_header, demo_sections)"
proof -
  have len: "length (elf_image demo_header demo_sections [0, 46, 115, 104, 115, 116, 114]) = 199"
    by (simp add: elf_image_def demo_header_def demo_sections_def ELF_MAGIC_def)
  have "length (e_ident demo_header) = 16" "take 4 (e_ident demo_header) = ELF_MAGIC" "e_ident demo_header ! 4 = 2" "e_ident demo_header ! 5 = 1"
    "ElfMachine_from (e_machine demo_header) = EM_RiscV" "e_phnum demo_header = 0" "e_shoff demo_header = 64" "unat (e_shnum demo_header) = length demo_sections"
    "e_shentsize demo_header = 64" "unat (e_shstrndx demo_header) < length demo_sections"
    by (simp_all add: demo_header_def demo_sections_def ELF_MAGIC_def ElfMachine_from_def)
  then show ?thesis by (subst elf_parse_image) (simp_all add: len, simp_all add: demo_header_def demo_sections_def)
qed


section \<open>Reads stay in the file\<close>

text \<open>
  Tables that are there have entries of the size the code reads, and positions do not wrap. Object files have no program headers; the size of
  an entry of a table without entries does not matter.
\<close>

definition elf_sane :: "bytes \<Rightarrow> bool" where
  "elf_sane data \<longleftrightarrow> (let h = header_of data in
     (e_shnum h \<noteq> 0 \<longrightarrow> 64 \<le> e_shentsize h \<and> e_shoff h < 2 ^ 63) \<and> (e_phoff h \<noteq> 0 \<and> e_phnum h \<noteq> 0 \<longrightarrow> 56 \<le> e_phentsize h \<and> e_phoff h < 2 ^ 63) \<and>
     (\<forall>i < unat (e_shnum h). let sh = section_of (take 64 (drop (unat (e_shoff h) + i * 64) data)) in unat (sh_offset sh) + unat (sh_size sh) < 2 ^ 64))"

lemma structs_at_ok: "off + count * n \<le> length data \<Longrightarrow> structs_at dec n data off count \<noteq> Panic"
  by (simp add: structs_at_def)

lemma data_range_ok: "unat start + unat sz < 2 ^ 64 \<Longrightarrow> data_range data start sz \<noteq> Panic"
  by (simp add: data_range_def Let_def word_le_nat_alt unat_word_ariths)

lemma table_in_file:
  fixes off :: u64 and n sz :: u16
  assumes "unat (off + ucast n * ucast sz) \<le> len" "off < 2 ^ 63" "k \<le> unat sz"
  shows "unat off + unat n * k \<le> len"
proof -
  have n: "unat n < 2 ^ 16" "unat sz < 2 ^ 16" using unat_less_exp [of n] unat_less_exp [of sz] by simp_all
  then have "unat n * unat sz < 2 ^ 32" using mult_strict_mono [of "unat n" "2 ^ 16" "unat sz" "2 ^ 16"] by simp
  moreover have "unat off < 2 ^ 63" using assms(2) by (simp add: word_less_nat_alt)
  ultimately have "unat (off + ucast n * ucast sz) = unat off + unat n * unat sz" by (simp add: unat_word_ariths)
  moreover have "unat n * k \<le> unat n * unat sz" using assms(3) by (rule mult_le_mono2)
  ultimately show ?thesis using assms(1) by linarith
qed

lemma parse_Ok:
  assumes "Elf64_parse native data = Ok elf"
  shows "elf_data elf = data" "elf_header elf = header_of data"
    "elf_sections elf = map (\<lambda>i. section_of (take 64 (drop (unat (e_shoff (header_of data)) + i * 64) data))) [0..<unat (e_shnum (header_of data))]"
  using assms by (auto simp: Elf64_parse_def structs_at_def Let_def split: if_splits)

lemma and_then_Panic_iff [simp]: "and_then m f = Panic \<longleftrightarrow> m = Panic \<or> (\<exists>x. m = Ok x \<and> f x = Panic)"
  by (cases m) auto

lemma map_ok_Panic_iff [simp]: "map_ok f m = Panic \<longleftrightarrow> m = Panic"
  by (cases m) auto

lemma section_data_ok: "unat (sh_offset sh) + unat (sh_size sh) < 2 ^ 64 \<Longrightarrow> section_data elf sh \<noteq> Panic"
  by (simp add: section_data_def data_range_ok)

definition sections_sane :: "Elf64 \<Rightarrow> bool" where
  "sections_sane elf \<longleftrightarrow> (\<forall>sh \<in> set (elf_sections elf). unat (sh_offset sh) + unat (sh_size sh) < 2 ^ 64)"

lemma symbol_table_ok:
  assumes "sections_sane elf"
  shows "symbol_table elf \<noteq> Panic"
proof (cases "find (\<lambda>sh. sh_type sh = SHT_SYMTAB) (elf_sections elf)")
  case (Some sh)
  then have "sh \<in> set (elf_sections elf)" by (auto simp: find_Some_iff)
  then have "section_data elf sh \<noteq> Panic" using assms by (intro section_data_ok) (auto simp: sections_sane_def)
  then show ?thesis using Some by (auto simp: symbol_table_def structs_at_ok)
qed (simp add: symbol_table_def)

lemma symbol_name_ok:
  assumes "sections_sane elf"
  shows "symbol_name elf s \<noteq> Panic"
  using assms symbol_table_ok [OF assms] by (auto simp: symbol_name_def sections_sane_def section_data_ok split: option.splits)

lemma find_named_ok: "sections_sane elf \<Longrightarrow> find_named elf name syms \<noteq> Panic"
  by (induction syms) (auto simp: symbol_name_ok)

lemma find_symbol_ok: "sections_sane elf \<Longrightarrow> find_symbol elf name \<noteq> Panic"
  by (auto simp: find_symbol_def symbol_table_ok find_named_ok split: option.splits)

lemma section_data_sane: "sections_sane elf \<Longrightarrow> sh \<in> set (elf_sections elf) \<Longrightarrow> section_data elf sh \<noteq> Panic"
  by (simp add: sections_sane_def section_data_ok)

lemma relocations_ok: "sections_sane elf \<Longrightarrow> sh \<in> set (elf_sections elf) \<Longrightarrow> relocations elf sh \<noteq> Panic"
  by (auto simp: relocations_def section_data_sane structs_at_ok)

lemma parse_sane: "elf_sane data \<Longrightarrow> Elf64_parse native data = Ok elf \<Longrightarrow> sections_sane elf"
  using parse_Ok(3) by (auto simp: elf_sane_def sections_sane_def Let_def)

lemma parse_no_panic:
  assumes sane: "elf_sane data"
  shows "Elf64_parse native data \<noteq> Panic"
proof
  assume panic: "Elf64_parse native data = Panic"
  let ?h = "header_of data"
  let ?secs = "map (\<lambda>i. section_of (take 64 (drop (unat (e_shoff ?h) + i * 64) data))) [0..<unat (e_shnum ?h)]"
  have S: "unat (e_shoff ?h + ucast (e_shnum ?h) * ucast (e_shentsize ?h)) \<le> length data \<Longrightarrow> unat (e_shoff ?h) + unat (e_shnum ?h) * 64 \<le> length data"
    using sane table_in_file [of "e_shoff ?h" "e_shnum ?h" "e_shentsize ?h" "length data" 64]
    by (cases "e_shnum ?h = 0") (auto simp: elf_sane_def Let_def word_le_nat_alt)
  have P: "e_phoff ?h \<noteq> 0 \<Longrightarrow> e_phnum ?h \<noteq> 0 \<Longrightarrow> unat (e_phoff ?h + ucast (e_phnum ?h) * ucast (e_phentsize ?h)) \<le> length data \<Longrightarrow>
      unat (e_phoff ?h) + unat (e_phnum ?h) * 56 \<le> length data"
    using sane by (intro table_in_file) (auto simp: elf_sane_def Let_def word_le_nat_alt)
  have names: "(data_range data (sh_offset (?secs ! i)) (sh_size (?secs ! i)) :: (bytes, Elf64Error) outcome) \<noteq> Panic" if "i < unat (e_shnum ?h)" for i
    using sane that by (intro data_range_ok) (auto simp: elf_sane_def Let_def)
  show False using panic S P names by (auto simp: Elf64_parse_def structs_at_def Let_def split: if_splits)
qed

text \<open>
  C24. No read outside the file. When the section table, and the program header table where the parser reads it, have entries of at least the size of
  the structures, and no position wraps around, parsing a file, whatever else it contains, reads nothing outside it, and neither does looking
  at its sections, symbols, symbol names and relocations.
\<close>

theorem elf_reads_in_file:
  assumes "elf_sane data"
  shows "case Elf64_parse native data of
      Ok elf \<Rightarrow> find_symbol elf name \<noteq> Panic \<and> symbol_table elf \<noteq> Panic \<and> (\<forall>s. symbol_name elf s \<noteq> (Panic :: (_, 'e) outcome)) \<and>
        (\<forall>sh. sh \<in> set (elf_sections elf) \<longrightarrow> section_data elf sh \<noteq> Panic \<and> relocations elf sh \<noteq> Panic)
    | Err e \<Rightarrow> True
    | Panic \<Rightarrow> False"
proof (cases "Elf64_parse native data")
  case (Ok elf)
  then have sane: "sections_sane elf" by (rule parse_sane [OF assms])
  then show ?thesis using Ok by (simp add: find_symbol_ok symbol_table_ok symbol_name_ok section_data_sane relocations_ok)
next
  case Panic
  then show ?thesis using parse_no_panic [OF assms] by blast
qed simp

text \<open>An object file with a string table, a symbol table and relocations.\<close>

lemma elf_sane_image:
  assumes "length (e_ident h) = 16" "e_shoff h = 64" "unat (e_shnum h) = length secs" "e_shentsize h = 64" "e_phnum h = 0"
    "\<forall>sh \<in> set secs. unat (sh_offset sh) + unat (sh_size sh) < 2 ^ 64"
  shows "elf_sane (elf_image h secs body)"
proof -
  let ?data = "elf_image h secs body"
  have header: "header_of ?data = h" using header_of_bytes [OF assms(1)] by (simp add: elf_image_def)
  have "map (\<lambda>i. section_of (take 64 (drop (64 + i * 64) ?data))) [0..<length secs] = secs"
    using structs_at_image [OF assms(1), of secs body, where 'a = unit] by (simp add: structs_at_def split: if_splits)
  then have "section_of (take 64 (drop (64 + i * 64) ?data)) = secs ! i" if "i < length secs" for i
    using that by (metis (no_types, lifting) add_0 diff_zero length_upt nth_map nth_upt)
  then show ?thesis using assms unfolding elf_sane_def header by simp
qed

definition file_header :: Elf64Header where
  "file_header = demo_header\<lparr>e_shnum := 4\<rparr>"

definition file_sections :: "Elf64SectionHeader list" where
  "file_sections = demo_sections[1 := (demo_sections ! 1)\<lparr>sh_offset := 320, sh_size := 5\<rparr>] @
     [(demo_sections ! 1)\<lparr>sh_type := SHT_SYMTAB, sh_offset := 325, sh_size := 48, sh_link := 1\<rparr>,
      (demo_sections ! 1)\<lparr>sh_type := SHT_RELA, sh_offset := 373, sh_size := 24, sh_link := 2\<rparr>]"

definition file_body :: bytes where
  "file_body = [0, 102, 111, 111, 0] @ replicate 24 0 @ [1, 0, 0, 0, 18, 0, 1, 0, 64, 0, 0, 0, 0, 0, 0, 0, 4, 0, 0, 0, 0, 0, 0, 0] @
     [8, 0, 0, 0, 0, 0, 0, 0, 18, 0, 0, 0, 1, 0, 0, 0, 0, 0, 0, 0, 0, 0, 0, 0]"

theorem elf_reads_in_file_witness:
  "\<exists>elf s rela. Elf64_parse EM_RiscV (elf_image file_header file_sections file_body) = Ok elf \<and> elf_sections elf = file_sections \<and>
     find_symbol elf ''foo'' = (Ok (Some s) :: (_, unit) outcome) \<and> st_value s = 64 \<and>
     relocations elf (file_sections ! 3) = (Ok (Some [rela]) :: (_, unit) outcome) \<and> r_offset rela = 8 \<and>
     symbol_name elf s \<noteq> (Panic :: (_, unit) outcome)"
proof -
  let ?data = "elf_image file_header file_sections file_body"
  have ident: "length (e_ident file_header) = 16" by (simp add: file_header_def demo_header_def ELF_MAGIC_def)
  have secs: "length file_sections = 4" by (simp add: file_sections_def demo_sections_def)
  have "length (concat (map section_bytes file_sections)) = 256" using secs by (simp add: length_concat comp_def sum_list_triv)
  then have body: "drop (320 + k) ?data = drop k file_body" "length ?data = 397" for k using ident by (simp_all add: elf_image_def file_body_def)
  have sane: "elf_sane ?data"
    by (rule elf_sane_image [OF ident]) (auto simp: secs file_header_def demo_header_def file_sections_def demo_sections_def)
  obtain elf where elf: "Elf64_parse EM_RiscV ?data = Ok elf" "elf_data elf = ?data" "elf_sections elf = file_sections"
  proof -
    have "sh_offset (file_sections ! 1) = 320" "sh_size (file_sections ! 1) = 5" by (simp_all add: file_sections_def demo_sections_def)
    then show ?thesis using that
      by (subst (asm) elf_parse_image) (use body(2) secs in \<open>auto simp: file_header_def demo_header_def ELF_MAGIC_def ElfMachine_from_def\<close>)
  qed
  have str: "section_data elf (file_sections ! 1) = (Ok [0, 102, 111, 111, 0] :: (_, unit) outcome)"
    using body(1) [of 0] body(2) elf(2) by (simp add: section_data_def data_range_def file_sections_def demo_sections_def SHT_NOBITS_def file_body_def word_le_nat_alt)
  have sym: "section_data elf (file_sections ! 2) = (Ok (take 48 (drop 5 file_body)) :: (_, unit) outcome)"
    using body(1) [of 5] body(2) elf(2) by (simp add: section_data_def data_range_def file_sections_def demo_sections_def SHT_NOBITS_def SHT_SYMTAB_def word_le_nat_alt)
  have rel: "section_data elf (file_sections ! 3) = (Ok (drop 53 file_body) :: (_, unit) outcome)"
    using body(1) [of 53] body(2) elf(2) by (simp add: section_data_def data_range_def file_sections_def demo_sections_def SHT_NOBITS_def SHT_RELA_def file_body_def word_le_nat_alt)
  have table: "find (\<lambda>sh. sh_type sh = SHT_SYMTAB) file_sections = Some (file_sections ! 2)" "sh_link (file_sections ! 2) = 1" "sh_type (file_sections ! 3) = SHT_RELA"
    by (simp_all add: file_sections_def demo_sections_def SHT_SYMTAB_def SHT_RELA_def)
  let ?null = "symbol_of (replicate 24 0)" and ?foo = "symbol_of (take 24 (drop 29 file_body))"
  have symbols: "symbol_table elf = (Ok (Some (file_sections ! 2, [?null, ?foo])) :: (_, unit) outcome)"
    using table sym elf(3) by (simp add: symbol_table_def structs_at_def file_body_def upt_rec [of 0 2] upt_rec [of "Suc 0" 2])
  have "((*) (256 :: nat) ^^ k) 0 = 0" for k by (induction k) simp_all
  then have names: "st_name ?null = 0" "st_name ?foo = 1" "st_value ?foo = 64"
    by (simp_all add: symbol_of_def fld_def le_nat_def file_body_def)
  have "string_at [0, 102, 111, 111, 0] 0 = []" "string_at [0, 102, 111, 111, 0] 1 = ''foo''"
    by (simp_all add: string_at_def str_or_empty_def utf8_chunk_def char_of_def bit_0)
  then have "find_symbol elf ''foo'' = (Ok (Some ?foo) :: (_, unit) outcome)"
    using symbols str table(2) elf(3) secs names by (simp add: find_symbol_def symbol_name_def)
  moreover have "relocations elf (file_sections ! 3) = (Ok (Some [rela_of (drop 53 file_body)]) :: (_, unit) outcome)" "r_offset (rela_of (drop 53 file_body)) = 8"
    using rel table(3) by (simp_all add: relocations_def structs_at_def file_body_def rela_of_def fld_def le_nat_def)
  moreover have "symbol_name elf ?foo \<noteq> (Panic :: (_, unit) outcome)"
    using elf_reads_in_file [OF sane, where native = EM_RiscV and name = "''foo''" and 'e = unit] unfolding elf(1) outcome.case by blast
  ultimately show ?thesis using elf(1,3) names(3) by blast
qed

text \<open>
  The check of the section table trusts the entry size in the file. A file of 64 bytes whose header says that there is one section
  header of size 0 passes all checks, and the parser reads 64 bytes behind the end of the file.
\<close>

theorem elf_entry_size_unchecked:
  "let data = header_bytes (demo_header\<lparr>e_shnum := 1, e_shentsize := 0, e_shstrndx := 0\<rparr>)
   in length data = 64 \<and> Elf64_parse EM_RiscV data = Panic"
proof -
  let ?h = "demo_header\<lparr>e_shnum := 1, e_shentsize := 0, e_shstrndx := 0\<rparr>"
  have ident: "length (e_ident ?h) = 16" by (simp add: demo_header_def ELF_MAGIC_def)
  have header: "header_of (header_bytes ?h) = ?h" using header_of_bytes [OF ident, of "[]"] by simp
  show ?thesis unfolding Let_def Elf64_parse_def header length_header_bytes [OF ident]
    by (simp add: demo_header_def ELF_MAGIC_def ElfMachine_from_def structs_at_def header_bytes_def)
qed

end
