(* ===== verification/Kernel_Sym.thy ===== *)
theory Kernel_Sym
  imports Memory
begin

text \<open>
  The kernel's symbol table and the memory functions it offers to modules, \<open>src/module/symbol.rs\<close>. The table is \<open>None\<close> before the first
  use; the addresses of the kernel functions it starts with are a parameter. The flag that says that
  the table is initialised is set when the table is; the lock is not modelled, calls are atomic.
\<close>

section \<open>The symbol table\<close>

type_synonym symtab = "(string \<times> u64) list option"

text \<open>\<open>addr_of\<close> gives the addresses of the functions that \<open>init\<close> pushes, \<open>test_symbols\<close> is what \<open>register_test_symbols\<close> adds after that.\<close>

definition put_symbol :: "string \<Rightarrow> u64 \<Rightarrow> (string \<times> u64) list \<Rightarrow> (string \<times> u64) list" where
  "put_symbol name address xs =
     (case position (\<lambda>(n, _). n = name) xs of
        Some pos \<Rightarrow> xs[pos := (name, address)]
      | None \<Rightarrow> xs @ [(name, address)])"

definition symbol_init :: "(string \<Rightarrow> u64) \<Rightarrow> (string \<times> u64) list \<Rightarrow> symtab \<Rightarrow> symtab" where
  "symbol_init addr_of test_symbols t =
     (case t of
        Some xs \<Rightarrow> Some xs
      | None \<Rightarrow> Some (fold (\<lambda>(n, a). put_symbol n a) test_symbols
          (map (\<lambda>n. (n, addr_of n))
             [''console_puts'', ''console_putc'', ''yield_now'', ''current_tid'', ''kernel_print'', ''memset'', ''memcpy'', ''memmove''])))"

definition lookup_symbol :: "(string \<Rightarrow> u64) \<Rightarrow> (string \<times> u64) list \<Rightarrow> string \<Rightarrow> symtab \<Rightarrow> u64 option \<times> symtab" where
  "lookup_symbol addr_of test_symbols name t =
     (let t = symbol_init addr_of test_symbols t
      in (case t of Some xs \<Rightarrow> map_option snd (find (\<lambda>(n, _). n = name) xs) | None \<Rightarrow> None, t))"

definition register_symbol :: "(string \<Rightarrow> u64) \<Rightarrow> (string \<times> u64) list \<Rightarrow> string \<Rightarrow> u64 \<Rightarrow> symtab \<Rightarrow> symtab" where
  "register_symbol addr_of test_symbols name address t = map_option (put_symbol name address) (symbol_init addr_of test_symbols t)"

definition unregister_symbol :: "string \<Rightarrow> symtab \<Rightarrow> bool \<times> symtab" where
  "unregister_symbol name t =
     (case t of
        None \<Rightarrow> (False, None)
      | Some xs \<Rightarrow>
          case position (\<lambda>(n, _). n = name) xs of
            Some pos \<Rightarrow> (True, Some (vec_remove pos xs))
          | None \<Rightarrow> (False, Some xs))"

definition list_symbols :: "(string \<Rightarrow> u64) \<Rightarrow> (string \<times> u64) list \<Rightarrow> symtab \<Rightarrow> (string \<times> u64) list \<times> symtab" where
  "list_symbols addr_of test_symbols t = (let t = symbol_init addr_of test_symbols t in (case t of Some xs \<Rightarrow> xs | None \<Rightarrow> [], t))"

definition symbol_count :: "(string \<Rightarrow> u64) \<Rightarrow> (string \<times> u64) list \<Rightarrow> symtab \<Rightarrow> nat \<times> symtab" where
  "symbol_count addr_of test_symbols t =
     (let t = symbol_init addr_of test_symbols t in (case t of Some xs \<Rightarrow> length xs | None \<Rightarrow> 0, t))"


section \<open>Memory functions\<close>

definition memset :: "u64 \<Rightarrow> u32 \<Rightarrow> nat \<Rightarrow> memory \<Rightarrow> memory" where
  "memset dest val count = fold (\<lambda>i mem. mem(dest + of_nat i := ucast val)) [0..<count]"

definition copy_byte :: "u64 \<Rightarrow> u64 \<Rightarrow> nat \<Rightarrow> memory \<Rightarrow> memory" where
  "copy_byte dest src i mem = mem(dest + of_nat i := mem (src + of_nat i))"

definition memcpy :: "u64 \<Rightarrow> u64 \<Rightarrow> nat \<Rightarrow> memory \<Rightarrow> memory" where
  "memcpy dest src count = fold (copy_byte dest src) [0..<count]"

definition memmove :: "u64 \<Rightarrow> u64 \<Rightarrow> nat \<Rightarrow> memory \<Rightarrow> memory" where
  "memmove dest src count =
     (if dest \<le> src then fold (copy_byte dest src) [0..<count]
      else fold (copy_byte dest src) (rev [0..<count]))"


section \<open>Properties\<close>

text \<open>The table holds every name once, and is a map.\<close>

definition table_of :: "symtab \<Rightarrow> string \<rightharpoonup> u64" where
  "table_of t = (case t of None \<Rightarrow> Map.empty | Some xs \<Rightarrow> map_of xs)"

definition table_ok :: "symtab \<Rightarrow> bool" where
  "table_ok t \<longleftrightarrow> (case t of None \<Rightarrow> True | Some xs \<Rightarrow> distinct (map fst xs))"

lemma put_symbol_simps [simp]:
  "put_symbol name a [] = [(name, a)]"
  "put_symbol name a ((n, v) # xs) = (if n = name then (name, a) # xs else (n, v) # put_symbol name a xs)"
  by (auto simp: put_symbol_def split: option.splits)

lemma put_symbol_map: "map_of (put_symbol name a xs) = (map_of xs)(name \<mapsto> a)"
  by (induction xs) auto

lemma put_symbol_names: "fst ` set (put_symbol name a xs) = insert name (fst ` set xs)"
proof (induction xs)
  case (Cons x xs)
  then show ?case by (cases x) (simp add: insert_commute)
qed simp

lemma put_symbol_distinct: "distinct (map fst xs) \<Longrightarrow> distinct (map fst (put_symbol name a xs))"
proof (induction xs)
  case (Cons x xs)
  then show ?case using put_symbol_names [of name a xs] by (cases x) auto
qed simp

lemma put_symbols_distinct: "distinct (map fst xs) \<Longrightarrow> distinct (map fst (fold (\<lambda>(n, a). put_symbol n a) ys xs))"
  by (induction ys arbitrary: xs) (auto simp: put_symbol_distinct)

lemma table_ok_init: "table_ok t \<Longrightarrow> table_ok (symbol_init addr_of tests t)"
  by (auto simp: table_ok_def symbol_init_def comp_def intro!: put_symbols_distinct split: option.splits)

lemma remove_symbol:
  assumes "distinct (map fst xs)" "position (\<lambda>(n, _). n = name) xs = Some pos"
  shows "distinct (map fst (vec_remove pos xs))" "map_of (vec_remove pos xs) = (map_of xs)(name := None)"
proof -
  show "distinct (map fst (vec_remove pos xs))" using assms(1) by (simp add: map_vec_remove distinct_vec_remove)
  show "map_of (vec_remove pos xs) = (map_of xs)(name := None)"
    using assms
  proof (induction xs arbitrary: pos)
    case (Cons x xs)
    obtain n v where x: "x = (n, v)" by (cases x)
    show ?case
    proof (cases "n = name")
      case True
      then have "pos = 0" "map_of xs name = None" using Cons.prems x by (auto simp: map_of_eq_None_iff)
      then show ?thesis using True x by (auto simp: vec_remove_def fun_upd_idem)
    next
      case False
      then obtain p where p: "pos = Suc p" "position (\<lambda>(n, _). n = name) xs = Some p" using Cons.prems(2) x by (auto split: option.splits)
      then show ?thesis using Cons.IH [OF _ p(2)] Cons.prems(1) False x by (auto simp: vec_remove_def fun_upd_twist)
    qed
  qed simp
qed

text \<open>Every operation on the table is the operation on the map.\<close>

lemma lookup_symbol_map: "fst (lookup_symbol addr_of tests name t) = table_of (symbol_init addr_of tests t) name"
  by (simp add: lookup_symbol_def table_of_def Let_def find_map_of split: option.splits)

lemma register_symbol_map:
  assumes "table_ok t"
  shows "table_of (register_symbol addr_of tests name a t) = (table_of (symbol_init addr_of tests t))(name \<mapsto> a)"
    "table_ok (register_symbol addr_of tests name a t)"
  using table_ok_init [OF assms, of addr_of tests]
  by (auto simp: register_symbol_def table_of_def table_ok_def symbol_init_def put_symbol_map put_symbol_distinct split: option.splits)

lemma unregister_symbol_map:
  assumes "table_ok t"
  shows "table_of (snd (unregister_symbol name t)) = (table_of t)(name := None)" "table_ok (snd (unregister_symbol name t))"
    "fst (unregister_symbol name t) \<longleftrightarrow> table_of t name \<noteq> None"
proof -
  have pos: "position (\<lambda>(n, _). n = name) xs = None \<longleftrightarrow> map_of xs name = None" for xs :: "(string \<times> u64) list"
    by (induction xs) auto
  have "table_of (snd (unregister_symbol name t)) = (table_of t)(name := None) \<and> table_ok (snd (unregister_symbol name t)) \<and>
    (fst (unregister_symbol name t) \<longleftrightarrow> table_of t name \<noteq> None)"
  proof (cases t)
    case (Some xs)
    show ?thesis
    proof (cases "position (\<lambda>(n, _). n = name) xs")
      case None
      then show ?thesis using assms Some pos [of xs] by (simp add: unregister_symbol_def table_of_def table_ok_def fun_upd_idem)
    next
      case pos': (Some p)
      have "distinct (map fst xs)" using assms Some by (simp add: table_ok_def)
      then show ?thesis using remove_symbol [OF _ pos'] Some pos [of xs] pos' by (simp add: unregister_symbol_def table_of_def table_ok_def)
    qed
  qed (simp add: unregister_symbol_def table_of_def table_ok_def)
  then show "table_of (snd (unregister_symbol name t)) = (table_of t)(name := None)" "table_ok (snd (unregister_symbol name t))"
    "fst (unregister_symbol name t) \<longleftrightarrow> table_of t name \<noteq> None" by blast+
qed

text \<open>Copying forwards and backwards.\<close>

lemma mem_write_read: "mem_write d (mem_read s n mem) m x = (if unat (x - d) < n then mem (s + (x - d)) else m x)"
  by (simp add: mem_write_def mem_read_def)

lemma copy_forward:
  assumes "\<And>i. i < n \<Longrightarrow> i \<le> unat (src - dest + of_nat i)" "n \<le> 2 ^ 64"
  shows "fold (copy_byte dest src) [0..<n] mem = mem_write dest (mem_read src n mem) mem"
  using assms
proof (induction n)
  case (Suc n)
  let ?m = "mem_write dest (mem_read src n mem) mem"
  have n: "unat (of_nat n :: u64) = n" using Suc.prems(2) by (intro unat_of_nat_small) simp
  have "fold (copy_byte dest src) [0..<n] mem = ?m" using Suc by simp
  then have "fold (copy_byte dest src) [0..<Suc n] mem = copy_byte dest src n ?m" by simp
  also have "\<dots> = mem_write dest (mem_read src (Suc n) mem) mem"
  proof
    fix x
    have src: "?m (src + of_nat n) = mem (src + of_nat n)" using Suc.prems(1) [of n] by (simp add: mem_write_def diff_add_eq)
    show "copy_byte dest src n ?m x = mem_write dest (mem_read src (Suc n) mem) mem x"
    proof (cases "x = dest + of_nat n")
      case True
      then show ?thesis using src n by (simp add: copy_byte_def mem_write_read [of dest src "Suc n"])
    next
      case False
      then have "unat (x - dest) \<noteq> n" using n by (metis add.commute diff_add_cancel word_unat_eq_iff)
      then show ?thesis using False by (simp add: copy_byte_def mem_write_read less_Suc_eq)
    qed
  qed
  finally show ?case .
qed (simp add: mem_write_def mem_read_def fun_eq_iff)

lemma copy_backward:
  assumes "\<And>i. i < n \<Longrightarrow> \<not> (i < unat (src - dest + of_nat i) \<and> unat (src - dest + of_nat i) < n)" "n \<le> 2 ^ 64"
  shows "fold (copy_byte dest src) (rev [0..<n]) mem = mem_write dest (mem_read src n mem) mem"
proof -
  have "fold (copy_byte dest src) (rev [k..<n]) mem x = (if k \<le> unat (x - dest) \<and> unat (x - dest) < n then mem (src + (x - dest)) else mem x)"
    if "k \<le> n" for k x
    using that
  proof (induction "n - k" arbitrary: k x)
    case (Suc m)
    let ?m = "fold (copy_byte dest src) (rev [Suc k..<n]) mem"
    have k: "k < n" "unat (of_nat k :: u64) = k" using Suc.hyps(2) Suc.prems assms(2) by (auto intro!: unat_of_nat_small)
    have IH: "?m y = (if Suc k \<le> unat (y - dest) \<and> unat (y - dest) < n then mem (src + (y - dest)) else mem y)" for y
      using Suc.hyps by (intro Suc.hyps(1)) auto
    have src: "?m (src + of_nat k) = mem (src + of_nat k)" using assms(1) [OF k(1)] by (auto simp: IH diff_add_eq Suc_le_eq)
    have "rev [k..<n] = rev [Suc k..<n] @ [k]" using k(1) by (simp add: upt_conv_Cons)
    then have step: "fold (copy_byte dest src) (rev [k..<n]) mem x = copy_byte dest src k ?m x" by simp
    show ?case
    proof (cases "x = dest + of_nat k")
      case True
      then show ?thesis unfolding step using src k by (simp add: copy_byte_def)
    next
      case False
      then have "unat (x - dest) \<noteq> k" using k(2) by (metis add.commute diff_add_cancel word_unat_eq_iff)
      then show ?thesis unfolding step using False by (auto simp: copy_byte_def IH)
    qed
  qed auto
  from this [of 0] show ?thesis by (auto simp: fun_eq_iff mem_write_read)
qed

text \<open>
  C93. \<open>memmove\<close> copies. For every source and destination that do not wrap around the end of memory, overlapping or not, the
  destination holds the bytes the source had before, and no other byte changes. \<open>memcpy\<close> does the same when the
  runs do not overlap, or the destination lies below the source.
\<close>

theorem memmove_copies:
  assumes "unat dest + n \<le> 2 ^ 64" "unat src + n \<le> 2 ^ 64"
  shows "memmove dest src n mem = mem_write dest (mem_read src n mem) mem \<and>
    (dest \<le> src \<or> unat src + n \<le> unat dest \<longrightarrow> memcpy dest src n mem = mem_write dest (mem_read src n mem) mem)"
proof -
  have n: "n \<le> 2 ^ 64" using assms(1) by simp
  have off: "unat (of_nat i :: u64) = i" if "i < n" for i using that n by (intro unat_of_nat_small) simp
  have up: "i \<le> unat (src - dest + of_nat i)" if "i < n" "dest \<le> src" for i
  proof -
    have "unat (src - dest) + i < 2 ^ 64" using that assms(2) by (simp add: unat_sub word_le_nat_alt)
    then show ?thesis using off [OF that(1)] by (simp add: unat_word_ariths)
  qed
  have down: "unat (src - dest + of_nat i) = (if unat dest \<le> unat src + i then unat src + i - unat dest else unat src + i + 2 ^ 64 - unat dest)" if "i < n" for i
  proof -
    have eq: "src - dest + of_nat i = src + of_nat i - dest" by simp
    have "unat (src + of_nat i) = unat src + i" using unat_off [OF assms(2) that] .
    then show ?thesis unfolding eq using unat_sub_if' [of "src + of_nat i" dest] by simp
  qed
  have forward: "fold (copy_byte dest src) [0..<n] mem = mem_write dest (mem_read src n mem) mem" if "dest \<le> src \<or> unat src + n \<le> unat dest"
    using that assms down up by (intro copy_forward [OF _ n]) (auto simp: word_le_nat_alt)
  moreover have "fold (copy_byte dest src) (rev [0..<n]) mem = mem_write dest (mem_read src n mem) mem" if "\<not> dest \<le> src"
    using that assms down by (intro copy_backward [OF _ n]) (auto simp: word_le_nat_alt)
  ultimately show ?thesis by (simp add: memmove_def memcpy_def)
qed

theorem memmove_copies_witness:
  "memmove 2 0 4 (\<lambda>a. ucast a) 5 = 3 \<and> memmove 2 0 4 (\<lambda>a. ucast a) 7 = 7 \<and> memcpy 2 0 4 (\<lambda>a. ucast a) 5 = 1"
proof -
  have "memmove 2 0 4 (\<lambda>a. ucast a) = mem_write 2 (mem_read 0 4 (\<lambda>a. ucast a)) (\<lambda>a. ucast a)" using memmove_copies [of 2 4 0] by simp
  then show ?thesis by (simp add: mem_write_def mem_read_def memcpy_def copy_byte_def upt_rec)
qed

lemma memset_sets:
  assumes "n \<le> 2 ^ 64"
  shows "memset dest v n mem = mem_write dest (replicate n (ucast v)) mem"
  using assms
proof (induction n)
  case (Suc n)
  have n: "unat (of_nat n :: u64) = n" using Suc.prems by (intro unat_of_nat_small) simp
  have "unat (x - dest) = n \<longleftrightarrow> x = dest + of_nat n" for x using n by (metis add.commute diff_add_cancel add_diff_cancel_left' word_unat_eq_iff)
  then show ?case using Suc by (auto simp: memset_def mem_write_def fun_eq_iff less_Suc_eq nth_append simp del: replicate_Suc)
qed (simp add: memset_def mem_write_def fun_eq_iff)

end
