(* ===== verification/Reloc.thy ===== *)
theory Reloc
  imports Elf Kernel_Sym Frame_Alloc
begin

text \<open>
  Relocation of modules, the first half of \<open>src/module/loader.rs\<close>: procedure linkage tables and the relocation types of both
  architectures. Addresses, addends and offsets are 64-bit words; where the code computes with \<open>i64\<close> and \<open>i32\<close>, comparisons and
  right shifts are signed and conversions truncate.
\<close>

section \<open>Errors\<close>

datatype ModuleError =
    ElfError Elf64Error | OutOfMemory | SymbolNotFound | UnsupportedRelocation u32 | InitFailed u32 | InUse | AlreadyLoaded | ModNotFound | InvalidFormat
  | ModuleUnloading


section \<open>Procedure linkage tables\<close>

definition PLT_ENTRY_SIZE :: nat where "PLT_ENTRY_SIZE = 16"
definition MAX_PLT_ENTRIES :: nat where "MAX_PLT_ENTRIES = PAGE_SIZE div PLT_ENTRY_SIZE"

record PltTable =
  plt_base :: u64
  plt_count :: nat
  plt_entries :: "(u64 \<times> u64) list"

definition PltTable_new :: "u64 \<Rightarrow> PltTable" where
  "PltTable_new base = \<lparr>plt_base = base, plt_count = 0, plt_entries = []\<rparr>"

text \<open>The stub of either architecture.\<close>

definition create_stub_aarch64 :: "u64 \<Rightarrow> u64 \<Rightarrow> memory \<Rightarrow> memory" where
  "create_stub_aarch64 plt_addr target mem =
     put_u64 (plt_addr + 8) target (put_u32 (plt_addr + 4) 0xd61f0200 (put_u32 plt_addr 0x58000050 mem))"

definition create_stub_riscv :: "u64 \<Rightarrow> u64 \<Rightarrow> memory \<Rightarrow> memory" where
  "create_stub_riscv plt_addr target mem =
     put_u64 (plt_addr + 8) target
       (put_u32 (plt_addr + 12) 0x00000013 (put_u32 (plt_addr + 8) 0x000e0067
         (put_u32 (plt_addr + 4) 0x008e3e03 (put_u32 plt_addr 0x00000e17 mem))))"

definition get_or_create ::
    "(u64 \<Rightarrow> u64 \<Rightarrow> memory \<Rightarrow> memory) \<Rightarrow> u64 \<Rightarrow> PltTable \<times> memory \<Rightarrow> u64 option \<times> PltTable \<times> memory" where
  "get_or_create create_stub target = (\<lambda>(plt, mem).
     case find (\<lambda>(t, _). t = target) (plt_entries plt) of
       Some (_, plt_addr) \<Rightarrow> (Some plt_addr, plt, mem)
     | None \<Rightarrow>
         if plt_count plt \<ge> MAX_PLT_ENTRIES then (None, plt, mem)
         else let plt_addr = plt_base plt + of_nat (plt_count plt * PLT_ENTRY_SIZE)
              in (Some plt_addr, plt\<lparr>plt_entries := plt_entries plt @ [(target, plt_addr)], plt_count := plt_count plt + 1\<rparr>,
                  create_stub plt_addr target mem))"

text \<open>The state of the relocation: memory, the linkage table if there is one, and the results of \<open>PCREL_HI20\<close>.\<close>

record rel_state =
  rs_mem :: memory
  rs_plt :: "PltTable option"
  rs_hi20 :: "(u64 \<times> u64) list"

definition rs_put32 :: "u64 \<Rightarrow> (u32 \<Rightarrow> u32) \<Rightarrow> (rel_state, unit, ModuleError) act" where
  "rs_put32 a f = act_modify (\<lambda>s. s\<lparr>rs_mem := put_u32 a (f (mem_u32 a (rs_mem s))) (rs_mem s)\<rparr>)"

definition via_plt :: "(u64 \<Rightarrow> u64 \<Rightarrow> memory \<Rightarrow> memory) \<Rightarrow> u32 \<Rightarrow> u64 \<Rightarrow> (rel_state, u64, ModuleError) act" where
  "via_plt create_stub rtype target s =
     (case rs_plt s of
        None \<Rightarrow> (Err (UnsupportedRelocation rtype), s)
      | Some plt \<Rightarrow>
          case get_or_create create_stub target (plt, rs_mem s) of
            (None, plt, mem) \<Rightarrow> (Err (UnsupportedRelocation rtype), s\<lparr>rs_plt := Some plt, rs_mem := mem\<rparr>)
          | (Some plt_addr, plt, mem) \<Rightarrow> (Ok plt_addr, s\<lparr>rs_plt := Some plt, rs_mem := mem\<rparr>))"


section \<open>AArch64\<close>

datatype reloc_aarch64 =
    R_AARCH64_NONE | R_AARCH64_ABS64 | R_AARCH64_ABS32 | R_AARCH64_CALL26 | R_AARCH64_JUMP26 | R_AARCH64_ADR_PREL_PG_HI21
  | R_AARCH64_ADD_ABS_LO12_NC | R_AARCH64_LDST64_ABS_LO12_NC | R_AARCH64_PREL32 | R_AARCH64_PREL64

primrec aarch64_code :: "reloc_aarch64 \<Rightarrow> u32" where
  "aarch64_code R_AARCH64_NONE = 0"
| "aarch64_code R_AARCH64_ABS64 = 257"
| "aarch64_code R_AARCH64_ABS32 = 258"
| "aarch64_code R_AARCH64_CALL26 = 283"
| "aarch64_code R_AARCH64_JUMP26 = 282"
| "aarch64_code R_AARCH64_ADR_PREL_PG_HI21 = 275"
| "aarch64_code R_AARCH64_ADD_ABS_LO12_NC = 277"
| "aarch64_code R_AARCH64_LDST64_ABS_LO12_NC = 286"
| "aarch64_code R_AARCH64_PREL32 = 261"
| "aarch64_code R_AARCH64_PREL64 = 260"

text \<open>A value put into the immediate of a branch, of \<open>adrp\<close>, and of an instruction with 12 bits.\<close>

definition set_26 :: "u32 \<Rightarrow> u32 \<Rightarrow> u32" where
  "set_26 off insn = (insn AND 0xfc000000) OR (off AND 0x03ffffff)"

definition set_adrp :: "u32 \<Rightarrow> u32 \<Rightarrow> u32" where
  "set_adrp off insn = (insn AND 0x9f00001f) OR push_bit 29 (off AND 0x3) OR push_bit 5 (signed_drop_bit 2 off AND 0x7ffff)"

definition set_12 :: "u32 \<Rightarrow> u32 \<Rightarrow> u32" where
  "set_12 v insn = (insn AND 0xffc003ff) OR push_bit 10 v"

definition apply_relocation_aarch64 :: "u64 \<Rightarrow> u64 \<Rightarrow> u64 \<Rightarrow> u32 \<Rightarrow> (rel_state, unit, ModuleError) act" where
  "apply_relocation_aarch64 p s a rtype =
     (if rtype = aarch64_code R_AARCH64_NONE then act_return ()
      else if rtype = aarch64_code R_AARCH64_ABS64 then act_modify (\<lambda>st. st\<lparr>rs_mem := put_u64 p (s + a) (rs_mem st)\<rparr>)
      else if rtype = aarch64_code R_AARCH64_ABS32 then act_modify (\<lambda>st. st\<lparr>rs_mem := put_u32 p (ucast (s + a)) (rs_mem st)\<rparr>)
      else if rtype = aarch64_code R_AARCH64_PREL32 then act_modify (\<lambda>st. st\<lparr>rs_mem := put_u32 p (ucast (s + a - p)) (rs_mem st)\<rparr>)
      else if rtype = aarch64_code R_AARCH64_PREL64 then act_modify (\<lambda>st. st\<lparr>rs_mem := put_u64 p (s + a - p) (rs_mem st)\<rparr>)
      else if rtype = aarch64_code R_AARCH64_CALL26 \<or> rtype = aarch64_code R_AARCH64_JUMP26 then
        let target = s + a;
            offset = ucast (signed_drop_bit 2 (target - p)) :: u32
        in act_bind (if sint offset > 0x1ffffff \<or> sint offset < - 0x2000000
                     then act_bind (via_plt create_stub_aarch64 rtype target) (\<lambda>plt_addr. act_return (ucast (signed_drop_bit 2 (plt_addr - p))))
                     else act_return offset) (\<lambda>final_offset.
             rs_put32 p (set_26 final_offset))
      else if rtype = aarch64_code R_AARCH64_ADR_PREL_PG_HI21 then
        let page_s = (s + a) AND NOT 0xfff;
            page_p = p AND NOT 0xfff;
            offset = ucast (signed_drop_bit 12 (page_s - page_p)) :: u32
        in if sint offset > 0xfffff \<or> sint offset < - 0x100000 then act_fail (UnsupportedRelocation rtype)
           else rs_put32 p (set_adrp offset)
      else if rtype = aarch64_code R_AARCH64_ADD_ABS_LO12_NC then
        rs_put32 p (set_12 (ucast ((s + a) AND 0xfff)))
      else if rtype = aarch64_code R_AARCH64_LDST64_ABS_LO12_NC then
        rs_put32 p (set_12 (ucast (signed_drop_bit 3 ((s + a) AND 0xfff))))
      else act_fail (UnsupportedRelocation rtype))"


section \<open>RISC-V\<close>

datatype reloc_riscv =
    R_RISCV_NONE | R_RISCV_32 | R_RISCV_64 | R_RISCV_BRANCH | R_RISCV_JAL | R_RISCV_CALL | R_RISCV_CALL_PLT | R_RISCV_PCREL_HI20 | R_RISCV_PCREL_LO12_I
  | R_RISCV_PCREL_LO12_S | R_RISCV_HI20 | R_RISCV_LO12_I | R_RISCV_LO12_S | R_RISCV_RELAX

primrec riscv_code :: "reloc_riscv \<Rightarrow> u32" where
  "riscv_code R_RISCV_NONE = 0"
| "riscv_code R_RISCV_32 = 1"
| "riscv_code R_RISCV_64 = 2"
| "riscv_code R_RISCV_BRANCH = 16"
| "riscv_code R_RISCV_JAL = 17"
| "riscv_code R_RISCV_CALL = 18"
| "riscv_code R_RISCV_CALL_PLT = 19"
| "riscv_code R_RISCV_PCREL_HI20 = 23"
| "riscv_code R_RISCV_PCREL_LO12_I = 24"
| "riscv_code R_RISCV_PCREL_LO12_S = 25"
| "riscv_code R_RISCV_HI20 = 26"
| "riscv_code R_RISCV_LO12_I = 27"
| "riscv_code R_RISCV_LO12_S = 28"
| "riscv_code R_RISCV_RELAX = 51"

text \<open>The instruction formats: a value put into the immediate of a U-, I-, S-, B- or J-type instruction.\<close>

definition set_u :: "u64 \<Rightarrow> u32 \<Rightarrow> u32" where
  "set_u x insn = (insn AND 0xfff) OR push_bit 12 (ucast (signed_drop_bit 12 (x + 0x800)))"

definition set_i :: "u64 \<Rightarrow> u32 \<Rightarrow> u32" where
  "set_i x insn = (insn AND 0xfffff) OR push_bit 20 (ucast (x AND 0xfff))"

definition set_s :: "u64 \<Rightarrow> u32 \<Rightarrow> u32" where
  "set_s x insn =
     (let lo = ucast (x AND 0xfff) :: u32
      in (insn AND 0x01fff07f) OR push_bit 25 (signed_drop_bit 5 lo AND 0x7f) OR push_bit 7 (lo AND 0x1f))"

definition set_b :: "u32 \<Rightarrow> u32 \<Rightarrow> u32" where
  "set_b offset insn =
     (insn AND 0x01fff07f) OR push_bit 31 (signed_drop_bit 12 offset AND 1) OR push_bit 25 (signed_drop_bit 5 offset AND 0x3f) OR
     push_bit 8 (signed_drop_bit 1 offset AND 0xf) OR push_bit 7 (signed_drop_bit 11 offset AND 1)"

definition set_j :: "u32 \<Rightarrow> u32 \<Rightarrow> u32" where
  "set_j offset insn =
     (insn AND 0xfff) OR push_bit 31 (signed_drop_bit 20 offset AND 1) OR push_bit 21 (signed_drop_bit 1 offset AND 0x3ff) OR
     push_bit 20 (signed_drop_bit 11 offset AND 1) OR push_bit 12 (signed_drop_bit 12 offset AND 0xff)"

definition hi20_offset :: "u64 \<Rightarrow> u64 \<Rightarrow> (u64 \<times> u64) list \<Rightarrow> u64" where
  "hi20_offset s a hi20_results =
     (case find (\<lambda>(addr, _). addr = s) hi20_results of Some (_, off) \<Rightarrow> off | None \<Rightarrow> s + a - s)"

definition apply_relocation_riscv :: "u64 \<Rightarrow> u64 \<Rightarrow> u64 \<Rightarrow> u32 \<Rightarrow> (rel_state, unit, ModuleError) act" where
  "apply_relocation_riscv p s a rtype =
     (if rtype = riscv_code R_RISCV_NONE \<or> rtype = riscv_code R_RISCV_RELAX then act_return ()
      else if rtype = riscv_code R_RISCV_64 then act_modify (\<lambda>st. st\<lparr>rs_mem := put_u64 p (s + a) (rs_mem st)\<rparr>)
      else if rtype = riscv_code R_RISCV_32 then act_modify (\<lambda>st. st\<lparr>rs_mem := put_u32 p (ucast (s + a)) (rs_mem st)\<rparr>)
      else if rtype = riscv_code R_RISCV_BRANCH then
        let offset = ucast (s + a - p) :: u32
        in if sint offset > 0xfff \<or> sint offset < - 0x1000 then act_fail (UnsupportedRelocation rtype) else rs_put32 p (set_b offset)
      else if rtype = riscv_code R_RISCV_JAL then
        let offset = ucast (s + a - p) :: u32
        in if sint offset > 0xfffff \<or> sint offset < - 0x100000 then act_fail (UnsupportedRelocation rtype) else rs_put32 p (set_j offset)
      else if rtype = riscv_code R_RISCV_HI20 then rs_put32 p (set_u (s + a))
      else if rtype = riscv_code R_RISCV_LO12_I then rs_put32 p (set_i (s + a))
      else if rtype = riscv_code R_RISCV_LO12_S then rs_put32 p (set_s (s + a))
      else if rtype = riscv_code R_RISCV_PCREL_HI20 then
        let offset = s + a - p
        in act_bind (act_modify (\<lambda>st. st\<lparr>rs_hi20 := rs_hi20 st @ [(p, offset)]\<rparr>)) (\<lambda>_. rs_put32 p (set_u offset))
      else if rtype = riscv_code R_RISCV_PCREL_LO12_I then (\<lambda>st. rs_put32 p (set_i (hi20_offset s a (rs_hi20 st))) st)
      else if rtype = riscv_code R_RISCV_PCREL_LO12_S then (\<lambda>st. rs_put32 p (set_s (hi20_offset s a (rs_hi20 st))) st)
      else if rtype = riscv_code R_RISCV_CALL \<or> rtype = riscv_code R_RISCV_CALL_PLT then
        let target = s + a; offset = target - p
        in act_bind (if sint offset > 0x7FFFFFFF \<or> sint offset < - 0x80000000
                     then act_bind (via_plt create_stub_riscv rtype target) (\<lambda>plt_addr. act_return (plt_addr - p))
                     else act_return offset) (\<lambda>offset.
             act_bind (rs_put32 p (set_u offset)) (\<lambda>_. rs_put32 (p + 4) (set_i offset)))
      else act_fail (UnsupportedRelocation rtype))"

section \<open>What the processor makes of a relocated instruction\<close>

text \<open>The immediates of the RISC-V instruction formats, sign-extended.\<close>

definition u_imm :: "u32 \<Rightarrow> u64" where
  "u_imm insn = signed_take_bit 31 (ucast (insn AND 0xfffff000))"

definition i_imm :: "u32 \<Rightarrow> u64" where
  "i_imm insn = signed_take_bit 11 (ucast (drop_bit 20 insn))"

definition s_imm :: "u32 \<Rightarrow> u64" where
  "s_imm insn = signed_take_bit 11 (ucast (push_bit 5 (drop_bit 25 insn) OR (drop_bit 7 insn AND 0x1f)))"

definition b_imm :: "u32 \<Rightarrow> u64" where
  "b_imm insn = signed_take_bit 12 (ucast (push_bit 12 (drop_bit 31 insn) OR push_bit 11 (drop_bit 7 insn AND 1) OR
     push_bit 5 (drop_bit 25 insn AND 0x3f) OR push_bit 1 (drop_bit 8 insn AND 0xf)))"

definition j_imm :: "u32 \<Rightarrow> u64" where
  "j_imm insn = signed_take_bit 20 (ucast (push_bit 20 (drop_bit 31 insn) OR push_bit 12 (drop_bit 12 insn AND 0xff) OR
     push_bit 11 (drop_bit 20 insn AND 1) OR push_bit 1 (drop_bit 21 insn AND 0x3ff)))"

lemma signed_cong: "(\<And>k. k \<le> n \<Longrightarrow> bit a k = bit b k) \<Longrightarrow> n < 64 \<Longrightarrow> signed_take_bit n a = signed_take_bit n b" for a b :: u64
  by (rule bit_word_eqI) (auto simp: bit_signed_take_bit_iff)

lemma signed_fits:
  fixes x :: u64
  assumes "- (2 ^ n) \<le> sint x" "sint x < 2 ^ n" "n < 64"
  shows "signed_take_bit n x = x"
proof (rule bit_word_eqI)
  fix k assume "k < LENGTH(64)"
  then have k: "k < 64" by simp
  have "signed_take_bit n (sint x) = sint x" using assms(1,2) by (intro signed_take_bit_int_eq_self) auto
  moreover have "bit (signed_take_bit n (sint x)) k = bit (sint x) (min k n)" by (simp add: bit_signed_take_bit_iff min.commute)
  ultimately have "bit (sint x) k = bit (sint x) (min k n)" by simp
  moreover have "bit (sint x) j = bit x j" if "j < 64" for j using that by (auto simp: bit_sint_iff)
  moreover have "bit (signed_take_bit n x) k = bit x (min k n)" using k by (simp add: bit_signed_take_bit_iff min.commute)
  moreover have "min k n < 64" using k by simp
  ultimately show "bit (signed_take_bit n x) k = bit x k" using k by blast
qed

lemma upto_11: "k \<le> 11 \<Longrightarrow> k = 0 \<or> k = 1 \<or> k = 2 \<or> k = 3 \<or> k = 4 \<or> k = 5 \<or> k = 6 \<or> k = 7 \<or> k = 8 \<or> k = 9 \<or> k = 10 \<or> k = 11" for k :: nat
  by arith

lemma upto_12: "k \<le> 12 \<Longrightarrow> k = 0 \<or> k = 1 \<or> k = 2 \<or> k = 3 \<or> k = 4 \<or> k = 5 \<or> k = 6 \<or> k = 7 \<or> k = 8 \<or> k = 9 \<or> k = 10 \<or> k = 11 \<or> k = 12" for k :: nat
  by arith

lemma upto_20: "k \<le> 20 \<Longrightarrow> k = 0 \<or> k = 1 \<or> k = 2 \<or> k = 3 \<or> k = 4 \<or> k = 5 \<or> k = 6 \<or> k = 7 \<or> k = 8 \<or> k = 9 \<or> k = 10 \<or> k = 11 \<or> k = 12 \<or> k = 13 \<or> k = 14 \<or> k = 15 \<or> k = 16 \<or> k = 17 \<or> k = 18 \<or> k = 19 \<or> k = 20" for k :: nat
  by arith

lemma i_imm_set_i: "i_imm (set_i x insn) = signed_take_bit 11 x"
  unfolding i_imm_def
proof (rule signed_cong)
  fix k :: nat assume "k \<le> 11"
  from upto_11 [OF this] show "bit (ucast (drop_bit 20 (set_i x insn)) :: u64) k = bit x k"
    by (elim disjE) (simp_all add: set_i_def bit_simps)
qed simp

lemma s_imm_set_s: "s_imm (set_s x insn) = signed_take_bit 11 x"
  unfolding s_imm_def
proof (rule signed_cong)
  fix k :: nat assume "k \<le> 11"
  from upto_11 [OF this] show "bit (ucast (push_bit 5 (drop_bit 25 (set_s x insn)) OR (drop_bit 7 (set_s x insn) AND 0x1f)) :: u64) k = bit x k"
    by (elim disjE) (simp_all add: set_s_def Let_def bit_simps)
qed simp

lemma bit_times_2: "bit (a * 2) k \<longleftrightarrow> 0 < k \<and> k < 32 \<and> bit a (k - 1)" for a :: u32
  by (subst mult.commute) (auto simp: bit_double_iff)

lemma b_imm_set_b:
  assumes "\<not> bit x 0"
  shows "b_imm (set_b (ucast x) insn) = signed_take_bit 12 x"
  unfolding b_imm_def
proof (rule signed_cong)
  fix k :: nat assume "k \<le> 12"
  from upto_12 [OF this] show "bit (ucast (push_bit 12 (drop_bit 31 (set_b (ucast x) insn)) OR push_bit 11 (drop_bit 7 (set_b (ucast x) insn) AND 1) OR
     push_bit 5 (drop_bit 25 (set_b (ucast x) insn) AND 0x3f) OR push_bit 1 (drop_bit 8 (set_b (ucast x) insn) AND 0xf)) :: u64) k = bit x k"
    using assms by (elim disjE) (simp_all add: set_b_def bit_simps bit_times_2, simp_all add: numeral_2_eq_2 numeral_3_eq_3)
qed simp

lemma j_imm_set_j:
  assumes "\<not> bit x 0"
  shows "j_imm (set_j (ucast x) insn) = signed_take_bit 20 x"
  unfolding j_imm_def
proof (rule signed_cong)
  fix k :: nat assume "k \<le> 20"
  from upto_20 [OF this] show "bit (ucast (push_bit 20 (drop_bit 31 (set_j (ucast x) insn)) OR push_bit 12 (drop_bit 12 (set_j (ucast x) insn) AND 0xff) OR
     push_bit 11 (drop_bit 20 (set_j (ucast x) insn) AND 1) OR push_bit 1 (drop_bit 21 (set_j (ucast x) insn) AND 0x3ff)) :: u64) k = bit x k"
    using assms by (elim disjE) (simp_all add: set_j_def bit_simps bit_times_2, simp_all add: numeral_2_eq_2 numeral_3_eq_3)
qed simp

text \<open>A value is its upper part, rounded, and its lower 12 bits with their sign.\<close>

lemma low12: "signed_take_bit 11 x = take_bit 12 (x + 0x800) - 0x800" for x :: u64
proof -
  have "signed_take_bit 11 x = word_of_int (signed_take_bit 11 (uint x))"
    by (rule bit_word_eqI) (auto simp: bit_signed_take_bit_iff bit_simps)
  also have "\<dots> = word_of_int (take_bit 12 (uint x + 0x800) - 0x800)"
    using signed_take_bit_eq_take_bit_shift [of 11 "uint x"] by simp
  also have "\<dots> = take_bit 12 (x + 0x800) - 0x800" by (simp flip: take_bit_of_int)
  finally show ?thesis .
qed

lemma split_at_12: "(y AND NOT (mask 12)) + take_bit 12 y = y" for y :: u64
proof -
  have "(y AND NOT (mask 12)) + take_bit 12 y = (y AND NOT (mask 12)) OR take_bit 12 y"
    by (rule disjunctive_add) (auto simp: bit_simps)
  also have "\<dots> = y" by (rule bit_word_eqI) (auto simp: bit_simps)
  finally show ?thesis .
qed

lemma u_imm_set_u: "u_imm (set_u x insn) = signed_take_bit 31 ((x + 0x800) AND NOT (mask 12))"
proof -
  define y where "y = x + 0x800"
  have "signed_take_bit 31 (ucast (set_u x insn AND 0xfffff000) :: u64) = signed_take_bit 31 (y AND NOT (mask 12))"
  proof (rule signed_cong)
    fix k :: nat assume k: "k \<le> 31"
    have m: "(0xfffff000 :: u32) = NOT (mask 12)" "(0xfff :: u32) = mask 12" by (simp_all add: mask_eq_exp_minus_1)
    have "bit (0xfffff000 :: u32) k \<longleftrightarrow> 12 \<le> k" "12 \<le> k \<Longrightarrow> \<not> bit (0xfff :: u32) k" unfolding m using k by (auto simp: bit_not_iff bit_mask_iff)
    then show "bit (ucast (set_u x insn AND 0xfffff000) :: u64) k = bit (y AND NOT (mask 12)) k"
      using k unfolding set_u_def y_def [symmetric] by (auto simp: bit_simps)
  qed simp
  then show ?thesis by (simp add: u_imm_def y_def)
qed

lemma signed_and: "signed_take_bit n (a AND b) = signed_take_bit n a AND signed_take_bit n b" for a b :: u64
  by (rule bit_word_eqI) (auto simp: bit_signed_take_bit_iff bit_and_iff)

lemma hi_lo:
  assumes "- (2 ^ 31) \<le> sint x" "sint x < 2 ^ 31 - 0x800"
  shows "u_imm (set_u x insn) + signed_take_bit 11 x = x"
proof -
  define y where "y = x + 0x800"
  have "sint y = signed_take_bit 63 (sint x + 0x800)" unfolding y_def by (simp add: sint_word_ariths)
  also have "\<dots> = sint x + 0x800" using assms by (intro signed_take_bit_int_eq_self) auto
  finally have "sint y = sint x + 0x800" .
  then have "signed_take_bit 31 y = y" using assms by (intro signed_fits) auto
  moreover have "signed_take_bit 31 (NOT (mask 12) :: u64) = NOT (mask 12)" by (rule bit_word_eqI) (auto simp: bit_signed_take_bit_iff bit_simps)
  ultimately have "u_imm (set_u x insn) = y AND NOT (mask 12)" unfolding u_imm_set_u y_def [symmetric] by (simp add: signed_and)
  then have "u_imm (set_u x insn) + signed_take_bit 11 x = ((y AND NOT (mask 12)) + take_bit 12 y) - 0x800" unfolding low12 y_def by simp
  then show ?thesis unfolding split_at_12 by (simp add: y_def)
qed

text \<open>
  What each RISC-V relocation is for: the value \<open>v = S + A\<close> is stored, or the instructions compute it. \<open>lui\<close> and \<open>auipc\<close> compute
  the upper part; the instruction with the lower 12 bits adds the rest. \<open>off\<close> is the offset recorded for the \<open>auipc\<close> that a
  \<open>PCREL_LO12\<close> belongs to.
\<close>

fun riscv_resolved :: "reloc_riscv \<Rightarrow> u64 \<Rightarrow> u64 \<Rightarrow> u64 \<Rightarrow> memory \<Rightarrow> bool" where
  "riscv_resolved R_RISCV_64 p v off mem \<longleftrightarrow> mem_u64 p mem = v"
| "riscv_resolved R_RISCV_32 p v off mem \<longleftrightarrow> mem_u32 p mem = ucast v"
| "riscv_resolved R_RISCV_BRANCH p v off mem \<longleftrightarrow> p + b_imm (mem_u32 p mem) = v"
| "riscv_resolved R_RISCV_JAL p v off mem \<longleftrightarrow> p + j_imm (mem_u32 p mem) = v"
| "riscv_resolved R_RISCV_CALL p v off mem \<longleftrightarrow> p + u_imm (mem_u32 p mem) + i_imm (mem_u32 (p + 4) mem) = v"
| "riscv_resolved R_RISCV_CALL_PLT p v off mem \<longleftrightarrow> p + u_imm (mem_u32 p mem) + i_imm (mem_u32 (p + 4) mem) = v"
| "riscv_resolved R_RISCV_HI20 p v off mem \<longleftrightarrow> u_imm (mem_u32 p mem) + signed_take_bit 11 v = v"
| "riscv_resolved R_RISCV_LO12_I p v off mem \<longleftrightarrow> i_imm (mem_u32 p mem) = signed_take_bit 11 v"
| "riscv_resolved R_RISCV_LO12_S p v off mem \<longleftrightarrow> s_imm (mem_u32 p mem) = signed_take_bit 11 v"
| "riscv_resolved R_RISCV_PCREL_HI20 p v off mem \<longleftrightarrow> p + u_imm (mem_u32 p mem) + signed_take_bit 11 (v - p) = v"
| "riscv_resolved R_RISCV_PCREL_LO12_I p v off mem \<longleftrightarrow> i_imm (mem_u32 p mem) = signed_take_bit 11 off"
| "riscv_resolved R_RISCV_PCREL_LO12_S p v off mem \<longleftrightarrow> s_imm (mem_u32 p mem) = signed_take_bit 11 off"
| "riscv_resolved _ p v off mem \<longleftrightarrow> True"

definition within :: "int \<Rightarrow> int \<Rightarrow> u64 \<Rightarrow> bool" where
  "within lo hi x \<longleftrightarrow> lo \<le> sint x \<and> sint x < hi"

text \<open>The values an instruction can reach; the pair of \<open>auipc\<close> and a signed lower part does not reach the last 2 KiB.\<close>

fun riscv_fits :: "reloc_riscv \<Rightarrow> u64 \<Rightarrow> u64 \<Rightarrow> bool" where
  "riscv_fits R_RISCV_BRANCH p v \<longleftrightarrow> within (- (2 ^ 12)) (2 ^ 12) (v - p) \<and> \<not> bit (v - p) 0"
| "riscv_fits R_RISCV_JAL p v \<longleftrightarrow> within (- (2 ^ 20)) (2 ^ 20) (v - p) \<and> \<not> bit (v - p) 0"
| "riscv_fits R_RISCV_CALL p v \<longleftrightarrow> within (- (2 ^ 31)) (2 ^ 31 - 0x800) (v - p)"
| "riscv_fits R_RISCV_CALL_PLT p v \<longleftrightarrow> within (- (2 ^ 31)) (2 ^ 31 - 0x800) (v - p)"
| "riscv_fits R_RISCV_HI20 p v \<longleftrightarrow> within (- (2 ^ 31)) (2 ^ 31 - 0x800) v"
| "riscv_fits R_RISCV_PCREL_HI20 p v \<longleftrightarrow> within (- (2 ^ 31)) (2 ^ 31 - 0x800) (v - p)"
| "riscv_fits _ p v \<longleftrightarrow> True"

lemma sint_ucast_fits:
  assumes "within (- (2 ^ n)) (2 ^ n) x" "n \<le> 31"
  shows "sint (ucast x :: u32) = sint x"
proof -
  have pow: "(2 :: int) ^ n \<le> 2 ^ 31" using assms(2) by (intro power_increasing) auto
  have "sint (ucast x :: u32) = signed_take_bit 31 (sint x)"
  proof (rule bit_eqI)
    fix k
    show "bit (sint (ucast x :: u32)) k = bit (signed_take_bit 31 (sint x)) k"
      by (cases "k \<le> 31") (auto simp: bit_sint_iff bit_signed_take_bit_iff bit_simps min_absorb1 min_absorb2)
  qed
  also have "\<dots> = sint x" using assms(1) pow by (intro signed_take_bit_int_eq_self) (auto simp: within_def)
  finally show ?thesis .
qed

lemma rs_put32_run: "rs_put32 a f st = (Ok (), st\<lparr>rs_mem := put_u32 a (f (mem_u32 a (rs_mem st))) (rs_mem st)\<rparr>)"
  by (simp add: rs_put32_def act_modify_def)

lemma riscv_branch_run:
  assumes "within (- (2 ^ 12)) (2 ^ 12) (s + a - p)"
  shows "apply_relocation_riscv p s a (riscv_code R_RISCV_BRANCH) st = rs_put32 p (set_b (ucast (s + a - p))) st"
    "signed_take_bit 12 (s + a - p) = s + a - p"
proof -
  have "sint (ucast (s + a - p) :: u32) = sint (s + a - p)" using assms by (intro sint_ucast_fits [of 12]) auto
  then show "apply_relocation_riscv p s a (riscv_code R_RISCV_BRANCH) st = rs_put32 p (set_b (ucast (s + a - p))) st"
    using assms by (simp add: apply_relocation_riscv_def Let_def within_def)
  show "signed_take_bit 12 (s + a - p) = s + a - p" using assms by (intro signed_fits) (auto simp: within_def)
qed

lemma riscv_jal_run:
  assumes "within (- (2 ^ 20)) (2 ^ 20) (s + a - p)"
  shows "apply_relocation_riscv p s a (riscv_code R_RISCV_JAL) st = rs_put32 p (set_j (ucast (s + a - p))) st"
    "signed_take_bit 20 (s + a - p) = s + a - p"
proof -
  have "sint (ucast (s + a - p) :: u32) = sint (s + a - p)" using assms by (intro sint_ucast_fits [of 20]) auto
  then show "apply_relocation_riscv p s a (riscv_code R_RISCV_JAL) st = rs_put32 p (set_j (ucast (s + a - p))) st"
    using assms by (simp add: apply_relocation_riscv_def Let_def within_def)
  show "signed_take_bit 20 (s + a - p) = s + a - p" using assms by (intro signed_fits) (auto simp: within_def)
qed

lemma riscv_call_run:
  assumes "within (- (2 ^ 31)) (2 ^ 31 - 0x800) (s + a - p)" "ty = R_RISCV_CALL \<or> ty = R_RISCV_CALL_PLT"
  shows "apply_relocation_riscv p s a (riscv_code ty) st = act_bind (rs_put32 p (set_u (s + a - p))) (\<lambda>_. rs_put32 (p + 4) (set_i (s + a - p))) st"
  using assms by (elim disjE) (simp_all add: apply_relocation_riscv_def Let_def act_bind_def within_def)

lemma pair_reaches:
  assumes "within (- (2 ^ 31)) (2 ^ 31 - 0x800) (v - p)"
  shows "p + u_imm (set_u (v - p) i) + signed_take_bit 11 (v - p) = v" "p + u_imm (set_u (v - p) i) + i_imm (set_i (v - p) j) = v"
proof -
  have "u_imm (set_u (v - p) i) + signed_take_bit 11 (v - p) = v - p" using assms by (intro hi_lo) (auto simp: within_def)
  then show "p + u_imm (set_u (v - p) i) + signed_take_bit 11 (v - p) = v" by (simp add: add.assoc)
  then show "p + u_imm (set_u (v - p) i) + i_imm (set_i (v - p) j) = v" by (simp add: i_imm_set_i)
qed

lemma put_elsewhere:
  "4 \<le> unat (x - p) \<Longrightarrow> put_u32 p w mem x = mem x" "8 \<le> unat (x - p) \<Longrightarrow> put_u64 p v mem x = mem x"
  "8 \<le> unat (x - p) \<Longrightarrow> put_u32 (p + 4) w mem x = mem x"
proof -
  assume x: "8 \<le> unat (x - p)"
  have eq: "x - (p + 4) = (x - p) - 4" by simp
  have "unat (x - (p + 4)) = unat (x - p) - 4" unfolding eq using x by (subst unat_sub) (auto simp: word_le_nat_alt)
  then have "\<not> unat (x - (p + 4)) < 4" using x by linarith
  then show "put_u32 (p + 4) w mem x = mem x" by (simp add: put_u32_def mem_write_def)
qed (simp_all add: put_u32_def put_u64_def mem_write_def)

lemma upto_31: "k < 32 \<Longrightarrow> k = 0 \<or> k = 1 \<or> k = 2 \<or> k = 3 \<or> k = 4 \<or> k = 5 \<or> k = 6 \<or> k = 7 \<or> k = 8 \<or> k = 9 \<or> k = 10 \<or> k = 11 \<or> k = 12 \<or> k = 13 \<or> k = 14 \<or> k = 15 \<or> k = 16 \<or> k = 17 \<or> k = 18 \<or> k = 19 \<or> k = 20 \<or> k = 21 \<or> k = 22 \<or> k = 23 \<or> k = 24 \<or> k = 25 \<or> k = 26 \<or> k = 27 \<or> k = 28 \<or> k = 29 \<or> k = 30 \<or> k = 31" for k :: nat
  by arith

text \<open>The rest of the instruction is kept.\<close>

lemma set_keeps:
  "set_u x insn AND 0xfff = insn AND 0xfff" "set_i x insn AND 0xfffff = insn AND 0xfffff" "set_s x insn AND 0x01fff07f = insn AND 0x01fff07f"
  "set_b off insn AND 0x01fff07f = insn AND 0x01fff07f" "set_j off insn AND 0xfff = insn AND 0xfff"
proof -
  have *: "a = b" if "\<And>k. k < 32 \<Longrightarrow> bit a k = bit b k" for a b :: u32 by (rule bit_word_eqI) (use that in simp)
  show "set_u x insn AND 0xfff = insn AND 0xfff"
    by (rule *, drule upto_31, elim disjE) (simp_all add: set_u_def bit_simps)
  show "set_i x insn AND 0xfffff = insn AND 0xfffff"
    by (rule *, drule upto_31, elim disjE) (simp_all add: set_i_def bit_simps)
  show "set_s x insn AND 0x01fff07f = insn AND 0x01fff07f"
    by (rule *, drule upto_31, elim disjE) (simp_all add: set_s_def Let_def bit_simps)
  show "set_b off insn AND 0x01fff07f = insn AND 0x01fff07f"
    by (rule *, drule upto_31, elim disjE) (simp_all add: set_b_def bit_simps)
  show "set_j off insn AND 0xfff = insn AND 0xfff"
    by (rule *, drule upto_31, elim disjE) (simp_all add: set_j_def bit_simps)
qed

definition riscv_mask :: "reloc_riscv \<Rightarrow> u32" where
  "riscv_mask ty =
     (if ty \<in> {R_RISCV_BRANCH, R_RISCV_LO12_S, R_RISCV_PCREL_LO12_S} then 0x01fff07f
      else if ty \<in> {R_RISCV_LO12_I, R_RISCV_PCREL_LO12_I} then 0xfffff
      else if ty \<in> {R_RISCV_32, R_RISCV_64} then 0
      else 0xfff)"

text \<open>The number of bytes a relocation may change, and the instructions it changes with the bits of each that it keeps.\<close>

definition riscv_width :: "reloc_riscv \<Rightarrow> nat" where
  "riscv_width ty =
     (if ty \<in> {R_RISCV_NONE, R_RISCV_RELAX} then 0 else if ty \<in> {R_RISCV_64, R_RISCV_CALL, R_RISCV_CALL_PLT} then 8 else 4)"

definition riscv_kept :: "reloc_riscv \<Rightarrow> u64 \<Rightarrow> memory \<Rightarrow> memory \<Rightarrow> bool" where
  "riscv_kept ty p mem mem' \<longleftrightarrow>
     mem_u32 p mem' AND riscv_mask ty = mem_u32 p mem AND riscv_mask ty \<and>
     (ty \<notin> {R_RISCV_CALL, R_RISCV_CALL_PLT} \<or> mem_u32 (p + 4) mem' AND 0xfffff = mem_u32 (p + 4) mem AND 0xfffff)"

lemmas riscv_frame = riscv_width_def riscv_kept_def riscv_mask_def set_keeps put_elsewhere

text \<open>
  C7. Relocation on RISC-V. When the value is in reach of the instruction, every relocation type does what it is for: the value
  is stored, or the branch, jump, call or pair of instructions reaches exactly the symbol plus the addend. Opcode and registers
  of every instruction that is changed are kept, of both instructions of a call. No memory changes outside the 0, 4 or 8 bytes of the
  relocation, the linkage table is not used, and exactly the upper half of a PC-relative pair adds its offset to the recorded ones. The
  lower half of such a pair takes the offset recorded for its upper half.
\<close>

theorem riscv_relocation_resolved:
  assumes fits: "riscv_fits ty p (s + a)"
    and hi20: "ty = R_RISCV_PCREL_LO12_I \<or> ty = R_RISCV_PCREL_LO12_S \<Longrightarrow> find (\<lambda>(addr, _). addr = s) (rs_hi20 st) = Some (s, off)"
  shows "\<exists>st'. apply_relocation_riscv p s a (riscv_code ty) st = (Ok (), st') \<and> riscv_resolved ty p (s + a) off (rs_mem st') \<and>
    riscv_kept ty p (rs_mem st) (rs_mem st') \<and> (\<forall>x. riscv_width ty \<le> unat (x - p) \<longrightarrow> rs_mem st' x = rs_mem st x) \<and>
    rs_plt st' = rs_plt st \<and> rs_hi20 st' = rs_hi20 st @ (if ty = R_RISCV_PCREL_HI20 then [(p, s + a - p)] else [])"
proof (cases ty)
  case R_RISCV_BRANCH
  then show ?thesis using fits riscv_branch_run [of s a p]
    by (simp add: rs_put32_run b_imm_set_b riscv_frame)
next
  case R_RISCV_JAL
  then show ?thesis using fits riscv_jal_run [of s a p]
    by (simp add: rs_put32_run j_imm_set_j riscv_frame)
next
  case R_RISCV_CALL
  then show ?thesis using fits riscv_call_run [of s a p ty st] pair_reaches(2) [of "s + a" p]
    by (simp add: rs_put32_run act_bind_def riscv_frame mem_word_offsets del: riscv_code.simps)
next
  case R_RISCV_CALL_PLT
  then show ?thesis using fits riscv_call_run [of s a p ty st] pair_reaches(2) [of "s + a" p]
    by (simp add: rs_put32_run act_bind_def riscv_frame mem_word_offsets del: riscv_code.simps)
next
  case R_RISCV_HI20
  then show ?thesis using fits hi_lo [of "s + a"]
    by (simp add: apply_relocation_riscv_def within_def rs_put32_run riscv_frame)
next
  case R_RISCV_PCREL_HI20
  then show ?thesis using fits pair_reaches(1) [of "s + a" p]
    by (simp add: apply_relocation_riscv_def rs_put32_run act_bind_def act_modify_def Let_def riscv_frame)
next
  case R_RISCV_PCREL_LO12_I
  then show ?thesis using hi20
    by (simp add: apply_relocation_riscv_def rs_put32_run hi20_offset_def i_imm_set_i riscv_frame)
next
  case R_RISCV_PCREL_LO12_S
  then show ?thesis using hi20
    by (simp add: apply_relocation_riscv_def rs_put32_run hi20_offset_def s_imm_set_s riscv_frame)
qed (simp_all add: apply_relocation_riscv_def rs_put32_run act_modify_def i_imm_set_i s_imm_set_s riscv_frame)

theorem riscv_relocation_resolved_witness:
  "\<exists>st'. apply_relocation_riscv 0x80001000 0x80200000 0x10 (riscv_code R_RISCV_CALL) \<lparr>rs_mem = \<lambda>_. 0, rs_plt = None, rs_hi20 = []\<rparr> = (Ok (), st') \<and>
     0x80001000 + u_imm (mem_u32 0x80001000 (rs_mem st')) + i_imm (mem_u32 0x80001004 (rs_mem st')) = 0x80200010 \<and>
     mem_u32 0x80001004 (rs_mem st') AND 0xfffff = mem_u32 0x80001004 (\<lambda>_. 0) AND 0xfffff \<and> rs_mem st' 0x80001008 = 0"
proof -
  have "riscv_fits R_RISCV_CALL 0x80001000 (0x80200000 + 0x10)" by (simp add: within_def)
  from riscv_relocation_resolved [OF this, of "\<lparr>rs_mem = \<lambda>_. 0, rs_plt = None, rs_hi20 = []\<rparr>" 0]
  show ?thesis by (force simp: riscv_kept_def riscv_width_def simp del: riscv_code.simps)
qed

text \<open>The low half of a 64-bit word.\<close>

lemma mem_u32_put_u64 [simp]: "mem_u32 a (put_u64 a w mem) = ucast w"
proof -
  have "mem_read a 4 (put_u64 a w mem) = take 4 (u64_to_le_bytes w)"
    using mem_read_part [of 0 4 8 a "put_u64 a w mem"] mem_read_write_same [of "u64_to_le_bytes w" a mem] by (simp add: put_u64_def)
  also have "\<dots> = map (\<lambda>i. ucast (drop_bit (8 * i) w)) [0..<4]" by (simp add: u64_to_le_bytes_def take_map)
  finally have "le_nat (mem_read a 4 (put_u64 a w mem)) = unat w mod 2 ^ 32" using le_nat_digits [of w 4] by simp
  then show ?thesis by (simp add: mem_u32_def word_unat_eq_iff unat_of_nat unsigned_ucast_eq take_bit_eq_mod)
qed

text \<open>
  C32. The RISC-V linkage stub does not jump. The address of the target is stored over the third instruction, the jump: after \<open>auipc\<close> and the load, the processor
  finds the lower half of the target's address where \<open>jr t3\<close> was.
\<close>

theorem riscv_plt_stub_overwritten:
  "\<exists>plt mem'. get_or_create create_stub_riscv target (PltTable_new base, mem) = (Some base, plt, mem') \<and>
     mem_u32 base mem' = 0x00000e17 \<and> mem_u32 (base + 4) mem' = 0x008e3e03 \<and> mem_u32 (base + 8) mem' = ucast target"
proof -
  have off: "mem_u32 (base + 4) (put_u64 (base + 8) w m) = mem_u32 (base + 4) m" "mem_u32 (base + 4) (put_u32 (base + 8) v m) = mem_u32 (base + 4) m"
    "mem_u32 (base + 4) (put_u32 (base + 12) v m) = mem_u32 (base + 4) m" "mem_u32 base (put_u32 (base + 12) v m) = mem_u32 base m"
    "mem_u32 base (put_u32 (base + 8) v m) = mem_u32 base m" for w v m
    using mem_put_u64_below [of 4 "base + 4"] mem_put_u32_below [of 4 "base + 4"] mem_put_u32_below [of 8 "base + 4"] mem_put_u32_below [of 12 base]
      mem_put_u32_below [of 8 base] by (simp_all add: add.assoc)
  show ?thesis
    by (simp add: get_or_create_def PltTable_new_def MAX_PLT_ENTRIES_def PLT_ENTRY_SIZE_def PAGE_SIZE_def create_stub_riscv_def mem_word_offsets off Let_def)
qed


text \<open>The immediates of the AArch64 instructions: \<open>b\<close> and \<open>bl\<close>, \<open>adrp\<close>, and the 12 bits of \<open>add\<close> and \<open>ldr\<close>.\<close>

definition imm26 :: "u32 \<Rightarrow> u64" where
  "imm26 insn = signed_take_bit 27 (push_bit 2 (ucast (insn AND 0x03ffffff)))"

definition adrp_imm :: "u32 \<Rightarrow> u64" where
  "adrp_imm insn = signed_take_bit 32 (push_bit 12 (push_bit 2 (ucast (drop_bit 5 insn AND 0x7ffff)) OR ucast (drop_bit 29 insn AND 3)))"

definition imm12 :: "u32 \<Rightarrow> u64" where
  "imm12 insn = ucast (drop_bit 10 insn AND 0xfff)"

lemma upto_27: "k \<le> 27 \<Longrightarrow> k = 0 \<or> k = 1 \<or> k = 2 \<or> k = 3 \<or> k = 4 \<or> k = 5 \<or> k = 6 \<or> k = 7 \<or> k = 8 \<or> k = 9 \<or> k = 10 \<or> k = 11 \<or> k = 12 \<or> k = 13 \<or> k = 14 \<or> k = 15 \<or> k = 16 \<or> k = 17 \<or> k = 18 \<or> k = 19 \<or> k = 20 \<or> k = 21 \<or> k = 22 \<or> k = 23 \<or> k = 24 \<or> k = 25 \<or> k = 26 \<or> k = 27" for k :: nat
  by arith

lemma imm26_set_26:
  assumes "\<not> bit x 0" "\<not> bit x 1"
  shows "imm26 (set_26 (ucast (signed_drop_bit 2 x)) insn) = signed_take_bit 27 x"
  unfolding imm26_def
proof (rule signed_cong)
  fix k :: nat assume "k \<le> 27"
  from upto_27 [OF this] show "bit (push_bit 2 (ucast (set_26 (ucast (signed_drop_bit 2 x)) insn AND 0x03ffffff)) :: u64) k = bit x k"
    using assms by (elim disjE) (simp_all add: set_26_def bit_simps)
qed simp

lemma adrp_imm_set_adrp:
  assumes "\<And>k. k < 12 \<Longrightarrow> \<not> bit x k"
  shows "adrp_imm (set_adrp (ucast (signed_drop_bit 12 x)) insn) = signed_take_bit 32 x"
  unfolding adrp_imm_def
proof (rule signed_cong)
  fix k :: nat assume k: "k \<le> 32"
  show "bit (push_bit 12 (push_bit 2 (ucast (drop_bit 5 (set_adrp (ucast (signed_drop_bit 12 x)) insn) AND 0x7ffff)) OR
     ucast (drop_bit 29 (set_adrp (ucast (signed_drop_bit 12 x)) insn) AND 3)) :: u64) k = bit x k"
  proof (cases "k < 12")
    case True
    then show ?thesis using assms by (simp add: bit_simps)
  next
    case False
    then obtain j where j: "k = 12 + j" "j \<le> 20" using k by (metis add_le_cancel_left le_Suc_ex not_less numeral_Bit0 numeral_plus_numeral add_num_simps)
    from upto_20 [OF j(2)] show ?thesis unfolding j(1) by (elim disjE) (simp_all add: set_adrp_def bit_simps)
  qed
qed simp

lemma imm12_set_12:
  assumes "\<And>k. 12 \<le> k \<Longrightarrow> \<not> bit v k"
  shows "imm12 (set_12 v insn) = ucast v"
proof (rule bit_word_eqI)
  fix k :: nat assume "k < LENGTH(64)"
  show "bit (imm12 (set_12 v insn)) k = bit (ucast v :: u64) k"
  proof (cases "k \<le> 11")
    case True
    from upto_11 [OF this] show ?thesis by (elim disjE) (simp_all add: imm12_def set_12_def bit_simps)
  next
    case False
    have m: "(0xfff :: u32) = mask 12" by (simp add: mask_eq_exp_minus_1)
    show ?thesis using False assms [of k] unfolding imm12_def m by (simp add: bit_simps)
  qed
qed

fun aarch64_resolved :: "reloc_aarch64 \<Rightarrow> u64 \<Rightarrow> u64 \<Rightarrow> memory \<Rightarrow> bool" where
  "aarch64_resolved R_AARCH64_NONE p v mem \<longleftrightarrow> True"
| "aarch64_resolved R_AARCH64_ABS64 p v mem \<longleftrightarrow> mem_u64 p mem = v"
| "aarch64_resolved R_AARCH64_ABS32 p v mem \<longleftrightarrow> mem_u32 p mem = ucast v"
| "aarch64_resolved R_AARCH64_PREL32 p v mem \<longleftrightarrow> mem_u32 p mem = ucast (v - p)"
| "aarch64_resolved R_AARCH64_PREL64 p v mem \<longleftrightarrow> mem_u64 p mem = v - p"
| "aarch64_resolved R_AARCH64_CALL26 p v mem \<longleftrightarrow> p + imm26 (mem_u32 p mem) = v"
| "aarch64_resolved R_AARCH64_JUMP26 p v mem \<longleftrightarrow> p + imm26 (mem_u32 p mem) = v"
| "aarch64_resolved R_AARCH64_ADR_PREL_PG_HI21 p v mem \<longleftrightarrow> (p AND NOT 0xfff) + adrp_imm (mem_u32 p mem) = v AND NOT 0xfff"
| "aarch64_resolved R_AARCH64_ADD_ABS_LO12_NC p v mem \<longleftrightarrow> imm12 (mem_u32 p mem) = v AND 0xfff"
| "aarch64_resolved R_AARCH64_LDST64_ABS_LO12_NC p v mem \<longleftrightarrow> push_bit 3 (imm12 (mem_u32 p mem)) = v AND 0xfff"

fun aarch64_fits :: "reloc_aarch64 \<Rightarrow> u64 \<Rightarrow> u64 \<Rightarrow> bool" where
  "aarch64_fits R_AARCH64_CALL26 p v \<longleftrightarrow> within (- (2 ^ 27)) (2 ^ 27) (v - p) \<and> \<not> bit (v - p) 0 \<and> \<not> bit (v - p) 1"
| "aarch64_fits R_AARCH64_JUMP26 p v \<longleftrightarrow> within (- (2 ^ 27)) (2 ^ 27) (v - p) \<and> \<not> bit (v - p) 0 \<and> \<not> bit (v - p) 1"
| "aarch64_fits R_AARCH64_ADR_PREL_PG_HI21 p v \<longleftrightarrow> within (- (2 ^ 32)) (2 ^ 32) ((v AND NOT 0xfff) - (p AND NOT 0xfff))"
| "aarch64_fits R_AARCH64_LDST64_ABS_LO12_NC p v \<longleftrightarrow> \<not> bit v 0 \<and> \<not> bit v 1 \<and> \<not> bit v 2"
| "aarch64_fits _ p v \<longleftrightarrow> True"

text \<open>The number of bytes a relocation may change, and the bits of the instruction that it keeps.\<close>

definition aarch64_width :: "reloc_aarch64 \<Rightarrow> nat" where
  "aarch64_width ty = (if ty = R_AARCH64_NONE then 0 else if ty \<in> {R_AARCH64_ABS64, R_AARCH64_PREL64} then 8 else 4)"

definition aarch64_mask :: "reloc_aarch64 \<Rightarrow> u32" where
  "aarch64_mask ty =
     (if ty \<in> {R_AARCH64_CALL26, R_AARCH64_JUMP26} then 0xfc000000
      else if ty = R_AARCH64_ADR_PREL_PG_HI21 then 0x9f00001f
      else if ty \<in> {R_AARCH64_ADD_ABS_LO12_NC, R_AARCH64_LDST64_ABS_LO12_NC} then 0xffc003ff
      else 0)"

lemma aarch64_set_keeps:
  "set_26 off insn AND 0xfc000000 = insn AND 0xfc000000" "set_adrp off insn AND 0x9f00001f = insn AND 0x9f00001f"
  "(\<And>k. 12 \<le> k \<Longrightarrow> \<not> bit v k) \<Longrightarrow> set_12 v insn AND 0xffc003ff = insn AND 0xffc003ff"
proof -
  have *: "a = b" if "\<And>k. k < 32 \<Longrightarrow> bit a k = bit b k" for a b :: u32 by (rule bit_word_eqI) (use that in simp)
  show "set_26 off insn AND 0xfc000000 = insn AND 0xfc000000"
    by (rule *, drule upto_31, elim disjE) (simp_all add: set_26_def bit_simps)
  show "set_adrp off insn AND 0x9f00001f = insn AND 0x9f00001f"
    by (rule *, drule upto_31, elim disjE) (simp_all add: set_adrp_def bit_simps)
  assume v: "\<And>k. 12 \<le> k \<Longrightarrow> \<not> bit v k"
  show "set_12 v insn AND 0xffc003ff = insn AND 0xffc003ff"
    by (rule *, drule upto_31, elim disjE) (simp_all add: set_12_def bit_simps v)
qed

lemmas aarch64_frame = aarch64_width_def aarch64_mask_def aarch64_set_keeps put_elsewhere

lemma shift_fits:
  assumes "within (- (2 ^ (n + m))) (2 ^ (n + m)) x" "m \<le> 31"
  shows "sint (ucast (signed_drop_bit n x) :: u32) < 2 ^ m" "- (2 ^ m) \<le> sint (ucast (signed_drop_bit n x) :: u32)"
proof -
  have div: "sint (signed_drop_bit n x) = sint x div 2 ^ n" by (simp add: sint_signed_drop_bit_eq drop_bit_eq_div)
  have "sint x div 2 ^ n \<le> (2 ^ m * 2 ^ n - 1) div 2 ^ n" using assms(1) by (intro zdiv_mono1) (auto simp: within_def power_add mult.commute)
  moreover have "(2 ^ m * 2 ^ n - 1) div 2 ^ n = (2 :: int) ^ m - 1"
  proof -
    have eq: "2 ^ m * 2 ^ n - 1 = (2 ^ n - 1) + (2 ^ m - 1) * (2 :: int) ^ n" by (simp add: algebra_simps)
    have "((2 ^ n - 1) + (2 ^ m - 1) * (2 :: int) ^ n) div 2 ^ n = (2 ^ m - 1) + (2 ^ n - 1) div 2 ^ n" by (rule div_mult_self1) simp
    moreover have "(2 ^ n - 1) div (2 :: int) ^ n = 0" by (intro div_pos_pos_trivial) auto
    ultimately show ?thesis unfolding eq by simp
  qed
  moreover have "(- (2 ^ m) * 2 ^ n) div 2 ^ n \<le> sint x div 2 ^ n" using assms(1) by (intro zdiv_mono1) (auto simp: within_def power_add mult.commute)
  moreover have "(- (2 ^ m) * 2 ^ n) div 2 ^ n = - ((2 :: int) ^ m)" by (rule nonzero_mult_div_cancel_right) simp
  ultimately have w: "within (- (2 ^ m)) (2 ^ m) (signed_drop_bit n x)" by (simp add: within_def div)
  show "sint (ucast (signed_drop_bit n x) :: u32) < 2 ^ m" "- (2 ^ m) \<le> sint (ucast (signed_drop_bit n x) :: u32)"
    using w sint_ucast_fits [OF w assms(2)] by (simp_all add: within_def)
qed

lemma page_diff:
  "\<not> bit ((v AND NOT 0xfff) - (p AND NOT 0xfff)) k" if "k < 12" for v p :: u64
proof -
  have m: "(0xfff :: u64) = mask 12" by (simp add: mask_eq_exp_minus_1)
  have "take_bit 12 (x AND NOT (mask 12)) = 0" for x :: u64 by (rule bit_word_eqI) (auto simp: bit_simps)
  then have page: "2 ^ 12 dvd x AND NOT (mask 12)" for x :: u64 unfolding take_bit_eq_0_iff .
  have "2 ^ 12 dvd (v AND NOT (mask 12)) - (p AND NOT (mask 12))" using page by (intro dvd_diff)
  then have "take_bit 12 ((v AND NOT 0xfff) - (p AND NOT 0xfff)) = 0" unfolding m take_bit_eq_0_iff .
  then show ?thesis using that by (metis bit_take_bit_iff bit_0_eq bot_apply bot_bool_def)
qed


text \<open>
  C8. Relocation on AArch64. When the value is in reach of the instruction, every relocation type stores the value, or makes the branch, or \<open>adrp\<close> together with
  the instruction that has the lower 12 bits, compute exactly the symbol plus the addend. Opcode and registers of the instruction are kept, no
  memory changes outside the 0, 4 or 8 bytes of the relocation, and neither the linkage table nor the recorded offsets are touched.
\<close>

theorem aarch64_relocation_resolved:
  assumes fits: "aarch64_fits ty p (s + a)"
  shows "\<exists>st'. apply_relocation_aarch64 p s a (aarch64_code ty) st = (Ok (), st') \<and> aarch64_resolved ty p (s + a) (rs_mem st') \<and>
    mem_u32 p (rs_mem st') AND aarch64_mask ty = mem_u32 p (rs_mem st) AND aarch64_mask ty \<and>
    (\<forall>x. aarch64_width ty \<le> unat (x - p) \<longrightarrow> rs_mem st' x = rs_mem st x) \<and> rs_plt st' = rs_plt st \<and> rs_hi20 st' = rs_hi20 st"
proof -
  have call: ?thesis if "ty = R_AARCH64_CALL26 \<or> ty = R_AARCH64_JUMP26"
  proof -
    have x: "within (- (2 ^ 27)) (2 ^ 27) (s + a - p)" "\<not> bit (s + a - p) 0" "\<not> bit (s + a - p) 1" using that fits by auto
    have "sint (ucast (signed_drop_bit 2 (s + a - p)) :: u32) < 2 ^ 25" "- (2 ^ 25) \<le> sint (ucast (signed_drop_bit 2 (s + a - p)) :: u32)"
      using shift_fits [of 2 25] x(1) by simp_all
    then have "apply_relocation_aarch64 p s a (aarch64_code ty) st = rs_put32 p (set_26 (ucast (signed_drop_bit 2 (s + a - p)))) st"
      using that by (elim disjE) (simp_all add: apply_relocation_aarch64_def Let_def act_bind_def)
    moreover have "signed_take_bit 27 (s + a - p) = s + a - p" using x(1) by (intro signed_fits) (auto simp: within_def)
    ultimately show ?thesis using that imm26_set_26 [OF x(2,3)] by (auto simp: rs_put32_run aarch64_frame simp del: aarch64_code.simps)
  qed
  show ?thesis
  proof (cases ty)
    case R_AARCH64_ADR_PREL_PG_HI21
    let ?x = "((s + a) AND NOT 0xfff) - (p AND NOT 0xfff)"
    have x: "within (- (2 ^ 32)) (2 ^ 32) ?x" using R_AARCH64_ADR_PREL_PG_HI21 fits by simp
    then have "sint (ucast (signed_drop_bit 12 ?x) :: u32) < 2 ^ 20" "- (2 ^ 20) \<le> sint (ucast (signed_drop_bit 12 ?x) :: u32)" using shift_fits [of 12 20 ?x] by simp_all
    then have "apply_relocation_aarch64 p s a (aarch64_code ty) st = rs_put32 p (set_adrp (ucast (signed_drop_bit 12 ?x))) st"
      using R_AARCH64_ADR_PREL_PG_HI21 unfolding apply_relocation_aarch64_def Let_def by simp
    moreover have "adrp_imm (set_adrp (ucast (signed_drop_bit 12 ?x)) i) = ?x" for i
    proof -
      have "adrp_imm (set_adrp (ucast (signed_drop_bit 12 ?x)) i) = signed_take_bit 32 ?x" by (rule adrp_imm_set_adrp) (rule page_diff)
      also have "\<dots> = ?x" using x by (intro signed_fits) (auto simp: within_def)
      finally show ?thesis .
    qed
    ultimately show ?thesis using R_AARCH64_ADR_PREL_PG_HI21 by (simp add: rs_put32_run aarch64_frame del: aarch64_code.simps)
  next
    case R_AARCH64_ADD_ABS_LO12_NC
    have m: "(0xfff :: u64) = mask 12" by (simp add: mask_eq_exp_minus_1)
    have "imm12 (set_12 (ucast ((s + a) AND 0xfff)) i) = ucast (ucast ((s + a) AND 0xfff) :: u32)" for i
      unfolding m by (rule imm12_set_12) (auto simp: bit_simps)
    moreover have "set_12 (ucast ((s + a) AND 0xfff)) i AND 0xffc003ff = i AND 0xffc003ff" for i
      unfolding m by (rule aarch64_set_keeps) (auto simp: bit_simps)
    moreover have "ucast (ucast ((s + a) AND 0xfff) :: u32) = (s + a) AND 0xfff" unfolding m by (rule bit_word_eqI) (auto simp: bit_simps)
    ultimately show ?thesis using R_AARCH64_ADD_ABS_LO12_NC by (simp add: apply_relocation_aarch64_def rs_put32_run aarch64_frame)
  next
    case R_AARCH64_LDST64_ABS_LO12_NC
    let ?v = "ucast (signed_drop_bit 3 ((s + a) AND 0xfff)) :: u32"
    have m: "(0xfff :: u64) = mask 12" by (simp add: mask_eq_exp_minus_1)
    have "imm12 (set_12 ?v i) = ucast ?v" for i unfolding m by (rule imm12_set_12) (auto simp: bit_simps)
    moreover have "set_12 ?v i AND 0xffc003ff = i AND 0xffc003ff" for i unfolding m by (rule aarch64_set_keeps) (auto simp: bit_simps)
    moreover have "push_bit 3 (ucast ?v) = (s + a) AND 0xfff"
    proof (rule bit_word_eqI)
      fix k :: nat assume "k < LENGTH(64)"
      then show "bit (push_bit 3 (ucast ?v) :: u64) k = bit ((s + a) AND 0xfff) k"
        using fits R_AARCH64_LDST64_ABS_LO12_NC unfolding m
        by (cases "k < 3"; auto simp: bit_simps; metis One_nat_def Suc_1 less_2_cases_iff less_Suc_eq numeral_3_eq_3)
    qed
    ultimately show ?thesis using R_AARCH64_LDST64_ABS_LO12_NC by (simp add: apply_relocation_aarch64_def rs_put32_run aarch64_frame)
  qed (use call in \<open>simp_all add: apply_relocation_aarch64_def act_modify_def aarch64_frame\<close>)
qed


theorem aarch64_relocation_resolved_witness:
  "\<exists>st'. apply_relocation_aarch64 0x40001000 0x40200000 0x10 (aarch64_code R_AARCH64_CALL26) \<lparr>rs_mem = \<lambda>_. 0, rs_plt = None, rs_hi20 = []\<rparr> = (Ok (), st') \<and>
     0x40001000 + imm26 (mem_u32 0x40001000 (rs_mem st')) = 0x40200010"
proof -
  have "aarch64_fits R_AARCH64_CALL26 0x40001000 (0x40200000 + 0x10)" by (simp add: within_def)
  from aarch64_relocation_resolved [OF this, of "\<lparr>rs_mem = \<lambda>_. 0, rs_plt = None, rs_hi20 = []\<rparr>"] show ?thesis by (auto simp del: aarch64_code.simps)
qed

text \<open>A call on AArch64 that is out of reach goes to a stub of the linkage table, which loads the target's address and jumps to it.\<close>

lemma mem_u32_sep: "sep a 4 b 4 \<Longrightarrow> mem_u32 a (put_u32 b w mem) = mem_u32 a mem"
  by (simp add: mem_u32_def put_u32_def)

lemma mem_u64_sep: "sep a 8 b 4 \<Longrightarrow> mem_u64 a (put_u32 b w mem) = mem_u64 a mem"
  by (simp add: mem_u64_def put_u32_def)

lemma aarch64_far_call:
  assumes far: "sint (ucast (signed_drop_bit 2 (s + a - p)) :: u32) > 0x1ffffff \<or> sint (ucast (signed_drop_bit 2 (s + a - p)) :: u32) < - 0x2000000"
    and plt: "rs_plt st = Some plt" "find (\<lambda>(t, _). t = s + a) (plt_entries plt) = None" "plt_count plt < MAX_PLT_ENTRIES"
    and stub: "stub = plt_base plt + of_nat (plt_count plt * PLT_ENTRY_SIZE)" "within (- (2 ^ 27)) (2 ^ 27) (stub - p)" "\<not> bit (stub - p) 0" "\<not> bit (stub - p) 1"
    and apart: "sep stub 16 p 4"
  shows "\<exists>st'. apply_relocation_aarch64 p s a (aarch64_code R_AARCH64_CALL26) st = (Ok (), st') \<and> p + imm26 (mem_u32 p (rs_mem st')) = stub \<and>
    mem_u32 stub (rs_mem st') = 0x58000050 \<and> mem_u32 (stub + 4) (rs_mem st') = 0xd61f0200 \<and> mem_u64 (stub + 8) (rs_mem st') = s + a"
proof -
  let ?off = "ucast (signed_drop_bit 2 (stub - p)) :: u32" and ?mem = "create_stub_aarch64 stub (s + a) (rs_mem st)"
  have "apply_relocation_aarch64 p s a (aarch64_code R_AARCH64_CALL26) st =
    rs_put32 p (set_26 ?off) (st\<lparr>rs_plt := Some (plt\<lparr>plt_entries := plt_entries plt @ [(s + a, stub)], plt_count := plt_count plt + 1\<rparr>), rs_mem := ?mem\<rparr>)"
    using far plt stub(1) by (simp add: apply_relocation_aarch64_def Let_def act_bind_def via_plt_def get_or_create_def)
  moreover have "signed_take_bit 27 (stub - p) = stub - p" using stub(2) by (intro signed_fits) (auto simp: within_def)
  moreover have off: "unat (stub + 4) = unat stub + 4" "unat (stub + 8) = unat stub + 8"
    using unat_off [of stub 16 4] unat_off [of stub 16 8] apart by (simp_all add: sep_def)
  have "mem_u32 stub (put_u32 p w m) = mem_u32 stub m" "mem_u32 (stub + 4) (put_u32 p w m) = mem_u32 (stub + 4) m" "mem_u64 (stub + 8) (put_u32 p w m) = mem_u64 (stub + 8) m" for w m
    using apart off by (auto intro!: mem_u32_sep mem_u64_sep simp: sep_def)
  moreover have "mem_u32 stub ?mem = 0x58000050" "mem_u32 (stub + 4) ?mem = 0xd61f0200" "mem_u64 (stub + 8) ?mem = s + a"
    using mem_put_u64_below [of 4 "stub + 4"] by (simp_all add: create_stub_aarch64_def mem_word_offsets add.assoc)
  ultimately show ?thesis using imm26_set_26 [OF stub(3,4)] by (simp add: rs_put32_run)
qed

end
