(* ===== verification/Module_Loader.thy ===== *)
theory Module_Loader
  imports Reloc
begin

text \<open>
  Kernel modules, the second half of \<open>src/module/loader.rs\<close>: loading of relocatable objects and executables, the list of loaded
  modules with its reference counts, and unloading. The code of a module is not part of the kernel: what its \<open>module_init\<close> and
  \<open>module_exit\<close> do is a parameter, and so is the architecture. The log output is left out, and so are the barriers that make new
  code visible to the instruction fetch.
\<close>

section \<open>State\<close>

datatype ModuleState = Loading | Live | Unloading

record LoadedModule =
  lm_name :: string
  lm_version :: string
  lm_base :: u64
  lm_size :: u64
  lm_state :: ModuleState
  lm_ref_count :: u64
  lm_unloading :: bool
  lm_init_fn :: "u64 option"
  lm_exit_fn :: "u64 option"
  lm_pages :: "nat list"
  lm_section_addrs :: "u64 list"
  lm_exported :: "(string \<times> u64) list"
  lm_plt_page :: "u64 option"

record mstate =
  ms_frames :: FrameAllocator
  ms_mem :: memory
  ms_symbols :: symtab
  ms_modules :: "LoadedModule list"

text \<open>Architecture, kernel symbols, and the code of the modules by its address.\<close>

record mod_env =
  me_machine :: ElfMachine
  me_relocate :: "u64 \<Rightarrow> u64 \<Rightarrow> u64 \<Rightarrow> u32 \<Rightarrow> (rel_state, unit, ModuleError) act"
  me_addr_of :: "string \<Rightarrow> u64"
  me_tests :: "(string \<times> u64) list"
  me_init :: "u64 \<Rightarrow> mstate \<Rightarrow> u32 \<times> mstate"
  me_exit :: "u64 \<Rightarrow> mstate \<Rightarrow> mstate"


section \<open>Loading\<close>

text \<open>The frames of a module; when one is missing, the ones taken so far are given back.\<close>

definition free_all :: "nat list \<Rightarrow> FrameAllocator \<Rightarrow> FrameAllocator" where
  "free_all pages fa = fold (\<lambda>page fa. free_frame fa page) pages fa"

fun alloc_module_pages :: "nat \<Rightarrow> nat list \<Rightarrow> FrameAllocator \<Rightarrow> (nat list, ModuleError) outcome \<times> FrameAllocator" where
  "alloc_module_pages 0 pages fa = (Ok pages, fa)"
| "alloc_module_pages (Suc n) pages fa =
     (case alloc_frame fa of
        (Some addr, fa) \<Rightarrow> alloc_module_pages n (pages @ [addr]) fa
      | (None, fa) \<Rightarrow> (Err OutOfMemory, free_all pages fa))"

definition section_offset :: "Elf64SectionHeader \<Rightarrow> u64 \<Rightarrow> u64" where
  "section_offset sh current_offset =
     (if sh_addralign sh > 0 \<and> current_offset mod sh_addralign sh \<noteq> 0 then align_up current_offset (sh_addralign sh) else current_offset)"

fun load_sections :: "Elf64 \<Rightarrow> u64 \<Rightarrow> Elf64SectionHeader list \<Rightarrow> u64 \<Rightarrow> (memory, u64 list, ModuleError) act" where
  "load_sections elf base_addr [] current_offset = act_return []"
| "load_sections elf base_addr (sh # shs) current_offset =
     (if sh_flags sh AND SHF_ALLOC \<noteq> 0
      then let offset = section_offset sh current_offset;
               load_addr = base_addr + offset
           in act_bind (if sh_type sh \<noteq> SHT_NOBITS
                        then act_bind (act_lift (\<lambda>_. section_data elf sh)) (\<lambda>data. act_modify (mem_write load_addr data))
                        else act_return ()) (\<lambda>_.
              act_bind (load_sections elf base_addr shs (offset + sh_size sh)) (\<lambda>addrs. act_return (load_addr # addrs)))
      else act_bind (load_sections elf base_addr shs current_offset) (\<lambda>addrs. act_return (0 # addrs)))"

type_synonym reloc_loop = "symtab \<times> rel_state"

definition symbol_value :: "mod_env \<Rightarrow> u64 list \<Rightarrow> Elf64Symbol \<Rightarrow> string \<Rightarrow> (reloc_loop, u64, ModuleError) act" where
  "symbol_value env section_addrs s name = (\<lambda>(symbols, st).
     if st_shndx s = SHN_UNDEF then
       (case lookup_symbol (me_addr_of env) (me_tests env) name symbols of (a, symbols) \<Rightarrow> (ok_or SymbolNotFound a, (symbols, st)))
     else if st_shndx s = SHN_ABS then (Ok (st_value s), (symbols, st))
     else let i = unat (st_shndx s)
          in (Ok (if i < length section_addrs \<and> section_addrs ! i \<noteq> 0 then section_addrs ! i + st_value s else st_value s), (symbols, st)))"

definition apply_rela :: "mod_env \<Rightarrow> Elf64 \<Rightarrow> u64 list \<Rightarrow> Elf64Symbol list \<Rightarrow> u64 \<Rightarrow> Elf64Rela \<Rightarrow> (reloc_loop, unit, ModuleError) act" where
  "apply_rela env elf section_addrs symbols section_base rela =
     (if unat (rela_symbol rela) \<ge> length symbols then act_return ()
      else let s = symbols ! unat (rela_symbol rela)
      in act_bind (act_lift (\<lambda>_. symbol_name elf s)) (\<lambda>name.
         act_bind (symbol_value env section_addrs s name) (\<lambda>value.
         (\<lambda>(syms, st). case me_relocate env (section_base + r_offset rela) value (r_addend rela) (rel_type rela) st of
            (r, st) \<Rightarrow> (r, (syms, st))))))"

definition apply_relocations :: "mod_env \<Rightarrow> Elf64 \<Rightarrow> u64 list \<Rightarrow> (reloc_loop, unit, ModuleError) act" where
  "apply_relocations env elf section_addrs =
     act_bind (act_lift (\<lambda>_. and_then (symbol_table elf) (ok_or SymbolNotFound))) (\<lambda>(_, symbols).
     act_for (elf_sections elf) (\<lambda>sh.
       act_bind (act_lift (\<lambda>_. relocations elf sh)) (\<lambda>relas.
         case relas of
           None \<Rightarrow> act_return ()
         | Some relas \<Rightarrow>
             let i = unat (sh_info sh)
             in if i \<ge> length section_addrs \<or> section_addrs ! i = 0 then act_return ()
                else act_for relas (apply_rela env elf section_addrs symbols (section_addrs ! i)))))"

text \<open>\<open>find_symbol(name).map(|sym| section_addrs[sym.st_shndx] + sym.st_value)\<close>\<close>

definition module_function :: "Elf64 \<Rightarrow> u64 list \<Rightarrow> string \<Rightarrow> (u64 option, ModuleError) outcome" where
  "module_function elf section_addrs name =
     and_then (find_symbol elf name) (\<lambda>s.
       case s of
         None \<Rightarrow> Ok None
       | Some s \<Rightarrow>
           let i = unat (st_shndx s)
           in if i < length section_addrs then Ok (Some (section_addrs ! i + st_value s)) else Panic)"

fun exported_symbols :: "Elf64 \<Rightarrow> u64 list \<Rightarrow> Elf64Symbol list \<Rightarrow> ((string \<times> u64) list, ModuleError) outcome" where
  "exported_symbols elf section_addrs [] = Ok []"
| "exported_symbols elf section_addrs (s # ss) =
     (if binding s = 1 \<and> st_shndx s \<noteq> SHN_UNDEF
      then and_then (symbol_name elf s) (\<lambda>name.
             let i = unat (st_shndx s);
                 here = (if name = [] then []
                         else if st_shndx s = SHN_ABS then [(name, st_value s)]
                         else if i < length section_addrs \<and> section_addrs ! i \<noteq> 0 then [(name, section_addrs ! i + st_value s)]
                         else [])
             in map_ok ((@) here) (exported_symbols elf section_addrs ss))
      else exported_symbols elf section_addrs ss)"

definition module_exports :: "Elf64 \<Rightarrow> u64 list \<Rightarrow> ((string \<times> u64) list, ModuleError) outcome" where
  "module_exports elf section_addrs =
     and_then (symbol_table elf) (\<lambda>table. case table of None \<Rightarrow> Ok [] | Some (_, symbols) \<Rightarrow> exported_symbols elf section_addrs symbols)"

text \<open>The part of \<open>load_object\<close> between the allocation of the frames and the call of \<open>module_init\<close>.\<close>

definition prepare_module :: "mod_env \<Rightarrow> Elf64 \<Rightarrow> string \<Rightarrow> nat list \<Rightarrow> (mstate, LoadedModule, ModuleError) act" where
  "prepare_module env elf name pages ms =
     (let base_addr = of_nat (hd pages);
          plt_base = of_nat (last pages);
          mem = mem_write base_addr (replicate (length pages * PAGE_SIZE) 0) (ms_mem ms)
      in case load_sections elf base_addr (elf_sections elf) 0 mem of
           (Err e, mem) \<Rightarrow> (Err e, ms\<lparr>ms_mem := mem\<rparr>)
         | (Panic, mem) \<Rightarrow> (Panic, ms\<lparr>ms_mem := mem\<rparr>)
         | (Ok section_addrs, mem) \<Rightarrow>
             case apply_relocations env elf section_addrs (ms_symbols ms, \<lparr>rs_mem = mem, rs_plt = Some (PltTable_new plt_base), rs_hi20 = []\<rparr>) of
               (r, (symbols, st)) \<Rightarrow>
                 let ms = ms\<lparr>ms_mem := rs_mem st, ms_symbols := symbols\<rparr>
                 in (and_then r (\<lambda>_.
                     and_then (module_function elf section_addrs ''module_init'') (\<lambda>init_fn.
                     and_then (module_function elf section_addrs ''module_exit'') (\<lambda>exit_fn.
                     and_then (module_exports elf section_addrs) (\<lambda>exported.
                     Ok \<lparr>lm_name = name, lm_version = ''0.0.0'', lm_base = base_addr, lm_size = section_memory_size elf, lm_state = Live,
                         lm_ref_count = 0, lm_unloading = False, lm_init_fn = init_fn, lm_exit_fn = exit_fn, lm_pages = pages,
                         lm_section_addrs = section_addrs, lm_exported = exported, lm_plt_page = Some plt_base\<rparr>)))), ms))"

definition LoadedModule_init :: "mod_env \<Rightarrow> LoadedModule \<Rightarrow> (mstate, unit, ModuleError) act" where
  "LoadedModule_init env m ms =
     (case lm_init_fn m of
        None \<Rightarrow> (Ok (), ms)
      | Some addr \<Rightarrow> case me_init env addr ms of (result, ms) \<Rightarrow> (if result \<noteq> 0 then Err (InitFailed result) else Ok (), ms))"

definition LoadedModule_exit :: "mod_env \<Rightarrow> LoadedModule \<Rightarrow> mstate \<Rightarrow> mstate" where
  "LoadedModule_exit env m ms = (case lm_exit_fn m of None \<Rightarrow> ms | Some addr \<Rightarrow> me_exit env addr ms)"

definition load_object :: "mod_env \<Rightarrow> bytes \<Rightarrow> string \<Rightarrow> (mstate, LoadedModule, ModuleError) act" where
  "load_object env data name =
     act_bind (act_lift (\<lambda>_. map_err ElfError (Elf64_parse (me_machine env) data))) (\<lambda>elf.
     if file_type elf \<noteq> ET_Rel then act_fail InvalidFormat
     else
       let mem_size = section_memory_size elf;
           num_pages = unat ((mem_size + of_nat PAGE_SIZE - 1) div of_nat PAGE_SIZE)
       in act_bind (\<lambda>ms. case alloc_module_pages (num_pages + 1) [] (ms_frames ms) of (r, fa) \<Rightarrow> (r, ms\<lparr>ms_frames := fa\<rparr>)) (\<lambda>pages.
          act_bind (prepare_module env elf name pages) (\<lambda>m ms.
            case LoadedModule_init env m ms of
              (Ok _, ms) \<Rightarrow> (Ok m, ms\<lparr>ms_modules := ms_modules ms @ [m]\<rparr>)
            | (Err e, ms) \<Rightarrow> (Err e, ms\<lparr>ms_frames := free_all (lm_pages m) (ms_frames ms)\<rparr>)
            | (Panic, ms) \<Rightarrow> (Panic, ms))))"


section \<open>Executables\<close>

text \<open>
  The segments are copied to their virtual addresses; a frame is taken for every page and not used. Slices of the file are checked.
\<close>

definition copy_page :: "bytes \<Rightarrow> Elf64ProgramHeader \<Rightarrow> nat \<Rightarrow> (mstate, unit, ModuleError) act" where
  "copy_page data ph i ms =
     (case alloc_frame (ms_frames ms) of
        (None, fa) \<Rightarrow> (Err OutOfMemory, ms\<lparr>ms_frames := fa\<rparr>)
      | (Some _, fa) \<Rightarrow>
          let ms = ms\<lparr>ms_frames := fa\<rparr>;
              file_size = unat (p_filesz ph);
              copy_start = i * PAGE_SIZE;
              copy_end = min ((i + 1) * PAGE_SIZE) file_size
          in if copy_start < file_size
             then let start = p_offset ph + of_nat copy_start; end' = p_offset ph + of_nat copy_end
                  in if start \<le> end' \<and> unat end' \<le> length data
                     then (Ok (), ms\<lparr>ms_mem := mem_write (p_vaddr ph + of_nat copy_start)
                            (take (unat end' - unat start) (drop (unat start) data)) (ms_mem ms)\<rparr>)
                     else (Panic, ms)
             else (Ok (), ms))"

definition load_executable :: "mod_env \<Rightarrow> bytes \<Rightarrow> (mstate, u64, ModuleError) act" where
  "load_executable env data =
     act_bind (act_lift (\<lambda>_. map_err ElfError (Elf64_parse (me_machine env) data))) (\<lambda>elf.
     if file_type elf \<noteq> ET_Exec \<and> file_type elf \<noteq> ET_Dyn then act_fail InvalidFormat
     else act_bind (act_for (load_segments elf) (\<lambda>ph.
            act_for [0..<unat ((p_memsz ph + of_nat PAGE_SIZE - 1) div of_nat PAGE_SIZE)] (copy_page data ph))) (\<lambda>_.
          act_return (entry_point elf)))"


section \<open>The list of modules\<close>

definition find_module :: "string \<Rightarrow> mstate \<Rightarrow> nat option" where
  "find_module name ms = position (\<lambda>m. lm_name m = name) (ms_modules ms)"

definition on_module :: "nat \<Rightarrow> (LoadedModule \<Rightarrow> LoadedModule) \<Rightarrow> mstate \<Rightarrow> mstate" where
  "on_module i f ms = ms\<lparr>ms_modules := (ms_modules ms)[i := f (ms_modules ms ! i)]\<rparr>"

text \<open>The three parts of \<open>unload\<close>, each under the lock of the list: raise the flag, look at the count, remove the module.\<close>

definition unload_mark :: "string \<Rightarrow> (mstate, unit, ModuleError) act" where
  "unload_mark name ms =
     (case find_module name ms of
        None \<Rightarrow> (Err ModNotFound, ms)
      | Some i \<Rightarrow>
          if lm_unloading (ms_modules ms ! i) then (Err ModuleUnloading, ms)
          else (Ok (), on_module i (\<lambda>m. m\<lparr>lm_unloading := True\<rparr>) ms))"

definition unload_check :: "string \<Rightarrow> (mstate, unit, ModuleError) act" where
  "unload_check name ms =
     (case find_module name ms of
        None \<Rightarrow> (Err ModNotFound, ms)
      | Some i \<Rightarrow>
          if lm_ref_count (ms_modules ms ! i) > 0 then (Err InUse, on_module i (\<lambda>m. m\<lparr>lm_unloading := False\<rparr>) ms)
          else (Ok (), ms))"

definition unload_remove :: "mod_env \<Rightarrow> string \<Rightarrow> (mstate, unit, ModuleError) act" where
  "unload_remove env name ms =
     (case find_module name ms of
        None \<Rightarrow> (Err ModNotFound, ms)
      | Some i \<Rightarrow>
          let m = ms_modules ms ! i;
              ms = LoadedModule_exit env m ms
          in (Ok (), ms\<lparr>ms_frames := free_all (lm_pages m) (ms_frames ms), ms_modules := vec_remove i (ms_modules ms)\<rparr>))"

definition unload :: "mod_env \<Rightarrow> string \<Rightarrow> (mstate, unit, ModuleError) act" where
  "unload env name = act_bind (unload_mark name) (\<lambda>_. act_bind (unload_check name) (\<lambda>_. unload_remove env name))"

text \<open>
  \<open>unload_wait\<close> looks at the count again and again; \<open>others\<close> is what other threads do in between. With a limit of 0 it may wait forever.
\<close>

partial_function (option) wait_refs :: "(mstate \<Rightarrow> mstate) \<Rightarrow> string \<Rightarrow> nat \<Rightarrow> nat \<Rightarrow> mstate \<Rightarrow> ((unit, ModuleError) outcome \<times> mstate) option" where
  "wait_refs others name max_wait waited ms =
     (case find_module name ms of
        None \<Rightarrow> Some (Err ModNotFound, ms)
      | Some i \<Rightarrow>
          if lm_ref_count (ms_modules ms ! i) = 0 then Some (Ok (), ms)
          else if max_wait > 0 \<and> Suc waited \<ge> max_wait
          then let ms = others ms
               in Some (Err InUse, case find_module name ms of None \<Rightarrow> ms | Some i \<Rightarrow> on_module i (\<lambda>m. m\<lparr>lm_unloading := False\<rparr>) ms)
          else wait_refs others name max_wait (Suc waited) (others ms))"

definition unload_wait :: "mod_env \<Rightarrow> (mstate \<Rightarrow> mstate) \<Rightarrow> string \<Rightarrow> nat \<Rightarrow> mstate \<Rightarrow> ((unit, ModuleError) outcome \<times> mstate) option" where
  "unload_wait env others name max_wait ms =
     (case unload_mark name ms of
        (Ok _, ms) \<Rightarrow>
          (case wait_refs others name max_wait 0 ms of
             None \<Rightarrow> None
           | Some (Ok _, ms) \<Rightarrow> Some (unload_remove env name ms)
           | Some (r, ms) \<Rightarrow> Some (r, ms))
      | (r, ms) \<Rightarrow> Some (r, ms))"

text \<open>\<open>acquire\<close> looks at the flag and then counts the reference; both steps are atomic, the two together are not.\<close>

definition acquire_look :: "string \<Rightarrow> (mstate, unit, ModuleError) act" where
  "acquire_look name ms =
     (case find_module name ms of
        None \<Rightarrow> (Err ModNotFound, ms)
      | Some i \<Rightarrow> (if lm_unloading (ms_modules ms ! i) then Err ModuleUnloading else Ok (), ms))"

definition acquire_count :: "string \<Rightarrow> mstate \<Rightarrow> mstate" where
  "acquire_count name ms = (case find_module name ms of None \<Rightarrow> ms | Some i \<Rightarrow> on_module i (\<lambda>m. m\<lparr>lm_ref_count := lm_ref_count m + 1\<rparr>) ms)"

definition acquire :: "string \<Rightarrow> (mstate, string, ModuleError) act" where
  "acquire name = act_bind (acquire_look name) (\<lambda>_. act_bind (act_modify (acquire_count name)) (\<lambda>_. act_return name))"

definition ModuleRef_drop :: "string \<Rightarrow> mstate \<Rightarrow> mstate" where
  "ModuleRef_drop name ms = (case find_module name ms of None \<Rightarrow> ms | Some i \<Rightarrow> on_module i (\<lambda>m. m\<lparr>lm_ref_count := lm_ref_count m - 1\<rparr>) ms)"

definition module_list :: "mstate \<Rightarrow> string list" where
  "module_list ms = map lm_name (ms_modules ms)"

definition module_lookup :: "LoadedModule \<Rightarrow> string \<Rightarrow> u64 option" where
  "module_lookup m name = map_option snd (find (\<lambda>(n, _). n = name) (lm_exported m))"

definition lookup_symbol_in :: "string \<Rightarrow> string \<Rightarrow> mstate \<Rightarrow> u64 option" where
  "lookup_symbol_in module_name name ms =
     (case find_module module_name ms of None \<Rightarrow> None | Some i \<Rightarrow> module_lookup (ms_modules ms ! i) name)"

fun first_some :: "('a \<Rightarrow> 'b option) \<Rightarrow> 'a list \<Rightarrow> 'b option" where
  "first_some f [] = None"
| "first_some f (x # xs) = (case f x of Some y \<Rightarrow> Some y | None \<Rightarrow> first_some f xs)"

definition lookup_symbol_global :: "mod_env \<Rightarrow> string \<Rightarrow> mstate \<Rightarrow> u64 option \<times> mstate" where
  "lookup_symbol_global env name ms =
     (case lookup_symbol (me_addr_of env) (me_tests env) name (ms_symbols ms) of
        (r, symbols) \<Rightarrow> (case r of Some a \<Rightarrow> Some a | None \<Rightarrow> first_some (\<lambda>m. module_lookup m name) (ms_modules ms), ms\<lparr>ms_symbols := symbols\<rparr>))"

definition export_symbol :: "string \<Rightarrow> string \<Rightarrow> u64 \<Rightarrow> mstate \<Rightarrow> bool \<times> mstate" where
  "export_symbol module_name name address ms =
     (case find_module module_name ms of
        None \<Rightarrow> (False, ms)
      | Some i \<Rightarrow> (True, on_module i (\<lambda>m. m\<lparr>lm_exported := put_symbol name address (lm_exported m)\<rparr>) ms))"

text \<open>The built-in test module has no file; its functions are in the kernel.\<close>

definition load_test_module :: "mod_env \<Rightarrow> u64 \<Rightarrow> u64 \<Rightarrow> (mstate, unit, ModuleError) act" where
  "load_test_module env init_addr exit_addr ms =
     (case alloc_frame (ms_frames ms) of
        (None, fa) \<Rightarrow> (Err OutOfMemory, ms\<lparr>ms_frames := fa\<rparr>)
      | (Some addr, fa) \<Rightarrow>
          let m = \<lparr>lm_name = ''test_builtin'', lm_version = ''0.0.0'', lm_base = of_nat addr, lm_size = of_nat PAGE_SIZE, lm_state = Live,
                   lm_ref_count = 0, lm_unloading = False, lm_init_fn = Some init_addr, lm_exit_fn = Some exit_addr, lm_pages = [addr],
                   lm_section_addrs = [], lm_exported = [], lm_plt_page = None\<rparr>
          in act_bind (LoadedModule_init env m) (\<lambda>_. act_modify (\<lambda>ms. ms\<lparr>ms_modules := ms_modules ms @ [m]\<rparr>)) (ms\<lparr>ms_frames := fa\<rparr>))"

record ModuleInfo =
  mi_name :: string
  mi_version :: string
  mi_base_addr :: u64
  mi_size :: u64
  mi_state :: ModuleState
  mi_ref_count :: u64
  mi_is_unloading :: bool
  mi_exported_symbol_count :: nat

definition module_info :: "string \<Rightarrow> mstate \<Rightarrow> ModuleInfo option" where
  "module_info name ms =
     map_option (\<lambda>i. let m = ms_modules ms ! i
       in \<lparr>mi_name = lm_name m, mi_version = lm_version m, mi_base_addr = lm_base m, mi_size = lm_size m, mi_state = lm_state m,
           mi_ref_count = lm_ref_count m, mi_is_unloading = lm_unloading m, mi_exported_symbol_count = length (lm_exported m)\<rparr>) (find_module name ms)"

definition list_module_symbols :: "string \<Rightarrow> mstate \<Rightarrow> (string \<times> u64) list" where
  "list_module_symbols name ms = (case find_module name ms of None \<Rightarrow> [] | Some i \<Rightarrow> lm_exported (ms_modules ms ! i))"


section \<open>The layout of a module\<close>

lemma align_down: "unat (x AND NOT (2 ^ k - 1)) = unat x div 2 ^ k * 2 ^ k" if "k < 64" for x :: u64
proof -
  have "(2 ^ k - 1 :: u64) = mask k" by (simp add: mask_eq_exp_minus_1)
  moreover have "x AND NOT (mask k) = push_bit k (drop_bit k x)" by (rule bit_word_eqI) (auto simp: bit_simps)
  moreover have "unat (push_bit k (drop_bit k x)) = take_bit 64 (unat x div 2 ^ k * 2 ^ k)"
    unfolding unsigned_push_bit_eq unat_drop_bit_eq by (simp add: drop_bit_eq_div push_bit_eq_mult)
  moreover have "unat x div 2 ^ k * 2 ^ k < 2 ^ 64" using unat_less_exp [of x] by (simp add: le_less_trans [OF div_times_less_eq_dividend])
  ultimately show ?thesis by (simp add: take_bit_nat_eq_self)
qed

definition good_align :: "u64 \<Rightarrow> bool" where
  "good_align a \<longleftrightarrow> a = 0 \<or> (\<exists>k<64. a = 2 ^ k)"

lemma section_offset_aligned:
  assumes "good_align (sh_addralign sh)" "unat off + unat (sh_addralign sh) < 2 ^ 64"
  shows "unat off \<le> unat (section_offset sh off)" "unat (section_offset sh off) \<le> unat off + unat (sh_addralign sh)"
    "unat (sh_addralign sh) dvd unat (section_offset sh off) \<or> sh_addralign sh = 0"
proof -
  have "unat off \<le> unat (section_offset sh off) \<and> unat (section_offset sh off) \<le> unat off + unat (sh_addralign sh) \<and>
    (unat (sh_addralign sh) dvd unat (section_offset sh off) \<or> sh_addralign sh = 0)"
  proof (cases "sh_addralign sh = 0")
    case False
    then obtain k where k: "k < 64" "sh_addralign sh = 2 ^ k" using assms(1) by (auto simp: good_align_def)
    then have a: "unat (sh_addralign sh) = 2 ^ k" using unsigned_of_nat [where 'a = nat and 'b = 64, of "2 ^ k"] by (simp add: take_bit_nat_eq_self)
    have up: "unat (off + 2 ^ k - 1) = unat off + 2 ^ k - 1" using assms(2) k a by (simp add: unat_sub_if' unat_word_ariths trans_le_add2)
    have m: "unat (off mod sh_addralign sh) = unat off mod 2 ^ k" using a by (simp add: unat_mod_distrib)
    show ?thesis
    proof (cases "off mod sh_addralign sh = 0")
      case True
      then have "2 ^ k dvd unat off" using m by (metis dvd_eq_mod_eq_0 unat_0)
      then show ?thesis using True a by (simp add: section_offset_def)
    next
      case mod: False
      have "unat (section_offset sh off) = (unat off + 2 ^ k - 1) div 2 ^ k * 2 ^ k"
        using mod False align_down [OF k(1), of "off + 2 ^ k - 1"] up k(2) by (simp add: section_offset_def align_up_def word_gt_0)
      moreover have "(unat off + 2 ^ k - 1) div 2 ^ k * 2 ^ k + (unat off + 2 ^ k - 1) mod 2 ^ k = unat off + 2 ^ k - 1" by (rule div_mult_mod_eq)
      moreover have "(unat off + 2 ^ k - 1) mod 2 ^ k < 2 ^ k" by simp
      ultimately show ?thesis using a by (simp only: dvd_triv_right simp_thms) (intro conjI; linarith)
    qed
  qed (simp add: section_offset_def)
  then show "unat off \<le> unat (section_offset sh off)" "unat (section_offset sh off) \<le> unat off + unat (sh_addralign sh)"
    "unat (sh_addralign sh) dvd unat (section_offset sh off) \<or> sh_addralign sh = 0" by auto
qed

text \<open>Sections whose contents are in the file, with alignments that are powers of two, that need less than the whole address space.\<close>

definition loaded :: "Elf64SectionHeader \<Rightarrow> bool" where
  "loaded sh \<longleftrightarrow> sh_flags sh AND SHF_ALLOC \<noteq> 0"

definition section_room :: "Elf64SectionHeader list \<Rightarrow> nat" where
  "section_room shs = (\<Sum>sh \<leftarrow> filter loaded shs. unat (sh_size sh) + unat (sh_addralign sh))"

definition sections_ok :: "bytes \<Rightarrow> Elf64SectionHeader list \<Rightarrow> bool" where
  "sections_ok data shs \<longleftrightarrow> (\<forall>sh \<in> set shs. loaded sh \<longrightarrow> good_align (sh_addralign sh) \<and>
     (sh_type sh \<noteq> SHT_NOBITS \<longrightarrow> unat (sh_offset sh) + unat (sh_size sh) \<le> length data))"

definition section_contents :: "bytes \<Rightarrow> Elf64SectionHeader \<Rightarrow> bytes" where
  "section_contents data sh = take (unat (sh_size sh)) (drop (unat (sh_offset sh)) data)"

definition placed :: "bytes \<Rightarrow> u64 \<Rightarrow> memory \<Rightarrow> Elf64SectionHeader \<Rightarrow> u64 \<Rightarrow> bool" where
  "placed data base mem sh a \<longleftrightarrow> (sh_addralign sh \<noteq> 0 \<longrightarrow> unat (sh_addralign sh) dvd unat (a - base)) \<and>
     (sh_type sh \<noteq> SHT_NOBITS \<longrightarrow> mem_read a (unat (sh_size sh)) mem = section_contents data sh)"

text \<open>Behind \<open>off\<close>, one after the other, and below \<open>lim\<close>.\<close>

fun in_order :: "u64 \<Rightarrow> nat \<Rightarrow> nat \<Rightarrow> Elf64SectionHeader list \<Rightarrow> u64 list \<Rightarrow> bool" where
  "in_order base off lim [] addrs \<longleftrightarrow> addrs = [] \<and> off \<le> lim"
| "in_order base off lim (sh # shs) addrs \<longleftrightarrow>
     (case addrs of
        [] \<Rightarrow> False
      | a # addrs \<Rightarrow>
          if loaded sh then off \<le> unat (a - base) \<and> in_order base (unat (a - base) + unat (sh_size sh)) lim shs addrs
          else a = 0 \<and> in_order base off lim shs addrs)"

lemma in_order_mono: "in_order base off lim shs addrs \<Longrightarrow> lim \<le> lim' \<Longrightarrow> in_order base off lim' shs addrs"
  by (induction shs arbitrary: off addrs) (auto split: list.splits if_splits)

lemma section_data_contents:
  assumes "length (elf_data elf) < 2 ^ 64" "sections_ok (elf_data elf) [sh]" "loaded sh" "sh_type sh \<noteq> SHT_NOBITS"
  shows "section_data elf sh = Ok (section_contents (elf_data elf) sh)"
proof -
  have le: "unat (sh_offset sh) + unat (sh_size sh) \<le> length (elf_data elf)" using assms by (simp add: sections_ok_def)
  then have "unat (sh_offset sh + sh_size sh) = unat (sh_offset sh) + unat (sh_size sh)" using assms(1) by (simp add: unat_word_ariths)
  then show ?thesis using le assms(4) by (simp add: section_data_def data_range_def section_contents_def word_le_nat_alt Let_def)
qed

lemma load_sections_spec:
  assumes "length (elf_data elf) < 2 ^ 64" "sections_ok (elf_data elf) shs" "unat off + section_room shs < 2 ^ 64"
  shows "\<exists>addrs mem'. load_sections elf base shs off mem = (Ok addrs, mem') \<and> in_order base (unat off) (unat off + section_room shs) shs addrs \<and>
    (\<forall>(sh, a) \<in> set (zip shs addrs). loaded sh \<longrightarrow> placed (elf_data elf) base mem' sh a) \<and> (\<forall>a. unat (a - base) < unat off \<longrightarrow> mem' a = mem a)"
  using assms(2,3)
proof (induction shs arbitrary: off mem)
  case (Cons sh shs)
  show ?case
  proof (cases "loaded sh")
    case False
    then have "section_room (sh # shs) = section_room shs" "sections_ok (elf_data elf) shs" using Cons.prems(1) by (simp_all add: section_room_def sections_ok_def)
    moreover from this obtain addrs mem' where "load_sections elf base shs off mem = (Ok addrs, mem')" "in_order base (unat off) (unat off + section_room shs) shs addrs"
      "\<forall>(sh, a) \<in> set (zip shs addrs). loaded sh \<longrightarrow> placed (elf_data elf) base mem' sh a" "\<forall>a. unat (a - base) < unat off \<longrightarrow> mem' a = mem a"
      using Cons.IH [of off mem] Cons.prems by auto
    ultimately show ?thesis using False by (auto simp: act_bind_def act_return_def loaded_def)
  next
    case True
    let ?o = "section_offset sh off"
    define load_addr where "load_addr = base + ?o"
    define mem1 where "mem1 = (if sh_type sh \<noteq> SHT_NOBITS then mem_write load_addr (section_contents (elf_data elf) sh) mem else mem)"
    have ok: "sections_ok (elf_data elf) [sh]" "sections_ok (elf_data elf) shs" "good_align (sh_addralign sh)" using Cons.prems(1) True by (auto simp: sections_ok_def)
    have room: "section_room (sh # shs) = unat (sh_size sh) + unat (sh_addralign sh) + section_room shs" using True by (simp add: section_room_def)
    note o = section_offset_aligned [OF ok(3)]
    have o: "unat off \<le> unat ?o" "unat ?o \<le> unat off + unat (sh_addralign sh)" "unat (sh_addralign sh) dvd unat ?o \<or> sh_addralign sh = 0"
      using o [of off] Cons.prems(2) room by auto
    have after: "unat (?o + sh_size sh) = unat ?o + unat (sh_size sh)" using o(2) Cons.prems(2) room by (simp add: unat_word_ariths)
    have "unat (?o + sh_size sh) + section_room shs < 2 ^ 64" using after o(2) Cons.prems(2) room by simp
    from Cons.IH [OF ok(2) this, of mem1] obtain addrs mem' where rest: "load_sections elf base shs (?o + sh_size sh) mem1 = (Ok addrs, mem')"
      "in_order base (unat (?o + sh_size sh)) (unat (?o + sh_size sh) + section_room shs) shs addrs"
      "\<forall>(sh, a) \<in> set (zip shs addrs). loaded sh \<longrightarrow> placed (elf_data elf) base mem' sh a" "\<forall>a. unat (a - base) < unat (?o + sh_size sh) \<longrightarrow> mem' a = mem1 a" by blast
    have run: "load_sections elf base (sh # shs) off mem = (Ok (load_addr # addrs), mem')"
      using True rest(1)
      by (auto simp: section_data_contents [OF assms(1) ok(1) True] loaded_def Let_def load_addr_def mem1_def act_bind_def act_lift_def act_modify_def act_return_def)
    have len: "length (section_contents (elf_data elf) sh) = unat (sh_size sh)" if "sh_type sh \<noteq> SHT_NOBITS" using ok(1) True that by (auto simp: sections_ok_def section_contents_def min_absorb2)
    have "mem' (load_addr + of_nat i) = mem1 (load_addr + of_nat i)" if "i < unat (sh_size sh)" for i
    proof -
      have "unat (?o + of_nat i) = unat ?o + i" using that after unat_less_exp [of "?o + sh_size sh"] by (intro unat_off [of _ "unat (sh_size sh)"]) auto
      then show ?thesis using rest(4) that after by (simp add: load_addr_def add.assoc)
    qed
    then have "mem_read load_addr (unat (sh_size sh)) mem' = mem_read load_addr (unat (sh_size sh)) mem1" by (simp add: mem_read_def)
    moreover have "mem_read load_addr (unat (sh_size sh)) (mem_write load_addr (section_contents (elf_data elf) sh) mem) = section_contents (elf_data elf) sh" if "sh_type sh \<noteq> SHT_NOBITS"
      unfolding len [OF that, symmetric] by (rule mem_read_write_same) (use len [OF that] unat_less_exp [of "sh_size sh"] in simp)
    ultimately have "placed (elf_data elf) base mem' sh load_addr" using o(3) by (auto simp: placed_def mem1_def) (simp_all add: load_addr_def)
    moreover have "mem' a = mem a" if "unat (a - base) < unat off" for a
    proof -
      have "unat (a - load_addr) = unat (a - base) + 2 ^ 64 - unat ?o" using that o(1) unat_sub_if' [of "a - base" ?o] by (simp add: load_addr_def diff_diff_eq)
      then have "unat (sh_size sh) \<le> unat (a - load_addr)" using after unat_less_exp [of "?o + sh_size sh"] by simp
      then have "mem1 a = mem a" using len by (auto simp: mem1_def mem_write_def)
      then show ?thesis using rest(4) that o(1) after by simp
    qed
    moreover have "in_order base (unat off) (unat off + section_room (sh # shs)) (sh # shs) (load_addr # addrs)"
      using in_order_mono [OF rest(2), of "unat off + section_room (sh # shs)"] o(1,2) after room True by (simp add: load_addr_def)
    ultimately show ?thesis using run rest(3) by auto
  qed
qed (simp add: act_return_def section_room_def)

text \<open>
  C11. Loading of the sections. When the contents of the sections to load are in the file, their alignments are powers of two and they fit
  into the address space, \<open>load_sections\<close> succeeds: it gives one address per section, the loaded sections follow one another without overlap
  from the base on, the offset of each from the base is a multiple of its alignment, and after the call the memory at its address holds its contents.
\<close>

theorem sections_loaded:
  assumes "length (elf_data elf) < 2 ^ 64" "sections_ok (elf_data elf) (elf_sections elf)" "section_room (elf_sections elf) < 2 ^ 64"
  shows "\<exists>addrs mem'. load_sections elf base (elf_sections elf) 0 mem = (Ok addrs, mem') \<and>
    in_order base 0 (section_room (elf_sections elf)) (elf_sections elf) addrs \<and>
    (\<forall>(sh, a) \<in> set (zip (elf_sections elf) addrs). loaded sh \<longrightarrow> placed (elf_data elf) base mem' sh a)"
  using load_sections_spec [OF assms(1,2), of 0 base mem] assms(3) by auto

text \<open>Two sections, of one byte and of eight bytes on a page boundary.\<close>

definition two_sections :: Elf64 where
  "two_sections = \<lparr>elf_data = [7, 1, 2, 3, 4, 5, 6, 7, 8], elf_header = demo_header,
     elf_sections = [\<lparr>sh_name = 0, sh_type = 1, sh_flags = SHF_ALLOC, sh_addr = 0, sh_offset = 0, sh_size = 1, sh_link = 0, sh_info = 0, sh_addralign = 1, sh_entsize = 0\<rparr>,
       \<lparr>sh_name = 0, sh_type = 1, sh_flags = SHF_ALLOC, sh_addr = 0, sh_offset = 1, sh_size = 8, sh_link = 0, sh_info = 0, sh_addralign = 4096, sh_entsize = 0\<rparr>],
     elf_programs = None, elf_shstrtab = []\<rparr>"

theorem sections_loaded_witness:
  "\<exists>a b mem'. load_sections two_sections 0x80000000 (elf_sections two_sections) 0 (\<lambda>_. 0) = (Ok [a, b], mem') \<and> mem_read a 1 mem' = [7] \<and> mem_read b 8 mem' = [1, 2, 3, 4, 5, 6, 7, 8]"
proof -
  have "sections_ok (elf_data two_sections) (elf_sections two_sections)"
    by (auto simp: sections_ok_def two_sections_def good_align_def intro: exI [of _ 0] exI [of _ 12])
  moreover have "section_room (elf_sections two_sections) = 4106" by (simp add: section_room_def two_sections_def loaded_def SHF_ALLOC_def)
  moreover have "length (elf_data two_sections) < 2 ^ 64" by (simp add: two_sections_def)
  ultimately obtain addrs mem' where "load_sections two_sections 0x80000000 (elf_sections two_sections) 0 (\<lambda>_. 0) = (Ok addrs, mem')"
    "in_order 0x80000000 0 (section_room (elf_sections two_sections)) (elf_sections two_sections) addrs"
    "\<forall>(sh, a) \<in> set (zip (elf_sections two_sections) addrs). loaded sh \<longrightarrow> placed (elf_data two_sections) 0x80000000 mem' sh a"
    using sections_loaded [where elf = two_sections and base = "0x80000000" and mem = "\<lambda>_. 0"] by auto
  then show ?thesis by (auto simp: two_sections_def loaded_def SHF_ALLOC_def SHT_NOBITS_def placed_def section_contents_def split: list.splits)
qed







section \<open>Waiting for guards\<close>

text \<open>With a limit, \<open>unload_wait\<close> returns, whatever other threads do meanwhile.\<close>

lemma wait_refs_returns:
  assumes "0 < max_wait"
  shows "\<exists>r. wait_refs others name max_wait waited ms = Some r"
proof (induction "max_wait - waited" arbitrary: waited ms rule: less_induct)
  case less
  show ?case
  proof (cases "Suc waited \<ge> max_wait")
    case True
    then show ?thesis by (subst wait_refs.simps) (use assms in \<open>auto simp: Let_def split: option.split\<close>)
  next
    case False
    then have "\<exists>r. wait_refs others name max_wait (Suc waited) (others ms) = Some r" by (intro less) simp
    then show ?thesis by (subst wait_refs.simps) (auto simp: Let_def split: option.split)
  qed
qed

lemma unload_wait_returns:
  assumes "0 < max_wait"
  shows "\<exists>r. unload_wait env others name max_wait ms = Some r"
proof -
  have "\<exists>r. wait_refs others name max_wait 0 ms' = Some r" for ms' by (rule wait_refs_returns [OF assms])
  then obtain r ms' where run: "unload_mark name ms = (r, ms')" "\<exists>x. wait_refs others name max_wait 0 ms' = Some x" by (cases "unload_mark name ms") blast
  then show ?thesis by (cases r) (auto simp: unload_wait_def split: prod.split outcome.split)
qed

end
