(* ===== verification/Module_Life.thy ===== *)
theory Module_Life
  imports Module_Loader "HOL-Library.Multiset"
begin

text \<open>
  The life of kernel modules, over the loader of \<open>src/module/loader.rs\<close>: the page frames that loading takes and unloading gives back, and the
  references that keep a module from being unloaded, first for whole calls and then for interleaved ones.
\<close>

section \<open>Frames\<close>

lemma free_all_held:
  assumes "fa_wf fa" "distinct pages" "set pages \<subseteq> held_frames fa"
  shows "fa_wf (free_all pages fa) \<and> held_frames (free_all pages fa) = held_frames fa - set pages \<and> pool_frames (free_all pages fa) = pool_frames fa"
  using assms
proof (induction pages arbitrary: fa)
  case (Cons p pages)
  have p: "held_frames (free_frame fa p) = held_frames fa - {p}" "pool_frames (free_frame fa p) = pool_frames fa" "fa_wf (free_frame fa p)"
    using free_frame_held [of fa p] Cons.prems by auto
  then have "set pages \<subseteq> held_frames (free_frame fa p)" using Cons.prems by auto
  then show ?case using Cons.IH [of "free_frame fa p"] Cons.prems p by (auto simp: free_all_def)
qed (simp add: free_all_def)

lemma alloc_module_pages_held:
  assumes "fa_wf fa" "distinct pages" "set pages \<subseteq> held_frames fa"
  shows "case alloc_module_pages n pages fa of
      (Ok ps, fa') \<Rightarrow> fa_wf fa' \<and> length ps = length pages + n \<and> distinct ps \<and> set pages \<subseteq> set ps \<and> (set ps - set pages) \<inter> held_frames fa = {} \<and>
        held_frames fa' = held_frames fa \<union> set ps
    | (Err e, fa') \<Rightarrow> fa_wf fa' \<and> e = OutOfMemory \<and> held_frames fa' = held_frames fa - set pages
    | (Panic, fa') \<Rightarrow> False"
  using assms
proof (induction n arbitrary: pages fa)
  case (Suc n)
  obtain r fa1 where alloc: "alloc_frame fa = (r, fa1)" by fastforce
  show ?case
  proof (cases r)
    case None
    then have "held_frames fa = pool_frames fa" "fa1 = fa" using alloc_frame_None [OF Suc.prems(1)] alloc by auto
    then show ?thesis using None alloc free_all_held [OF Suc.prems] by simp
  next
    case (Some a)
    then have a: "a \<notin> held_frames fa" "held_frames fa1 = insert a (held_frames fa)" "fa_wf fa1" using alloc_frame_Some [OF Suc.prems(1)] alloc by auto
    have pages: "distinct (pages @ [a])" "set (pages @ [a]) \<subseteq> held_frames fa1" using a Suc.prems by auto
    show ?thesis using Suc.IH [OF a(3) pages] Some alloc a Suc.prems by (auto split: prod.splits outcome.splits)
  qed
qed auto

lemma prepare_module_keeps:
  assumes "prepare_module env elf name pages ms = (r, ms')"
  shows "ms_frames ms' = ms_frames ms" "ms_modules ms' = ms_modules ms"
    "\<And>m. r = Ok m \<Longrightarrow> lm_pages m = pages \<and> lm_name m = name \<and> lm_ref_count m = 0 \<and> \<not> lm_unloading m"
  using assms by (auto simp: prepare_module_def Let_def split: prod.splits outcome.splits)

lemma position_append_last: "\<forall>x \<in> set xs. \<not> p x \<Longrightarrow> p y \<Longrightarrow> position p (xs @ [y]) = Some (length xs)"
  by (induction xs) auto


lemma find_module_appended: "name \<notin> set (module_list ms) \<Longrightarrow> ms_modules ms' = ms_modules ms @ [m] \<Longrightarrow> lm_name m = name \<Longrightarrow>
    find_module name ms' = Some (length (ms_modules ms))"
  unfolding find_module_def module_list_def by (simp, rule position_append_last) (metis image_eqI set_map | simp)+

text \<open>Which errors loading may end with after the frames were taken: those of the relocations, and a failed \<open>module_init\<close>.\<close>

definition reloc_error :: "ModuleError \<Rightarrow> bool" where
  "reloc_error e = (case e of SymbolNotFound \<Rightarrow> True | UnsupportedRelocation _ \<Rightarrow> True | _ \<Rightarrow> False)"

definition reloc_errors :: "('a, ModuleError) outcome \<Rightarrow> bool" where
  "reloc_errors r = (case r of Err e \<Rightarrow> reloc_error e | _ \<Rightarrow> True)"

lemma reloc_errors_simps [simp]:
  "reloc_errors (Ok x)" "reloc_errors Panic" "reloc_errors (Err e) = reloc_error e" "reloc_error SymbolNotFound" "reloc_error (UnsupportedRelocation t)"
  by (simp_all add: reloc_errors_def reloc_error_def)

lemma reloc_error_other [simp]: "\<not> reloc_error InvalidFormat" "\<not> reloc_error (ElfError x)" "\<not> reloc_error OutOfMemory" "\<not> reloc_error (InitFailed c)"
  by (simp_all add: reloc_error_def)

named_theorems reloc_errs \<open>steps of the loader that fail only with an error of the relocations\<close>

lemma reloc_errors_bind [reloc_errs]:
  "reloc_errors (fst (m s)) \<Longrightarrow> (\<And>x s. reloc_errors (fst (f x s))) \<Longrightarrow> reloc_errors (fst (act_bind m f s))"
  by (cases "m s"; cases "fst (m s)") (auto simp: act_bind_def)

lemma reloc_errors_and_then [reloc_errs]: "reloc_errors r \<Longrightarrow> (\<And>x. reloc_errors (f x)) \<Longrightarrow> reloc_errors (and_then r f)"
  by (cases r) auto

lemma reloc_errors_for [reloc_errs]: "(\<And>x s. reloc_errors (fst (f x s))) \<Longrightarrow> reloc_errors (fst (act_for xs f s))"
  by (induction xs arbitrary: s) (auto intro: reloc_errors_bind simp: act_return_def)

lemma reloc_errors_acts [reloc_errs]:
  "reloc_errors (fst (act_return x s))" "reloc_errors (fst (act_modify f s))" "reloc_errors (fst (act_fail (UnsupportedRelocation t) s))"
  "reloc_errors (f s) \<Longrightarrow> reloc_errors (fst (act_lift f s))" "reloc_errors (fst (rs_put32 p g st))" "reloc_errors (fst (via_plt c t a st))"
  by (auto simp: act_return_def act_modify_def act_fail_def act_lift_def rs_put32_def via_plt_def split: option.split prod.split)

lemma reloc_errors_map_ok [reloc_errs]: "reloc_errors r \<Longrightarrow> reloc_errors (map_ok g r)"
  by (cases r) auto

lemma reloc_errors_slices [reloc_errs]: "reloc_errors (data_range d a n)" "reloc_errors (structs_at dec w d off c)" "reloc_errors (section_data elf sh)"
  by (simp_all add: section_data_def data_range_def structs_at_def Let_def)

lemma reloc_errors_symbol_table [reloc_errs]: "reloc_errors (symbol_table elf)"
  unfolding symbol_table_def by (auto intro!: reloc_errs split: option.split)

lemma reloc_errors_symbol_name [reloc_errs]: "reloc_errors (symbol_name elf s)"
  unfolding symbol_name_def by (auto intro!: reloc_errs split: option.split)

lemma reloc_errors_find_named: "reloc_errors (find_named elf name syms)"
  by (induction syms) (auto intro!: reloc_errs)

lemma reloc_errors_functions [reloc_errs]: "reloc_errors (relocations elf sh)" "reloc_errors (module_function elf addrs name)"
  unfolding relocations_def module_function_def find_symbol_def Let_def
  by (auto intro!: reloc_errs reloc_errors_find_named split: option.split)

lemma reloc_errors_exported: "reloc_errors (exported_symbols elf addrs syms)"
  by (induction syms) (auto intro!: reloc_errs simp: Let_def)

lemma reloc_errors_exports [reloc_errs]: "reloc_errors (module_exports elf addrs)"
  unfolding module_exports_def by (auto intro!: reloc_errs reloc_errors_exported split: option.split)

lemma reloc_errors_sections [reloc_errs]: "reloc_errors (fst (load_sections elf base shs off mem))"
  by (induction shs arbitrary: off mem) (auto intro!: reloc_errs simp: Let_def)

lemma reloc_errors_riscv [reloc_errs]: "reloc_errors (fst (apply_relocation_riscv p s a t st))"
  unfolding apply_relocation_riscv_def Let_def by (auto intro!: reloc_errs)

lemma reloc_errors_aarch64 [reloc_errs]: "reloc_errors (fst (apply_relocation_aarch64 p s a t st))"
  unfolding apply_relocation_aarch64_def Let_def by (auto intro!: reloc_errs)

text \<open>The two architectures of the kernel.\<close>

definition native_relocate :: "mod_env \<Rightarrow> bool" where
  "native_relocate env \<longleftrightarrow> me_relocate env = apply_relocation_riscv \<or> me_relocate env = apply_relocation_aarch64"

lemma reloc_errors_ok_or [reloc_errs, simp]: "reloc_errors (ok_or SymbolNotFound x)"
  by (cases x) auto

lemma reloc_errors_symbol_value [reloc_errs]: "reloc_errors (fst (symbol_value env addrs s name st))"
  by (auto simp: symbol_value_def Let_def split: prod.split option.split)

lemma reloc_errors_apply:
  assumes "native_relocate env"
  shows "reloc_errors (fst (apply_relocations env elf addrs st))"
proof -
  have *: "reloc_errors (fst (me_relocate env p s a t st))" for p s a t st
    using assms by (auto simp: native_relocate_def intro: reloc_errs)
  have "reloc_errors (fst (apply_rela env elf addrs syms base rela st))" for syms base rela st
    unfolding apply_rela_def Let_def using * by (auto intro!: reloc_errs split: prod.split) (metis fst_conv)
  then show ?thesis unfolding apply_relocations_def Let_def by (auto intro!: reloc_errs split: option.split)
qed

lemma prepare_module_errors:
  assumes "native_relocate env"
  shows "reloc_errors (fst (prepare_module env elf name pages ms))"
  using reloc_errors_apply [OF assms] reloc_errors_sections
  unfolding prepare_module_def Let_def by (auto intro!: reloc_errs split: prod.split outcome.split) (metis fst_conv reloc_errors_simps(3))+

text \<open>
  What is asked of the code of the modules: \<open>module_init\<close> and \<open>module_exit\<close> leave the list of modules alone; in addition, they give back the
  frames they take, or do not use the allocator at all.
\<close>

definition code_keeps_list :: "mod_env \<Rightarrow> bool" where
  "code_keeps_list env \<longleftrightarrow> (\<forall>a ms. ms_modules (snd (me_init env a ms)) = ms_modules ms \<and> ms_modules (me_exit env a ms) = ms_modules ms)"

definition same_frames :: "FrameAllocator \<Rightarrow> FrameAllocator \<Rightarrow> bool" where
  "same_frames fa fa' \<longleftrightarrow> (fa_wf fa \<longrightarrow> fa_wf fa' \<and> held_frames fa' = held_frames fa)"

definition code_balanced :: "mod_env \<Rightarrow> bool" where
  "code_balanced env \<longleftrightarrow> code_keeps_list env \<and>
     (\<forall>a ms. same_frames (ms_frames ms) (ms_frames (snd (me_init env a ms))) \<and> same_frames (ms_frames ms) (ms_frames (me_exit env a ms)))"

definition code_keeps :: "mod_env \<Rightarrow> bool" where
  "code_keeps env \<longleftrightarrow> (\<forall>a ms. ms_frames (snd (me_init env a ms)) = ms_frames ms \<and> ms_modules (snd (me_init env a ms)) = ms_modules ms \<and>
     ms_frames (me_exit env a ms) = ms_frames ms \<and> ms_modules (me_exit env a ms) = ms_modules ms)"

lemma same_frames_refl [simp]: "same_frames fa fa"
  by (simp add: same_frames_def)

lemma LoadedModule_init_keeps:
  assumes "code_keeps_list env" "LoadedModule_init env m ms = (r, ms')"
  shows "ms_modules ms' = ms_modules ms" "r \<noteq> Panic" "\<And>e. r = Err e \<Longrightarrow> \<not> reloc_error e"
    "code_balanced env \<Longrightarrow> same_frames (ms_frames ms) (ms_frames ms')"
  using assms by (auto simp: LoadedModule_init_def code_keeps_list_def code_balanced_def split: option.splits prod.splits if_splits) (metis snd_conv)+

lemma LoadedModule_exit_keeps:
  "code_keeps_list env \<Longrightarrow> ms_modules (LoadedModule_exit env m ms) = ms_modules ms"
  "code_balanced env \<Longrightarrow> same_frames (ms_frames ms) (ms_frames (LoadedModule_exit env m ms))"
  by (auto simp: LoadedModule_exit_def code_keeps_list_def code_balanced_def split: option.split)

lemma unload_last:
  assumes "code_keeps_list env" "name \<notin> set (module_list ms)" "ms_modules ms' = ms_modules ms @ [m]" "lm_name m = name" "lm_ref_count m = 0" "\<not> lm_unloading m"
  shows "\<exists>ms'' fa. unload env name ms' = (Ok (), ms'') \<and> ms_modules ms'' = ms_modules ms \<and> ms_frames ms'' = free_all (lm_pages m) fa \<and>
    (code_balanced env \<longrightarrow> same_frames (ms_frames ms') fa)"
proof -
  define s where "s = on_module (length (ms_modules ms)) (\<lambda>m. m\<lparr>lm_unloading := True\<rparr>) ms'"
  have mark: "unload_mark name ms' = (Ok (), s)"
    using find_module_appended [OF assms(2-4)] assms(3,6) by (simp add: unload_mark_def s_def)
  have s: "ms_modules s = ms_modules ms @ [m\<lparr>lm_unloading := True\<rparr>]" "ms_frames s = ms_frames ms'" by (simp_all add: s_def on_module_def assms(3))
  have found: "find_module name s = Some (length (ms_modules ms))" by (rule find_module_appended [OF assms(2) s(1)]) (simp add: assms(4))
  then have check: "unload_check name s = (Ok (), s)" using s assms(5) by (simp add: unload_check_def)
  note exit = LoadedModule_exit_keeps(1) [OF assms(1), of "m\<lparr>lm_unloading := True\<rparr>" s] LoadedModule_exit_keeps(2) [of env s "m\<lparr>lm_unloading := True\<rparr>"]
  show ?thesis unfolding unload_def using exit s(2)
    by (intro exI [of _ "snd (unload_remove env name s)"] exI [of _ "ms_frames (LoadedModule_exit env (m\<lparr>lm_unloading := True\<rparr>) s)"])
      (simp add: act_bind_def mark check unload_remove_def found Let_def s(1) vec_remove_def)
qed

text \<open>The number of frames of a module: those of its sections and one for the linkage table.\<close>

definition module_pages :: "Elf64 \<Rightarrow> nat" where
  "module_pages elf = unat ((section_memory_size elf + of_nat PAGE_SIZE - 1) div of_nat PAGE_SIZE) + 1"

lemma load_object_cases:
  assumes "load_object env data name ms = (r, ms')" "r \<noteq> Panic"
  obtains (early) e where "r = Err e" "\<not> reloc_error e" "ms' = ms"
  | (memory) fa n e where "r = Err e" "alloc_module_pages n [] (ms_frames ms) = (Err e, fa)" "ms' = ms\<lparr>ms_frames := fa\<rparr>"
  | (prepare) pages fa elf e where "alloc_module_pages (module_pages elf) [] (ms_frames ms) = (Ok pages, fa)"
      "prepare_module env elf name pages (ms\<lparr>ms_frames := fa\<rparr>) = (Err e, ms')" "r = Err e" "Elf64_parse (me_machine env) data = Ok elf"
  | (init) pages fa elf m ms1 ms2 where "alloc_module_pages (module_pages elf) [] (ms_frames ms) = (Ok pages, fa)"
      "prepare_module env elf name pages (ms\<lparr>ms_frames := fa\<rparr>) = (Ok m, ms1)"
      "LoadedModule_init env m ms1 = (Ok (), ms2)" "r = Ok m" "ms' = ms2\<lparr>ms_modules := ms_modules ms2 @ [m]\<rparr>" "Elf64_parse (me_machine env) data = Ok elf"
  | (failed) pages fa elf m ms1 ms2 e where "alloc_module_pages (module_pages elf) [] (ms_frames ms) = (Ok pages, fa)"
      "prepare_module env elf name pages (ms\<lparr>ms_frames := fa\<rparr>) = (Ok m, ms1)"
      "LoadedModule_init env m ms1 = (Err e, ms2)" "r = Err e" "ms' = ms2\<lparr>ms_frames := free_all (lm_pages m) (ms_frames ms2)\<rparr>" "Elf64_parse (me_machine env) data = Ok elf"
  supply alloc_module_pages.simps [simp del]
proof (cases "Elf64_parse (me_machine env) data")
  case (Ok elf)
  note parsed = Ok
  let ?n = "unat ((section_memory_size elf + of_nat PAGE_SIZE - 1) div of_nat PAGE_SIZE)"
  have n: "module_pages elf = Suc ?n" by (simp add: module_pages_def)
  note L = assms(1) [unfolded load_object_def, unfolded act_bind_def act_lift_def, simplified Ok map_err.simps, simplified]
  show thesis
  proof (cases "file_type elf = ET_Rel")
    case False
    then show thesis using L early [of InvalidFormat] by (simp add: act_fail_def)
  next
    case True
    obtain p fa where a: "alloc_module_pages (Suc ?n) [] (ms_frames ms) = (p, fa)" by fastforce
    show thesis
    proof (cases p)
      case (Ok pages)
      obtain q ms1 where q: "prepare_module env elf name pages (ms\<lparr>ms_frames := fa\<rparr>) = (q, ms1)" by fastforce
      show thesis
      proof (cases q)
        case (Ok m)
        obtain i ms2 where i: "LoadedModule_init env m ms1 = (i, ms2)" by fastforce
        show thesis using L True a \<open>p = outcome.Ok pages\<close> q Ok i assms(2) init [OF a [folded n, unfolded \<open>p = _\<close>] q [unfolded Ok]] failed [OF a [folded n, unfolded \<open>p = _\<close>] q [unfolded Ok]] parsed
          by (cases i) (auto simp: Let_def act_bind_def)
      qed (use L True a Ok q assms(2) prepare [OF a [folded n, unfolded Ok]] parsed in \<open>auto simp: Let_def act_bind_def\<close>)
    qed (use L True a assms(2) memory in \<open>auto simp: Let_def act_bind_def\<close>)
  qed
next
  case (Err e)
  then have "r = Err (ElfError e)" "ms' = ms" using assms(1) by (auto simp: load_object_def act_bind_def act_lift_def)
  then show thesis by (intro early) auto
next
  case Panic
  then show thesis using assms by (auto simp: load_object_def act_bind_def act_lift_def)
qed

lemma alloc_first_pages:
  assumes "fa_wf fa"
  shows "alloc_module_pages n [] fa = (Ok ps, fa') \<Longrightarrow>
      fa_wf fa' \<and> length ps = n \<and> distinct ps \<and> set ps \<inter> held_frames fa = {} \<and> held_frames fa' = held_frames fa \<union> set ps"
    and "alloc_module_pages n [] fa = (Err e, fa') \<Longrightarrow> e = OutOfMemory \<and> held_frames fa' = held_frames fa"
  using alloc_module_pages_held [OF assms, of "[]" n] by (auto split: prod.splits)

text \<open>
  C10. The page frames of a module. When the module's own code gives back the frames it takes, loading an object takes new frames, as many as the sections
  need and one more; unloading the module, which no one uses, gives back exactly these and
  restores the list of modules. When loading fails because the file is no relocatable object, memory is short or \<open>module_init\<close> fails, no frame
  stays taken; when it fails because of a missing symbol or a relocation, all frames of the module stay taken, and no one knows them.
\<close>

theorem module_frames_accounted:
  assumes "fa_wf (ms_frames ms)" "native_relocate env" "code_balanced env" "name \<notin> set (module_list ms)" "load_object env data name ms = (r, ms')"
  shows "case r of
      Ok m \<Rightarrow> (\<exists>elf. Elf64_parse (me_machine env) data = Ok elf \<and> length (lm_pages m) = module_pages elf) \<and> distinct (lm_pages m) \<and>
        set (lm_pages m) \<inter> held_frames (ms_frames ms) = {} \<and> held_frames (ms_frames ms') = held_frames (ms_frames ms) \<union> set (lm_pages m) \<and>
        (\<exists>ms''. unload env name ms' = (Ok (), ms'') \<and> held_frames (ms_frames ms'') = held_frames (ms_frames ms) \<and> ms_modules ms'' = ms_modules ms)
    | Err e \<Rightarrow> ms_modules ms' = ms_modules ms \<and>
        (if reloc_error e
         then \<exists>elf pages. Elf64_parse (me_machine env) data = Ok elf \<and> length pages = module_pages elf \<and> distinct pages \<and>
           set pages \<inter> held_frames (ms_frames ms) = {} \<and> held_frames (ms_frames ms') = held_frames (ms_frames ms) \<union> set pages
         else held_frames (ms_frames ms') = held_frames (ms_frames ms))
    | Panic \<Rightarrow> True"
proof (cases "r = Panic")
  case False
  have keeps: "code_keeps_list env" using assms(3) by (simp add: code_balanced_def)
  from assms(5) False show ?thesis
  proof (cases rule: load_object_cases)
    case early
    then show ?thesis by simp
  next
    case (memory fa n e)
    then show ?thesis using alloc_first_pages(2) [OF assms(1) memory(2)] by simp
  next
    case (prepare pages fa elf e)
    have "reloc_error e" using prepare_module_errors [OF assms(2), of elf name pages "ms\<lparr>ms_frames := fa\<rparr>"] prepare(2) by simp
    moreover have "ms_frames ms' = fa" "ms_modules ms' = ms_modules ms" using prepare_module_keeps(1,2) [OF prepare(2)] by simp_all
    ultimately show ?thesis using alloc_first_pages(1) [OF assms(1) prepare(1)] prepare(3,4) by auto
  next
    case (init pages fa elf m ms1 ms2)
    note pages = alloc_first_pages(1) [OF assms(1) init(1)]
    note m = prepare_module_keeps [OF init(2)]
    note i = LoadedModule_init_keeps [OF keeps init(3)]
    have mods: "ms_modules ms' = ms_modules ms @ [m]" using m(2) i(1) init(5) by simp
    have fr: "fa_wf (ms_frames ms')" "held_frames (ms_frames ms') = held_frames (ms_frames ms) \<union> set pages"
      using i(4) [OF assms(3)] m(1) init(5) pages by (simp_all add: same_frames_def)
    have mf: "lm_pages m = pages" "lm_name m = name" "lm_ref_count m = 0" "\<not> lm_unloading m" using m(3) by simp_all
    obtain ms'' fa' where u: "unload env name ms' = (Ok (), ms'')" "ms_modules ms'' = ms_modules ms" "ms_frames ms'' = free_all pages fa'" "same_frames (ms_frames ms') fa'"
      using unload_last [OF keeps assms(4) mods mf(2-4)] mf(1) assms(3) by auto
    have "held_frames (ms_frames ms'') = held_frames (ms_frames ms)"
      using free_all_held [of fa' pages] pages u(3,4) fr by (auto simp: same_frames_def)
    then show ?thesis using init(4,6) pages mf(1) fr(2) u(1,2) by auto
  next
    case (failed pages fa elf m ms1 ms2 e)
    note pages = alloc_first_pages(1) [OF assms(1) failed(1)]
    note m = prepare_module_keeps [OF failed(2)]
    note i = LoadedModule_init_keeps [OF keeps failed(3)]
    have "same_frames fa (ms_frames ms2)" using i(4) [OF assms(3)] m(1) by simp
    then have "held_frames (free_all pages (ms_frames ms2)) = held_frames (ms_frames ms)"
      using free_all_held [of "ms_frames ms2" pages] pages by (auto simp: same_frames_def)
    then show ?thesis using failed(4,5) m i by simp
  qed
qed simp


text \<open>A module of one empty symbol table.\<close>

definition demo_object :: bytes where
  "demo_object = elf_image (demo_header\<lparr>e_shnum := 1, e_shstrndx := 0\<rparr>)
     [\<lparr>sh_name = 0, sh_type = SHT_SYMTAB, sh_flags = 0, sh_addr = 0, sh_offset = 0, sh_size = 0, sh_link = 0, sh_info = 0, sh_addralign = 0, sh_entsize = 24\<rparr>] []"

definition demo_env :: mod_env where
  "demo_env = \<lparr>me_machine = EM_RiscV, me_relocate = apply_relocation_riscv, me_addr_of = (\<lambda>_. 0), me_tests = [], me_init = (\<lambda>_ ms. (0, ms)), me_exit = (\<lambda>_ ms. ms)\<rparr>"

definition demo_modules :: mstate where
  "demo_modules = \<lparr>ms_frames = six_pages 1 1 1, ms_mem = (\<lambda>_. 0), ms_symbols = None, ms_modules = []\<rparr>"

lemma demo_object_parse:
  "\<exists>elf. Elf64_parse EM_RiscV demo_object = Ok elf \<and> file_type elf = ET_Rel \<and> section_memory_size elf = 0 \<and>
     (\<forall>mem. load_sections elf 4096 (elf_sections elf) 0 mem = (Ok [0], mem)) \<and> symbol_table elf = (Ok (Some (hd (elf_sections elf), [])) :: (_, ModuleError) outcome) \<and>
     (\<forall>sh \<in> set (elf_sections elf). relocations elf sh = (Ok None :: (_, ModuleError) outcome))"
proof -
  let ?h = "demo_header\<lparr>e_shnum := 1, e_shstrndx := 0\<rparr>"
  let ?s = "\<lparr>sh_name = 0, sh_type = SHT_SYMTAB, sh_flags = 0, sh_addr = 0, sh_offset = 0, sh_size = 0, sh_link = 0, sh_info = 0, sh_addralign = 0, sh_entsize = 24\<rparr>"
  have ident: "length (e_ident ?h) = 16" by (simp add: demo_header_def ELF_MAGIC_def)
  have header: "header_of demo_object = ?h" using header_of_bytes [OF ident] by (simp add: demo_object_def elf_image_def)
  have len: "length demo_object = 128" using length_header_bytes [OF ident] by (simp add: demo_object_def elf_image_def)
  have secs: "structs_at section_of 64 demo_object 64 1 = Ok [?s]" using structs_at_image [OF ident, of "[?s]" "[]"] by (simp add: demo_object_def)
  have "Elf64_parse EM_RiscV demo_object =
    Ok \<lparr>elf_data = demo_object, elf_header = ?h, elf_sections = [?s], elf_programs = None, elf_shstrtab = []\<rparr>"
    unfolding Elf64_parse_def header len using secs
    by (simp add: demo_header_def ELF_MAGIC_def ElfMachine_from_def data_range_def)
  then show ?thesis
    by (simp add: file_type_def ElfType_from_def demo_header_def section_memory_size_def symbol_table_def section_data_def data_range_def structs_at_def
        relocations_def SHT_SYMTAB_def SHT_RELA_def SHT_NOBITS_def act_bind_def act_return_def)
qed

lemma prepare_empty_module:
  assumes "load_sections elf (of_nat (hd pages)) (elf_sections elf) 0 (mem_write (of_nat (hd pages)) (replicate (length pages * PAGE_SIZE) 0) (ms_mem ms)) = (Ok addrs, mem)"
    and table: "symbol_table elf = (Ok (Some (sh, [])) :: (_, ModuleError) outcome)"
    and relas: "\<forall>sh \<in> set (elf_sections elf). relocations elf sh = (Ok None :: (_, ModuleError) outcome)"
  shows "\<exists>m ms'. prepare_module env elf name pages ms = (Ok m, ms') \<and> lm_pages m = pages \<and> lm_init_fn m = None"
proof -
  have "act_for shs (\<lambda>sh. act_bind (act_lift (\<lambda>_. relocations elf sh)) (\<lambda>relas. case relas of None \<Rightarrow> act_return () | Some r \<Rightarrow> g sh r)) st = (Ok (), st)"
    if "set shs \<subseteq> set (elf_sections elf)" for shs and g :: "_ \<Rightarrow> _ \<Rightarrow> (reloc_loop, unit, ModuleError) act" and st
    using that relas by (induction shs) (auto simp: act_bind_def act_lift_def act_return_def)
  then have "apply_relocations env elf addrs st = (Ok (), st)" for st
    using table unfolding apply_relocations_def by (simp add: act_bind_def act_lift_def)
  moreover have "module_function elf addrs f = Ok None" "module_exports elf addrs = Ok []" for f
    using table by (simp_all add: module_function_def find_symbol_def module_exports_def)
  ultimately show ?thesis using assms(1) by (simp add: prepare_module_def Let_def)
qed

lemma demo_module_pages: "alloc_module_pages (Suc 0) [] (six_pages 1 1 1) = (Ok [4096], six_pages 3 2 2)"
  by (simp add: alloc_frame_def alloc_page_def six_eval)

lemma demo_object_loads:
  "\<exists>m ms'. load_object demo_env demo_object ''m'' demo_modules = (Ok m, ms') \<and> lm_pages m = [4096]"
  supply alloc_module_pages.simps [simp del]
proof -
  obtain elf where elf: "Elf64_parse EM_RiscV demo_object = Ok elf" "file_type elf = ET_Rel" "section_memory_size elf = 0"
    "load_sections elf 4096 (elf_sections elf) 0 mem = (Ok [0], mem)" "symbol_table elf = (Ok (Some (hd (elf_sections elf), [])) :: (_, ModuleError) outcome)"
    "\<forall>sh \<in> set (elf_sections elf). relocations elf sh = (Ok None :: (_, ModuleError) outcome)" for mem
    using demo_object_parse by auto
  let ?ms = "demo_modules\<lparr>ms_frames := six_pages 3 2 2\<rparr>"
  obtain m ms' where "prepare_module demo_env elf ''m'' [4096] ?ms = (Ok m, ms')" "lm_pages m = [4096]" "lm_init_fn m = None"
    using prepare_empty_module [OF _ elf(5,6), of "[4096]" ?ms "[0]" _ demo_env "''m''"] elf(4) by auto
  moreover have "unat ((0 + word_of_nat PAGE_SIZE - 1) div word_of_nat PAGE_SIZE :: u64) = 0" by (simp add: PAGE_SIZE_def)
  ultimately show ?thesis using elf(1-3) demo_module_pages
    by (simp add: load_object_def act_bind_def act_lift_def demo_env_def demo_modules_def LoadedModule_init_def)
qed

theorem module_frames_accounted_witness:
  "\<exists>m ms' ms''. load_object demo_env demo_object ''m'' demo_modules = (Ok m, ms') \<and> held_frames (ms_frames ms') = {0, 4096} \<and>
     unload demo_env ''m'' ms' = (Ok (), ms'') \<and> held_frames (ms_frames ms'') = {0}"
proof -
  obtain m ms' where m: "load_object demo_env demo_object ''m'' demo_modules = (Ok m, ms')" "lm_pages m = [4096]" using demo_object_loads by auto
  have "fa_wf (ms_frames demo_modules)" using live_wf(1) [OF fa_run_live_inv [OF fa_run.init [OF six_pages_init]]] by (simp add: demo_modules_def)
  moreover have "native_relocate demo_env" "code_balanced demo_env" "''m'' \<notin> set (module_list demo_modules)"
    by (simp_all add: native_relocate_def code_balanced_def code_keeps_list_def demo_env_def module_list_def demo_modules_def)
  moreover have "held_frames (ms_frames demo_modules) = {0}"
    unfolding held_frames_def demo_modules_def mstate.simps six_pages_in_use by (auto simp: page_addr_def six_pages_def bit_1_iff intro!: image_eqI [of _ _ 0])
  ultimately show ?thesis using module_frames_accounted [of demo_modules demo_env "''m''" demo_object "Ok m" ms'] m by auto
qed

section \<open>References\<close>

text \<open>Histories of whole calls, with the guards that are held.\<close>

inductive mod_run :: "mod_env \<Rightarrow> mstate \<Rightarrow> string multiset \<Rightarrow> bool" for env where
  start: "ms_modules ms = [] \<Longrightarrow> mod_run env ms {#}"
| load: "mod_run env ms G \<Longrightarrow> name \<notin> set (module_list ms) \<Longrightarrow> load_object env data name ms = (Ok m, ms') \<Longrightarrow> mod_run env ms' G"
| fail: "mod_run env ms G \<Longrightarrow> load_object env data name ms = (Err e, ms') \<Longrightarrow> mod_run env ms' G"
| acquire: "mod_run env ms G \<Longrightarrow> size G < 2 ^ 64 - 1 \<Longrightarrow> acquire name ms = (Ok g, ms') \<Longrightarrow> mod_run env ms' (add_mset g G)"
| drop: "mod_run env ms G \<Longrightarrow> g \<in># G \<Longrightarrow> mod_run env (ModuleRef_drop g ms) (G - {#g#})"
| unload: "mod_run env ms G \<Longrightarrow> unload env name ms = (r, ms') \<Longrightarrow> mod_run env ms' G"

definition guards_counted :: "LoadedModule list \<Rightarrow> string multiset \<Rightarrow> bool" where
  "guards_counted mods G \<longleftrightarrow> distinct (map lm_name mods) \<and> set_mset G \<subseteq> lm_name ` set mods \<and>
     (\<forall>m \<in> set mods. unat (lm_ref_count m) = count G (lm_name m) \<and> \<not> lm_unloading m)"

lemma find_module_Some:
  assumes "find_module name ms = Some i"
  shows "i < length (ms_modules ms)" "lm_name (ms_modules ms ! i) = name"
  using position_SomeD [OF assms [unfolded find_module_def]] by auto

lemma find_module_None: "find_module name ms = None \<longleftrightarrow> name \<notin> lm_name ` set (ms_modules ms)"
  by (auto simp: find_module_def position_None_iff)

lemma guards_counted_update:
  assumes "guards_counted mods G" "i < length mods" "lm_name m = lm_name (mods ! i)" "\<not> lm_unloading m"
    and "unat (lm_ref_count m) = count G' (lm_name m)" "set_mset G' \<subseteq> lm_name ` set mods"
    and "\<And>n. n \<noteq> lm_name m \<Longrightarrow> count G' n = count G n"
  shows "guards_counted (mods[i := m]) G'"
proof -
  have names: "map lm_name (mods[i := m]) = map lm_name mods" using assms(2,3) by (simp add: map_update list_update_same_conv)
  have "unat (lm_ref_count x) = count G' (lm_name x) \<and> \<not> lm_unloading x" if "x \<in> set (mods[i := m])" for x
  proof -
    from that obtain j where j: "j < length mods" "x = mods[i := m] ! j" by (auto simp: in_set_conv_nth)
    show ?thesis
    proof (cases "j = i")
      case False
      then have "lm_name (mods ! j) \<noteq> lm_name m"
        using assms(1,2,3) j(1) nth_eq_iff_index_eq [of "map lm_name mods" j i] by (simp add: guards_counted_def)
      then show ?thesis using assms(1,7) j False by (simp add: guards_counted_def)
    qed (use j assms in simp)
  qed
  then show ?thesis using assms(1,6) names unfolding guards_counted_def by (metis list.set_map)
qed

lemma guards_counted_remove:
  assumes "guards_counted mods G" "i < length mods" "lm_ref_count (mods ! i) = 0"
  shows "guards_counted (vec_remove i mods) G"
proof -
  have split: "mods = take i mods @ mods ! i # drop (Suc i) mods" using assms(2) by (simp add: id_take_nth_drop)
  have "count G (lm_name (mods ! i)) = unat (lm_ref_count (mods ! i))" using assms(1,2) nth_mem [of i mods] by (simp add: guards_counted_def)
  then have "lm_name (mods ! i) \<notin># G" using assms(3) by (simp flip: count_eq_zero_iff)
  moreover have "set mods = insert (mods ! i) (set (vec_remove i mods))" by (subst split) (simp add: vec_remove_def)
  moreover have "distinct (map lm_name (take i mods @ mods ! i # drop (Suc i) mods))" using assms(1) by (subst (asm) split) (simp only: guards_counted_def flip: split)
  then have "distinct (map lm_name (vec_remove i mods))" by (simp add: vec_remove_def)
  ultimately show ?thesis using assms(1) by (auto simp: guards_counted_def)
qed

lemma find_module_cong: "map lm_name (ms_modules s) = map lm_name (ms_modules ms) \<Longrightarrow> find_module name s = find_module name ms"
proof -
  have "position (\<lambda>m. lm_name m = name) mods = position (\<lambda>n. n = name) (map lm_name mods)" for mods by (induction mods) auto
  then show "map lm_name (ms_modules s) = map lm_name (ms_modules ms) \<Longrightarrow> ?thesis" unfolding find_module_def by metis
qed

lemma find_module_on_module:
  assumes "\<And>m. lm_name (f m) = lm_name m"
  shows "find_module name (on_module i f ms) = find_module name ms"
proof (rule find_module_cong)
  show "map lm_name (ms_modules (on_module i f ms)) = map lm_name (ms_modules ms)"
    by (cases "i < length (ms_modules ms)") (simp_all add: on_module_def map_update list_update_same_conv list_update_beyond assms)
qed

lemma acquire_Ok:
  assumes "acquire name ms = (Ok g, ms')"
  obtains i where "g = name" "find_module name ms = Some i" "\<not> lm_unloading (ms_modules ms ! i)"
    "ms' = on_module i (\<lambda>m. m\<lparr>lm_ref_count := lm_ref_count m + 1\<rparr>) ms"
  using assms by (auto simp: acquire_def act_bind_def acquire_look_def acquire_count_def act_modify_def act_return_def split: option.splits if_splits)

lemma unload_counted:
  assumes "guards_counted (ms_modules ms) G" "code_keeps_list env"
  shows "case find_module name ms of
      None \<Rightarrow> unload env name ms = (Err ModNotFound, ms)
    | Some i \<Rightarrow> if lm_ref_count (ms_modules ms ! i) > 0 then unload env name ms = (Err InUse, ms)
        else fst (unload env name ms) = Ok () \<and> ms_modules (snd (unload env name ms)) = vec_remove i (ms_modules ms)"
proof (cases "find_module name ms")
  case None
  then show ?thesis by (simp add: unload_def act_bind_def unload_mark_def)
next
  case (Some i)
  note i = find_module_Some [OF Some]
  define s where "s = on_module i (\<lambda>m. m\<lparr>lm_unloading := True\<rparr>) ms"
  have un: "\<not> lm_unloading (ms_modules ms ! i)" using assms(1) i(1) by (simp add: guards_counted_def)
  then have mark: "unload_mark name ms = (Ok (), s)" using Some by (simp add: unload_mark_def s_def)
  have s: "ms_modules s ! i = (ms_modules ms ! i)\<lparr>lm_unloading := True\<rparr>" "ms_frames s = ms_frames ms" "ms_modules s = (ms_modules ms)[i := (ms_modules ms ! i)\<lparr>lm_unloading := True\<rparr>]"
    using i(1) by (simp_all add: s_def on_module_def)
  have found: "find_module name s = Some i" unfolding s_def using Some by (subst find_module_on_module) simp_all
  show ?thesis
  proof (cases "lm_ref_count (ms_modules ms ! i) > 0")
    case True
    have "(ms_modules ms ! i)\<lparr>lm_unloading := False\<rparr> = ms_modules ms ! i" using un by (cases "ms_modules ms ! i") simp
    then have "on_module i (\<lambda>m. m\<lparr>lm_unloading := False\<rparr>) s = ms" using i(1) by (simp add: s_def on_module_def)
    then show ?thesis using Some True mark found s by (simp add: unload_def act_bind_def unload_check_def)
  next
    case False
    note exit = LoadedModule_exit_keeps(1) [OF assms(2)]
    have "vec_remove i (ms_modules s) = vec_remove i (ms_modules ms)" by (simp add: vec_remove_def s)
    then show ?thesis using Some False mark found s exit by (simp add: unload_def act_bind_def unload_check_def unload_remove_def Let_def)
  qed
qed

lemma mod_run_counted:
  assumes "code_keeps_list env" "mod_run env ms G"
  shows "guards_counted (ms_modules ms) G"
  using assms(2)
proof induction
  case (load ms G name data m ms')
  have "Ok m \<noteq> (Panic :: (_, ModuleError) outcome)" by simp
  from load.hyps(3) this have "ms_modules ms' = ms_modules ms @ [m] \<and> lm_name m = name \<and> lm_ref_count m = 0 \<and> \<not> lm_unloading m"
  proof (cases rule: load_object_cases)
    case (init pages fa elf m' ms1 ms2)
    then show ?thesis using prepare_module_keeps [OF init(2)] LoadedModule_init_keeps [OF assms(1) init(3)] by simp
  qed simp_all
  moreover have "count G name = 0" using load.IH load.hyps(2) by (auto simp: guards_counted_def module_list_def count_eq_zero_iff)
  ultimately show ?case using load.IH load.hyps(2) by (auto simp: guards_counted_def module_list_def)
next
  case (fail ms G data name e ms')
  have "Err e \<noteq> (Panic :: (LoadedModule, _) outcome)" by simp
  from fail.hyps(2) this have "ms_modules ms' = ms_modules ms"
  proof (cases rule: load_object_cases)
    case (prepare pages fa elf e')
    then show ?thesis using prepare_module_keeps(2) [OF prepare(2)] by simp
  next
    case (failed pages fa elf m' ms1 ms2 e')
    then show ?thesis using prepare_module_keeps(2) [OF failed(2)] LoadedModule_init_keeps(1) [OF assms(1) failed(3)] by simp
  qed simp_all
  then show ?case using fail.IH by simp
next
  case (acquire ms G name g ms')
  from acquire.hyps(3) obtain i where i: "g = name" "find_module name ms = Some i"
    "ms' = on_module i (\<lambda>m. m\<lparr>lm_ref_count := lm_ref_count m + 1\<rparr>) ms" by (rule acquire_Ok)
  note f = find_module_Some [OF i(2)]
  have c: "unat (lm_ref_count (ms_modules ms ! i)) = count G name" using acquire.IH f by (simp add: guards_counted_def)
  moreover have "count G name < 2 ^ 64 - 1" using acquire.hyps(2) count_le_size [of G name] by simp
  ultimately have "unat (lm_ref_count (ms_modules ms ! i) + 1) = Suc (count G name)" by (simp add: unat_word_ariths)
  then show ?case using acquire.IH f unfolding i(1,3) on_module_def
    by (simp, intro guards_counted_update [where G = G]) (auto simp: guards_counted_def)
next
  case (drop ms G g)
  then obtain i where i: "find_module g ms = Some i" using find_module_None [of g ms] by (cases "find_module g ms") (auto simp: guards_counted_def)
  note f = find_module_Some [OF i]
  have c: "unat (lm_ref_count (ms_modules ms ! i)) = count G g" using drop.IH f by (simp add: guards_counted_def)
  moreover have "0 < count G g" using drop.hyps(2) by simp
  ultimately have "unat (lm_ref_count (ms_modules ms ! i) - 1) = count G g - 1" by (simp add: unat_sub_if' unat_gt_0)
  then show ?case using drop.IH f i unfolding ModuleRef_drop_def on_module_def
    by (simp, intro guards_counted_update [where G = G]) (auto simp: guards_counted_def dest: in_diffD)
next
  case (unload ms G name r ms')
  show ?case
  proof (cases "find_module name ms")
    case None
    then show ?thesis using unload_counted [OF unload.IH assms(1), of name] unload by simp
  next
    case (Some i)
    then show ?thesis using unload_counted [OF unload.IH assms(1), of name] unload guards_counted_remove [OF unload.IH find_module_Some(1) [OF Some]]
      by (auto split: if_splits simp: word_gt_0)
  qed
qed (simp add: guards_counted_def)

text \<open>
  C21. References. In every history of loading, acquiring, dropping and unloading, each call running alone and module code that leaves the list of modules alone,
  a module with a guard out cannot be unloaded: \<open>unload\<close> reports that it is in use and changes nothing, the module is in the list and its count is the number of its guards.
\<close>

theorem guard_keeps_module:
  assumes "code_keeps_list env" "mod_run env ms G" "g \<in># G"
  shows "unload env g ms = (Err InUse, ms) \<and>
    (\<exists>i < length (ms_modules ms). lm_name (ms_modules ms ! i) = g \<and> unat (lm_ref_count (ms_modules ms ! i)) = count G g)"
proof -
  note inv = mod_run_counted [OF assms(1,2)]
  then obtain i where i: "find_module g ms = Some i" using assms(3) find_module_None [of g ms] by (cases "find_module g ms") (auto simp: guards_counted_def)
  note f = find_module_Some [OF i]
  have c: "unat (lm_ref_count (ms_modules ms ! i)) = count G g" using inv f by (simp add: guards_counted_def)
  moreover have "0 < count G g" using assms(3) by simp
  ultimately have "lm_ref_count (ms_modules ms ! i) > 0" by (metis unat_gt_0 word_neq_0_conv)
  then show ?thesis using unload_counted [OF inv assms(1), of g] i c f by auto
qed

lemma demo_object_loaded:
  "\<exists>m ms. load_object demo_env demo_object ''m'' demo_modules = (Ok m, ms) \<and> ms_modules ms = [m] \<and> lm_name m = ''m'' \<and> lm_ref_count m = 0 \<and> \<not> lm_unloading m"
proof -
  have k: "code_keeps_list demo_env" by (simp add: code_keeps_list_def demo_env_def)
  obtain m ms where m: "load_object demo_env demo_object ''m'' demo_modules = (Ok m, ms)" using demo_object_loads by auto
  have "Ok m \<noteq> (Panic :: (_, ModuleError) outcome)" by simp
  from m this have "ms_modules ms = [m] \<and> lm_name m = ''m'' \<and> lm_ref_count m = 0 \<and> \<not> lm_unloading m"
  proof (cases rule: load_object_cases)
    case (init pages fa elf m' ms1 ms2)
    then show ?thesis using prepare_module_keeps [OF init(2)] LoadedModule_init_keeps [OF k init(3)] by (simp add: demo_modules_def)
  qed simp_all
  then show ?thesis using m by blast
qed

theorem guard_keeps_module_witness:
  "\<exists>ms. ms_modules ms \<noteq> [] \<and> mod_run demo_env ms {#''m''#} \<and> unload demo_env ''m'' ms = (Err InUse, ms)"
proof -
  have k: "code_keeps_list demo_env" by (simp add: code_keeps_list_def demo_env_def)
  obtain m ms where m: "load_object demo_env demo_object ''m'' demo_modules = (Ok m, ms)" "ms_modules ms = [m]" "lm_name m = ''m''" "\<not> lm_unloading m"
    using demo_object_loaded by blast
  have "mod_run demo_env demo_modules {#}" by (rule mod_run.start) (simp add: demo_modules_def)
  then have run: "mod_run demo_env ms {#}" by (rule mod_run.load [OF _ _ m(1)]) (simp add: module_list_def demo_modules_def)
  have "\<exists>ms'. acquire ''m'' ms = (Ok ''m'', ms') \<and> ms_modules ms' \<noteq> []"
    using m(2-4) by (simp add: acquire_def act_bind_def acquire_look_def acquire_count_def act_modify_def act_return_def find_module_def on_module_def)
  then obtain ms' where a: "acquire ''m'' ms = (Ok ''m'', ms')" "ms_modules ms' \<noteq> []" by blast
  have "mod_run demo_env ms' {#''m''#}" by (rule mod_run.acquire [OF run _ a(1)]) simp
  then show ?thesis using guard_keeps_module [OF k, of ms' "{#''m''#}" "''m''"] a(2) by auto
qed

text \<open>
  The same calls, interleaved. \<open>acquire\<close> holds the lock of the list for reading from the look at the flag to the end of the call; \<open>unload\<close>
  takes it for reading in its first two parts and for writing in the third, which has to wait for an \<open>acquire\<close> under way.
\<close>

datatype acquirer = Outside | Looked | Holding

datatype unloader = Ready | Marked | Checked | Finished

inductive race_step :: "mod_env \<Rightarrow> string \<Rightarrow> mstate \<times> acquirer \<times> unloader \<Rightarrow> mstate \<times> acquirer \<times> unloader \<Rightarrow> bool" for env name where
  look: "acquire_look name ms = (Ok (), ms') \<Longrightarrow> race_step env name (ms, Outside, u) (ms', Looked, u)"
| count: "race_step env name (ms, Looked, u) (acquire_count name ms, Holding, u)"
| mark: "unload_mark name ms = (Ok (), ms') \<Longrightarrow> race_step env name (ms, a, Ready) (ms', a, Marked)"
| check: "unload_check name ms = (Ok (), ms') \<Longrightarrow> race_step env name (ms, a, Marked) (ms', a, Checked)"
| remove: "a \<noteq> Looked \<Longrightarrow> unload_remove env name ms = (Ok (), ms') \<Longrightarrow> race_step env name (ms, a, Checked) (ms', a, Finished)"

inductive_simps race_step_outside: "race_step env name (ms, Outside, u) s"
inductive_simps race_step_looked: "race_step env name (ms, Looked, u) s"

text \<open>
  C26. Interleaved calls. From every state with an unused module, there is an interleaving of one \<open>acquire\<close> and one \<open>unload\<close> after which the
  acquirer holds its guard, the module is gone from the list and its frames are free: the look at the flag and the count are two steps.
\<close>

theorem unload_races_acquire:
  assumes "code_keeps env" "find_module name ms = Some i" "\<not> lm_unloading (ms_modules ms ! i)" "lm_ref_count (ms_modules ms ! i) = 0"
  shows "\<exists>ms'. (race_step env name)\<^sup>*\<^sup>* (ms, Outside, Ready) (ms', Holding, Finished) \<and>
    ms_modules ms' = vec_remove i (ms_modules ms) \<and> ms_frames ms' = free_all (lm_pages (ms_modules ms ! i)) (ms_frames ms)"
proof -
  note i = find_module_Some [OF assms(2)]
  define s where "s = on_module i (\<lambda>m. m\<lparr>lm_unloading := True\<rparr>) ms"
  define t where "t = on_module i (\<lambda>m. m\<lparr>lm_ref_count := lm_ref_count m + 1\<rparr>) s"
  define v where "v = snd (unload_remove env name t)"
  have found: "find_module name s = Some i" "find_module name t = Some i" using assms(2) by (simp_all add: s_def t_def find_module_on_module)
  have exit: "ms_frames (LoadedModule_exit env m t) = ms_frames t" "ms_modules (LoadedModule_exit env m t) = ms_modules t" for m
    using assms(1) by (auto simp: LoadedModule_exit_def code_keeps_def split: option.split)
  have look: "acquire_look name ms = (Ok (), ms)" using assms(2,3) by (simp add: acquire_look_def)
  have mark: "unload_mark name ms = (Ok (), s)" using assms(2,3) by (simp add: unload_mark_def s_def)
  have check: "unload_check name s = (Ok (), s)" using found assms(4) i(1) by (simp add: unload_check_def s_def on_module_def)
  have count: "acquire_count name s = t" using found by (simp add: acquire_count_def t_def)
  have remove: "unload_remove env name t = (Ok (), v)" using found by (simp add: unload_remove_def v_def Let_def)
  have v: "ms_modules v = vec_remove i (ms_modules ms)" "ms_frames v = free_all (lm_pages (ms_modules ms ! i)) (ms_frames ms)"
    using found i(1) by (simp_all add: v_def unload_remove_def Let_def exit) (simp_all add: t_def s_def on_module_def vec_remove_def)
  have "(race_step env name)\<^sup>*\<^sup>* (ms, Outside, Ready) (v, Holding, Finished)"
    using race_step.look [OF look, of env Ready] race_step.mark [OF mark, of env Looked] race_step.check [OF check, of env Looked]
      race_step.count [of env name s Checked, unfolded count] race_step.remove [OF _ remove, of Holding]
    by (rule rtranclp.rtrancl_into_rtrancl [OF rtranclp.rtrancl_into_rtrancl [OF rtranclp.rtrancl_into_rtrancl [OF rtranclp.rtrancl_into_rtrancl [OF r_into_rtranclp]]]]) simp_all
  then show ?thesis using v by blast
qed

theorem unload_races_acquire_witness:
  "\<exists>m ms ms'. ms_modules ms = [m] \<and> (race_step demo_env ''m'')\<^sup>*\<^sup>* (ms, Outside, Ready) (ms', Holding, Finished) \<and> ms_modules ms' = []"
proof -
  have k: "code_keeps demo_env" by (simp add: code_keeps_def demo_env_def)
  obtain m ms where "load_object demo_env demo_object ''m'' demo_modules = (Ok m, ms)" "ms_modules ms = [m]" "lm_name m = ''m''" "lm_ref_count m = 0" "\<not> lm_unloading m"
    using demo_object_loaded by blast
  moreover from this have "find_module ''m'' ms = Some 0" by (simp add: find_module_def)
  ultimately show ?thesis using unload_races_acquire [OF k, of "''m''" ms 0] by (auto simp: vec_remove_def)
qed

end
