(* ===== verification/Module_Path.thy ===== *)
theory Module_Path
  imports Module_Loader Ram_Fs
begin

text \<open>
  Loading of a module from a path, the end of \<open>src/module/loader.rs\<close>: the file is looked up in the mounted file systems, read as a whole and
  handed to the loader. The client lemma holds for every store of regular files.
\<close>

text \<open>\<open>str::trim_end_matches\<close> of a non-empty pattern takes it off as often as it is there.\<close>

function trim_end_matches :: "string \<Rightarrow> string \<Rightarrow> string" where
  "trim_end_matches pat s = (if pat \<noteq> [] \<and> suffix pat s then trim_end_matches pat (take (length s - length pat) s) else s)"
  by pat_completeness auto
termination by (relation "measure (\<lambda>(pat, s). length s)") (auto simp: suffix_def)

declare trim_end_matches.simps [simp del]

definition path_module_name :: "string \<Rightarrow> string" where
  "path_module_name path = trim_end_matches ''.o'' (trim_end_matches ''.ko'' (last (split_on CHR ''/'' path)))"

definition load_from_path ::
    "mod_env \<Rightarrow> ('s, 'v) vnode_ops \<Rightarrow> ('f \<Rightarrow> 'v) \<Rightarrow> 'f Vfs \<Rightarrow> string \<Rightarrow> ('s \<times> mstate, LoadedModule, ModuleError) act" where
  "load_from_path env ops fs_root vfs path = (\<lambda>(s, ms).
     case lookup_path fs_root (\<lambda>v name. vn_lookup ops v name s) vfs path of
       Panic \<Rightarrow> (Panic, (s, ms))
     | Err _ \<Rightarrow> (Err ModNotFound, (s, ms))
     | Ok node \<Rightarrow>
         case vn_stat ops node s of
           Panic \<Rightarrow> (Panic, (s, ms))
         | Err _ \<Rightarrow> (Err ModNotFound, (s, ms))
         | Ok st \<Rightarrow>
             if stat_size st = 0 then (Err ModuleError.InvalidFormat, (s, ms))
             else case vn_read ops node 0 (unat (stat_size st)) s of
                    (Panic, s) \<Rightarrow> (Panic, (s, ms))
                  | (Err _, s) \<Rightarrow> (Err ModNotFound, (s, ms))
                  | (Ok data, s) \<Rightarrow>
                      case load_object env (overwrite (replicate (unat (stat_size st)) 0) 0 data) (path_module_name path) ms of
                        (r, ms) \<Rightarrow> (r, (s, ms)))"

text \<open>From a store of regular files, the whole file is loaded.\<close>

context file_store
begin

lemma load_from_store:
  assumes "inv s" "contents s v = Some xs" "xs \<noteq> []" "lookup_path fs_root (\<lambda>v name. vn_lookup ops v name s) vfs path = Ok v"
  shows "load_from_path env ops fs_root vfs path (s, ms) = (case load_object env xs (path_module_name path) ms of (r, ms) \<Rightarrow> (r, (s, ms)))"
proof -
  obtain st where st: "vn_stat ops v s = Ok st" "stat_size st = of_nat (length xs)" using stat_law [OF assms(1,2)] by blast
  have "length xs < 2 ^ 64" using contents_bound [OF assms(1,2)] by (simp add: isize_max_def)
  then have "unat (stat_size st) = length xs" using st(2) by (simp add: unat_of_nat_small)
  moreover from this have "stat_size st \<noteq> 0" using assms(3) by auto
  ultimately show ?thesis using assms(4) st(1) read_law [OF assms(1,2), of 0 "length xs"] by (simp add: load_from_path_def overwrite_def)
qed

end

lemma load_from_ramfs:
  assumes "heap_fits h" "ram_contents h v = Some xs" "xs \<noteq> []" "lookup_path fs_root (\<lambda>v name. vn_lookup ram_ops v name h) vfs path = Ok v"
  shows "load_from_path env ram_ops fs_root vfs path (h, ms) = (case load_object env xs (path_module_name path) ms of (r, ms) \<Rightarrow> (r, (h, ms)))"
  using ram_files.load_from_store [OF assms] .

lemma last_split_on: "c \<notin> set w \<Longrightarrow> last (split_on c (u @ c # w)) = w"
proof -
  assume w: "c \<notin> set w"
  have "split_on c (u @ c # w) = split_on c u @ split_on c w" by (induction u) (auto split: list.splits)
  then show ?thesis using w by simp
qed

text \<open>The name of a module is that of its file without the extension.\<close>

lemma path_module_name_ko:
  assumes "CHR ''/'' \<notin> set stem" "\<not> suffix ''.ko'' stem" "\<not> suffix ''.o'' stem"
  shows "path_module_name (dir @ ''/'' @ stem @ ''.ko'') = stem"
proof -
  have "last (split_on CHR ''/'' (dir @ ''/'' @ stem @ ''.ko'')) = stem @ ''.ko''" using last_split_on [of "CHR ''/''" "stem @ ''.ko''" dir] assms(1) by simp
  moreover have "trim_end_matches ''.ko'' (stem @ ''.ko'') = stem" using assms(2) by (subst trim_end_matches.simps, subst trim_end_matches.simps) (simp add: suffixI)
  moreover have "trim_end_matches ''.o'' stem = stem" using assms(3) by (subst trim_end_matches.simps) simp
  ultimately show ?thesis by (simp add: path_module_name_def)
qed

end
