(* ===== verification/Spec2Isabelle.thy ===== *)
theory Spec2Isabelle
  imports Frame_Alloc Fat_Folder Sem_Pool Msg_Queue Syscall Dev_Fs Virtio_Blk Module_Life Module_Path
begin

text \<open>
  Verification of the kernel \<open>kerners\<close>, a small operating system in Rust for AArch64 and RISC-V.

  \<^bold>\<open>The program.\<close> The kernel hands out page frames (\<open>src/mm/page.rs\<close>), runs threads on several processors
  (\<open>src/proc/\<close>), and offers semaphores and message queues to them (\<open>src/sync/semaphore.rs\<close>,
  \<open>src/ipc/message_queue.rs\<close>). Its file system layer (\<open>src/fs/mod.rs\<close>, \<open>src/fs/path.rs\<close>) mounts a memory file
  system (\<open>src/fs/ramfs/\<close>), a device file system (\<open>src/fs/devfs/\<close>) and FAT32 volumes (\<open>src/fs/fat32/\<close>); descriptor
  tables (\<open>src/fs/fd.rs\<close>) and the system calls (\<open>src/syscall/\<close>) stand on top. Below FAT32 and the block nodes of the
  device file system are block devices (\<open>src/block/\<close>): a RAM disk, and a VirtIO disk over virtqueues and
  memory-mapped registers (\<open>src/virtio/\<close>), whose interrupts come through the RISC-V interrupt controller
  (\<open>src/arch/riscv64/plic.rs\<close>). Modules are ELF files that the loader (\<open>src/module/\<close>) places in page frames,
  relocates against the kernel's symbols, and unloads again.

  \<^bold>\<open>Conventions.\<close> Theory \<open>Prelude\<close> has the vocabulary. Arithmetic is that of a release build. A \<open>usize\<close> that the
  length of a container or an earlier check bounds is a \<^typ>\<open>nat\<close>; every other machine integer is a word of its
  width, and wraps. A function that returns a \<open>Result\<close> or may panic has an outcome: \<open>Ok\<close>, \<open>Err\<close> or \<open>Panic\<close>; one that also
  mutates is an action, a function from a state to an outcome and a state. A read outside a file or a slice through an
  unchecked pointer is a \<open>Panic\<close> as well. Code that waits is an \<open>option\<close>, \<open>None\<close> when it waits forever. A lock makes
  what it protects one step; where the code releases a lock in between, the parts are separate definitions, and step
  relations interleave them. Devices, the code of modules and the console are parameters.

  \<^bold>\<open>Memory and processes.\<close>
  \<^item> \<open>Frame_Alloc\<close>: the bitmap allocator of \<open>src/mm/page.rs\<close>, with the record \<^typ>\<open>FrameAllocator\<close> for the structure of
    that name. In every history live blocks are disjoint and inside the pool and the statistics are right; requests fail
    exactly when there is no run on one side of the search position. The locale \<open>frame_pool\<close> is what users of single frames rely on.
  \<^item> \<open>Sched\<close>: \<open>src/proc/mod.rs\<close>, \<open>percpu.rs\<close>, \<open>scheduler.rs\<close> and the layout of \<open>context.rs\<close>. No thread is current on two
    processors, ready threads get their turn within one round, and the window between the release of the lock and the
    context switch loses registers.
  \<^item> \<open>Sem_Pool\<close>, \<open>Msg_Queue\<close>: semaphores with the interleavings of their atomic accesses, the resource pool, and the
    queues and channels. A semaphore grants no more units than it was given, whoever releases; the bounded queue is first-in first-out (locale \<open>bounded_fifo\<close>), the
    unbounded one delivers by priority.

  \<^bold>\<open>Files.\<close>
  \<^item> \<open>Rust_Str\<close>, \<open>Vfs_Path\<close>, \<open>Vnode\<close>: strings as their UTF-8 bytes, paths, the mount table, and the trait \<open>VNode\<close> as a
    record of methods. The locale \<open>file_store\<close> is the contract of regular files, \<open>vnode_sim\<close> a simulation between two
    implementations. Paths have a normal form, and \<open>find_mount\<close> finds the deepest mount point by components.
  \<^item> \<open>Ram_Fs\<close>: the memory file system as a heap of nodes. It refines a tree from paths to nodes and is a \<open>file_store\<close>.
  \<^item> \<open>Fd_Table\<close>, \<open>Syscall\<close>: open files and descriptors over any file system, and the system calls. The table refines a
    map; a file that is created, written, read and closed through system calls gives back what was written; a call returns
    a count or a negative error number when the file system returns no more than the length of a buffer and the memory is
    smaller than \<open>2^63\<close> bytes, since counts are returned as \<open>isize\<close>.
  \<^item> \<open>Fat_Boot\<close>, \<open>Fat_Table\<close>, \<open>Fat_Chain\<close>, \<open>Fat_Dir\<close>, \<open>Fat_Cluster\<close>, \<open>Fat_File\<close>, \<open>Fat_Folder\<close>: one theory per layer of
    FAT32, from the boot sector to directories. Allocation is all or nothing, chains are read exactly and without running
    forever on cyclic tables, truncation keeps a prefix, a file holds what was written to it, and creating, looking up and
    removing directory entries fit together, in directories with long names too; removing a file that has a long name gives
    that name to the next file.
  \<^item> \<open>Dev_Fs\<close>: the device nodes. A block node is a flat file over any block device.

  \<^bold>\<open>Devices.\<close>
  \<^item> \<open>Block_Dev\<close>: the trait, the registry and the RAM disk. The locale \<open>block_device\<close> is the contract that \<open>Fat_Table\<close> and
    \<open>Dev_Fs\<close> build on; the RAM disk is an instance.
  \<^item> \<open>Virtq\<close>, \<open>Virtio_Mmio\<close>, \<open>Plic\<close>, \<open>Virtio_Blk\<close>: the split virtqueue, the registers and the interrupt table, the
    interrupt controller, and the block driver. For every interleaving with a device that keeps to the protocol the
    queue refines a set of outstanding requests, as long as no chain has only buffers to read (such a chain corrupts the list of
    free descriptors); with a disk behind it the driver reads and writes blocks of that
    disk; its waiting ends whatever the device does; an external interrupt reaches the flag of its device.

  \<^bold>\<open>Modules.\<close>
  \<^item> \<open>Memory\<close>, \<open>Elf\<close>, \<open>Kernel_Sym\<close>: bytes and words in memory, the ELF parser with its structures as records, the
    symbol table and the memory functions offered to modules. When the tables have entries of the right size the parser reads nothing outside the file.
  \<^item> \<open>Reloc\<close>: the linkage table and the relocation types of both architectures. A relocated instruction, decoded as the
    processor does, reaches exactly the symbol plus the addend, and nothing else changes.
  \<^item> \<open>Module_Loader\<close>, \<open>Module_Life\<close>, \<open>Module_Path\<close>: loading of objects, executables and files, the list of modules, and
    unloading. Sections are placed in order, aligned and with their contents, but not always inside the memory that was
    reserved; frames are given back, except after a failed relocation, by modules whose own code gives back what it takes; guards keep a module from being unloaded when calls run one at a time, and not when they interleave.

  \<^bold>\<open>Bounds.\<close> Loops with a counter are recursive functions over that counter: the search of the frame allocator makes as many steps as the
  pool has pages, the walk along a cluster chain at most as far as the volume has clusters, the polling of the block
  driver as often as the code says. The loops that have no bound in the code are partial functions into \<open>option\<close>: acquiring a
  semaphore, freeing a chain of descriptors, and waiting for the references of a module. For the first the claim
  is about its atomic steps, for the second that it returns on well-formed queues, for the third that it returns when there is
  a limit.

  \<^bold>\<open>Not modelled.\<close> Boot sequence, shell and test runner (\<open>src/main.rs\<close>, \<open>src/console.rs\<close>, \<open>src/test_runner.rs\<close>) are
  console output and calls into the parts above. The processor support under \<open>src/arch/\<close>, apart from the RISC-V interrupt
  controller, and \<open>src/proc/user.rs\<close> are inline assembly, system registers and page tables that only the hardware interprets. The
  locks, sequence locks and read-copy-update of \<open>src/sync/\<close> depend on memory orderings; the development takes them as
  atomic and does not verify them. The heap (\<open>src/mm/heap.rs\<close>) wraps a library; running out of heap is left out. The
  parser of device trees (\<open>src/dtb/mod.rs\<close>, of which only the description of a device is used), the boards, the driver
  configuration and the log are tables and output; \<open>src/module/test_symbols.rs\<close> wraps operations of other parts for
  test modules.
\<close>

end
